(* ===== verification/Pal_Prelude.thy ===== *)
theory Pal_Prelude
  imports Main "HOL-Library.Word" "HOL-Library.Char_ord" "HOL-Library.List_Lexorder"
begin

text \<open>
  Shared vocabulary of the development: the widths of the machine integers the Rust sources
  use, the saturating and checked operations of the standard library on them, byte strings,
  and the \<open>Result\<close> combinators. A Rust \<open>u64\<close> is a \<open>64 word\<close> compared as an unsigned number;
  an \<open>i64\<close> is a \<open>64 word\<close> read through \<open>sint\<close>. A Rust \<open>String\<close> is its UTF-8 byte sequence,
  a \<open>char list\<close>, so \<open>length\<close> is \<open>str::len\<close>. A \<open>Result<T, E>\<close> is \<open>'e + 'a\<close>, \<open>Inl\<close> the error.
\<close>

type_synonym u8 = "8 word"
type_synonym u16 = "16 word"
type_synonym u32 = "32 word"
type_synonym u64 = "64 word"
type_synonym i32 = "32 word"
type_synonym i64 = "64 word"
type_synonym bytes = "u8 list"

named_theorems sat_unat

section \<open>Saturating and checked arithmetic\<close>

definition sat_add :: "'a::len word \<Rightarrow> 'a word \<Rightarrow> 'a word" where
  "sat_add a b = (if unat a + unat b < 2 ^ LENGTH('a) then a + b else - 1)"

definition sat_sub :: "'a::len word \<Rightarrow> 'a word \<Rightarrow> 'a word" where
  "sat_sub a b = (if b \<le> a then a - b else 0)"

definition checked_add :: "'a::len word \<Rightarrow> 'a word \<Rightarrow> 'a word option" where
  "checked_add a b = (if unat a + unat b < 2 ^ LENGTH('a) then Some (a + b) else None)"

definition i64_of_int_sat :: "int \<Rightarrow> i64" where
  "i64_of_int_sat x = word_of_int (max (- (2 ^ 63)) (min (2 ^ 63 - 1) x))"

definition i64_sat_add :: "i64 \<Rightarrow> i64 \<Rightarrow> i64" where
  "i64_sat_add a b = i64_of_int_sat (sint a + sint b)"

definition i64_sat_sub :: "i64 \<Rightarrow> i64 \<Rightarrow> i64" where
  "i64_sat_sub a b = i64_of_int_sat (sint a - sint b)"

definition i64_checked_sub :: "i64 \<Rightarrow> i64 \<Rightarrow> i64 option" where
  "i64_checked_sub a b =
     (let d = sint a - sint b
      in if - (2 ^ 63) \<le> d \<and> d < 2 ^ 63 then Some (word_of_int d) else None)"

definition u64_try_from_i64 :: "i64 \<Rightarrow> u64 option" where
  "u64_try_from_i64 a = (if 0 \<le> sint a then Some a else None)"

lemma unat_less_pow: "unat (a :: 'a::len word) < 2 ^ LENGTH('a)"
  by (rule unsigned_less)

lemma unat_sat_add [sat_unat]:
  "unat (sat_add a b :: 'a::len word) = min (unat a + unat b) (2 ^ LENGTH('a) - 1)"
proof (cases "unat a + unat b < 2 ^ LENGTH('a)")
  case True
  then show ?thesis by (simp add: sat_add_def unat_word_ariths)
next
  case False
  then show ?thesis by (simp add: sat_add_def unsigned_minus_1_eq_mask mask_eq_exp_minus_1)
qed

lemma unat_sat_sub [sat_unat]: "unat (sat_sub a b) = unat a - unat b"
  by (auto simp: sat_sub_def unat_sub word_le_nat_alt)

lemma sat_add_ge [simp]: "a \<le> sat_add a b"
proof -
  have "unat a \<le> 2 ^ LENGTH('a) - 1" using unat_less_pow [of a] by linarith
  then show ?thesis by (simp add: word_le_nat_alt sat_unat)
qed

lemma sat_sub_le [simp]: "sat_sub a b \<le> a"
  by (simp add: word_le_nat_alt sat_unat)

lemma sat_add_mono: "b \<le> c \<Longrightarrow> sat_add a b \<le> sat_add a c"
  by (simp add: word_le_nat_alt sat_unat min_le_iff_disj)

lemma sat_sub_mono: "b \<le> c \<Longrightarrow> sat_sub b a \<le> sat_sub c a"
  by (simp add: word_le_nat_alt sat_unat)

lemma sat_add_zero [simp]: "sat_add a 0 = a"
  by (simp add: sat_add_def)

lemma sat_sub_self [simp]: "sat_sub a a = 0"
  by (simp add: sat_sub_def)

lemma sat_add_one_eq_zero [simp]: "sat_add a (1 :: 'a::len word) = 0 \<longleftrightarrow> False"
proof -
  have "(1::nat) < 2 ^ LENGTH('a)" by (rule one_less_power) simp_all
  then have "unat (sat_add a 1) \<noteq> 0" by (simp add: sat_unat)
  then show ?thesis by (auto simp: unat_eq_0)
qed

lemma checked_add_Some_iff:
  "checked_add a b = Some (c :: 'a::len word) \<longleftrightarrow> unat c = unat a + unat b"
proof
  assume "checked_add a b = Some c"
  then show "unat c = unat a + unat b"
    by (auto simp: checked_add_def unat_word_ariths split: if_splits)
next
  assume eq: "unat c = unat a + unat b"
  with unat_less_pow [of c] have lt: "unat a + unat b < 2 ^ LENGTH('a)" by simp
  then have "unat (a + b) = unat c" by (simp add: unat_word_ariths eq)
  then have "a + b = c" by (rule word_unat_eq_iff [THEN iffD2])
  with lt show "checked_add a b = Some c" by (simp add: checked_add_def)
qed

lemma checked_add_one_greater: "checked_add a 1 = Some c \<Longrightarrow> a < c"
  by (auto simp: checked_add_Some_iff word_less_nat_alt unat_1)

lemma sint_i64_of_int_sat [sat_unat]:
  "sint (i64_of_int_sat x) = max (- (2 ^ 63)) (min (2 ^ 63 - 1) x)"
proof -
  let ?y = "max (- (2 ^ 63)) (min (2 ^ 63 - 1) x) :: int"
  have lo: "- (2 ^ 63) \<le> ?y" and hi: "?y < 2 ^ 63" by auto
  have "sint (word_of_int ?y :: 64 word) = signed_take_bit 63 ?y"
    by (simp add: sint_sbintrunc')
  also have "\<dots> = ?y"
    by (rule signed_take_bit_int_eq_self) (use lo hi in auto)
  finally show ?thesis by (simp add: i64_of_int_sat_def)
qed

lemma sint_i64_bounds: "- (2 ^ 63) \<le> sint (a :: i64)" "sint (a :: i64) < 2 ^ 63"
  using sint_range_size [of a] by (auto simp: word_size)

lemma uint_eq_sint_nonneg: "0 \<le> sint (a :: i64) \<Longrightarrow> uint a = sint a"
proof -
  assume nonneg: "0 \<le> sint a"
  have "uint a = sint a mod 2 ^ 64"
    by (simp add: uint_sint take_bit_eq_mod)
  also have "\<dots> = sint a"
    by (rule mod_pos_pos_trivial) (use nonneg sint_i64_bounds [of a] in auto)
  finally show ?thesis .
qed

section \<open>Big-endian bytes\<close>

definition u64_to_be_bytes :: "u64 \<Rightarrow> bytes" where
  "u64_to_be_bytes a = map (\<lambda>i. ucast (drop_bit (8 * i) a)) [7, 6, 5, 4, 3, 2, 1, 0]"

lemma length_u64_to_be_bytes [simp]: "length (u64_to_be_bytes a) = 8"
  by (simp add: u64_to_be_bytes_def)

lemma bytes_determine_word:
  assumes "LENGTH('a) \<le> 8 * n"
    and "\<And>i. i < n \<Longrightarrow> (ucast (drop_bit (8 * i) a) :: u8) = ucast (drop_bit (8 * i) b)"
  shows "a = (b :: 'a::len word)"
proof (rule bit_word_eqI)
  fix k assume k: "k < LENGTH('a)"
  have bit: "bit c k = bit (ucast (drop_bit (8 * (k div 8)) c) :: u8) (k mod 8)" for c :: "'a word"
    by (simp add: bit_simps)
  show "bit a k = bit b k"
    unfolding bit [of a] bit [of b] using assms(2) [of "k div 8"] assms(1) k by simp
qed

lemma u64_to_be_bytes_inject [simp]: "u64_to_be_bytes a = u64_to_be_bytes b \<longleftrightarrow> a = b"
proof
  assume eq: "u64_to_be_bytes a = u64_to_be_bytes b"
  show "a = b"
  proof (rule bytes_determine_word [of 8])
    show "(ucast (drop_bit (8 * i) a) :: u8) = ucast (drop_bit (8 * i) b)" if "i < 8" for i
    proof -
      have "i \<in> set [7, 6, 5, 4, 3, 2, 1, 0]" using that by auto
      then show ?thesis using eq unfolding u64_to_be_bytes_def map_eq_conv by blast
    qed
  qed simp
qed simp

definition u32_to_be_bytes :: "u32 \<Rightarrow> bytes" where
  "u32_to_be_bytes a = map (\<lambda>i. ucast (drop_bit (8 * i) a)) [3, 2, 1, 0]"

lemma length_u32_to_be_bytes [simp]: "length (u32_to_be_bytes a) = 4"
  by (simp add: u32_to_be_bytes_def)

lemma u32_to_be_bytes_inject [simp]: "u32_to_be_bytes a = u32_to_be_bytes b \<longleftrightarrow> a = b"
proof
  assume eq: "u32_to_be_bytes a = u32_to_be_bytes b"
  show "a = b"
  proof (rule bytes_determine_word [of 4])
    show "(ucast (drop_bit (8 * i) a) :: u8) = ucast (drop_bit (8 * i) b)" if "i < 4" for i
    proof -
      have "i \<in> set [3, 2, 1, 0]" using that by auto
      then show ?thesis using eq unfolding u32_to_be_bytes_def map_eq_conv by blast
    qed
  qed simp
qed simp

text \<open>The \<open>TryFrom<i32>\<close> generated for a protobuf enumeration: the variant with this number, if there is one.\<close>

definition enum_try_from :: "('e \<Rightarrow> i32) \<Rightarrow> 'e list \<Rightarrow> i32 \<Rightarrow> 'e option" where
  "enum_try_from number variants raw = find (\<lambda>v. number v = raw) variants"

lemma enum_try_from_iff:
  assumes "distinct (map number variants)" "v \<in> set variants"
  shows "enum_try_from number variants raw = Some v \<longleftrightarrow> raw = number v"
proof
  assume "enum_try_from number variants raw = Some v"
  then show "raw = number v" by (auto simp: enum_try_from_def find_Some_iff)
next
  assume "raw = number v"
  then show "enum_try_from number variants raw = Some v"
    using assms unfolding enum_try_from_def by (induction variants) (auto simp: rev_image_eqI)
qed

section \<open>Results\<close>

definition and_then :: "'e + 'a \<Rightarrow> ('a \<Rightarrow> 'e + 'b) \<Rightarrow> 'e + 'b" where
  "and_then r k = (case r of Inl e \<Rightarrow> Inl e | Inr a \<Rightarrow> k a)"

definition map_err :: "('e \<Rightarrow> 'f) \<Rightarrow> 'e + 'a \<Rightarrow> 'f + 'a" where
  "map_err f r = (case r of Inl e \<Rightarrow> Inl (f e) | Inr a \<Rightarrow> Inr a)"

definition ensure :: "bool \<Rightarrow> 'e \<Rightarrow> 'e + unit" where
  "ensure b e = (if b then Inr () else Inl e)"

lemma and_then_simps [simp]:
  "and_then (Inl e) k = Inl e"
  "and_then (Inr a) k = k a"
  by (simp_all add: and_then_def)

lemma map_err_simps [simp]:
  "map_err f (Inl e) = Inl (f e)"
  "map_err f (Inr a) = Inr a"
  by (simp_all add: map_err_def)

lemma and_then_eq_Inr: "and_then r k = Inr b \<longleftrightarrow> (\<exists>a. r = Inr a \<and> k a = Inr b)"
  by (cases r) auto

lemma map_err_eq_Inr [simp]: "map_err f r = Inr a \<longleftrightarrow> r = Inr a"
  by (cases r) auto

lemma map_err_eq_Inl: "map_err f r = Inl e \<longleftrightarrow> (\<exists>e'. r = Inl e' \<and> e = f e')"
  by (cases r) auto

lemma ensure_eq_Inr [simp]: "ensure b e = Inr u \<longleftrightarrow> b"
  by (simp add: ensure_def)

lemma ensure_eq_Inl [simp]: "ensure b e = Inl e' \<longleftrightarrow> \<not> b \<and> e = e'"
  by (auto simp: ensure_def)

text \<open>A \<open>for\<close> loop that only checks, and one that replaces each item; both return the first error.\<close>

fun check_each :: "('x \<Rightarrow> 'e + unit) \<Rightarrow> 'x list \<Rightarrow> 'e + unit" where
  "check_each f [] = Inr ()"
| "check_each f (x # xs) = and_then (f x) (\<lambda>_. check_each f xs)"

fun try_map :: "('x \<Rightarrow> 'e + 'y) \<Rightarrow> 'x list \<Rightarrow> 'e + 'y list" where
  "try_map f [] = Inr []"
| "try_map f (x # xs) = and_then (f x) (\<lambda>y. and_then (try_map f xs) (\<lambda>ys. Inr (y # ys)))"

lemma check_each_Inr: "check_each f xs = Inr u \<longleftrightarrow> (\<forall>x\<in>set xs. f x = Inr ())"
  by (induction xs) (auto simp: and_then_eq_Inr)

lemma try_map_Inr: "try_map f xs = Inr ys \<longleftrightarrow> list_all2 (\<lambda>x y. f x = Inr y) xs ys"
  by (induction xs arbitrary: ys) (auto simp: and_then_eq_Inr list_all2_Cons1)

lemma try_map_cong:
  "(\<And>x. x \<in> set xs \<Longrightarrow> f x = g x) \<Longrightarrow> try_map f xs = try_map g xs"
  by (induction xs) simp_all

lemma try_map_map: "try_map f (map g xs) = try_map (\<lambda>x. f (g x)) xs"
  by (induction xs) simp_all

section \<open>Strings\<close>

definition is_ascii :: "string \<Rightarrow> bool" where
  "is_ascii s = list_all (\<lambda>c. (of_char c :: nat) < 128) s"

definition is_ascii_digit :: "char \<Rightarrow> bool" where
  "is_ascii_digit c = (let n = (of_char c :: nat) in 48 \<le> n \<and> n \<le> 57)"

definition is_ascii_lower :: "char \<Rightarrow> bool" where
  "is_ascii_lower c = (let n = (of_char c :: nat) in 97 \<le> n \<and> n \<le> 122)"

definition is_ascii_upper :: "char \<Rightarrow> bool" where
  "is_ascii_upper c = (let n = (of_char c :: nat) in 65 \<le> n \<and> n \<le> 90)"

definition is_ascii_alphanumeric :: "char \<Rightarrow> bool" where
  "is_ascii_alphanumeric c = (is_ascii_digit c \<or> is_ascii_lower c \<or> is_ascii_upper c)"

definition to_ascii_lower :: "char \<Rightarrow> char" where
  "to_ascii_lower c = (if is_ascii_upper c then char_of ((of_char c :: nat) + 32) else c)"

definition eq_ignore_ascii_case :: "string \<Rightarrow> string \<Rightarrow> bool" where
  "eq_ignore_ascii_case a b = (map to_ascii_lower a = map to_ascii_lower b)"

text \<open>
  \<open>trim().is_empty()\<close>: the text consists of characters with the Unicode property \<open>White_Space\<close>, read off
  their UTF-8 encodings.
\<close>

fun blank_bytes :: "nat list \<Rightarrow> bool" where
  "blank_bytes [] = True"
| "blank_bytes (a # rest) =
     (if 9 \<le> a \<and> a \<le> 13 \<or> a = 32 then blank_bytes rest
      else case rest of
        [] \<Rightarrow> False
      | b # rest \<Rightarrow>
          if a = 0xC2 \<and> (b = 0x85 \<or> b = 0xA0) then blank_bytes rest
          else (case rest of
                  [] \<Rightarrow> False
                | c # rest \<Rightarrow>
                    if a = 0xE1 \<and> b = 0x9A \<and> c = 0x80
                       \<or> a = 0xE2 \<and> b = 0x80 \<and> (0x80 \<le> c \<and> c \<le> 0x8A \<or> c = 0xA8 \<or> c = 0xA9 \<or> c = 0xAF)
                       \<or> a = 0xE2 \<and> b = 0x81 \<and> c = 0x9F
                       \<or> a = 0xE3 \<and> b = 0x80 \<and> c = 0x80
                    then blank_bytes rest else False))"

text \<open>\<open>trim()\<close> leaves the text alone: neither end is such a character, which takes at most three bytes.\<close>

definition is_trimmed :: "string \<Rightarrow> bool" where
  "is_trimmed s = list_all (\<lambda>k. length s < k
     \<or> \<not> blank_bytes (take k (map of_char s)) \<and> \<not> blank_bytes (drop (length s - k) (map of_char s))) [1, 2, 3]"

section \<open>Lists\<close>

lemma sorted_distinct_remdups_adj:
  "sorted xs \<Longrightarrow> distinct (remdups_adj xs)"
proof (induction xs rule: remdups_adj.induct)
  case (3 x y xs)
  have "x \<notin> set (remdups_adj (y # xs))" if "x \<noteq> y"
    using 3 that by (auto simp del: remdups_adj.simps)
  with 3 show ?case by (auto simp del: remdups_adj_set)
qed simp_all

lemma distinct_remdups_adj_sort: "distinct (remdups_adj (sort xs))"
  by (simp add: sorted_distinct_remdups_adj)

lemma distinct_filter_append_disjoint:
  "distinct xs \<Longrightarrow> distinct ys \<Longrightarrow> set xs \<inter> set ys = {} \<Longrightarrow> distinct (xs @ ys)"
  by simp

lemma foldl_invariant:
  "P s \<Longrightarrow> (\<And>s x. P s \<Longrightarrow> x \<in> set xs \<Longrightarrow> P (f s x)) \<Longrightarrow> P (foldl f s xs)"
  by (induction xs arbitrary: s) auto


lemma map_insort_key: "map g (insort_key (\<lambda>x. f (g x)) x xs) = insort_key f (g x) (map g xs)"
  by (induction xs) auto

lemma sort_key_map: "sort_key f (map g xs) = map g (sort_key (\<lambda>x. f (g x)) xs)"
  by (induction xs) (simp_all add: map_insort_key)

section \<open>Loops over a sequence of items\<close>

text \<open>
  A \<open>for\<close> loop whose body may return early with an error: the state reached is kept either way.
\<close>

fun try_each :: "('x \<Rightarrow> 's \<Rightarrow> ('e + unit) \<times> 's) \<Rightarrow> 'x list \<Rightarrow> 's \<Rightarrow> ('e + unit) \<times> 's" where
  "try_each body [] s = (Inr (), s)"
| "try_each body (x # xs) s =
     (case body x s of (Inl e, s') \<Rightarrow> (Inl e, s') | (Inr _, s') \<Rightarrow> try_each body xs s')"

text \<open>
  The loop rule: an iteration keeps the invariant, establishes its own goal and does not undo the
  goals and preconditions of the other items.
\<close>

lemma try_each_establishes:
  assumes run: "try_each body xs s = (res, s')" and inv: "Inv s" and "distinct xs"
    and pre: "\<And>x. x \<in> set xs \<Longrightarrow> Pre x s"
    and ok: "\<And>x s s'. \<lbrakk>x \<in> set xs; Inv s; Pre x s; body x s = (Inr (), s')\<rbrakk> \<Longrightarrow> Inv s' \<and> Post x s'"
    and other: "\<And>x y s s'. \<lbrakk>x \<in> set xs; y \<noteq> x; Inv s; Pre x s; body x s = (Inr (), s')\<rbrakk>
        \<Longrightarrow> (Pre y s \<longrightarrow> Pre y s') \<and> (Post y s \<longrightarrow> Post y s')"
    and err: "\<And>x s s' e. \<lbrakk>x \<in> set xs; Inv s; Pre x s; body x s = (Inl e, s')\<rbrakk> \<Longrightarrow> Err e s'"
  shows "case res of Inl e \<Rightarrow> Err e s'
     | Inr _ \<Rightarrow> Inv s' \<and> (\<forall>y. y \<in> set xs \<or> Post y s \<longrightarrow> Post y s')"
  using assms
proof (induction xs arbitrary: s)
  case Nil
  then show ?case by auto
next
  case (Cons x xs)
  obtain r1 s1 where body: "body x s = (r1, s1)" by (cases "body x s")
  have px: "Pre x s" and x: "x \<in> set (x # xs)" by (auto intro: Cons.prems(4))
  show ?case
  proof (cases r1)
    case (Inl e)
    then show ?thesis
      using Cons.prems(1) Cons.prems(7) [OF x Cons.prems(2) px] body by auto
  next
    case (Inr u)
    then have step: "body x s = (Inr (), s1)" by (simp add: body)
    have here: "Inv s1" "Post x s1" using Cons.prems(5) [OF x Cons.prems(2) px step] by auto
    have keep: "y \<noteq> x \<Longrightarrow> (Pre y s \<longrightarrow> Pre y s1) \<and> (Post y s \<longrightarrow> Post y s1)" for y
      using Cons.prems(6) [OF x _ Cons.prems(2) px step] .
    have pre': "Pre y s1" if "y \<in> set xs" for y
    proof -
      have "y \<noteq> x" using that Cons.prems(3) by auto
      then show ?thesis using keep Cons.prems(4) that by auto
    qed
    have "case res of Inl e \<Rightarrow> Err e s'
       | Inr _ \<Rightarrow> Inv s' \<and> (\<forall>y. y \<in> set xs \<or> Post y s1 \<longrightarrow> Post y s')"
    proof (rule Cons.IH)
      show "try_each body xs s1 = (res, s')" using Cons.prems(1) step by simp
      show "distinct xs" using Cons.prems(3) by simp
      show "Inv b \<and> Post y b" if "y \<in> set xs" "Inv a" "Pre y a" "body y a = (Inr (), b)" for y a b
        by (rule Cons.prems(5) [OF list.set_intros(2) [OF that(1)] that(2-4)])
      show "(Pre z a \<longrightarrow> Pre z b) \<and> (Post z a \<longrightarrow> Post z b)"
        if "y \<in> set xs" "z \<noteq> y" "Inv a" "Pre y a" "body y a = (Inr (), b)" for y z a b
        by (rule Cons.prems(6) [OF list.set_intros(2) [OF that(1)] that(2-5)])
      show "Err e b" if "y \<in> set xs" "Inv a" "Pre y a" "body y a = (Inl e, b)" for y a b e
        by (rule Cons.prems(7) [OF list.set_intros(2) [OF that(1)] that(2-4)])
    qed (fact here pre')+
    moreover have "Post y s1" if "Post y s" for y using here(2) keep that by (cases "y = x") auto
    ultimately show ?thesis using here(2) by (auto split: sum.splits)
  qed
qed

lemma try_each_preserves:
  assumes "try_each body xs s = (res, s')" "Inv s"
    and "\<And>x s s' r. \<lbrakk>x \<in> set xs; Inv s; body x s = (r, s')\<rbrakk> \<Longrightarrow> Inv s'"
  shows "Inv s'"
  using assms
proof (induction xs arbitrary: s)
  case (Cons x xs)
  obtain r1 s1 where body: "body x s = (r1, s1)" by (cases "body x s")
  have "Inv s1" using Cons.prems body by auto
  then show ?case using Cons.prems Cons.IH [of s1] body by (auto split: sum.splits)
qed simp

lemma try_each_simulates:
  assumes "\<And>x s. body' x (f s) = map_prod id f (body x s)"
  shows "try_each body' xs (f s) = map_prod id f (try_each body xs s)"
  by (induction xs arbitrary: s) (auto simp: assms split: prod.split sum.split)

end
