(* ===== verification/Ieee_Float.thy ===== *)
theory Ieee_Float
  imports Pal_Prelude Complex_Main "HOL-Library.Log_Nat"
begin

text \<open>
  The binary floating-point values of the Rust sources. A value is a NaN, a signed infinity
  or a finite dyadic number, kept as an exact rational; the two formats (\<open>f32\<close>, \<open>f64\<close>) differ
  only in the precision and exponent range to which every arithmetic result is rounded, to
  nearest with ties to even. The two zeros are identified: no modelled operation observes the
  sign of a zero. Comparisons are the IEEE ones, false on NaN.
\<close>

datatype fl = FNaN | FInf (fl_neg_inf: bool) | FFin (fl_rat: rat)

record fformat =
  ff_prec :: int
  ff_emin :: int
  ff_emax :: int

definition f32_fmt :: fformat where
  "f32_fmt = \<lparr>ff_prec = 24, ff_emin = - 126, ff_emax = 127\<rparr>"

definition f64_fmt :: fformat where
  "f64_fmt = \<lparr>ff_prec = 53, ff_emin = - 1022, ff_emax = 1023\<rparr>"

section \<open>Rounding\<close>

definition pow2 :: "int \<Rightarrow> rat" where
  "pow2 e = (if 0 \<le> e then 2 ^ nat e else 1 / 2 ^ nat (- e))"

definition ilog2 :: "rat \<Rightarrow> int" where
  "ilog2 q = (let (a, b) = quotient_of q; e = bitlen a - bitlen b
              in if pow2 e \<le> q then e else e - 1)"

definition round_even :: "rat \<Rightarrow> int" where
  "round_even q =
     (let f = \<lfloor>q\<rfloor>; r = q - of_int f
      in if r < 1 / 2 then f else if 1 / 2 < r then f + 1 else if even f then f else f + 1)"

definition fl_ulp :: "fformat \<Rightarrow> rat \<Rightarrow> rat" where
  "fl_ulp fmt q = pow2 (max (ilog2 \<bar>q\<bar>) (ff_emin fmt) - (ff_prec fmt - 1))"

definition fl_round :: "fformat \<Rightarrow> rat \<Rightarrow> fl" where
  "fl_round fmt q =
     (if q = 0 then FFin 0
      else let u = fl_ulp fmt q; v = of_int (round_even (q / u)) * u
           in if pow2 (ff_emax fmt + 1) \<le> \<bar>v\<bar> then FInf (v < 0) else FFin v)"

definition f32_lit :: "rat \<Rightarrow> fl" where
  "f32_lit q = fl_round f32_fmt q"

section \<open>Operations\<close>

fun fl_is_finite :: "fl \<Rightarrow> bool" where
  "fl_is_finite (FFin _) = True"
| "fl_is_finite _ = False"

fun fl_lt :: "fl \<Rightarrow> fl \<Rightarrow> bool" where
  "fl_lt (FFin a) (FFin b) = (a < b)"
| "fl_lt (FFin _) (FInf n) = (\<not> n)"
| "fl_lt (FInf n) (FFin _) = n"
| "fl_lt (FInf m) (FInf n) = (m \<and> \<not> n)"
| "fl_lt _ _ = False"

fun fl_le :: "fl \<Rightarrow> fl \<Rightarrow> bool" where
  "fl_le (FFin a) (FFin b) = (a \<le> b)"
| "fl_le (FFin _) (FInf n) = (\<not> n)"
| "fl_le (FInf n) (FFin _) = n"
| "fl_le (FInf m) (FInf n) = (m \<or> \<not> n)"
| "fl_le _ _ = False"

text \<open>\<open>(lo..=hi).contains(&x)\<close> and \<open>(lo..hi).contains(&x)\<close>.\<close>

definition fl_in_closed :: "fl \<Rightarrow> fl \<Rightarrow> fl \<Rightarrow> bool" where
  "fl_in_closed lo hi x = (fl_le lo x \<and> fl_le x hi)"

definition fl_in_half_open :: "fl \<Rightarrow> fl \<Rightarrow> fl \<Rightarrow> bool" where
  "fl_in_half_open lo hi x = (fl_le lo x \<and> fl_lt x hi)"

fun fl_neg :: "fl \<Rightarrow> fl" where
  "fl_neg FNaN = FNaN"
| "fl_neg (FInf n) = FInf (\<not> n)"
| "fl_neg (FFin a) = FFin (- a)"

fun fl_abs :: "fl \<Rightarrow> fl" where
  "fl_abs FNaN = FNaN"
| "fl_abs (FInf n) = FInf False"
| "fl_abs (FFin a) = FFin \<bar>a\<bar>"

fun fl_add :: "fformat \<Rightarrow> fl \<Rightarrow> fl \<Rightarrow> fl" where
  "fl_add fmt (FFin a) (FFin b) = fl_round fmt (a + b)"
| "fl_add fmt (FFin _) (FInf n) = FInf n"
| "fl_add fmt (FInf n) (FFin _) = FInf n"
| "fl_add fmt (FInf m) (FInf n) = (if m = n then FInf m else FNaN)"
| "fl_add fmt _ _ = FNaN"

definition fl_sub :: "fformat \<Rightarrow> fl \<Rightarrow> fl \<Rightarrow> fl" where
  "fl_sub fmt a b = fl_add fmt a (fl_neg b)"

fun fl_mul :: "fformat \<Rightarrow> fl \<Rightarrow> fl \<Rightarrow> fl" where
  "fl_mul fmt (FFin a) (FFin b) = fl_round fmt (a * b)"
| "fl_mul fmt (FFin a) (FInf n) = (if a = 0 then FNaN else FInf (n \<noteq> (a < 0)))"
| "fl_mul fmt (FInf n) (FFin a) = (if a = 0 then FNaN else FInf (n \<noteq> (a < 0)))"
| "fl_mul fmt (FInf m) (FInf n) = FInf (m \<noteq> n)"
| "fl_mul fmt _ _ = FNaN"

definition rat_trunc :: "rat \<Rightarrow> int" where
  "rat_trunc q = (if 0 \<le> q then \<lfloor>q\<rfloor> else \<lceil>q\<rceil>)"

text \<open>The \<open>%\<close> operator: the truncated remainder, always representable, hence not rounded.\<close>

fun fl_rem :: "fl \<Rightarrow> fl \<Rightarrow> fl" where
  "fl_rem (FFin a) (FFin b) = (if b = 0 then FNaN else FFin (a - b * of_int (rat_trunc (a / b))))"
| "fl_rem (FFin a) (FInf _) = FFin a"
| "fl_rem _ _ = FNaN"

definition fl_rem_euclid :: "fformat \<Rightarrow> fl \<Rightarrow> fl \<Rightarrow> fl" where
  "fl_rem_euclid fmt x y =
     (let r = fl_rem x y in if fl_lt r (FFin 0) then fl_add fmt r (fl_abs y) else r)"

definition fl_min :: "fl \<Rightarrow> fl \<Rightarrow> fl" where
  "fl_min a b = (if a = FNaN then b else if b = FNaN then a else if fl_lt b a then b else a)"

definition fl_max :: "fl \<Rightarrow> fl \<Rightarrow> fl" where
  "fl_max a b = (if a = FNaN then b else if b = FNaN then a else if fl_lt a b then b else a)"

definition fl_clamp :: "fl \<Rightarrow> fl \<Rightarrow> fl \<Rightarrow> fl" where
  "fl_clamp lo hi x = (if fl_lt x lo then lo else if fl_lt hi x then hi else x)"

text \<open>The value is a number of the format: rounding leaves it unchanged.\<close>

definition fl_representable :: "fformat \<Rightarrow> fl \<Rightarrow> bool" where
  "fl_representable fmt x = (case x of FFin q \<Rightarrow> fl_round fmt q = FFin q | _ \<Rightarrow> True)"

section \<open>Facts\<close>

lemma pow2_pos [simp]: "0 < pow2 e"
  by (simp add: pow2_def)

lemma pow2_nonzero [simp]: "pow2 e \<noteq> 0"
  using pow2_pos [of e] by linarith

lemma pow2_eq_power_int: "pow2 e = 2 powi e"
  by (simp add: pow2_def power_int_def power_one_over)

lemma pow2_add: "pow2 (a + b) = pow2 a * pow2 b"
  by (simp add: pow2_eq_power_int power_int_add)

lemma pow2_diff: "pow2 (a - b) = pow2 a / pow2 b"
  by (simp add: pow2_eq_power_int power_int_diff)

lemma pow2_mono: "a \<le> b \<Longrightarrow> pow2 a \<le> pow2 b"
  unfolding pow2_eq_power_int by (rule power_int_increasing) simp_all

lemma pow2_strict_mono: "a < b \<Longrightarrow> pow2 a < pow2 b"
  unfolding pow2_eq_power_int by (rule power_int_strict_increasing) simp_all

lemma pow2_less_iff: "pow2 a < pow2 b \<longleftrightarrow> a < b"
proof (cases "a < b")
  case True
  then show ?thesis by (simp add: pow2_strict_mono)
next
  case False
  then have "pow2 b \<le> pow2 a" by (simp add: pow2_mono)
  with False show ?thesis by simp
qed

lemma pow2_is_int: "0 \<le> e \<Longrightarrow> pow2 e = of_int (2 ^ nat e)"
  by (simp add: pow2_def)

lemma bitlen_pow2_bounds:
  assumes "0 < n"
  shows "pow2 (bitlen n - 1) \<le> of_int n" and "of_int n < pow2 (bitlen n)"
proof -
  have b: "2 ^ nat (bitlen n - 1) \<le> n \<and> n < 2 ^ nat (bitlen n)"
    using assms by (rule bitlen_bounds)
  have ge: "1 \<le> bitlen n" using assms bitlen_eq_zero_iff [of n] bitlen_nonneg [of n] by linarith
  show "pow2 (bitlen n - 1) \<le> of_int n"
    using b ge by (simp add: pow2_is_int)
  have "(of_int n :: rat) < of_int (2 ^ nat (bitlen n))" using b by linarith
  then show "of_int n < pow2 (bitlen n)"
    using ge by (simp add: pow2_is_int)
qed

lemma ilog2_bounds:
  assumes "0 < q"
  shows "pow2 (ilog2 q) \<le> q" and "q < pow2 (ilog2 q + 1)"
proof -
  obtain a b where ab: "quotient_of q = (a, b)" by (cases "quotient_of q")
  have b: "0 < b" using ab by (rule quotient_of_denom_pos)
  have q: "q = of_int a / of_int b" using ab by (rule quotient_of_div)
  with assms b have a: "0 < a" by (simp add: zero_less_divide_iff)
  let ?e = "bitlen a - bitlen b"
  have "pow2 (bitlen a - 1) / pow2 (bitlen b) < of_int a / of_int b"
    by (rule frac_less2) (use bitlen_pow2_bounds [OF a] bitlen_pow2_bounds [OF b] b in auto)
  then have lo: "pow2 (?e - 1) < q"
    using pow2_diff [of "bitlen a - 1" "bitlen b"] by (simp add: q algebra_simps)
  have "of_int a / of_int b < pow2 (bitlen a) / pow2 (bitlen b - 1)"
    by (rule frac_less) (use bitlen_pow2_bounds [OF a] bitlen_pow2_bounds [OF b] a in auto)
  then have hi: "q < pow2 (?e + 1)"
    using pow2_diff [of "bitlen a" "bitlen b - 1"] by (simp add: q algebra_simps)
  show "pow2 (ilog2 q) \<le> q"
    using lo by (auto simp: ilog2_def ab Let_def)
  show "q < pow2 (ilog2 q + 1)"
    using hi by (auto simp: ilog2_def ab Let_def)
qed

lemma ilog2_less: "0 < q \<Longrightarrow> q < pow2 e \<Longrightarrow> ilog2 q < e"
  using ilog2_bounds(1) [of q] pow2_less_iff by fastforce

lemma round_even_le: "x \<le> of_int n \<Longrightarrow> round_even x \<le> n"
proof -
  assume le: "x \<le> of_int n"
  then have f: "\<lfloor>x\<rfloor> \<le> n" by linarith
  show ?thesis
  proof (cases "\<lfloor>x\<rfloor> = n")
    case True
    then have "x = of_int n" using le by linarith
    then show ?thesis by (simp add: round_even_def)
  next
    case False
    with f show ?thesis by (auto simp: round_even_def Let_def)
  qed
qed

lemma round_even_ge: "of_int n \<le> x \<Longrightarrow> n \<le> round_even x"
proof -
  assume "of_int n \<le> x"
  then have "n \<le> \<lfloor>x\<rfloor>" by (simp add: le_floor_iff)
  then show ?thesis by (auto simp: round_even_def Let_def)
qed

lemma round_even_nonneg: "0 \<le> x \<Longrightarrow> 0 \<le> round_even x"
  using round_even_ge [of 0 x] by simp

text \<open>
  A format whose exponent range contains its integers: every integer below \<open>2 ^ prec\<close> is one of
  its numbers, so rounding never leaves an interval with such bounds.
\<close>

definition fformat_ok :: "fformat \<Rightarrow> bool" where
  "fformat_ok fmt = (0 < ff_prec fmt \<and> ff_emin fmt \<le> 0 \<and> ff_prec fmt \<le> ff_emax fmt + 1)"

lemma fformat_ok_f32 [simp]: "fformat_ok f32_fmt"
  by (simp add: fformat_ok_def f32_fmt_def)

lemma fformat_ok_f64 [simp]: "fformat_ok f64_fmt"
  by (simp add: fformat_ok_def f64_fmt_def)

lemma fl_round_bounded:
  assumes fmt: "fformat_ok fmt" and q: "\<bar>q\<bar> \<le> of_int n" and n: "of_int n < pow2 (ff_prec fmt)"
  shows "\<exists>v. fl_round fmt q = FFin v \<and> \<bar>v\<bar> \<le> of_int n \<and> (0 \<le> q \<longrightarrow> 0 \<le> v)"
proof (cases "q = 0")
  case True
  with q show ?thesis by (simp add: fl_round_def)
next
  case False
  define k where "k = max (ilog2 \<bar>q\<bar>) (ff_emin fmt) - (ff_prec fmt - 1)"
  define u where "u = pow2 k"
  define v where "v = of_int (round_even (q / u)) * u"
  have u: "fl_ulp fmt q = u" by (simp add: fl_ulp_def u_def k_def)
  have upos: "0 < u" by (simp add: u_def)
  have "ilog2 \<bar>q\<bar> < ff_prec fmt"
    using False q n by (intro ilog2_less) auto
  then have k: "k \<le> 0" using fmt by (auto simp: k_def fformat_ok_def)
  let ?m = "n * 2 ^ nat (- k)"
  have um: "u * of_int (2 ^ nat (- k)) = 1"
    using k pow2_add [of k "- k"] by (simp add: u_def pow2_is_int [symmetric]) (simp add: pow2_def)
  have nu: "of_int n = of_int ?m * u" using um by (simp add: mult_ac)
  have "q \<le> of_int ?m * u" "- (of_int ?m * u) \<le> q" using q nu by linarith+
  then have "q / u \<le> of_int ?m" "of_int (- ?m) \<le> q / u"
    using upos by (simp_all add: pos_divide_le_eq pos_le_divide_eq)
  then have "round_even (q / u) \<le> ?m" "- ?m \<le> round_even (q / u)"
    by (simp_all only: round_even_le round_even_ge)
  then have "\<bar>round_even (q / u)\<bar> \<le> ?m" by linarith
  then have "\<bar>of_int (round_even (q / u))\<bar> \<le> (of_int ?m :: rat)"
    by (metis of_int_abs of_int_le_iff)
  then have vn: "\<bar>v\<bar> \<le> of_int n"
    using upos by (simp add: nu v_def abs_mult mult_right_mono del: of_int_mult of_int_power)
  have "pow2 (ff_prec fmt) \<le> pow2 (ff_emax fmt + 1)"
    using fmt by (intro pow2_mono) (simp add: fformat_ok_def)
  with vn n have "\<not> pow2 (ff_emax fmt + 1) \<le> \<bar>v\<bar>" by linarith
  then have "fl_round fmt q = FFin v"
    using False by (simp add: fl_round_def u v_def Let_def)
  moreover have "0 \<le> v" if "0 \<le> q"
    using that upos by (simp add: v_def round_even_nonneg)
  ultimately show ?thesis using vn by blast
qed

lemma f32_round_bounded:
  assumes "\<bar>q\<bar> \<le> of_int n" and "n < 2 ^ 24"
  shows "\<exists>v. fl_round f32_fmt q = FFin v \<and> \<bar>v\<bar> \<le> of_int n \<and> (0 \<le> q \<longrightarrow> 0 \<le> v)"
proof -
  have "(of_int n :: rat) < of_int (2 ^ 24)" using assms(2) by linarith
  then have "of_int n < pow2 (ff_prec f32_fmt)" by (simp add: f32_fmt_def pow2_def)
  with assms(1) show ?thesis by (intro fl_round_bounded) auto
qed

lemma rat_trunc_remainder:
  assumes "0 < b"
  shows "\<bar>a - b * of_int (rat_trunc (a / b))\<bar> < b"
proof -
  have "\<bar>a / b - of_int (rat_trunc (a / b))\<bar> < 1"
    by (simp add: rat_trunc_def) linarith
  then have "\<bar>a / b - of_int (rat_trunc (a / b))\<bar> * b < b" using assms by simp
  moreover have "\<bar>a / b - of_int (rat_trunc (a / b))\<bar> * b = \<bar>(a / b - of_int (rat_trunc (a / b))) * b\<bar>"
    using assms by (simp add: abs_mult)
  moreover have "(a / b - of_int (rat_trunc (a / b))) * b = a - b * of_int (rat_trunc (a / b))"
    using assms by (simp add: algebra_simps)
  ultimately show ?thesis by simp
qed

text \<open>
  The Euclidean remainder of a finite \<open>f32\<close> by a small positive integer is a number between
  zero and the modulus. The upper bound is attained: see \<open>rem_euclid_attains_modulus\<close>.
\<close>

lemma f32_rem_euclid_range:
  assumes "0 < n" and "n < 2 ^ 24"
  shows "\<exists>v. fl_rem_euclid f32_fmt (FFin a) (FFin (of_int n)) = FFin v \<and> 0 \<le> v \<and> v \<le> of_int n"
proof -
  define r where "r = a - of_int n * of_int (rat_trunc (a / of_int n))"
  have r: "\<bar>r\<bar> < of_int n" using assms rat_trunc_remainder [of "of_int n" a] by (simp add: r_def)
  show ?thesis
  proof (cases "r < 0")
    case True
    then have "\<bar>r + of_int n\<bar> \<le> of_int n" "0 \<le> r + of_int n" using r by linarith+
    with f32_round_bounded [of "r + of_int n" n] assms True show ?thesis
      by (fastforce simp: fl_rem_euclid_def r_def [symmetric] Let_def)
  next
    case False
    with r assms show ?thesis by (simp add: fl_rem_euclid_def r_def [symmetric] Let_def)
  qed
qed

lemma rem_euclid_attains_modulus:
  "fl_rem_euclid f32_fmt (FFin (- (1 / 2 ^ 40))) (FFin 360) = FFin 360"
  by code_simp

text \<open>A dyadic lower bound on the unit grid of the argument survives rounding.\<close>

lemma fl_round_ge_dyadic:
  assumes q: "0 < q" "of_int m * pow2 j \<le> q"
    and j: "max (ilog2 q) (ff_emin fmt) - (ff_prec fmt - 1) \<le> j"
    and v: "fl_round fmt q = FFin v"
  shows "of_int m * pow2 j \<le> v"
proof -
  define k where "k = max (ilog2 q) (ff_emin fmt) - (ff_prec fmt - 1)"
  have v': "v = of_int (round_even (q / pow2 k)) * pow2 k"
    using q(1) v by (auto simp: fl_round_def fl_ulp_def k_def Let_def split: if_splits)
  have "pow2 j = of_int (2 ^ nat (j - k)) * pow2 k"
    using pow2_add [of "j - k" k] pow2_is_int [of "j - k"] j by (simp add: k_def)
  then have eq: "of_int m * pow2 j = of_int (m * 2 ^ nat (j - k)) * pow2 k" by simp
  with q(2) have "of_int (m * 2 ^ nat (j - k)) \<le> q / pow2 k"
    by (simp add: pos_le_divide_eq del: of_int_mult of_int_power)
  then have "m * 2 ^ nat (j - k) \<le> round_even (q / pow2 k)" by (rule round_even_ge)
  then have "(of_int (m * 2 ^ nat (j - k)) :: rat) \<le> of_int (round_even (q / pow2 k))"
    by (simp only: of_int_le_iff)
  then show ?thesis unfolding eq v' by (rule mult_right_mono) (simp add: less_imp_le)
qed

lemma f32_round_half_to_five:
  assumes "1 / 2 \<le> q" and "q \<le> 5"
  shows "\<exists>v. fl_round f32_fmt q = FFin v \<and> 1 / 2 \<le> v"
proof -
  obtain v where v: "fl_round f32_fmt q = FFin v"
    using f32_round_bounded [of q 5] assms by auto
  have "ilog2 q < 3" using assms by (intro ilog2_less) (auto simp: pow2_def)
  then have "of_int 1 * pow2 (- 1) \<le> v"
    using assms by (intro fl_round_ge_dyadic [OF _ _ _ v]) (auto simp: pow2_def f32_fmt_def)
  with v show ?thesis by (simp add: pow2_def)
qed

lemma f32_lit_values [simp]:
  "f32_lit 0 = FFin 0" "f32_lit 1 = FFin 1" "f32_lit 4 = FFin 4" "f32_lit 360 = FFin 360"
  "f32_lit (1 / 2) = FFin (1 / 2)" "f32_lit (1 / 4) = FFin (1 / 4)"
  by code_simp+

lemma fl_in_closed_Fin:
  "fl_in_closed (FFin a) (FFin b) x \<longleftrightarrow> (\<exists>q. x = FFin q \<and> a \<le> q \<and> q \<le> b)"
  by (cases x) (auto simp: fl_in_closed_def)

end
