(* ===== verification/Domain_Settings.thy ===== *)
theory Domain_Settings
  imports Ieee_Float
begin

text \<open>
  The overlay settings of \<open>crates/pal-domain/src/settings.rs\<close>: the enums and structs, the
  validation that every published settings value must pass, and the reducer of user actions.
  The lemmas characterise validation exactly and say which actions keep a value valid.
\<close>

section \<open>Data\<close>

datatype RotationMode = NorthUp | HeadingUp

datatype InputMode = Locked | TemporaryInteractive | PinnedInteractive | LayoutEdit

datatype DisplayMode = MiniMap | ExpandedMap

datatype OverlayAction =
    Show | Hide | ToggleVisibility | EnterInteractive | ExitInteractive | OpenExpanded
  | CloseExpanded | ZoomIn | ZoomOut | ToggleRotation | Lock | ToggleFastTravel | ToggleBoss
  | ToggleWanted | ToggleDungeon | ToggleTower | ToggleEgg | ToggleResources | ToggleSalvage

datatype FpsProfile = Auto | Thirty | Sixty

definition DEFAULT_OVERLAY_LAYER_IDS :: "string list" where
  "DEFAULT_OVERLAY_LAYER_IDS = [''map-unlock'', ''poi'', ''tower'']"

definition TOWER_LAYER_IDS :: "string list" where
  "TOWER_LAYER_IDS = [''tower'']"

definition EGG_LAYER_IDS :: "string list" where
  "EGG_LAYER_IDS = [''egg'']"

definition SALVAGE_LAYER_IDS :: "string list" where
  "SALVAGE_LAYER_IDS = [''salvage-rank-1'', ''salvage-rank-2'']"

definition HIDDEN_UNVERIFIED_LAYER_IDS :: "string list" where
  "HIDDEN_UNVERIFIED_LAYER_IDS =
     [''respawn-point'', ''captured-pal'', ''anti-air-turret'', ''medal'', ''ancient-shrine'',
      ''healing-spring'']"

definition RESOURCE_LAYER_IDS :: "string list" where
  "RESOURCE_LAYER_IDS =
     [''oil-field'', ''soralite'', ''chromite'', ''hexolite-quartz'', ''ancient-bark'',
      ''ancient-lava'', ''ore-copper'', ''ore-coal'', ''ore-quartz'', ''ore-sulfur'',
      ''ore-crystal'', ''paloxite'']"

record PoiFilters =
  fast_travel :: bool
  boss :: bool
  wanted :: bool
  dungeon :: bool
  enabled_layer_ids :: "string list"
  selected_pal_ids :: "string list"
  night_only :: bool

definition PoiFilters_default :: PoiFilters where
  "PoiFilters_default =
     \<lparr>fast_travel = True, boss = True, wanted = False, dungeon = True,
      enabled_layer_ids = DEFAULT_OVERLAY_LAYER_IDS, selected_pal_ids = [], night_only = False\<rparr>"

text \<open>\<open>Vec::retain\<close> keeps the elements for which the closure holds, in order.\<close>

definition remove_hidden_unverified_layers :: "PoiFilters \<Rightarrow> bool \<times> PoiFilters" where
  "remove_hidden_unverified_layers f =
     (let previous_len = length (enabled_layer_ids f);
          kept = filter (\<lambda>layer_id. layer_id \<notin> set HIDDEN_UNVERIFIED_LAYER_IDS) (enabled_layer_ids f)
      in (length kept \<noteq> previous_len, f\<lparr>enabled_layer_ids := kept\<rparr>))"

record HotkeyModifiers =
  hm_control :: bool
  hm_alt :: bool
  hm_shift :: bool
  hm_windows :: bool

record HotkeyChord =
  hc_modifiers :: HotkeyModifiers
  hc_virtual_key :: u16

record HotkeyBindings =
  overlay_visibility :: "HotkeyChord option"
  rotation_toggle :: "HotkeyChord option"
  temporary_interaction :: "HotkeyChord option"
  interaction_lock :: "HotkeyChord option"

definition HotkeyBindings_default :: HotkeyBindings where
  "HotkeyBindings_default =
     \<lparr>overlay_visibility = None, rotation_toggle = None, temporary_interaction = None,
      interaction_lock = None\<rparr>"

datatype HotkeyAction = OverlayVisibility | RotationToggle | TemporaryInteraction | InteractionLock

fun HotkeyAction_field :: "HotkeyAction \<Rightarrow> string" where
  "HotkeyAction_field OverlayVisibility = ''hotkey_bindings.overlay_visibility''"
| "HotkeyAction_field RotationToggle = ''hotkey_bindings.rotation_toggle''"
| "HotkeyAction_field TemporaryInteraction = ''hotkey_bindings.temporary_interaction''"
| "HotkeyAction_field InteractionLock = ''hotkey_bindings.interaction_lock''"

datatype HotkeyValidationReason = ZeroVirtualKey | UnmodifiedK | UnmodifiedGameKey

datatype SettingsValidationError =
    OpacityOutOfRange | DiameterOutOfRange | ZoomOutOfRange | NormalizedXOutOfRange
  | NormalizedYOutOfRange | InvalidHotkey HotkeyAction HotkeyValidationReason
  | TooManyEnabledLayers | TooManySelectedPals | HiddenUnverifiedMapFilterId
  | InvalidMapFilterId | DuplicateMapFilterId

fun SettingsValidationError_field :: "SettingsValidationError \<Rightarrow> string" where
  "SettingsValidationError_field OpacityOutOfRange = ''opacity''"
| "SettingsValidationError_field DiameterOutOfRange = ''diameter_px''"
| "SettingsValidationError_field ZoomOutOfRange = ''zoom''"
| "SettingsValidationError_field NormalizedXOutOfRange = ''normalized_x''"
| "SettingsValidationError_field NormalizedYOutOfRange = ''normalized_y''"
| "SettingsValidationError_field (InvalidHotkey action _) = HotkeyAction_field action"
| "SettingsValidationError_field _ = ''poi_filters''"

record OverlaySettings =
  enabled :: bool
  auto_show :: bool
  rotation_mode :: RotationMode
  input_mode :: InputMode
  display_mode :: DisplayMode
  opacity :: fl
  diameter_px :: u32
  zoom :: fl
  normalized_x :: fl
  normalized_y :: fl
  fps_profile :: FpsProfile
  poi_filters :: PoiFilters
  hotkey_bindings :: HotkeyBindings

definition OverlaySettings_default :: OverlaySettings where
  "OverlaySettings_default =
     \<lparr>enabled = True, auto_show = True, rotation_mode = NorthUp, input_mode = Locked,
      display_mode = MiniMap, opacity = f32_lit (90 / 100), diameter_px = 320, zoom = f32_lit 1,
      normalized_x = f32_lit (85 / 100), normalized_y = f32_lit (20 / 100), fps_profile = Auto,
      poi_filters = PoiFilters_default, hotkey_bindings = HotkeyBindings_default\<rparr>"

section \<open>Validation\<close>

definition valid_map_filter_id :: "string \<Rightarrow> bool" where
  "valid_map_filter_id i =
     (\<not> (i = [] \<or> 96 < length i
          \<or> \<not> list_all (\<lambda>c. is_ascii_alphanumeric c \<or> c \<in> {CHR ''_'', CHR ''-'', CHR '':''}) i))"

text \<open>The loop of \<open>validate_map_filter_ids\<close>; \<open>previous\<close> is \<open>ids[..index]\<close>.\<close>

fun validate_map_filter_ids_from ::
  "string list \<Rightarrow> string list \<Rightarrow> SettingsValidationError + unit" where
  "validate_map_filter_ids_from previous [] = Inr ()"
| "validate_map_filter_ids_from previous (i # rest) =
     (if \<not> valid_map_filter_id i then Inl InvalidMapFilterId
      else if i \<in> set previous then Inl DuplicateMapFilterId
      else validate_map_filter_ids_from (previous @ [i]) rest)"

definition validate_map_filter_ids ::
  "string list \<Rightarrow> nat \<Rightarrow> SettingsValidationError \<Rightarrow> SettingsValidationError + unit" where
  "validate_map_filter_ids ids maximum too_many =
     (if maximum < length ids then Inl too_many else validate_map_filter_ids_from [] ids)"

definition settings_has_modifier :: "HotkeyModifiers \<Rightarrow> bool" where
  "settings_has_modifier m = (hm_control m \<or> hm_alt m \<or> hm_shift m \<or> hm_windows m)"

definition is_game_key :: "u16 \<Rightarrow> bool" where
  "is_game_key k = ((0x30 \<le> k \<and> k \<le> 0x39) \<or> (0x41 \<le> k \<and> k \<le> 0x5A))"

definition validate_hotkey ::
  "HotkeyAction \<Rightarrow> HotkeyChord option \<Rightarrow> SettingsValidationError + unit" where
  "validate_hotkey action chord =
     (case chord of
        None \<Rightarrow> Inr ()
      | Some c \<Rightarrow>
          if hc_virtual_key c = 0 then Inl (InvalidHotkey action ZeroVirtualKey)
          else let has_modifier = settings_has_modifier (hc_modifiers c) in
            if hc_virtual_key c = 0x4B \<and> \<not> has_modifier
            then Inl (InvalidHotkey action UnmodifiedK)
            else if \<not> has_modifier \<and> is_game_key (hc_virtual_key c)
            then Inl (InvalidHotkey action UnmodifiedGameKey)
            else Inr ())"

definition settings_hotkeys :: "HotkeyBindings \<Rightarrow> (HotkeyAction \<times> HotkeyChord option) list" where
  "settings_hotkeys b =
     [(OverlayVisibility, overlay_visibility b), (RotationToggle, rotation_toggle b),
      (TemporaryInteraction, temporary_interaction b), (InteractionLock, interaction_lock b)]"

fun validate_hotkeys :: "(HotkeyAction \<times> HotkeyChord option) list \<Rightarrow> SettingsValidationError + unit" where
  "validate_hotkeys [] = Inr ()"
| "validate_hotkeys ((action, chord) # rest) =
     and_then (validate_hotkey action chord) (\<lambda>_. validate_hotkeys rest)"

definition OverlaySettings_validate :: "OverlaySettings \<Rightarrow> SettingsValidationError + unit" where
  "OverlaySettings_validate s =
     (if \<not> fl_in_closed (f32_lit (20 / 100)) (f32_lit 1) (opacity s) then Inl OpacityOutOfRange
      else if \<not> (180 \<le> diameter_px s \<and> diameter_px s \<le> 640) then Inl DiameterOutOfRange
      else if \<not> fl_in_closed (f32_lit (50 / 100)) (f32_lit 4) (zoom s) then Inl ZoomOutOfRange
      else if \<not> fl_in_closed (f32_lit 0) (f32_lit 1) (normalized_x s) then Inl NormalizedXOutOfRange
      else if \<not> fl_in_closed (f32_lit 0) (f32_lit 1) (normalized_y s) then Inl NormalizedYOutOfRange
      else and_then (validate_hotkeys (settings_hotkeys (hotkey_bindings s))) (\<lambda>_.
           and_then (validate_map_filter_ids (enabled_layer_ids (poi_filters s)) 64
                       TooManyEnabledLayers) (\<lambda>_.
           if list_ex (\<lambda>layer_id. layer_id \<in> set HIDDEN_UNVERIFIED_LAYER_IDS)
                (enabled_layer_ids (poi_filters s))
           then Inl HiddenUnverifiedMapFilterId
           else validate_map_filter_ids (selected_pal_ids (poi_filters s)) 8 TooManySelectedPals)))"

abbreviation settings_valid :: "OverlaySettings \<Rightarrow> bool" where
  "settings_valid s \<equiv> OverlaySettings_validate s = Inr ()"

section \<open>User actions\<close>

definition layer_group_selected :: "string list \<Rightarrow> string list \<Rightarrow> bool" where
  "layer_group_selected enabled_ids grp =
     list_ex (\<lambda>layer_id. list_ex (\<lambda>e. e = layer_id) enabled_ids) grp"

definition toggle_layer_group :: "string list \<Rightarrow> string list \<Rightarrow> string list" where
  "toggle_layer_group enabled_ids grp =
     (if layer_group_selected enabled_ids grp then filter (\<lambda>e. e \<notin> set grp) enabled_ids
      else remdups_adj (sort (enabled_ids @ grp)))"

definition toggle_group_in :: "string list \<Rightarrow> OverlaySettings \<Rightarrow> OverlaySettings" where
  "toggle_group_in grp s =
     s\<lparr>poi_filters := (poi_filters s)
         \<lparr>enabled_layer_ids := toggle_layer_group (enabled_layer_ids (poi_filters s)) grp\<rparr>\<rparr>"

fun reduce_overlay_action :: "OverlaySettings \<Rightarrow> OverlayAction \<Rightarrow> OverlaySettings" where
  "reduce_overlay_action s Show = s\<lparr>enabled := True\<rparr>"
| "reduce_overlay_action s Hide = s\<lparr>enabled := False\<rparr>"
| "reduce_overlay_action s ToggleVisibility = s\<lparr>enabled := \<not> enabled s\<rparr>"
| "reduce_overlay_action s EnterInteractive = s\<lparr>input_mode := PinnedInteractive\<rparr>"
| "reduce_overlay_action s ExitInteractive = s\<lparr>input_mode := Locked\<rparr>"
| "reduce_overlay_action s Lock = s\<lparr>input_mode := Locked\<rparr>"
| "reduce_overlay_action s OpenExpanded = s\<lparr>display_mode := ExpandedMap\<rparr>"
| "reduce_overlay_action s CloseExpanded = s\<lparr>display_mode := MiniMap, input_mode := Locked\<rparr>"
| "reduce_overlay_action s ZoomIn =
     s\<lparr>zoom := fl_min (fl_add f32_fmt (zoom s) (f32_lit (25 / 100))) (f32_lit 4)\<rparr>"
| "reduce_overlay_action s ZoomOut =
     s\<lparr>zoom := fl_max (fl_sub f32_fmt (zoom s) (f32_lit (25 / 100))) (f32_lit (50 / 100))\<rparr>"
| "reduce_overlay_action s ToggleRotation =
     s\<lparr>rotation_mode := (case rotation_mode s of NorthUp \<Rightarrow> HeadingUp | HeadingUp \<Rightarrow> NorthUp)\<rparr>"
| "reduce_overlay_action s ToggleFastTravel =
     s\<lparr>poi_filters := (poi_filters s)\<lparr>fast_travel := \<not> fast_travel (poi_filters s)\<rparr>\<rparr>"
| "reduce_overlay_action s ToggleBoss =
     s\<lparr>poi_filters := (poi_filters s)\<lparr>boss := \<not> boss (poi_filters s)\<rparr>\<rparr>"
| "reduce_overlay_action s ToggleWanted =
     s\<lparr>poi_filters := (poi_filters s)\<lparr>wanted := \<not> wanted (poi_filters s)\<rparr>\<rparr>"
| "reduce_overlay_action s ToggleDungeon =
     s\<lparr>poi_filters := (poi_filters s)\<lparr>dungeon := \<not> dungeon (poi_filters s)\<rparr>\<rparr>"
| "reduce_overlay_action s ToggleTower = toggle_group_in TOWER_LAYER_IDS s"
| "reduce_overlay_action s ToggleEgg = toggle_group_in EGG_LAYER_IDS s"
| "reduce_overlay_action s ToggleResources = toggle_group_in RESOURCE_LAYER_IDS s"
| "reduce_overlay_action s ToggleSalvage = toggle_group_in SALVAGE_LAYER_IDS s"

section \<open>What validation accepts\<close>

lemma validate_map_filter_ids_from_Inr:
  "validate_map_filter_ids_from previous ids = Inr () \<longleftrightarrow>
     list_all valid_map_filter_id ids \<and> distinct ids \<and> set previous \<inter> set ids = {}"
  by (induction ids arbitrary: previous) auto

lemma validate_map_filter_ids_Inr [simp]:
  "validate_map_filter_ids ids maximum e = Inr () \<longleftrightarrow>
     length ids \<le> maximum \<and> list_all valid_map_filter_id ids \<and> distinct ids"
  by (auto simp: validate_map_filter_ids_def validate_map_filter_ids_from_Inr)

lemma validate_hotkeys_Inr:
  "validate_hotkeys hs = Inr () \<longleftrightarrow> list_all (\<lambda>(a, c). validate_hotkey a c = Inr ()) hs"
  by (induction hs rule: validate_hotkeys.induct) (auto simp: and_then_eq_Inr)

lemma validate_hotkey_Inr:
  "validate_hotkey action chord = Inr () \<longleftrightarrow>
     (\<forall>c. chord = Some c \<longrightarrow> hc_virtual_key c \<noteq> 0 \<and>
        (settings_has_modifier (hc_modifiers c) \<or> \<not> is_game_key (hc_virtual_key c)))"
  by (auto simp: validate_hotkey_def Let_def is_game_key_def split: option.splits)

definition layer_ids_ok :: "string list \<Rightarrow> bool" where
  "layer_ids_ok ids \<longleftrightarrow> list_all valid_map_filter_id ids \<and> distinct ids
     \<and> set ids \<inter> set HIDDEN_UNVERIFIED_LAYER_IDS = {}"

lemma settings_valid_iff:
  "settings_valid s \<longleftrightarrow>
     fl_in_closed (f32_lit (1 / 5)) (f32_lit 1) (opacity s)
     \<and> 180 \<le> diameter_px s \<and> diameter_px s \<le> 640
     \<and> fl_in_closed (f32_lit (1 / 2)) (f32_lit 4) (zoom s)
     \<and> fl_in_closed (f32_lit 0) (f32_lit 1) (normalized_x s)
     \<and> fl_in_closed (f32_lit 0) (f32_lit 1) (normalized_y s)
     \<and> validate_hotkeys (settings_hotkeys (hotkey_bindings s)) = Inr ()
     \<and> layer_ids_ok (enabled_layer_ids (poi_filters s))
     \<and> length (enabled_layer_ids (poi_filters s)) \<le> 64
     \<and> validate_map_filter_ids (selected_pal_ids (poi_filters s)) 8 TooManySelectedPals = Inr ()"
  by (auto simp: OverlaySettings_validate_def and_then_eq_Inr layer_ids_ok_def list_ex_iff
      simp del: validate_hotkeys.simps f32_lit_values)

lemma settings_default_valid [simp]: "settings_valid OverlaySettings_default"
  by code_simp

section \<open>What the actions keep\<close>

lemma toggle_layer_group_set:
  "set (toggle_layer_group ids grp) =
     (if layer_group_selected ids grp then set ids - set grp else set ids \<union> set grp)"
  by (auto simp: toggle_layer_group_def)

lemma layer_group_selected_iff: "layer_group_selected ids grp \<longleftrightarrow> set ids \<inter> set grp \<noteq> {}"
  by (auto simp: layer_group_selected_def list_ex_iff)

lemma toggle_layer_group_ok:
  assumes "layer_ids_ok ids" "layer_ids_ok grp"
  shows "layer_ids_ok (toggle_layer_group ids grp)"
proof -
  have "distinct (toggle_layer_group ids grp)"
    using assms by (simp add: toggle_layer_group_def distinct_remdups_adj_sort layer_ids_ok_def)
  moreover have "set (toggle_layer_group ids grp) \<subseteq> set ids \<union> set grp"
    by (auto simp: toggle_layer_group_set)
  ultimately show ?thesis
    using assms by (fastforce simp: layer_ids_ok_def list_all_iff)
qed

lemma layer_groups_ok [simp]:
  "layer_ids_ok TOWER_LAYER_IDS" "layer_ids_ok EGG_LAYER_IDS"
  "layer_ids_ok SALVAGE_LAYER_IDS" "layer_ids_ok RESOURCE_LAYER_IDS"
  by code_simp+

lemma toggle_layer_group_length:
  "length (toggle_layer_group ids grp) \<le> length ids + length grp"
proof -
  have "length (remdups_adj (sort (ids @ grp))) \<le> length (sort (ids @ grp))"
    by (rule remdups_adj_length)
  then show ?thesis
    using length_filter_le [of "\<lambda>e. e \<notin> set grp" ids]
    by (auto simp: toggle_layer_group_def simp del: length_filter_le)
qed

lemma zoom_in_closed:
  assumes "fl_in_closed (f32_lit (1 / 2)) (f32_lit 4) z"
  shows "fl_in_closed (f32_lit (1 / 2)) (f32_lit 4)
           (fl_min (fl_add f32_fmt z (f32_lit (1 / 4))) (f32_lit 4))"
    and "fl_in_closed (f32_lit (1 / 2)) (f32_lit 4)
           (fl_max (fl_sub f32_fmt z (f32_lit (1 / 4))) (f32_lit (1 / 2)))"
proof -
  obtain q where z: "z = FFin q" "1 / 2 \<le> q" "q \<le> 4"
    using assms by (auto simp: fl_in_closed_Fin)
  obtain v where "fl_round f32_fmt (q + 1 / 4) = FFin v" "1 / 2 \<le> v"
    using f32_round_half_to_five [of "q + 1 / 4"] z by auto
  then show "fl_in_closed (f32_lit (1 / 2)) (f32_lit 4)
      (fl_min (fl_add f32_fmt z (f32_lit (1 / 4))) (f32_lit 4))"
    by (auto simp: z fl_min_def fl_in_closed_def)
  obtain w where "fl_round f32_fmt (q - 1 / 4) = FFin w" "\<bar>w\<bar> \<le> 4"
    using f32_round_bounded [of "q - 1 / 4" 4] z by auto
  then show "fl_in_closed (f32_lit (1 / 2)) (f32_lit 4)
      (fl_max (fl_sub f32_fmt z (f32_lit (1 / 4))) (f32_lit (1 / 2)))"
    by (auto simp: z fl_max_def fl_sub_def fl_in_closed_def)
qed

lemma toggle_group_in_simps [simp]:
  "opacity (toggle_group_in g s) = opacity s" "diameter_px (toggle_group_in g s) = diameter_px s"
  "zoom (toggle_group_in g s) = zoom s" "normalized_x (toggle_group_in g s) = normalized_x s"
  "normalized_y (toggle_group_in g s) = normalized_y s"
  "hotkey_bindings (toggle_group_in g s) = hotkey_bindings s"
  "selected_pal_ids (poi_filters (toggle_group_in g s)) = selected_pal_ids (poi_filters s)"
  "enabled_layer_ids (poi_filters (toggle_group_in g s)) =
     toggle_layer_group (enabled_layer_ids (poi_filters s)) g"
  by (simp_all add: toggle_group_in_def)

text \<open>
  Everything but the number of enabled layers stays valid under every action, so the one way a
  user action can leave a valid settings value is to exceed the limit of 64 layers.
\<close>

lemma reduce_overlay_action_valid_upto_length:
  assumes "settings_valid s"
    and "length (enabled_layer_ids (poi_filters (reduce_overlay_action s a))) \<le> 64"
  shows "settings_valid (reduce_overlay_action s a)"
  using assms
  by (cases a) (auto simp: settings_valid_iff zoom_in_closed toggle_layer_group_ok
      simp del: f32_lit_values)

lemma validate_too_many_layers:
  assumes "settings_valid s" "opacity t = opacity s" "diameter_px t = diameter_px s"
    "zoom t = zoom s" "normalized_x t = normalized_x s" "normalized_y t = normalized_y s"
    "hotkey_bindings t = hotkey_bindings s"
    "64 < length (enabled_layer_ids (poi_filters t))"
  shows "OverlaySettings_validate t = Inl TooManyEnabledLayers"
  using settings_valid_iff [THEN iffD1, OF assms(1)] assms(2-)
  by (simp add: OverlaySettings_validate_def validate_map_filter_ids_def del: f32_lit_values)

lemma reduce_overlay_action_too_long:
  assumes "settings_valid s"
    and "64 < length (enabled_layer_ids (poi_filters (reduce_overlay_action s a)))"
  shows "OverlaySettings_validate (reduce_overlay_action s a) = Inl TooManyEnabledLayers"
  using assms(2) settings_valid_iff [THEN iffD1, OF assms(1)]
  by (cases a) (auto intro!: validate_too_many_layers [OF assms(1)] simp del: f32_lit_values)

section \<open>Properties\<close>

text \<open>
  C37: validation accepts exactly the settings whose opacity, diameter, zoom and normalised
  position lie in their documented ranges, whose bound hotkeys have a nonzero key and either a
  modifier or a key outside the game's alphanumeric keys, whose enabled layers are at most 64
  distinct well-formed identifiers none of which is hidden, and whose selected pals are at most
  8 distinct well-formed identifiers.
\<close>

theorem OverlaySettings_validate_accepts_iff:
  "OverlaySettings_validate s = Inr () \<longleftrightarrow>
     fl_in_closed (f32_lit (1 / 5)) (FFin 1) (opacity s)
     \<and> 180 \<le> diameter_px s \<and> diameter_px s \<le> 640
     \<and> fl_in_closed (FFin (1 / 2)) (FFin 4) (zoom s)
     \<and> fl_in_closed (FFin 0) (FFin 1) (normalized_x s)
     \<and> fl_in_closed (FFin 0) (FFin 1) (normalized_y s)
     \<and> list_all (\<lambda>(action, chord). case chord of None \<Rightarrow> True
          | Some c \<Rightarrow> hc_virtual_key c \<noteq> 0 \<and>
              (settings_has_modifier (hc_modifiers c) \<or> is_game_key (hc_virtual_key c) = False))
          (settings_hotkeys (hotkey_bindings s))
     \<and> length (enabled_layer_ids (poi_filters s)) \<le> 64
     \<and> list_all valid_map_filter_id (enabled_layer_ids (poi_filters s))
     \<and> distinct (enabled_layer_ids (poi_filters s))
     \<and> set (enabled_layer_ids (poi_filters s)) \<inter> set HIDDEN_UNVERIFIED_LAYER_IDS = {}
     \<and> length (selected_pal_ids (poi_filters s)) \<le> 8
     \<and> list_all valid_map_filter_id (selected_pal_ids (poi_filters s))
     \<and> distinct (selected_pal_ids (poi_filters s))"
proof -
  have hotkeys: "validate_hotkeys hs = Inr () \<longleftrightarrow>
      list_all (\<lambda>(action, chord). case chord of None \<Rightarrow> True
          | Some c \<Rightarrow> hc_virtual_key c \<noteq> 0 \<and>
              (settings_has_modifier (hc_modifiers c) \<or> is_game_key (hc_virtual_key c) = False)) hs"
    for hs
    unfolding validate_hotkeys_Inr by (rule arg_cong2 [where f = list_all])
      (auto simp: validate_hotkey_Inr fun_eq_iff split: option.splits)
  show ?thesis
    unfolding settings_valid_iff hotkeys by (simp only: layer_ids_ok_def f32_lit_values
      validate_map_filter_ids_Inr) blast
qed

text \<open>
  Applying a user action to valid settings gives settings that validation accepts, unless
  the action enabled a layer group and thereby exceeded the limit of 64 layers; then validation
  reports exactly that error. In particular zooming never leaves the range 0.5 to 4.
\<close>

lemma reduce_overlay_action_outcome:
  assumes "OverlaySettings_validate s = Inr ()"
  shows "OverlaySettings_validate (reduce_overlay_action s a) =
    (if length (enabled_layer_ids (poi_filters (reduce_overlay_action s a))) \<le> 64 then Inr ()
     else Inl TooManyEnabledLayers)"
  using assms
  by (simp add: reduce_overlay_action_valid_upto_length reduce_overlay_action_too_long)

lemma reduce_overlay_action_outcome_example:
  "OverlaySettings_validate (reduce_overlay_action OverlaySettings_default ToggleResources) = Inr ()"
proof -
  have "length (enabled_layer_ids (poi_filters
      (reduce_overlay_action OverlaySettings_default ToggleResources))) = 15"
    by code_simp
  with reduce_overlay_action_outcome [OF settings_default_valid, of ToggleResources]
  show ?thesis by simp
qed

text \<open>
  Toggling a nonempty layer group flips whether the group is selected, keeps every layer
  outside the group as it was, and keeps the list free of duplicates.
\<close>

lemma toggle_layer_group_flips:
  assumes "grp \<noteq> []" and "distinct ids"
  shows "(layer_group_selected (toggle_layer_group ids grp) grp \<longleftrightarrow>
            \<not> layer_group_selected ids grp)
    \<and> set (toggle_layer_group ids grp) - set grp = set ids - set grp
    \<and> distinct (toggle_layer_group ids grp)"
proof -
  have "distinct (toggle_layer_group ids grp)"
    using assms by (simp add: toggle_layer_group_def distinct_remdups_adj_sort)
  then show ?thesis
    using assms by (auto simp: layer_group_selected_iff toggle_layer_group_set)
qed

lemma toggle_layer_group_flips_example:
  "layer_group_selected (toggle_layer_group [''poi'', ''tower''] SALVAGE_LAYER_IDS) SALVAGE_LAYER_IDS"
proof -
  have "SALVAGE_LAYER_IDS \<noteq> []" "distinct [''poi'', ''tower'']"
    "\<not> layer_group_selected [''poi'', ''tower''] SALVAGE_LAYER_IDS"
    by code_simp+
  then show ?thesis using toggle_layer_group_flips by blast
qed

end
