(* ===== verification/Domain_Core.thy ===== *)
theory Domain_Core
  imports Domain_Settings
begin

text \<open>
  The rest of the domain crate: positions and their age (\<open>position.rs\<close>), the choice of the
  active position source (\<open>position_source_policy.rs\<close>), the two map views (\<open>view.rs\<close>), window
  snapshots (\<open>window.rs\<close>) and the published \<open>CoreState\<close> with its cross-field rules (\<open>lib.rs\<close>),
  all under \<open>crates/pal-domain/src\<close>.
\<close>

section \<open>Positions\<close>

datatype Freshness = Live | Delayed | Stale | Offline

definition classify_freshness :: "u64 \<Rightarrow> bool \<Rightarrow> Freshness" where
  "classify_freshness sample_age_upper_bound_ms is_connected =
     (if \<not> is_connected then Offline
      else if sample_age_upper_bound_ms \<le> 1500 then Live
      else if 1501 \<le> sample_age_upper_bound_ms \<and> sample_age_upper_bound_ms \<le> 5000 then Delayed
      else Stale)"

definition shortest_angle_lerp :: "fl \<Rightarrow> fl \<Rightarrow> fl \<Rightarrow> fl" where
  "shortest_angle_lerp from_deg to_deg t =
     (let delta = fl_sub f32_fmt
            (fl_rem_euclid f32_fmt
               (fl_add f32_fmt (fl_sub f32_fmt to_deg from_deg) (f32_lit 540)) (f32_lit 360))
            (f32_lit 180)
      in fl_rem_euclid f32_fmt
           (fl_add f32_fmt from_deg (fl_mul f32_fmt delta (fl_clamp (f32_lit 0) (f32_lit 1) t)))
           (f32_lit 360))"

record SampleClock =
  age_at_receive_upper_bound_ms :: u64
  received_at_monotonic_ms :: u64

definition received_with_age :: "u64 \<Rightarrow> u64 \<Rightarrow> SampleClock" where
  "received_with_age age received =
     \<lparr>age_at_receive_upper_bound_ms = age, received_at_monotonic_ms = received\<rparr>"

definition SampleClock_age_upper_bound_ms :: "SampleClock \<Rightarrow> u64 \<Rightarrow> u64" where
  "SampleClock_age_upper_bound_ms c now =
     sat_add (age_at_receive_upper_bound_ms c) (sat_sub now (received_at_monotonic_ms c))"

datatype PositionValidationError =
    EmptyWorldAlias | EmptySubjectId | EmptyAgentBootId
  | NonFiniteX | NonFiniteY | NonFiniteZ | NonFiniteHeading

fun PositionValidationError_field :: "PositionValidationError \<Rightarrow> string" where
  "PositionValidationError_field EmptyWorldAlias = ''world_alias''"
| "PositionValidationError_field EmptySubjectId = ''subject_id''"
| "PositionValidationError_field EmptyAgentBootId = ''agent_boot_id''"
| "PositionValidationError_field NonFiniteX = ''x''"
| "PositionValidationError_field NonFiniteY = ''y''"
| "PositionValidationError_field NonFiniteZ = ''z''"
| "PositionValidationError_field NonFiniteHeading = ''heading_degrees''"

record PositionSample =
  ps_world_alias :: string
  ps_subject_id :: bytes
  ps_agent_boot_id :: bytes
  ps_generation :: u64
  ps_sequence :: u64
  ps_x :: fl
  ps_y :: fl
  ps_z :: fl
  ps_heading :: "fl option"
  ps_clock :: SampleClock

definition PositionSample_new ::
  "string \<Rightarrow> bytes \<Rightarrow> bytes \<Rightarrow> u64 \<Rightarrow> u64 \<Rightarrow> fl \<Rightarrow> fl \<Rightarrow> fl \<Rightarrow> fl option \<Rightarrow> SampleClock
     \<Rightarrow> PositionValidationError + PositionSample" where
  "PositionSample_new world subject boot generation sequence x y z heading clock =
     (if world = [] then Inl EmptyWorldAlias
      else if subject = [] then Inl EmptySubjectId
      else if boot = [] then Inl EmptyAgentBootId
      else if \<not> fl_is_finite x then Inl NonFiniteX
      else if \<not> fl_is_finite y then Inl NonFiniteY
      else if \<not> fl_is_finite z then Inl NonFiniteZ
      else if (case heading of Some h \<Rightarrow> \<not> fl_is_finite h | None \<Rightarrow> False) then Inl NonFiniteHeading
      else Inr \<lparr>ps_world_alias = world, ps_subject_id = subject, ps_agent_boot_id = boot,
                ps_generation = generation, ps_sequence = sequence, ps_x = x, ps_y = y, ps_z = z,
                ps_heading = map_option (\<lambda>h. fl_rem_euclid f32_fmt h (f32_lit 360)) heading,
                ps_clock = clock\<rparr>)"

section \<open>Choice of the position source\<close>

datatype PositionSourceKind = LocalProcess | OfficialRest

fun PositionSourceKind_as_str :: "PositionSourceKind \<Rightarrow> string" where
  "PositionSourceKind_as_str LocalProcess = ''local_process''"
| "PositionSourceKind_as_str OfficialRest = ''official_rest''"

datatype PositionSourceAvailability = SrcLive | SrcWaiting | SrcUnavailable

record PositionSourceDecision =
  psd_active :: "PositionSourceKind option"
  poll_official_rest :: bool

definition is_fallback :: "PositionSourceDecision \<Rightarrow> bool" where
  "is_fallback d = (psd_active d = Some OfficialRest)"

record PositionSourcePolicy =
  official_rest_configured :: bool

definition local_only :: PositionSourcePolicy where
  "local_only = \<lparr>official_rest_configured = False\<rparr>"

definition with_official_rest_fallback :: PositionSourcePolicy where
  "with_official_rest_fallback = \<lparr>official_rest_configured = True\<rparr>"

fun PositionSourcePolicy_select ::
  "PositionSourcePolicy \<Rightarrow> PositionSourceAvailability \<Rightarrow> PositionSourceAvailability
     \<Rightarrow> PositionSourceDecision" where
  "PositionSourcePolicy_select p SrcLive rest =
     \<lparr>psd_active = Some LocalProcess, poll_official_rest = False\<rparr>"
| "PositionSourcePolicy_select p SrcWaiting rest =
     \<lparr>psd_active = None, poll_official_rest = False\<rparr>"
| "PositionSourcePolicy_select p SrcUnavailable rest =
     (if official_rest_configured p
      then \<lparr>psd_active = (if rest = SrcLive then Some OfficialRest else None),
            poll_official_rest = True\<rparr>
      else \<lparr>psd_active = None, poll_official_rest = False\<rparr>)"

section \<open>Views\<close>

datatype ViewValidationError =
    MiniMapCenterXNonFinite | MiniMapCenterYNonFinite | MiniMapZoomOutOfRange
  | ExpandedMapCenterXNonFinite | ExpandedMapCenterYNonFinite | ExpandedMapZoomOutOfRange

fun ViewValidationError_field :: "ViewValidationError \<Rightarrow> string" where
  "ViewValidationError_field MiniMapCenterXNonFinite = ''mini_map_view.center_x''"
| "ViewValidationError_field MiniMapCenterYNonFinite = ''mini_map_view.center_y''"
| "ViewValidationError_field MiniMapZoomOutOfRange = ''mini_map_view.zoom''"
| "ViewValidationError_field ExpandedMapCenterXNonFinite = ''expanded_map_view.center_x''"
| "ViewValidationError_field ExpandedMapCenterYNonFinite = ''expanded_map_view.center_y''"
| "ViewValidationError_field ExpandedMapZoomOutOfRange = ''expanded_map_view.zoom''"

definition validate_center :: "fl \<Rightarrow> ViewValidationError \<Rightarrow> ViewValidationError + unit" where
  "validate_center v e = ensure (fl_is_finite v) e"

definition validate_zoom :: "fl \<Rightarrow> ViewValidationError \<Rightarrow> ViewValidationError + unit" where
  "validate_zoom v e = ensure (fl_in_closed (f32_lit (50 / 100)) (f32_lit 4) v) e"

record MiniMapView =
  mm_center_x :: fl
  mm_center_y :: fl
  mm_zoom :: fl

definition MiniMapView_new :: "fl \<Rightarrow> fl \<Rightarrow> fl \<Rightarrow> ViewValidationError + MiniMapView" where
  "MiniMapView_new x y z =
     and_then (validate_center x MiniMapCenterXNonFinite) (\<lambda>_.
     and_then (validate_center y MiniMapCenterYNonFinite) (\<lambda>_.
     and_then (validate_zoom z MiniMapZoomOutOfRange) (\<lambda>_.
     Inr \<lparr>mm_center_x = x, mm_center_y = y, mm_zoom = z\<rparr>)))"

record ExpandedMapView =
  em_center_x :: fl
  em_center_y :: fl
  em_zoom :: fl

definition ExpandedMapView_new :: "fl \<Rightarrow> fl \<Rightarrow> fl \<Rightarrow> ViewValidationError + ExpandedMapView" where
  "ExpandedMapView_new x y z =
     and_then (validate_center x ExpandedMapCenterXNonFinite) (\<lambda>_.
     and_then (validate_center y ExpandedMapCenterYNonFinite) (\<lambda>_.
     and_then (validate_zoom z ExpandedMapZoomOutOfRange) (\<lambda>_.
     Inr \<lparr>em_center_x = x, em_center_y = y, em_zoom = z\<rparr>)))"

text \<open>The values a view can hold: its fields are private, so every view came from \<open>new\<close>.\<close>

definition MiniMapView_ok :: "MiniMapView \<Rightarrow> bool" where
  "MiniMapView_ok v = (fl_is_finite (mm_center_x v) \<and> fl_is_finite (mm_center_y v)
     \<and> fl_in_closed (f32_lit (50 / 100)) (f32_lit 4) (mm_zoom v))"

definition ExpandedMapView_ok :: "ExpandedMapView \<Rightarrow> bool" where
  "ExpandedMapView_ok v = (fl_is_finite (em_center_x v) \<and> fl_is_finite (em_center_y v)
     \<and> fl_in_closed (f32_lit (50 / 100)) (f32_lit 4) (em_zoom v))"

section \<open>Window snapshots\<close>

datatype WindowValidationError = VisibleWidthZero | VisibleHeightZero | VisibleDpiZero

fun WindowValidationError_field :: "WindowValidationError \<Rightarrow> string" where
  "WindowValidationError_field VisibleWidthZero = ''client_width''"
| "WindowValidationError_field VisibleHeightZero = ''client_height''"
| "WindowValidationError_field VisibleDpiZero = ''dpi''"

record WindowSnapshot =
  ws_process_id :: u32
  ws_client_left :: i32
  ws_client_top :: i32
  ws_client_width :: u32
  ws_client_height :: u32
  ws_dpi :: u32
  ws_visible :: bool
  ws_active :: bool
  ws_minimized :: bool

definition WindowSnapshot_validate :: "WindowSnapshot \<Rightarrow> WindowValidationError + unit" where
  "WindowSnapshot_validate w =
     (if \<not> ws_visible w then Inr ()
      else if ws_client_width w = 0 then Inl VisibleWidthZero
      else if ws_client_height w = 0 then Inl VisibleHeightZero
      else if ws_dpi w = 0 then Inl VisibleDpiZero
      else Inr ())"

definition WindowSnapshot_new ::
  "u32 \<Rightarrow> i32 \<Rightarrow> i32 \<Rightarrow> u32 \<Rightarrow> u32 \<Rightarrow> u32 \<Rightarrow> bool \<Rightarrow> bool \<Rightarrow> bool
     \<Rightarrow> WindowValidationError + WindowSnapshot" where
  "WindowSnapshot_new process_id left top_edge width height dpi visible active minimized =
     (let snapshot = \<lparr>ws_process_id = process_id, ws_client_left = left, ws_client_top = top_edge,
            ws_client_width = width, ws_client_height = height, ws_dpi = dpi,
            ws_visible = visible, ws_active = active, ws_minimized = minimized\<rparr>
      in and_then (WindowSnapshot_validate snapshot) (\<lambda>_. Inr snapshot))"

section \<open>The published core state\<close>

datatype CoreStateValidationError =
    CSSettings SettingsValidationError | CSSettingsVersionZero | ConnectionFreshnessMismatch
  | FreshnessPositionMissing | InterpolationStateInvalid | HeadingAvailabilityInvalid

fun CoreStateValidationError_field :: "CoreStateValidationError \<Rightarrow> string" where
  "CoreStateValidationError_field (CSSettings e) = SettingsValidationError_field e"
| "CoreStateValidationError_field CSSettingsVersionZero = ''settings_version''"
| "CoreStateValidationError_field ConnectionFreshnessMismatch = ''freshness''"
| "CoreStateValidationError_field FreshnessPositionMissing = ''position_sample''"
| "CoreStateValidationError_field InterpolationStateInvalid = ''interpolate_position''"
| "CoreStateValidationError_field HeadingAvailabilityInvalid = ''heading_available''"

text \<open>
  \<open>CoreState\<close> and \<open>CoreStateParts\<close> have the same fields; a \<open>CoreState\<close> is one that passed
  \<open>from_parts\<close>.
\<close>

record CoreState =
  cs_settings :: OverlaySettings
  cs_settings_version :: u64
  cs_window_snapshot :: "WindowSnapshot option"
  cs_position_sample :: "PositionSample option"
  cs_freshness :: Freshness
  cs_heading_available :: bool
  cs_connected :: bool
  cs_visible :: bool
  cs_interpolate_position :: bool
  cs_mini_map_view :: MiniMapView
  cs_expanded_map_view :: ExpandedMapView

type_synonym CoreStateParts = CoreState

definition CoreState_from_parts :: "CoreStateParts \<Rightarrow> CoreStateValidationError + CoreState" where
  "CoreState_from_parts p =
     and_then (map_err CSSettings (OverlaySettings_validate (cs_settings p))) (\<lambda>_.
     if cs_settings_version p = 0 then Inl CSSettingsVersionZero
     else if cs_connected p = (cs_freshness p = Offline) then Inl ConnectionFreshnessMismatch
     else let fresh_or_delayed = (cs_freshness p = Live \<or> cs_freshness p = Delayed) in
       if fresh_or_delayed \<and> cs_position_sample p = None then Inl FreshnessPositionMissing
       else let interpolation_eligible =
              (cs_connected p \<and> cs_position_sample p \<noteq> None \<and> fresh_or_delayed) in
         if cs_interpolate_position p \<noteq> interpolation_eligible then Inl InterpolationStateInvalid
         else if cs_heading_available p \<and>
           (case cs_position_sample p of None \<Rightarrow> True | Some s \<Rightarrow> ps_heading s = None)
         then Inl HeadingAvailabilityInvalid
         else Inr p)"

text \<open>
  The constructor used outside the reducer; \<open>None\<close> stands for its two \<open>expect\<close> panics, which
  \<open>CoreState_new_total\<close> shows unreachable.
\<close>

definition CoreState_new ::
  "OverlaySettings \<Rightarrow> WindowSnapshot option \<Rightarrow> PositionSample option \<Rightarrow> Freshness \<Rightarrow> bool
     \<Rightarrow> (CoreStateValidationError + CoreState) option" where
  "CoreState_new settings window position freshness heading_available =
     (case OverlaySettings_validate settings of
        Inl e \<Rightarrow> Some (Inl (CSSettings e))
      | Inr _ \<Rightarrow>
        (case (MiniMapView_new (FFin 0) (FFin 0) (zoom settings),
               ExpandedMapView_new (FFin 0) (FFin 0) (zoom settings)) of
           (Inr mini, Inr expanded) \<Rightarrow>
             Some (CoreState_from_parts
               \<lparr>cs_settings = settings, cs_settings_version = 1, cs_window_snapshot = window,
                cs_position_sample = position, cs_freshness = freshness,
                cs_heading_available = heading_available,
                cs_connected = (freshness \<noteq> Offline), cs_visible = enabled settings,
                cs_interpolate_position =
                  (position \<noteq> None \<and> (freshness = Live \<or> freshness = Delayed)),
                cs_mini_map_view = mini, cs_expanded_map_view = expanded\<rparr>)
         | _ \<Rightarrow> None))"

section \<open>Facts\<close>

lemma MiniMapView_new_Inr:
  "MiniMapView_new x y z = Inr v \<longleftrightarrow>
     v = \<lparr>mm_center_x = x, mm_center_y = y, mm_zoom = z\<rparr> \<and> MiniMapView_ok v"
  by (auto simp: MiniMapView_new_def validate_center_def validate_zoom_def and_then_eq_Inr
      MiniMapView_ok_def)

lemma ExpandedMapView_new_Inr:
  "ExpandedMapView_new x y z = Inr v \<longleftrightarrow>
     v = \<lparr>em_center_x = x, em_center_y = y, em_zoom = z\<rparr> \<and> ExpandedMapView_ok v"
  by (auto simp: ExpandedMapView_new_def validate_center_def validate_zoom_def and_then_eq_Inr
      ExpandedMapView_ok_def)

lemma settings_valid_zoom:
  "settings_valid s \<Longrightarrow> fl_in_closed (f32_lit (50 / 100)) (f32_lit 4) (zoom s)"
  by (simp add: settings_valid_iff del: f32_lit_values)

lemma PositionSample_new_Inr:
  assumes "PositionSample_new w s b g n x y z h c = Inr p"
  shows "ps_generation p = g" "ps_sequence p = n" "ps_agent_boot_id p = b" "ps_clock p = c"
    "ps_world_alias p = w" "ps_subject_id p = s" "b \<noteq> []" "ps_heading p = None \<longleftrightarrow> h = None"
  using assms by (auto simp: PositionSample_new_def split: if_splits option.splits)

lemma heading_normalised:
  "0 \<le> q \<Longrightarrow> q < 360 \<Longrightarrow> fl_rem_euclid f32_fmt (FFin q) (FFin 360) = FFin q"
proof -
  assume "0 \<le> q" "q < 360"
  then have "\<lfloor>q / 360\<rfloor> = 0" by (simp add: floor_eq_iff)
  with \<open>0 \<le> q\<close> show ?thesis by (simp add: fl_rem_euclid_def rat_trunc_def)
qed

lemma age_upper_bound_unat:
  "unat (SampleClock_age_upper_bound_ms c now) =
     min (unat (age_at_receive_upper_bound_ms c)
          + (unat now - unat (received_at_monotonic_ms c))) (2 ^ 64 - 1)"
  by (simp add: SampleClock_age_upper_bound_ms_def sat_unat)

lemma age_upper_bound_mono:
  "now \<le> later \<Longrightarrow> SampleClock_age_upper_bound_ms c now \<le> SampleClock_age_upper_bound_ms c later"
  by (simp add: SampleClock_age_upper_bound_ms_def sat_add_mono sat_sub_mono)

text \<open>Staleness as a number: the classification only moves upwards with the age.\<close>

fun freshness_rank :: "Freshness \<Rightarrow> nat" where
  "freshness_rank Live = 0"
| "freshness_rank Delayed = 1"
| "freshness_rank Stale = 2"
| "freshness_rank Offline = 3"

lemma classify_freshness_mono:
  "a \<le> b \<Longrightarrow> freshness_rank (classify_freshness a c) \<le> freshness_rank (classify_freshness b c)"
  by (auto simp: classify_freshness_def word_le_nat_alt)

lemma classify_freshness_offline [simp]: "classify_freshness a c = Offline \<longleftrightarrow> \<not> c"
  by (simp add: classify_freshness_def)

lemma f32_lit_angles [simp]: "f32_lit 540 = FFin 540" "f32_lit 180 = FFin 180"
  by code_simp+

lemma rem_euclid_360:
  "\<exists>v. fl_rem_euclid f32_fmt (FFin a) (FFin 360) = FFin v \<and> 0 \<le> v \<and> v \<le> 360"
  using f32_rem_euclid_range [of 360 a] by simp

lemma fl_clamp_unit:
  "t \<noteq> FNaN \<Longrightarrow> \<exists>c. fl_clamp (FFin 0) (FFin 1) t = FFin c \<and> 0 \<le> c \<and> c \<le> 1"
  by (cases t) (auto simp: fl_clamp_def)

lemma f32_add_bounded:
  assumes "\<bar>a\<bar> \<le> of_int m" "\<bar>b\<bar> \<le> of_int n" "m + n < 2 ^ 24"
  shows "\<exists>v. fl_add f32_fmt (FFin a) (FFin b) = FFin v \<and> \<bar>v\<bar> \<le> of_int (m + n)"
proof -
  have "\<bar>a + b\<bar> \<le> of_int (m + n)" using assms by simp
  from f32_round_bounded [OF this assms(3)] show ?thesis by auto
qed

section \<open>Properties\<close>

text \<open>
  \<open>CoreState::from_parts\<close> accepts exactly the consistent states: valid settings with a
  nonzero version, offline freshness if and only if disconnected, a position whenever the
  freshness is live or delayed, interpolation exactly when there is such a position on a live
  connection, and a heading only with a position that carries one. What it accepts it returns
  unchanged.
\<close>

lemma CoreState_from_parts_accepts_iff:
  "CoreState_from_parts p = Inr c \<longleftrightarrow>
     c = p \<and> OverlaySettings_validate (cs_settings p) = Inr () \<and> cs_settings_version p \<noteq> 0
     \<and> (cs_freshness p = Offline \<longleftrightarrow> \<not> cs_connected p)
     \<and> (cs_freshness p \<in> {Live, Delayed} \<longrightarrow> cs_position_sample p \<noteq> None)
     \<and> cs_interpolate_position p =
          (cs_connected p \<and> cs_position_sample p \<noteq> None \<and> cs_freshness p \<in> {Live, Delayed})
     \<and> (cs_heading_available p \<longrightarrow>
           (\<exists>s h. cs_position_sample p = Some s \<and> ps_heading s = Some h))"
  by (auto simp: CoreState_from_parts_def Let_def and_then_eq_Inr split: option.splits)

definition offline_core_state :: CoreState where
  "offline_core_state =
     \<lparr>cs_settings = OverlaySettings_default, cs_settings_version = 1, cs_window_snapshot = None,
      cs_position_sample = None, cs_freshness = Offline, cs_heading_available = False,
      cs_connected = False, cs_visible = True, cs_interpolate_position = False,
      cs_mini_map_view = \<lparr>mm_center_x = FFin 0, mm_center_y = FFin 0, mm_zoom = FFin 1\<rparr>,
      cs_expanded_map_view = \<lparr>em_center_x = FFin 0, em_center_y = FFin 0, em_zoom = FFin 1\<rparr>\<rparr>"

lemma CoreState_from_parts_accepts_iff_example:
  "CoreState_from_parts offline_core_state = Inr offline_core_state
   \<and> CoreState_from_parts (offline_core_state\<lparr>cs_freshness := Live\<rparr>)
       \<noteq> Inr (offline_core_state\<lparr>cs_freshness := Live\<rparr>)"
  using CoreState_from_parts_accepts_iff [of offline_core_state offline_core_state]
    CoreState_from_parts_accepts_iff [of "offline_core_state\<lparr>cs_freshness := Live\<rparr>"
      "offline_core_state\<lparr>cs_freshness := Live\<rparr>"]
  by (simp add: offline_core_state_def)

text \<open>
  \<open>CoreState::new\<close> never panics: with settings that validation accepts, both default views
  exist, so the two \<open>expect\<close> calls cannot fail.
\<close>

lemma CoreState_new_total: "CoreState_new s w p f h \<noteq> None"
proof (cases "OverlaySettings_validate s")
  case (Inl e)
  then show ?thesis by (simp add: CoreState_new_def)
next
  case (Inr u)
  then have z: "fl_in_closed (f32_lit (50 / 100)) (f32_lit 4) (zoom s)"
    using settings_valid_zoom [of s] by (cases u) simp
  have "MiniMapView_new (FFin 0) (FFin 0) (zoom s) =
      Inr \<lparr>mm_center_x = FFin 0, mm_center_y = FFin 0, mm_zoom = zoom s\<rparr>"
    using z by (simp add: MiniMapView_new_Inr MiniMapView_ok_def)
  moreover have "ExpandedMapView_new (FFin 0) (FFin 0) (zoom s) =
      Inr \<lparr>em_center_x = FFin 0, em_center_y = FFin 0, em_zoom = zoom s\<rparr>"
    using z by (simp add: ExpandedMapView_new_Inr ExpandedMapView_ok_def)
  ultimately show ?thesis using Inr by (simp add: CoreState_new_def)
qed

text \<open>
  A sample never looks fresher later: as the local clock advances, the classification of a
  sample's age moves only from live to delayed to stale, and an age that overflows 64 bits
  saturates instead of wrapping back to live.
\<close>

lemma freshness_never_improves:
  assumes "now \<le> later"
  shows "freshness_rank (classify_freshness (SampleClock_age_upper_bound_ms c now) online)
       \<le> freshness_rank (classify_freshness (SampleClock_age_upper_bound_ms c later) online)"
  using assms by (intro classify_freshness_mono age_upper_bound_mono)

lemma freshness_never_improves_example:
  "freshness_rank (classify_freshness
      (SampleClock_age_upper_bound_ms (received_with_age 1000 100) 200) True)
   \<le> freshness_rank (classify_freshness
      (SampleClock_age_upper_bound_ms (received_with_age 1000 100) (- 1)) True)"
  by (rule freshness_never_improves) simp

text \<open>
  The interpolated heading of two headings in the range 0 to 360 degrees, at any
  interpolation parameter that is not NaN (also out of range or infinite), is again a finite
  heading in that range.
\<close>

lemma shortest_angle_lerp_range:
  assumes "0 \<le> a" "a \<le> 360" "0 \<le> b" "b \<le> 360" "t \<noteq> FNaN"
  shows "\<exists>v. shortest_angle_lerp (FFin a) (FFin b) t = FFin v \<and> 0 \<le> v \<and> v \<le> 360"
proof -
  obtain d where d: "fl_add f32_fmt (FFin b) (FFin (- a)) = FFin d" "\<bar>d\<bar> \<le> 720"
    using f32_add_bounded [of b 360 "- a" 360] assms by auto
  obtain e where e: "fl_add f32_fmt (FFin d) (FFin 540) = FFin e"
    using f32_add_bounded [of d 720 540 540] d by auto
  obtain r where r: "fl_rem_euclid f32_fmt (FFin e) (FFin 360) = FFin r" "0 \<le> r" "r \<le> 360"
    using rem_euclid_360 by blast
  obtain m where m: "fl_add f32_fmt (FFin r) (FFin (- 180)) = FFin m" "\<bar>m\<bar> \<le> 540"
    using f32_add_bounded [of r 360 "- 180" 180] r by auto
  obtain c where c: "fl_clamp (FFin 0) (FFin 1) t = FFin c" "0 \<le> c" "c \<le> 1"
    using fl_clamp_unit assms(5) by blast
  have "\<bar>m * c\<bar> \<le> of_int 540"
    using m(2) c mult_mono [of "\<bar>m\<bar>" 540 "\<bar>c\<bar>" 1] by (simp add: abs_mult)
  then obtain p where p: "fl_round f32_fmt (m * c) = FFin p" "\<bar>p\<bar> \<le> 540"
    using f32_round_bounded [of "m * c" 540] by auto
  obtain q where q: "fl_add f32_fmt (FFin a) (FFin p) = FFin q"
    using f32_add_bounded [of a 360 p 540] assms p by auto
  have "shortest_angle_lerp (FFin a) (FFin b) t = fl_rem_euclid f32_fmt (FFin q) (FFin 360)"
    using d e r m c p q by (simp add: shortest_angle_lerp_def fl_sub_def Let_def del: fl_add.simps)
  then show ?thesis using rem_euclid_360 by simp
qed

lemma shortest_angle_lerp_range_example:
  "\<exists>v. shortest_angle_lerp (FFin 350) (FFin 10) (FInf True) = FFin v \<and> 0 \<le> v \<and> v \<le> 360"
  by (rule shortest_angle_lerp_range) simp_all

text \<open>
  A position sample is accepted exactly when its identities are nonempty and its
  coordinates and heading are finite, and the stored heading lies between 0 and 360 degrees.
  The upper end is included: a tiny negative heading is stored as exactly 360 degrees, which
  the telemetry envelope rejects (\<open>rem_euclid_attains_modulus\<close>).
\<close>

lemma PositionSample_new_spec:
  "case PositionSample_new w s b g n x y z h c of
     Inl e \<Rightarrow> w = [] \<or> s = [] \<or> b = [] \<or> list_ex (\<lambda>v. fl_is_finite v = False) [x, y, z]
        \<or> (\<exists>v. h = Some v \<and> fl_is_finite v = False)
   | Inr p \<Rightarrow> w \<noteq> [] \<and> s \<noteq> [] \<and> b \<noteq> [] \<and> list_all fl_is_finite [x, y, z]
        \<and> (ps_x p, ps_y p, ps_z p, ps_clock p) = (x, y, z, c)
        \<and> (case h of None \<Rightarrow> ps_heading p = None
            | Some v \<Rightarrow> fl_is_finite v \<and> (\<exists>d. ps_heading p = Some (FFin d) \<and> 0 \<le> d \<and> d \<le> 360))"
proof -
  have "\<exists>d. fl_rem_euclid f32_fmt v (FFin 360) = FFin d \<and> 0 \<le> d \<and> d \<le> 360"
    if "fl_is_finite v" for v
    using that rem_euclid_360 by (cases v) auto
  then show ?thesis
    by (auto simp: PositionSample_new_def split: option.splits)
qed

end
