(* ===== verification/State_Position_Source.thy ===== *)
theory State_Position_Source
  imports Domain_Core
begin

text \<open>
  The contract between position sources and the reducer
  (\<open>crates/pal-state/src/position_source.rs\<close>): the events of the \<open>PositionSource\<close> trait, and an
  abstract monitor that says which event sequences are well formed. The monitor is the
  specification: it remembers the open connection generation, the boot identity seen in it and
  the last sequence number, and it has no successor for an event out of order. The locale
  \<open>position_source\<close> is what a source promises its client: under the states the source relates
  to a monitor state, every polled event is one the monitor accepts.
\<close>

datatype ClockInvalidReason = MonotonicRegression | ProbeInvalid | EvidenceExpired

datatype PositionSourceEvent =
    Connected u64
  | Sample PositionSample
  | Unavailable u64
  | Disconnected u64
  | ClockInvalid u64 ClockInvalidReason

datatype ReplayError =
    ReplayIo | ReplayJson | EmptyFixture | FirstTimestampNotZero | NonIncreasingTimestamp nat
  | NonFiniteField nat string | LoopRequiresPositiveDuration | GenerationOverflow
  | SequenceOverflow | InvalidIdentity string | InvalidStartingGeneration

datatype PositionSourceError = ReplayFailed ReplayError

section \<open>The monitor\<close>

record monitor =
  mon_generation :: u64
  mon_online :: bool
  mon_boot :: "bytes option"
  mon_sequence :: "u64 option"

definition monitor_init :: monitor where
  "monitor_init = \<lparr>mon_generation = 0, mon_online = False, mon_boot = None, mon_sequence = None\<rparr>"

definition monitor_open :: "monitor \<Rightarrow> u64 \<Rightarrow> bool" where
  "monitor_open m g = (mon_online m \<and> g = mon_generation m)"

definition monitor_sample_ok :: "monitor \<Rightarrow> PositionSample \<Rightarrow> bool" where
  "monitor_sample_ok m p =
     (monitor_open m (ps_generation p) \<and> ps_generation p \<noteq> 0 \<and> ps_sequence p \<noteq> 0
      \<and> (case mon_boot m of None \<Rightarrow> True | Some b \<Rightarrow> b = ps_agent_boot_id p)
      \<and> (case mon_sequence m of None \<Rightarrow> True | Some n \<Rightarrow> n < ps_sequence p))"

fun monitor_step :: "monitor \<Rightarrow> PositionSourceEvent \<Rightarrow> monitor option" where
  "monitor_step m (Connected g) =
     (if mon_generation m < g
      then Some \<lparr>mon_generation = g, mon_online = True, mon_boot = None, mon_sequence = None\<rparr>
      else None)"
| "monitor_step m (Sample p) =
     (if monitor_sample_ok m p
      then Some (m\<lparr>mon_boot := Some (ps_agent_boot_id p), mon_sequence := Some (ps_sequence p)\<rparr>)
      else None)"
| "monitor_step m (Unavailable g) = (if monitor_open m g then Some m else None)"
| "monitor_step m (Disconnected g) =
     (if monitor_open m g then Some (m\<lparr>mon_online := False\<rparr>) else None)"
| "monitor_step m (ClockInvalid g _) = (if monitor_open m g then Some m else None)"

fun monitor_run :: "monitor \<Rightarrow> PositionSourceEvent list \<Rightarrow> monitor option" where
  "monitor_run m [] = Some m"
| "monitor_run m (e # es) = Option.bind (monitor_step m e) (\<lambda>m'. monitor_run m' es)"

text \<open>An open monitor never has generation zero, as generations only grow from zero.\<close>

definition monitor_wf :: "monitor \<Rightarrow> bool" where
  "monitor_wf m = (mon_online m \<longrightarrow> mon_generation m \<noteq> 0)"

lemma monitor_wf_init [simp]: "monitor_wf monitor_init"
  by (simp add: monitor_wf_def monitor_init_def)

lemma monitor_step_wf: "monitor_step m e = Some m' \<Longrightarrow> monitor_wf m \<Longrightarrow> monitor_wf m'"
  by (cases e) (auto simp: monitor_wf_def split: if_splits)

lemma monitor_step_generation_mono:
  "monitor_step m e = Some m' \<Longrightarrow> mon_generation m \<le> mon_generation m'"
  by (cases e) (auto split: if_splits)

lemma monitor_run_append:
  "monitor_run m (xs @ ys) = Option.bind (monitor_run m xs) (\<lambda>m'. monitor_run m' ys)"
proof (induction xs arbitrary: m)
  case (Cons x xs)
  then show ?case by (cases "monitor_step m x") auto
qed simp

section \<open>Sources and clients\<close>

text \<open>
  One interaction with a source: the client polls it at a time, or the transport behind it
  moves (a function on the source's state).
\<close>

datatype 's source_action = PollAt u64 | Transport "'s \<Rightarrow> 's"

type_synonym ('s, 'e) poll_fun = "'s \<Rightarrow> u64 \<Rightarrow> ('e + PositionSourceEvent option) \<times> 's"

text \<open>The client loop: the state of the source and the events delivered so far, oldest first.\<close>

fun drive :: "('s, 'e) poll_fun \<Rightarrow> 's \<Rightarrow> 's source_action list \<Rightarrow> PositionSourceEvent list \<times> 's" where
  "drive poll s [] = ([], s)"
| "drive poll s (Transport f # as) = drive poll (f s) as"
| "drive poll s (PollAt now # as) =
     (case poll s now of
        (Inr (Some e), s') \<Rightarrow> (let (es, t) = drive poll s' as in (e # es, t))
      | (_, s') \<Rightarrow> drive poll s' as)"

text \<open>Every action is one the source admits in the state it meets.\<close>

fun admitted :: "('s, 'e) poll_fun \<Rightarrow> ('s \<Rightarrow> u64 \<Rightarrow> bool) \<Rightarrow> (('s \<Rightarrow> 's) \<Rightarrow> bool)
    \<Rightarrow> 's \<Rightarrow> 's source_action list \<Rightarrow> bool" where
  "admitted poll ok_time ok_transport s [] = True"
| "admitted poll ok_time ok_transport s (Transport f # as) =
     (ok_transport f \<and> admitted poll ok_time ok_transport (f s) as)"
| "admitted poll ok_time ok_transport s (PollAt now # as) =
     (ok_time s now \<and> admitted poll ok_time ok_transport (snd (poll s now)) as)"

locale position_source =
  fixes poll :: "('s, 'e) poll_fun"
    and relates :: "'s \<Rightarrow> monitor \<Rightarrow> bool"
    and ok_time :: "'s \<Rightarrow> u64 \<Rightarrow> bool"
    and ok_transport :: "('s \<Rightarrow> 's) \<Rightarrow> bool"
  assumes poll_event:
      "relates s m \<Longrightarrow> ok_time s now \<Longrightarrow> poll s now = (Inr (Some e), s') \<Longrightarrow>
         \<exists>m'. monitor_step m e = Some m' \<and> relates s' m'"
    and poll_nothing:
      "relates s m \<Longrightarrow> ok_time s now \<Longrightarrow> poll s now = (Inr None, s') \<Longrightarrow> relates s' m"
    and poll_error:
      "relates s m \<Longrightarrow> ok_time s now \<Longrightarrow> poll s now = (Inl err, s') \<Longrightarrow> relates s' m"
    and transport_keeps: "relates s m \<Longrightarrow> ok_transport f \<Longrightarrow> relates (f s) m"
begin

lemma drive_accepted:
  assumes "relates s m" and "admitted poll ok_time ok_transport s as"
    and "drive poll s as = (es, t)"
  shows "\<exists>m'. monitor_run m es = Some m' \<and> relates t m'"
  using assms
proof (induction as arbitrary: s m es)
  case Nil
  then show ?case by auto
next
  case (Cons a as)
  show ?case
  proof (cases a)
    case (Transport f)
    with Cons.prems have "relates (f s) m" by (auto intro: transport_keeps)
    with Cons Transport show ?thesis by auto
  next
    case (PollAt now)
    obtain r s' where p: "poll s now = (r, s')" by (cases "poll s now")
    have adm: "ok_time s now" "admitted poll ok_time ok_transport s' as"
      using Cons.prems(2) PollAt p by auto
    show ?thesis
    proof (cases "\<exists>e. r = Inr (Some e)")
      case True
      then obtain e where r: "r = Inr (Some e)" by blast
      obtain fs where fs: "drive poll s' as = (fs, t)" "es = e # fs"
        using Cons.prems(3) PollAt p r by (auto split: prod.splits)
      obtain m1 where m1: "monitor_step m e = Some m1" "relates s' m1"
        using poll_event [OF Cons.prems(1) adm(1)] p r by blast
      with Cons.IH [OF m1(2) adm(2) fs(1)] fs(2) show ?thesis by auto
    next
      case False
      have "relates s' m"
      proof (cases r)
        case (Inl err)
        with p Cons.prems(1) adm(1) show ?thesis by (auto intro: poll_error)
      next
        case (Inr ev)
        with False p Cons.prems(1) adm(1) show ?thesis by (cases ev) (auto intro: poll_nothing)
      qed
      moreover have "drive poll s' as = (es, t)"
        using Cons.prems(3) PollAt p False by (cases r) (auto split: option.splits)
      ultimately show ?thesis using Cons.IH adm(2) by blast
    qed
  qed
qed

end

end
