(* ===== verification/State_Reducer.thy ===== *)
theory State_Reducer
  imports State_Position_Source
begin

text \<open>
  The sole owner of the mutable overlay state, \<open>crates/pal-state/src/reducer.rs\<close>. Every method
  that takes \<open>&mut self\<close> is a function returning the new state; the fallible ones return the
  result beside the state, so that a failure that had changed the state would be visible.
\<close>

section \<open>State and events\<close>

record ReducerDiagnostics =
  rd_accepted_samples :: u64
  rd_duplicate_drops :: u64
  rd_out_of_order_drops :: u64
  rd_gap_events :: u64
  rd_missing_sequences :: u64
  rd_old_generation_drops :: u64
  rd_boot_mismatch_drops :: u64
  rd_invalid_transition_drops :: u64
  rd_clock_invalid_events :: u64

definition ReducerDiagnostics_default :: ReducerDiagnostics where
  "ReducerDiagnostics_default =
     \<lparr>rd_accepted_samples = 0, rd_duplicate_drops = 0, rd_out_of_order_drops = 0,
      rd_gap_events = 0, rd_missing_sequences = 0, rd_old_generation_drops = 0,
      rd_boot_mismatch_drops = 0, rd_invalid_transition_drops = 0, rd_clock_invalid_events = 0\<rparr>"

datatype Event =
    PositionSourceEv PositionSourceEvent
  | SettingsApplied u64 OverlaySettings
  | WindowChanged "WindowSnapshot option"
  | SetVisible bool
  | SetDisplayMode DisplayMode
  | SetMiniMapView MiniMapView
  | ExpandedPanZoom fl fl fl

datatype ReducerError =
    SettingsVersionZero
  | SettingsVersionNotNewer u64 u64
  | SettingsVersionOverflow
  | ReducerSettings SettingsValidationError
  | ReducerView ViewValidationError

fun ReducerError_field :: "ReducerError \<Rightarrow> string option" where
  "ReducerError_field SettingsVersionZero = Some ''settings_version''"
| "ReducerError_field (SettingsVersionNotNewer _ _) = Some ''settings_version''"
| "ReducerError_field SettingsVersionOverflow = Some ''settings_version''"
| "ReducerError_field (ReducerSettings e) = Some (SettingsValidationError_field e)"
| "ReducerError_field (ReducerView e) = Some (ViewValidationError_field e)"

record StateReducer =
  sr_settings :: OverlaySettings
  sr_settings_version :: u64
  sr_window :: "WindowSnapshot option"
  sr_visible :: bool
  sr_generation :: u64
  sr_connected :: bool
  sr_active_boot_id :: "bytes option"
  sr_last_sequence :: "u64 option"
  sr_last_position :: "PositionSample option"
  sr_clock_valid :: bool
  sr_heading_available :: bool
  sr_mini_map_view :: MiniMapView
  sr_expanded_map_view :: ExpandedMapView
  sr_diagnostics :: ReducerDiagnostics

text \<open>The default views are those \<open>new(0, 0, settings.zoom)\<close> returns at the default zoom 1.\<close>

definition StateReducer_default :: StateReducer where
  "StateReducer_default =
     \<lparr>sr_settings = OverlaySettings_default, sr_settings_version = 1, sr_window = None,
      sr_visible = enabled OverlaySettings_default, sr_generation = 0, sr_connected = False,
      sr_active_boot_id = None, sr_last_sequence = None, sr_last_position = None,
      sr_clock_valid = False, sr_heading_available = False,
      sr_mini_map_view =
        \<lparr>mm_center_x = FFin 0, mm_center_y = FFin 0, mm_zoom = zoom OverlaySettings_default\<rparr>,
      sr_expanded_map_view =
        \<lparr>em_center_x = FFin 0, em_center_y = FFin 0, em_zoom = zoom OverlaySettings_default\<rparr>,
      sr_diagnostics = ReducerDiagnostics_default\<rparr>"

section \<open>Position events\<close>

definition increment :: "u64 \<Rightarrow> u64" where
  "increment counter = sat_add counter 1"

abbreviation count_invalid_transition :: "StateReducer \<Rightarrow> StateReducer" where
  "count_invalid_transition r \<equiv> r\<lparr>sr_diagnostics := (sr_diagnostics r)
     \<lparr>rd_invalid_transition_drops := increment (rd_invalid_transition_drops (sr_diagnostics r))\<rparr>\<rparr>"

abbreviation count_old_generation :: "StateReducer \<Rightarrow> StateReducer" where
  "count_old_generation r \<equiv> r\<lparr>sr_diagnostics := (sr_diagnostics r)
     \<lparr>rd_old_generation_drops := increment (rd_old_generation_drops (sr_diagnostics r))\<rparr>\<rparr>"

definition apply_unavailable :: "StateReducer \<Rightarrow> u64 \<Rightarrow> StateReducer" where
  "apply_unavailable r generation =
     (if generation = 0 then count_invalid_transition r
      else if generation < sr_generation r then count_old_generation r
      else if generation \<noteq> sr_generation r \<or> \<not> sr_connected r then count_invalid_transition r
      else r\<lparr>sr_last_position := None, sr_clock_valid := False, sr_heading_available := False\<rparr>)"

definition apply_connected :: "StateReducer \<Rightarrow> u64 \<Rightarrow> StateReducer" where
  "apply_connected r generation =
     (if generation = 0 then count_invalid_transition r
      else if generation < sr_generation r then count_old_generation r
      else if sr_generation r < generation then
        r\<lparr>sr_generation := generation, sr_connected := True, sr_active_boot_id := None,
          sr_last_sequence := None, sr_last_position := None, sr_clock_valid := False,
          sr_heading_available := False\<rparr>
      else r)"

text \<open>The gap bookkeeping of \<open>apply_sample\<close>, reached with a sequence above the previous one.\<close>

definition count_gap :: "u64 \<Rightarrow> u64 \<Rightarrow> ReducerDiagnostics \<Rightarrow> ReducerDiagnostics" where
  "count_gap previous sequence d =
     (if sat_add previous 1 < sequence
      then d\<lparr>rd_gap_events := increment (rd_gap_events d),
             rd_missing_sequences :=
               sat_add (rd_missing_sequences d) (sat_sub (sat_sub sequence previous) 1)\<rparr>
      else d)"

text \<open>The accepting tail of \<open>apply_sample\<close>.\<close>

definition accept_sample :: "StateReducer \<Rightarrow> PositionSample \<Rightarrow> StateReducer" where
  "accept_sample r sample =
     r\<lparr>sr_active_boot_id := (case sr_active_boot_id r of
            None \<Rightarrow> Some (ps_agent_boot_id sample) | Some b \<Rightarrow> Some b),
       sr_last_sequence := Some (ps_sequence sample),
       sr_clock_valid := True,
       sr_heading_available := (ps_heading sample \<noteq> None),
       sr_last_position := Some sample,
       sr_diagnostics := (sr_diagnostics r)
         \<lparr>rd_accepted_samples := increment (rd_accepted_samples (sr_diagnostics r))\<rparr>\<rparr>"

definition apply_sample :: "StateReducer \<Rightarrow> PositionSample \<Rightarrow> StateReducer" where
  "apply_sample r sample =
     (let generation = ps_generation sample; d = sr_diagnostics r in
      if generation = 0 \<or> ps_sequence sample = 0 then count_invalid_transition r
      else if generation < sr_generation r then count_old_generation r
      else if sr_generation r < generation \<or> \<not> sr_connected r then count_invalid_transition r
      else if (case sr_active_boot_id r of Some b \<Rightarrow> b \<noteq> ps_agent_boot_id sample | None \<Rightarrow> False)
      then r\<lparr>sr_diagnostics := d\<lparr>rd_boot_mismatch_drops := increment (rd_boot_mismatch_drops d)\<rparr>\<rparr>
      else case sr_last_sequence r of
          None \<Rightarrow> accept_sample r sample
        | Some previous \<Rightarrow>
            if ps_sequence sample = previous
            then r\<lparr>sr_diagnostics := d\<lparr>rd_duplicate_drops := increment (rd_duplicate_drops d)\<rparr>\<rparr>
            else if ps_sequence sample < previous
            then r\<lparr>sr_diagnostics := d\<lparr>rd_out_of_order_drops := increment (rd_out_of_order_drops d)\<rparr>\<rparr>
            else accept_sample
                   (r\<lparr>sr_diagnostics := count_gap previous (ps_sequence sample) d\<rparr>) sample)"

definition apply_disconnected :: "StateReducer \<Rightarrow> u64 \<Rightarrow> StateReducer" where
  "apply_disconnected r generation =
     (if generation = 0 then count_invalid_transition r
      else if generation < sr_generation r then count_old_generation r
      else if sr_generation r < generation then count_invalid_transition r
      else if sr_connected r then
        r\<lparr>sr_connected := False, sr_clock_valid := False, sr_heading_available := False\<rparr>
      else r)"

definition apply_clock_invalid :: "StateReducer \<Rightarrow> u64 \<Rightarrow> StateReducer" where
  "apply_clock_invalid r generation =
     (if generation = 0 then count_invalid_transition r
      else if generation < sr_generation r then count_old_generation r
      else if sr_generation r < generation \<or> \<not> sr_connected r then count_invalid_transition r
      else r\<lparr>sr_clock_valid := False, sr_heading_available := False,
             sr_diagnostics := (sr_diagnostics r)
               \<lparr>rd_clock_invalid_events := increment (rd_clock_invalid_events (sr_diagnostics r))\<rparr>\<rparr>)"

fun apply_position_source :: "StateReducer \<Rightarrow> PositionSourceEvent \<Rightarrow> StateReducer" where
  "apply_position_source r (Connected generation) = apply_connected r generation"
| "apply_position_source r (Sample sample) = apply_sample r sample"
| "apply_position_source r (Unavailable generation) = apply_unavailable r generation"
| "apply_position_source r (Disconnected generation) = apply_disconnected r generation"
| "apply_position_source r (ClockInvalid generation _) = apply_clock_invalid r generation"

section \<open>Settings and views\<close>

definition display_transition_view ::
  "StateReducer \<Rightarrow> DisplayMode \<Rightarrow> DisplayMode \<Rightarrow> MiniMapView \<Rightarrow> ReducerError + ExpandedMapView" where
  "display_transition_view r old_mode new_mode mini =
     (if old_mode = new_mode then Inr (sr_expanded_map_view r)
      else map_err ReducerView
             (ExpandedMapView_new (mm_center_x mini) (mm_center_y mini)
                (em_zoom (sr_expanded_map_view r))))"

definition apply_settings ::
  "StateReducer \<Rightarrow> u64 \<Rightarrow> OverlaySettings \<Rightarrow> (ReducerError + unit) \<times> StateReducer" where
  "apply_settings r version settings =
     (case OverlaySettings_validate settings of
        Inl e \<Rightarrow> (Inl (ReducerSettings e), r)
      | Inr _ \<Rightarrow>
        if version = 0 then (Inl SettingsVersionZero, r)
        else if version \<le> sr_settings_version r
        then (Inl (SettingsVersionNotNewer (sr_settings_version r) version), r)
        else case MiniMapView_new (mm_center_x (sr_mini_map_view r))
                    (mm_center_y (sr_mini_map_view r)) (zoom settings) of
            Inl e \<Rightarrow> (Inl (ReducerView e), r)
          | Inr mini \<Rightarrow>
            (case display_transition_view r (display_mode (sr_settings r))
                    (display_mode settings) mini of
               Inl e \<Rightarrow> (Inl e, r)
             | Inr expanded \<Rightarrow>
               (Inr (),
                r\<lparr>sr_visible := enabled settings, sr_settings := settings,
                  sr_settings_version := version, sr_mini_map_view := mini,
                  sr_expanded_map_view := expanded\<rparr>)))"

definition set_display_mode :: "StateReducer \<Rightarrow> DisplayMode \<Rightarrow> (ReducerError + unit) \<times> StateReducer" where
  "set_display_mode r mode =
     (let old_mode = display_mode (sr_settings r) in
      if old_mode = mode then (Inr (), r)
      else case checked_add (sr_settings_version r) 1 of
          None \<Rightarrow> (Inl SettingsVersionOverflow, r)
        | Some version \<Rightarrow>
          (case display_transition_view r old_mode mode (sr_mini_map_view r) of
             Inl e \<Rightarrow> (Inl e, r)
           | Inr expanded \<Rightarrow>
             let settings = (sr_settings r)\<lparr>display_mode := mode\<rparr> in
             (case OverlaySettings_validate settings of
                Inl e \<Rightarrow> (Inl (ReducerSettings e), r)
              | Inr _ \<Rightarrow>
                (Inr (), r\<lparr>sr_settings := settings, sr_settings_version := version,
                           sr_expanded_map_view := expanded\<rparr>))))"

fun StateReducer_apply :: "StateReducer \<Rightarrow> Event \<Rightarrow> (ReducerError + unit) \<times> StateReducer" where
  "StateReducer_apply r (PositionSourceEv e) = (Inr (), apply_position_source r e)"
| "StateReducer_apply r (SettingsApplied version settings) = apply_settings r version settings"
| "StateReducer_apply r (WindowChanged window) = (Inr (), r\<lparr>sr_window := window\<rparr>)"
| "StateReducer_apply r (SetVisible visible) = (Inr (), r\<lparr>sr_visible := visible\<rparr>)"
| "StateReducer_apply r (SetDisplayMode mode) = set_display_mode r mode"
| "StateReducer_apply r (SetMiniMapView view) = (Inr (), r\<lparr>sr_mini_map_view := view\<rparr>)"
| "StateReducer_apply r (ExpandedPanZoom center_x center_y z) =
     (case ExpandedMapView_new center_x center_y z of
        Inl e \<Rightarrow> (Inl (ReducerView e), r)
      | Inr candidate \<Rightarrow> (Inr (), r\<lparr>sr_expanded_map_view := candidate\<rparr>))"

section \<open>Reading the state\<close>

definition has_trusted_position :: "StateReducer \<Rightarrow> bool" where
  "has_trusted_position r = (sr_connected r \<and> sr_clock_valid r \<and> sr_last_position r \<noteq> None)"

definition StateReducer_freshness :: "StateReducer \<Rightarrow> u64 \<Rightarrow> Freshness" where
  "StateReducer_freshness r now =
     (if \<not> sr_connected r then Offline
      else if \<not> sr_clock_valid r then Stale
      else case sr_last_position r of
          None \<Rightarrow> Stale
        | Some position \<Rightarrow>
            classify_freshness (SampleClock_age_upper_bound_ms (ps_clock position) now) True)"

definition core_state_parts :: "StateReducer \<Rightarrow> u64 \<Rightarrow> CoreStateParts" where
  "core_state_parts r now =
     (let freshness = StateReducer_freshness r now;
          interpolate = (sr_connected r \<and> sr_clock_valid r \<and> sr_last_position r \<noteq> None
                         \<and> (freshness = Live \<or> freshness = Delayed))
      in \<lparr>cs_settings = sr_settings r, cs_settings_version = sr_settings_version r,
          cs_window_snapshot = sr_window r, cs_position_sample = sr_last_position r,
          cs_freshness = freshness, cs_heading_available = sr_heading_available r,
          cs_connected = sr_connected r, cs_visible = sr_visible r,
          cs_interpolate_position = interpolate, cs_mini_map_view = sr_mini_map_view r,
          cs_expanded_map_view = sr_expanded_map_view r\<rparr>)"

text \<open>\<open>None\<close> is the panic of the final \<open>expect\<close>.\<close>

definition core_state :: "StateReducer \<Rightarrow> u64 \<Rightarrow> CoreState option" where
  "core_state r now =
     (case CoreState_from_parts (core_state_parts r now) of Inl _ \<Rightarrow> None | Inr c \<Rightarrow> Some c)"

section \<open>The invariant\<close>

definition reducer_position_ok :: "StateReducer \<Rightarrow> bool" where
  "reducer_position_ok r \<longleftrightarrow>
     (sr_heading_available r \<longrightarrow>
        (\<exists>p h. sr_last_position r = Some p \<and> ps_heading p = Some h))
     \<and> (sr_clock_valid r \<longrightarrow> sr_connected r \<and> sr_last_position r \<noteq> None)
     \<and> (\<forall>p. sr_last_position r = Some p \<longrightarrow>
          ps_generation p = sr_generation r \<and> sr_last_sequence r = Some (ps_sequence p)
          \<and> sr_active_boot_id r = Some (ps_agent_boot_id p))
     \<and> (sr_connected r \<longrightarrow> sr_generation r \<noteq> 0)"

definition reducer_inv :: "StateReducer \<Rightarrow> bool" where
  "reducer_inv r \<longleftrightarrow>
     settings_valid (sr_settings r) \<and> sr_settings_version r \<noteq> 0
     \<and> MiniMapView_ok (sr_mini_map_view r) \<and> ExpandedMapView_ok (sr_expanded_map_view r)
     \<and> reducer_position_ok r"

lemmas position_handler_defs =
  apply_unavailable_def apply_connected_def apply_sample_def apply_disconnected_def
  apply_clock_invalid_def accept_sample_def

lemma apply_position_source_ok:
  "reducer_position_ok r \<Longrightarrow> reducer_position_ok (apply_position_source r e)"
proof (cases e)
  case (Sample p)
  moreover assume "reducer_position_ok r"
  ultimately show ?thesis
    by (auto simp: apply_sample_def accept_sample_def Let_def reducer_position_ok_def
        split: option.splits)
qed (auto simp: position_handler_defs reducer_position_ok_def)

lemma apply_position_source_frame:
  "sr_settings (apply_position_source r e) = sr_settings r"
  "sr_settings_version (apply_position_source r e) = sr_settings_version r"
  "sr_mini_map_view (apply_position_source r e) = sr_mini_map_view r"
  "sr_expanded_map_view (apply_position_source r e) = sr_expanded_map_view r"
  by (cases e; auto simp: position_handler_defs Let_def split: option.splits)+

lemma display_transition_view_ok:
  "display_transition_view r a b mini = Inr v \<Longrightarrow> ExpandedMapView_ok (sr_expanded_map_view r) \<Longrightarrow>
     ExpandedMapView_ok v"
  by (auto simp: display_transition_view_def ExpandedMapView_new_Inr split: if_splits)

lemma apply_settings_Inr:
  assumes "apply_settings r version settings = (Inr u, r')"
  obtains mini expanded where "settings_valid settings" "sr_settings_version r < version"
    "MiniMapView_ok mini" "display_transition_view r (display_mode (sr_settings r))
        (display_mode settings) mini = Inr expanded"
    "r' = r\<lparr>sr_visible := enabled settings, sr_settings := settings,
            sr_settings_version := version, sr_mini_map_view := mini,
            sr_expanded_map_view := expanded\<rparr>"
  using assms
  by (auto simp: apply_settings_def MiniMapView_new_Inr split: sum.splits if_splits)

lemma set_display_mode_Inr:
  assumes "set_display_mode r mode = (Inr u, r')"
  shows "r' = r \<or> (\<exists>version expanded.
     checked_add (sr_settings_version r) 1 = Some version
     \<and> settings_valid ((sr_settings r)\<lparr>display_mode := mode\<rparr>)
     \<and> display_transition_view r (display_mode (sr_settings r)) mode (sr_mini_map_view r) = Inr expanded
     \<and> r' = r\<lparr>sr_settings := (sr_settings r)\<lparr>display_mode := mode\<rparr>,
              sr_settings_version := version, sr_expanded_map_view := expanded\<rparr>)"
  using assms
  by (auto simp: set_display_mode_def Let_def split: sum.splits if_splits option.splits)

lemma StateReducer_apply_error_state: "StateReducer_apply r e = (Inl err, r') \<Longrightarrow> r' = r"
  by (cases e)
    (auto simp: apply_settings_def set_display_mode_def Let_def
      split: sum.splits if_splits option.splits)

text \<open>
  The values an event can carry: a \<open>MiniMapView\<close> has private fields and exists only if its
  constructor accepted it.
\<close>

fun event_ok :: "Event \<Rightarrow> bool" where
  "event_ok (SetMiniMapView v) = MiniMapView_ok v"
| "event_ok _ = True"

lemma reducer_position_ok_frame:
  "reducer_position_ok r \<Longrightarrow>
   sr_heading_available r' = sr_heading_available r \<Longrightarrow> sr_clock_valid r' = sr_clock_valid r \<Longrightarrow>
   sr_connected r' = sr_connected r \<Longrightarrow> sr_last_position r' = sr_last_position r \<Longrightarrow>
   sr_generation r' = sr_generation r \<Longrightarrow> sr_last_sequence r' = sr_last_sequence r \<Longrightarrow>
   sr_active_boot_id r' = sr_active_boot_id r \<Longrightarrow> reducer_position_ok r'"
  by (simp add: reducer_position_ok_def)

lemma reducer_inv_apply_settings:
  assumes "reducer_inv r" "apply_settings r v s = (Inr u, r')"
  shows "reducer_inv r'"
  using assms(2)
proof (rule apply_settings_Inr)
  fix mini expanded
  assume *: "settings_valid s" "sr_settings_version r < v" "MiniMapView_ok mini"
    "display_transition_view r (display_mode (sr_settings r)) (display_mode s) mini = Inr expanded"
    and r': "r' = r\<lparr>sr_visible := enabled s, sr_settings := s, sr_settings_version := v,
            sr_mini_map_view := mini, sr_expanded_map_view := expanded\<rparr>"
  have "v \<noteq> 0" using *(2) by auto
  then show "reducer_inv r'"
    using assms(1) * by (auto simp: r' reducer_inv_def intro: display_transition_view_ok
        elim!: reducer_position_ok_frame)
qed

lemma reducer_inv_set_display_mode:
  assumes "reducer_inv r" "set_display_mode r mode = (Inr u, r')"
  shows "reducer_inv r'"
proof -
  have "v \<noteq> 0" if "checked_add (sr_settings_version r) 1 = Some v" for v
    using checked_add_one_greater [OF that] by auto
  then show ?thesis
    using assms(1) set_display_mode_Inr [OF assms(2)]
    by (auto simp: reducer_inv_def intro: display_transition_view_ok
        elim!: reducer_position_ok_frame)
qed

lemma StateReducer_apply_inv:
  assumes "reducer_inv r" "event_ok e" "StateReducer_apply r e = (res, r')"
  shows "reducer_inv r'"
proof (cases res)
  case (Inl err)
  with assms StateReducer_apply_error_state show ?thesis by blast
next
  case (Inr u)
  show ?thesis
  proof (cases e)
    case (PositionSourceEv ev)
    with assms show ?thesis
      by (auto simp: reducer_inv_def apply_position_source_ok apply_position_source_frame)
  next
    case (SettingsApplied v s)
    with assms Inr show ?thesis by (auto intro: reducer_inv_apply_settings)
  next
    case (SetDisplayMode mode)
    with assms Inr show ?thesis by (auto intro: reducer_inv_set_display_mode)
  next
    case (ExpandedPanZoom x y z)
    with assms Inr show ?thesis
      by (auto simp: reducer_inv_def ExpandedMapView_new_Inr split: sum.splits
          elim!: reducer_position_ok_frame)
  qed (use assms in \<open>auto simp: reducer_inv_def elim!: reducer_position_ok_frame\<close>)
qed

lemma reducer_inv_default: "reducer_inv StateReducer_default"
proof -
  have "zoom OverlaySettings_default = FFin 1" by (simp add: OverlaySettings_default_def)
  then show ?thesis
    by (simp add: reducer_inv_def StateReducer_default_def MiniMapView_ok_def fl_in_closed_def
        ExpandedMapView_ok_def reducer_position_ok_def)
qed

inductive reducer_reachable :: "StateReducer \<Rightarrow> bool" where
  reducer_start: "reducer_reachable StateReducer_default"
| reducer_event: "reducer_reachable r \<Longrightarrow> event_ok e \<Longrightarrow>
     StateReducer_apply r e = (res, r') \<Longrightarrow> reducer_reachable r'"

lemma reducer_reachable_inv: "reducer_reachable r \<Longrightarrow> reducer_inv r"
  by (induction rule: reducer_reachable.induct) (auto intro: reducer_inv_default StateReducer_apply_inv)

lemma reducer_inv_core_state:
  assumes "reducer_inv r"
  shows "core_state r now = Some (core_state_parts r now)"
proof -
  have "CoreState_from_parts (core_state_parts r now) = Inr (core_state_parts r now)"
    using assms
    by (auto simp: CoreState_from_parts_def core_state_parts_def Let_def reducer_inv_def
        reducer_position_ok_def StateReducer_freshness_def split: option.splits)
  then show ?thesis by (simp add: core_state_def)
qed

section \<open>The reducer implements the monitor\<close>

definition monitor_of :: "StateReducer \<Rightarrow> monitor" where
  "monitor_of r = \<lparr>mon_generation = sr_generation r, mon_online = sr_connected r,
     mon_boot = sr_active_boot_id r, mon_sequence = sr_last_sequence r\<rparr>"

definition reducer_drops :: "StateReducer \<Rightarrow> u64 list" where
  "reducer_drops r = (let d = sr_diagnostics r in
     [rd_duplicate_drops d, rd_out_of_order_drops d, rd_old_generation_drops d,
      rd_boot_mismatch_drops d, rd_invalid_transition_drops d])"

lemma count_gap_drops [simp]:
  "rd_duplicate_drops (count_gap a b d) = rd_duplicate_drops d"
  "rd_out_of_order_drops (count_gap a b d) = rd_out_of_order_drops d"
  "rd_old_generation_drops (count_gap a b d) = rd_old_generation_drops d"
  "rd_boot_mismatch_drops (count_gap a b d) = rd_boot_mismatch_drops d"
  "rd_invalid_transition_drops (count_gap a b d) = rd_invalid_transition_drops d"
  "rd_accepted_samples (count_gap a b d) = rd_accepted_samples d"
  by (simp_all add: count_gap_def)

lemma monitor_step_accepted:
  assumes "monitor_wf (monitor_of r)" "monitor_step (monitor_of r) e = Some m"
  shows "monitor_of (apply_position_source r e) = m"
    and "reducer_drops (apply_position_source r e) = reducer_drops r"
  using assms
  by (cases e; auto simp: monitor_of_def monitor_wf_def monitor_open_def monitor_sample_ok_def
      position_handler_defs reducer_drops_def Let_def split: if_splits option.splits)+

definition diagnostics_only :: "StateReducer \<Rightarrow> StateReducer \<Rightarrow> bool" where
  "diagnostics_only r r' \<longleftrightarrow> (\<exists>d. r' = r\<lparr>sr_diagnostics := d\<rparr>)"

lemma diagnostics_only_intros [simp]:
  "diagnostics_only r r" "diagnostics_only r (r\<lparr>sr_diagnostics := d\<rparr>)"
  by (auto simp: diagnostics_only_def intro: exI [of _ "sr_diagnostics r"])

lemma apply_sample_rejected:
  assumes "\<not> monitor_sample_ok (monitor_of r) p"
  shows "diagnostics_only r (apply_sample r p)"
proof (cases "ps_generation p = sr_generation r \<and> sr_connected r
    \<and> ps_generation p \<noteq> 0 \<and> ps_sequence p \<noteq> 0")
  case False
  have "ps_generation p < sr_generation r \<or> sr_generation r < ps_generation p
      \<or> ps_generation p = sr_generation r" by auto
  with False show ?thesis by (auto simp: apply_sample_def Let_def)
next
  case True
  with assms show ?thesis
    by (auto simp: monitor_of_def monitor_open_def monitor_sample_ok_def apply_sample_def Let_def
        split: option.splits)
qed

lemma monitor_step_rejected:
  assumes "reducer_position_ok r" "monitor_step (monitor_of r) e = None"
  shows "diagnostics_only r (apply_position_source r e)"
proof (cases e)
  case (Sample p)
  with assms show ?thesis by (auto intro: apply_sample_rejected split: if_splits)
qed (use assms in \<open>auto simp: monitor_of_def monitor_open_def apply_connected_def
    apply_unavailable_def apply_disconnected_def apply_clock_invalid_def reducer_position_ok_def
    split: if_splits\<close>)

lemma monitor_run_accepted:
  assumes "monitor_wf (monitor_of r)" "monitor_run (monitor_of r) es = Some m"
  shows "monitor_of (foldl apply_position_source r es) = m
     \<and> reducer_drops (foldl apply_position_source r es) = reducer_drops r"
  using assms
proof (induction es arbitrary: r)
  case (Cons e es)
  then obtain m1 where m1: "monitor_step (monitor_of r) e = Some m1" "monitor_run m1 es = Some m"
    by (cases "monitor_step (monitor_of r) e") auto
  note step = monitor_step_accepted [OF Cons.prems(1) m1(1)]
  have "monitor_wf m1" using m1(1) Cons.prems(1) by (rule monitor_step_wf)
  with Cons.IH [of "apply_position_source r e"] m1 step show ?case by simp
qed simp

lemma reducer_position_ok_monitor_wf: "reducer_position_ok r \<Longrightarrow> monitor_wf (monitor_of r)"
  by (simp add: reducer_position_ok_def monitor_wf_def monitor_of_def)

lemma monitor_of_default: "monitor_of StateReducer_default = monitor_init"
  by (simp add: monitor_of_def monitor_init_def StateReducer_default_def)

lemma reducer_drops_default: "reducer_drops StateReducer_default = [0, 0, 0, 0, 0]"
  by (simp add: reducer_drops_def StateReducer_default_def ReducerDiagnostics_default_def)

definition sample_outcome_counters :: "ReducerDiagnostics \<Rightarrow> u64 list" where
  "sample_outcome_counters d =
     [rd_accepted_samples d, rd_duplicate_drops d, rd_out_of_order_drops d,
      rd_old_generation_drops d, rd_boot_mismatch_drops d, rd_invalid_transition_drops d]"

definition counts_one :: "u64 list \<Rightarrow> u64 list \<Rightarrow> bool" where
  "counts_one xs ys = list_ex (\<lambda>i. ys = xs[i := increment (xs ! i)]) [0..<length xs]"

lemma counts_one_six:
  "counts_one [a, b, c, d, e, f] ys \<longleftrightarrow>
     ys = [increment a, b, c, d, e, f] \<or> ys = [a, increment b, c, d, e, f]
     \<or> ys = [a, b, increment c, d, e, f] \<or> ys = [a, b, c, increment d, e, f]
     \<or> ys = [a, b, c, d, increment e, f] \<or> ys = [a, b, c, d, e, increment f]"
  by (simp add: counts_one_def upt_rec)

section \<open>Properties\<close>

text \<open>
  C3: publishing never panics. In every state the reducer can reach from its default by any
  sequence of events, whatever the time of the call, \<open>core_state\<close> builds a state that
  \<open>CoreState::from_parts\<close> accepts, so the \<open>expect\<close> at its end cannot fail.
\<close>

theorem core_state_never_panics:
  assumes "reducer_reachable r"
  shows "core_state r now = Some (core_state_parts r now)"
  using assms by (intro reducer_inv_core_state reducer_reachable_inv)

definition connected_once :: StateReducer where
  "connected_once = snd (StateReducer_apply StateReducer_default (PositionSourceEv (Connected 1)))"

lemma connected_once_reachable: "reducer_reachable connected_once"
  unfolding connected_once_def
  by (rule reducer_event [OF reducer_start, of "PositionSourceEv (Connected 1)"]) auto

theorem core_state_never_panics_witness:
  "core_state connected_once 5000 = Some (core_state_parts connected_once 5000)"
  by (rule core_state_never_panics [OF connected_once_reachable])

text \<open>
  C4: the reducer implements the event contract. On an event the monitor accepts, the
  reducer's connection view becomes the monitor's next state and none of the drop counters
  moves; any other event changes nothing but the diagnostics.
\<close>

theorem reducer_implements_monitor:
  assumes "reducer_inv r"
  shows "case monitor_step (monitor_of r) e of
           Some m \<Rightarrow> monitor_of (apply_position_source r e) = m
             \<and> reducer_drops (apply_position_source r e) = reducer_drops r
         | None \<Rightarrow> \<exists>d. apply_position_source r e = r\<lparr>sr_diagnostics := d\<rparr>"
proof -
  have ok: "reducer_position_ok r" using assms by (simp add: reducer_inv_def)
  show ?thesis
    using monitor_step_rejected [OF ok]
      monitor_step_accepted [OF reducer_position_ok_monitor_wf [OF ok]]
    by (auto simp: diagnostics_only_def split: option.split)
qed

theorem reducer_implements_monitor_witness:
  "monitor_of (apply_position_source StateReducer_default (Connected 7)) =
     \<lparr>mon_generation = 7, mon_online = True, mon_boot = None, mon_sequence = None\<rparr>
   \<and> (\<exists>d. apply_position_source StateReducer_default (Disconnected 7) =
          StateReducer_default\<lparr>sr_diagnostics := d\<rparr>)"
  using reducer_implements_monitor [OF reducer_inv_default, of "Connected 7"]
    reducer_implements_monitor [OF reducer_inv_default, of "Disconnected 7"]
  by (simp add: monitor_of_default monitor_init_def monitor_open_def)

text \<open>
  Every sample is accounted for exactly once: of the counters for accepted, duplicate,
  out-of-order, old-generation, boot-mismatch and invalid-transition samples, one is
  incremented (saturating at the 64-bit maximum) and the others keep their value.
\<close>

lemma apply_sample_counted_once:
  "counts_one (sample_outcome_counters (sr_diagnostics r))
     (sample_outcome_counters (sr_diagnostics (apply_sample r p)))"
  by (auto simp: apply_sample_def accept_sample_def Let_def sample_outcome_counters_def
      counts_one_six split: option.splits)

text \<open>
  Trust is lost with the connection. After any connection event other than a sample that
  the contract accepts (a new connection, a loss of position, a disconnection, an invalid
  clock), the reducer has no trusted position, is not fresh at any time and offers no heading.
\<close>

lemma trust_lost_without_sample:
  assumes "monitor_step (monitor_of r) e = Some m" and "\<forall>p. e \<noteq> Sample p"
    and "reducer_inv r"
  shows "\<not> has_trusted_position (apply_position_source r e)
    \<and> StateReducer_freshness (apply_position_source r e) now \<in> {Stale, Offline}
    \<and> \<not> sr_heading_available (apply_position_source r e)"
  using assms
  by (cases e) (auto simp: monitor_of_def monitor_open_def apply_connected_def
      apply_unavailable_def apply_disconnected_def apply_clock_invalid_def has_trusted_position_def
      StateReducer_freshness_def reducer_inv_def reducer_position_ok_def split: if_splits)

lemma trust_lost_without_sample_example:
  "\<not> has_trusted_position (apply_position_source StateReducer_default (Connected 3))
   \<and> StateReducer_freshness (apply_position_source StateReducer_default (Connected 3)) 0 \<in> {Stale, Offline}
   \<and> \<not> sr_heading_available (apply_position_source StateReducer_default (Connected 3))"
proof -
  have "monitor_step (monitor_of StateReducer_default) (Connected 3) =
      Some \<lparr>mon_generation = 3, mon_online = True, mon_boot = None, mon_sequence = None\<rparr>"
    by (simp add: monitor_of_default monitor_init_def)
  from trust_lost_without_sample [OF this _ reducer_inv_default] show ?thesis by simp
qed

text \<open>
  An event that fails leaves the whole state unchanged, and the settings version only
  grows: an event that changes the settings raises it strictly.
\<close>

lemma reducer_events_atomic_and_versioned:
  assumes "StateReducer_apply r e = (res, r')"
  shows "(isl res \<longrightarrow> r' = r) \<and> sr_settings_version r \<le> sr_settings_version r'
    \<and> (sr_settings r' \<noteq> sr_settings r \<longrightarrow> sr_settings_version r < sr_settings_version r')"
proof (cases res)
  case (Inl err)
  with assms StateReducer_apply_error_state show ?thesis by blast
next
  case (Inr u)
  have "sr_settings_version r \<le> sr_settings_version r'
    \<and> (sr_settings r' \<noteq> sr_settings r \<longrightarrow> sr_settings_version r < sr_settings_version r')"
  proof (cases e)
    case (SettingsApplied v s)
    with assms Inr have "apply_settings r v s = (Inr u, r')" by simp
    then show ?thesis by (rule apply_settings_Inr) auto
  next
    case (SetDisplayMode mode)
    with assms Inr have "set_display_mode r mode = (Inr u, r')" by simp
    from set_display_mode_Inr [OF this] show ?thesis
      by (auto dest: checked_add_one_greater)
  qed (use assms Inr in \<open>auto simp: apply_position_source_frame split: sum.splits\<close>)
  with Inr show ?thesis by simp
qed

lemma reducer_events_atomic_and_versioned_example:
  "snd (StateReducer_apply StateReducer_default (SettingsApplied 0 OverlaySettings_default))
     = StateReducer_default"
proof -
  obtain res r' where
    ap: "StateReducer_apply StateReducer_default (SettingsApplied 0 OverlaySettings_default) = (res, r')"
    by (cases "StateReducer_apply StateReducer_default (SettingsApplied 0 OverlaySettings_default)")
  then have "isl res" by (auto simp: apply_settings_def)
  with reducer_events_atomic_and_versioned [OF ap] ap show ?thesis by simp
qed

end
