(* ===== verification/State_Replay.thy ===== *)
theory State_Replay
  imports State_Position_Source
begin

text \<open>
  The file-loaded replay source, \<open>crates/pal-state/src/replay.rs\<close>. Reading the fixture and
  parsing its JSON are outside the repository's own code: their outcome, and the conversion
  of a JSON number to a float (\<open>Number::as_f64\<close>), are arguments. The panic of the \<open>expect\<close>
  on the sample constructor is a failure value, shown unreachable.
\<close>

section \<open>Configuration and rows\<close>

record ReplayConfig =
  rc_world_alias :: string
  rc_subject_id :: bytes
  rc_starting_generation :: u64
  rc_base_boot_id :: bytes
  rc_loop_playback :: bool
  rc_starting_monotonic_ms :: u64

record ReplayRow =
  rr_at_ms :: u64
  rr_x :: fl
  rr_y :: fl
  rr_z :: fl
  rr_heading_degrees :: "fl option"

record 'n RawReplayRow =
  raw_at_ms :: u64
  raw_x :: 'n
  raw_y :: 'n
  raw_z :: 'n
  raw_heading_degrees :: "'n option"

definition replay_validate_config :: "ReplayConfig \<Rightarrow> ReplayError + unit" where
  "replay_validate_config config =
     (if rc_world_alias config = [] then Inl (InvalidIdentity ''world_alias'')
      else if rc_subject_id config = [] then Inl (InvalidIdentity ''subject_id'')
      else if rc_base_boot_id config = [] then Inl (InvalidIdentity ''base_boot_id'')
      else if rc_starting_generation config = 0 then Inl InvalidStartingGeneration
      else Inr ())"

definition finite_f64 :: "('n \<Rightarrow> fl option) \<Rightarrow> 'n \<Rightarrow> nat \<Rightarrow> string \<Rightarrow> ReplayError + fl" where
  "finite_f64 as_f64 value index field =
     (case as_f64 value of
        None \<Rightarrow> Inl (NonFiniteField index field)
      | Some v \<Rightarrow> if fl_is_finite v then Inr v else Inl (NonFiniteField index field))"

text \<open>The \<open>as f32\<close> cast: rounding to the narrower format, overflow to an infinity.\<close>

fun narrow_f32 :: "fl \<Rightarrow> fl" where
  "narrow_f32 (FFin q) = fl_round f32_fmt q"
| "narrow_f32 v = v"

definition finite_f32 :: "('n \<Rightarrow> fl option) \<Rightarrow> 'n \<Rightarrow> nat \<Rightarrow> string \<Rightarrow> ReplayError + fl" where
  "finite_f32 as_f64 value index field =
     and_then (finite_f64 as_f64 value index field) (\<lambda>v.
       let narrowed = narrow_f32 v in
       if fl_is_finite narrowed then Inr narrowed else Inl (NonFiniteField index field))"

text \<open>One round of the loop of \<open>validate_rows\<close> after the timestamp test.\<close>

definition validate_row :: "('n \<Rightarrow> fl option) \<Rightarrow> nat \<Rightarrow> 'n RawReplayRow \<Rightarrow> ReplayError + ReplayRow" where
  "validate_row as_f64 index raw =
     and_then (finite_f64 as_f64 (raw_x raw) index ''x'') (\<lambda>x.
     and_then (finite_f64 as_f64 (raw_y raw) index ''y'') (\<lambda>y.
     and_then (finite_f64 as_f64 (raw_z raw) index ''z'') (\<lambda>z.
     and_then (case raw_heading_degrees raw of
                 None \<Rightarrow> Inr None
               | Some h \<Rightarrow>
                   and_then (finite_f32 as_f64 h index ''heading_degrees'') (\<lambda>v. Inr (Some v)))
       (\<lambda>heading.
          Inr \<lparr>rr_at_ms = raw_at_ms raw, rr_x = x, rr_y = y, rr_z = z,
               rr_heading_degrees = heading\<rparr>))))"

fun validate_rows_from ::
  "('n \<Rightarrow> fl option) \<Rightarrow> nat \<Rightarrow> u64 \<Rightarrow> 'n RawReplayRow list \<Rightarrow> ReplayError + ReplayRow list" where
  "validate_rows_from as_f64 index previous [] = Inr []"
| "validate_rows_from as_f64 index previous (raw # raws) =
     (if 0 < index \<and> raw_at_ms raw \<le> previous then Inl (NonIncreasingTimestamp index)
      else and_then (validate_row as_f64 index raw) (\<lambda>row.
           and_then (validate_rows_from as_f64 (Suc index) (raw_at_ms raw) raws) (\<lambda>rows.
             Inr (row # rows))))"

definition validate_rows :: "('n \<Rightarrow> fl option) \<Rightarrow> 'n RawReplayRow list \<Rightarrow> ReplayError + ReplayRow list" where
  "validate_rows as_f64 raws =
     (case raws of
        [] \<Rightarrow> Inl EmptyFixture
      | raw # _ \<Rightarrow>
          if raw_at_ms raw \<noteq> 0 then Inl FirstTimestampNotZero
          else validate_rows_from as_f64 0 0 raws)"

definition derived_boot_id :: "bytes \<Rightarrow> u64 \<Rightarrow> bytes" where
  "derived_boot_id base generation = base @ [0] @ u64_to_be_bytes generation"

section \<open>The source\<close>

datatype ReplayPhase = PhConnected | PhSamples | PhDisconnected | PhNextConnection | PhFinished

record ReplayPositionSource =
  rp_rows :: "ReplayRow list"
  rp_world_alias :: string
  rp_subject_id :: bytes
  rp_base_boot_id :: bytes
  rp_boot_id :: bytes
  rp_generation :: u64
  rp_loop_playback :: bool
  rp_cycle_duration_ms :: u64
  rp_cycle_start_ms :: u64
  rp_row_index :: nat
  rp_phase :: ReplayPhase
  rp_last_valid_poll_ms :: "u64 option"
  rp_regression_reported :: bool

text \<open>\<open>parsed\<close> is what reading and parsing the file returns: the raw rows, or an I/O or JSON error.\<close>

definition replay_from_path ::
  "('n \<Rightarrow> fl option) \<Rightarrow> ReplayError + 'n RawReplayRow list \<Rightarrow> ReplayConfig
     \<Rightarrow> ReplayError + ReplayPositionSource" where
  "replay_from_path as_f64 parsed config =
     and_then (replay_validate_config config) (\<lambda>_.
     and_then parsed (\<lambda>raw_rows.
     and_then (validate_rows as_f64 raw_rows) (\<lambda>rows.
       let cycle_duration_ms = rr_at_ms (last rows) in
       if rc_loop_playback config \<and> cycle_duration_ms = 0 then Inl LoopRequiresPositiveDuration
       else Inr \<lparr>rp_rows = rows, rp_world_alias = rc_world_alias config,
                 rp_subject_id = rc_subject_id config, rp_base_boot_id = rc_base_boot_id config,
                 rp_boot_id = rc_base_boot_id config, rp_generation = rc_starting_generation config,
                 rp_loop_playback = rc_loop_playback config,
                 rp_cycle_duration_ms = cycle_duration_ms,
                 rp_cycle_start_ms = rc_starting_monotonic_ms config, rp_row_index = 0,
                 rp_phase = PhConnected, rp_last_valid_poll_ms = None,
                 rp_regression_reported = False\<rparr>)))"

datatype replay_failure = ReplayErr PositionSourceError | ReplayPanic

type_synonym replay_result = "(replay_failure + PositionSourceEvent option) \<times> ReplayPositionSource"

text \<open>The sequence number of a row: a checked conversion and a checked increment.\<close>

definition replay_sequence :: "nat \<Rightarrow> u64 option" where
  "replay_sequence index =
     (if index < 2 ^ 64 then checked_add (of_nat index) 1 else None)"

definition replay_due_ms :: "ReplayPositionSource \<Rightarrow> ReplayRow \<Rightarrow> u64" where
  "replay_due_ms s row = sat_add (rp_cycle_start_ms s) (rr_at_ms row)"

definition replay_new_sample ::
  "ReplayPositionSource \<Rightarrow> ReplayRow \<Rightarrow> u64 \<Rightarrow> u64 \<Rightarrow> PositionValidationError + PositionSample" where
  "replay_new_sample s row sequence now =
     PositionSample_new (rp_world_alias s) (rp_subject_id s) (rp_boot_id s) (rp_generation s)
       sequence (rr_x row) (rr_y row) (rr_z row) (rr_heading_degrees row)
       (received_with_age (sat_sub now (replay_due_ms s row)) now)"

definition start_next_connection ::
  "ReplayPositionSource \<Rightarrow> (replay_failure + unit) \<times> ReplayPositionSource" where
  "start_next_connection s =
     (case checked_add (rp_generation s) 1 of
        None \<Rightarrow> (Inl (ReplayErr (ReplayFailed GenerationOverflow)), s)
      | Some generation \<Rightarrow>
          (Inr (), s\<lparr>rp_generation := generation,
             rp_cycle_start_ms := sat_add (rp_cycle_start_ms s) (rp_cycle_duration_ms s),
             rp_row_index := 0,
             rp_boot_id := derived_boot_id (rp_base_boot_id s) generation,
             rp_phase := PhSamples\<rparr>))"

function (sequential) poll_valid_time :: "ReplayPositionSource \<Rightarrow> u64 \<Rightarrow> replay_result"
  and poll_sample :: "ReplayPositionSource \<Rightarrow> u64 \<Rightarrow> replay_result" where
  "poll_valid_time s now =
     (case rp_phase s of
        PhConnected \<Rightarrow> (Inr (Some (Connected (rp_generation s))), s\<lparr>rp_phase := PhSamples\<rparr>)
      | PhSamples \<Rightarrow> poll_sample s now
      | PhDisconnected \<Rightarrow>
          (Inr (Some (Disconnected (rp_generation s))),
           s\<lparr>rp_phase := (if rp_loop_playback s then PhNextConnection else PhFinished)\<rparr>)
      | PhNextConnection \<Rightarrow>
          (case start_next_connection s of
             (Inl e, s') \<Rightarrow> (Inl e, s')
           | (Inr _, s') \<Rightarrow> (Inr (Some (Connected (rp_generation s'))), s'))
      | PhFinished \<Rightarrow> (Inr None, s))"
| "poll_sample s now =
     (if rp_row_index s < length (rp_rows s) then
        let row = rp_rows s ! rp_row_index s in
        if now < replay_due_ms s row then (Inr None, s)
        else case replay_sequence (rp_row_index s) of
            None \<Rightarrow> (Inl (ReplayErr (ReplayFailed SequenceOverflow)), s)
          | Some sequence \<Rightarrow>
              (case replay_new_sample s row sequence now of
                 Inl _ \<Rightarrow> (Inl ReplayPanic, s)
               | Inr sample \<Rightarrow>
                   (let s' = s\<lparr>rp_row_index := Suc (rp_row_index s)\<rparr> in
                    (Inr (Some (Sample sample)),
                     if rp_row_index s' = length (rp_rows s')
                     then s'\<lparr>rp_phase := PhDisconnected\<rparr> else s')))
      else poll_valid_time (s\<lparr>rp_phase := PhDisconnected\<rparr>) now)"
  by pat_completeness auto
termination
  by (relation "measure (case_sum (\<lambda>(s, _). if rp_phase s = PhSamples then 2 else 0) (\<lambda>_. 1 :: nat))")
    auto

declare poll_valid_time.simps [simp del] poll_sample.simps [simp del]

definition replay_poll :: "ReplayPositionSource \<Rightarrow> u64 \<Rightarrow> replay_result" where
  "replay_poll s now =
     (if (case rp_last_valid_poll_ms s of Some l \<Rightarrow> now < l | None \<Rightarrow> False) then
        (if rp_regression_reported s then (Inr None, s)
         else (Inr (Some (ClockInvalid (rp_generation s) MonotonicRegression)),
               s\<lparr>rp_regression_reported := True\<rparr>))
      else poll_valid_time
             (s\<lparr>rp_last_valid_poll_ms := Some now, rp_regression_reported := False\<rparr>) now)"

section \<open>The invariant, related to the monitor\<close>

definition replay_row_ok :: "ReplayRow \<Rightarrow> bool" where
  "replay_row_ok row \<longleftrightarrow> fl_is_finite (rr_x row) \<and> fl_is_finite (rr_y row) \<and> fl_is_finite (rr_z row)
     \<and> (case rr_heading_degrees row of None \<Rightarrow> True | Some h \<Rightarrow> fl_is_finite h)"

definition replay_wf :: "ReplayPositionSource \<Rightarrow> bool" where
  "replay_wf s \<longleftrightarrow> rp_world_alias s \<noteq> [] \<and> rp_subject_id s \<noteq> [] \<and> rp_base_boot_id s \<noteq> []
     \<and> rp_boot_id s \<noteq> [] \<and> rp_generation s \<noteq> 0 \<and> list_all replay_row_ok (rp_rows s)"

fun replay_phase_relates :: "ReplayPositionSource \<Rightarrow> monitor \<Rightarrow> ReplayPhase \<Rightarrow> bool" where
  "replay_phase_relates s m PhConnected \<longleftrightarrow> mon_generation m < rp_generation s \<and> rp_row_index s = 0"
| "replay_phase_relates s m PhSamples \<longleftrightarrow>
     monitor_open m (rp_generation s)
     \<and> (if rp_row_index s = 0 then mon_boot m = None \<and> mon_sequence m = None
        else mon_boot m = Some (rp_boot_id s)
           \<and> (\<exists>n. mon_sequence m = Some n \<and> unat n = rp_row_index s))"
| "replay_phase_relates s m PhDisconnected \<longleftrightarrow> monitor_open m (rp_generation s)"
| "replay_phase_relates s m PhNextConnection \<longleftrightarrow> mon_generation m = rp_generation s"
| "replay_phase_relates s m PhFinished \<longleftrightarrow> True"

definition replay_relates :: "ReplayPositionSource \<Rightarrow> monitor \<Rightarrow> bool" where
  "replay_relates s m \<longleftrightarrow> replay_wf s \<and> replay_phase_relates s m (rp_phase s)"

text \<open>
  The polls the contract covers: the clock has not run backwards since the last valid poll,
  or it has while the connection is open (the source reports it), or it was reported before.
\<close>

definition replay_time_ok :: "ReplayPositionSource \<Rightarrow> u64 \<Rightarrow> bool" where
  "replay_time_ok s now \<longleftrightarrow>
     (case rp_last_valid_poll_ms s of None \<Rightarrow> True | Some l \<Rightarrow> l \<le> now)
     \<or> rp_phase s = PhSamples \<or> rp_phase s = PhDisconnected \<or> rp_regression_reported s"

lemma replay_sequence_Some: "replay_sequence i = Some n \<Longrightarrow> unat n = Suc i"
  by (auto simp: replay_sequence_def checked_add_Some_iff unat_of_nat take_bit_nat_eq_self
      split: if_splits)

lemma replay_new_sample_total:
  assumes "replay_wf s" and "row \<in> set (rp_rows s)"
  obtains p where "replay_new_sample s row n now = Inr p"
    "ps_generation p = rp_generation s" "ps_sequence p = n" "ps_agent_boot_id p = rp_boot_id s"
    "ps_clock p = received_with_age (sat_sub now (replay_due_ms s row)) now"
    "(ps_x p, ps_y p, ps_z p) = (rr_x row, rr_y row, rr_z row)"
proof -
  have row: "replay_row_ok row" using assms by (auto simp: replay_wf_def list_all_iff)
  then have "\<exists>p. replay_new_sample s row n now = Inr p"
    using assms(1)
    by (auto simp: replay_new_sample_def PositionSample_new_def replay_wf_def replay_row_ok_def
        split: option.splits)
  with row assms(1) that show ?thesis
    by (auto simp: replay_new_sample_def PositionSample_new_def split: if_splits)
qed

lemma replay_wf_update [simp]:
  "replay_wf (s\<lparr>rp_phase := ph\<rparr>) = replay_wf s"
  "replay_wf (s\<lparr>rp_row_index := i\<rparr>) = replay_wf s"
  "replay_wf (s\<lparr>rp_last_valid_poll_ms := l\<rparr>) = replay_wf s"
  "replay_wf (s\<lparr>rp_regression_reported := b\<rparr>) = replay_wf s"
  by (simp_all add: replay_wf_def)

lemma poll_disconnected [simp]:
  "rp_phase s = PhDisconnected \<Longrightarrow> poll_valid_time s now =
     (Inr (Some (Disconnected (rp_generation s))),
      s\<lparr>rp_phase := (if rp_loop_playback s then PhNextConnection else PhFinished)\<rparr>)"
  by (simp add: poll_valid_time.simps)

text \<open>What one poll owes the monitor, for each of its three outcomes.\<close>

fun poll_outcome_ok :: "monitor \<Rightarrow> replay_result \<Rightarrow> bool" where
  "poll_outcome_ok m (Inl err, s') \<longleftrightarrow> err \<noteq> ReplayPanic \<and> replay_relates s' m"
| "poll_outcome_ok m (Inr None, s') \<longleftrightarrow> replay_relates s' m"
| "poll_outcome_ok m (Inr (Some e), s') \<longleftrightarrow> (\<exists>m'. monitor_step m e = Some m' \<and> replay_relates s' m')"

lemma poll_disconnected_ok:
  assumes "rp_phase s = PhDisconnected" and "replay_relates s m"
  shows "poll_outcome_ok m (poll_valid_time s now)"
  using assms by (auto simp: replay_relates_def monitor_open_def)

lemma poll_sample_ok:
  assumes phase: "rp_phase s = PhSamples" and rel: "replay_relates s m"
  shows "poll_outcome_ok m (poll_sample s now)"
proof (cases "rp_row_index s < length (rp_rows s)")
  case False
  have "replay_relates (s\<lparr>rp_phase := PhDisconnected\<rparr>) m"
    using rel phase by (simp add: replay_relates_def)
  with False show ?thesis by (simp add: poll_sample.simps monitor_open_def replay_relates_def)
next
  case True
  let ?row = "rp_rows s ! rp_row_index s"
  have wf: "replay_wf s" and open_s: "monitor_open m (rp_generation s)"
    using rel phase by (auto simp: replay_relates_def)
  show ?thesis
  proof (cases "now < replay_due_ms s ?row \<or> replay_sequence (rp_row_index s) = None")
    case True
    with \<open>rp_row_index s < _\<close> rel show ?thesis by (auto simp: poll_sample.simps Let_def)
  next
    case due: False
    then obtain n where n: "replay_sequence (rp_row_index s) = Some n" by auto
    obtain p where p: "replay_new_sample s ?row n now = Inr p" "ps_generation p = rp_generation s"
      "ps_sequence p = n" "ps_agent_boot_id p = rp_boot_id s"
      using replay_new_sample_total [OF wf nth_mem [OF True]] by blast
    have un: "unat n = Suc (rp_row_index s)" by (rule replay_sequence_Some [OF n])
    then have "n \<noteq> 0" by auto
    then have "monitor_sample_ok m p"
      using wf rel phase open_s p un
      by (auto simp: monitor_sample_ok_def replay_relates_def replay_wf_def word_less_nat_alt
          split: if_splits)
    then show ?thesis
      using True due n p un wf open_s
      by (auto simp: poll_sample.simps Let_def replay_relates_def monitor_open_def replay_wf_def
          phase)
  qed
qed

lemma start_next_connection_ok:
  assumes "rp_phase s = PhNextConnection" and "replay_relates s m"
  shows "poll_outcome_ok m (poll_valid_time s now)"
proof (cases "checked_add (rp_generation s) 1")
  case None
  with assms show ?thesis by (simp add: poll_valid_time.simps start_next_connection_def)
next
  case (Some g)
  then have "rp_generation s < g" by (rule checked_add_one_greater)
  moreover from this have "g \<noteq> 0" by auto
  ultimately show ?thesis
    using assms Some
    by (simp add: poll_valid_time.simps start_next_connection_def replay_relates_def replay_wf_def
        monitor_open_def derived_boot_id_def)
qed

lemma poll_valid_time_ok:
  assumes rel: "replay_relates s m"
  shows "poll_outcome_ok m (poll_valid_time s now)"
proof (cases "rp_phase s")
  case PhConnected
  with rel show ?thesis
    by (simp add: poll_valid_time.simps replay_relates_def monitor_open_def)
next
  case PhSamples
  with poll_sample_ok [OF _ rel] show ?thesis by (simp add: poll_valid_time.simps)
next
  case PhFinished
  with rel show ?thesis by (simp add: poll_valid_time.simps)
qed (use poll_disconnected_ok start_next_connection_ok rel in blast)+

lemma replay_relates_clock [simp]:
  "replay_relates (s\<lparr>rp_last_valid_poll_ms := l, rp_regression_reported := b\<rparr>) m = replay_relates s m"
  "replay_relates (s\<lparr>rp_regression_reported := b\<rparr>) m = replay_relates s m"
  "replay_relates (s\<lparr>rp_last_valid_poll_ms := l\<rparr>) m = replay_relates s m"
  by (cases "rp_phase s"; simp add: replay_relates_def)+

lemma replay_poll_ok:
  assumes rel: "replay_relates s m" and time: "replay_time_ok s now"
  shows "poll_outcome_ok m (replay_poll s now)"
proof (cases "case rp_last_valid_poll_ms s of Some l \<Rightarrow> now < l | None \<Rightarrow> False")
  case False
  have "replay_relates (s\<lparr>rp_last_valid_poll_ms := Some now, rp_regression_reported := False\<rparr>) m"
    using rel by simp
  from poll_valid_time_ok [OF this, of now] False show ?thesis by (simp add: replay_poll_def)
next
  case True
  show ?thesis
  proof (cases "rp_regression_reported s")
    case True
    with \<open>case rp_last_valid_poll_ms s of Some l \<Rightarrow> now < l | None \<Rightarrow> False\<close> rel show ?thesis
      by (simp add: replay_poll_def)
  next
    case False
    with time True have "rp_phase s = PhSamples \<or> rp_phase s = PhDisconnected"
      by (auto simp: replay_time_ok_def split: option.splits)
    then have "monitor_open m (rp_generation s)" using rel by (auto simp: replay_relates_def)
    with True False rel show ?thesis by (simp add: replay_poll_def)
  qed
qed

interpretation replay: position_source replay_poll replay_relates replay_time_ok "\<lambda>_. False"
proof unfold_locales
  fix s m now e s'
  assume "replay_relates s m" "replay_time_ok s now" "replay_poll s now = (Inr (Some e), s')"
  then show "\<exists>m'. monitor_step m e = Some m' \<and> replay_relates s' m'"
    using replay_poll_ok [of s m now] by simp
next
  fix s m now s'
  assume "replay_relates s m" "replay_time_ok s now" "replay_poll s now = (Inr None, s')"
  then show "replay_relates s' m" using replay_poll_ok [of s m now] by simp
next
  fix s m now err s'
  assume "replay_relates s m" "replay_time_ok s now" "replay_poll s now = (Inl err, s')"
  then show "replay_relates s' m" using replay_poll_ok [of s m now] by simp
qed simp

section \<open>Loading\<close>

lemma validate_row_Inr:
  "validate_row as_f64 i raw = Inr row \<Longrightarrow> replay_row_ok row \<and> rr_at_ms row = raw_at_ms raw"
  by (auto simp: validate_row_def finite_f64_def finite_f32_def and_then_eq_Inr replay_row_ok_def
      Let_def split: option.splits if_splits)

lemma validate_rows_from_Inr:
  assumes "validate_rows_from as_f64 i prev raws = Inr rows"
  shows "list_all replay_row_ok rows \<and> map rr_at_ms rows = map raw_at_ms raws
    \<and> sorted_wrt (<) (map rr_at_ms rows)
    \<and> (0 < i \<longrightarrow> (\<forall>row \<in> set rows. prev < rr_at_ms row))"
  using assms
proof (induction raws arbitrary: i prev rows)
  case (Cons raw raws)
  then obtain row rs where step: "validate_row as_f64 i raw = Inr row"
    "validate_rows_from as_f64 (Suc i) (raw_at_ms raw) raws = Inr rs" "rows = row # rs"
    "0 < i \<Longrightarrow> prev < raw_at_ms raw"
    by (auto simp: and_then_eq_Inr not_le split: if_splits)
  note ih = Cons.IH [OF step(2)]
  then have "\<forall>t \<in> set (map rr_at_ms rs). raw_at_ms raw < t" unfolding set_map by blast
  moreover have "map rr_at_ms rs = map raw_at_ms raws" using ih by blast
  ultimately have "\<forall>t \<in> set (map raw_at_ms raws). raw_at_ms raw < t" by (simp only:)
  then show ?case
    using ih validate_row_Inr [OF step(1)] step(3,4) by (auto dest: less_trans)
qed simp

lemma validate_rows_Inr:
  assumes "validate_rows as_f64 raws = Inr rows"
  shows "list_all replay_row_ok rows" "map rr_at_ms rows = map raw_at_ms raws" "rows \<noteq> []"
    "sorted_wrt (<) (map rr_at_ms rows)" "rr_at_ms (hd rows) = 0"
proof -
  from assms obtain raw rest where raws: "raws = raw # rest" "raw_at_ms raw = 0"
    "validate_rows_from as_f64 0 0 raws = Inr rows"
    by (auto simp: validate_rows_def split: list.splits if_splits)
  note facts = validate_rows_from_Inr [OF raws(3)]
  then show "list_all replay_row_ok rows" "map rr_at_ms rows = map raw_at_ms raws"
    "sorted_wrt (<) (map rr_at_ms rows)" by blast+
  then show "rows \<noteq> []" using raws(1) by auto
  then show "rr_at_ms (hd rows) = 0" using facts raws(1,2) by (cases rows) auto
qed

lemma replay_from_path_Inr:
  assumes "replay_from_path as_f64 parsed config = Inr s"
  shows "replay_relates s monitor_init" "rp_phase s = PhConnected" "rp_rows s \<noteq> []"
    "list_all replay_row_ok (rp_rows s)" "sorted_wrt (<) (map rr_at_ms (rp_rows s))"
    "rp_last_valid_poll_ms s = None" "rp_row_index s = 0"
    "rp_generation s = rc_starting_generation config"
    "rp_cycle_start_ms s = rc_starting_monotonic_ms config"
    "rp_loop_playback s = rc_loop_playback config" "rp_boot_id s = rc_base_boot_id config"
    "\<not> rp_regression_reported s"
proof -
  from assms obtain raws where raws: "replay_validate_config config = Inr ()"
    "validate_rows as_f64 raws = Inr (rp_rows s)"
    by (auto simp: replay_from_path_def and_then_eq_Inr Let_def split: if_splits)
  note rows = validate_rows_Inr [OF raws(2)]
  have cfg: "rc_world_alias config \<noteq> [] \<and> rc_subject_id config \<noteq> [] \<and> rc_base_boot_id config \<noteq> []
      \<and> rc_starting_generation config \<noteq> 0"
    using raws(1) by (auto simp: replay_validate_config_def split: if_splits)
  show "rp_phase s = PhConnected" "rp_last_valid_poll_ms s = None" "rp_row_index s = 0"
    "rp_generation s = rc_starting_generation config" "rp_loop_playback s = rc_loop_playback config"
    "rp_cycle_start_ms s = rc_starting_monotonic_ms config" "rp_boot_id s = rc_base_boot_id config"
    "\<not> rp_regression_reported s"
    using assms by (auto simp: replay_from_path_def and_then_eq_Inr Let_def split: if_splits)
  then show "replay_relates s monitor_init"
    using assms cfg rows(1)
    by (auto simp: replay_from_path_def and_then_eq_Inr Let_def replay_relates_def replay_wf_def
        monitor_init_def word_neq_0_conv split: if_splits)
  show "rp_rows s \<noteq> []" "list_all replay_row_ok (rp_rows s)"
    "sorted_wrt (<) (map rr_at_ms (rp_rows s))"
    using rows by blast+
qed

text \<open>The raw rows the loader accepts: every number finite, the heading also as an \<open>f32\<close>.\<close>

definition raw_row_ok :: "('n \<Rightarrow> fl option) \<Rightarrow> 'n RawReplayRow \<Rightarrow> bool" where
  "raw_row_ok as_f64 raw \<longleftrightarrow>
     list_all (\<lambda>n. case as_f64 n of Some v \<Rightarrow> fl_is_finite v | None \<Rightarrow> False)
       [raw_x raw, raw_y raw, raw_z raw]
     \<and> (case raw_heading_degrees raw of None \<Rightarrow> True
        | Some h \<Rightarrow> (case as_f64 h of Some v \<Rightarrow> fl_is_finite v \<and> fl_is_finite (narrow_f32 v)
                   | None \<Rightarrow> False))"

lemma validate_row_ok_iff: "(\<exists>row. validate_row as_f64 i raw = Inr row) \<longleftrightarrow> raw_row_ok as_f64 raw"
  by (auto simp: validate_row_def finite_f64_def finite_f32_def raw_row_ok_def and_then_eq_Inr
      Let_def split: option.splits)

lemma validate_rows_from_ok_iff:
  "(\<exists>rows. validate_rows_from as_f64 i prev raws = Inr rows) \<longleftrightarrow>
     list_all (raw_row_ok as_f64) raws
     \<and> sorted_wrt (<) ((if 0 < i then [prev] else []) @ map raw_at_ms raws)"
proof (induction raws arbitrary: i prev)
  case (Cons raw raws)
  have "(\<exists>rows. validate_rows_from as_f64 i prev (raw # raws) = Inr rows) \<longleftrightarrow>
      (0 < i \<longrightarrow> prev < raw_at_ms raw) \<and> (\<exists>row. validate_row as_f64 i raw = Inr row)
      \<and> (\<exists>rows. validate_rows_from as_f64 (Suc i) (raw_at_ms raw) raws = Inr rows)"
    by (auto simp: and_then_eq_Inr not_le)
  also have "\<dots> \<longleftrightarrow> list_all (raw_row_ok as_f64) (raw # raws)
      \<and> sorted_wrt (<) ((if 0 < i then [prev] else []) @ map raw_at_ms (raw # raws))"
    unfolding validate_row_ok_iff Cons.IH by (auto dest: less_trans)
  finally show ?case .
qed simp

section \<open>Polling over time\<close>

lemma poll_sample_clock:
  "rp_last_valid_poll_ms (snd (poll_sample s now)) = rp_last_valid_poll_ms s"
  by (auto simp: poll_sample.simps Let_def split: option.splits sum.splits)

lemma poll_valid_time_clock:
  "rp_last_valid_poll_ms (snd (poll_valid_time s now)) = rp_last_valid_poll_ms s"
  by (cases "rp_phase s")
    (simp_all add: poll_valid_time.simps poll_sample_clock start_next_connection_def
      split: option.splits)

definition replay_polled_by :: "ReplayPositionSource \<Rightarrow> u64 \<Rightarrow> bool" where
  "replay_polled_by s now \<longleftrightarrow> (case rp_last_valid_poll_ms s of None \<Rightarrow> True | Some l \<Rightarrow> l \<le> now)"

lemma replay_poll_valid:
  "replay_polled_by s now \<Longrightarrow> replay_poll s now =
     poll_valid_time (s\<lparr>rp_last_valid_poll_ms := Some now, rp_regression_reported := False\<rparr>) now"
  by (auto simp: replay_poll_def replay_polled_by_def not_less split: option.splits)

lemma replay_polled_by_next:
  "replay_polled_by s now \<Longrightarrow> now \<le> later \<Longrightarrow> replay_polled_by (snd (replay_poll s now)) later"
  by (simp add: replay_poll_valid replay_polled_by_def [of "snd _"] poll_valid_time_clock)

lemma monotone_polls_admitted:
  "sorted ts \<Longrightarrow> \<forall>t \<in> set ts. replay_polled_by s t \<Longrightarrow>
     admitted replay_poll replay_time_ok (\<lambda>_. False) s (map PollAt ts)"
proof (induction ts arbitrary: s)
  case (Cons now ts)
  then have "replay_time_ok s now" by (auto simp: replay_time_ok_def replay_polled_by_def)
  moreover have "\<forall>t \<in> set ts. replay_polled_by (snd (replay_poll s now)) t"
    using Cons.prems by (auto intro: replay_polled_by_next)
  ultimately show ?case using Cons by simp
qed simp

lemma monotone_polls_end:
  "sorted ts \<Longrightarrow> \<forall>t \<in> set ts. replay_polled_by s t \<Longrightarrow> replay_polled_by s (if ts = [] then now else last ts) \<Longrightarrow>
     replay_polled_by (snd (drive replay_poll s (map PollAt ts))) (if ts = [] then now else last ts)"
proof (induction ts arbitrary: s now)
  case (Cons t ts)
  let ?s = "snd (replay_poll s t)"
  have later: "\<forall>u \<in> set ts. replay_polled_by ?s u" "replay_polled_by ?s t"
    using Cons.prems(1,2) by (auto intro: replay_polled_by_next)
  have "replay_polled_by ?s (if ts = [] then t else last ts)" using later by simp
  from Cons.IH [OF _ later(1) this] Cons.prems(1) show ?case
    by (cases "replay_poll s t") (auto simp: split_beta Let_def split: sum.split option.split)
qed simp

text \<open>The event of row \<open>i\<close> when it is polled at \<open>now\<close>.\<close>

definition replay_event :: "ReplayPositionSource \<Rightarrow> u64 \<Rightarrow> nat \<Rightarrow> PositionSourceEvent" where
  "replay_event s now i =
     Sample (projr (replay_new_sample s (rp_rows s ! i) (of_nat (Suc i)) now))"

lemma replay_new_sample_cong:
  "replay_new_sample (s\<lparr>rp_last_valid_poll_ms := l, rp_regression_reported := b\<rparr>) = replay_new_sample s"
  "replay_new_sample (s\<lparr>rp_row_index := i\<rparr>) = replay_new_sample s"
  "replay_new_sample (s\<lparr>rp_phase := ph\<rparr>) = replay_new_sample s"
  by (intro ext; simp add: replay_new_sample_def replay_due_ms_def)+

lemma replay_sequence_of_nat:
  assumes "Suc i < 2 ^ 64"
  shows "replay_sequence i = Some (of_nat (Suc i))"
proof -
  have "unat (of_nat n :: u64) = n" if "n < 2 ^ 64" for n
    using that by (simp add: unat_of_nat take_bit_nat_eq_self)
  from this [of i] this [of "Suc i"] assms show ?thesis
    by (simp add: replay_sequence_def checked_add_Some_iff del: of_nat_Suc)
qed

lemma poll_sample_due:
  assumes wf: "replay_wf s" and i: "rp_row_index s < length (rp_rows s)"
    and len: "length (rp_rows s) < 2 ^ 64"
    and due: "replay_due_ms s (rp_rows s ! rp_row_index s) \<le> now"
  shows "poll_sample s now =
     (Inr (Some (replay_event s now (rp_row_index s))),
      let s' = s\<lparr>rp_row_index := Suc (rp_row_index s)\<rparr> in
      if Suc (rp_row_index s) = length (rp_rows s) then s'\<lparr>rp_phase := PhDisconnected\<rparr> else s')"
proof -
  have seq: "replay_sequence (rp_row_index s) = Some (of_nat (Suc (rp_row_index s)))"
    using i len by (intro replay_sequence_of_nat) linarith
  obtain p where "replay_new_sample s (rp_rows s ! rp_row_index s)
      (of_nat (Suc (rp_row_index s))) now = Inr p"
    using replay_new_sample_total [OF wf nth_mem [OF i]] by blast
  with i due seq show ?thesis
    by (simp add: poll_sample.simps replay_event_def Let_def not_less [symmetric])
qed

lemma replay_event_cong:
  "rp_rows s' = rp_rows s \<Longrightarrow> replay_new_sample s' = replay_new_sample s \<Longrightarrow>
     replay_event s' now i = replay_event s now i"
  by (simp add: replay_event_def)

lemma remaining_rows_played:
  assumes "replay_wf s" "rp_phase s = PhSamples" "rp_row_index s < length (rp_rows s)"
    "length (rp_rows s) < 2 ^ 64" "\<not> rp_loop_playback s"
    "sorted ts" "\<forall>t \<in> set ts. replay_polled_by s t"
    "\<forall>t \<in> set ts. \<forall>row \<in> set (rp_rows s). replay_due_ms s row \<le> t"
    "length ts = Suc (length (rp_rows s) - rp_row_index s)"
  shows "fst (drive replay_poll s (map PollAt ts)) =
     map (\<lambda>j. replay_event s (ts ! (j - rp_row_index s)) j)
         [rp_row_index s ..< length (rp_rows s)] @ [Disconnected (rp_generation s)]"
  using assms
proof (induction ts arbitrary: s)
  case (Cons now ts)
  let ?i = "rp_row_index s" and ?n = "length (rp_rows s)"
  let ?s0 = "s\<lparr>rp_last_valid_poll_ms := Some now, rp_regression_reported := False\<rparr>"
  let ?s1 = "?s0\<lparr>rp_row_index := Suc ?i\<rparr>"
  have polled: "replay_polled_by s now" using Cons.prems(7) by simp
  have same: "replay_event ?s0 t j = replay_event s t j" "replay_event ?s1 t j = replay_event s t j" for t j
    by (rule replay_event_cong; simp add: replay_new_sample_cong)+
  have "replay_due_ms ?s0 (rp_rows ?s0 ! rp_row_index ?s0) \<le> now"
    using Cons.prems(3,8) by (auto simp: replay_due_ms_def)
  from poll_sample_due [OF _ _ _ this] Cons.prems(1,3,4)
  have sample: "poll_sample ?s0 now = (Inr (Some (replay_event s now ?i)),
      if Suc ?i = ?n then ?s1\<lparr>rp_phase := PhDisconnected\<rparr> else ?s1)"
    by (simp add: Let_def same)
  have poll: "replay_poll s now = (Inr (Some (replay_event s now ?i)),
      if Suc ?i = ?n then ?s1\<lparr>rp_phase := PhDisconnected\<rparr> else ?s1)"
    unfolding replay_poll_valid [OF polled] poll_valid_time.simps [of ?s0] sample
    by (simp add: Cons.prems(2))
  have upt: "[?i ..< ?n] = ?i # [Suc ?i ..< ?n]" using Cons.prems(3) by (rule upt_conv_Cons)
  show ?case
  proof (cases "Suc ?i = ?n")
    case True
    then have "length ts = Suc 0" using Cons.prems(9) by simp
    then obtain t where t: "ts = [t]" by (auto simp: length_Suc_conv)
    have "replay_polled_by (?s1\<lparr>rp_phase := PhDisconnected\<rparr>) t"
      using Cons.prems(6) t by (simp add: replay_polled_by_def)
    then show ?thesis using True t poll by (simp add: replay_poll_valid upt)
  next
    case False
    have idx: "rp_row_index ?s1 < length (rp_rows ?s1)" using Cons.prems(3) False by simp
    have "fst (drive replay_poll ?s1 (map PollAt ts)) =
        map (\<lambda>j. replay_event ?s1 (ts ! (j - rp_row_index ?s1)) j)
         [rp_row_index ?s1 ..< length (rp_rows ?s1)] @ [Disconnected (rp_generation ?s1)]"
      using Cons.prems idx
      by (intro Cons.IH) (auto simp: replay_polled_by_def replay_due_ms_def)
    moreover have "map (\<lambda>j. replay_event s (ts ! (j - Suc ?i)) j) [Suc ?i ..< ?n] =
        map (\<lambda>j. replay_event s ((now # ts) ! (j - ?i)) j) [Suc ?i ..< ?n]"
      by (auto simp: nth_Cons' Suc_diff_Suc intro!: arg_cong [of _ _ "nth ts"])
    ultimately show ?thesis using False poll by (simp add: upt same split_beta Let_def)
  qed
qed simp

lemma regression_stays_reported:
  assumes "rp_last_valid_poll_ms s = Some l" "rp_regression_reported s" "\<forall>t \<in> set ts. t < l"
  shows "drive replay_poll s (map PollAt ts) = ([], s)"
  using assms by (induction ts) (auto simp: replay_poll_def)

section \<open>Properties\<close>

definition as_f64_int :: "int \<Rightarrow> fl option" where
  "as_f64_int n = Some (FFin (of_int n))"

definition sample_config :: ReplayConfig where
  "sample_config = \<lparr>rc_world_alias = ''world-a'', rc_subject_id = [7], rc_starting_generation = 4,
     rc_base_boot_id = [1, 2], rc_loop_playback = False, rc_starting_monotonic_ms = 1000\<rparr>"

definition sample_rows :: "int RawReplayRow list" where
  "sample_rows =
     [\<lparr>raw_at_ms = 0, raw_x = 10, raw_y = 20, raw_z = 0, raw_heading_degrees = None\<rparr>,
      \<lparr>raw_at_ms = 50, raw_x = 11, raw_y = 20, raw_z = 0, raw_heading_degrees = None\<rparr>]"

definition sample_replay :: ReplayPositionSource where
  "sample_replay = projr (replay_from_path as_f64_int (Inr sample_rows) sample_config)"

lemma sample_replay_loaded:
  "replay_from_path as_f64_int (Inr sample_rows) sample_config = Inr sample_replay"
  by (simp add: sample_replay_def replay_from_path_def sample_config_def sample_rows_def
      replay_validate_config_def validate_rows_def validate_row_def finite_f64_def as_f64_int_def)

lemma sample_replay_rows:
  "rp_rows sample_replay =
     [\<lparr>rr_at_ms = 0, rr_x = FFin 10, rr_y = FFin 20, rr_z = FFin 0, rr_heading_degrees = None\<rparr>,
      \<lparr>rr_at_ms = 50, rr_x = FFin 11, rr_y = FFin 20, rr_z = FFin 0, rr_heading_degrees = None\<rparr>]"
  by (simp add: sample_replay_def replay_from_path_def sample_config_def sample_rows_def
      replay_validate_config_def validate_rows_def validate_row_def finite_f64_def as_f64_int_def)

text \<open>
  A fixture is loaded exactly when the identity fields are non-empty, the generation is
  non-zero, the rows are non-empty, start at time zero with strictly increasing timestamps and
  finite numbers (the heading finite as an \<open>f32\<close>), and a looping replay lasts a positive time.
\<close>

lemma replay_from_path_accepts_iff:
  "(\<exists>s. replay_from_path as_f64 (Inr raws) config = Inr s) \<longleftrightarrow>
     rc_world_alias config \<noteq> [] \<and> rc_subject_id config \<noteq> [] \<and> rc_base_boot_id config \<noteq> []
     \<and> rc_starting_generation config \<noteq> 0
     \<and> raws \<noteq> [] \<and> raw_at_ms (hd raws) = 0 \<and> sorted_wrt (<) (map raw_at_ms raws)
     \<and> list_all (raw_row_ok as_f64) raws
     \<and> \<not> (rc_loop_playback config \<and> raw_at_ms (last raws) = 0)"
proof -
  have rows: "(\<exists>rows. validate_rows as_f64 raws = Inr rows) \<longleftrightarrow> raws \<noteq> [] \<and> raw_at_ms (hd raws) = 0
      \<and> sorted_wrt (<) (map raw_at_ms raws) \<and> list_all (raw_row_ok as_f64) raws"
    using validate_rows_from_ok_iff [of as_f64 0 0 raws]
    by (auto simp: validate_rows_def split: list.splits)
  have last_row: "rr_at_ms (last rows) = raw_at_ms (last raws)"
    if "validate_rows as_f64 raws = Inr rows" for rows
    using validate_rows_Inr(2,3) [OF that] by (metis last_map list.map_disc_iff)
  have "(\<exists>s. replay_from_path as_f64 (Inr raws) config = Inr s) \<longleftrightarrow>
      replay_validate_config config = Inr () \<and> (\<exists>rows. validate_rows as_f64 raws = Inr rows
        \<and> \<not> (rc_loop_playback config \<and> rr_at_ms (last rows) = 0))"
    by (auto simp: replay_from_path_def and_then_eq_Inr Let_def)
  also have "\<dots> \<longleftrightarrow> replay_validate_config config = Inr ()
      \<and> (\<exists>rows. validate_rows as_f64 raws = Inr rows)
      \<and> \<not> (rc_loop_playback config \<and> raw_at_ms (last raws) = 0)"
    using last_row by auto
  also have "replay_validate_config config = Inr () \<longleftrightarrow>
      rc_world_alias config \<noteq> [] \<and> rc_subject_id config \<noteq> [] \<and> rc_base_boot_id config \<noteq> []
      \<and> rc_starting_generation config \<noteq> 0"
    by (simp add: replay_validate_config_def)
  finally show ?thesis unfolding rows by blast
qed



text \<open>
  A sample is never early and says how late it is: it carries the row at the current
  index, the row's due time (saturating) has passed, its age bound is the time since then,
  and the index moves to the next row.
\<close>

lemma replay_sample_timing:
  assumes "replay_wf s" and "replay_poll s now = (Inr (Some (Sample p)), s')"
  shows "rp_row_index s < length (rp_rows s)
    \<and> replay_due_ms s (rp_rows s ! rp_row_index s) \<le> now
    \<and> ps_clock p = received_with_age (now - replay_due_ms s (rp_rows s ! rp_row_index s)) now
    \<and> ps_x p = rr_x (rp_rows s ! rp_row_index s) \<and> ps_y p = rr_y (rp_rows s ! rp_row_index s)
    \<and> unat (ps_sequence p) = Suc (rp_row_index s) \<and> rp_row_index s' = Suc (rp_row_index s)"
proof -
  let ?s0 = "s\<lparr>rp_last_valid_poll_ms := Some now, rp_regression_reported := False\<rparr>"
  let ?row = "rp_rows s ! rp_row_index s"
  have valid: "poll_valid_time ?s0 now = (Inr (Some (Sample p)), s')"
    using assms(2) by (auto simp: replay_poll_def split: if_splits)
  then have sample: "poll_sample ?s0 now = (Inr (Some (Sample p)), s')"
    by (simp add: poll_valid_time.simps start_next_connection_def
        split: ReplayPhase.splits option.splits prod.splits sum.splits)
  have idx: "rp_row_index s < length (rp_rows s)"
    using sample by (auto simp: poll_sample.simps split: if_splits)
  obtain n where n: "replay_sequence (rp_row_index s) = Some n" "\<not> now < replay_due_ms s ?row"
    "replay_new_sample s ?row n now = Inr p" "rp_row_index s' = Suc (rp_row_index s)"
    using sample idx
    by (auto simp: poll_sample.simps Let_def replay_due_ms_def replay_new_sample_cong
        split: if_splits option.splits sum.splits)
  obtain q where "replay_new_sample s ?row n now = Inr q" "ps_sequence q = n"
    "ps_clock q = received_with_age (sat_sub now (replay_due_ms s ?row)) now"
    "(ps_x q, ps_y q, ps_z q) = (rr_x ?row, rr_y ?row, rr_z ?row)"
    using replay_new_sample_total [OF assms(1) nth_mem [OF idx]] by blast
  with n idx replay_sequence_Some [OF n(1)] show ?thesis by (auto simp: sat_sub_def)
qed

lemma replay_sample_timing_example:
  "\<exists>p s'. replay_poll (sample_replay\<lparr>rp_phase := PhSamples\<rparr>) 1010 = (Inr (Some (Sample p)), s')
    \<and> ps_clock p = received_with_age 10 1010 \<and> ps_x p = FFin 10"
proof -
  let ?s = "sample_replay\<lparr>rp_phase := PhSamples\<rparr>"
  have wf: "replay_wf ?s" using replay_from_path_Inr(1) [OF sample_replay_loaded]
    by (simp add: replay_relates_def)
  have start: "rp_cycle_start_ms sample_replay = 1000" "rp_row_index sample_replay = 0"
    "rp_last_valid_poll_ms sample_replay = None"
    using replay_from_path_Inr [OF sample_replay_loaded] by (simp_all add: sample_config_def)
  have "\<exists>p s'. replay_poll ?s 1010 = (Inr (Some (Sample p)), s')"
    using poll_sample_due [of "?s\<lparr>rp_last_valid_poll_ms := Some 1010, rp_regression_reported := False\<rparr>" 1010]
      wf start
    by (simp add: replay_poll_def poll_valid_time.simps replay_event_def sample_replay_rows
        replay_due_ms_def)
  then obtain p s' where p: "replay_poll ?s 1010 = (Inr (Some (Sample p)), s')" by blast
  from replay_sample_timing [OF wf p] p start show ?thesis
    by (auto simp: replay_due_ms_def sample_replay_rows)
qed

text \<open>
  A clock that runs backwards is reported once: however often the source is polled at
  times before its last valid poll, it delivers one invalid-clock event and keeps its place.
\<close>

lemma replay_regression_reported_once:
  assumes "rp_last_valid_poll_ms s = Some l" and "\<not> rp_regression_reported s"
    and "\<forall>t \<in> set (t0 # ts). t < l"
  shows "drive replay_poll s (map PollAt (t0 # ts)) =
     ([ClockInvalid (rp_generation s) MonotonicRegression], s\<lparr>rp_regression_reported := True\<rparr>)"
  using assms regression_stays_reported [of "s\<lparr>rp_regression_reported := True\<rparr>" l ts]
  by (simp add: replay_poll_def)

lemma replay_regression_reported_once_example:
  "fst (drive replay_poll (sample_replay\<lparr>rp_last_valid_poll_ms := Some 500\<rparr>)
      (map PollAt [400, 300, 450])) = [ClockInvalid 4 MonotonicRegression]"
proof -
  have "\<not> rp_regression_reported sample_replay" "rp_generation sample_replay = 4"
    using replay_from_path_Inr [OF sample_replay_loaded] by (simp_all add: sample_config_def)
  then show ?thesis
    using replay_regression_reported_once
      [of "sample_replay\<lparr>rp_last_valid_poll_ms := Some 500\<rparr>" 500 400 "[300, 450]"] by simp
qed

text \<open>
  Every connection of a looping replay has a boot identity of its own: the derived
  identities of two generations differ, and none is the base identity of the first cycle.
\<close>

lemma derived_boot_id_fresh:
  "(derived_boot_id base g = derived_boot_id base h \<longleftrightarrow> g = h) \<and> derived_boot_id base g \<noteq> base"
  by (simp add: derived_boot_id_def)

end
