(* ===== verification/Control_Queue.thy ===== *)
theory Control_Queue
  imports State_Position_Source
begin

text \<open>
  The fixed-size ring of connection events between the transport and the overlay,
  \<open>ControlQueue\<close> of \<open>crates/pal-state/src/server_agent.rs\<close>. The locale \<open>bounded_queue\<close> states the
  contract over the list of queued elements; the ring is shown to satisfy it, and its clients
  reason with lists only.
\<close>

section \<open>The interface\<close>

locale bounded_queue =
  fixes empty_queue :: "'q"
    and enqueue :: "'q \<Rightarrow> 'a \<Rightarrow> bool \<times> 'q"
    and dequeue :: "'q \<Rightarrow> 'a option \<times> 'q"
    and contents :: "'q \<Rightarrow> 'a list"
    and valid :: "'q \<Rightarrow> bool"
    and capacity :: nat
  assumes valid_empty: "valid empty_queue"
    and contents_empty: "contents empty_queue = []"
    and contents_bound: "valid q \<Longrightarrow> length (contents q) \<le> capacity"
    and enqueue_full: "valid q \<Longrightarrow> length (contents q) = capacity \<Longrightarrow> enqueue q x = (False, q)"
    and enqueue_room: "valid q \<Longrightarrow> length (contents q) < capacity \<Longrightarrow>
      fst (enqueue q x) \<and> valid (snd (enqueue q x)) \<and> contents (snd (enqueue q x)) = contents q @ [x]"
    and dequeue_empty: "valid q \<Longrightarrow> contents q = [] \<Longrightarrow> dequeue q = (None, q)"
    and dequeue_cons: "valid q \<Longrightarrow> contents q = x # xs \<Longrightarrow>
      fst (dequeue q) = Some x \<and> valid (snd (dequeue q)) \<and> contents (snd (dequeue q)) = xs"
begin

lemma enqueue_valid: "valid q \<Longrightarrow> valid (snd (enqueue q x))"
  using contents_bound [of q] enqueue_full [of q x] enqueue_room [of q x]
  by (cases "length (contents q) = capacity") auto

lemma dequeue_valid: "valid q \<Longrightarrow> valid (snd (dequeue q))"
  using dequeue_empty [of q] dequeue_cons [of q] by (cases "contents q") auto

lemma enqueue_all:
  "valid q \<Longrightarrow> length (contents q) + length xs \<le> capacity \<Longrightarrow>
   valid (foldl (\<lambda>q x. snd (enqueue q x)) q xs)
   \<and> contents (foldl (\<lambda>q x. snd (enqueue q x)) q xs) = contents q @ xs"
proof (induction xs arbitrary: q)
  case (Cons x xs)
  have "valid (snd (enqueue q x))" "contents (snd (enqueue q x)) = contents q @ [x]"
    using enqueue_room [of q x] Cons.prems by auto
  with Cons.IH [of "snd (enqueue q x)"] Cons.prems show ?case by auto
qed simp

end

section \<open>The ring\<close>

datatype ControlEvent =
    CtlConnected u64
  | CtlDisconnected u64
  | CtlClockInvalid u64 ClockInvalidReason

fun into_position_source_event :: "ControlEvent \<Rightarrow> PositionSourceEvent" where
  "into_position_source_event (CtlConnected generation) = Connected generation"
| "into_position_source_event (CtlDisconnected generation) = Disconnected generation"
| "into_position_source_event (CtlClockInvalid generation reason) = ClockInvalid generation reason"

abbreviation CONTROL_QUEUE_CAPACITY :: nat where
  "CONTROL_QUEUE_CAPACITY \<equiv> 15"

abbreviation CONTROL_EVENTS_PER_SESSION :: nat where
  "CONTROL_EVENTS_PER_SESSION \<equiv> 3"

record ControlQueue =
  cq_entries :: "ControlEvent option list"
  cq_head :: nat
  cq_len :: nat

definition ControlQueue_new :: ControlQueue where
  "ControlQueue_new =
     \<lparr>cq_entries = replicate CONTROL_QUEUE_CAPACITY None, cq_head = 0, cq_len = 0\<rparr>"

definition ControlQueue_remaining :: "ControlQueue \<Rightarrow> nat" where
  "ControlQueue_remaining q = CONTROL_QUEUE_CAPACITY - cq_len q"

definition ControlQueue_push :: "ControlQueue \<Rightarrow> ControlEvent \<Rightarrow> bool \<times> ControlQueue" where
  "ControlQueue_push q event =
     (if cq_len q = CONTROL_QUEUE_CAPACITY then (False, q)
      else let index = (cq_head q + cq_len q) mod CONTROL_QUEUE_CAPACITY in
        (True, q\<lparr>cq_entries := (cq_entries q)[index := Some event], cq_len := cq_len q + 1\<rparr>))"

definition ControlQueue_pop :: "ControlQueue \<Rightarrow> ControlEvent option \<times> ControlQueue" where
  "ControlQueue_pop q =
     (if cq_len q = 0 then (None, q)
      else (cq_entries q ! cq_head q,
            q\<lparr>cq_entries := (cq_entries q)[cq_head q := None],
              cq_head := (cq_head q + 1) mod CONTROL_QUEUE_CAPACITY,
              cq_len := cq_len q - 1\<rparr>))"

definition ControlQueue_has_clock_invalid :: "ControlQueue \<Rightarrow> u64 \<Rightarrow> bool" where
  "ControlQueue_has_clock_invalid q generation =
     list_ex (\<lambda>offset. case cq_entries q ! ((cq_head q + offset) mod CONTROL_QUEUE_CAPACITY) of
         Some (CtlClockInvalid queued _) \<Rightarrow> queued = generation
       | _ \<Rightarrow> False)
       [0..<cq_len q]"

section \<open>The ring as a list\<close>

definition ring_slots :: "ControlQueue \<Rightarrow> ControlEvent option list" where
  "ring_slots q = map (\<lambda>i. cq_entries q ! ((cq_head q + i) mod CONTROL_QUEUE_CAPACITY)) [0..<cq_len q]"

definition ControlQueue_list :: "ControlQueue \<Rightarrow> ControlEvent list" where
  "ControlQueue_list q = map the (ring_slots q)"

definition ControlQueue_ok :: "ControlQueue \<Rightarrow> bool" where
  "ControlQueue_ok q \<longleftrightarrow> length (cq_entries q) = CONTROL_QUEUE_CAPACITY
     \<and> cq_head q < CONTROL_QUEUE_CAPACITY \<and> cq_len q \<le> CONTROL_QUEUE_CAPACITY
     \<and> None \<notin> set (ring_slots q)"

lemma length_ControlQueue_list [simp]: "length (ControlQueue_list q) = cq_len q"
  by (simp add: ControlQueue_list_def ring_slots_def)

lemma ring_index_distinct:
  assumes "i < j" "j < c" 
  shows "(h + i) mod c \<noteq> (h + j) mod (c :: nat)"
proof
  assume eq: "(h + i) mod c = (h + j) mod c"
  then have "(h + j - (h + i)) mod c = 0"
    by (metis mod_eq_dvd_iff_nat dvd_imp_mod_0 assms(1) add_le_cancel_left less_imp_le_nat)
  then have "(j - i) mod c = 0" by simp
  moreover have "0 < j - i" "j - i < c" using assms by auto
  ultimately show False by simp
qed

lemma ring_slots_push:
  assumes "ControlQueue_ok q" "cq_len q < CONTROL_QUEUE_CAPACITY"
  shows "ring_slots (snd (ControlQueue_push q e)) = ring_slots q @ [Some e]"
proof -
  let ?n = "cq_len q" and ?h = "cq_head q"
  have upd: "(cq_entries q)[(?h + ?n) mod 15 := Some e] ! ((?h + i) mod 15) =
      (if i = ?n then Some e else cq_entries q ! ((?h + i) mod 15))" if "i \<le> ?n" for i
    using that assms ring_index_distinct [of i ?n 15 ?h]
    by (auto simp: ControlQueue_ok_def nth_list_update)
  then show ?thesis
    using assms by (auto simp: ring_slots_def ControlQueue_push_def Let_def)
qed

lemma ring_slots_pop:
  assumes "ControlQueue_ok q" "0 < cq_len q"
  shows "ring_slots q = cq_entries q ! cq_head q # ring_slots (snd (ControlQueue_pop q))"
proof -
  let ?n = "cq_len q" and ?h = "cq_head q"
  have head: "?h mod 15 = ?h" using assms by (simp add: ControlQueue_ok_def)
  have shift: "((?h + 1) mod 15 + i) mod 15 = (?h + Suc i) mod 15" for i
    by (simp add: mod_simps)
  have other: "(?h + Suc i) mod 15 \<noteq> ?h" if "i < ?n - 1" for i
  proof -
    have "Suc i < 15" using that assms unfolding ControlQueue_ok_def by linarith
    with ring_index_distinct [of 0 "Suc i" 15 ?h] head show ?thesis by simp
  qed
  have "ring_slots q = cq_entries q ! ?h #
      map (\<lambda>i. cq_entries q ! ((?h + Suc i) mod 15)) [0..<?n - 1]"
    using assms(2) by (cases ?n) (simp_all add: ring_slots_def head upt_conv_Cons map_Suc_upt [symmetric]
        del: upt_Suc)
  also have "map (\<lambda>i. cq_entries q ! ((?h + Suc i) mod 15)) [0..<?n - 1] =
      ring_slots (snd (ControlQueue_pop q))"
    using assms(2) other
    by (auto simp: ring_slots_def ControlQueue_pop_def shift [simplified]
        nth_list_update_neq [OF not_sym])
  finally show ?thesis .
qed

lemma ControlQueue_push_ok: "ControlQueue_ok q \<Longrightarrow> ControlQueue_ok (snd (ControlQueue_push q e))"
proof (cases "cq_len q = CONTROL_QUEUE_CAPACITY")
  case False
  moreover assume ok: "ControlQueue_ok q"
  ultimately have "cq_len q < CONTROL_QUEUE_CAPACITY" by (simp add: ControlQueue_ok_def)
  with ok ring_slots_push [OF ok this, of e] show ?thesis
    by (simp add: ControlQueue_ok_def) (simp add: ControlQueue_push_def Let_def)
qed (simp add: ControlQueue_push_def)

lemma ControlQueue_pop_ok: "ControlQueue_ok q \<Longrightarrow> ControlQueue_ok (snd (ControlQueue_pop q))"
proof (cases "cq_len q = 0")
  case False
  moreover assume ok: "ControlQueue_ok q"
  ultimately have pos: "0 < cq_len q" by simp
  have "None \<notin> set (ring_slots (snd (ControlQueue_pop q)))"
    using ok ring_slots_pop [OF ok pos] by (simp add: ControlQueue_ok_def)
  moreover have "cq_len q - 1 \<le> 15" using ok unfolding ControlQueue_ok_def by linarith
  ultimately show ?thesis
    using ok pos by (simp add: ControlQueue_ok_def) (simp add: ControlQueue_pop_def)
qed (simp add: ControlQueue_pop_def)

interpretation control_ring: bounded_queue ControlQueue_new ControlQueue_push ControlQueue_pop
  ControlQueue_list ControlQueue_ok CONTROL_QUEUE_CAPACITY
proof unfold_locales
  show "ControlQueue_ok ControlQueue_new"
    by (simp add: ControlQueue_ok_def ControlQueue_new_def ring_slots_def)
  show "ControlQueue_list ControlQueue_new = []"
    by (simp add: ControlQueue_list_def ControlQueue_new_def ring_slots_def)
next
  fix q :: ControlQueue and x xs
  assume ok: "ControlQueue_ok q"
  show "length (ControlQueue_list q) \<le> CONTROL_QUEUE_CAPACITY"
    using ok by (simp add: ControlQueue_ok_def)
  show "length (ControlQueue_list q) = CONTROL_QUEUE_CAPACITY \<Longrightarrow> ControlQueue_push q x = (False, q)"
    by (simp add: ControlQueue_push_def)
  show "length (ControlQueue_list q) < CONTROL_QUEUE_CAPACITY \<Longrightarrow>
      fst (ControlQueue_push q x) \<and> ControlQueue_ok (snd (ControlQueue_push q x)) \<and>
      ControlQueue_list (snd (ControlQueue_push q x)) = ControlQueue_list q @ [x]"
    using ring_slots_push [OF ok, of x] ControlQueue_push_ok [OF ok, of x]
      length_ControlQueue_list [of q]
    by (simp add: ControlQueue_list_def [of "snd _"] ControlQueue_list_def [of q, symmetric])
      (simp add: ControlQueue_push_def Let_def ControlQueue_list_def)
  show "ControlQueue_list q = [] \<Longrightarrow> ControlQueue_pop q = (None, q)"
    using length_ControlQueue_list [of q] by (simp add: ControlQueue_pop_def)
  assume cons: "ControlQueue_list q = x # xs"
  then have pos: "0 < cq_len q" using length_ControlQueue_list [of q] by auto
  note slots = ring_slots_pop [OF ok pos]
  then have "cq_entries q ! cq_head q \<noteq> None"
    using ok unfolding ControlQueue_ok_def by (metis list.set_intros(1))
  with cons slots show "fst (ControlQueue_pop q) = Some x \<and> ControlQueue_ok (snd (ControlQueue_pop q)) \<and>
      ControlQueue_list (snd (ControlQueue_pop q)) = xs"
    using ok pos by (auto simp: ControlQueue_list_def ControlQueue_pop_ok)
      (simp add: ControlQueue_pop_def)
qed

fun is_clock_invalid :: "u64 \<Rightarrow> ControlEvent \<Rightarrow> bool" where
  "is_clock_invalid g (CtlClockInvalid queued _) = (queued = g)"
| "is_clock_invalid g _ = False"

lemma has_clock_invalid_list:
  assumes "ControlQueue_ok q"
  shows "ControlQueue_has_clock_invalid q g \<longleftrightarrow> list_ex (is_clock_invalid g) (ControlQueue_list q)"
proof -
  have slot: "(case s of Some (CtlClockInvalid queued _) \<Rightarrow> queued = g | _ \<Rightarrow> False) \<longleftrightarrow>
      is_clock_invalid g (the s)" if "s \<noteq> None" for s
    using that by (cases s; cases "the s") auto
  have "\<forall>s \<in> set (ring_slots q). s \<noteq> None"
    using assms unfolding ControlQueue_ok_def by metis
  then show ?thesis
    by (auto simp: ControlQueue_has_clock_invalid_def ControlQueue_list_def ring_slots_def
        list_ex_iff slot)
qed

section \<open>Properties\<close>

text \<open>
  C36: the control ring is a first-in first-out queue of at most 15 events. In a well-formed
  ring a push either reports failure and changes nothing, exactly when 15 events are queued, or
  appends the event; a pop returns the oldest event and removes it, or nothing when none is
  queued. Both keep the ring well formed, whatever the position of its head.
\<close>

theorem control_ring_is_fifo:
  assumes "ControlQueue_ok q"
  shows "(let (queued, q') = ControlQueue_push q e in
            queued = (length (ControlQueue_list q) \<noteq> 15)
            \<and> ControlQueue_list q' = ControlQueue_list q @ (if queued then [e] else [])
            \<and> ControlQueue_ok q')
       \<and> (let (event, q') = ControlQueue_pop q in
            ControlQueue_list q = (case event of None \<Rightarrow> [] | Some x \<Rightarrow> [x]) @ ControlQueue_list q'
            \<and> (event = None \<longleftrightarrow> ControlQueue_list q = []) \<and> ControlQueue_ok q')"
proof (intro conjI)
  show "let (queued, q') = ControlQueue_push q e in
      queued = (length (ControlQueue_list q) \<noteq> 15)
      \<and> ControlQueue_list q' = ControlQueue_list q @ (if queued then [e] else []) \<and> ControlQueue_ok q'"
  proof (cases "length (ControlQueue_list q) = 15")
    case True
    with assms control_ring.enqueue_full [of q e] show ?thesis by simp
  next
    case False
    then have "length (ControlQueue_list q) < 15"
      using control_ring.contents_bound [OF assms] by linarith
    from control_ring.enqueue_room [OF assms this, of e] False show ?thesis
      by (auto simp: case_prod_beta)
  qed
  show "let (event, q') = ControlQueue_pop q in
      ControlQueue_list q = (case event of None \<Rightarrow> [] | Some x \<Rightarrow> [x]) @ ControlQueue_list q'
      \<and> (event = None \<longleftrightarrow> ControlQueue_list q = []) \<and> ControlQueue_ok q'"
  proof (cases "ControlQueue_list q")
    case Nil
    with assms control_ring.dequeue_empty [of q] show ?thesis by simp
  next
    case (Cons x xs)
    from control_ring.dequeue_cons [OF assms Cons] Cons show ?thesis
      by (auto simp: case_prod_beta)
  qed
qed

theorem control_ring_is_fifo_witness:
  "ControlQueue_list (snd (ControlQueue_push ControlQueue_new (CtlConnected 1))) = [CtlConnected 1]"
  using control_ring_is_fifo [OF control_ring.valid_empty, of "CtlConnected 1"]
  by (simp add: case_prod_beta control_ring.contents_empty Let_def)

end
