(* ===== verification/Boot_Filter.thy ===== *)
theory Boot_Filter
  imports Pal_Prelude
begin

unbundle bit_operations_syntax

text \<open>
  The Bloom filter of retired boot identities. Both \<open>crates/pal-state/src/server_agent.rs\<close> and
  \<open>crates/pal-telemetry/src/cursor.rs\<close> carry a copy of it; each copy is modelled from its own
  source. The locale \<open>retired_set\<close> is what the two clients rely on: a retired identity is
  reported forever (no false negative); a fresh identity may be reported as well (a false
  positive), which the clients treat as a drop.
\<close>

section \<open>The interface\<close>

locale retired_set =
  fixes none :: "'f"
    and retire :: "'f \<Rightarrow> bytes \<Rightarrow> 'f"
    and retired :: "'f \<Rightarrow> bytes \<Rightarrow> bool"
    and valid :: "'f \<Rightarrow> bool"
  assumes valid_none: "valid none"
    and valid_retire: "valid f \<Longrightarrow> valid (retire f b)"
    and retired_retire: "valid f \<Longrightarrow> retired (retire f b) b"
    and retired_mono: "valid f \<Longrightarrow> retired f c \<Longrightarrow> retired (retire f b) c"
begin

lemma valid_foldl: "valid f \<Longrightarrow> valid (foldl retire f bs)"
  by (induction bs arbitrary: f) (auto simp: valid_retire)

lemma retired_foldl_mono: "valid f \<Longrightarrow> retired f c \<Longrightarrow> retired (foldl retire f bs) c"
  by (induction bs arbitrary: f) (auto simp: valid_retire retired_mono)

lemma no_false_negative: "valid f \<Longrightarrow> b \<in> set bs \<Longrightarrow> retired (foldl retire f bs) b"
proof (induction bs arbitrary: f)
  case (Cons x bs)
  show ?case
  proof (cases "b = x")
    case True
    with Cons.prems show ?thesis by (simp add: retired_foldl_mono valid_retire retired_retire)
  next
    case False
    with Cons show ?thesis by (simp add: valid_retire)
  qed
qed simp

end

section \<open>Bits of a table of 64-bit words\<close>

lemma and_bit_nonzero: "(w :: u64) AND push_bit k 1 \<noteq> 0 \<longleftrightarrow> bit w k"
  by (simp add: push_bit_of_1 and_exp_eq_0_iff_not_bit)

definition table_bit :: "u64 list \<Rightarrow> nat \<Rightarrow> bool" where
  "table_bit bits i = (bits ! (i div 64) AND push_bit (i mod 64) 1 \<noteq> 0)"

definition table_set :: "u64 list \<Rightarrow> nat \<Rightarrow> u64 list" where
  "table_set bits i = bits[i div 64 := bits ! (i div 64) OR push_bit (i mod 64) 1]"

lemma length_table_set [simp]: "length (table_set bits i) = length bits"
  by (simp add: table_set_def)

lemma table_bit_set_same: "i div 64 < length bits \<Longrightarrow> table_bit (table_set bits i) i"
  by (simp add: table_bit_def table_set_def and_bit_nonzero bit_or_iff bit_push_bit_iff)

lemma table_bit_iff: "table_bit bits i \<longleftrightarrow> bit (bits ! (i div 64)) (i mod 64)"
  unfolding table_bit_def by (rule and_bit_nonzero)

lemma table_bit_set_mono: "table_bit bits j \<Longrightarrow> table_bit (table_set bits i) j"
  unfolding table_bit_iff table_set_def
  by (cases "i div 64 < length bits") (auto simp: bit_or_iff nth_list_update list_update_beyond)

lemma table_bit_foldl_mono: "table_bit bits j \<Longrightarrow> table_bit (foldl table_set bits is) j"
  by (induction "is" arbitrary: bits) (auto simp: table_bit_set_mono)

lemma length_table_foldl [simp]: "length (foldl table_set bits is) = length bits"
  by (induction "is" arbitrary: bits) auto

lemma table_bit_foldl_set:
  "j \<in> set is \<Longrightarrow> list_all (\<lambda>i. i div 64 < length bits) is \<Longrightarrow> table_bit (foldl table_set bits is) j"
  by (induction "is" arbitrary: bits) (auto simp: table_bit_foldl_mono table_bit_set_same)

section \<open>The copy of the state crate\<close>

definition fnv1a :: "bytes \<Rightarrow> u64 \<Rightarrow> u64" where
  "fnv1a bs seed = foldl (\<lambda>hash byte. (hash XOR ucast byte) * 0x00000100000001b3) seed bs"

definition boot_filter_bits :: "bytes \<Rightarrow> nat list" where
  "boot_filter_bits boot_id =
     (let bit_count = 32 * 64 :: u64;
          first = fnv1a boot_id 0xcbf29ce484222325;
          step = fnv1a boot_id 0x84222325cbf29ce4 OR 1
      in [unat (first mod bit_count), unat ((first + step) mod bit_count),
          unat ((first + step * 2) mod bit_count)])"

record RetiredBootFilter =
  rbf_bits :: "u64 list"

definition RetiredBootFilter_default :: RetiredBootFilter where
  "RetiredBootFilter_default = \<lparr>rbf_bits = replicate 32 0\<rparr>"

definition RetiredBootFilter_insert :: "RetiredBootFilter \<Rightarrow> bytes \<Rightarrow> RetiredBootFilter" where
  "RetiredBootFilter_insert f boot_id =
     f\<lparr>rbf_bits := foldl (\<lambda>bits i. bits[i div 64 := bits ! (i div 64) OR push_bit (i mod 64) 1])
                     (rbf_bits f) (boot_filter_bits boot_id)\<rparr>"

definition RetiredBootFilter_contains :: "RetiredBootFilter \<Rightarrow> bytes \<Rightarrow> bool" where
  "RetiredBootFilter_contains f boot_id =
     list_all (\<lambda>i. rbf_bits f ! (i div 64) AND push_bit (i mod 64) 1 \<noteq> 0)
       (boot_filter_bits boot_id)"

definition RetiredBootFilter_ok :: "RetiredBootFilter \<Rightarrow> bool" where
  "RetiredBootFilter_ok f = (length (rbf_bits f) = 32)"

lemma mod_2048_index: "unat ((w :: u64) mod 2048) div 64 < 32"
proof -
  have "unat (w mod 2048) < 2048" by (simp add: unat_mod)
  then show ?thesis by (simp add: less_mult_imp_div_less)
qed

lemma boot_filter_bits_in_table: "list_all (\<lambda>i. i div 64 < 32) (boot_filter_bits b)"
  by (simp add: boot_filter_bits_def Let_def mod_2048_index)

lemma insert_as_table:
  "rbf_bits (RetiredBootFilter_insert f b) = foldl table_set (rbf_bits f) (boot_filter_bits b)"
  by (simp add: RetiredBootFilter_insert_def table_set_def [abs_def])

lemma contains_as_table:
  "RetiredBootFilter_contains f b = list_all (table_bit (rbf_bits f)) (boot_filter_bits b)"
  by (simp add: RetiredBootFilter_contains_def table_bit_def [abs_def])

interpretation agent_filter: retired_set RetiredBootFilter_default RetiredBootFilter_insert
  RetiredBootFilter_contains RetiredBootFilter_ok
proof unfold_locales
  show "RetiredBootFilter_ok RetiredBootFilter_default"
    by (simp add: RetiredBootFilter_ok_def RetiredBootFilter_default_def)
next
  fix f b c
  assume ok: "RetiredBootFilter_ok f"
  show "RetiredBootFilter_ok (RetiredBootFilter_insert f b)"
    using ok by (simp add: RetiredBootFilter_ok_def insert_as_table)
  show "RetiredBootFilter_contains (RetiredBootFilter_insert f b) b"
    using ok boot_filter_bits_in_table [of b]
    by (simp add: contains_as_table insert_as_table list_all_iff table_bit_foldl_set
        RetiredBootFilter_ok_def)
  show "RetiredBootFilter_contains f c \<Longrightarrow> RetiredBootFilter_contains (RetiredBootFilter_insert f b) c"
    by (simp add: contains_as_table insert_as_table list_all_iff table_bit_foldl_mono)
qed

section \<open>The copy of the telemetry crate\<close>

definition latest_fnv1a :: "bytes \<Rightarrow> u64 \<Rightarrow> u64" where
  "latest_fnv1a bs seed = foldl (\<lambda>hash byte. (hash XOR ucast byte) * 0x00000100000001b3) seed bs"

definition latest_boot_filter_bits :: "bytes \<Rightarrow> nat list" where
  "latest_boot_filter_bits boot_id =
     (let bit_count = 32 * 64 :: u64;
          first = latest_fnv1a boot_id 0xcbf29ce484222325;
          step = latest_fnv1a boot_id 0x84222325cbf29ce4 OR 1
      in [unat (first mod bit_count), unat ((first + step) mod bit_count),
          unat ((first + step * 2) mod bit_count)])"

record LatestBootFilter =
  lbf_bits :: "u64 list"

definition LatestBootFilter_default :: LatestBootFilter where
  "LatestBootFilter_default = \<lparr>lbf_bits = replicate 32 0\<rparr>"

definition LatestBootFilter_insert :: "LatestBootFilter \<Rightarrow> bytes \<Rightarrow> LatestBootFilter" where
  "LatestBootFilter_insert f boot_id =
     f\<lparr>lbf_bits := foldl (\<lambda>bits i. bits[i div 64 := bits ! (i div 64) OR push_bit (i mod 64) 1])
                     (lbf_bits f) (latest_boot_filter_bits boot_id)\<rparr>"

definition LatestBootFilter_contains :: "LatestBootFilter \<Rightarrow> bytes \<Rightarrow> bool" where
  "LatestBootFilter_contains f boot_id =
     list_all (\<lambda>i. lbf_bits f ! (i div 64) AND push_bit (i mod 64) 1 \<noteq> 0)
       (latest_boot_filter_bits boot_id)"

definition LatestBootFilter_ok :: "LatestBootFilter \<Rightarrow> bool" where
  "LatestBootFilter_ok f = (length (lbf_bits f) = 32)"

definition agent_copy :: "LatestBootFilter \<Rightarrow> RetiredBootFilter" where
  "agent_copy f = \<lparr>rbf_bits = lbf_bits f\<rparr>"

lemma latest_boot_filter_bits_same: "latest_boot_filter_bits = boot_filter_bits"
  by (simp add: fun_eq_iff latest_boot_filter_bits_def boot_filter_bits_def latest_fnv1a_def
      fnv1a_def)

lemma agent_copy_simps:
  "agent_copy LatestBootFilter_default = RetiredBootFilter_default"
  "agent_copy (LatestBootFilter_insert f b) = RetiredBootFilter_insert (agent_copy f) b"
  "RetiredBootFilter_contains (agent_copy f) b = LatestBootFilter_contains f b"
  "RetiredBootFilter_ok (agent_copy f) = LatestBootFilter_ok f"
  by (simp_all add: agent_copy_def LatestBootFilter_default_def RetiredBootFilter_default_def
      LatestBootFilter_insert_def RetiredBootFilter_insert_def LatestBootFilter_contains_def
      RetiredBootFilter_contains_def LatestBootFilter_ok_def RetiredBootFilter_ok_def
      latest_boot_filter_bits_same)

interpretation latest_filter: retired_set LatestBootFilter_default LatestBootFilter_insert
  LatestBootFilter_contains LatestBootFilter_ok
  by unfold_locales
    (simp_all add: agent_copy_simps(3,4) [symmetric] agent_copy_simps(1,2) agent_filter.valid_none
      agent_filter.valid_retire agent_filter.retired_retire agent_filter.retired_mono)

section \<open>Properties\<close>

text \<open>
  The filter of retired boot identities has no false negative, in either crate: after any
  sequence of retirements every identity retired in it is reported, however many followed, and
  the two copies of the filter answer alike on every identity.
\<close>

lemma retired_boots_never_forgotten:
  "list_all (RetiredBootFilter_contains (foldl RetiredBootFilter_insert RetiredBootFilter_default bs)) bs
   \<and> RetiredBootFilter_contains (foldl RetiredBootFilter_insert RetiredBootFilter_default bs) c
     = LatestBootFilter_contains (foldl LatestBootFilter_insert LatestBootFilter_default bs) c"
proof -
  have "agent_copy (foldl LatestBootFilter_insert f bs) =
      foldl RetiredBootFilter_insert (agent_copy f) bs" for f
    by (induction bs arbitrary: f) (simp_all add: agent_copy_simps)
  from this [of LatestBootFilter_default] show ?thesis
    using agent_filter.no_false_negative [OF agent_filter.valid_none]
    by (simp add: list_all_iff agent_copy_simps) (metis agent_copy_simps(3))
qed

end
