(* ===== verification/Server_Agent.thy ===== *)
theory Server_Agent
  imports Control_Queue Boot_Filter State_Reducer
begin

text \<open>
  The bounded handoff from the server-agent transport to the overlay,
  \<open>crates/pal-state/src/server_agent.rs\<close>. Sender and source share one inbox behind a mutex and
  every method holds the lock for its whole body, so each method is one atomic step on the
  inbox; a method returns its outcome beside the new inbox. The locale \<open>position_source\<close> is
  interpreted on the source with the sender's methods as the transport.
\<close>

section \<open>State\<close>

datatype ServerAgentControlOutcome = CtlAccepted | CtlDropped | CtlOldGenerationDropped | CtlQueueFullDropped

datatype ServerAgentIngestOutcome =
    InAccepted | InDropped | InDuplicateDropped | InOutOfOrderDropped | InOldGenerationDropped
  | InRetiredBootDropped | InIdentityMismatchDropped | InBootMismatchDropped
  | InInvalidTransitionDropped | InClockRegressionDropped

record ServerAgentDiagnostics =
  sd_accepted_samples :: u64
  sd_gap_events :: u64
  sd_missing_sequences :: u64
  sd_superseded_samples :: u64
  sd_duplicate_drops :: u64
  sd_out_of_order_drops :: u64
  sd_old_generation_drops :: u64
  sd_retired_boot_drops :: u64
  sd_identity_mismatch_drops :: u64
  sd_boot_mismatch_drops :: u64
  sd_invalid_transition_drops :: u64
  sd_clock_regression_drops :: u64
  sd_control_queue_full_drops :: u64

definition ServerAgentDiagnostics_default :: ServerAgentDiagnostics where
  "ServerAgentDiagnostics_default =
     \<lparr>sd_accepted_samples = 0, sd_gap_events = 0, sd_missing_sequences = 0,
      sd_superseded_samples = 0, sd_duplicate_drops = 0, sd_out_of_order_drops = 0,
      sd_old_generation_drops = 0, sd_retired_boot_drops = 0, sd_identity_mismatch_drops = 0,
      sd_boot_mismatch_drops = 0, sd_invalid_transition_drops = 0, sd_clock_regression_drops = 0,
      sd_control_queue_full_drops = 0\<rparr>"

datatype ServerAgentSourceError = SAPosition PositionValidationError | InvalidExpectedIdentity

record ServerAgentFrame =
  fr_world_alias :: string
  fr_subject_id :: bytes
  fr_agent_boot_id :: bytes
  fr_generation :: u64
  fr_sequence :: u64
  fr_x :: fl
  fr_y :: fl
  fr_z :: fl
  fr_heading_degrees :: "fl option"
  fr_age_upper_bound_ms :: u64

record Inbox =
  ib_expected_world_alias :: string
  ib_expected_subject_id :: bytes
  ib_generation :: u64
  ib_connected :: bool
  ib_generation_has_sample :: bool
  ib_active_boot_id :: "bytes option"
  ib_retired_boots :: RetiredBootFilter
  ib_last_sequence :: "u64 option"
  ib_last_received :: "u64 option"
  ib_pending_controls :: ControlQueue
  ib_pending_sample :: "PositionSourceEvent option"
  ib_diagnostics :: ServerAgentDiagnostics

definition server_agent_channel :: "string \<Rightarrow> bytes \<Rightarrow> ServerAgentSourceError + Inbox" where
  "server_agent_channel expected_world_alias expected_subject_id =
     (if expected_world_alias = [] \<or> 64 < length expected_world_alias
         \<or> \<not> is_ascii expected_world_alias \<or> length expected_subject_id \<noteq> 32
      then Inl InvalidExpectedIdentity
      else Inr \<lparr>ib_expected_world_alias = expected_world_alias,
                ib_expected_subject_id = expected_subject_id, ib_generation = 0,
                ib_connected = False, ib_generation_has_sample = False, ib_active_boot_id = None,
                ib_retired_boots = RetiredBootFilter_default, ib_last_sequence = None,
                ib_last_received = None, ib_pending_controls = ControlQueue_new,
                ib_pending_sample = None, ib_diagnostics = ServerAgentDiagnostics_default\<rparr>)"

section \<open>Inbox helpers\<close>

definition retire_active_boot :: "Inbox \<Rightarrow> Inbox" where
  "retire_active_boot ib =
     (case ib_active_boot_id ib of
        None \<Rightarrow> ib
      | Some boot_id \<Rightarrow>
          ib\<lparr>ib_active_boot_id := None,
             ib_retired_boots := RetiredBootFilter_insert (ib_retired_boots ib) boot_id\<rparr>)"

definition push_control :: "Inbox \<Rightarrow> ControlEvent \<Rightarrow> bool \<times> Inbox" where
  "push_control ib event =
     (let (queued, q) = ControlQueue_push (ib_pending_controls ib) event
      in (queued, ib\<lparr>ib_pending_controls := q\<rparr>))"

definition queue_clock_invalid :: "Inbox \<Rightarrow> u64 \<Rightarrow> ClockInvalidReason \<Rightarrow> bool \<times> Inbox" where
  "queue_clock_invalid ib generation reason =
     (if ControlQueue_has_clock_invalid (ib_pending_controls ib) generation then (True, ib)
      else push_control ib (CtlClockInvalid generation reason))"

definition count_old_generation_drop :: "Inbox \<Rightarrow> Inbox" where
  "count_old_generation_drop ib = ib\<lparr>ib_diagnostics := (ib_diagnostics ib)
     \<lparr>sd_old_generation_drops := sat_add (sd_old_generation_drops (ib_diagnostics ib)) 1\<rparr>\<rparr>"

definition count_queue_full_drop :: "Inbox \<Rightarrow> Inbox" where
  "count_queue_full_drop ib = ib\<lparr>ib_diagnostics := (ib_diagnostics ib)
     \<lparr>sd_control_queue_full_drops := sat_add (sd_control_queue_full_drops (ib_diagnostics ib)) 1\<rparr>\<rparr>"

section \<open>The sender\<close>

definition sender_connect :: "Inbox \<Rightarrow> u64 \<Rightarrow> ServerAgentControlOutcome \<times> Inbox" where
  "sender_connect ib generation =
     (if generation = 0 \<or> generation = ib_generation ib then (CtlDropped, ib)
      else if generation < ib_generation ib
      then (CtlOldGenerationDropped, count_old_generation_drop ib)
      else if ControlQueue_remaining (ib_pending_controls ib) < CONTROL_EVENTS_PER_SESSION
      then (CtlQueueFullDropped, count_queue_full_drop ib)
      else
        let ib1 = ib\<lparr>ib_generation := generation, ib_connected := True,
                     ib_generation_has_sample := False, ib_pending_sample := None\<rparr>;
            (queued, ib2) = push_control ib1 (CtlConnected generation)
        in (CtlAccepted, ib2))"

text \<open>
  \<open>publish_position\<close> after its identity, generation and boot checks: sequence and clock checks,
  the construction of the sample, and the bookkeeping of an accepted one.
\<close>

definition publish_accepted :: "Inbox \<Rightarrow> ServerAgentFrame \<Rightarrow> u64 \<Rightarrow> PositionSample \<Rightarrow> Inbox" where
  "publish_accepted ib frame received sample =
     (let previous = (case ib_last_sequence ib of None \<Rightarrow> 0 | Some n \<Rightarrow> n);
          d = ib_diagnostics ib;
          d1 = (if sat_add previous 1 < fr_sequence frame
                then d\<lparr>sd_gap_events := sat_add (sd_gap_events d) 1,
                       sd_missing_sequences := sat_add (sd_missing_sequences d)
                         (sat_sub (sat_sub (fr_sequence frame) previous) 1)\<rparr>
                else d);
          d2 = (if ib_pending_sample ib \<noteq> None
                then d1\<lparr>sd_superseded_samples := sat_add (sd_superseded_samples d1) 1\<rparr>
                else d1)
      in ib\<lparr>ib_active_boot_id := (case ib_active_boot_id ib of
                None \<Rightarrow> Some (fr_agent_boot_id frame) | Some b \<Rightarrow> Some b),
            ib_generation_has_sample := True,
            ib_last_sequence := Some (fr_sequence frame),
            ib_last_received := Some received,
            ib_pending_sample := Some (Sample sample),
            ib_diagnostics := d2\<lparr>sd_accepted_samples := sat_add (sd_accepted_samples d2) 1\<rparr>\<rparr>)"

definition publish_sequenced ::
  "Inbox \<Rightarrow> ServerAgentFrame \<Rightarrow> u64 \<Rightarrow> (ServerAgentSourceError + ServerAgentIngestOutcome) \<times> Inbox" where
  "publish_sequenced ib frame received =
     (let d = ib_diagnostics ib in
      if ib_last_sequence ib = Some (fr_sequence frame)
      then (Inr InDuplicateDropped,
            ib\<lparr>ib_diagnostics := d\<lparr>sd_duplicate_drops := sat_add (sd_duplicate_drops d) 1\<rparr>\<rparr>)
      else if (case ib_last_sequence ib of Some n \<Rightarrow> fr_sequence frame < n | None \<Rightarrow> False)
      then (Inr InOutOfOrderDropped,
            ib\<lparr>ib_diagnostics := d\<lparr>sd_out_of_order_drops := sat_add (sd_out_of_order_drops d) 1\<rparr>\<rparr>)
      else if (case ib_last_received ib of Some t \<Rightarrow> received < t | None \<Rightarrow> False)
      then (Inr InClockRegressionDropped,
            snd (queue_clock_invalid
              (ib\<lparr>ib_diagnostics := d\<lparr>sd_clock_regression_drops := sat_add (sd_clock_regression_drops d) 1\<rparr>,
                  ib_pending_sample := None\<rparr>)
              (fr_generation frame) MonotonicRegression))
      else case PositionSample_new (fr_world_alias frame) (fr_subject_id frame)
                  (fr_agent_boot_id frame) (fr_generation frame) (fr_sequence frame)
                  (fr_x frame) (fr_y frame) (fr_z frame) (fr_heading_degrees frame)
                  (received_with_age (fr_age_upper_bound_ms frame) received) of
          Inl e \<Rightarrow> (Inl (SAPosition e), ib)
        | Inr sample \<Rightarrow> (Inr InAccepted, publish_accepted ib frame received sample))"

definition publish_position ::
  "Inbox \<Rightarrow> ServerAgentFrame \<Rightarrow> u64 \<Rightarrow> (ServerAgentSourceError + ServerAgentIngestOutcome) \<times> Inbox" where
  "publish_position ib frame received =
     (let d = ib_diagnostics ib in
      if fr_world_alias frame \<noteq> ib_expected_world_alias ib
         \<or> fr_subject_id frame \<noteq> ib_expected_subject_id ib
      then (Inr InIdentityMismatchDropped,
            ib\<lparr>ib_diagnostics := d\<lparr>sd_identity_mismatch_drops := sat_add (sd_identity_mismatch_drops d) 1\<rparr>\<rparr>)
      else if fr_generation frame = 0 \<or> fr_sequence frame = 0
      then (Inr InInvalidTransitionDropped,
            ib\<lparr>ib_diagnostics := d\<lparr>sd_invalid_transition_drops := sat_add (sd_invalid_transition_drops d) 1\<rparr>\<rparr>)
      else if fr_generation frame < ib_generation ib
      then (Inr InOldGenerationDropped, count_old_generation_drop ib)
      else if \<not> ib_connected ib \<or> fr_generation frame \<noteq> ib_generation ib then (Inr InDropped, ib)
      else if RetiredBootFilter_contains (ib_retired_boots ib) (fr_agent_boot_id frame)
      then (Inr InRetiredBootDropped,
            ib\<lparr>ib_diagnostics := d\<lparr>sd_retired_boot_drops := sat_add (sd_retired_boot_drops d) 1\<rparr>\<rparr>)
      else if (case ib_active_boot_id ib of Some b \<Rightarrow> b \<noteq> fr_agent_boot_id frame | None \<Rightarrow> False)
      then if ib_generation_has_sample ib
           then (Inr InBootMismatchDropped,
                 ib\<lparr>ib_diagnostics := d\<lparr>sd_boot_mismatch_drops := sat_add (sd_boot_mismatch_drops d) 1\<rparr>\<rparr>)
           else publish_sequenced
                  ((retire_active_boot ib)\<lparr>ib_last_sequence := None, ib_last_received := None\<rparr>)
                  frame received
      else publish_sequenced ib frame received)"

definition sender_unavailable :: "Inbox \<Rightarrow> u64 \<Rightarrow> ServerAgentControlOutcome \<times> Inbox" where
  "sender_unavailable ib generation =
     (if generation < ib_generation ib then (CtlOldGenerationDropped, count_old_generation_drop ib)
      else if generation = 0 \<or> generation \<noteq> ib_generation ib \<or> \<not> ib_connected ib
      then (CtlDropped, ib)
      else (CtlAccepted, ib\<lparr>ib_pending_sample := Some (Unavailable generation)\<rparr>))"

definition sender_disconnect :: "Inbox \<Rightarrow> u64 \<Rightarrow> ServerAgentControlOutcome \<times> Inbox" where
  "sender_disconnect ib generation =
     (if generation < ib_generation ib then (CtlOldGenerationDropped, count_old_generation_drop ib)
      else if generation = 0 \<or> generation \<noteq> ib_generation ib \<or> \<not> ib_connected ib
      then (CtlDropped, ib)
      else
        let ib1 = ib\<lparr>ib_connected := False, ib_generation_has_sample := False,
                     ib_pending_sample := None\<rparr>;
            (queued, ib2) = push_control ib1 (CtlDisconnected generation)
        in if \<not> queued then (CtlQueueFullDropped, count_queue_full_drop ib2) else (CtlAccepted, ib2))"

definition sender_clock_invalid ::
  "Inbox \<Rightarrow> u64 \<Rightarrow> ClockInvalidReason \<Rightarrow> ServerAgentControlOutcome \<times> Inbox" where
  "sender_clock_invalid ib generation reason =
     (if generation < ib_generation ib then (CtlOldGenerationDropped, count_old_generation_drop ib)
      else if generation = 0 \<or> generation \<noteq> ib_generation ib \<or> \<not> ib_connected ib
      then (CtlDropped, ib)
      else
        let (queued, ib1) = queue_clock_invalid (ib\<lparr>ib_pending_sample := None\<rparr>) generation reason
        in if \<not> queued
           then (CtlQueueFullDropped, count_queue_full_drop (ib1\<lparr>ib_connected := False\<rparr>))
           else (CtlAccepted, ib1))"

section \<open>The source\<close>

text \<open>\<open>poll\<close> never fails; the error type of the trait is that of the replay source.\<close>

definition server_agent_poll ::
  "Inbox \<Rightarrow> u64 \<Rightarrow> (PositionSourceError + PositionSourceEvent option) \<times> Inbox" where
  "server_agent_poll ib now =
     (case ControlQueue_pop (ib_pending_controls ib) of
        (Some event, q) \<Rightarrow>
          (Inr (Some (into_position_source_event event)), ib\<lparr>ib_pending_controls := q\<rparr>)
      | (None, q) \<Rightarrow>
          (Inr (ib_pending_sample ib), ib\<lparr>ib_pending_controls := q, ib_pending_sample := None\<rparr>))"

section \<open>The invariant\<close>

abbreviation queued_controls :: "Inbox \<Rightarrow> ControlEvent list" where
  "queued_controls ib \<equiv> ControlQueue_list (ib_pending_controls ib)"

text \<open>
  An open session keeps room for the events it may still have to queue: one disconnection, and
  one clock failure unless one is already waiting.
\<close>

definition session_reserve :: "Inbox \<Rightarrow> nat" where
  "session_reserve ib =
     (if list_ex (is_clock_invalid (ib_generation ib)) (queued_controls ib) then 1 else 2)"

definition inbox_wf :: "Inbox \<Rightarrow> bool" where
  "inbox_wf ib \<longleftrightarrow> ControlQueue_ok (ib_pending_controls ib)
     \<and> RetiredBootFilter_ok (ib_retired_boots ib)
     \<and> (ib_connected ib \<longrightarrow> ib_generation ib \<noteq> 0
          \<and> length (queued_controls ib) + session_reserve ib \<le> CONTROL_QUEUE_CAPACITY)"

text \<open>The inbox against the monitor state reached once every queued control event is delivered.\<close>

definition pending_ok :: "Inbox \<Rightarrow> monitor \<Rightarrow> bool" where
  "pending_ok ib m \<longleftrightarrow> (case ib_pending_sample ib of
       None \<Rightarrow> True
     | Some ev \<Rightarrow> ib_connected ib \<and>
         (ev = Unavailable (ib_generation ib)
          \<or> (\<exists>p. ev = Sample p \<and> monitor_sample_ok m p \<and> ib_generation_has_sample ib
               \<and> ib_active_boot_id ib = Some (ps_agent_boot_id p)
               \<and> ib_last_sequence ib = Some (ps_sequence p))))"

definition session_ok :: "Inbox \<Rightarrow> monitor \<Rightarrow> bool" where
  "session_ok ib m \<longleftrightarrow>
     (\<forall>b. mon_boot m = Some b \<longrightarrow> ib_generation_has_sample ib \<and> ib_active_boot_id ib = Some b)
     \<and> (\<forall>n. mon_sequence m = Some n \<longrightarrow>
          ib_generation_has_sample ib \<and> (\<exists>k. ib_last_sequence ib = Some k \<and> n \<le> k))"

definition inbox_after :: "Inbox \<Rightarrow> monitor \<Rightarrow> bool" where
  "inbox_after ib m \<longleftrightarrow> mon_generation m = ib_generation ib \<and> mon_online m = ib_connected ib
     \<and> (ib_connected ib \<longrightarrow> session_ok ib m) \<and> pending_ok ib m"

definition inbox_relates :: "Inbox \<Rightarrow> monitor \<Rightarrow> bool" where
  "inbox_relates ib m \<longleftrightarrow> inbox_wf ib \<and>
     (\<exists>m'. monitor_run m (map into_position_source_event (queued_controls ib)) = Some m'
        \<and> inbox_after ib m')"

lemmas inbox_defs = session_reserve_def inbox_wf_def pending_ok_def session_ok_def inbox_after_def

lemma inbox_relates_diagnostics [simp]:
  "inbox_relates (ib\<lparr>ib_diagnostics := d\<rparr>) m = inbox_relates ib m"
proof -
  have "pending_ok (ib\<lparr>ib_diagnostics := d\<rparr>) m' = pending_ok ib m'" for m'
    by (simp add: pending_ok_def split: option.split)
  then show ?thesis
    by (simp add: inbox_relates_def inbox_wf_def inbox_after_def session_ok_def session_reserve_def)
qed

lemma inbox_relates_counts [simp]:
  "inbox_relates (count_old_generation_drop ib) m = inbox_relates ib m"
  "inbox_relates (count_queue_full_drop ib) m = inbox_relates ib m"
  by (simp_all add: count_old_generation_drop_def count_queue_full_drop_def)

lemma inbox_relatesE:
  assumes "inbox_relates ib m"
  obtains m' where "inbox_wf ib" "inbox_after ib m'"
    "monitor_run m (map into_position_source_event (queued_controls ib)) = Some m'"
  using assms by (auto simp: inbox_relates_def)

lemma push_control_room:
  assumes "ControlQueue_ok (ib_pending_controls ib)" "length (queued_controls ib) < 15"
  obtains q where "push_control ib e = (True, ib\<lparr>ib_pending_controls := q\<rparr>)"
    "ControlQueue_ok q" "ControlQueue_list q = queued_controls ib @ [e]"
  using control_ring.enqueue_room [OF assms, of e]
  by (auto simp: push_control_def case_prod_beta)

lemma monitor_run_snoc:
  "monitor_run m (xs @ [e]) = Option.bind (monitor_run m xs) (\<lambda>m'. monitor_step m' e)"
  by (simp add: monitor_run_append)

section \<open>Every method keeps the relation\<close>

lemma connect_relates:
  assumes "inbox_relates ib m"
  shows "inbox_relates (snd (sender_connect ib g)) m"
proof (cases "ib_generation ib < g \<and> \<not> ControlQueue_remaining (ib_pending_controls ib) < 3")
  case True
  obtain m' where m': "inbox_wf ib" "inbox_after ib m'"
    "monitor_run m (map into_position_source_event (queued_controls ib)) = Some m'"
    using assms by (rule inbox_relatesE)
  let ?ib = "ib\<lparr>ib_generation := g, ib_connected := True, ib_generation_has_sample := False,
      ib_pending_sample := None\<rparr>"
  have len: "length (queued_controls ib) \<le> 12"
    using True unfolding ControlQueue_remaining_def length_ControlQueue_list by linarith
  obtain q where q: "push_control ?ib (CtlConnected g) = (True, ?ib\<lparr>ib_pending_controls := q\<rparr>)"
    "ControlQueue_ok q" "ControlQueue_list q = queued_controls ib @ [CtlConnected g]"
    using m'(1) len push_control_room [of ?ib "CtlConnected g"] by (auto simp: inbox_wf_def)
  have g: "g \<noteq> 0" "g \<noteq> ib_generation ib" "\<not> g < ib_generation ib" using True by auto
  have "inbox_relates (?ib\<lparr>ib_pending_controls := q\<rparr>) m"
    using m' q g True len
    by (simp add: inbox_relates_def monitor_run_snoc) (simp add: inbox_defs)
  then show ?thesis using q(1) g True by (simp add: sender_connect_def)
next
  case False
  then have "g = 0 \<or> g = ib_generation ib \<or> g < ib_generation ib
      \<or> ControlQueue_remaining (ib_pending_controls ib) < 3" by auto
  then show ?thesis using assms by (auto simp: sender_connect_def)
qed

lemma queue_clock_invalid_relates:
  assumes "inbox_relates ib m" "ib_connected ib" "ib_pending_sample ib = None"
  shows "fst (queue_clock_invalid ib (ib_generation ib) reason)"
    and "inbox_relates (snd (queue_clock_invalid ib (ib_generation ib) reason)) m"
proof -
  let ?g = "ib_generation ib"
  obtain m' where m': "inbox_wf ib" "inbox_after ib m'"
    "monitor_run m (map into_position_source_event (queued_controls ib)) = Some m'"
    using assms(1) by (rule inbox_relatesE)
  have ok: "ControlQueue_ok (ib_pending_controls ib)" using m'(1) by (simp add: inbox_wf_def)
  have "fst (queue_clock_invalid ib ?g reason)
      \<and> inbox_relates (snd (queue_clock_invalid ib ?g reason)) m"
  proof (cases "ControlQueue_has_clock_invalid (ib_pending_controls ib) ?g")
    case True
    then show ?thesis using assms(1) by (simp add: queue_clock_invalid_def)
  next
    case False
    then have none: "\<not> list_ex (is_clock_invalid ?g) (queued_controls ib)"
      using has_clock_invalid_list [OF ok] by simp
    then have len: "length (queued_controls ib) \<le> 13"
      using m'(1) assms(2) unfolding inbox_wf_def session_reserve_def by auto
    obtain q where q:
      "push_control ib (CtlClockInvalid ?g reason) = (True, ib\<lparr>ib_pending_controls := q\<rparr>)"
      "ControlQueue_ok q" "ControlQueue_list q = queued_controls ib @ [CtlClockInvalid ?g reason]"
      using ok len push_control_room [of ib "CtlClockInvalid ?g reason"] by auto
    have "inbox_relates (ib\<lparr>ib_pending_controls := q\<rparr>) m"
      using m' q assms(2,3) len
      by (simp add: inbox_relates_def monitor_run_snoc) (simp add: inbox_defs monitor_open_def)
    then show ?thesis using q(1) False by (simp add: queue_clock_invalid_def)
  qed
  then show "fst (queue_clock_invalid ib ?g reason)"
    "inbox_relates (snd (queue_clock_invalid ib ?g reason)) m" by auto
qed

lemma clear_pending_relates: "inbox_relates ib m \<Longrightarrow> inbox_relates (ib\<lparr>ib_pending_sample := None\<rparr>) m"
  by (auto simp: inbox_relates_def inbox_defs)

lemma clock_invalid_relates:
  assumes "inbox_relates ib m"
  shows "inbox_relates (snd (sender_clock_invalid ib g reason)) m"
    and "fst (sender_clock_invalid ib g reason) \<noteq> CtlQueueFullDropped"
  using assms queue_clock_invalid_relates [OF clear_pending_relates [OF assms], of reason]
  by (auto simp: sender_clock_invalid_def case_prod_beta Let_def)

lemma unavailable_relates:
  "inbox_relates ib m \<Longrightarrow> inbox_relates (snd (sender_unavailable ib g)) m"
  by (auto simp: sender_unavailable_def) (auto simp: inbox_relates_def inbox_defs)

lemma disconnect_relates:
  assumes "inbox_relates ib m"
  shows "inbox_relates (snd (sender_disconnect ib g)) m
       \<and> fst (sender_disconnect ib g) \<noteq> CtlQueueFullDropped"
proof (cases "g = ib_generation ib \<and> g \<noteq> 0 \<and> ib_connected ib")
  case True
  obtain m' where m': "inbox_wf ib" "inbox_after ib m'"
    "monitor_run m (map into_position_source_event (queued_controls ib)) = Some m'"
    using assms by (rule inbox_relatesE)
  let ?ib = "ib\<lparr>ib_connected := False, ib_generation_has_sample := False, ib_pending_sample := None\<rparr>"
  have len: "length (queued_controls ib) \<le> 14"
    using m'(1) True unfolding inbox_wf_def session_reserve_def by (auto split: if_splits)
  obtain q where q: "push_control ?ib (CtlDisconnected g) = (True, ?ib\<lparr>ib_pending_controls := q\<rparr>)"
    "ControlQueue_ok q" "ControlQueue_list q = queued_controls ib @ [CtlDisconnected g]"
    using m'(1) len push_control_room [of ?ib "CtlDisconnected g"] by (auto simp: inbox_wf_def)
  have "inbox_relates (?ib\<lparr>ib_pending_controls := q\<rparr>) m"
    using m' q True
    by (simp add: inbox_relates_def monitor_run_snoc) (simp add: inbox_defs monitor_open_def)
  then show ?thesis using q(1) True by (auto simp: sender_disconnect_def)
next
  case False
  then show ?thesis using assms by (auto simp: sender_disconnect_def)
qed

lemma relates_boot_unknown:
  assumes "inbox_relates ib m" "\<not> ib_generation_has_sample ib" "RetiredBootFilter_ok f"
  shows "inbox_relates (ib\<lparr>ib_active_boot_id := None, ib_retired_boots := f,
      ib_last_sequence := None, ib_last_received := None\<rparr>) m"
  using assms
  by (auto simp: inbox_relates_def inbox_wf_def inbox_after_def session_ok_def session_reserve_def
      pending_ok_def split: option.splits)

lemma publish_accepted_relates:
  assumes rel: "inbox_relates ib m" and conn: "ib_connected ib"
    and sample: "PositionSample_new w s (fr_agent_boot_id frame) (ib_generation ib)
        (fr_sequence frame) x y z h c = Inr p"
    and seq: "fr_sequence frame \<noteq> 0" "\<forall>n. ib_last_sequence ib = Some n \<longrightarrow> n < fr_sequence frame"
    and boot: "\<forall>b. ib_active_boot_id ib = Some b \<longrightarrow> b = fr_agent_boot_id frame"
  shows "inbox_relates (publish_accepted ib frame received p) m"
proof -
  obtain m' where m': "inbox_wf ib" "inbox_after ib m'"
    "monitor_run m (map into_position_source_event (queued_controls ib)) = Some m'"
    using rel by (rule inbox_relatesE)
  have less: "n < fr_sequence frame" if "mon_sequence m' = Some n" for n
  proof -
    obtain k where "ib_last_sequence ib = Some k" "n \<le> k"
      using m'(2) conn \<open>mon_sequence m' = Some n\<close> by (auto simp: inbox_after_def session_ok_def)
    with seq(2) show ?thesis by auto
  qed
  have mboot: "b = fr_agent_boot_id frame" if "mon_boot m' = Some b" for b
    using m'(2) conn that boot by (auto simp: inbox_after_def session_ok_def)
  have active: "(case ib_active_boot_id ib of None \<Rightarrow> Some (fr_agent_boot_id frame) | Some b \<Rightarrow> Some b)
      = Some (fr_agent_boot_id frame)"
    using boot by (auto split: option.split)
  have ok: "monitor_sample_ok m' p"
    using m'(1,2) conn seq(1) PositionSample_new_Inr [OF sample] less mboot
    by (auto simp: monitor_sample_ok_def monitor_open_def inbox_after_def inbox_wf_def
        split: option.splits)
  have "inbox_after (publish_accepted ib frame received p) m'"
    using m'(2) conn less mboot active ok PositionSample_new_Inr [OF sample]
    by (auto simp: publish_accepted_def Let_def inbox_after_def pending_ok_def session_ok_def
        less_imp_le)
  moreover have "inbox_wf (publish_accepted ib frame received p)"
    using m'(1) by (simp add: publish_accepted_def Let_def inbox_wf_def session_reserve_def)
  ultimately show ?thesis
    using m'(3) by (auto simp: inbox_relates_def publish_accepted_def Let_def)
qed

lemma publish_sequenced_relates:
  assumes "inbox_relates ib m" "ib_connected ib" "fr_generation frame = ib_generation ib"
    "fr_sequence frame \<noteq> 0" "\<forall>b. ib_active_boot_id ib = Some b \<longrightarrow> b = fr_agent_boot_id frame"
  shows "inbox_relates (snd (publish_sequenced ib frame received)) m"
proof -
  let ?ib = "\<lambda>d. ib\<lparr>ib_diagnostics := d, ib_pending_sample := None\<rparr>"
  have regress: "inbox_relates (snd (queue_clock_invalid (?ib d) (ib_generation ib) reason)) m" for d reason
    using queue_clock_invalid_relates(2) [of "?ib d" m reason] assms(1,2)
      clear_pending_relates [of "ib\<lparr>ib_diagnostics := d\<rparr>" m] by simp
  have accept: "inbox_relates (publish_accepted ib frame received p) m"
    if "PositionSample_new (fr_world_alias frame) (fr_subject_id frame) (fr_agent_boot_id frame)
        (ib_generation ib) (fr_sequence frame) (fr_x frame) (fr_y frame) (fr_z frame)
        (fr_heading_degrees frame) (received_with_age (fr_age_upper_bound_ms frame) received) = Inr p"
      "ib_last_sequence ib \<noteq> Some (fr_sequence frame)"
      "\<not> (case ib_last_sequence ib of Some n \<Rightarrow> fr_sequence frame < n | None \<Rightarrow> False)" for p
  proof -
    have "\<forall>n. ib_last_sequence ib = Some n \<longrightarrow> n < fr_sequence frame"
      using that(2,3) by auto
    from publish_accepted_relates [OF assms(1,2) that(1) assms(4) this assms(5)] show ?thesis .
  qed
  show ?thesis
    using assms(1,3) regress accept by (auto simp: publish_sequenced_def Let_def split: sum.split)
qed

lemma publish_relates:
  assumes "inbox_relates ib m"
  shows "inbox_relates (snd (publish_position ib frame received)) m"
proof (cases "fr_generation frame = 0 \<or> fr_sequence frame = 0 \<or> fr_generation frame \<noteq> ib_generation ib
    \<or> \<not> ib_connected ib")
  case True
  then show ?thesis using assms by (auto simp: publish_position_def Let_def)
next
  case False
  have ok: "RetiredBootFilter_ok (ib_retired_boots ib)"
    using assms by (simp add: inbox_relates_def inbox_wf_def)
  have retire: "(retire_active_boot ib)\<lparr>ib_last_sequence := None, ib_last_received := None\<rparr> =
      ib\<lparr>ib_active_boot_id := None, ib_retired_boots := RetiredBootFilter_insert (ib_retired_boots ib) b,
         ib_last_sequence := None, ib_last_received := None\<rparr>" if "ib_active_boot_id ib = Some b" for b
    using that by (simp add: retire_active_boot_def)
  have boot_change: "inbox_relates (snd (publish_sequenced
      ((retire_active_boot ib)\<lparr>ib_last_sequence := None, ib_last_received := None\<rparr>) frame received)) m"
    if "ib_active_boot_id ib = Some b" "\<not> ib_generation_has_sample ib" for b
    unfolding retire [OF that(1)]
    by (rule publish_sequenced_relates)
      (use False relates_boot_unknown [OF assms that(2) agent_filter.valid_retire [OF ok, of b]] in auto)
  have same: "inbox_relates (snd (publish_sequenced ib frame received)) m"
    if "\<forall>b. ib_active_boot_id ib = Some b \<longrightarrow> b = fr_agent_boot_id frame"
    by (rule publish_sequenced_relates [OF assms _ _ _ that]) (use False in auto)
  show ?thesis
    using assms boot_change same
    by (cases "ib_active_boot_id ib") (auto simp: publish_position_def Let_def)
qed

lemma poll_relates:
  assumes rel: "inbox_relates ib m" and p: "server_agent_poll ib now = (Inr ev, ib')"
  shows "case ev of None \<Rightarrow> inbox_relates ib' m
         | Some e \<Rightarrow> \<exists>m'. monitor_step m e = Some m' \<and> inbox_relates ib' m'"
proof -
  let ?q = "ib_pending_controls ib"
  obtain m1 where m1: "inbox_wf ib" "inbox_after ib m1"
    "monitor_run m (map into_position_source_event (queued_controls ib)) = Some m1"
    using rel by (rule inbox_relatesE)
  have ok: "ControlQueue_ok ?q" using m1(1) by (simp add: inbox_wf_def)
  show ?thesis
  proof (cases "ControlQueue_list ?q")
    case Nil
    then have "ControlQueue_pop ?q = (None, ?q)" using control_ring.dequeue_empty [OF ok] by simp
    then have ib': "ev = ib_pending_sample ib" "ib' = ib\<lparr>ib_pending_sample := None\<rparr>"
      using p by (auto simp: server_agent_poll_def)
    have "m1 = m" using m1(3) Nil by simp
    then show ?thesis
      using m1 Nil unfolding ib'
      by (auto simp: inbox_relates_def inbox_wf_def inbox_after_def pending_ok_def session_ok_def
          session_reserve_def monitor_open_def monitor_sample_ok_def split: option.split)
  next
    case (Cons c cs)
    note pop = control_ring.dequeue_cons [OF ok Cons]
    obtain q' where popped: "ControlQueue_pop ?q = (Some c, q')"
      using pop by (cases "ControlQueue_pop ?q") simp
    then have ib': "ev = Some (into_position_source_event c)" "ib' = ib\<lparr>ib_pending_controls := q'\<rparr>"
      using p by (auto simp: server_agent_poll_def)
    have pop: "ControlQueue_ok q'" "ControlQueue_list q' = cs" using pop popped by auto
    obtain m2 where m2: "monitor_step m (into_position_source_event c) = Some m2"
      "monitor_run m2 (map into_position_source_event cs) = Some m1"
      using m1(3) Cons by (cases "monitor_step m (into_position_source_event c)") auto
    have len: "length (ControlQueue_list ?q) = Suc (length cs)" using Cons by simp
    have "inbox_wf ib'"
      using m1(1) pop len Cons unfolding ib'
      by (auto simp: inbox_wf_def session_reserve_def simp del: length_ControlQueue_list
          split: if_splits)
    moreover have "inbox_after ib' m1"
      using m1(2) unfolding ib'
      by (auto simp: inbox_after_def pending_ok_def session_ok_def split: option.splits)
    ultimately have "inbox_relates ib' m2"
      using m2(2) pop unfolding ib' by (auto simp: inbox_relates_def)
    with m2(1) show ?thesis unfolding ib' by auto
  qed
qed

section \<open>The source keeps the contract\<close>

datatype sender_call =
    CallConnect u64
  | CallPublish ServerAgentFrame u64
  | CallUnavailable u64
  | CallDisconnect u64
  | CallClockInvalid u64 ClockInvalidReason

fun sender_effect :: "sender_call \<Rightarrow> Inbox \<Rightarrow> Inbox" where
  "sender_effect (CallConnect g) ib = snd (sender_connect ib g)"
| "sender_effect (CallPublish frame received) ib = snd (publish_position ib frame received)"
| "sender_effect (CallUnavailable g) ib = snd (sender_unavailable ib g)"
| "sender_effect (CallDisconnect g) ib = snd (sender_disconnect ib g)"
| "sender_effect (CallClockInvalid g reason) ib = snd (sender_clock_invalid ib g reason)"

definition is_sender_call :: "(Inbox \<Rightarrow> Inbox) \<Rightarrow> bool" where
  "is_sender_call f \<longleftrightarrow> (\<exists>call. f = sender_effect call)"

lemma sender_effect_relates: "inbox_relates ib m \<Longrightarrow> inbox_relates (sender_effect call ib) m"
  by (cases call) (simp_all add: connect_relates publish_relates unavailable_relates
      disconnect_relates clock_invalid_relates)

lemma server_agent_poll_ok: "\<exists>ev ib'. server_agent_poll ib now = (Inr ev, ib')"
  by (simp add: server_agent_poll_def split: prod.split option.split)

interpretation server_agent: position_source server_agent_poll inbox_relates "\<lambda>_ _. True" is_sender_call
proof unfold_locales
  fix ib m now e ib' f
  assume rel: "inbox_relates ib m"
  show "server_agent_poll ib now = (Inr (Some e), ib') \<Longrightarrow>
      \<exists>m'. monitor_step m e = Some m' \<and> inbox_relates ib' m'"
    using poll_relates [OF rel, of now "Some e"] by simp
  show "server_agent_poll ib now = (Inr None, ib') \<Longrightarrow> inbox_relates ib' m"
    using poll_relates [OF rel, of now None] by simp
  show "server_agent_poll ib now = (Inl err, ib') \<Longrightarrow> inbox_relates ib' m" for err
    using server_agent_poll_ok [of ib now] by auto
  show "is_sender_call f \<Longrightarrow> inbox_relates (f ib) m"
    using rel by (auto simp: is_sender_call_def sender_effect_relates)
qed

lemma server_agent_channel_relates:
  "server_agent_channel w s = Inr ib \<Longrightarrow> inbox_relates ib monitor_init"
  by (auto simp: server_agent_channel_def inbox_relates_def inbox_wf_def inbox_after_def
      pending_ok_def monitor_init_def control_ring.valid_empty control_ring.contents_empty
      agent_filter.valid_none split: if_splits)

inductive agent_reachable :: "Inbox \<Rightarrow> bool" where
  agent_new: "server_agent_channel w s = Inr ib \<Longrightarrow> agent_reachable ib"
| agent_call: "agent_reachable ib \<Longrightarrow> agent_reachable (sender_effect call ib)"
| agent_poll: "agent_reachable ib \<Longrightarrow> agent_reachable (snd (server_agent_poll ib now))"

lemma agent_reachable_relates: "agent_reachable ib \<Longrightarrow> \<exists>m. inbox_relates ib m"
proof (induction rule: agent_reachable.induct)
  case (agent_new w s ib)
  then show ?case by (auto dest: server_agent_channel_relates)
next
  case (agent_call ib call)
  then show ?case by (auto intro: sender_effect_relates)
next
  case (agent_poll ib now)
  then obtain m where rel: "inbox_relates ib m" by blast
  obtain ev ib' where p: "server_agent_poll ib now = (Inr ev, ib')"
    using server_agent_poll_ok by blast
  from poll_relates [OF rel p] p show ?case by (auto split: option.splits)
qed

section \<open>Retired identities\<close>

lemma push_control_fields [simp]:
  "ib_retired_boots (snd (push_control ib e)) = ib_retired_boots ib"
  "ib_retired_boots (snd (queue_clock_invalid ib g r)) = ib_retired_boots ib"
  by (simp_all add: push_control_def queue_clock_invalid_def case_prod_beta Let_def)

lemma publish_sequenced_retired [simp]:
  "ib_retired_boots (snd (publish_sequenced ib frame t)) = ib_retired_boots ib"
  by (simp add: publish_sequenced_def publish_accepted_def Let_def split: sum.split)

lemma sender_effect_retired:
  "ib_retired_boots (sender_effect call ib) = ib_retired_boots ib
   \<or> (\<exists>b. ib_retired_boots (sender_effect call ib) = RetiredBootFilter_insert (ib_retired_boots ib) b)"
  by (cases call)
    (auto simp: sender_connect_def publish_position_def sender_unavailable_def sender_disconnect_def
      sender_clock_invalid_def count_old_generation_drop_def count_queue_full_drop_def
      retire_active_boot_def case_prod_beta Let_def split: option.splits)

lemma sender_effects_keep_retired:
  assumes "RetiredBootFilter_ok (ib_retired_boots ib)"
    "RetiredBootFilter_contains (ib_retired_boots ib) b"
  shows "RetiredBootFilter_contains (ib_retired_boots (fold sender_effect calls ib)) b"
  using assms
proof (induction calls arbitrary: ib)
  case (Cons call calls)
  then have "RetiredBootFilter_ok (ib_retired_boots (sender_effect call ib))"
    "RetiredBootFilter_contains (ib_retired_boots (sender_effect call ib)) b"
    using sender_effect_retired [of call ib]
    by (auto simp: agent_filter.valid_retire agent_filter.retired_mono)
  with Cons.IH show ?case by simp
qed simp

lemma publish_accepted_only:
  assumes "fst (publish_position ib frame received) = Inr InAccepted"
  shows "fr_world_alias frame = ib_expected_world_alias ib"
    "fr_subject_id frame = ib_expected_subject_id ib" "fr_sequence frame \<noteq> 0"
    "ib_connected ib" "fr_generation frame = ib_generation ib" "fr_generation frame \<noteq> 0"
    "\<not> RetiredBootFilter_contains (ib_retired_boots ib) (fr_agent_boot_id frame)"
  using assms by (auto simp: publish_position_def Let_def split: if_splits)

lemma publish_sequenced_accepted:
  assumes "fst (publish_sequenced ib frame received) = Inr InAccepted"
  obtains p where "PositionSample_new (fr_world_alias frame) (fr_subject_id frame)
      (fr_agent_boot_id frame) (fr_generation frame) (fr_sequence frame) (fr_x frame) (fr_y frame)
      (fr_z frame) (fr_heading_degrees frame)
      (received_with_age (fr_age_upper_bound_ms frame) received) = Inr p"
    "snd (publish_sequenced ib frame received) = publish_accepted ib frame received p"
    "\<forall>n. ib_last_sequence ib = Some n \<longrightarrow> n < fr_sequence frame"
  using assms
  by (auto simp: publish_sequenced_def Let_def split: if_splits sum.splits option.splits)

lemma publish_position_accepted:
  assumes "fst (publish_position ib frame received) = Inr InAccepted"
  shows "(\<exists>b. ib_active_boot_id ib = Some b \<and> b \<noteq> fr_agent_boot_id frame
            \<and> publish_position ib frame received = publish_sequenced
                ((retire_active_boot ib)\<lparr>ib_last_sequence := None, ib_last_received := None\<rparr>)
                frame received)
       \<or> ib_active_boot_id ib \<in> {None, Some (fr_agent_boot_id frame)}
          \<and> publish_position ib frame received = publish_sequenced ib frame received"
  using assms by (auto simp: publish_position_def Let_def split: if_splits option.splits)

lemma accepted_frame_sample:
  assumes "fst (publish_position ib frame t) = Inr InAccepted"
  obtains p where "ib_pending_sample (snd (publish_position ib frame t)) = Some (Sample p)"
    "PositionSample_new (fr_world_alias frame) (fr_subject_id frame) (fr_agent_boot_id frame)
       (fr_generation frame) (fr_sequence frame) (fr_x frame) (fr_y frame) (fr_z frame)
       (fr_heading_degrees frame) (received_with_age (fr_age_upper_bound_ms frame) t) = Inr p"
proof -
  obtain ib0 where ib0: "publish_position ib frame t = publish_sequenced ib0 frame t"
    using publish_position_accepted [OF assms] by auto
  obtain p where "PositionSample_new (fr_world_alias frame) (fr_subject_id frame)
      (fr_agent_boot_id frame) (fr_generation frame) (fr_sequence frame) (fr_x frame) (fr_y frame)
      (fr_z frame) (fr_heading_degrees frame)
      (received_with_age (fr_age_upper_bound_ms frame) t) = Inr p"
    "snd (publish_sequenced ib0 frame t) = publish_accepted ib0 frame t p"
    using assms unfolding ib0 by (rule publish_sequenced_accepted)
  with that ib0 show ?thesis by (simp add: publish_accepted_def Let_def)
qed

section \<open>Examples\<close>

definition sample_inbox :: Inbox where
  "sample_inbox = projr (server_agent_channel ''world-a'' (replicate 32 7))"

definition sample_frame :: "u64 \<Rightarrow> u8 \<Rightarrow> u64 \<Rightarrow> fl \<Rightarrow> ServerAgentFrame" where
  "sample_frame generation boot sequence x =
     \<lparr>fr_world_alias = ''world-a'', fr_subject_id = replicate 32 7,
      fr_agent_boot_id = [boot], fr_generation = generation, fr_sequence = sequence,
      fr_x = x, fr_y = FFin 0, fr_z = FFin 0, fr_heading_degrees = None,
      fr_age_upper_bound_ms = 20\<rparr>"

definition session_of_boot_one :: "sender_call list" where
  "session_of_boot_one =
     [CallConnect 1, CallPublish (sample_frame 1 1 5 (FFin 10)) 100, CallDisconnect 1, CallConnect 2]"

lemma sample_inbox_channel: "server_agent_channel ''world-a'' (replicate 32 7) = Inr sample_inbox"
  by (simp add: sample_inbox_def server_agent_channel_def is_ascii_def)

lemma no_boot_retired [simp]: "RetiredBootFilter_contains RetiredBootFilter_default b \<longleftrightarrow> False"
  by (simp add: RetiredBootFilter_contains_def RetiredBootFilter_default_def boot_filter_bits_def
      Let_def mod_2048_index)

lemmas sample_run_defs =
  sender_connect_def sender_disconnect_def publish_position_def publish_sequenced_def
  publish_accepted_def push_control_def ControlQueue_push_def ControlQueue_remaining_def
  PositionSample_new_def sample_frame_def received_with_age_def ControlQueue_new_def Let_def
  ServerAgentDiagnostics_default_def retire_active_boot_def session_of_boot_one_def

lemma sample_inbox_value:
  "sample_inbox = \<lparr>ib_expected_world_alias = ''world-a'', ib_expected_subject_id = replicate 32 7,
     ib_generation = 0, ib_connected = False, ib_generation_has_sample = False,
     ib_active_boot_id = None, ib_retired_boots = RetiredBootFilter_default,
     ib_last_sequence = None, ib_last_received = None, ib_pending_controls = ControlQueue_new,
     ib_pending_sample = None, ib_diagnostics = ServerAgentDiagnostics_default\<rparr>"
  by (simp add: sample_inbox_def server_agent_channel_def is_ascii_def)

lemma agent_reachable_calls: "agent_reachable ib \<Longrightarrow> agent_reachable (fold sender_effect calls ib)"
  by (induction calls arbitrary: ib) (auto intro: agent_call)

lemma sample_session_reachable: "agent_reachable (fold sender_effect session_of_boot_one sample_inbox)"
  by (rule agent_reachable_calls) (rule agent_new [OF sample_inbox_channel])

section \<open>Properties\<close>

text \<open>
  A session never loses its end. In every reachable inbox the control queue still has room
  for the events of the open session: reporting a disconnection or an invalid clock is never
  answered with a full queue, because accepting a connection reserves the complete lifecycle.
\<close>

lemma session_lifecycle_reserved:
  assumes "agent_reachable ib"
  shows "fst (sender_disconnect ib g) \<noteq> CtlQueueFullDropped
       \<and> fst (sender_clock_invalid ib g reason) \<noteq> CtlQueueFullDropped"
proof -
  obtain m where "inbox_relates ib m" using agent_reachable_relates [OF assms] by blast
  then show ?thesis using disconnect_relates clock_invalid_relates(2) by blast
qed

lemma session_lifecycle_reserved_example:
  "fst (sender_disconnect (fold sender_effect session_of_boot_one sample_inbox) 2)
     \<noteq> CtlQueueFullDropped"
  using session_lifecycle_reserved [OF sample_session_reachable] by blast

text \<open>
  C32: a replaced agent process never comes back. Once an accepted frame has replaced the active
  boot identity by another one, no later frame of the replaced identity is accepted, whatever
  calls are made in between, on any generation.
\<close>

theorem replaced_boot_never_accepted:
  assumes "agent_reachable ib" and "ib_active_boot_id ib = Some old"
    and "fst (publish_position ib frame t) = Inr InAccepted" and "fr_agent_boot_id frame \<noteq> old"
    and "fr_agent_boot_id later = old"
  shows "fst (publish_position (fold sender_effect calls (snd (publish_position ib frame t))) later t')
       \<noteq> Inr InAccepted"
proof -
  have ok: "RetiredBootFilter_ok (ib_retired_boots ib)"
    using agent_reachable_relates [OF assms(1)] by (auto simp: inbox_relates_def inbox_wf_def)
  have "ib_retired_boots (snd (publish_position ib frame t)) =
      RetiredBootFilter_insert (ib_retired_boots ib) old"
    using publish_position_accepted [OF assms(3)] assms(2,4) by (auto simp: retire_active_boot_def)
  then have "RetiredBootFilter_contains
      (ib_retired_boots (fold sender_effect calls (snd (publish_position ib frame t)))) old"
    using ok by (intro sender_effects_keep_retired)
      (simp_all add: agent_filter.valid_retire agent_filter.retired_retire)
  then show ?thesis using assms(5) publish_accepted_only(7) by blast
qed

theorem replaced_boot_never_accepted_witness:
  "fst (publish_position (fold sender_effect [CallConnect 3]
      (snd (publish_position (fold sender_effect session_of_boot_one sample_inbox)
         (sample_frame 2 2 1 (FFin 3)) 200)))
      (sample_frame 3 1 9 (FFin 4)) 300) \<noteq> Inr InAccepted"
proof (rule replaced_boot_never_accepted [OF sample_session_reachable, of "[1]"])
  show "ib_active_boot_id (fold sender_effect session_of_boot_one sample_inbox) = Some [1]"
    by (simp add: sample_inbox_value sample_run_defs)
  show "fst (publish_position (fold sender_effect session_of_boot_one sample_inbox)
      (sample_frame 2 2 1 (FFin 3)) 200) = Inr InAccepted"
    by (simp add: sample_inbox_value sample_run_defs)
  show "fr_agent_boot_id (sample_frame 2 2 1 (FFin 3)) \<noteq> [1]"
    by (simp add: sample_inbox_value sample_run_defs)
  show "fr_agent_boot_id (sample_frame 3 1 9 (FFin 4)) = [1]"
    by (simp add: sample_inbox_value sample_run_defs)
qed

text \<open>
  An accepted frame is the one the overlay sees next. It comes from the expected world and
  subject, on the open generation, with a sequence above the last one of the same boot; it
  becomes the pending event (replacing an undelivered one) with the frame's identity and the
  age bound and receive time given, and as soon as no control event is queued a poll returns it.
\<close>

lemma accepted_frame_is_delivered:
  assumes "fst (publish_position ib frame t) = Inr InAccepted"
  shows "\<exists>p. ib_pending_sample (snd (publish_position ib frame t)) = Some (Sample p)
    \<and> (ps_world_alias p, ps_subject_id p) = (ib_expected_world_alias ib, ib_expected_subject_id ib)
    \<and> ps_generation p = ib_generation ib \<and> ib_connected ib
    \<and> (ps_agent_boot_id p, ps_sequence p) = (fr_agent_boot_id frame, fr_sequence frame)
    \<and> ps_clock p = received_with_age (fr_age_upper_bound_ms frame) t
    \<and> (ib_active_boot_id ib = Some (ps_agent_boot_id p) \<longrightarrow>
          (\<forall>n. ib_last_sequence ib = Some n \<longrightarrow> n < ps_sequence p))
    \<and> (ControlQueue_pop (ib_pending_controls (snd (publish_position ib frame t))) = (None, q) \<longrightarrow>
          fst (server_agent_poll (snd (publish_position ib frame t)) now) = Inr (Some (Sample p)))"
proof -
  obtain ib0 where ib0: "publish_position ib frame t = publish_sequenced ib0 frame t"
    "ib_active_boot_id ib = Some (fr_agent_boot_id frame) \<Longrightarrow> ib0 = ib"
    using publish_position_accepted [OF assms] by auto
  obtain p where p: "PositionSample_new (fr_world_alias frame) (fr_subject_id frame)
      (fr_agent_boot_id frame) (fr_generation frame) (fr_sequence frame) (fr_x frame) (fr_y frame)
      (fr_z frame) (fr_heading_degrees frame)
      (received_with_age (fr_age_upper_bound_ms frame) t) = Inr p"
    "snd (publish_sequenced ib0 frame t) = publish_accepted ib0 frame t p"
    "\<forall>n. ib_last_sequence ib0 = Some n \<longrightarrow> n < fr_sequence frame"
    using assms unfolding ib0(1) by (rule publish_sequenced_accepted)
  have pending: "ib_pending_sample (snd (publish_position ib frame t)) = Some (Sample p)"
    by (simp add: ib0(1) p(2) publish_accepted_def Let_def)
  show ?thesis
    using publish_accepted_only [OF assms] PositionSample_new_Inr [OF p(1)] p(3) ib0(2) pending
    by (intro exI [of _ p]) (auto simp: server_agent_poll_def)
qed

lemma accepted_frame_is_delivered_example:
  "\<exists>p. ib_pending_sample (snd (publish_position (fold sender_effect session_of_boot_one sample_inbox)
      (sample_frame 2 1 6 (FFin 3)) 200)) = Some (Sample p) \<and> ps_sequence p = 6"
proof -
  have "fst (publish_position (fold sender_effect session_of_boot_one sample_inbox)
      (sample_frame 2 1 6 (FFin 3)) 200) = Inr InAccepted"
    by (simp add: sample_inbox_value sample_run_defs)
  note delivered = accepted_frame_is_delivered [OF this, of undefined undefined]
  have "fr_sequence (sample_frame 2 1 6 (FFin 3)) = 6" by (simp add: sample_frame_def)
  then show ?thesis using delivered by (metis prod.inject)
qed


end
