(* ===== verification/Telemetry_Wire.thy ===== *)
theory Telemetry_Wire
  imports Ieee_Float
begin

text \<open>
  Validation of the telemetry messages, \<open>crates/pal-telemetry/src/wire.rs\<close>, and the client
  allowlist, \<open>crates/pal-telemetry/src/identity.rs\<close>. The message types are those the build
  generates from \<open>proto/palcompanion/v2/telemetry.proto\<close>; the protobuf decoder, the X.509
  parser and SHA-256 are arguments of the functions that call them.
\<close>

section \<open>Messages\<close>

record GetDescriptorRequest =
  gdr_protocol_version :: u32

record ResumeCursor =
  cur_boot_id :: bytes
  cur_sequence :: u64

record SubscribeRequest =
  srq_protocol_version :: u32
  srq_world_alias :: string
  srq_subject_id :: bytes
  srq_resume :: "ResumeCursor option"

record ClockProbeRequest =
  cpq_protocol_version :: u32
  cpq_nonce :: bytes
  cpq_client_send_unix_ms :: i64

record ClockProbeResponse =
  cpr_nonce :: bytes
  cpr_client_send_unix_ms :: i64
  cpr_agent_receive_unix_ms :: i64
  cpr_agent_send_unix_ms :: i64

record GetDescriptorResponse =
  dsc_protocol_version :: u32
  dsc_agent_version :: string
  dsc_rest_server_version :: string
  dsc_server_fingerprint :: string
  dsc_gate_profile_sha256 :: string
  dsc_selected_interval_ms :: u32
  dsc_world_alias :: string
  dsc_coordinate_space :: i32
  dsc_coordinate_profile_sha256 :: string

record SubscribeResponse =
  env_protocol_version :: u32
  env_world_alias :: string
  env_subject_id :: bytes
  env_boot_id :: bytes
  env_sequence :: u64
  env_rest_completed_at_unix_ms :: i64
  env_age_at_emit_ms :: u32
  env_position_x :: fl
  env_position_y :: fl
  env_position_z :: fl
  env_heading_degrees :: "fl option"
  env_heading_source :: i32
  env_trace_id :: bytes
  env_coordinate_space :: i32
  env_coordinate_profile_sha256 :: string

datatype CoordinateSpace = CoordinateUnspecified | OfficialGameDataWorldV1

datatype HeadingSource = HeadingUnspecified | RotationZValidated | MotionVectorDiagnostic

definition CoordinateSpace_try_from :: "i32 \<Rightarrow> CoordinateSpace option" where
  "CoordinateSpace_try_from v =
     (if v = 0 then Some CoordinateUnspecified
      else if v = 1 then Some OfficialGameDataWorldV1 else None)"

definition HeadingSource_try_from :: "i32 \<Rightarrow> HeadingSource option" where
  "HeadingSource_try_from v =
     (if v = 0 then Some HeadingUnspecified
      else if v = 1 then Some RotationZValidated
      else if v = 2 then Some MotionVectorDiagnostic else None)"

definition PROTOCOL_VERSION :: u32 where
  "PROTOCOL_VERSION = 2"

definition MAX_DECODED_MESSAGE_SIZE :: nat where
  "MAX_DECODED_MESSAGE_SIZE = 64 * 1024"

section \<open>Field checks\<close>

datatype ValidationError =
    WireProtocolVersion | WireIdentity | WireCursor | WireSequence | WirePosition | WireHeading
  | WireTimestamp | WireDigest | WireGateInterval | WireCoordinateProfile | WireClockNonce
  | WireMessageTooLarge | WireDecode

definition validate_protocol :: "u32 \<Rightarrow> ValidationError + unit" where
  "validate_protocol version =
     (if version = PROTOCOL_VERSION then Inr () else Inl WireProtocolVersion)"

definition validate_world_alias :: "string \<Rightarrow> ValidationError + unit" where
  "validate_world_alias value =
     (if value \<noteq> [] \<and> length value \<le> 64 \<and> is_ascii value then Inr () else Inl WireIdentity)"

definition validate_len :: "bytes \<Rightarrow> nat \<Rightarrow> ValidationError + unit" where
  "validate_len value expected = (if length value = expected then Inr () else Inl WireIdentity)"

definition validate_timestamp :: "i64 \<Rightarrow> ValidationError + unit" where
  "validate_timestamp value = (if 0 < sint value then Inr () else Inl WireTimestamp)"

definition is_lower_hex :: "char \<Rightarrow> bool" where
  "is_lower_hex c = (is_ascii_digit c \<or> (let n = (of_char c :: nat) in 97 \<le> n \<and> n \<le> 102))"

definition validate_canonical_sha256 :: "string \<Rightarrow> ValidationError + unit" where
  "validate_canonical_sha256 value =
     (if length value = 64 \<and> list_all is_lower_hex value then Inr () else Inl WireDigest)"

definition validate_coordinate_binding :: "i32 \<Rightarrow> string \<Rightarrow> string \<Rightarrow> ValidationError + unit" where
  "validate_coordinate_binding space profile expected_profile =
     and_then (validate_canonical_sha256 expected_profile) (\<lambda>_.
       if CoordinateSpace_try_from space \<noteq> Some OfficialGameDataWorldV1
       then Inl WireCoordinateProfile
       else and_then (validate_canonical_sha256 profile) (\<lambda>_.
         if profile = expected_profile then Inr () else Inl WireCoordinateProfile))"

section \<open>Message checks\<close>

definition validate_descriptor_request :: "GetDescriptorRequest \<Rightarrow> ValidationError + unit" where
  "validate_descriptor_request value = validate_protocol (gdr_protocol_version value)"

definition validate_subscribe_request :: "SubscribeRequest \<Rightarrow> ValidationError + unit" where
  "validate_subscribe_request value =
     and_then (validate_protocol (srq_protocol_version value)) (\<lambda>_.
     and_then (validate_world_alias (srq_world_alias value)) (\<lambda>_.
     and_then (validate_len (srq_subject_id value) 32) (\<lambda>_.
       case srq_resume value of
         None \<Rightarrow> Inr ()
       | Some resume \<Rightarrow>
           and_then (validate_len (cur_boot_id resume) 16) (\<lambda>_.
             if cur_sequence resume = 0 then Inl WireCursor else Inr ()))))"

definition validate_clock_probe_request :: "ClockProbeRequest \<Rightarrow> ValidationError + unit" where
  "validate_clock_probe_request value =
     and_then (validate_protocol (cpq_protocol_version value)) (\<lambda>_.
       if length (cpq_nonce value) \<noteq> 16 then Inl WireClockNonce
       else validate_timestamp (cpq_client_send_unix_ms value))"

definition validate_clock_probe_response :: "ClockProbeResponse \<Rightarrow> ValidationError + unit" where
  "validate_clock_probe_response value =
     (if length (cpr_nonce value) \<noteq> 16 then Inl WireClockNonce
      else and_then (validate_timestamp (cpr_client_send_unix_ms value)) (\<lambda>_.
           and_then (validate_timestamp (cpr_agent_receive_unix_ms value)) (\<lambda>_.
           and_then (validate_timestamp (cpr_agent_send_unix_ms value)) (\<lambda>_.
             if sint (cpr_agent_send_unix_ms value) < sint (cpr_agent_receive_unix_ms value)
             then Inl WireTimestamp else Inr ()))))"

definition validate_descriptor :: "GetDescriptorResponse \<Rightarrow> string \<Rightarrow> ValidationError + unit" where
  "validate_descriptor value expected =
     and_then (validate_protocol (dsc_protocol_version value)) (\<lambda>_.
     and_then (validate_world_alias (dsc_world_alias value)) (\<lambda>_.
       if dsc_agent_version value = [] \<or> dsc_rest_server_version value = [] then Inl WireIdentity
       else
         and_then (validate_canonical_sha256 (dsc_server_fingerprint value)) (\<lambda>_.
         and_then (validate_canonical_sha256 (dsc_gate_profile_sha256 value)) (\<lambda>_.
           if dsc_selected_interval_ms value \<notin> {2000, 1000, 500} then Inl WireGateInterval
           else validate_coordinate_binding (dsc_coordinate_space value)
                  (dsc_coordinate_profile_sha256 value) expected))))"

definition validate_heading :: "fl option \<Rightarrow> HeadingSource option \<Rightarrow> ValidationError + unit" where
  "validate_heading heading source =
     (case (heading, source) of
        (None, Some HeadingUnspecified) \<Rightarrow> Inr ()
      | (Some h, Some src) \<Rightarrow>
          if fl_is_finite h \<and> fl_in_half_open (FFin 0) (FFin 360) h \<and> src \<noteq> HeadingUnspecified
          then Inr () else Inl WireHeading
      | _ \<Rightarrow> Inl WireHeading)"

definition validate_envelope :: "SubscribeResponse \<Rightarrow> string \<Rightarrow> ValidationError + unit" where
  "validate_envelope value expected =
     and_then (validate_protocol (env_protocol_version value)) (\<lambda>_.
     and_then (validate_world_alias (env_world_alias value)) (\<lambda>_.
     and_then (validate_len (env_subject_id value) 32) (\<lambda>_.
     and_then (validate_len (env_boot_id value) 16) (\<lambda>_.
     and_then (validate_len (env_trace_id value) 16) (\<lambda>_.
       if env_sequence value = 0 then Inl WireSequence
       else and_then (validate_timestamp (env_rest_completed_at_unix_ms value)) (\<lambda>_.
         if \<not> fl_is_finite (env_position_x value) \<or> \<not> fl_is_finite (env_position_y value)
            \<or> \<not> fl_is_finite (env_position_z value)
         then Inl WirePosition
         else and_then (validate_heading (env_heading_degrees value)
                          (HeadingSource_try_from (env_heading_source value))) (\<lambda>_.
           validate_coordinate_binding (env_coordinate_space value)
             (env_coordinate_profile_sha256 value) expected)))))))"

text \<open>\<open>decode\<close> is the generated protobuf decoder.\<close>

definition decode_envelope ::
  "(bytes \<Rightarrow> 'e + SubscribeResponse) \<Rightarrow> bytes \<Rightarrow> ValidationError + SubscribeResponse" where
  "decode_envelope decode bs =
     (if MAX_DECODED_MESSAGE_SIZE < length bs then Inl WireMessageTooLarge
      else map_err (\<lambda>_. WireDecode) (decode bs))"

section \<open>Client identities\<close>

datatype IdentityError = InvalidConfiguration | InvalidCertificate | NotAllowlisted

record AllowlistEntry =
  al_fingerprint_sha256 :: string
  al_identity_uri :: string
  al_world_alias :: string
  al_subject_id :: bytes
  al_revoked :: bool

definition starts_with :: "string \<Rightarrow> string \<Rightarrow> bool" where
  "starts_with s prefix = (take (length prefix) s = prefix)"

definition AllowlistEntry_new ::
  "string \<Rightarrow> string \<Rightarrow> string \<Rightarrow> bytes \<Rightarrow> IdentityError + AllowlistEntry" where
  "AllowlistEntry_new fingerprint uri alias subject =
     (if length subject \<noteq> 32 then Inl InvalidConfiguration
      else if isl (validate_canonical_sha256 fingerprint) \<or> \<not> is_ascii uri
        \<or> \<not> starts_with uri ''spiffe://'' \<or> alias = [] \<or> 64 < length alias \<or> \<not> is_ascii alias
      then Inl InvalidConfiguration
      else Inr \<lparr>al_fingerprint_sha256 = fingerprint, al_identity_uri = uri,
                al_world_alias = alias, al_subject_id = subject, al_revoked = False\<rparr>)"

definition AllowlistEntry_revoked :: "AllowlistEntry \<Rightarrow> AllowlistEntry" where
  "AllowlistEntry_revoked e = e\<lparr>al_revoked := True\<rparr>"

record ClientAllowlist =
  cal_entries :: "AllowlistEntry list"

text \<open>
  The X.509 parser is the argument \<open>san\<close>: the subject-alternative names of a certificate,
  \<open>None\<close> when it or the extension does not parse, \<open>Some None\<close> when the extension is absent.
  SHA-256 is the argument \<open>sha256\<close>.
\<close>

datatype GeneralName = GnURI string | GnOther

type_synonym san_parser = "bytes \<Rightarrow> GeneralName list option option"

definition hex_digit :: "nat \<Rightarrow> char" where
  "hex_digit n = char_of (if n < 10 then 48 + n else 87 + n)"

definition hex_byte :: "u8 \<Rightarrow> string" where
  "hex_byte b = [hex_digit (unat b div 16), hex_digit (unat b mod 16)]"

definition certificate_sha256 :: "(bytes \<Rightarrow> bytes) \<Rightarrow> bytes \<Rightarrow> string" where
  "certificate_sha256 sha256 der = foldl (\<lambda>output byte. output @ hex_byte byte) [] (sha256 der)"

fun general_name_uri :: "GeneralName \<Rightarrow> string option" where
  "general_name_uri (GnURI uri) = Some uri"
| "general_name_uri GnOther = None"

definition certificate_identity ::
  "san_parser \<Rightarrow> (bytes \<Rightarrow> bytes) \<Rightarrow> bytes \<Rightarrow> IdentityError + (string \<times> string list)" where
  "certificate_identity san sha256 der =
     (case san der of
        Some (Some names) \<Rightarrow>
          (let uris = List.map_filter general_name_uri names in
           if uris = [] then Inl InvalidCertificate else Inr (certificate_sha256 sha256 der, uris))
      | _ \<Rightarrow> Inl InvalidCertificate)"

definition authorize_world ::
  "san_parser \<Rightarrow> (bytes \<Rightarrow> bytes) \<Rightarrow> ClientAllowlist \<Rightarrow> bytes \<Rightarrow> string \<Rightarrow> IdentityError + unit" where
  "authorize_world san sha256 allow certificate alias =
     and_then (certificate_identity san sha256 certificate) (\<lambda>(fingerprint, uris).
       if list_ex (\<lambda>e. al_revoked e \<and> al_fingerprint_sha256 e = fingerprint) (cal_entries allow)
       then Inl NotAllowlisted
       else if list_ex (\<lambda>e. \<not> al_revoked e \<and> al_fingerprint_sha256 e = fingerprint
                 \<and> list_ex (\<lambda>uri. uri = al_identity_uri e) uris \<and> al_world_alias e = alias)
              (cal_entries allow)
       then Inr () else Inl NotAllowlisted)"

definition authorize_pair ::
  "san_parser \<Rightarrow> (bytes \<Rightarrow> bytes) \<Rightarrow> ClientAllowlist \<Rightarrow> bytes \<Rightarrow> string \<Rightarrow> bytes \<Rightarrow> IdentityError + unit" where
  "authorize_pair san sha256 allow certificate alias subject =
     and_then (certificate_identity san sha256 certificate) (\<lambda>(fingerprint, uris).
       if list_ex (\<lambda>e. al_revoked e \<and> al_fingerprint_sha256 e = fingerprint) (cal_entries allow)
       then Inl NotAllowlisted
       else if list_ex (\<lambda>e. \<not> al_revoked e \<and> al_fingerprint_sha256 e = fingerprint
                 \<and> list_ex (\<lambda>uri. uri = al_identity_uri e) uris \<and> al_world_alias e = alias
                 \<and> al_subject_id e = subject)
              (cal_entries allow)
       then Inr () else Inl NotAllowlisted)"

section \<open>What the checks accept\<close>

definition sha256_text :: "string \<Rightarrow> bool" where
  "sha256_text s \<longleftrightarrow> length s = 64 \<and> list_all is_lower_hex s"

definition alias_ok :: "string \<Rightarrow> bool" where
  "alias_ok s \<longleftrightarrow> s \<noteq> [] \<and> length s \<le> 64 \<and> is_ascii s"

lemma field_checks_Inr [simp]:
  "validate_protocol v = Inr u \<longleftrightarrow> v = PROTOCOL_VERSION"
  "validate_world_alias s = Inr u \<longleftrightarrow> alias_ok s"
  "validate_len b n = Inr u \<longleftrightarrow> length b = n"
  "validate_timestamp t = Inr u \<longleftrightarrow> 0 < sint t"
  "validate_canonical_sha256 s = Inr u \<longleftrightarrow> sha256_text s"
  by (simp_all add: validate_protocol_def validate_world_alias_def validate_len_def
      validate_timestamp_def validate_canonical_sha256_def alias_ok_def sha256_text_def)

lemma validate_coordinate_binding_Inr [simp]:
  "validate_coordinate_binding space profile expected = Inr u \<longleftrightarrow>
     space = 1 \<and> profile = expected \<and> sha256_text expected"
  by (auto simp: validate_coordinate_binding_def and_then_eq_Inr CoordinateSpace_try_from_def)

lemma validate_heading_Inr:
  "validate_heading h (HeadingSource_try_from src) = Inr u \<longleftrightarrow>
     (case h of None \<Rightarrow> src = 0
      | Some v \<Rightarrow> src \<in> {1, 2} \<and> (\<exists>q. v = FFin q \<and> 0 \<le> q \<and> q < 360))"
proof (cases h)
  case (Some v)
  then show ?thesis
    by (cases v) (auto simp: validate_heading_def HeadingSource_try_from_def fl_in_half_open_def)
qed (auto simp: validate_heading_def HeadingSource_try_from_def)

lemma hex_digit_lower: "n < 16 \<Longrightarrow> is_lower_hex (hex_digit n)"
  by (auto simp: hex_digit_def is_lower_hex_def is_ascii_digit_def Let_def)

lemma hex_byte_lower: "list_all is_lower_hex (hex_byte b)"
proof -
  have "unat b < 256" using unat_less_pow [of b] by simp
  then have "unat b div 16 < 16" by (simp add: less_mult_imp_div_less)
  then show ?thesis by (simp add: hex_byte_def hex_digit_lower)
qed

lemma hex_digit_inject: "m < 16 \<Longrightarrow> n < 16 \<Longrightarrow> hex_digit m = hex_digit n \<longleftrightarrow> m = n"
  by (auto simp: hex_digit_def char_of_eq_iff take_bit_nat_eq_self split: if_splits)

lemma hex_byte_inject: "hex_byte a @ xs = hex_byte b @ ys \<longleftrightarrow> a = b \<and> xs = ys"
proof -
  have bound: "unat c < 256" for c :: u8 using unat_less_pow [of c] by simp
  have digits: "unat c div 16 < 16" for c :: u8
    using bound [of c] by (simp add: less_mult_imp_div_less)
  have "unat a = unat b" if "unat a div 16 = unat b div 16" "unat a mod 16 = unat b mod 16"
    using that by (metis div_mult_mod_eq)
  then show ?thesis by (auto simp: hex_byte_def hex_digit_inject digits word_unat_eq_iff)
qed

lemma certificate_sha256_concat: "certificate_sha256 sha256 der = concat (map hex_byte (sha256 der))"
proof -
  have "foldl (\<lambda>output byte. output @ hex_byte byte) acc bs = acc @ concat (map hex_byte bs)" for acc bs
    by (induction bs arbitrary: acc) auto
  then show ?thesis by (simp add: certificate_sha256_def)
qed

section \<open>Properties\<close>

text \<open>
  A certificate fingerprint is a digest an allowlist entry can hold: the 32 bytes SHA-256
  returns print as 64 lower-case hexadecimal digits, the form entries are required to have,
  and two certificates with the same fingerprint text have the same digest.
\<close>

lemma certificate_sha256_canonical:
  assumes "\<forall>m. length (sha256 m) = 32"
  shows "validate_canonical_sha256 (certificate_sha256 sha256 der) = Inr ()
    \<and> (certificate_sha256 sha256 der = certificate_sha256 sha256 der' \<longrightarrow> sha256 der = sha256 der')"
proof -
  have len: "length (concat (map hex_byte bs)) = 2 * length bs" for bs
    by (induction bs) (simp_all add: hex_byte_def)
  have "list_all is_lower_hex (concat (map hex_byte bs))" for bs
    using hex_byte_lower by (auto simp: list_all_iff)
  moreover have "concat (map hex_byte xs) = concat (map hex_byte ys) \<Longrightarrow>
      length xs = length ys \<Longrightarrow> xs = ys" for xs ys
    by (induction xs ys rule: list_induct2') (auto simp: hex_byte_inject)
  ultimately show ?thesis
    using assms by (auto simp: certificate_sha256_concat sha256_text_def len)
qed

lemma certificate_sha256_canonical_example:
  "validate_canonical_sha256 (certificate_sha256 (\<lambda>_. replicate 32 0xa7) [48]) = Inr ()"
  using certificate_sha256_canonical [of "\<lambda>_. replicate 32 0xa7" "[48]"] by simp

text \<open>
  An envelope is accepted exactly when every field is in range: the protocol version is
  the current one, the alias is short ASCII, the identifiers have their fixed lengths, the
  sequence and the timestamp are positive, the coordinates are finite, a heading is present
  exactly with a heading source and then lies in [0, 360), and the coordinate profile is the
  expected digest in canonical form.
\<close>

lemma validate_envelope_accepts_iff:
  "validate_envelope v expected = Inr () \<longleftrightarrow>
     env_protocol_version v = PROTOCOL_VERSION \<and> alias_ok (env_world_alias v)
     \<and> length (env_subject_id v) = 32 \<and> length (env_boot_id v) = 16 \<and> length (env_trace_id v) = 16
     \<and> env_sequence v \<noteq> 0 \<and> 0 < sint (env_rest_completed_at_unix_ms v)
     \<and> list_all fl_is_finite [env_position_x v, env_position_y v, env_position_z v]
     \<and> (case env_heading_degrees v of None \<Rightarrow> env_heading_source v = 0
        | Some h \<Rightarrow> env_heading_source v \<in> {1, 2} \<and> (\<exists>q. h = FFin q \<and> 0 \<le> q \<and> q < 360))
     \<and> env_coordinate_space v = 1 \<and> env_coordinate_profile_sha256 v = expected
     \<and> sha256_text expected"
  unfolding validate_envelope_def and_then_eq_Inr
  by (auto simp: and_then_eq_Inr validate_heading_Inr split: if_splits)

text \<open>
  Revocation wins: once an entry with the certificate's fingerprint is revoked, the
  certificate is authorised for nothing; and authorisation for a world and subject never
  grants more than authorisation for the world.
\<close>

lemma revoked_certificate_refused:
  assumes "certificate_identity san sha256 cert = Inr (fingerprint, uris)"
  shows "case authorize_pair san sha256 allow cert alias subject of
     Inr _ \<Rightarrow> authorize_world san sha256 allow cert alias = Inr ()
        \<and> (\<forall>e \<in> set (cal_entries allow). al_fingerprint_sha256 e = fingerprint \<longrightarrow> \<not> al_revoked e)
        \<and> (\<exists>e \<in> set (cal_entries allow). al_fingerprint_sha256 e = fingerprint
             \<and> al_identity_uri e \<in> set uris \<and> al_world_alias e = alias \<and> al_subject_id e = subject)
   | Inl err \<Rightarrow> err = NotAllowlisted"
  using assms by (fastforce simp: authorize_pair_def authorize_world_def list_ex_iff)

definition sample_allowlist :: ClientAllowlist where
  "sample_allowlist =
     \<lparr>cal_entries = [\<lparr>al_fingerprint_sha256 = certificate_sha256 (\<lambda>_. replicate 32 0xa7) [48],
        al_identity_uri = ''spiffe://a'', al_world_alias = ''w'', al_subject_id = [1],
        al_revoked = False\<rparr>]\<rparr>"

lemma revoked_certificate_refused_example:
  "authorize_world (\<lambda>_. Some (Some [GnURI ''spiffe://a''])) (\<lambda>_. replicate 32 0xa7)
     sample_allowlist [48] ''w'' = Inr ()"
proof -
  let ?san = "\<lambda>_. Some (Some [GnURI ''spiffe://a''])" and ?sha = "\<lambda>_. replicate 32 0xa7"
  have "certificate_identity ?san ?sha [48] =
      Inr (certificate_sha256 ?sha [48], [''spiffe://a''])"
    by (simp add: certificate_identity_def map_filter_simps)
  from revoked_certificate_refused [OF this, of sample_allowlist "''w''" "[1]"] this show ?thesis
    by (simp add: authorize_pair_def sample_allowlist_def)
qed

end
