(* ===== verification/Telemetry_Latest.thy ===== *)
theory Telemetry_Latest
  imports Telemetry_Wire Boot_Filter
begin

text \<open>
  The agent's side of the telemetry: the latest-value cell
  (\<open>crates/pal-telemetry/src/cursor.rs\<close>) and the gRPC endpoint that serves it
  (\<open>crates/pal-telemetry/src/server.rs\<close>). The mutex makes every operation one transition of
  the record, and the value of the watch channel is a component of it; what a subscriber sees
  is the list of values it reads from the channel, which may skip and repeat values.
\<close>

section \<open>The sequence cursor\<close>

datatype SequenceDecision = SeqAccept | SeqAcceptWithGap u64 | SeqDropDuplicate | SeqDropOutOfOrder

record SequenceDiagnostics =
  sqd_gap_events :: u64
  sqd_missing_sequences :: u64
  sqd_duplicate_drops :: u64
  sqd_out_of_order_drops :: u64

record SequenceCursor =
  sqc_boot_id :: bytes
  sqc_last_sequence :: "u64 option"
  sqc_diagnostics :: SequenceDiagnostics

definition SequenceCursor_new :: "bytes \<Rightarrow> SequenceCursor" where
  "SequenceCursor_new boot_id =
     \<lparr>sqc_boot_id = boot_id, sqc_last_sequence = None,
      sqc_diagnostics = \<lparr>sqd_gap_events = 0, sqd_missing_sequences = 0, sqd_duplicate_drops = 0,
                         sqd_out_of_order_drops = 0\<rparr>\<rparr>"

definition SequenceCursor_decide :: "SequenceCursor \<Rightarrow> u64 \<Rightarrow> SequenceDecision \<times> SequenceCursor" where
  "SequenceCursor_decide c sequence =
     (case sqc_last_sequence c of
        None \<Rightarrow> (SeqAccept, c\<lparr>sqc_last_sequence := Some sequence\<rparr>)
      | Some previous \<Rightarrow>
          let d = sqc_diagnostics c in
          if sequence = previous then
            (SeqDropDuplicate,
             c\<lparr>sqc_diagnostics := d\<lparr>sqd_duplicate_drops := sat_add (sqd_duplicate_drops d) 1\<rparr>\<rparr>)
          else if sequence < previous then
            (SeqDropOutOfOrder,
             c\<lparr>sqc_diagnostics := d\<lparr>sqd_out_of_order_drops := sat_add (sqd_out_of_order_drops d) 1\<rparr>\<rparr>)
          else
            let c' = c\<lparr>sqc_last_sequence := Some sequence\<rparr>;
                missing = sat_sub (sat_sub sequence previous) 1 in
            if missing = 0 then (SeqAccept, c')
            else (SeqAcceptWithGap missing,
                  c'\<lparr>sqc_diagnostics := d\<lparr>sqd_gap_events := sat_add (sqd_gap_events d) 1,
                       sqd_missing_sequences := sat_add (sqd_missing_sequences d) missing\<rparr>\<rparr>))"

section \<open>The latest value\<close>

datatype LatestConnectOutcome = LcAccepted | LcDropped | LcOldGenerationDropped

datatype LatestPublishOutcome =
    LpAccepted | LpAcceptedWithGap u64 | LpDuplicateDropped | LpOutOfOrderDropped
  | LpOldGenerationDropped | LpRetiredBootDropped | LpIdentityMismatchDropped
  | LpBootMismatchDropped | LpInvalidTransitionDropped

record LatestDiagnostics =
  ld_accepted_samples :: u64
  ld_gap_events :: u64
  ld_missing_sequences :: u64
  ld_duplicate_drops :: u64
  ld_out_of_order_drops :: u64
  ld_old_generation_drops :: u64
  ld_retired_boot_drops :: u64
  ld_identity_mismatch_drops :: u64
  ld_boot_mismatch_drops :: u64
  ld_invalid_transition_drops :: u64

definition LatestDiagnostics_default :: LatestDiagnostics where
  "LatestDiagnostics_default =
     \<lparr>ld_accepted_samples = 0, ld_gap_events = 0, ld_missing_sequences = 0, ld_duplicate_drops = 0,
      ld_out_of_order_drops = 0, ld_old_generation_drops = 0, ld_retired_boot_drops = 0,
      ld_identity_mismatch_drops = 0, ld_boot_mismatch_drops = 0, ld_invalid_transition_drops = 0\<rparr>"

datatype LatestTelemetryError = LatestValidation | LatestClosed

datatype LatestSignal = SigOpen "SubscribeResponse option" | SigClosed

record LatestTelemetry =
  lt_expected_world_alias :: string
  lt_expected_subject_id :: bytes
  lt_expected_profile :: string
  lt_closed :: bool
  lt_generation :: u64
  lt_active_boot_id :: "bytes option"
  lt_last_sequence :: "u64 option"
  lt_retired_boots :: LatestBootFilter
  lt_diagnostics :: LatestDiagnostics
  lt_signal :: LatestSignal

text \<open>The envelope \<open>new\<close> validates to check its own configuration.\<close>

definition latest_validation_sample :: "string \<Rightarrow> bytes \<Rightarrow> string \<Rightarrow> SubscribeResponse" where
  "latest_validation_sample alias subject profile =
     \<lparr>env_protocol_version = PROTOCOL_VERSION, env_world_alias = alias, env_subject_id = subject,
      env_boot_id = replicate 16 0, env_sequence = 1, env_rest_completed_at_unix_ms = 1,
      env_age_at_emit_ms = 0, env_position_x = FFin 0, env_position_y = FFin 0,
      env_position_z = FFin 0, env_heading_degrees = None, env_heading_source = 0,
      env_trace_id = replicate 16 0, env_coordinate_space = 1,
      env_coordinate_profile_sha256 = profile\<rparr>"

definition LatestTelemetry_new ::
  "string \<Rightarrow> bytes \<Rightarrow> string \<Rightarrow> LatestTelemetryError + LatestTelemetry" where
  "LatestTelemetry_new alias subject profile =
     (if length subject \<noteq> 32 then Inl LatestValidation
      else and_then (map_err (\<lambda>_. LatestValidation)
             (validate_envelope (latest_validation_sample alias subject profile) profile)) (\<lambda>_.
        Inr \<lparr>lt_expected_world_alias = alias, lt_expected_subject_id = subject,
             lt_expected_profile = profile, lt_closed = False, lt_generation = 0,
             lt_active_boot_id = None, lt_last_sequence = None,
             lt_retired_boots = LatestBootFilter_default,
             lt_diagnostics = LatestDiagnostics_default, lt_signal = SigOpen None\<rparr>))"

definition LatestTelemetry_connect ::
  "LatestTelemetry \<Rightarrow> u64 \<Rightarrow> LatestConnectOutcome \<times> LatestTelemetry" where
  "LatestTelemetry_connect lt generation =
     (if lt_closed lt then (LcDropped, lt)
      else if generation = 0 \<or> generation = lt_generation lt then (LcDropped, lt)
      else if generation < lt_generation lt then
        (LcOldGenerationDropped,
         lt\<lparr>lt_diagnostics := (lt_diagnostics lt)
              \<lparr>ld_old_generation_drops := sat_add (ld_old_generation_drops (lt_diagnostics lt)) 1\<rparr>\<rparr>)
      else
        (LcAccepted,
         lt\<lparr>lt_retired_boots := (case lt_active_boot_id lt of
               Some boot_id \<Rightarrow> LatestBootFilter_insert (lt_retired_boots lt) boot_id
             | None \<Rightarrow> lt_retired_boots lt),
            lt_active_boot_id := None, lt_generation := generation, lt_last_sequence := None,
            lt_signal := SigOpen None\<rparr>))"

text \<open>The tail of \<open>publish\<close>: the accepted value is recorded and becomes visible.\<close>

definition latest_accept ::
  "LatestTelemetry \<Rightarrow> SubscribeResponse \<Rightarrow> LatestDiagnostics \<Rightarrow> LatestTelemetry" where
  "latest_accept lt value d =
     lt\<lparr>lt_active_boot_id := Some (env_boot_id value),
        lt_last_sequence := Some (env_sequence value),
        lt_diagnostics := d\<lparr>ld_accepted_samples := sat_add (ld_accepted_samples d) 1\<rparr>,
        lt_signal := SigOpen (Some value)\<rparr>"

text \<open>The sequence test of \<open>publish\<close>, the \<open>match\<close> on the last sequence number.\<close>

definition latest_publish_sequenced ::
  "LatestTelemetry \<Rightarrow> SubscribeResponse
     \<Rightarrow> (LatestTelemetryError + LatestPublishOutcome) \<times> LatestTelemetry" where
  "latest_publish_sequenced lt value =
     (let d = lt_diagnostics lt in
      case lt_last_sequence lt of
        None \<Rightarrow> (Inr LpAccepted, latest_accept lt value d)
      | Some previous \<Rightarrow>
          if env_sequence value = previous
          then (Inr LpDuplicateDropped, lt\<lparr>lt_diagnostics := d
                 \<lparr>ld_duplicate_drops := sat_add (ld_duplicate_drops d) 1\<rparr>\<rparr>)
          else if env_sequence value < previous
          then (Inr LpOutOfOrderDropped, lt\<lparr>lt_diagnostics := d
                 \<lparr>ld_out_of_order_drops := sat_add (ld_out_of_order_drops d) 1\<rparr>\<rparr>)
          else if sat_add previous 1 < env_sequence value
          then (let missing = sat_sub (sat_sub (env_sequence value) previous) 1 in
                (Inr (LpAcceptedWithGap missing),
                 latest_accept lt value
                   (d\<lparr>ld_gap_events := sat_add (ld_gap_events d) 1,
                      ld_missing_sequences := sat_add (ld_missing_sequences d) missing\<rparr>)))
          else (Inr LpAccepted, latest_accept lt value d))"

definition LatestTelemetry_publish ::
  "LatestTelemetry \<Rightarrow> u64 \<Rightarrow> SubscribeResponse
     \<Rightarrow> (LatestTelemetryError + LatestPublishOutcome) \<times> LatestTelemetry" where
  "LatestTelemetry_publish lt generation value =
     (case validate_envelope value (lt_expected_profile lt) of
        Inl _ \<Rightarrow> (Inl LatestValidation, lt)
      | Inr _ \<Rightarrow>
        let d = lt_diagnostics lt in
        if lt_closed lt then (Inl LatestClosed, lt)
        else if env_world_alias value \<noteq> lt_expected_world_alias lt
             \<or> env_subject_id value \<noteq> lt_expected_subject_id lt
        then (Inr LpIdentityMismatchDropped, lt\<lparr>lt_diagnostics := d
               \<lparr>ld_identity_mismatch_drops := sat_add (ld_identity_mismatch_drops d) 1\<rparr>\<rparr>)
        else if generation = 0
        then (Inr LpInvalidTransitionDropped, lt\<lparr>lt_diagnostics := d
               \<lparr>ld_invalid_transition_drops := sat_add (ld_invalid_transition_drops d) 1\<rparr>\<rparr>)
        else if generation < lt_generation lt
        then (Inr LpOldGenerationDropped, lt\<lparr>lt_diagnostics := d
               \<lparr>ld_old_generation_drops := sat_add (ld_old_generation_drops d) 1\<rparr>\<rparr>)
        else if generation \<noteq> lt_generation lt
        then (Inr LpInvalidTransitionDropped, lt\<lparr>lt_diagnostics := d
               \<lparr>ld_invalid_transition_drops := sat_add (ld_invalid_transition_drops d) 1\<rparr>\<rparr>)
        else if length (env_boot_id value) \<noteq> 16 then (Inl LatestValidation, lt)
        else if LatestBootFilter_contains (lt_retired_boots lt) (env_boot_id value)
        then (Inr LpRetiredBootDropped, lt\<lparr>lt_diagnostics := d
               \<lparr>ld_retired_boot_drops := sat_add (ld_retired_boot_drops d) 1\<rparr>\<rparr>)
        else if (case lt_active_boot_id lt of Some b \<Rightarrow> b \<noteq> env_boot_id value | None \<Rightarrow> False)
        then (Inr LpBootMismatchDropped, lt\<lparr>lt_diagnostics := d
               \<lparr>ld_boot_mismatch_drops := sat_add (ld_boot_mismatch_drops d) 1\<rparr>\<rparr>)
        else latest_publish_sequenced lt value)"

definition LatestTelemetry_current :: "LatestTelemetry \<Rightarrow> SubscribeResponse option" where
  "LatestTelemetry_current lt = (case lt_signal lt of SigOpen value \<Rightarrow> value | SigClosed \<Rightarrow> None)"

definition buffered_state_count :: "LatestTelemetry \<Rightarrow> nat" where
  "buffered_state_count lt = (case lt_signal lt of SigOpen (Some _) \<Rightarrow> 1 | _ \<Rightarrow> 0)"

definition LatestTelemetry_close :: "LatestTelemetry \<Rightarrow> LatestTelemetry" where
  "LatestTelemetry_close lt = lt\<lparr>lt_closed := True, lt_signal := SigClosed\<rparr>"

definition is_bound_to :: "LatestTelemetry \<Rightarrow> string \<Rightarrow> bytes \<Rightarrow> string \<Rightarrow> bool" where
  "is_bound_to lt alias subject profile =
     (lt_expected_world_alias lt = alias \<and> lt_expected_subject_id lt = subject
      \<and> lt_expected_profile lt = profile)"

definition cursor_needs_current :: "ResumeCursor option \<Rightarrow> SubscribeResponse \<Rightarrow> bool" where
  "cursor_needs_current resume current =
     (case resume of
        None \<Rightarrow> True
      | Some r \<Rightarrow> cur_boot_id r \<noteq> env_boot_id current \<or> cur_sequence r < env_sequence current)"

text \<open>
  \<open>next_after\<close> over the values it reads from the channel; \<open>None\<close> while it still waits. The
  values it has not read are returned beside the result.
\<close>

fun next_after :: "ResumeCursor option \<Rightarrow> LatestSignal list
    \<Rightarrow> (LatestTelemetryError + SubscribeResponse) option \<times> LatestSignal list" where
  "next_after resume [] = (None, [])"
| "next_after resume (SigClosed # seen) = (Some (Inl LatestClosed), seen)"
| "next_after resume (SigOpen None # seen) = next_after resume seen"
| "next_after resume (SigOpen (Some value) # seen) =
     (if cursor_needs_current resume value then (Some (Inr value), seen) else next_after resume seen)"

lemma next_after_shorter: "next_after resume seen = (Some r, rest) \<Longrightarrow> length rest < length seen"
  by (induction resume seen rule: next_after.induct) (auto split: if_splits)

section \<open>The endpoint\<close>

datatype Status = PermissionDenied | InvalidArgument | StatusUnavailable | StatusInternal

record PositionTelemetryEndpoint =
  ep_descriptor :: GetDescriptorResponse
  ep_profile :: string
  ep_latest :: LatestTelemetry
  ep_allowlist :: ClientAllowlist

datatype ServiceBuildError = ServiceInvalidConfiguration

definition PositionTelemetryEndpoint_new ::
  "GetDescriptorResponse \<Rightarrow> string \<Rightarrow> LatestTelemetry \<Rightarrow> ClientAllowlist
     \<Rightarrow> ServiceBuildError + PositionTelemetryEndpoint" where
  "PositionTelemetryEndpoint_new descriptor profile latest allowlist =
     and_then (map_err (\<lambda>_. ServiceInvalidConfiguration) (validate_descriptor descriptor profile)) (\<lambda>_.
       Inr \<lparr>ep_descriptor = descriptor, ep_profile = profile, ep_latest = latest,
            ep_allowlist = allowlist\<rparr>)"

text \<open>The peer certificates of a request: no TLS information, no certificates, or their list.\<close>

definition certificate_der :: "bytes list option option \<Rightarrow> Status + bytes" where
  "certificate_der peer =
     (case peer of
        Some (Some (certificate # _)) \<Rightarrow> Inr certificate
      | _ \<Rightarrow> Inl PermissionDenied)"

definition get_descriptor ::
  "san_parser \<Rightarrow> (bytes \<Rightarrow> bytes) \<Rightarrow> PositionTelemetryEndpoint \<Rightarrow> bytes list option option
     \<Rightarrow> GetDescriptorRequest \<Rightarrow> Status + GetDescriptorResponse" where
  "get_descriptor san sha256 ep peer request =
     and_then (certificate_der peer) (\<lambda>certificate.
     and_then (map_err (\<lambda>_. PermissionDenied)
       (authorize_world san sha256 (ep_allowlist ep) certificate
          (dsc_world_alias (ep_descriptor ep)))) (\<lambda>_.
     and_then (map_err (\<lambda>_. InvalidArgument) (validate_descriptor_request request)) (\<lambda>_.
       Inr (ep_descriptor ep))))"

text \<open>The checks of \<open>subscribe\<close> before it answers with a stream.\<close>

definition subscribe_checks ::
  "san_parser \<Rightarrow> (bytes \<Rightarrow> bytes) \<Rightarrow> PositionTelemetryEndpoint \<Rightarrow> bytes list option option
     \<Rightarrow> SubscribeRequest \<Rightarrow> Status + unit" where
  "subscribe_checks san sha256 ep peer request =
     and_then (certificate_der peer) (\<lambda>certificate.
     and_then (map_err (\<lambda>_. InvalidArgument) (validate_subscribe_request request)) (\<lambda>_.
     and_then (map_err (\<lambda>_. PermissionDenied)
       (authorize_pair san sha256 (ep_allowlist ep) certificate (srq_world_alias request)
          (srq_subject_id request))) (\<lambda>_.
       if srq_world_alias request \<noteq> dsc_world_alias (ep_descriptor ep) then Inl PermissionDenied
       else if \<not> is_bound_to (ep_latest ep) (srq_world_alias request) (srq_subject_id request)
                 (ep_profile ep)
       then Inl PermissionDenied else Inr ())))"

text \<open>
  The stream of \<open>subscribe\<close>: the values it yields and how it ends, \<open>None\<close> while it waits.
\<close>

function subscribe_stream ::
  "string \<Rightarrow> string \<Rightarrow> bytes \<Rightarrow> ResumeCursor option \<Rightarrow> LatestSignal list
     \<Rightarrow> SubscribeResponse list \<times> Status option" where
  "subscribe_stream profile alias subject resume seen =
     (case next_after resume seen of
        (None, _) \<Rightarrow> ([], None)
      | (Some (Inl _), _) \<Rightarrow> ([], Some StatusUnavailable)
      | (Some (Inr value), rest) \<Rightarrow>
          if isl (validate_envelope value profile) then ([], Some InvalidArgument)
          else if env_world_alias value \<noteq> alias \<or> env_subject_id value \<noteq> subject
          then ([], Some StatusUnavailable)
          else
            let (yielded, end_status) = subscribe_stream profile alias subject
                  (Some \<lparr>cur_boot_id = env_boot_id value, cur_sequence = env_sequence value\<rparr>) rest
            in (value # yielded, end_status))"
  by pat_completeness auto
termination
  by (relation "measure (\<lambda>(_, _, _, _, seen). length seen)") (auto dest: next_after_shorter [OF sym])

declare subscribe_stream.simps [simp del]

text \<open>\<open>receive\<close> and \<open>send\<close> are the two readings of the system clock, \<open>None\<close> when it fails.\<close>

definition endpoint_clock_probe ::
  "san_parser \<Rightarrow> (bytes \<Rightarrow> bytes) \<Rightarrow> i64 option \<Rightarrow> i64 option \<Rightarrow> PositionTelemetryEndpoint
     \<Rightarrow> bytes list option option \<Rightarrow> ClockProbeRequest \<Rightarrow> Status + ClockProbeResponse" where
  "endpoint_clock_probe san sha256 receive send ep peer request =
     and_then (certificate_der peer) (\<lambda>certificate.
     and_then (map_err (\<lambda>_. PermissionDenied)
       (authorize_world san sha256 (ep_allowlist ep) certificate
          (dsc_world_alias (ep_descriptor ep)))) (\<lambda>_.
     and_then (map_err (\<lambda>_. InvalidArgument) (validate_clock_probe_request request)) (\<lambda>_.
       case receive of None \<Rightarrow> Inl StatusInternal
       | Some r \<Rightarrow> (case send of None \<Rightarrow> Inl StatusInternal
         | Some s \<Rightarrow>
             Inr \<lparr>cpr_nonce = cpq_nonce request,
                  cpr_client_send_unix_ms = cpq_client_send_unix_ms request,
                  cpr_agent_receive_unix_ms = r,
                  cpr_agent_send_unix_ms = (if sint s \<le> sint r then r else s)\<rparr>))))"

section \<open>The invariant\<close>

definition latest_inv :: "LatestTelemetry \<Rightarrow> bool" where
  "latest_inv lt \<longleftrightarrow>
     LatestBootFilter_ok (lt_retired_boots lt) \<and> (lt_closed lt \<longleftrightarrow> lt_signal lt = SigClosed)
     \<and> (case lt_signal lt of
          SigClosed \<Rightarrow> True
        | SigOpen None \<Rightarrow> lt_active_boot_id lt = None \<and> lt_last_sequence lt = None
        | SigOpen (Some v) \<Rightarrow>
            validate_envelope v (lt_expected_profile lt) = Inr ()
            \<and> env_world_alias v = lt_expected_world_alias lt
            \<and> env_subject_id v = lt_expected_subject_id lt
            \<and> lt_active_boot_id lt = Some (env_boot_id v)
            \<and> lt_last_sequence lt = Some (env_sequence v))"

datatype latest_op = OpConnect u64 | OpPublish u64 SubscribeResponse | OpClose

fun latest_apply :: "latest_op \<Rightarrow> LatestTelemetry \<Rightarrow> LatestTelemetry" where
  "latest_apply (OpConnect g) lt = snd (LatestTelemetry_connect lt g)"
| "latest_apply (OpPublish g v) lt = snd (LatestTelemetry_publish lt g v)"
| "latest_apply OpClose lt = LatestTelemetry_close lt"

inductive latest_reachable :: "LatestTelemetry \<Rightarrow> bool" where
  latest_new: "LatestTelemetry_new alias subject profile = Inr lt \<Longrightarrow> latest_reachable lt"
| latest_step: "latest_reachable lt \<Longrightarrow> latest_reachable (latest_apply op lt)"

definition publish_accepts :: "LatestTelemetryError + LatestPublishOutcome \<Rightarrow> bool" where
  "publish_accepts r \<longleftrightarrow> r = Inr LpAccepted \<or> (\<exists>n. r = Inr (LpAcceptedWithGap n))"

text \<open>What an accepted publication means, and that any other changes only the diagnostics.\<close>

definition dropped_from ::
  "LatestTelemetry \<Rightarrow> (LatestTelemetryError + LatestPublishOutcome) \<times> LatestTelemetry \<Rightarrow> bool" where
  "dropped_from lt p \<longleftrightarrow> \<not> publish_accepts (fst p) \<and> (\<exists>d. snd p = lt\<lparr>lt_diagnostics := d\<rparr>)"

lemma dropped_from_simps [simp]:
  "dropped_from lt (r, lt) \<longleftrightarrow> \<not> publish_accepts r"
  "dropped_from lt (r, lt\<lparr>lt_diagnostics := d\<rparr>) \<longleftrightarrow> \<not> publish_accepts r"
proof -
  have "\<exists>d. lt = lt\<lparr>lt_diagnostics := d\<rparr>" by (rule exI [of _ "lt_diagnostics lt"]) simp
  then show "dropped_from lt (r, lt) \<longleftrightarrow> \<not> publish_accepts r"
    "dropped_from lt (r, lt\<lparr>lt_diagnostics := d\<rparr>) \<longleftrightarrow> \<not> publish_accepts r"
    by (auto simp: dropped_from_def)
qed

lemma latest_sequenced_accepted:
  assumes "publish_accepts (fst (latest_publish_sequenced lt v))"
  shows "\<forall>n. lt_last_sequence lt = Some n \<longrightarrow> n < env_sequence v"
    "\<exists>d. snd (latest_publish_sequenced lt v) = latest_accept lt v d"
proof -
  show "\<forall>n. lt_last_sequence lt = Some n \<longrightarrow> n < env_sequence v"
    using assms
    by (auto simp: latest_publish_sequenced_def publish_accepts_def Let_def neq_iff
        split: option.splits if_splits)
  show "\<exists>d. snd (latest_publish_sequenced lt v) = latest_accept lt v d"
    using assms
    by (auto simp: latest_publish_sequenced_def publish_accepts_def Let_def
        split: option.splits if_splits)
qed

lemma latest_sequenced_dropped:
  assumes "\<not> publish_accepts (fst (latest_publish_sequenced lt v))"
  shows "dropped_from lt (latest_publish_sequenced lt v)"
proof (cases "lt_last_sequence lt")
  case None
  with assms show ?thesis by (simp add: latest_publish_sequenced_def publish_accepts_def)
next
  case (Some n)
  with assms show ?thesis
    by (simp add: latest_publish_sequenced_def publish_accepts_def Let_def split: if_splits)
qed

definition latest_publish_guards :: "LatestTelemetry \<Rightarrow> u64 \<Rightarrow> SubscribeResponse \<Rightarrow> bool" where
  "latest_publish_guards lt g v \<longleftrightarrow>
     validate_envelope v (lt_expected_profile lt) = Inr () \<and> \<not> lt_closed lt
     \<and> env_world_alias v = lt_expected_world_alias lt \<and> env_subject_id v = lt_expected_subject_id lt
     \<and> g \<noteq> 0 \<and> g = lt_generation lt
     \<and> \<not> LatestBootFilter_contains (lt_retired_boots lt) (env_boot_id v)
     \<and> (case lt_active_boot_id lt of Some b \<Rightarrow> b = env_boot_id v | None \<Rightarrow> True)"

lemma latest_publish_guarded:
  assumes "latest_publish_guards lt g v"
  shows "LatestTelemetry_publish lt g v = latest_publish_sequenced lt v"
proof -
  have "length (env_boot_id v) = 16"
    using assms by (auto simp: latest_publish_guards_def validate_envelope_def and_then_eq_Inr)
  with assms show ?thesis
    by (auto simp: latest_publish_guards_def LatestTelemetry_publish_def split: option.splits)
qed

lemma latest_publish_unguarded:
  assumes "\<not> latest_publish_guards lt g v"
  shows "dropped_from lt (LatestTelemetry_publish lt g v)"
proof (cases "validate_envelope v (lt_expected_profile lt)")
  case (Inr u)
  have "(case lt_active_boot_id lt of Some b \<Rightarrow> b \<noteq> env_boot_id v | None \<Rightarrow> False) \<longleftrightarrow>
      \<not> (case lt_active_boot_id lt of Some b \<Rightarrow> b = env_boot_id v | None \<Rightarrow> True)"
    by (simp split: option.split)
  with assms Inr show ?thesis
    by (simp add: LatestTelemetry_publish_def latest_publish_guards_def Let_def publish_accepts_def) blast
qed (simp add: LatestTelemetry_publish_def publish_accepts_def)

lemma latest_publish_accepted:
  assumes "publish_accepts (fst (LatestTelemetry_publish lt g v))"
  shows "latest_publish_guards lt g v" "\<forall>n. lt_last_sequence lt = Some n \<longrightarrow> n < env_sequence v"
    "\<exists>d. snd (LatestTelemetry_publish lt g v) = latest_accept lt v d"
proof -
  show guards: "latest_publish_guards lt g v" using assms latest_publish_unguarded by (auto simp: dropped_from_def)
  show "\<forall>n. lt_last_sequence lt = Some n \<longrightarrow> n < env_sequence v"
    "\<exists>d. snd (LatestTelemetry_publish lt g v) = latest_accept lt v d"
    using latest_sequenced_accepted assms unfolding latest_publish_guarded [OF guards] by blast+
qed

lemma latest_publish_dropped:
  assumes "\<not> publish_accepts (fst (LatestTelemetry_publish lt g v))"
  shows "\<exists>d. snd (LatestTelemetry_publish lt g v) = lt\<lparr>lt_diagnostics := d\<rparr>"
proof (cases "latest_publish_guards lt g v")
  case True
  with assms latest_sequenced_dropped show ?thesis by (simp add: latest_publish_guarded dropped_from_def)
qed (use latest_publish_unguarded in \<open>auto simp: dropped_from_def\<close>)

lemma latest_inv_diagnostics [simp]: "latest_inv (lt\<lparr>lt_diagnostics := d\<rparr>) = latest_inv lt"
  by (simp add: latest_inv_def split: LatestSignal.split option.split)

lemma latest_connect_cases:
  obtains d where "snd (LatestTelemetry_connect lt g) = lt\<lparr>lt_diagnostics := d\<rparr>"
      "fst (LatestTelemetry_connect lt g) \<noteq> LcAccepted"
  | "fst (LatestTelemetry_connect lt g) = LcAccepted" "\<not> lt_closed lt" "lt_generation lt < g"
      "snd (LatestTelemetry_connect lt g) =
         lt\<lparr>lt_retired_boots := (case lt_active_boot_id lt of
               Some boot_id \<Rightarrow> LatestBootFilter_insert (lt_retired_boots lt) boot_id
             | None \<Rightarrow> lt_retired_boots lt),
            lt_active_boot_id := None, lt_generation := g, lt_last_sequence := None,
            lt_signal := SigOpen None\<rparr>"
proof (cases "lt_closed lt \<or> g = 0 \<or> g = lt_generation lt")
  case True
  then show ?thesis
    by (intro that(1) [of "lt_diagnostics lt"]) (auto simp: LatestTelemetry_connect_def)
next
  case open_new: False
  show ?thesis
  proof (cases "g < lt_generation lt")
    case True
    with open_new show ?thesis by (intro that(1)) (simp_all add: LatestTelemetry_connect_def)
  next
    case False
    with open_new show ?thesis
      by (intro that(2)) (auto simp: LatestTelemetry_connect_def)
  qed
qed

lemma latest_publish_inv: "latest_inv lt \<Longrightarrow> latest_inv (snd (LatestTelemetry_publish lt g v))"
proof (cases "publish_accepts (fst (LatestTelemetry_publish lt g v))")
  case True
  assume "latest_inv lt"
  with latest_publish_accepted [OF True] show ?thesis
    by (auto simp: latest_inv_def latest_accept_def latest_publish_guards_def)
next
  case False
  assume "latest_inv lt"
  with latest_publish_dropped [OF False] show ?thesis by auto
qed

lemma latest_apply_inv: "latest_inv lt \<Longrightarrow> latest_inv (latest_apply op lt)"
proof (cases op)
  case (OpConnect g)
  assume inv: "latest_inv lt"
  show ?thesis
    by (cases rule: latest_connect_cases [of lt g])
      (use inv OpConnect in \<open>auto simp: latest_inv_def [of "_\<lparr>lt_signal := _\<rparr>"] latest_filter.valid_retire
         latest_inv_def [of lt] split: option.splits\<close>)
next
  case OpClose
  assume "latest_inv lt"
  with OpClose show ?thesis by (simp add: LatestTelemetry_close_def latest_inv_def)
qed (simp add: latest_publish_inv)

lemma latest_reachable_inv: "latest_reachable lt \<Longrightarrow> latest_inv lt"
proof (induction rule: latest_reachable.induct)
  case (latest_new world subject profile lt)
  then show ?case
    by (auto simp: LatestTelemetry_new_def latest_inv_def and_then_eq_Inr latest_filter.valid_none
        split: if_splits)
qed (rule latest_apply_inv)

lemma latest_apply_keeps_retired:
  assumes "latest_inv lt" and "LatestBootFilter_contains (lt_retired_boots lt) b"
  shows "LatestBootFilter_contains (lt_retired_boots (latest_apply op lt)) b"
proof (cases op)
  case (OpConnect g)
  have ok: "LatestBootFilter_ok (lt_retired_boots lt)" using assms(1) by (simp add: latest_inv_def)
  show ?thesis
    by (cases rule: latest_connect_cases [of lt g])
      (use assms(2) ok OpConnect in \<open>auto simp: latest_filter.retired_mono split: option.splits\<close>)
next
  case (OpPublish g v)
  with assms latest_publish_accepted(3) [of lt g v] latest_publish_dropped [of lt g v] show ?thesis
    by (cases "publish_accepts (fst (LatestTelemetry_publish lt g v))")
      (auto simp: latest_accept_def)
qed (use assms in \<open>simp add: LatestTelemetry_close_def\<close>)

lemma latest_ops_keep_retired:
  "latest_inv lt \<Longrightarrow> LatestBootFilter_contains (lt_retired_boots lt) b \<Longrightarrow>
     LatestBootFilter_contains (lt_retired_boots (fold latest_apply ops lt)) b"
  by (induction ops arbitrary: lt) (auto intro: latest_apply_inv latest_apply_keeps_retired)

lemma latest_closed_step: "lt_closed lt \<Longrightarrow> latest_inv lt \<Longrightarrow> lt_closed (latest_apply op lt)"
proof (cases op)
  case (OpPublish g v)
  assume "lt_closed lt"
  then have "\<not> publish_accepts (fst (LatestTelemetry_publish lt g v))"
    using latest_publish_accepted(1) by (auto simp: latest_publish_guards_def)
  with OpPublish \<open>lt_closed lt\<close> latest_publish_dropped show ?thesis by fastforce
qed (auto simp: LatestTelemetry_connect_def LatestTelemetry_close_def)

lemma latest_closed_ops:
  "lt_closed lt \<Longrightarrow> latest_inv lt \<Longrightarrow>
     lt_closed (fold latest_apply ops lt) \<and> latest_inv (fold latest_apply ops lt)"
  by (induction ops arbitrary: lt) (auto intro: latest_apply_inv latest_closed_step)

lemma latest_inv_closed_current: "latest_inv lt \<Longrightarrow> lt_closed lt \<Longrightarrow> LatestTelemetry_current lt = None"
  by (simp add: latest_inv_def LatestTelemetry_current_def)

section \<open>Streams\<close>

lemma next_after_value:
  "next_after resume seen = (Some (Inr v), rest) \<Longrightarrow>
     cursor_needs_current resume v \<and> SigOpen (Some v) \<in> set seen"
  by (induction resume seen rule: next_after.induct) (auto split: if_splits)

lemma next_after_rest: "next_after resume seen = (r, rest) \<Longrightarrow> set rest \<subseteq> set seen"
  by (induction resume seen rule: next_after.induct) (auto split: if_splits)

definition newer_than :: "SubscribeResponse \<Rightarrow> SubscribeResponse \<Rightarrow> bool" where
  "newer_than v w \<longleftrightarrow> env_boot_id v \<noteq> env_boot_id w \<or> env_sequence v < env_sequence w"

lemma subscribe_stream_head:
  "subscribe_stream profile alias subject resume seen = (v # vs, st) \<Longrightarrow>
     cursor_needs_current resume v"
  by (subst (asm) subscribe_stream.simps)
    (auto split: prod.splits option.splits sum.splits if_splits dest: next_after_value)

lemma subscribe_stream_sound:
  assumes "subscribe_stream profile world subject resume seen = (vs, st)"
  shows "list_all (\<lambda>v. validate_envelope v profile = Inr () \<and> env_world_alias v = world
        \<and> env_subject_id v = subject \<and> SigOpen (Some v) \<in> set seen) vs
    \<and> successively newer_than vs"
  using assms
proof (induction profile world subject resume seen arbitrary: vs st rule: subscribe_stream.induct)
  case (1 profile world subject resume seen)
  show ?case
  proof (cases vs)
    case (Cons v ws)
    then obtain rest where nx: "next_after resume seen = (Some (Inr v), rest)"
      "\<not> isl (validate_envelope v profile)" "env_world_alias v = world" "env_subject_id v = subject"
      "subscribe_stream profile world subject
         (Some \<lparr>cur_boot_id = env_boot_id v, cur_sequence = env_sequence v\<rparr>) rest = (ws, st)"
      using "1.prems"
      by (subst (asm) subscribe_stream.simps)
        (auto split: prod.splits option.splits sum.splits if_splits)
    have sub: "set rest \<subseteq> set seen" "SigOpen (Some v) \<in> set seen"
      using next_after_rest [OF nx(1)] next_after_value [OF nx(1)] by auto
    have ih: "list_all (\<lambda>v. validate_envelope v profile = Inr () \<and> env_world_alias v = world
        \<and> env_subject_id v = subject \<and> SigOpen (Some v) \<in> set rest) ws \<and> successively newer_than ws"
      using "1.IH" [OF nx(1) [symmetric]] nx by blast
    have "ws \<noteq> [] \<longrightarrow> newer_than v (hd ws)"
    proof (cases ws)
      case (Cons a list)
      from subscribe_stream_head [OF nx(5) [unfolded Cons]] Cons show ?thesis
        by (simp add: cursor_needs_current_def newer_than_def)
    qed simp
    moreover have "validate_envelope v profile = Inr ()"
      using nx(2) by (cases "validate_envelope v profile") auto
    ultimately show ?thesis
      using Cons ih sub nx(3,4) by (cases ws) (auto simp: list_all_iff)
  qed simp
qed

section \<open>Properties\<close>

definition sample_profile :: string where
  "sample_profile = replicate 64 (CHR ''a'')"

definition sample_envelope :: "u8 \<Rightarrow> u64 \<Rightarrow> SubscribeResponse" where
  "sample_envelope boot sequence =
     \<lparr>env_protocol_version = PROTOCOL_VERSION, env_world_alias = ''w'',
      env_subject_id = replicate 32 7, env_boot_id = replicate 16 boot, env_sequence = sequence,
      env_rest_completed_at_unix_ms = 1, env_age_at_emit_ms = 5, env_position_x = FFin 1,
      env_position_y = FFin 2, env_position_z = FFin 3, env_heading_degrees = None,
      env_heading_source = 0, env_trace_id = replicate 16 0, env_coordinate_space = 1,
      env_coordinate_profile_sha256 = sample_profile\<rparr>"

definition sample_latest :: LatestTelemetry where
  "sample_latest =
     \<lparr>lt_expected_world_alias = ''w'', lt_expected_subject_id = replicate 32 7,
      lt_expected_profile = sample_profile, lt_closed = False, lt_generation = 0,
      lt_active_boot_id = None, lt_last_sequence = None,
      lt_retired_boots = LatestBootFilter_default, lt_diagnostics = LatestDiagnostics_default,
      lt_signal = SigOpen None\<rparr>"

lemma sample_profile_canonical: "sha256_text sample_profile"
  by (simp add: sha256_text_def sample_profile_def list_all_iff is_lower_hex_def)

lemma sample_envelope_valid: "n \<noteq> 0 \<Longrightarrow> validate_envelope (sample_envelope b n) sample_profile = Inr ()"
  by (simp add: validate_envelope_def sample_envelope_def and_then_eq_Inr alias_ok_def is_ascii_def
      sample_profile_canonical validate_heading_Inr)

lemma sample_latest_reachable: "latest_reachable sample_latest"
proof (rule latest_new)
  show "LatestTelemetry_new ''w'' (replicate 32 7) sample_profile = Inr sample_latest"
    by (simp add: LatestTelemetry_new_def sample_latest_def and_then_eq_Inr latest_validation_sample_def
        validate_envelope_def alias_ok_def is_ascii_def sample_profile_canonical validate_heading_Inr)
qed

lemma latest_none_retired [simp]: "LatestBootFilter_contains LatestBootFilter_default b \<longleftrightarrow> False"
  by (simp add: LatestBootFilter_contains_def LatestBootFilter_default_def
      latest_boot_filter_bits_def Let_def mod_2048_index)

definition latest_with_sample :: LatestTelemetry where
  "latest_with_sample = fold latest_apply [OpConnect 1, OpPublish 1 (sample_envelope 4 8)] sample_latest"

lemma latest_with_sample_value:
  "latest_with_sample = latest_accept (sample_latest\<lparr>lt_generation := 1\<rparr>) (sample_envelope 4 8)
     LatestDiagnostics_default"
proof -
  have "snd (LatestTelemetry_connect sample_latest 1) = sample_latest\<lparr>lt_generation := 1\<rparr>"
    by (simp add: LatestTelemetry_connect_def sample_latest_def)
  moreover have "snd (LatestTelemetry_publish (sample_latest\<lparr>lt_generation := 1\<rparr>) 1 (sample_envelope 4 8))
      = latest_accept (sample_latest\<lparr>lt_generation := 1\<rparr>) (sample_envelope 4 8) LatestDiagnostics_default"
    using sample_envelope_valid [of 8 4]
    by (simp add: LatestTelemetry_publish_def latest_publish_sequenced_def sample_latest_def)
      (simp add: sample_envelope_def)
  ultimately show ?thesis by (simp add: latest_with_sample_def)
qed

lemma latest_with_sample_reachable: "latest_reachable latest_with_sample"
  unfolding latest_with_sample_def fold_simps comp_apply
  by (intro latest_step sample_latest_reachable)

text \<open>
  C31: the visible value never rolls back. A publication either leaves the visible value alone,
  or makes exactly its own value visible; then it passed validation for the bound world and
  subject, on the open generation, and its boot identity is the visible one's with a higher
  sequence number.
\<close>

theorem latest_never_rolls_back:
  assumes "latest_reachable lt" and "LatestTelemetry_publish lt g v = (r, lt')"
  shows "if publish_accepts r
     then LatestTelemetry_current lt' = Some v \<and> g = lt_generation lt
        \<and> (env_world_alias v, env_subject_id v) = (lt_expected_world_alias lt, lt_expected_subject_id lt)
        \<and> validate_envelope v (lt_expected_profile lt) = Inr ()
        \<and> (\<forall>w. LatestTelemetry_current lt = Some w \<longrightarrow>
             env_boot_id w = env_boot_id v \<and> env_sequence w < env_sequence v)
     else LatestTelemetry_current lt' = LatestTelemetry_current lt"
proof -
  have inv: "latest_inv lt" by (rule latest_reachable_inv [OF assms(1)])
  have r: "r = fst (LatestTelemetry_publish lt g v)" "lt' = snd (LatestTelemetry_publish lt g v)"
    using assms(2) by simp_all
  show ?thesis
  proof (cases "publish_accepts r")
    case True
    note acc = latest_publish_accepted [OF True [unfolded r(1)]]
    have "env_boot_id w = env_boot_id v \<and> env_sequence w < env_sequence v"
      if "LatestTelemetry_current lt = Some w" for w
      using that inv acc(1,2)
      by (auto simp: LatestTelemetry_current_def latest_inv_def latest_publish_guards_def
          split: LatestSignal.splits)
    with True acc show ?thesis
      by (auto simp: r(2) LatestTelemetry_current_def latest_accept_def latest_publish_guards_def)
  next
    case False
    with latest_publish_dropped [of lt g v] show ?thesis by (auto simp: r LatestTelemetry_current_def)
  qed
qed

theorem latest_never_rolls_back_witness:
  "LatestTelemetry_current (snd (LatestTelemetry_publish latest_with_sample 1 (sample_envelope 4 7)))
     = Some (sample_envelope 4 8)"
proof -
  have "\<not> publish_accepts (fst (LatestTelemetry_publish latest_with_sample 1 (sample_envelope 4 7)))"
  proof
    assume "publish_accepts (fst (LatestTelemetry_publish latest_with_sample 1 (sample_envelope 4 7)))"
    from latest_publish_accepted(2) [OF this] show False
      by (simp add: latest_with_sample_value latest_accept_def sample_envelope_def)
  qed
  moreover have "LatestTelemetry_current latest_with_sample = Some (sample_envelope 4 8)"
    by (simp add: latest_with_sample_value latest_accept_def LatestTelemetry_current_def)
  ultimately show ?thesis
    using latest_never_rolls_back [OF latest_with_sample_reachable surjective_pairing,
        of 1 "sample_envelope 4 7"] by simp
qed

text \<open>
  Closing is final: after a close and any further operations no value is visible, every
  connection is dropped and every publication fails.
\<close>

lemma latest_close_is_final:
  assumes "latest_reachable lt"
  shows "LatestTelemetry_current (fold latest_apply ops (LatestTelemetry_close lt)) = None
    \<and> fst (LatestTelemetry_connect (fold latest_apply ops (LatestTelemetry_close lt)) g) = LcDropped
    \<and> isl (fst (LatestTelemetry_publish (fold latest_apply ops (LatestTelemetry_close lt)) g v))"
proof -
  let ?lt = "fold latest_apply ops (LatestTelemetry_close lt)"
  have "latest_inv (LatestTelemetry_close lt)" "lt_closed (LatestTelemetry_close lt)"
    using latest_apply_inv [of lt OpClose] latest_reachable_inv [OF assms]
    by (simp_all add: LatestTelemetry_close_def)
  then have closed: "lt_closed ?lt" "latest_inv ?lt" using latest_closed_ops by simp_all
  then show ?thesis
    by (auto simp: latest_inv_closed_current LatestTelemetry_connect_def LatestTelemetry_publish_def
        split: sum.splits)
qed

lemma latest_close_is_final_example:
  "LatestTelemetry_current (fold latest_apply [OpConnect 2, OpPublish 2 (sample_envelope 5 1)]
     (LatestTelemetry_close latest_with_sample)) = None"
  using latest_close_is_final [OF latest_with_sample_reachable] by blast

text \<open>
  A boot identity replaced by a reconnection is never accepted again: once a new generation
  is connected while a value of some boot is visible, no later publication of that boot is
  accepted, whatever operations happen in between.
\<close>

lemma latest_retired_boot_refused:
  assumes "latest_reachable lt" and "LatestTelemetry_current lt = Some w"
    and "fst (LatestTelemetry_connect lt g) = LcAccepted" and "env_boot_id v = env_boot_id w"
  shows "\<not> publish_accepts (fst (LatestTelemetry_publish
     (fold latest_apply ops (snd (LatestTelemetry_connect lt g))) g' v))"
proof -
  have inv: "latest_inv lt" by (rule latest_reachable_inv [OF assms(1)])
  have active: "lt_active_boot_id lt = Some (env_boot_id w)"
    and ok: "LatestBootFilter_ok (lt_retired_boots lt)"
    using inv assms(2)
    by (auto simp: latest_inv_def LatestTelemetry_current_def split: LatestSignal.splits)
  have "lt_retired_boots (snd (LatestTelemetry_connect lt g)) =
      LatestBootFilter_insert (lt_retired_boots lt) (env_boot_id w)"
    using assms(3) active by (cases rule: latest_connect_cases [of lt g]) auto
  then have "LatestBootFilter_contains (lt_retired_boots
      (fold latest_apply ops (snd (LatestTelemetry_connect lt g)))) (env_boot_id w)"
    using latest_apply_inv [OF inv, of "OpConnect g"] ok
    by (intro latest_ops_keep_retired) (simp_all add: latest_filter.retired_retire)
  then show ?thesis using latest_publish_accepted(1) assms(4) unfolding latest_publish_guards_def by metis
qed

lemma latest_retired_boot_refused_example:
  "\<not> publish_accepts (fst (LatestTelemetry_publish
     (fold latest_apply [OpConnect 3] (snd (LatestTelemetry_connect latest_with_sample 2))) 3
     (sample_envelope 4 9)))"
proof (rule latest_retired_boot_refused [OF latest_with_sample_reachable])
  show "LatestTelemetry_current latest_with_sample = Some (sample_envelope 4 8)"
    by (simp add: latest_with_sample_value latest_accept_def LatestTelemetry_current_def)
  show "fst (LatestTelemetry_connect latest_with_sample 2) = LcAccepted"
    by (simp add: latest_with_sample_value latest_accept_def sample_latest_def
        LatestTelemetry_connect_def)
qed (simp add: sample_envelope_def)

text \<open>
  A subscription only moves forward: whatever values the subscriber reads from the channel,
  skipped or repeated, the stream yields validated envelopes of the subscribed world and
  subject, each of which it read, and of two consecutive ones the second has another boot
  identity or a higher sequence number; the first is newer than the resume cursor.
\<close>

lemma subscription_moves_forward:
  "case subscribe_stream profile world subject resume seen of (vs, st) \<Rightarrow>
     list_all (\<lambda>v. validate_envelope v profile = Inr () \<and> env_world_alias v = world
        \<and> env_subject_id v = subject \<and> SigOpen (Some v) \<in> set seen) vs
     \<and> successively newer_than vs
     \<and> list_all (cursor_needs_current resume) (take 1 vs)"
proof (cases "subscribe_stream profile world subject resume seen")
  case (Pair vs st)
  then have "list_all (cursor_needs_current resume) (take 1 vs)"
    by (cases vs) (auto dest: subscribe_stream_head)
  with Pair subscribe_stream_sound [OF Pair] show ?thesis by simp
qed

end
