(* ===== verification/Telemetry_Clock.thy ===== *)
theory Telemetry_Clock
  imports Pal_Prelude
begin

text \<open>
  The clock evidence of a telemetry session, \<open>crates/pal-telemetry/src/clock.rs\<close>: a probe
  bounds the offset between the agent's and the client's wall clocks and the age of what the
  agent emits. Wall-clock readings are \<open>i64\<close> milliseconds, compared as signed numbers.
\<close>

record ClockProbeObservation =
  obs_expected_nonce :: bytes
  obs_echoed_nonce :: bytes
  obs_client_send :: i64
  obs_agent_receive :: i64
  obs_agent_send :: i64
  obs_client_receive :: i64

record ClockEstimate =
  est_full_rtt_upper_bound_ms :: u64
  est_offset_lower_bound_ms :: i64
  est_offset_upper_bound_ms :: i64
  est_observed_at_monotonic_ms :: u64

definition ClockEstimate_age_upper_bound_ms :: "ClockEstimate \<Rightarrow> u32 \<Rightarrow> u64" where
  "ClockEstimate_age_upper_bound_ms e age_at_emit_ms =
     sat_add (ucast age_at_emit_ms) (est_full_rtt_upper_bound_ms e)"

datatype ClockError = NonceMismatch | ImpossibleOrdering | RttOutlier | WallClockStep

record ClockEstimator =
  clk_maximum_rtt_ms :: u64
  clk_current :: "ClockEstimate option"

definition PROBE_CADENCE_ms :: u64 where
  "PROBE_CADENCE_ms = 30 * 1000"

definition ESTIMATE_EXPIRY_ms :: u64 where
  "ESTIMATE_EXPIRY_ms = 90 * 1000"

definition WALL_CLOCK_STEP_LIMIT_MS :: i64 where
  "WALL_CLOCK_STEP_LIMIT_MS = 1000"

definition ClockEstimator_new :: "u64 \<Rightarrow> ClockEstimator" where
  "ClockEstimator_new maximum_rtt_ms = \<lparr>clk_maximum_rtt_ms = maximum_rtt_ms, clk_current = None\<rparr>"

text \<open>\<open>a.checked_sub(b).and_then(|v| u64::try_from(v).ok())\<close>\<close>

definition elapsed_ms :: "i64 \<Rightarrow> i64 \<Rightarrow> u64 option" where
  "elapsed_ms a b = Option.bind (i64_checked_sub a b) u64_try_from_i64"

definition clock_step :: "i64 \<Rightarrow> i64 \<Rightarrow> ClockEstimate \<Rightarrow> bool" where
  "clock_step lower upper previous =
     (sint (i64_sat_add (est_offset_upper_bound_ms previous) WALL_CLOCK_STEP_LIMIT_MS) < sint lower
      \<or> sint upper < sint (i64_sat_sub (est_offset_lower_bound_ms previous) WALL_CLOCK_STEP_LIMIT_MS))"

definition ClockEstimator_observe ::
  "ClockEstimator \<Rightarrow> ClockProbeObservation \<Rightarrow> u64 \<Rightarrow> (ClockError + ClockEstimate) \<times> ClockEstimator" where
  "ClockEstimator_observe c ob now =
     (let cleared = c\<lparr>clk_current := None\<rparr> in
      if length (obs_expected_nonce ob) \<noteq> 16 \<or> length (obs_echoed_nonce ob) \<noteq> 16
         \<or> obs_echoed_nonce ob \<noteq> obs_expected_nonce ob
      then (Inl NonceMismatch, cleared)
      else if sint (obs_client_send ob) \<le> 0 \<or> sint (obs_agent_receive ob) \<le> 0
         \<or> sint (obs_agent_send ob) \<le> 0 \<or> sint (obs_client_receive ob) \<le> 0
         \<or> sint (obs_client_receive ob) < sint (obs_client_send ob)
         \<or> sint (obs_agent_send ob) < sint (obs_agent_receive ob)
      then (Inl ImpossibleOrdering, cleared)
      else case elapsed_ms (obs_client_receive ob) (obs_client_send ob) of
          None \<Rightarrow> (Inl ImpossibleOrdering, c)
        | Some client_elapsed \<Rightarrow>
          (case elapsed_ms (obs_agent_send ob) (obs_agent_receive ob) of
             None \<Rightarrow> (Inl ImpossibleOrdering, c)
           | Some agent_elapsed \<Rightarrow>
             if client_elapsed = 0 \<or> client_elapsed < agent_elapsed
             then (Inl ImpossibleOrdering, cleared)
             else if clk_maximum_rtt_ms c < client_elapsed then (Inl RttOutlier, cleared)
             else
               let lower = i64_sat_sub (obs_agent_send ob) (obs_client_receive ob);
                   upper = i64_sat_sub (obs_agent_receive ob) (obs_client_send ob) in
               if sint upper < sint lower then (Inl ImpossibleOrdering, cleared)
               else if (case clk_current c of Some p \<Rightarrow> clock_step lower upper p | None \<Rightarrow> False)
               then (Inl WallClockStep, cleared)
               else
                 let estimate =
                       \<lparr>est_full_rtt_upper_bound_ms = client_elapsed,
                        est_offset_lower_bound_ms = lower, est_offset_upper_bound_ms = upper,
                        est_observed_at_monotonic_ms = now\<rparr>
                 in (Inr estimate, c\<lparr>clk_current := Some estimate\<rparr>)))"

definition ClockEstimator_current :: "ClockEstimator \<Rightarrow> u64 \<Rightarrow> ClockEstimate option" where
  "ClockEstimator_current c now =
     (case clk_current c of
        Some e \<Rightarrow> if sat_sub now (est_observed_at_monotonic_ms e) \<le> ESTIMATE_EXPIRY_ms
                 then Some e else None
      | None \<Rightarrow> None)"

definition ClockEstimator_invalidate :: "ClockEstimator \<Rightarrow> ClockEstimator" where
  "ClockEstimator_invalidate c = c\<lparr>clk_current := None\<rparr>"

definition BACKOFF_MS :: "nat list" where
  "BACKOFF_MS = [250, 500, 1000, 2000, 4000, 5000]"

definition reconnect_backoff :: "nat \<Rightarrow> nat" where
  "reconnect_backoff attempt = BACKOFF_MS ! min attempt (length BACKOFF_MS - 1)"

section \<open>Facts\<close>

lemma elapsed_ms_nonneg:
  assumes "0 < sint b" and "sint b \<le> sint a"
  shows "\<exists>w. elapsed_ms a b = Some w \<and> uint w = sint a - sint b"
proof -
  define d where "d = sint a - sint b"
  have range: "0 \<le> d" "d < 2 ^ 63" using assms sint_i64_bounds [of a] by (auto simp: d_def)
  then have s: "sint (word_of_int d :: i64) = d"
    by (simp add: sint_sbintrunc' signed_take_bit_int_eq_self)
  have "i64_checked_sub a b = Some (word_of_int d)"
    using range unfolding i64_checked_sub_def d_def [symmetric] by (simp add: Let_def)
  then have "elapsed_ms a b = Some (word_of_int d)"
    using range(1) by (simp add: elapsed_ms_def u64_try_from_i64_def s)
  moreover have "uint (word_of_int d :: i64) = d"
    using uint_eq_sint_nonneg [of "word_of_int d"] s range(1) by simp
  ultimately show ?thesis unfolding d_def by blast
qed

text \<open>On positive readings the saturating subtraction is exact.\<close>

lemma sat_sub_exact: "0 < sint a \<Longrightarrow> 0 < sint b \<Longrightarrow> sint (i64_sat_sub a b) = sint a - sint b"
  using sint_i64_bounds [of a] sint_i64_bounds [of b] by (simp add: i64_sat_sub_def sat_unat)

lemma observe_Inr:
  assumes "ClockEstimator_observe c ob now = (Inr e, c')"
  shows "clk_current c' = Some e" "clk_maximum_rtt_ms c' = clk_maximum_rtt_ms c"
    "uint (est_full_rtt_upper_bound_ms e) = sint (obs_client_receive ob) - sint (obs_client_send ob)"
    "sint (est_offset_lower_bound_ms e) = sint (obs_agent_send ob) - sint (obs_client_receive ob)"
    "sint (est_offset_upper_bound_ms e) = sint (obs_agent_receive ob) - sint (obs_client_send ob)"
    "est_observed_at_monotonic_ms e = now" "est_full_rtt_upper_bound_ms e \<le> clk_maximum_rtt_ms c"
    "est_full_rtt_upper_bound_ms e \<noteq> 0" "obs_echoed_nonce ob = obs_expected_nonce ob"
    "length (obs_expected_nonce ob) = 16"
proof -
  have pos: "0 < sint (obs_client_send ob)" "0 < sint (obs_agent_receive ob)"
    "0 < sint (obs_agent_send ob)" "0 < sint (obs_client_receive ob)"
    and ord: "sint (obs_client_send ob) \<le> sint (obs_client_receive ob)"
    using assms by (auto simp: ClockEstimator_observe_def Let_def split: if_splits)
  obtain w where w: "elapsed_ms (obs_client_receive ob) (obs_client_send ob) = Some w"
    "uint w = sint (obs_client_receive ob) - sint (obs_client_send ob)"
    using elapsed_ms_nonneg [OF pos(1) ord] by blast
  have e: "e = \<lparr>est_full_rtt_upper_bound_ms = w,
      est_offset_lower_bound_ms = i64_sat_sub (obs_agent_send ob) (obs_client_receive ob),
      est_offset_upper_bound_ms = i64_sat_sub (obs_agent_receive ob) (obs_client_send ob),
      est_observed_at_monotonic_ms = now\<rparr>"
    and rest: "c' = c\<lparr>clk_current := Some e\<rparr>" "w \<noteq> 0" "w \<le> clk_maximum_rtt_ms c"
      "obs_echoed_nonce ob = obs_expected_nonce ob" "length (obs_expected_nonce ob) = 16"
    using assms w(1)
    by (auto simp: ClockEstimator_observe_def Let_def not_less split: if_splits option.splits)
  show "uint (est_full_rtt_upper_bound_ms e) =
      sint (obs_client_receive ob) - sint (obs_client_send ob)"
    "sint (est_offset_lower_bound_ms e) = sint (obs_agent_send ob) - sint (obs_client_receive ob)"
    "sint (est_offset_upper_bound_ms e) = sint (obs_agent_receive ob) - sint (obs_client_send ob)"
    by (simp_all add: e w(2) sat_sub_exact pos)
  show "clk_current c' = Some e" "clk_maximum_rtt_ms c' = clk_maximum_rtt_ms c"
    "est_observed_at_monotonic_ms e = now" "est_full_rtt_upper_bound_ms e \<le> clk_maximum_rtt_ms c"
    "est_full_rtt_upper_bound_ms e \<noteq> 0" "obs_echoed_nonce ob = obs_expected_nonce ob"
    "length (obs_expected_nonce ob) = 16"
    using rest by (simp_all add: e)
qed

lemma observe_Inl:
  assumes "ClockEstimator_observe c ob now = (Inl err, c')"
  shows "clk_current c' = None" "clk_maximum_rtt_ms c' = clk_maximum_rtt_ms c"
proof -
  have "\<exists>w. elapsed_ms (obs_client_receive ob) (obs_client_send ob) = Some w"
    if "0 < sint (obs_client_send ob)" "sint (obs_client_send ob) \<le> sint (obs_client_receive ob)"
    using elapsed_ms_nonneg [OF that] by blast
  moreover have "\<exists>w. elapsed_ms (obs_agent_send ob) (obs_agent_receive ob) = Some w"
    if "0 < sint (obs_agent_receive ob)" "sint (obs_agent_receive ob) \<le> sint (obs_agent_send ob)"
    using elapsed_ms_nonneg [OF that] by blast
  ultimately have "c' = c\<lparr>clk_current := None\<rparr>"
    using assms
    by (auto simp: ClockEstimator_observe_def Let_def not_less not_le
        split: if_splits option.splits)
  then show "clk_current c' = None" "clk_maximum_rtt_ms c' = clk_maximum_rtt_ms c" by simp_all
qed

section \<open>Properties\<close>

definition sample_probe :: ClockProbeObservation where
  "sample_probe = \<lparr>obs_expected_nonce = replicate 16 9, obs_echoed_nonce = replicate 16 9,
     obs_client_send = 1000, obs_agent_receive = 5010, obs_agent_send = 5012,
     obs_client_receive = 1030\<rparr>"

definition sample_estimate :: ClockEstimate where
  "sample_estimate = \<lparr>est_full_rtt_upper_bound_ms = 30, est_offset_lower_bound_ms = 3982,
     est_offset_upper_bound_ms = 4010, est_observed_at_monotonic_ms = 77\<rparr>"

lemma sample_probe_observed:
  "fst (ClockEstimator_observe (ClockEstimator_new 200) sample_probe 77) = Inr sample_estimate"
  by code_simp

text \<open>
  C34: an accepted probe brackets the truth. If the agent's clock runs at a constant offset from
  the client's during the probe, and the request reached the agent after it was sent and the
  answer left before it was received, then the offset lies between the two bounds of the
  estimate, and anything emitted \<open>a\<close> ms old arrives at most \<open>a\<close> plus the round trip old.
\<close>

theorem clock_estimate_sound:
  assumes "fst (ClockEstimator_observe c ob now) = Inr e"
    and "sint (obs_agent_receive ob) = arrive + offset" and "sint (obs_agent_send ob) = leave + offset"
    and "sint (obs_client_send ob) \<le> arrive" and "leave \<le> sint (obs_client_receive ob)"
    and "arrive \<le> leave" and "uint (a :: u32) + (sint (obs_client_receive ob) - leave) < 2 ^ 64"
  shows "sint (est_offset_lower_bound_ms e) \<le> offset \<and> offset \<le> sint (est_offset_upper_bound_ms e)
    \<and> uint a + (sint (obs_client_receive ob) - leave) \<le> uint (ClockEstimate_age_upper_bound_ms e a)"
proof -
  obtain c' where c': "ClockEstimator_observe c ob now = (Inr e, c')"
    using assms(1) by (cases "ClockEstimator_observe c ob now") auto
  note est = observe_Inr [OF c']
  have "unat (ucast a :: u64) = unat a"
    using unat_less_pow [of a] by (simp add: unsigned_ucast_eq take_bit_nat_eq_self)
  then have "unat (ClockEstimate_age_upper_bound_ms e a) =
      min (unat a + unat (est_full_rtt_upper_bound_ms e)) (2 ^ 64 - 1)"
    by (simp add: ClockEstimate_age_upper_bound_ms_def sat_unat)
  then have age: "uint (ClockEstimate_age_upper_bound_ms e a) =
      min (uint a + uint (est_full_rtt_upper_bound_ms e)) 18446744073709551615"
    unfolding uint_nat by (simp add: of_nat_min)
  have "uint a + (sint (obs_client_receive ob) - leave) \<le>
      uint a + uint (est_full_rtt_upper_bound_ms e)"
    unfolding est(3) using assms(4,6) by linarith
  then have "uint a + (sint (obs_client_receive ob) - leave) \<le>
      uint (ClockEstimate_age_upper_bound_ms e a)"
    unfolding age using assms(7) by simp
  moreover have "sint (est_offset_lower_bound_ms e) \<le> offset" "offset \<le> sint (est_offset_upper_bound_ms e)"
    unfolding est(4,5) using assms(2-5) by linarith+
  ultimately show ?thesis by blast
qed

theorem clock_estimate_sound_witness:
  "sint (est_offset_lower_bound_ms sample_estimate) \<le> 4000
   \<and> 4000 \<le> sint (est_offset_upper_bound_ms sample_estimate)
   \<and> 25 + 18 \<le> uint (ClockEstimate_age_upper_bound_ms sample_estimate 25)"
  using clock_estimate_sound [OF sample_probe_observed, of 1010 4000 1012 25]
  by (simp add: sample_probe_def)

text \<open>
  No stale evidence survives a bad probe: after any rejected observation the estimator has
  no estimate, at any time, whatever the reason; after an accepted one it has exactly that
  estimate until it expires 90 seconds later.
\<close>

lemma observe_replaces_evidence:
  "case ClockEstimator_observe c ob now of
     (Inl _, c') \<Rightarrow> ClockEstimator_current c' later = None
   | (Inr e, c') \<Rightarrow> ClockEstimator_current c' later =
        (if unat later - unat now \<le> 90000 then Some e else None)"
proof (cases "ClockEstimator_observe c ob now")
  case (Pair r c')
  show ?thesis
  proof (cases r)
    case (Inl err)
    with Pair observe_Inl(1) show ?thesis by (simp add: ClockEstimator_current_def)
  next
    case (Inr e)
    with Pair observe_Inr(1,6) show ?thesis
      by (simp add: ClockEstimator_current_def ESTIMATE_EXPIRY_ms_def word_le_nat_alt sat_unat)
  qed
qed

text \<open>
  The reconnect delay never shrinks from one attempt to the next and stays between a
  quarter of a second and five seconds.
\<close>

lemma reconnect_backoff_bounded:
  "250 \<le> reconnect_backoff n \<and> reconnect_backoff n \<le> 5000
   \<and> reconnect_backoff n \<le> reconnect_backoff (n + k)"
proof -
  have mono: "sorted BACKOFF_MS" and set: "set BACKOFF_MS \<subseteq> {250..5000}"
    by (simp_all add: BACKOFF_MS_def)
  have "reconnect_backoff n \<in> set BACKOFF_MS"
    unfolding reconnect_backoff_def by (rule nth_mem) (simp add: BACKOFF_MS_def)
  moreover have "reconnect_backoff n \<le> reconnect_backoff (n + k)"
    unfolding reconnect_backoff_def
    by (rule sorted_nth_mono [OF mono]) (auto simp: BACKOFF_MS_def)
  ultimately show ?thesis using set by auto
qed

end
