(* ===== verification/Telemetry_Ingest.thy ===== *)
theory Telemetry_Ingest
  imports Telemetry_Wire Telemetry_Clock Server_Agent
begin

text \<open>
  The overlay's side of the telemetry, \<open>crates/pal-telemetry/src/client.rs\<close>: the ingest object
  that turns envelopes into frames of the server-agent inbox, and the network consumer that
  supervises sessions. The sender handle of an ingest object is the inbox of
  \<open>Server_Agent\<close>, passed beside it. What the network, the system clock and the random generator
  answer is a script, an argument; a script that is exhausted is a session still waiting.
\<close>

section \<open>Ingest\<close>

datatype IngestError =
    IngestValidation | IngestConnection | IngestClock | IngestClockUnavailable
  | IngestState ServerAgentSourceError

record TelemetryIngest =
  ti_generation :: u64
  ti_coordinate_profile_sha256 :: string
  ti_clock :: ClockEstimator
  ti_clock_invalid_emitted :: bool
  ti_clock_was_established :: bool
  ti_connected :: bool

definition TelemetryIngest_new ::
  "Inbox \<Rightarrow> u64 \<Rightarrow> string \<Rightarrow> u64 \<Rightarrow> (IngestError + TelemetryIngest) \<times> Inbox" where
  "TelemetryIngest_new ib generation profile maximum_rtt_ms =
     (case validate_canonical_sha256 profile of
        Inl _ \<Rightarrow> (Inl IngestValidation, ib)
      | Inr _ \<Rightarrow>
        if generation = 0 \<or> maximum_rtt_ms = 0 then (Inl IngestConnection, ib)
        else let (outcome, ib') = sender_connect ib generation in
          if outcome \<noteq> CtlAccepted then (Inl IngestConnection, ib')
          else (Inr \<lparr>ti_generation = generation, ti_coordinate_profile_sha256 = profile,
                     ti_clock = ClockEstimator_new maximum_rtt_ms,
                     ti_clock_invalid_emitted = False, ti_clock_was_established = False,
                     ti_connected = True\<rparr>, ib'))"

definition probe_observation ::
  "ClockProbeRequest \<Rightarrow> ClockProbeResponse \<Rightarrow> i64 \<Rightarrow> ClockProbeObservation" where
  "probe_observation request response client_receive =
     \<lparr>obs_expected_nonce = cpq_nonce request, obs_echoed_nonce = cpr_nonce response,
      obs_client_send = cpq_client_send_unix_ms request,
      obs_agent_receive = cpr_agent_receive_unix_ms response,
      obs_agent_send = cpr_agent_send_unix_ms response, obs_client_receive = client_receive\<rparr>"

definition accept_clock_probe_inner ::
  "TelemetryIngest \<Rightarrow> ClockProbeRequest \<Rightarrow> ClockProbeResponse \<Rightarrow> i64 \<Rightarrow> u64
     \<Rightarrow> (IngestError + unit) \<times> TelemetryIngest" where
  "accept_clock_probe_inner ti request response client_receive observed_at =
     (case validate_clock_probe_request request of
        Inl _ \<Rightarrow> (Inl IngestValidation, ti)
      | Inr _ \<Rightarrow>
        (case validate_clock_probe_response response of
           Inl _ \<Rightarrow> (Inl IngestValidation, ti)
         | Inr _ \<Rightarrow>
           if cpr_client_send_unix_ms response \<noteq> cpq_client_send_unix_ms request
           then (Inl IngestClock, ti)
           else case ClockEstimator_observe (ti_clock ti)
                       (probe_observation request response client_receive) observed_at of
               (Inl _, clock) \<Rightarrow> (Inl IngestClock, ti\<lparr>ti_clock := clock\<rparr>)
             | (Inr _, clock) \<Rightarrow> (Inr (), ti\<lparr>ti_clock := clock\<rparr>)))"

definition accept_clock_probe ::
  "TelemetryIngest \<Rightarrow> Inbox \<Rightarrow> ClockProbeRequest \<Rightarrow> ClockProbeResponse \<Rightarrow> i64 \<Rightarrow> u64
     \<Rightarrow> (IngestError + unit) \<times> TelemetryIngest \<times> Inbox" where
  "accept_clock_probe ti ib request response client_receive observed_at =
     (let (result, ti') = accept_clock_probe_inner ti request response client_receive observed_at in
      if isl result
      then (result,
            ti'\<lparr>ti_clock := ClockEstimator_invalidate (ti_clock ti'), ti_clock_invalid_emitted := True\<rparr>,
            snd (sender_clock_invalid ib (ti_generation ti') ProbeInvalid))
      else (result, ti'\<lparr>ti_clock_invalid_emitted := False, ti_clock_was_established := True\<rparr>, ib))"

definition ingest_frame :: "TelemetryIngest \<Rightarrow> SubscribeResponse \<Rightarrow> ClockEstimate \<Rightarrow> ServerAgentFrame" where
  "ingest_frame ti value estimate =
     \<lparr>fr_world_alias = env_world_alias value, fr_subject_id = env_subject_id value,
      fr_agent_boot_id = env_boot_id value, fr_generation = ti_generation ti,
      fr_sequence = env_sequence value, fr_x = env_position_x value, fr_y = env_position_y value,
      fr_z = env_position_z value, fr_heading_degrees = env_heading_degrees value,
      fr_age_upper_bound_ms = ClockEstimate_age_upper_bound_ms estimate (env_age_at_emit_ms value)\<rparr>"

definition ingest_accept ::
  "TelemetryIngest \<Rightarrow> Inbox \<Rightarrow> SubscribeResponse \<Rightarrow> u64
     \<Rightarrow> (IngestError + ServerAgentIngestOutcome) \<times> TelemetryIngest \<times> Inbox" where
  "ingest_accept ti ib value received =
     (case validate_envelope value (ti_coordinate_profile_sha256 ti) of
        Inl _ \<Rightarrow> (Inl IngestValidation, ti, ib)
      | Inr _ \<Rightarrow>
        (case ClockEstimator_current (ti_clock ti) received of
           None \<Rightarrow>
             if \<not> ti_clock_invalid_emitted ti
             then (Inl IngestClockUnavailable, ti\<lparr>ti_clock_invalid_emitted := True\<rparr>,
                   snd (sender_clock_invalid ib (ti_generation ti)
                     (if ti_clock_was_established ti then EvidenceExpired else ProbeInvalid)))
             else (Inl IngestClockUnavailable, ti, ib)
         | Some estimate \<Rightarrow>
             let (result, ib') = publish_position ib (ingest_frame ti value estimate) received
             in (map_err IngestState result, ti, ib')))"

text \<open>Also what dropping the object does.\<close>

definition ingest_disconnect :: "TelemetryIngest \<Rightarrow> Inbox \<Rightarrow> TelemetryIngest \<times> Inbox" where
  "ingest_disconnect ti ib =
     (if ti_connected ti
      then (ti\<lparr>ti_connected := False\<rparr>, snd (sender_disconnect ib (ti_generation ti)))
      else (ti, ib))"

section \<open>Failures of the consumer\<close>

datatype NetworkFailureClass = Transient | Terminal

datatype NetworkConsumerError =
    NcConfiguration | NcTransport | NcTlsAuthentication | NcRpc | NcRpcTerminal | NcMessageTooLarge
  | NcIdentity | NcValidation | NcClock | NcIngest | NcDisconnected

fun NetworkConsumerError_class :: "NetworkConsumerError \<Rightarrow> NetworkFailureClass" where
  "NetworkConsumerError_class NcTransport = Transient"
| "NetworkConsumerError_class NcRpc = Transient"
| "NetworkConsumerError_class NcDisconnected = Transient"
| "NetworkConsumerError_class _ = Terminal"

datatype Code =
    CodeOk | CodeCancelled | CodeUnknown | CodeInvalidArgument | CodeDeadlineExceeded | CodeNotFound
  | CodeAlreadyExists | CodePermissionDenied | CodeResourceExhausted | CodeFailedPrecondition
  | CodeAborted | CodeOutOfRange | CodeUnimplemented | CodeInternal | CodeUnavailable | CodeDataLoss
  | CodeUnauthenticated

fun network_rpc_error :: "Code \<Rightarrow> NetworkConsumerError" where
  "network_rpc_error CodeOutOfRange = NcMessageTooLarge"
| "network_rpc_error CodeResourceExhausted = NcMessageTooLarge"
| "network_rpc_error CodeInvalidArgument = NcRpcTerminal"
| "network_rpc_error CodeNotFound = NcRpcTerminal"
| "network_rpc_error CodeAlreadyExists = NcRpcTerminal"
| "network_rpc_error CodePermissionDenied = NcRpcTerminal"
| "network_rpc_error CodeFailedPrecondition = NcRpcTerminal"
| "network_rpc_error CodeUnimplemented = NcRpcTerminal"
| "network_rpc_error CodeDataLoss = NcRpcTerminal"
| "network_rpc_error CodeUnauthenticated = NcRpcTerminal"
| "network_rpc_error _ = NcRpc"

text \<open>An error with its chain of sources, outermost first, by what the downcasts find.\<close>

datatype error_source = RustlsError | IoErrorOfRustls | OtherError

fun classify_transport_error :: "error_source list \<Rightarrow> NetworkConsumerError" where
  "classify_transport_error [] = NcTransport"
| "classify_transport_error (RustlsError # _) = NcTlsAuthentication"
| "classify_transport_error (IoErrorOfRustls # _) = NcTlsAuthentication"
| "classify_transport_error (OtherError # rest) = classify_transport_error rest"

section \<open>Configuration\<close>

record NetworkConsumerConfig =
  nc_endpoint_uri :: string
  nc_domain_name :: string
  nc_ca_certificate_pem :: bytes
  nc_client_certificate_pem :: bytes
  nc_client_private_key_pem :: bytes
  nc_world_alias :: string
  nc_subject_id :: bytes
  nc_coordinate_profile_sha256 :: string
  nc_maximum_rtt_ms :: u64
  nc_descriptor_pins :: "(string \<times> string) option"

text \<open>The URI parser and the TLS library are the arguments \<open>endpoint_ok\<close> and \<open>tls_ok\<close>.\<close>

definition NetworkConsumerConfig_new ::
  "(string \<Rightarrow> bool) \<Rightarrow> (bytes \<Rightarrow> bytes \<Rightarrow> bytes \<Rightarrow> bool) \<Rightarrow> string \<Rightarrow> string \<Rightarrow> bytes \<Rightarrow> bytes \<Rightarrow> bytes
     \<Rightarrow> string \<Rightarrow> bytes \<Rightarrow> string \<Rightarrow> u64 \<Rightarrow> NetworkConsumerError + NetworkConsumerConfig" where
  "NetworkConsumerConfig_new endpoint_ok tls_ok uri domain ca cert key world subject profile rtt =
     (if length subject \<noteq> 32 then Inl NcConfiguration
      else if isl (validate_canonical_sha256 profile) then Inl NcConfiguration
      else if \<not> starts_with uri ''https://'' \<or> domain = [] \<or> \<not> is_ascii domain \<or> world = []
        \<or> 64 < length world \<or> \<not> is_ascii world \<or> rtt = 0 \<or> ca = [] \<or> cert = [] \<or> key = []
      then Inl NcConfiguration
      else if \<not> endpoint_ok uri then Inl NcConfiguration
      else if \<not> tls_ok ca cert key then Inl NcConfiguration
      else Inr \<lparr>nc_endpoint_uri = uri, nc_domain_name = domain, nc_ca_certificate_pem = ca,
                nc_client_certificate_pem = cert, nc_client_private_key_pem = key,
                nc_world_alias = world, nc_subject_id = subject,
                nc_coordinate_profile_sha256 = profile, nc_maximum_rtt_ms = rtt,
                nc_descriptor_pins = None\<rparr>)"

definition with_descriptor_pins ::
  "NetworkConsumerConfig \<Rightarrow> string \<Rightarrow> string \<Rightarrow> NetworkConsumerError + NetworkConsumerConfig" where
  "with_descriptor_pins config gate fingerprint =
     (if isl (validate_canonical_sha256 gate) then Inl NcConfiguration
      else if isl (validate_canonical_sha256 fingerprint) then Inl NcConfiguration
      else if list_all (\<lambda>c. c = CHR ''0'') gate \<or> list_all (\<lambda>c. c = CHR ''0'') fingerprint
      then Inl NcConfiguration
      else Inr (config\<lparr>nc_descriptor_pins := Some (gate, fingerprint)\<rparr>))"

section \<open>One session\<close>

text \<open>
  What the environment answers to one clock probe, \<open>None\<close> for a failing random generator or
  clock, and the monotonic time at which the answer is accepted.
\<close>

record probe_io =
  pio_nonce :: "bytes option"
  pio_client_send :: "i64 option"
  pio_response :: "Code + ClockProbeResponse"
  pio_client_receive :: "i64 option"
  pio_now :: u64

definition probe_clock ::
  "TelemetryIngest \<Rightarrow> Inbox \<Rightarrow> probe_io \<Rightarrow> (NetworkConsumerError + unit) \<times> TelemetryIngest \<times> Inbox" where
  "probe_clock ti ib pio =
     (case pio_nonce pio of
        None \<Rightarrow> (Inl NcClock, ti, ib)
      | Some nonce \<Rightarrow>
        (case pio_client_send pio of
           None \<Rightarrow> (Inl NcClock, ti, ib)
         | Some client_send \<Rightarrow>
           let request = \<lparr>cpq_protocol_version = PROTOCOL_VERSION, cpq_nonce = nonce,
                          cpq_client_send_unix_ms = client_send\<rparr> in
           (case pio_response pio of
              Inl code \<Rightarrow> (Inl (network_rpc_error code), ti, ib)
            | Inr response \<Rightarrow>
              (case pio_client_receive pio of
                 None \<Rightarrow> (Inl NcClock, ti, ib)
               | Some client_receive \<Rightarrow>
                 let (result, ti', ib') =
                       accept_clock_probe ti ib request response client_receive (pio_now pio)
                 in (map_err (\<lambda>_. NcClock) result, ti', ib')))))"

datatype session_event =
    StreamMessage "Code + SubscribeResponse option" u64
  | ProbeTick probe_io

datatype channel_answer = ChannelConfigurationError | ChannelError "error_source list" | ChannelOk

record session_io =
  sio_channel :: "channel_answer option"
  sio_descriptor :: "(Code + GetDescriptorResponse) option"
  sio_probe :: "probe_io option"
  sio_subscribe :: "(Code + unit) option"
  sio_events :: "session_event list"

text \<open>The state a session works on: the ingest object, the shared inbox, the resume cursor.\<close>

type_synonym session_state = "TelemetryIngest \<times> Inbox \<times> ResumeCursor option"

definition session_message ::
  "NetworkConsumerConfig \<Rightarrow> session_state \<Rightarrow> SubscribeResponse \<Rightarrow> u64
     \<Rightarrow> (NetworkConsumerError + unit) \<times> session_state" where
  "session_message config st value now =
     (let (ti, ib, resume) = st in
      if env_world_alias value \<noteq> nc_world_alias config \<or> env_subject_id value \<noteq> nc_subject_id config
      then (Inl NcIdentity, st)
      else
        let (result, ti', ib') = ingest_accept ti ib value now in
        case result of
          Inl _ \<Rightarrow> (Inl NcIngest, ti', ib', resume)
        | Inr outcome \<Rightarrow>
            (Inr (), ti', ib',
             if outcome = InAccepted
             then Some \<lparr>cur_boot_id = env_boot_id value, cur_sequence = env_sequence value\<rparr>
             else resume))"

fun session_event_step ::
  "NetworkConsumerConfig \<Rightarrow> session_state \<Rightarrow> session_event
     \<Rightarrow> (NetworkConsumerError + unit) \<times> session_state" where
  "session_event_step config st (StreamMessage (Inl code) now) = (Inl (network_rpc_error code), st)"
| "session_event_step config st (StreamMessage (Inr None) now) = (Inl NcDisconnected, st)"
| "session_event_step config st (StreamMessage (Inr (Some value)) now) =
     session_message config st value now"
| "session_event_step config (ti, ib, resume) (ProbeTick pio) =
     (let (result, ti', ib') = probe_clock ti ib pio in (result, ti', ib', resume))"

text \<open>The loop of the session; \<open>None\<close> while it waits for the next event.\<close>

fun session_loop ::
  "NetworkConsumerConfig \<Rightarrow> session_state \<Rightarrow> session_event list
     \<Rightarrow> NetworkConsumerError option \<times> session_state" where
  "session_loop config st [] = (None, st)"
| "session_loop config st (e # es) =
     (case session_event_step config st e of
        (Inl err, st') \<Rightarrow> (Some err, st')
      | (Inr _, st') \<Rightarrow> session_loop config st' es)"

fun channel_result :: "channel_answer \<Rightarrow> NetworkConsumerError option" where
  "channel_result ChannelConfigurationError = Some NcConfiguration"
| "channel_result (ChannelError sources) = Some (classify_transport_error sources)"
| "channel_result ChannelOk = None"

definition descriptor_check :: "NetworkConsumerConfig \<Rightarrow> GetDescriptorResponse \<Rightarrow> NetworkConsumerError + unit" where
  "descriptor_check config descriptor =
     (if isl (validate_descriptor descriptor (nc_coordinate_profile_sha256 config))
      then Inl NcValidation
      else if dsc_world_alias descriptor \<noteq> nc_world_alias config then Inl NcIdentity
      else if (case nc_descriptor_pins config of
                 Some (gate, fingerprint) \<Rightarrow> dsc_gate_profile_sha256 descriptor \<noteq> gate
                   \<or> dsc_server_fingerprint descriptor \<noteq> fingerprint
               | None \<Rightarrow> False)
      then Inl NcIdentity
      else Inr ())"

text \<open>
  The session once the ingest object exists: the first probe, the subscription and the loop.
\<close>

definition session_open ::
  "NetworkConsumerConfig \<Rightarrow> session_state \<Rightarrow> session_io \<Rightarrow> NetworkConsumerError option \<times> session_state" where
  "session_open config st io =
     (let (ti, ib, resume) = st in
      case sio_probe io of
        None \<Rightarrow> (None, st)
      | Some pio \<Rightarrow>
        (case probe_clock ti ib pio of
           (Inl err, ti', ib') \<Rightarrow> (Some err, ti', ib', resume)
         | (Inr _, ti', ib') \<Rightarrow>
           (case sio_subscribe io of
              None \<Rightarrow> (None, ti', ib', resume)
            | Some (Inl code) \<Rightarrow> (Some (network_rpc_error code), ti', ib', resume)
            | Some (Inr _) \<Rightarrow> session_loop config (ti', ib', resume) (sio_events io))))"

text \<open>
  \<open>run_session\<close>: the error it returns, \<open>None\<close> while it waits (and when it is cancelled there),
  the inbox and the resume cursor. Leaving the session, by an error or by cancellation, drops
  the ingest object and so disconnects.
\<close>

definition run_session ::
  "NetworkConsumerConfig \<Rightarrow> u64 \<Rightarrow> Inbox \<times> ResumeCursor option \<Rightarrow> session_io
     \<Rightarrow> NetworkConsumerError option \<times> Inbox \<times> ResumeCursor option" where
  "run_session config generation shared io =
     (let (ib, resume) = shared in
      case sio_channel io of
        None \<Rightarrow> (None, shared)
      | Some answer \<Rightarrow>
        (case channel_result answer of
           Some err \<Rightarrow> (Some err, shared)
         | None \<Rightarrow>
           (case sio_descriptor io of
              None \<Rightarrow> (None, shared)
            | Some (Inl code) \<Rightarrow> (Some (network_rpc_error code), shared)
            | Some (Inr descriptor) \<Rightarrow>
              (case descriptor_check config descriptor of
                 Inl err \<Rightarrow> (Some err, shared)
               | Inr _ \<Rightarrow>
                 (case TelemetryIngest_new ib generation (nc_coordinate_profile_sha256 config)
                         (nc_maximum_rtt_ms config) of
                    (Inl _, ib') \<Rightarrow> (Some NcIngest, ib', resume)
                  | (Inr ti, ib') \<Rightarrow>
                    let (err, ti'', ib'', resume'') = session_open config (ti, ib', resume) io
                    in (err, snd (ingest_disconnect ti'' ib''), resume''))))))"

section \<open>Supervision\<close>

text \<open>
  \<open>run_with_reconnect\<close>: the script of session \<open>n\<close> is \<open>io n\<close>. The result is \<open>None\<close> while a
  session waits; otherwise the last error, beside the delays slept and the shared state.
\<close>

fun reconnect_rounds ::
  "NetworkConsumerConfig \<Rightarrow> u64 \<Rightarrow> nat \<Rightarrow> (nat \<Rightarrow> session_io) \<Rightarrow> nat \<Rightarrow> nat \<Rightarrow> NetworkConsumerError
     \<Rightarrow> Inbox \<times> ResumeCursor option
     \<Rightarrow> NetworkConsumerError option \<times> nat list \<times> Inbox \<times> ResumeCursor option" where
  "reconnect_rounds config initial maximum io attempt 0 last_error shared =
     (Some last_error, [], shared)"
| "reconnect_rounds config initial maximum io attempt (Suc remaining) last_error shared =
     (case (if attempt < 2 ^ 64 then checked_add initial (of_nat attempt) else None) of
        None \<Rightarrow> (Some NcConfiguration, [], shared)
      | Some generation \<Rightarrow>
        (case run_session config generation shared (io attempt) of
           (None, shared') \<Rightarrow> (None, [], shared')
         | (Some err, shared') \<Rightarrow>
           if NetworkConsumerError_class err = Terminal then (Some err, [], shared')
           else
             let (result, delays, shared'') =
                   reconnect_rounds config initial maximum io (Suc attempt) remaining err shared'
             in (result,
                 if Suc attempt < maximum then reconnect_backoff attempt # delays else delays,
                 shared'')))"

definition run_with_reconnect ::
  "NetworkConsumerConfig \<Rightarrow> u64 \<Rightarrow> nat \<Rightarrow> (nat \<Rightarrow> session_io) \<Rightarrow> Inbox \<times> ResumeCursor option
     \<Rightarrow> NetworkConsumerError option \<times> nat list \<times> Inbox \<times> ResumeCursor option" where
  "run_with_reconnect config initial maximum_sessions io shared =
     (if maximum_sessions = 0 then (Some NcConfiguration, [], shared)
      else reconnect_rounds config initial maximum_sessions io 0 maximum_sessions NcDisconnected shared)"

text \<open>
  One round of \<open>run_until_cancelled\<close>: the cancellation flag at its head, the session's script,
  and what the cancellation channel reports while the session, then the backoff, is waited for.
\<close>

datatype watch_change = ChangedTo bool | WatchClosed

record cancel_round =
  cr_cancelled :: bool
  cr_io :: session_io
  cr_session_change :: "watch_change option"
  cr_backoff_change :: "watch_change option"

fun run_until_cancelled ::
  "NetworkConsumerConfig \<Rightarrow> u64 \<Rightarrow> u64 \<Rightarrow> cancel_round list \<Rightarrow> Inbox \<times> ResumeCursor option
     \<Rightarrow> (NetworkConsumerError + unit) option \<times> Inbox \<times> ResumeCursor option" where
  "run_until_cancelled config initial attempt [] shared = (None, shared)"
| "run_until_cancelled config initial attempt (cr # rounds) shared =
     (if cr_cancelled cr then (Some (Inr ()), shared)
      else case checked_add initial attempt of
          None \<Rightarrow> (Some (Inl NcConfiguration), shared)
        | Some generation \<Rightarrow>
          (case run_session config generation shared (cr_io cr) of
             (None, shared') \<Rightarrow>
               (case cr_session_change cr of
                  None \<Rightarrow> (None, shared')
                | Some (ChangedTo False) \<Rightarrow> run_until_cancelled config initial attempt rounds shared'
                | Some _ \<Rightarrow> (Some (Inr ()), shared'))
           | (Some err, shared') \<Rightarrow>
               if NetworkConsumerError_class err = Terminal then (Some (Inl err), shared')
               else (case checked_add attempt 1 of
                   None \<Rightarrow> (Some (Inl NcConfiguration), shared')
                 | Some attempt' \<Rightarrow>
                   (case cr_backoff_change cr of
                      Some (ChangedTo True) \<Rightarrow> (Some (Inr ()), shared')
                    | Some WatchClosed \<Rightarrow> (Some (Inr ()), shared')
                    | _ \<Rightarrow> run_until_cancelled config initial attempt' rounds shared'))))"

section \<open>A session reaches the inbox only through the sender\<close>

definition inbox_steps :: "Inbox \<Rightarrow> Inbox \<Rightarrow> bool" where
  "inbox_steps ib ib' \<longleftrightarrow> (\<exists>calls. ib' = fold sender_effect calls ib)"

lemma inbox_steps_refl [simp, intro]: "inbox_steps ib ib"
  unfolding inbox_steps_def by (rule exI [of _ "[]"]) simp

lemma inbox_steps_trans [trans]: "inbox_steps a b \<Longrightarrow> inbox_steps b c \<Longrightarrow> inbox_steps a c"
  unfolding inbox_steps_def by (metis fold_append comp_apply)

lemma inbox_steps_calls [simp, intro]:
  "inbox_steps ib (snd (sender_connect ib g))"
  "inbox_steps ib (snd (publish_position ib frame t))"
  "inbox_steps ib (snd (sender_disconnect ib g))"
  "inbox_steps ib (snd (sender_clock_invalid ib g reason))"
  unfolding inbox_steps_def
  by (rule exI [of _ "[CallConnect g]"] exI [of _ "[CallPublish frame t]"]
      exI [of _ "[CallDisconnect g]"] exI [of _ "[CallClockInvalid g reason]"]; simp)+

lemma inbox_steps_reachable: "inbox_steps ib ib' \<Longrightarrow> agent_reachable ib \<Longrightarrow> agent_reachable ib'"
  unfolding inbox_steps_def by (auto intro: agent_reachable_calls)

lemma queue_clock_invalid_generation [simp]:
  "ib_generation (snd (queue_clock_invalid ib g reason)) = ib_generation ib"
  by (simp add: queue_clock_invalid_def push_control_def case_prod_beta Let_def)

lemma clock_invalid_generation [simp]:
  "ib_generation (snd (sender_clock_invalid ib g reason)) = ib_generation ib"
  by (simp add: sender_clock_invalid_def count_old_generation_drop_def count_queue_full_drop_def
      case_prod_beta Let_def)

lemma publish_sequenced_generation [simp]:
  "ib_generation (snd (publish_sequenced ib frame t)) = ib_generation ib"
  by (simp add: publish_sequenced_def publish_accepted_def Let_def split: sum.split)

lemma publish_position_generation [simp]:
  "ib_generation (snd (publish_position ib frame t)) = ib_generation ib"
  by (simp add: publish_position_def count_old_generation_drop_def retire_active_boot_def Let_def
      split: option.split)

text \<open>What the steps of a session keep: the ingest object's connection and the inbox generation.\<close>

definition session_keeps :: "TelemetryIngest \<times> Inbox \<Rightarrow> TelemetryIngest \<times> Inbox \<Rightarrow> bool" where
  "session_keeps a b \<longleftrightarrow>
     ti_generation (fst b) = ti_generation (fst a) \<and> ti_connected (fst b) = ti_connected (fst a)
     \<and> ib_generation (snd b) = ib_generation (snd a) \<and> inbox_steps (snd a) (snd b)"

lemma session_keeps_refl [simp, intro]: "session_keeps a a"
  by (simp add: session_keeps_def)

lemma session_keeps_trans: "session_keeps a b \<Longrightarrow> session_keeps b c \<Longrightarrow> session_keeps a c"
  by (auto simp: session_keeps_def intro: inbox_steps_trans)

lemma accept_clock_probe_inner_keeps:
  "accept_clock_probe_inner ti q r t u = (res, ti') \<Longrightarrow>
     ti_generation ti' = ti_generation ti \<and> ti_connected ti' = ti_connected ti"
  by (auto simp: accept_clock_probe_inner_def split: sum.splits if_splits prod.splits)

lemma accept_clock_probe_keeps:
  "accept_clock_probe ti ib q r t u = (res, ti', ib') \<Longrightarrow> session_keeps (ti, ib) (ti', ib')"
  by (auto simp: accept_clock_probe_def session_keeps_def Let_def split: prod.splits if_splits
      dest: accept_clock_probe_inner_keeps)

lemma ingest_accept_keeps:
  "ingest_accept ti ib v t = (res, ti', ib') \<Longrightarrow> session_keeps (ti, ib) (ti', ib')"
proof (cases "ClockEstimator_current (ti_clock ti) t")
  case (Some e)
  assume a: "ingest_accept ti ib v t = (res, ti', ib')"
  show ?thesis
  proof (cases "validate_envelope v (ti_coordinate_profile_sha256 ti)")
    case (Inr u)
    with a Some have "ti' = ti" "ib' = snd (publish_position ib (ingest_frame ti v e) t)"
      by (auto simp: ingest_accept_def Let_def split: prod.splits)
    then show ?thesis by (simp add: session_keeps_def)
  qed (use a in \<open>simp add: ingest_accept_def\<close>)
qed (auto simp: ingest_accept_def session_keeps_def split: sum.splits if_splits)

lemma probe_clock_keeps:
  "probe_clock ti ib pio = (res, ti', ib') \<Longrightarrow> session_keeps (ti, ib) (ti', ib')"
  by (auto simp: probe_clock_def Let_def split: option.splits sum.splits prod.splits
      dest: accept_clock_probe_keeps)

lemma session_event_step_keeps:
  assumes "session_event_step config (ti, ib, resume) e = (res, ti', ib', resume')"
  shows "session_keeps (ti, ib) (ti', ib')"
    "resume' = resume \<or> (\<exists>v now. e = StreamMessage (Inr (Some v)) now
       \<and> resume' = Some \<lparr>cur_boot_id = env_boot_id v, cur_sequence = env_sequence v\<rparr>)"
  using assms
  by (cases "(config, (ti, ib, resume), e)" rule: session_event_step.cases;
      auto simp: session_message_def Let_def split: if_splits prod.splits sum.splits
        dest: ingest_accept_keeps probe_clock_keeps)+

lemma session_loop_keeps:
  assumes "session_loop config (ti, ib, resume) es = (res, ti', ib', resume')"
  shows "session_keeps (ti, ib) (ti', ib')
    \<and> (resume' = resume \<or> (\<exists>v now. StreamMessage (Inr (Some v)) now \<in> set es
       \<and> resume' = Some \<lparr>cur_boot_id = env_boot_id v, cur_sequence = env_sequence v\<rparr>))"
  using assms
proof (induction es arbitrary: ti ib resume)
  case (Cons e es)
  obtain r ti1 ib1 resume1 where
    step: "session_event_step config (ti, ib, resume) e = (r, ti1, ib1, resume1)"
    by (cases "session_event_step config (ti, ib, resume) e") auto
  note k = session_event_step_keeps [OF step]
  show ?case
  proof (cases r)
    case (Inl err)
    with Cons.prems step k show ?thesis by auto
  next
    case (Inr u)
    then have "session_loop config (ti1, ib1, resume1) es = (res, ti', ib', resume')"
      using Cons.prems step by simp
    from Cons.IH [OF this] k show ?thesis by (auto intro: session_keeps_trans)
  qed
qed simp

lemma session_open_keeps:
  assumes "session_open config (ti, ib, resume) io = (res, ti', ib', resume')"
  shows "session_keeps (ti, ib) (ti', ib')
    \<and> (resume' = resume \<or> (\<exists>v now. StreamMessage (Inr (Some v)) now \<in> set (sio_events io)
       \<and> resume' = Some \<lparr>cur_boot_id = env_boot_id v, cur_sequence = env_sequence v\<rparr>))"
proof (cases "sio_probe io")
  case None
  with assms show ?thesis by (simp add: session_open_def)
next
  case (Some pio)
  obtain r ti1 ib1 where pr: "probe_clock ti ib pio = (r, ti1, ib1)"
    by (cases "probe_clock ti ib pio") auto
  note k = probe_clock_keeps [OF pr]
  show ?thesis
  proof (cases "\<not> isl r \<and> sio_subscribe io = Some (Inr ())")
    case True
    then have "session_loop config (ti1, ib1, resume) (sio_events io) = (res, ti', ib', resume')"
      using assms Some pr by (cases r) (auto simp: session_open_def)
    from session_loop_keeps [OF this] k show ?thesis by (auto intro: session_keeps_trans)
  next
    case False
    then have "ti' = ti1 \<and> ib' = ib1 \<and> resume' = resume"
      using assms Some pr
      by (cases r) (auto simp: session_open_def split: option.splits sum.splits)
    with k show ?thesis by simp
  qed
qed

lemma TelemetryIngest_new_cases:
  assumes "TelemetryIngest_new ib g profile rtt = (res, ib')"
  shows "inbox_steps ib ib'
    \<and> (case res of
         Inl _ \<Rightarrow> ib_connected ib' = ib_connected ib \<and> ib_generation ib' = ib_generation ib
       | Inr ti \<Rightarrow> ti_generation ti = g \<and> ti_connected ti \<and> ib_generation ib' = g \<and> g \<noteq> 0)"
proof -
  have "ib' = ib \<or> ib' = snd (sender_connect ib g)"
    using assms by (auto simp: TelemetryIngest_new_def Let_def split: sum.splits if_splits prod.splits)
  then have "inbox_steps ib ib'" by auto
  with assms show ?thesis
    by (auto simp: TelemetryIngest_new_def sender_connect_def push_control_def Let_def
        count_old_generation_drop_def count_queue_full_drop_def
        split: sum.splits if_splits prod.splits)
qed

lemma disconnect_closes: "\<not> (ib_connected (snd (sender_disconnect ib g)) \<and> ib_generation ib = g \<and> g \<noteq> 0)"
  by (auto simp: sender_disconnect_def push_control_def count_queue_full_drop_def case_prod_beta Let_def)

lemma disconnect_generation [simp]: "ib_generation (snd (sender_disconnect ib g)) = ib_generation ib"
  by (simp add: sender_disconnect_def push_control_def count_queue_full_drop_def
      count_old_generation_drop_def case_prod_beta Let_def)

definition session_opens :: "NetworkConsumerConfig \<Rightarrow> session_io \<Rightarrow> bool" where
  "session_opens config io \<longleftrightarrow> sio_channel io = Some ChannelOk
     \<and> (\<exists>d. sio_descriptor io = Some (Inr d) \<and> descriptor_check config d = Inr ())"

lemma run_session_unopened:
  assumes "\<not> session_opens config io"
  shows "snd (run_session config g shared io) = shared"
proof -
  obtain ib resume where shared: "shared = (ib, resume)" by (cases shared)
  have "channel_result a = None \<longleftrightarrow> a = ChannelOk" for a by (cases a) auto
  with assms shared show ?thesis
    by (auto simp: run_session_def session_opens_def split: option.splits sum.splits)
qed

lemma run_session_opened:
  assumes "session_opens config io"
  shows "run_session config g (ib, resume) io =
     (case TelemetryIngest_new ib g (nc_coordinate_profile_sha256 config) (nc_maximum_rtt_ms config) of
        (Inl _, ib') \<Rightarrow> (Some NcIngest, ib', resume)
      | (Inr ti, ib') \<Rightarrow>
        let (err, ti'', ib'', resume'') = session_open config (ti, ib', resume) io
        in (err, snd (ingest_disconnect ti'' ib''), resume''))"
  using assms by (auto simp: run_session_def session_opens_def)

lemma run_session_shared:
  assumes "run_session config g (ib, resume) io = (err, ib', resume')"
  shows "inbox_steps ib ib'
    \<and> (ib_connected ib' \<longrightarrow> ib_connected ib \<and> ib_generation ib' = ib_generation ib)
    \<and> (resume' = resume \<or> (\<exists>v now. StreamMessage (Inr (Some v)) now \<in> set (sio_events io)
       \<and> resume' = Some \<lparr>cur_boot_id = env_boot_id v, cur_sequence = env_sequence v\<rparr>))"
proof (cases "session_opens config io")
  case False
  with run_session_unopened [OF this, of g "(ib, resume)"] assms show ?thesis by simp
next
  case True
  obtain res ib1 where new: "TelemetryIngest_new ib g (nc_coordinate_profile_sha256 config)
      (nc_maximum_rtt_ms config) = (res, ib1)" by fastforce
  note n = TelemetryIngest_new_cases [OF new]
  show ?thesis
  proof (cases res)
    case (Inl e)
    with assms n new show ?thesis by (auto simp: run_session_opened [OF True])
  next
    case (Inr ti)
    obtain err2 ti2 ib2 where op: "session_open config (ti, ib1, resume) io = (err2, ti2, ib2, resume')"
      and ib': "ib' = snd (ingest_disconnect ti2 ib2)"
      using assms new Inr by (auto simp: run_session_opened [OF True] Let_def split: prod.splits)
    note k = session_open_keeps [OF op]
    have gen: "ti_generation ti2 = g" "ti_connected ti2" "ib_generation ib2 = g" "g \<noteq> 0"
      using k n Inr by (auto simp: session_keeps_def)
    then have ib'': "ib' = snd (sender_disconnect ib2 g)" by (simp add: ib' ingest_disconnect_def)
    have "inbox_steps ib ib2" using n k by (auto simp: session_keeps_def intro: inbox_steps_trans)
    then have "inbox_steps ib ib'" unfolding ib'' by (blast intro: inbox_steps_trans)
    with k gen disconnect_closes [of ib2 g] show ?thesis by (simp add: ib'')
  qed
qed

lemma run_until_cancelled_steps:
  assumes "run_until_cancelled config initial attempt rounds (ib, resume) = (res, ib', resume')"
  shows "inbox_steps ib ib' \<and> (ib_connected ib' \<longrightarrow> ib_connected ib)"
  using assms
proof (induction rounds arbitrary: attempt ib resume)
  case (Cons cr rounds)
  show ?case
  proof (cases "cr_cancelled cr \<or> checked_add initial attempt = None")
    case True
    with Cons.prems show ?thesis by (auto split: option.splits if_splits)
  next
    case False
    then obtain g where g: "\<not> cr_cancelled cr" "checked_add initial attempt = Some g" by auto
    obtain err ib1 resume1 where
      run: "run_session config g (ib, resume) (cr_io cr) = (err, ib1, resume1)"
      by (cases "run_session config g (ib, resume) (cr_io cr)") auto
    note k = run_session_shared [OF run]
    consider "ib' = ib1" | a where
      "run_until_cancelled config initial a rounds (ib1, resume1) = (res, ib', resume')"
      using Cons.prems g run
      by (auto split: option.splits if_splits watch_change.splits bool.splits)
    then show ?thesis
    proof cases
      case 1
      with k show ?thesis by simp
    next
      case 2
      from Cons.IH [OF this] k show ?thesis by (auto intro: inbox_steps_trans)
    qed
  qed
qed simp

section \<open>Reconnecting\<close>

lemma reconnect_rounds_delays:
  assumes "reconnect_rounds config initial maximum io attempt remaining last_error shared
      = (result, delays, shared')"
    and "attempt + remaining = maximum" and "NetworkConsumerError_class last_error = Transient"
  shows "delays = map reconnect_backoff [attempt ..< attempt + length delays]
    \<and> attempt + length delays \<le> max attempt (maximum - 1)
    \<and> (\<forall>err. result = Some err \<and> NetworkConsumerError_class err = Transient \<longrightarrow>
         attempt + length delays = max attempt (maximum - 1))"
  using assms
proof (induction remaining arbitrary: attempt last_error shared result delays)
  case 0
  then show ?case by auto
next
  case (Suc remaining)
  let ?gen = "if attempt < 2 ^ 64 then checked_add initial (of_nat attempt) else None"
  have top: "attempt < maximum" using Suc.prems(2) by simp
  show ?case
  proof (cases ?gen)
    case None
    with Suc.prems(1) show ?thesis by auto
  next
    case (Some g)
    obtain err shared1 where run: "run_session config g shared (io attempt) = (err, shared1)"
      by (cases "run_session config g shared (io attempt)")
    show ?thesis
    proof (cases "err = None \<or> NetworkConsumerError_class (the err) = Terminal")
      case True
      with Suc.prems(1) Some run show ?thesis by (auto split: option.splits if_splits)
    next
      case False
      then obtain e where e: "err = Some e" "NetworkConsumerError_class e \<noteq> Terminal" by auto
      then have transient: "NetworkConsumerError_class e = Transient"
        by (cases "NetworkConsumerError_class e") auto
      obtain result2 delays2 where rest: "reconnect_rounds config initial maximum io (Suc attempt)
          remaining e shared1 = (result2, delays2, shared')"
        and eqs: "result = result2"
          "delays = (if Suc attempt < maximum then reconnect_backoff attempt # delays2 else delays2)"
        using Suc.prems(1) Some run e
        by (auto simp: Let_def split: prod.splits)
      have "Suc attempt + remaining = maximum" using Suc.prems(2) by simp
      note ih = Suc.IH [OF rest this transient]
      show ?thesis
      proof (cases "Suc attempt < maximum")
        case True
        have "[attempt ..< attempt + length delays] =
            attempt # [Suc attempt ..< Suc attempt + length delays2]"
          using True eqs(2) by (simp add: upt_conv_Cons del: upt_Suc)
        with True ih eqs show ?thesis by (simp del: upt_Suc)
      next
        case False
        with top have "maximum = Suc attempt" by simp
        with ih eqs show ?thesis by auto
      qed
    qed
  qed
qed

section \<open>What an accepted envelope becomes\<close>

lemma ingest_accept_published:
  assumes "ingest_accept ti ib v t = (Inr outcome, ti', ib')"
  obtains e where "validate_envelope v (ti_coordinate_profile_sha256 ti) = Inr ()"
    "ClockEstimator_current (ti_clock ti) t = Some e" "ti' = ti"
    "publish_position ib (ingest_frame ti v e) t = (Inr outcome, ib')"
  using assms
  by (auto simp: ingest_accept_def Let_def split: sum.splits option.splits if_splits prod.splits)

section \<open>Properties\<close>


definition sample_consumer :: NetworkConsumerConfig where
  "sample_consumer = \<lparr>nc_endpoint_uri = ''https://a'', nc_domain_name = ''a'',
     nc_ca_certificate_pem = [1], nc_client_certificate_pem = [1], nc_client_private_key_pem = [1],
     nc_world_alias = ''world-a'', nc_subject_id = replicate 32 7,
     nc_coordinate_profile_sha256 = replicate 64 (CHR ''a''), nc_maximum_rtt_ms = 200,
     nc_descriptor_pins = None\<rparr>"

definition sample_session_io :: session_io where
  "sample_session_io = \<lparr>sio_channel = Some ChannelOk,
     sio_descriptor = Some (Inr \<lparr>dsc_protocol_version = PROTOCOL_VERSION, dsc_agent_version = ''1'',
        dsc_rest_server_version = ''1'', dsc_server_fingerprint = replicate 64 (CHR ''b''),
        dsc_gate_profile_sha256 = replicate 64 (CHR ''c''), dsc_selected_interval_ms = 500,
        dsc_world_alias = ''world-a'', dsc_coordinate_space = 1,
        dsc_coordinate_profile_sha256 = replicate 64 (CHR ''a'')\<rparr>),
     sio_probe = None, sio_subscribe = None, sio_events = []\<rparr>"

definition sample_rounds :: "cancel_round list" where
  "sample_rounds = [\<lparr>cr_cancelled = False, cr_io = sample_session_io,
     cr_session_change = Some (ChangedTo True), cr_backoff_change = None\<rparr>]"


text \<open>
  C35: an accepted envelope is published with honest age. When the ingest object accepts one,
  unexpired clock evidence exists, and the inbox holds a sample of the envelope's boot, sequence
  and coordinates, received now with the age at emission plus the full round trip as its age
  bound, and with the heading exactly as sent.
\<close>

theorem ingest_publishes_with_evidence:
  assumes "ingest_accept ti ib v t = (Inr InAccepted, ti', ib')"
  shows "\<exists>e p. ClockEstimator_current (ti_clock ti) t = Some e
    \<and> ib_pending_sample ib' = Some (Sample p)
    \<and> ps_clock p = received_with_age (ClockEstimate_age_upper_bound_ms e (env_age_at_emit_ms v)) t
    \<and> (ps_agent_boot_id p, ps_sequence p) = (env_boot_id v, env_sequence v)
    \<and> (ps_x p, ps_y p, ps_z p) = (env_position_x v, env_position_y v, env_position_z v)
    \<and> ps_heading p = env_heading_degrees v"
proof -
  obtain e where e: "validate_envelope v (ti_coordinate_profile_sha256 ti) = Inr ()"
    "ClockEstimator_current (ti_clock ti) t = Some e"
    "publish_position ib (ingest_frame ti v e) t = (Inr InAccepted, ib')"
    using assms by (rule ingest_accept_published)
  then have "fst (publish_position ib (ingest_frame ti v e) t) = Inr InAccepted" by simp
  from accepted_frame_sample [OF this] obtain p where
    p: "ib_pending_sample ib' = Some (Sample p)" and
    new: "PositionSample_new (env_world_alias v) (env_subject_id v) (env_boot_id v)
      (ti_generation ti) (env_sequence v) (env_position_x v) (env_position_y v) (env_position_z v)
      (env_heading_degrees v)
      (received_with_age (ClockEstimate_age_upper_bound_ms e (env_age_at_emit_ms v)) t) = Inr p"
    using e(3) by (auto simp: ingest_frame_def)
  have "case env_heading_degrees v of None \<Rightarrow> True
      | Some h \<Rightarrow> \<exists>q. h = FFin q \<and> 0 \<le> q \<and> q < 360"
    using e(1) by (auto simp: validate_envelope_def and_then_eq_Inr validate_heading_Inr
        split: if_splits option.splits)
  then have "map_option (\<lambda>h. fl_rem_euclid f32_fmt h (f32_lit 360)) (env_heading_degrees v)
      = env_heading_degrees v"
    by (auto simp: heading_normalised split: option.splits)
  with new e(2) p show ?thesis
    by (auto simp: PositionSample_new_def split: if_splits)
qed

definition ingest_sample_envelope :: SubscribeResponse where
  "ingest_sample_envelope =
     \<lparr>env_protocol_version = PROTOCOL_VERSION, env_world_alias = ''world-a'',
      env_subject_id = replicate 32 7, env_boot_id = replicate 16 1, env_sequence = 5,
      env_rest_completed_at_unix_ms = 1, env_age_at_emit_ms = 40, env_position_x = FFin 1,
      env_position_y = FFin 2, env_position_z = FFin 3, env_heading_degrees = Some (FFin 90),
      env_heading_source = 1, env_trace_id = replicate 16 0, env_coordinate_space = 1,
      env_coordinate_profile_sha256 = replicate 64 (CHR ''a'')\<rparr>"

definition sample_ingest :: TelemetryIngest where
  "sample_ingest = \<lparr>ti_generation = 1, ti_coordinate_profile_sha256 = replicate 64 (CHR ''a''),
     ti_clock = \<lparr>clk_maximum_rtt_ms = 200, clk_current = Some sample_estimate\<rparr>,
     ti_clock_invalid_emitted = False, ti_clock_was_established = True, ti_connected = True\<rparr>"

lemma ingest_sample_envelope_valid:
  "validate_envelope ingest_sample_envelope (replicate 64 (CHR ''a'')) = Inr ()"
  by (simp add: validate_envelope_def ingest_sample_envelope_def and_then_eq_Inr alias_ok_def
      is_ascii_def validate_heading_Inr sha256_text_def list_all_iff is_lower_hex_def)

lemma sample_ingest_current:
  "ClockEstimator_current (ti_clock sample_ingest) 100 = Some sample_estimate"
  by (simp add: sample_ingest_def ClockEstimator_current_def sample_estimate_def sat_sub_def
      ESTIMATE_EXPIRY_ms_def)

lemma sample_ingest_accepts:
  "fst (ingest_accept sample_ingest (sender_effect (CallConnect 1) sample_inbox)
     ingest_sample_envelope 100) = Inr InAccepted"
proof -
  have "fst (publish_position (sender_effect (CallConnect 1) sample_inbox)
      (ingest_frame sample_ingest ingest_sample_envelope sample_estimate) 100) = Inr InAccepted"
    by (simp add: sample_inbox_value sample_run_defs ingest_frame_def sample_ingest_def
        ingest_sample_envelope_def)
  moreover have "validate_envelope ingest_sample_envelope
      (ti_coordinate_profile_sha256 sample_ingest) = Inr ()"
    using ingest_sample_envelope_valid by (simp add: sample_ingest_def)
  ultimately show ?thesis
    by (simp add: ingest_accept_def sample_ingest_current case_prod_beta Let_def)
qed

theorem ingest_publishes_with_evidence_witness:
  "\<exists>p. ib_pending_sample (snd (snd (ingest_accept sample_ingest
        (sender_effect (CallConnect 1) sample_inbox) ingest_sample_envelope 100))) = Some (Sample p)
    \<and> ps_heading p = Some (FFin 90)"
proof -
  obtain ti' ib' where run: "ingest_accept sample_ingest (sender_effect (CallConnect 1) sample_inbox)
      ingest_sample_envelope 100 = (Inr InAccepted, ti', ib')"
    using sample_ingest_accepts
    by (cases "ingest_accept sample_ingest (sender_effect (CallConnect 1) sample_inbox)
      ingest_sample_envelope 100") auto
  from ingest_publishes_with_evidence [OF run] run show ?thesis
    by (auto simp: ingest_sample_envelope_def)
qed

text \<open>
  Missing clock evidence is reported once: after an envelope was refused for want of
  evidence, further envelopes refused for it do not touch the inbox at all.
\<close>

lemma clock_loss_reported_once:
  assumes "ingest_accept ti ib v t = (Inl IngestClockUnavailable, ti', ib')"
    and "ingest_accept ti' ib2 v2 t2 = (Inl IngestClockUnavailable, ti3, ib3)"
  shows "ib3 = ib2 \<and> ti3 = ti'"
proof -
  have "ti_clock_invalid_emitted ti'"
    using assms(1) by (auto simp: ingest_accept_def Let_def map_err_def
        split: sum.splits option.splits if_splits prod.splits)
  with assms(2) show ?thesis
    by (auto simp: ingest_accept_def Let_def map_err_def
        split: sum.splits option.splits if_splits prod.splits)
qed

lemma clock_loss_reported_once_example:
  "\<exists>ti' ib'. ingest_accept (sample_ingest\<lparr>ti_clock := ClockEstimator_new 200\<rparr>) sample_inbox
       ingest_sample_envelope 100 = (Inl IngestClockUnavailable, ti', ib')
    \<and> snd (snd (ingest_accept ti' ib' ingest_sample_envelope 120)) = ib'"
proof -
  let ?ti = "sample_ingest\<lparr>ti_clock := ClockEstimator_new 200, ti_clock_invalid_emitted := True\<rparr>"
  let ?ib = "snd (sender_clock_invalid sample_inbox 1 EvidenceExpired)"
  have first: "ingest_accept (sample_ingest\<lparr>ti_clock := ClockEstimator_new 200\<rparr>) sample_inbox
       ingest_sample_envelope 100 = (Inl IngestClockUnavailable, ?ti, ?ib)"
    using ingest_sample_envelope_valid
    by (simp add: ingest_accept_def sample_ingest_def ClockEstimator_new_def ClockEstimator_current_def)
  have second: "ingest_accept ?ti ?ib ingest_sample_envelope 120 = (Inl IngestClockUnavailable, ?ti, ?ib)"
    using ingest_sample_envelope_valid
    by (simp add: ingest_accept_def sample_ingest_def ClockEstimator_new_def ClockEstimator_current_def)
  from clock_loss_reported_once [OF first second] first second show ?thesis by auto
qed

text \<open>
  Reconnecting is bounded and patient: the delays slept are the backoff schedule from its
  start, fewer than the allowed sessions, and giving up with a transient failure means that
  every allowed session was tried.
\<close>

lemma reconnect_tries_every_session:
  assumes "run_with_reconnect config initial maximum io shared = (result, delays, shared')"
  shows "delays = map reconnect_backoff [0 ..< length delays] \<and> length delays \<le> maximum - 1
    \<and> (\<forall>err. result = Some err \<and> NetworkConsumerError_class err = Transient \<longrightarrow>
         length delays = maximum - 1)"
  using assms reconnect_rounds_delays [of config initial maximum io 0 maximum NcDisconnected shared]
  by (auto simp: run_with_reconnect_def split: if_splits)

lemma reconnect_tries_every_session_example:
  "length (fst (snd (run_with_reconnect sample_consumer 1 3
     (\<lambda>_. sample_session_io\<lparr>sio_channel := Some (ChannelError [OtherError])\<rparr>) (sample_inbox, None)))) = 2"
proof -
  let ?io = "\<lambda>_ :: nat. sample_session_io\<lparr>sio_channel := Some (ChannelError [OtherError])\<rparr>"
  have one: "run_session sample_consumer g (sample_inbox, None) (?io n) =
      (Some NcTransport, sample_inbox, None)" for g n
    by (simp add: run_session_def)
  have err: "fst (run_with_reconnect sample_consumer 1 3 ?io (sample_inbox, None)) = Some NcTransport"
    using one by (simp add: run_with_reconnect_def numeral_3_eq_3 checked_add_def case_prod_beta Let_def)
  obtain result delays shared' where
    run: "run_with_reconnect sample_consumer 1 3 ?io (sample_inbox, None) = (result, delays, shared')"
    by (cases "run_with_reconnect sample_consumer 1 3 ?io (sample_inbox, None)") auto
  with err reconnect_tries_every_session [OF run] show ?thesis by simp
qed

lemma reused_generation_refused:
  "ib_generation ib = g \<Longrightarrow> session_opens config io \<Longrightarrow>
     run_session config g (ib, resume) io = (Some NcIngest, ib, resume)
     \<or> run_session config g (ib, resume) io = (Some NcIngest, snd (sender_connect ib g), resume)"
  by (auto simp: run_session_opened TelemetryIngest_new_def sender_connect_def split: sum.splits)

text \<open>
  C39: a change of the cancellation flag to \<open>false\<close> ends the consumer. It drops the running
  session and starts the next one on the same generation; the inbox refuses a generation it has
  seen, which counts as a terminal failure, so the consumer stops although nothing was cancelled.
\<close>

theorem uncancelled_change_ends_consumer:
  assumes "checked_add initial attempt = Some g"
    and "run_session config g (ib, resume) (cr_io cr) = (None, ib1, resume1)"
    and "ib_generation ib1 = g" and "\<not> cr_cancelled cr" and "cr_session_change cr = Some (ChangedTo False)"
    and "\<not> cr_cancelled cr2" and "session_opens config (cr_io cr2)"
  shows "fst (run_until_cancelled config initial attempt (cr # cr2 # rounds) (ib, resume))
    = Some (Inl NcIngest)"
  using assms reused_generation_refused [OF assms(3,7), of resume1] by auto

definition uncancelled_round :: cancel_round where
  "uncancelled_round = \<lparr>cr_cancelled = False, cr_io = sample_session_io,
     cr_session_change = Some (ChangedTo False), cr_backoff_change = None\<rparr>"

lemma sample_session_opens: "session_opens sample_consumer sample_session_io"
  by (simp add: session_opens_def sample_session_io_def sample_consumer_def descriptor_check_def
      validate_descriptor_def validate_protocol_def validate_world_alias_def is_ascii_def
      validate_canonical_sha256_def validate_coordinate_binding_def CoordinateSpace_try_from_def
      list_all_iff is_lower_hex_def is_ascii_digit_def)

lemma sample_session_waits:
  "\<exists>ib1. run_session sample_consumer 1 (sample_inbox, None) sample_session_io = (None, ib1, None)
    \<and> ib_generation ib1 = 1"
proof -
  obtain res ib1 where new: "TelemetryIngest_new sample_inbox 1
      (nc_coordinate_profile_sha256 sample_consumer) (nc_maximum_rtt_ms sample_consumer) = (res, ib1)"
    by fastforce
  have "\<not> isl res"
    using new by (auto simp: TelemetryIngest_new_def sample_consumer_def validate_canonical_sha256_def
        list_all_iff is_lower_hex_def is_ascii_digit_def sample_inbox_value sample_run_defs)
  then obtain ti where ti: "res = Inr ti" by (cases res) auto
  have "ib_generation ib1 = 1" using TelemetryIngest_new_cases [OF new] ti by simp
  moreover have "sio_probe sample_session_io = None" by (simp add: sample_session_io_def)
  ultimately show ?thesis
    using new ti by (simp add: run_session_opened [OF sample_session_opens] session_open_def
        ingest_disconnect_def)
qed

theorem uncancelled_change_ends_consumer_witness:
  "fst (run_until_cancelled sample_consumer 1 0 [uncancelled_round, uncancelled_round]
     (sample_inbox, None)) = Some (Inl NcIngest)"
proof -
  obtain ib1 where run: "run_session sample_consumer 1 (sample_inbox, None) (cr_io uncancelled_round)
      = (None, ib1, None)" "ib_generation ib1 = 1"
    using sample_session_waits by (auto simp: uncancelled_round_def)
  show ?thesis
  proof (rule uncancelled_change_ends_consumer [OF _ run])
    show "checked_add 1 0 = Some (1 :: u64)" by (simp add: checked_add_def)
  qed (simp_all add: uncancelled_round_def sample_session_opens)
qed

end
