(* ===== verification/Local_Position.thy ===== *)
theory Local_Position
  imports Server_Agent State_Replay
begin

unbundle bit_operations_syntax

text \<open>
  The position of the player read from the memory of the game on the same machine,
  \<open>crates/pal-overlay-win/src/local_position_source.rs\<close>: a pump that walks a fixed pointer chain of one
  exact build, decodes the camera block and publishes it through the channel of \<open>Server_Agent\<close>.

  The reader of the process is the trait \<open>LocalPositionMemoryReader\<close>, an argument: its answers may be
  anything and its state (the process) may change between two steps. Addresses are those of a 64-bit
  target, so \<open>usize\<close> is a 64-bit word.
\<close>

section \<open>The profile of the supported build\<close>

type_synonym usize = "64 word"

definition EXECUTABLE_SHA256 :: bytes where
  "EXECUTABLE_SHA256 =
     [0xfe, 0x3c, 0x15, 0x06, 0x45, 0x24, 0xba, 0xe1, 0x94, 0x78, 0x52, 0x46, 0x7c, 0x4f, 0x92, 0xbc,
      0x22, 0x46, 0x9a, 0xcc, 0x03, 0x3a, 0x3d, 0x3c, 0x80, 0x31, 0xea, 0xb4, 0x32, 0x4e, 0x41, 0xe8]"

definition BUILD_ID :: u64 where "BUILD_ID = 24575825"
definition EXECUTABLE_FILE_SIZE :: u64 where "EXECUTABLE_FILE_SIZE = 161397248"
definition LOADED_MODULE_SIZE :: usize where "LOADED_MODULE_SIZE = 167432192"
definition ROOT_RVA :: usize where "ROOT_RVA = 0x9667260"
definition POINTER_READ_OFFSETS :: "usize list" where
  "POINTER_READ_OFFSETS = [0, 0x1b8, 0x38, 0, 0x30, 0x348, 0x298]"
definition CAMERA_OFFSET :: usize where "CAMERA_OFFSET = 0x128"
definition CAMERA_BLOCK_BYTES :: nat where "CAMERA_BLOCK_BYTES = 40"
definition SAMPLE_INTERVAL_MS :: u64 where "SAMPLE_INTERVAL_MS = 100"
definition MAX_ABSOLUTE_WORLD_COORDINATE :: fl where "MAX_ABSOLUTE_WORLD_COORDINATE = FFin 2000000"
definition MIN_PLAUSIBLE_YAW :: fl where "MIN_PLAUSIBLE_YAW = FFin (- 360)"
definition MAX_PLAUSIBLE_YAW :: fl where "MAX_PLAUSIBLE_YAW = FFin 360"

section \<open>Data\<close>

record LocalProcessIdentity =
  lp_build_id :: u64
  lp_executable_sha256 :: bytes
  lp_executable_file_size :: u64
  lp_module_base :: usize
  lp_module_size :: usize

text \<open>
  The reader: \<open>identity\<close>, the two ends of \<open>with_read_session\<close> (which fails before or after the operation
  it brackets) and \<open>read_exact\<close>, which fails or fills a buffer of the given length.
\<close>

record 'r memory_reader =
  mr_identity :: "'r \<Rightarrow> LocalProcessIdentity option \<times> 'r"
  mr_open :: "'r \<Rightarrow> bool \<times> 'r"
  mr_read :: "usize \<Rightarrow> nat \<Rightarrow> 'r \<Rightarrow> (nat \<Rightarrow> u8) option \<times> 'r"
  mr_close :: "'r \<Rightarrow> bool \<times> 'r"

record LocalPositionSourceIdentity =
  lsi_world_alias :: string
  lsi_subject_id :: bytes
  lsi_boot_id :: bytes
  lsi_starting_generation :: u64

datatype LocalPositionSourceError =
    InvalidSourceIdentity | ExactBuildMismatch | StillActive | GenerationOverflow | HandoffRejected

datatype LocalPositionTerminalReason =
    TrIdentityMismatch | TrReadFailed | TrNoActiveWorld | TrInvalidPointer | TrUnstablePointerChain
  | TrInvalidPosition | TrMonotonicRegression | TrSequenceOverflow | TrHandoffRejected

datatype LocalPositionStep =
    StepIdle
  | StepUnavailable u64
  | StepPublished u64 u64
  | StepClockInvalid u64
  | StepDisconnected u64 LocalPositionTerminalReason

datatype PumpPhase = PumpActive | PumpClockInvalidPendingDisconnect | PumpDisconnected

text \<open>The pump; its sender is the inbox, which is passed beside it.\<close>

record 'r pump =
  pp_reader :: "'r option"
  pp_bound_process :: LocalProcessIdentity
  pp_source_identity :: LocalPositionSourceIdentity
  pp_active_boot_id :: bytes
  pp_generation :: u64
  pp_sequence :: u64
  pp_next_sample_at_ms :: "u64 option"
  pp_last_step_at_ms :: "u64 option"
  pp_phase :: PumpPhase
  pp_terminal_reason :: "LocalPositionTerminalReason option"
  pp_world_available :: bool

record LocalPositionObservation =
  ob_x :: fl
  ob_y :: fl
  ob_z :: fl
  ob_yaw_degrees :: fl

record ResolvedPointerChain =
  rc_pointers :: "usize list"
  rc_camera_address :: usize

definition LocalPositionSourceIdentity_new ::
  "string \<Rightarrow> bytes \<Rightarrow> bytes \<Rightarrow> u64 \<Rightarrow> LocalPositionSourceError + LocalPositionSourceIdentity" where
  "LocalPositionSourceIdentity_new world_alias subject_id boot_id starting_generation =
     (if world_alias = [] \<or> 64 < length world_alias \<or> \<not> is_ascii world_alias
         \<or> subject_id = replicate 32 0 \<or> boot_id = replicate 32 0 \<or> starting_generation = 0
      then Inl InvalidSourceIdentity
      else Inr \<lparr>lsi_world_alias = world_alias, lsi_subject_id = subject_id, lsi_boot_id = boot_id,
                lsi_starting_generation = starting_generation\<rparr>)"

definition validate_exact_process :: "LocalProcessIdentity \<Rightarrow> LocalPositionSourceError + unit" where
  "validate_exact_process identity =
     (if lp_build_id identity \<noteq> BUILD_ID
         \<or> lp_executable_sha256 identity \<noteq> EXECUTABLE_SHA256
         \<or> lp_executable_file_size identity \<noteq> EXECUTABLE_FILE_SIZE
         \<or> lp_module_base identity = 0
         \<or> lp_module_size identity \<noteq> LOADED_MODULE_SIZE
         \<or> checked_add (lp_module_base identity) (lp_module_size identity) = None
         \<or> (case checked_add ROOT_RVA 8 of None \<Rightarrow> True | Some end_ \<Rightarrow> lp_module_size identity < end_)
      then Inl ExactBuildMismatch
      else Inr ())"

definition u64_to_le_bytes :: "u64 \<Rightarrow> bytes" where
  "u64_to_le_bytes n = rev (u64_to_be_bytes n)"

definition derive_connection_boot_id :: "bytes \<Rightarrow> u64 \<Rightarrow> bytes" where
  "derive_connection_boot_id base generation =
     foldl (\<lambda>b (index, byte). b[24 + index := b ! (24 + index) XOR byte]) base
       (enumerate 0 (u64_to_le_bytes generation))"

section \<open>Reading a position\<close>

text \<open>Operations on a session return a result and the reader, and stop at the first error.\<close>

definition then_read ::
  "('r \<Rightarrow> ('e + 'a) \<times> 'r) \<Rightarrow> ('a \<Rightarrow> 'r \<Rightarrow> ('e + 'b) \<times> 'r) \<Rightarrow> 'r \<Rightarrow> ('e + 'b) \<times> 'r" where
  "then_read f k r = (case f r of (Inl e, r') \<Rightarrow> (Inl e, r') | (Inr a, r') \<Rightarrow> k a r')"

definition read_exact ::
  "'r memory_reader \<Rightarrow> usize \<Rightarrow> nat \<Rightarrow> 'r \<Rightarrow> (LocalPositionTerminalReason + bytes) \<times> 'r" where
  "read_exact R address n r =
     (case mr_read R address n r of
        (None, r') \<Rightarrow> (Inl TrReadFailed, r')
      | (Some f, r') \<Rightarrow> (Inr (map f [0..<n]), r'))"

definition address_add :: "usize \<Rightarrow> usize \<Rightarrow> LocalPositionTerminalReason + usize" where
  "address_add base offset =
     (case checked_add base offset of
        None \<Rightarrow> Inl TrInvalidPointer
      | Some address \<Rightarrow> if address = 0 then Inl TrInvalidPointer else Inr address)"

fun u64_from_le_bytes :: "bytes \<Rightarrow> u64" where
  "u64_from_le_bytes [] = 0"
| "u64_from_le_bytes (b # bs) = ucast b + 256 * u64_from_le_bytes bs"

definition read_pointer ::
  "'r memory_reader \<Rightarrow> usize \<Rightarrow> 'r \<Rightarrow> (LocalPositionTerminalReason + usize) \<times> 'r" where
  "read_pointer R address r =
     (if address = 0 then (Inl TrInvalidPointer, r)
      else then_read (read_exact R address 8) (\<lambda>bytes r'.
        let pointer = u64_from_le_bytes bytes in
        if pointer = 0 then (Inl TrNoActiveWorld, r') else (Inr pointer, r')) r)"

fun resolve_pointers :: "'r memory_reader \<Rightarrow> usize list \<Rightarrow> usize \<Rightarrow> 'r
    \<Rightarrow> (LocalPositionTerminalReason + usize list \<times> usize) \<times> 'r" where
  "resolve_pointers R [] pointer_base = Pair (Inr ([], pointer_base))"
| "resolve_pointers R (offset # offsets) pointer_base =
     then_read (Pair (address_add pointer_base offset)) (\<lambda>pointer_slot.
     then_read (read_pointer R pointer_slot) (\<lambda>pointer.
     then_read (resolve_pointers R offsets pointer) (\<lambda>(pointers, pointer_end).
     Pair (Inr (pointer # pointers, pointer_end)))))"

definition resolve_pointer_chain ::
  "'r memory_reader \<Rightarrow> usize \<Rightarrow> 'r \<Rightarrow> (LocalPositionTerminalReason + ResolvedPointerChain) \<times> 'r" where
  "resolve_pointer_chain R root_slot =
     then_read (resolve_pointers R POINTER_READ_OFFSETS root_slot) (\<lambda>(pointers, pointer_base).
     then_read (Pair (address_add pointer_base CAMERA_OFFSET)) (\<lambda>camera_address.
     Pair (Inr \<lparr>rc_pointers = pointers, rc_camera_address = camera_address\<rparr>)))"

fun verify_pointers :: "'r memory_reader \<Rightarrow> (usize \<times> usize) list \<Rightarrow> usize \<Rightarrow> 'r
    \<Rightarrow> (LocalPositionTerminalReason + usize) \<times> 'r" where
  "verify_pointers R [] pointer_base = Pair (Inr pointer_base)"
| "verify_pointers R ((offset, expected) # rest) pointer_base =
     then_read (Pair (address_add pointer_base offset)) (\<lambda>pointer_slot.
     then_read (read_pointer R pointer_slot) (\<lambda>observed.
     if observed \<noteq> expected then Pair (Inl TrUnstablePointerChain)
     else verify_pointers R rest expected))"

definition verify_pointer_chain ::
  "'r memory_reader \<Rightarrow> usize \<Rightarrow> ResolvedPointerChain \<Rightarrow> 'r \<Rightarrow> (LocalPositionTerminalReason + unit) \<times> 'r" where
  "verify_pointer_chain R root_slot expected =
     then_read (verify_pointers R (zip POINTER_READ_OFFSETS (rc_pointers expected)) root_slot) (\<lambda>pointer_base.
     then_read (Pair (address_add pointer_base CAMERA_OFFSET)) (\<lambda>camera_address.
     if camera_address \<noteq> rc_camera_address expected then Pair (Inl TrUnstablePointerChain)
     else Pair (Inr ())))"

text \<open>The value of the bits of an \<open>f64\<close>.\<close>

definition f64_from_bits :: "u64 \<Rightarrow> fl" where
  "f64_from_bits w =
     (let negative = bit w 63; e = uint (take_bit 11 (drop_bit 52 w)); m = uint (take_bit 52 w);
          signed = (\<lambda>q. FFin (if negative then - q else q)) in
      if e = 2047 then (if m = 0 then FInf negative else FNaN)
      else if e = 0 then signed (of_int m * pow2 (- 1074))
      else signed (of_int (2 ^ 52 + m) * pow2 (e - 1075)))"

definition read_f64 :: "bytes \<Rightarrow> nat \<Rightarrow> fl" where
  "read_f64 bytes offset = f64_from_bits (u64_from_le_bytes (take 8 (drop offset bytes)))"

definition decode_camera_block ::
  "bytes \<Rightarrow> LocalPositionTerminalReason + LocalPositionObservation option" where
  "decode_camera_block camera =
     (let x = read_f64 camera 0; y = read_f64 camera 8; z = read_f64 camera 16;
          yaw_degrees = read_f64 camera 32 in
      if \<not> fl_is_finite x \<or> \<not> fl_is_finite y \<or> \<not> fl_is_finite z \<or> \<not> fl_is_finite yaw_degrees
         \<or> fl_lt MAX_ABSOLUTE_WORLD_COORDINATE (fl_abs x)
         \<or> fl_lt MAX_ABSOLUTE_WORLD_COORDINATE (fl_abs y)
         \<or> fl_lt MAX_ABSOLUTE_WORLD_COORDINATE (fl_abs z)
         \<or> \<not> fl_in_closed MIN_PLAUSIBLE_YAW MAX_PLAUSIBLE_YAW yaw_degrees
      then Inl TrInvalidPosition
      else if x = FFin 0 \<and> y = FFin 0 \<and> z = FFin 0 \<and> yaw_degrees = FFin 0 then Inr None
      else Inr (Some \<lparr>ob_x = x, ob_y = y, ob_z = z, ob_yaw_degrees = yaw_degrees\<rparr>))"

definition read_stable_position_in_session ::
  "'r memory_reader \<Rightarrow> LocalProcessIdentity \<Rightarrow> 'r
     \<Rightarrow> (LocalPositionTerminalReason + LocalPositionObservation option) \<times> 'r" where
  "read_stable_position_in_session R identity =
     then_read (Pair (address_add (lp_module_base identity) ROOT_RVA)) (\<lambda>root_slot.
     then_read (resolve_pointer_chain R root_slot) (\<lambda>chain_before.
     case checked_add (rc_camera_address chain_before) (of_nat CAMERA_BLOCK_BYTES) of
       None \<Rightarrow> Pair (Inl TrInvalidPointer)
     | Some _ \<Rightarrow>
         then_read (read_exact R (rc_camera_address chain_before) CAMERA_BLOCK_BYTES) (\<lambda>camera.
         then_read (verify_pointer_chain R root_slot chain_before) (\<lambda>_.
         Pair (decode_camera_block camera)))))"

definition with_read_session :: "'r memory_reader \<Rightarrow> ('r \<Rightarrow> 'a \<times> 'r) \<Rightarrow> 'r \<Rightarrow> 'a option \<times> 'r" where
  "with_read_session R operation r =
     (case mr_open R r of
        (False, r1) \<Rightarrow> (None, r1)
      | (True, r1) \<Rightarrow>
          (case operation r1 of (result, r2) \<Rightarrow>
             (case mr_close R r2 of (ok, r3) \<Rightarrow> (if ok then Some result else None, r3))))"

text \<open>\<open>read_stable_position\<close> on the reader of the pump.\<close>

definition read_stable_position ::
  "'r memory_reader \<Rightarrow> LocalProcessIdentity \<Rightarrow> 'r
     \<Rightarrow> (LocalPositionTerminalReason + LocalPositionObservation option) \<times> 'r" where
  "read_stable_position R bound r =
     (case mr_identity R r of
        (None, r1) \<Rightarrow> (Inl TrReadFailed, r1)
      | (Some before, r1) \<Rightarrow>
          if before \<noteq> bound \<or> validate_exact_process before \<noteq> Inr () then (Inl TrIdentityMismatch, r1)
          else
            (case with_read_session R (read_stable_position_in_session R before) r1 of
               (None, r2) \<Rightarrow> (Inl TrReadFailed, r2)
             | (Some observation, r2) \<Rightarrow>
                 (case mr_identity R r2 of
                    (None, r3) \<Rightarrow> (Inl TrReadFailed, r3)
                  | (Some after, r3) \<Rightarrow>
                      if after \<noteq> before \<or> validate_exact_process after \<noteq> Inr ()
                      then (Inl TrIdentityMismatch, r3)
                      else (case observation of
                              Inl TrNoActiveWorld \<Rightarrow> Inr None
                            | other \<Rightarrow> other, r3))))"

definition pump_read :: "'r memory_reader \<Rightarrow> 'r pump
    \<Rightarrow> (LocalPositionTerminalReason + LocalPositionObservation option) \<times> 'r pump" where
  "pump_read R p =
     (case pp_reader p of
        None \<Rightarrow> (Inl TrReadFailed, p)
      | Some r \<Rightarrow> (case read_stable_position R (pp_bound_process p) r of
                    (res, r') \<Rightarrow> (res, p\<lparr>pp_reader := Some r'\<rparr>)))"

section \<open>The pump\<close>

definition pump_new :: "'r memory_reader \<Rightarrow> 'r \<Rightarrow> LocalPositionSourceIdentity
    \<Rightarrow> LocalPositionSourceError + ('r pump \<times> Inbox)" where
  "pump_new R reader source_identity =
     (case mr_identity R reader of
        (None, _) \<Rightarrow> Inl ExactBuildMismatch
      | (Some bound_process, reader') \<Rightarrow>
          and_then (validate_exact_process bound_process) (\<lambda>_.
          case server_agent_channel (lsi_world_alias source_identity) (lsi_subject_id source_identity) of
            Inl _ \<Rightarrow> Inl InvalidSourceIdentity
          | Inr ib \<Rightarrow>
              (case sender_connect ib (lsi_starting_generation source_identity) of
                 (outcome, ib') \<Rightarrow>
                   if outcome \<noteq> CtlAccepted then Inl HandoffRejected
                   else Inr (\<lparr>pp_reader = Some reader', pp_bound_process = bound_process,
                              pp_source_identity = source_identity,
                              pp_active_boot_id = lsi_boot_id source_identity,
                              pp_generation = lsi_starting_generation source_identity, pp_sequence = 0,
                              pp_next_sample_at_ms = None, pp_last_step_at_ms = None,
                              pp_phase = PumpActive, pp_terminal_reason = None,
                              pp_world_available = False\<rparr>, ib'))))"

definition pump_disconnect :: "LocalPositionTerminalReason \<Rightarrow> 'r pump \<Rightarrow> Inbox
    \<Rightarrow> LocalPositionStep \<times> 'r pump \<times> Inbox" where
  "pump_disconnect reason p ib =
     (StepDisconnected (pp_generation p) reason,
      if pp_phase p \<noteq> PumpDisconnected
      then (p\<lparr>pp_reader := None, pp_phase := PumpDisconnected, pp_terminal_reason := Some reason\<rparr>,
            snd (sender_disconnect ib (pp_generation p)))
      else (p, ib))"

definition pump_frame :: "'r pump \<Rightarrow> u64 \<Rightarrow> LocalPositionObservation \<Rightarrow> ServerAgentFrame" where
  "pump_frame p sequence observation =
     \<lparr>fr_world_alias = lsi_world_alias (pp_source_identity p),
      fr_subject_id = lsi_subject_id (pp_source_identity p), fr_agent_boot_id = pp_active_boot_id p,
      fr_generation = pp_generation p, fr_sequence = sequence, fr_x = ob_x observation,
      fr_y = ob_y observation, fr_z = ob_z observation,
      fr_heading_degrees = Some (narrow_f32 (ob_yaw_degrees observation)), fr_age_upper_bound_ms = 0\<rparr>"

text \<open>The two continuations of \<open>step\<close>: nothing to publish yet, and an observation to publish.\<close>

definition pump_wait :: "u64 \<Rightarrow> 'r pump \<Rightarrow> Inbox \<Rightarrow> LocalPositionStep \<times> 'r pump \<times> Inbox" where
  "pump_wait now p ib =
     (let p1 = p\<lparr>pp_next_sample_at_ms := Some (sat_add now SAMPLE_INTERVAL_MS)\<rparr> in
      if pp_world_available p1 then
        let p2 = p1\<lparr>pp_world_available := False\<rparr>;
            (outcome, ib') = sender_unavailable ib (pp_generation p2) in
        if outcome \<noteq> CtlAccepted then pump_disconnect TrHandoffRejected p2 ib'
        else (StepUnavailable (pp_generation p2), p2, ib')
      else (StepIdle, p1, ib))"

definition pump_publish :: "u64 \<Rightarrow> LocalPositionObservation \<Rightarrow> 'r pump \<Rightarrow> Inbox
    \<Rightarrow> LocalPositionStep \<times> 'r pump \<times> Inbox" where
  "pump_publish now observation p ib =
     (case checked_add (pp_sequence p) 1 of
        None \<Rightarrow> pump_disconnect TrSequenceOverflow p ib
      | Some sequence \<Rightarrow>
          (case publish_position ib (pump_frame p sequence observation) now of
             (Inr InAccepted, ib') \<Rightarrow>
               (StepPublished (pp_generation p) sequence,
                p\<lparr>pp_world_available := True, pp_sequence := sequence,
                  pp_next_sample_at_ms := Some (sat_add now SAMPLE_INTERVAL_MS)\<rparr>, ib')
           | (_, ib') \<Rightarrow> pump_disconnect TrHandoffRejected p ib'))"

definition pump_step :: "'r memory_reader \<Rightarrow> u64 \<Rightarrow> 'r pump \<Rightarrow> Inbox
    \<Rightarrow> LocalPositionStep \<times> 'r pump \<times> Inbox" where
  "pump_step R now p ib =
     (if pp_phase p = PumpClockInvalidPendingDisconnect
      then pump_disconnect TrMonotonicRegression p ib
      else if pp_phase p = PumpDisconnected then (StepIdle, p, ib)
      else if (case pp_last_step_at_ms p of None \<Rightarrow> False | Some earlier \<Rightarrow> now < earlier)
      then (StepClockInvalid (pp_generation p),
            p\<lparr>pp_phase := PumpClockInvalidPendingDisconnect,
              pp_terminal_reason := Some TrMonotonicRegression\<rparr>,
            snd (sender_clock_invalid ib (pp_generation p) MonotonicRegression))
      else
        let p1 = p\<lparr>pp_last_step_at_ms := Some now\<rparr> in
        if (case pp_next_sample_at_ms p1 of None \<Rightarrow> False | Some due \<Rightarrow> now < due) then (StepIdle, p1, ib)
        else
          (case pump_read R p1 of
             (Inl reason, p2) \<Rightarrow> pump_disconnect reason p2 ib
           | (Inr None, p2) \<Rightarrow> pump_wait now p2 ib
           | (Inr (Some observation), p2) \<Rightarrow> pump_publish now observation p2 ib))"

definition pump_reconnect :: "'r memory_reader \<Rightarrow> 'r \<Rightarrow> u64 \<Rightarrow> 'r pump \<Rightarrow> Inbox
    \<Rightarrow> (LocalPositionSourceError + unit) \<times> 'r pump \<times> Inbox" where
  "pump_reconnect R reader now p ib =
     (if pp_phase p \<noteq> PumpDisconnected then (Inl StillActive, p, ib)
      else
        (case mr_identity R reader of
           (None, _) \<Rightarrow> (Inl ExactBuildMismatch, p, ib)
         | (Some identity, reader') \<Rightarrow>
             (case validate_exact_process identity of
                Inl e \<Rightarrow> (Inl e, p, ib)
              | Inr _ \<Rightarrow>
                  (case checked_add (pp_generation p) 1 of
                     None \<Rightarrow> (Inl GenerationOverflow, p, ib)
                   | Some generation \<Rightarrow>
                       (case sender_connect ib generation of
                          (outcome, ib') \<Rightarrow>
                            if outcome \<noteq> CtlAccepted then (Inl HandoffRejected, p, ib')
                            else (Inr (),
                              p\<lparr>pp_reader := Some reader', pp_bound_process := identity,
                                pp_generation := generation,
                                pp_active_boot_id := derive_connection_boot_id
                                  (lsi_boot_id (pp_source_identity p)) generation,
                                pp_next_sample_at_ms := Some now, pp_last_step_at_ms := Some now,
                                pp_phase := PumpActive, pp_terminal_reason := None,
                                pp_world_available := False\<rparr>, ib'))))))"

text \<open>\<open>Drop\<close>: the end of a pump closes its session.\<close>

definition pump_drop :: "'r pump \<Rightarrow> Inbox \<Rightarrow> 'r pump \<times> Inbox" where
  "pump_drop p ib =
     (if pp_phase p \<noteq> PumpDisconnected
      then (p\<lparr>pp_phase := PumpDisconnected\<rparr>, snd (sender_disconnect ib (pp_generation p)))
      else (p, ib))"

section \<open>What a successful read has seen\<close>

text \<open>A sequence of reads on a session that all succeed, with the bytes they returned.\<close>

fun read_all :: "'r memory_reader \<Rightarrow> (usize \<times> nat) list \<Rightarrow> 'r \<Rightarrow> (bytes list \<times> 'r) option" where
  "read_all R [] r = Some ([], r)"
| "read_all R ((address, n) # rest) r =
     (case mr_read R address n r of
        (None, _) \<Rightarrow> None
      | (Some f, r') \<Rightarrow> map_option (\<lambda>(bs, r''). (map f [0..<n] # bs, r'')) (read_all R rest r'))"

text \<open>The addresses a walk over the given pointers reads.\<close>

fun pointer_slots :: "usize \<Rightarrow> usize list \<Rightarrow> usize list \<Rightarrow> (usize \<times> nat) list" where
  "pointer_slots base (offset # offsets) (p # ps) = (base + offset, 8) # pointer_slots p offsets ps"
| "pointer_slots base _ _ = []"

text \<open>
  The position was read between two walks over the pointer chain that found the same pointers.
\<close>

definition sampled :: "'r memory_reader \<Rightarrow> LocalProcessIdentity \<Rightarrow> 'r
    \<Rightarrow> LocalPositionObservation option \<Rightarrow> 'r \<Rightarrow> bool" where
  "sampled R identity r observation r' \<longleftrightarrow> (\<exists>pointers walk1 camera walk2.
     length pointers = length POINTER_READ_OFFSETS \<and> 0 \<notin> set pointers
     \<and> (let slots = pointer_slots (lp_module_base identity + ROOT_RVA) POINTER_READ_OFFSETS pointers in
        read_all R (slots @ [(last pointers + CAMERA_OFFSET, CAMERA_BLOCK_BYTES)] @ slots) r
          = Some (walk1 @ [camera] @ walk2, r'))
     \<and> map u64_from_le_bytes walk1 = pointers \<and> map u64_from_le_bytes walk2 = pointers
     \<and> decode_camera_block camera = Inr observation)"

definition plausible_observation :: "LocalPositionObservation \<Rightarrow> bool" where
  "plausible_observation ob \<longleftrightarrow> (\<exists>x y z a. ob_x ob = FFin x \<and> ob_y ob = FFin y \<and> ob_z ob = FFin z
     \<and> ob_yaw_degrees ob = FFin a \<and> \<bar>x\<bar> \<le> 2000000 \<and> \<bar>y\<bar> \<le> 2000000 \<and> \<bar>z\<bar> \<le> 2000000 \<and> \<bar>a\<bar> \<le> 360
     \<and> (x, y, z, a) \<noteq> (0, 0, 0, 0))"

lemma then_read_Inr:
  "then_read f k r = (Inr b, r'') \<longleftrightarrow> (\<exists>a r'. f r = (Inr a, r') \<and> k a r' = (Inr b, r''))"
  by (auto simp: then_read_def split: prod.splits sum.splits)

lemma address_add_Inr: "address_add a b = Inr c \<longleftrightarrow> checked_add a b = Some c \<and> c \<noteq> 0"
  by (auto simp: address_add_def split: option.splits)

lemma address_add_value: "address_add a b = Inr c \<Longrightarrow> c = a + b"
  by (auto simp: address_add_Inr checked_add_def split: if_splits)

lemma read_exact_Inr:
  "read_exact R address n r = (Inr bs, r') \<Longrightarrow> read_all R [(address, n)] r = Some ([bs], r')"
  by (auto simp: read_exact_def split: prod.splits option.splits)

lemma read_pointer_Inr:
  assumes "read_pointer R address r = (Inr p, r')"
  obtains bs where "read_all R [(address, 8)] r = Some ([bs], r')" "u64_from_le_bytes bs = p" "p \<noteq> 0"
  using assms by (auto simp: read_pointer_def then_read_Inr Let_def split: if_splits dest!: read_exact_Inr)

lemma read_all_append:
  "read_all R (xs @ ys) r =
     (case read_all R xs r of None \<Rightarrow> None
      | Some (bs, r') \<Rightarrow> map_option (\<lambda>(cs, r''). (bs @ cs, r'')) (read_all R ys r'))"
proof (induction xs arbitrary: r)
  case Nil
  then show ?case by (cases "read_all R ys r") auto
next
  case (Cons x xs)
  then show ?case
    by (cases x) (auto simp: option.map_comp comp_def case_prod_beta split: prod.split option.split)
qed

lemma read_all_Cons:
  "read_all R [a] r = Some ([b], r') \<Longrightarrow> read_all R as r' = Some (bs, r'') \<Longrightarrow>
     read_all R (a # as) r = Some (b # bs, r'')"
  using read_all_append [of R "[a]" as r] by simp

lemma resolve_pointers_Inr:
  assumes "resolve_pointers R offsets base r = (Inr (pointers, pointer_end), r')"
  shows "length pointers = length offsets \<and> 0 \<notin> set pointers \<and> pointer_end = last (base # pointers)
    \<and> (\<exists>walk. read_all R (pointer_slots base offsets pointers) r = Some (walk, r')
         \<and> map u64_from_le_bytes walk = pointers)"
  using assms
proof (induction offsets arbitrary: base r pointers)
  case Nil
  then show ?case by auto
next
  case (Cons offset offsets)
  then obtain slot p r1 rest r2 where slot: "address_add base offset = Inr slot"
    and p: "read_pointer R slot r = (Inr p, r1)"
    and rest: "resolve_pointers R offsets p r1 = (Inr (rest, pointer_end), r')"
    and pointers: "pointers = p # rest"
    by (auto simp: then_read_Inr)
  obtain bs where bs: "read_all R [(slot, 8)] r = Some ([bs], r1)" "u64_from_le_bytes bs = p" "p \<noteq> 0"
    using p by (rule read_pointer_Inr)
  from Cons.IH [OF rest] obtain walk where walk:
    "read_all R (pointer_slots p offsets rest) r1 = Some (walk, r')" "map u64_from_le_bytes walk = rest"
    "length rest = length offsets" "0 \<notin> set rest" "pointer_end = last (p # rest)" by blast
  show ?case
    using read_all_Cons [OF bs(1) walk(1)] bs(2,3) walk address_add_value [OF slot] pointers by auto
qed

lemma verify_pointers_Inr:
  assumes "verify_pointers R (zip offsets pointers) base r = (Inr pointer_end, r')"
    and "length pointers = length offsets"
  shows "\<exists>walk. read_all R (pointer_slots base offsets pointers) r = Some (walk, r')
    \<and> map u64_from_le_bytes walk = pointers"
  using assms
proof (induction offsets arbitrary: base r pointers)
  case Nil
  then show ?case by auto
next
  case (Cons offset offsets)
  then obtain p rest where pointers: "pointers = p # rest" by (cases pointers) auto
  from Cons.prems(1) obtain slot r1 where slot: "address_add base offset = Inr slot"
    and p: "read_pointer R slot r = (Inr p, r1)"
    and rest: "verify_pointers R (zip offsets rest) p r1 = (Inr pointer_end, r')"
    by (auto simp: pointers then_read_Inr split: if_splits)
  obtain bs where bs: "read_all R [(slot, 8)] r = Some ([bs], r1)" "u64_from_le_bytes bs = p"
    using p by (rule read_pointer_Inr)
  from Cons.IH [OF rest] Cons.prems(2) pointers obtain walk where walk:
    "read_all R (pointer_slots p offsets rest) r1 = Some (walk, r')" "map u64_from_le_bytes walk = rest"
    by auto
  show ?case
    using read_all_Cons [OF bs(1) walk(1)] bs(2) walk(2) address_add_value [OF slot] pointers by auto
qed

lemma session_sampled:
  assumes "read_stable_position_in_session R identity r = (Inr observation, r')"
  shows "sampled R identity r observation r'"
proof -
  let ?root = "lp_module_base identity + ROOT_RVA"
  from assms obtain pointers base r1 camera r2 base2 where
    walk1: "resolve_pointers R POINTER_READ_OFFSETS ?root r = (Inr (pointers, base), r1)"
    and camera: "read_exact R (base + CAMERA_OFFSET) CAMERA_BLOCK_BYTES r1 = (Inr camera, r2)"
    and walk2: "verify_pointers R (zip POINTER_READ_OFFSETS pointers) ?root r2 = (Inr base2, r')"
    and decoded: "decode_camera_block camera = Inr observation"
    by (auto simp: read_stable_position_in_session_def resolve_pointer_chain_def verify_pointer_chain_def
        then_read_Inr dest!: address_add_value split: option.splits if_splits)
  note one = resolve_pointers_Inr [OF walk1]
  have two: "\<exists>walk. read_all R (pointer_slots ?root POINTER_READ_OFFSETS pointers) r2 = Some (walk, r')
      \<and> map u64_from_le_bytes walk = pointers"
    using one by (intro verify_pointers_Inr [OF walk2]) simp
  have "pointers \<noteq> []" using one by (auto simp: POINTER_READ_OFFSETS_def)
  then have "base = last pointers" using one by simp
  with one two read_exact_Inr [OF camera] decoded show ?thesis
    unfolding sampled_def Let_def read_all_append by fastforce
qed

lemma decode_plausible:
  assumes "decode_camera_block camera = Inr (Some ob)"
  shows "plausible_observation ob"
proof -
  have fin: "fl_is_finite v \<Longrightarrow> \<exists>q. v = FFin q" for v by (cases v) auto
  show ?thesis
    using assms
    by (auto simp: decode_camera_block_def Let_def plausible_observation_def fl_in_closed_def
        MAX_ABSOLUTE_WORLD_COORDINATE_def MIN_PLAUSIBLE_YAW_def MAX_PLAUSIBLE_YAW_def abs_le_iff
        split: if_splits dest!: fin)
qed

lemma read_stable_position_Inr:
  assumes "read_stable_position R bound r = (Inr (Some ob), r')"
  obtains r1 r2 r3 r4 where "validate_exact_process bound = Inr ()"
    "mr_identity R r = (Some bound, r1)" "mr_open R r1 = (True, r2)" "sampled R bound r2 (Some ob) r3"
    "mr_close R r3 = (True, r4)" "mr_identity R r4 = (Some bound, r')" "plausible_observation ob"
proof -
  from assms obtain r1 r2 r3 r4 where run: "validate_exact_process bound = Inr ()"
    "mr_identity R r = (Some bound, r1)" "mr_open R r1 = (True, r2)"
    "read_stable_position_in_session R bound r2 = (Inr (Some ob), r3)"
    "mr_close R r3 = (True, r4)" "mr_identity R r4 = (Some bound, r')"
    by (auto simp: read_stable_position_def with_read_session_def
        split: prod.splits option.splits if_splits sum.splits bool.splits LocalPositionTerminalReason.splits)
  have sampled: "sampled R bound r2 (Some ob) r3" using run(4) by (rule session_sampled)
  then have "plausible_observation ob" by (auto simp: sampled_def Let_def dest: decode_plausible)
  from that [OF run(1-3) sampled run(5,6) this] show ?thesis .
qed

section \<open>Boot identities of the connections\<close>

lemma length_u64_to_le_bytes [simp]: "length (u64_to_le_bytes n) = 8"
  by (simp add: u64_to_le_bytes_def)

lemma u64_to_le_bytes_inject [simp]: "u64_to_le_bytes a = u64_to_le_bytes b \<longleftrightarrow> a = b"
  by (simp add: u64_to_le_bytes_def)

lemma xor_bytes:
  "length base = k + length bytes \<Longrightarrow>
     foldl (\<lambda>b (index, byte). b[m + index := b ! (m + index) XOR byte]) base (enumerate (k - m) bytes) =
     take k base @ map2 (XOR) (drop k base) bytes" if "m \<le> k" for base :: "u8 list"
  using that
proof (induction bytes arbitrary: base k)
  case Nil
  then show ?case by simp
next
  case (Cons byte bytes)
  let ?base = "base[k := base ! k XOR byte]"
  have "foldl (\<lambda>b (index, byte). b[m + index := b ! (m + index) XOR byte]) ?base (enumerate (Suc k - m) bytes) =
      take (Suc k) ?base @ map2 (XOR) (drop (Suc k) ?base) bytes"
    using Cons.prems by (intro Cons.IH) auto
  moreover have "take (Suc k) ?base = take k base @ [base ! k XOR byte]"
    using Cons.prems(1) by (simp add: take_Suc_conv_app_nth)
  moreover have "drop k base = base ! k # drop (Suc k) base"
    using Cons.prems(1) by (simp add: Cons_nth_drop_Suc)
  ultimately show ?case using Cons.prems by (simp add: Suc_diff_le)
qed

lemma derive_connection_boot_id_value:
  assumes "length base = 32"
  shows "derive_connection_boot_id base generation =
    take 24 base @ map2 (XOR) (drop 24 base) (u64_to_le_bytes generation)"
  using xor_bytes [of 24 24 base "u64_to_le_bytes generation"] assms
  by (simp add: derive_connection_boot_id_def)

lemma map2_xor_inject:
  "length xs = length as \<Longrightarrow> length as = length bs \<Longrightarrow> map2 (XOR) xs as = map2 (XOR) xs bs \<longleftrightarrow> as = bs"
  for xs :: "u8 list"
proof (induction xs as bs rule: list_induct3)
  case (Cons x xs a as b bs)
  have "x XOR a = x XOR b \<longleftrightarrow> a = b" by (metis xor.assoc xor_self_eq xor.left_neutral)
  with Cons show ?case by simp
qed simp

lemma derive_connection_boot_id_inject:
  "length base = 32 \<Longrightarrow>
     derive_connection_boot_id base g = derive_connection_boot_id base h \<longleftrightarrow> g = h"
  by (simp add: derive_connection_boot_id_value map2_xor_inject)

lemma map2_xor_zero: "length xs = n \<Longrightarrow> map2 (XOR) xs (replicate n (0 :: u8)) = xs"
  by (induction xs arbitrary: n) auto

lemma derive_connection_boot_id_zero: "length base = 32 \<Longrightarrow> derive_connection_boot_id base 0 = base"
proof -
  assume len: "length base = 32"
  have "u64_to_le_bytes 0 = replicate 8 0" by (simp add: u64_to_le_bytes_def u64_to_be_bytes_def eval_nat_numeral)
  then show ?thesis using len map2_xor_zero [of "drop 24 base" 8] by (simp add: derive_connection_boot_id_value)
qed

text \<open>The boot identity of each connection: the first one has the identity of the source.\<close>

definition connection_boot_id :: "LocalPositionSourceIdentity \<Rightarrow> u64 \<Rightarrow> bytes" where
  "connection_boot_id si g =
     (if g = lsi_starting_generation si then lsi_boot_id si
      else derive_connection_boot_id (lsi_boot_id si) g)"

lemma connection_boot_id_inject:
  assumes "length (lsi_boot_id si) = 32" "g \<noteq> 0" "h \<noteq> 0"
  shows "connection_boot_id si g = connection_boot_id si h \<longleftrightarrow> g = h"
  using assms derive_connection_boot_id_inject [OF assms(1), of 0] derive_connection_boot_id_inject [OF assms(1), of _ 0]
    derive_connection_boot_id_inject [OF assms(1), of g h]
  by (auto simp: connection_boot_id_def derive_connection_boot_id_zero)

lemma length_connection_boot_id: "length (lsi_boot_id si) = 32 \<Longrightarrow> length (connection_boot_id si g) = 32"
  by (simp add: connection_boot_id_def derive_connection_boot_id_value)

section \<open>The pump and its channel agree\<close>

text \<open>
  What the sender's side of the inbox knows, and how it agrees with the pump: the session of the pump's
  generation is open while the pump is not disconnected, and what the inbox remembers of the active boot
  identity is a sample this pump has published.
\<close>

definition boot_agrees :: "'r pump \<Rightarrow> Inbox \<Rightarrow> bool" where
  "boot_agrees p ib \<longleftrightarrow> (case ib_active_boot_id ib of
      None \<Rightarrow> ib_last_sequence ib = None \<and> ib_last_received ib = None
    | Some b \<Rightarrow> (\<exists>g. lsi_starting_generation (pp_source_identity p) \<le> g \<and> g \<le> pp_generation p
          \<and> b = connection_boot_id (pp_source_identity p) g)
        \<and> (b = pp_active_boot_id p \<longrightarrow>
             (\<exists>n t s. ib_last_sequence ib = Some n \<and> n \<le> pp_sequence p
                \<and> ib_last_received ib = Some t \<and> pp_last_step_at_ms p = Some s \<and> t \<le> s))
        \<and> (ib_generation_has_sample ib \<longrightarrow> b = pp_active_boot_id p))"

definition pump_agrees :: "'r pump \<Rightarrow> Inbox \<Rightarrow> bool" where
  "pump_agrees p ib \<longleftrightarrow> length (lsi_boot_id (pp_source_identity p)) = 32
     \<and> lsi_world_alias (pp_source_identity p) \<noteq> [] \<and> lsi_subject_id (pp_source_identity p) \<noteq> []
     \<and> lsi_starting_generation (pp_source_identity p) \<noteq> 0
     \<and> lsi_starting_generation (pp_source_identity p) \<le> pp_generation p
     \<and> ib_expected_world_alias ib = lsi_world_alias (pp_source_identity p)
     \<and> ib_expected_subject_id ib = lsi_subject_id (pp_source_identity p)
     \<and> ib_generation ib = pp_generation p
     \<and> (ib_connected ib \<longleftrightarrow> pp_phase p \<noteq> PumpDisconnected)
     \<and> (pp_phase p = PumpActive \<longrightarrow> pp_reader p \<noteq> None)
     \<and> pp_active_boot_id p = connection_boot_id (pp_source_identity p) (pp_generation p)
     \<and> boot_agrees p ib"

text \<open>The fields of the inbox that the pump's calls leave alone.\<close>

definition sender_view where
  "sender_view ib = (ib_expected_world_alias ib, ib_expected_subject_id ib, ib_generation ib,
     ib_active_boot_id ib, ib_last_sequence ib, ib_last_received ib)"

lemmas sender_call_defs = sender_view_def sender_connect_def sender_disconnect_def sender_unavailable_def
  sender_clock_invalid_def queue_clock_invalid_def push_control_def count_queue_full_drop_def
  count_old_generation_drop_def Let_def case_prod_beta

lemma disconnect_view:
  "sender_view (snd (sender_disconnect ib g)) = sender_view ib"
  "g = ib_generation ib \<Longrightarrow> g \<noteq> 0 \<Longrightarrow> ib_connected (snd (sender_disconnect ib g)) = False"
  "g = ib_generation ib \<Longrightarrow> g \<noteq> 0 \<Longrightarrow> ib_connected ib \<Longrightarrow> ib_generation_has_sample (snd (sender_disconnect ib g)) = False"
  by (simp_all add: sender_call_defs)

lemma clock_invalid_view:
  "sender_view (snd (sender_clock_invalid ib g reason)) = sender_view ib"
  "ib_generation_has_sample (snd (sender_clock_invalid ib g reason)) = ib_generation_has_sample ib"
  "fst (sender_clock_invalid ib g reason) \<noteq> CtlQueueFullDropped \<Longrightarrow>
     ib_connected (snd (sender_clock_invalid ib g reason)) = ib_connected ib"
  by (auto simp: sender_call_defs)

lemma unavailable_view:
  "sender_view (snd (sender_unavailable ib g)) = sender_view ib"
  "ib_generation_has_sample (snd (sender_unavailable ib g)) = ib_generation_has_sample ib"
  "ib_connected (snd (sender_unavailable ib g)) = ib_connected ib"
  "g = ib_generation ib \<Longrightarrow> g \<noteq> 0 \<Longrightarrow> ib_connected ib \<Longrightarrow> fst (sender_unavailable ib g) = CtlAccepted"
  by (simp_all add: sender_call_defs)

lemma connect_view:
  "sender_connect ib g = (CtlAccepted, ib') \<Longrightarrow> ib_generation ib < g
     \<and> sender_view ib' = sender_view (ib\<lparr>ib_generation := g\<rparr>) \<and> ib_connected ib'
     \<and> \<not> ib_generation_has_sample ib'"
  "sender_connect ib g = (outcome, ib') \<Longrightarrow> outcome \<noteq> CtlAccepted \<Longrightarrow> sender_view ib' = sender_view ib
     \<and> ib_connected ib' = ib_connected ib \<and> ib_generation_has_sample ib' = ib_generation_has_sample ib"
  by (auto simp: sender_call_defs split: if_splits)

lemma poll_view:
  "server_agent_poll ib now = (res, ib') \<Longrightarrow> sender_view ib' = sender_view ib
     \<and> ib_connected ib' = ib_connected ib \<and> ib_generation_has_sample ib' = ib_generation_has_sample ib"
  by (auto simp: server_agent_poll_def sender_view_def split: prod.splits option.splits)

lemma pump_agrees_view:
  assumes "pump_agrees p ib" "sender_view ib' = sender_view ib" "ib_connected ib' = ib_connected ib"
    "ib_generation_has_sample ib' \<longrightarrow> ib_generation_has_sample ib"
  shows "pump_agrees p ib'"
  using assms by (auto simp: pump_agrees_def sender_view_def boot_agrees_def split: option.splits)

lemma pump_agrees_reader: "pump_agrees p ib \<Longrightarrow> pump_agrees (p\<lparr>pp_reader := map_option f (pp_reader p)\<rparr>) ib"
  by (auto simp: pump_agrees_def boot_agrees_def split: option.splits)

lemma pump_agrees_schedule:
  "pump_agrees p ib \<Longrightarrow> pump_agrees (p\<lparr>pp_next_sample_at_ms := d, pp_world_available := w\<rparr>) ib"
  by (auto simp: pump_agrees_def boot_agrees_def split: option.splits)

lemma pump_agrees_due: "pump_agrees p ib \<Longrightarrow> pump_agrees (p\<lparr>pp_next_sample_at_ms := d\<rparr>) ib"
  by (auto simp: pump_agrees_def boot_agrees_def split: option.splits)

lemma pump_agrees_later:
  "pump_agrees p ib \<Longrightarrow> (\<forall>s. pp_last_step_at_ms p = Some s \<longrightarrow> s \<le> now) \<Longrightarrow>
     pump_agrees (p\<lparr>pp_last_step_at_ms := Some now\<rparr>) ib"
  by (fastforce simp: pump_agrees_def boot_agrees_def split: option.splits)

lemma generation_nonzero: "pump_agrees p ib \<Longrightarrow> pp_generation p \<noteq> 0"
  by (auto simp: pump_agrees_def)

lemma pump_disconnect_agrees:
  assumes "pump_agrees p ib"
  shows "pump_agrees (fst (snd (pump_disconnect reason p ib))) (snd (snd (pump_disconnect reason p ib)))"
  using assms disconnect_view [where ib = ib and g = "pp_generation p"] generation_nonzero [OF assms]
  by (auto simp: pump_disconnect_def pump_agrees_def sender_view_def boot_agrees_def split: option.splits)

lemma narrow_yaw:
  assumes "plausible_observation ob"
  shows "fl_is_finite (narrow_f32 (ob_yaw_degrees ob))"
proof -
  obtain a where a: "ob_yaw_degrees ob = FFin a" "\<bar>a\<bar> \<le> 360"
    using assms by (auto simp: plausible_observation_def)
  then obtain v where "fl_round f32_fmt a = FFin v" using f32_round_bounded [of a 360] by auto
  then show ?thesis using a by simp
qed

lemma plausible_sample:
  assumes "plausible_observation ob" "world \<noteq> []" "subject \<noteq> []" "boot \<noteq> []"
  obtains s where "PositionSample_new world subject boot g n (ob_x ob) (ob_y ob) (ob_z ob)
      (Some (narrow_f32 (ob_yaw_degrees ob))) clock = Inr s"
  using assms narrow_yaw [OF assms(1)] by (auto simp: PositionSample_new_def plausible_observation_def)

text \<open>
  Publishing an observation: the inbox takes it unless its filter of retired boot identities reports the
  one of this connection.
\<close>

definition publishes where
  "publishes p n ob now ib ib' \<longleftrightarrow>
     (\<exists>s. ib_pending_sample ib' = Some (Sample s)
        \<and> PositionSample_new (lsi_world_alias (pp_source_identity p)) (lsi_subject_id (pp_source_identity p))
             (pp_active_boot_id p) (pp_generation p) n (ob_x ob) (ob_y ob) (ob_z ob)
             (Some (narrow_f32 (ob_yaw_degrees ob))) (received_with_age 0 now) = Inr s)"

lemma accepted_pending:
  assumes "publish_position ib (pump_frame p n ob) now = (Inr InAccepted, ib')"
  shows "publishes p n ob now ib ib'"
proof -
  have acc: "fst (publish_position ib (pump_frame p n ob) now) = Inr InAccepted" using assms by simp
  from accepted_frame_sample [OF acc] assms show ?thesis
    by (fastforce simp: publishes_def pump_frame_def)
qed

lemma publish_in_session:
  assumes agrees: "pump_agrees p ib" and conn: "ib_connected ib" and ob: "plausible_observation ob"
    and n: "pp_sequence p < n" and now: "\<forall>s. pp_last_step_at_ms p = Some s \<longrightarrow> s \<le> now"
    and fresh: "\<not> RetiredBootFilter_contains (ib_retired_boots ib) (pp_active_boot_id p)"
  obtains ib' where "publish_position ib (pump_frame p n ob) now = (Inr InAccepted, ib')"
    "ib_expected_world_alias ib' = ib_expected_world_alias ib" "ib_expected_subject_id ib' = ib_expected_subject_id ib"
    "ib_generation ib' = ib_generation ib" "ib_connected ib'"
    "ib_active_boot_id ib' = Some (pp_active_boot_id p)" "ib_last_sequence ib' = Some n"
    "ib_last_received ib' = Some now"
proof -
  let ?frame = "pump_frame p n ob"
  have boot: "pp_active_boot_id p \<noteq> []"
    using agrees length_connection_boot_id [of "pp_source_identity p" "pp_generation p"]
    by (auto simp: pump_agrees_def)
  obtain s where s: "PositionSample_new (fr_world_alias ?frame) (fr_subject_id ?frame) (fr_agent_boot_id ?frame)
      (fr_generation ?frame) (fr_sequence ?frame) (fr_x ?frame) (fr_y ?frame) (fr_z ?frame)
      (fr_heading_degrees ?frame) (received_with_age (fr_age_upper_bound_ms ?frame) now) = Inr s"
    using agrees boot plausible_sample [OF ob, of "lsi_world_alias (pp_source_identity p)"
        "lsi_subject_id (pp_source_identity p)" "pp_active_boot_id p" "pp_generation p" n "received_with_age 0 now"]
    by (auto simp: pump_agrees_def pump_frame_def)
  have seq: "publish_sequenced i ?frame now = (Inr InAccepted, publish_accepted i ?frame now s)"
    if "\<forall>k. ib_last_sequence i = Some k \<longrightarrow> k \<le> pp_sequence p"
      "\<forall>t. ib_last_received i = Some t \<longrightarrow> t \<le> now" for i
    using that s n by (auto simp: publish_sequenced_def Let_def pump_frame_def not_less split: option.splits)
  have known: "n \<noteq> 0" using n by auto
  define same where "same \<longleftrightarrow> (case ib_active_boot_id ib of Some b \<Rightarrow> b = pp_active_boot_id p | None \<Rightarrow> True)"
  define i where "i = (if same then ib
     else (retire_active_boot ib)\<lparr>ib_last_sequence := None, ib_last_received := None\<rparr>)"
  have "publish_position ib ?frame now = publish_sequenced i ?frame now"
    using agrees conn fresh known generation_nonzero [OF agrees]
    by (auto simp: publish_position_def pump_agrees_def boot_agrees_def pump_frame_def i_def same_def Let_def
        split: option.splits)
  moreover have "publish_sequenced i ?frame now = (Inr InAccepted, publish_accepted i ?frame now s)"
  proof (rule seq; cases "ib_active_boot_id ib")
    show "\<forall>k. ib_last_sequence i = Some k \<longrightarrow> k \<le> pp_sequence p" if "ib_active_boot_id ib = None"
      using agrees that by (simp add: i_def same_def pump_agrees_def boot_agrees_def)
    show "\<forall>t. ib_last_received i = Some t \<longrightarrow> t \<le> now" if "ib_active_boot_id ib = None"
      using agrees that by (simp add: i_def same_def pump_agrees_def boot_agrees_def)
    show "\<forall>k. ib_last_sequence i = Some k \<longrightarrow> k \<le> pp_sequence p" if "ib_active_boot_id ib = Some b" for b
      using agrees that by (auto simp: i_def same_def pump_agrees_def boot_agrees_def)
    show "\<forall>t. ib_last_received i = Some t \<longrightarrow> t \<le> now" if "ib_active_boot_id ib = Some b" for b
      using agrees that now by (auto simp: i_def same_def pump_agrees_def boot_agrees_def intro: order_trans)
  qed
  ultimately have "publish_position ib ?frame now = (Inr InAccepted, publish_accepted i ?frame now s)" by simp
  moreover have "ib_active_boot_id (publish_accepted i ?frame now s) = Some (pp_active_boot_id p)"
    by (auto simp: publish_accepted_def Let_def pump_frame_def i_def same_def retire_active_boot_def split: option.splits)
  moreover have "sender_view i = sender_view (ib\<lparr>ib_active_boot_id := ib_active_boot_id i,
      ib_last_sequence := ib_last_sequence i, ib_last_received := ib_last_received i\<rparr>)" "ib_connected i"
    using conn by (auto simp: i_def sender_view_def retire_active_boot_def split: option.splits)
  ultimately show ?thesis
    by (intro that [of "publish_accepted i ?frame now s"])
      (auto simp: publish_accepted_def Let_def pump_frame_def sender_view_def)
qed

lemma publish_retired:
  assumes "pump_agrees p ib" "ib_connected ib" "n \<noteq> 0"
    and "RetiredBootFilter_contains (ib_retired_boots ib) (pp_active_boot_id p)"
  obtains d where "publish_position ib (pump_frame p n ob) now = (Inr InRetiredBootDropped, ib\<lparr>ib_diagnostics := d\<rparr>)"
  using assms generation_nonzero [OF assms(1)]
  by (auto simp: publish_position_def pump_agrees_def pump_frame_def Let_def)

lemma pump_publish_outcome:
  assumes agrees: "pump_agrees p ib" and conn: "ib_connected ib" and ob: "plausible_observation ob"
    and now: "pp_last_step_at_ms p = Some now"
  shows "case pump_publish now ob p ib of (out, p', ib') \<Rightarrow> pump_agrees p' ib'
    \<and> (out = StepDisconnected (pp_generation p) TrSequenceOverflow \<and> pp_sequence p = - 1
       \<or> out = StepDisconnected (pp_generation p) TrHandoffRejected
          \<and> RetiredBootFilter_contains (ib_retired_boots ib) (pp_active_boot_id p)
       \<or> out = StepPublished (pp_generation p) (pp_sequence p + 1)
          \<and> publishes p (pp_sequence p + 1) ob now ib ib')"
proof (cases "checked_add (pp_sequence p) 1")
  case None
  then have "unat (pp_sequence p) = unat (- 1 :: u64)"
    using unat_less_pow [of "pp_sequence p"] by (auto simp: checked_add_def unsigned_minus_1_eq_mask mask_eq_exp_minus_1 split: if_splits)
  then have "pp_sequence p = - 1" by (simp only: word_unat_eq_iff)
  with None pump_disconnect_agrees [OF agrees] show ?thesis
    by (auto simp: pump_publish_def pump_disconnect_def)
next
  case (Some n)
  have n: "n = pp_sequence p + 1" "pp_sequence p < n"
    using Some checked_add_one_greater [OF Some] by (simp_all add: checked_add_def split: if_splits)
  show ?thesis
  proof (cases "RetiredBootFilter_contains (ib_retired_boots ib) (pp_active_boot_id p)")
    case True
    have "n \<noteq> 0" using n(2) by auto
    then obtain d where d: "publish_position ib (pump_frame p n ob) now =
        (Inr InRetiredBootDropped, ib\<lparr>ib_diagnostics := d\<rparr>)"
      using publish_retired [OF agrees conn _ True] by blast
    have "pump_agrees p (ib\<lparr>ib_diagnostics := d\<rparr>)"
      by (rule pump_agrees_view [OF agrees]) (simp_all add: sender_view_def)
    from pump_disconnect_agrees [OF this, of TrHandoffRejected] d True Some show ?thesis
      by (auto simp: pump_publish_def pump_disconnect_def)
  next
    case False
    obtain ib' where ib': "publish_position ib (pump_frame p n ob) now = (Inr InAccepted, ib')"
      "ib_expected_world_alias ib' = ib_expected_world_alias ib" "ib_expected_subject_id ib' = ib_expected_subject_id ib"
      "ib_generation ib' = ib_generation ib" "ib_connected ib'"
      "ib_active_boot_id ib' = Some (pp_active_boot_id p)" "ib_last_sequence ib' = Some n"
      "ib_last_received ib' = Some now"
      using publish_in_session [OF agrees conn ob n(2) _ False, of now] now by auto
    have "pump_agrees (p\<lparr>pp_world_available := True, pp_sequence := n,
        pp_next_sample_at_ms := Some (sat_add now SAMPLE_INTERVAL_MS)\<rparr>) ib'"
      using agrees conn now ib' by (auto simp: pump_agrees_def boot_agrees_def)
    with Some ib'(1) n(1) accepted_pending [OF ib'(1)] show ?thesis by (simp add: pump_publish_def)
  qed
qed

lemma pump_wait_agrees:
  assumes agrees: "pump_agrees p ib" and conn: "ib_connected ib"
  shows "case pump_wait now p ib of (out, p', ib') \<Rightarrow> pump_agrees p' ib'
    \<and> out = (if pp_world_available p then StepUnavailable (pp_generation p) else StepIdle)"
proof -
  have "pump_agrees (p\<lparr>pp_next_sample_at_ms := d, pp_world_available := w\<rparr>) (snd (sender_unavailable ib g))" for d w g
    by (rule pump_agrees_view [OF pump_agrees_schedule [OF agrees]]) (simp_all add: unavailable_view)
  moreover have "fst (sender_unavailable ib (pp_generation p)) = CtlAccepted"
    using agrees conn generation_nonzero [OF agrees] by (intro unavailable_view(4)) (simp_all add: pump_agrees_def)
  ultimately show ?thesis using pump_agrees_due [OF agrees] by (auto simp: pump_wait_def Let_def case_prod_beta)
qed

lemma pump_read_cases:
  "pump_read R p = (res, p') \<Longrightarrow> (\<exists>r. p' = p\<lparr>pp_reader := r\<rparr> \<and> (pp_reader p = None \<longleftrightarrow> r = None))
     \<and> (\<forall>ob. res = Inr (Some ob) \<longrightarrow> plausible_observation ob)"
  by (auto simp: pump_read_def split: option.splits prod.splits elim: read_stable_position_Inr)

text \<open>The outcomes of a step of an active pump that may take a sample now.\<close>

lemma due_step:
  assumes "pp_phase p = PumpActive" "\<forall>s. pp_last_step_at_ms p = Some s \<longrightarrow> s \<le> now"
    "\<forall>d. pp_next_sample_at_ms p = Some d \<longrightarrow> d \<le> now"
  shows "pump_step R now p ib =
     (case pump_read R (p\<lparr>pp_last_step_at_ms := Some now\<rparr>) of
        (Inl reason, p2) \<Rightarrow> pump_disconnect reason p2 ib
      | (Inr None, p2) \<Rightarrow> pump_wait now p2 ib
      | (Inr (Some observation), p2) \<Rightarrow> pump_publish now observation p2 ib)"
  using assms by (auto simp: pump_step_def Let_def not_less split: option.splits)

lemma pump_step_agrees:
  assumes agrees: "pump_agrees p ib" and rel: "inbox_relates ib m"
    and step: "pump_step R now p ib = (out, p', ib')"
  shows "pump_agrees p' ib'"
proof (cases "pp_phase p = PumpActive")
  case False
  then show ?thesis
    using step agrees pump_disconnect_agrees [OF agrees, of TrMonotonicRegression]
    by (cases "pp_phase p") (auto simp: pump_step_def)
next
  case active: True
  then have conn: "ib_connected ib" using agrees by (simp add: pump_agrees_def)
  show ?thesis
  proof (cases "\<forall>s. pp_last_step_at_ms p = Some s \<longrightarrow> s \<le> now")
    case False
    then have p': "p' = p\<lparr>pp_phase := PumpClockInvalidPendingDisconnect,
          pp_terminal_reason := Some TrMonotonicRegression\<rparr>"
      and ib': "ib' = snd (sender_clock_invalid ib (pp_generation p) MonotonicRegression)"
      using step active by (auto simp: pump_step_def not_le split: option.splits)
    have "pump_agrees p ib'"
      unfolding ib' using clock_invalid_relates(2) [OF rel, of "pp_generation p" MonotonicRegression]
      by (intro pump_agrees_view [OF agrees]) (simp_all add: clock_invalid_view)
    with active show ?thesis by (auto simp: p' pump_agrees_def boot_agrees_def split: option.splits)
  next
    case clock: True
    let ?p = "p\<lparr>pp_last_step_at_ms := Some now\<rparr>"
    have agrees1: "pump_agrees ?p ib" using agrees clock by (rule pump_agrees_later)
    show ?thesis
    proof (cases "\<forall>d. pp_next_sample_at_ms p = Some d \<longrightarrow> d \<le> now")
      case False
      with active clock step agrees1 show ?thesis
        by (auto simp: pump_step_def not_le not_less Let_def split: option.splits if_splits)
    next
      case True
      obtain res p2 where read: "pump_read R ?p = (res, p2)" by (cases "pump_read R ?p")
      note cases = pump_read_cases [OF this]
      from conjunct1 [OF cases] obtain r where p2: "p2 = ?p\<lparr>pp_reader := r\<rparr>"
        "pp_reader ?p = None \<longleftrightarrow> r = None" by (elim exE conjE)
      note ob = conjunct2 [OF cases]
      have agrees2: "pump_agrees p2 ib"
        using agrees1 p2 by (auto simp: pump_agrees_def boot_agrees_def split: option.splits)
      have now: "pp_last_step_at_ms p2 = Some now" using p2 by simp
      note run = step [unfolded due_step [OF active clock True] read]
      consider (failed) reason where "res = Inl reason" | (waits) "res = Inr None"
        | (takes) observation where "res = Inr (Some observation)" by (cases res) (auto split: option.splits)
      then show ?thesis
      proof cases
        case failed
        with run pump_disconnect_agrees [OF agrees2, of reason] show ?thesis by simp
      next
        case waits
        with run pump_wait_agrees [OF agrees2 conn, of now] show ?thesis by simp
      next
        case takes
        with run pump_publish_outcome [OF agrees2 conn _ now] ob show ?thesis by fastforce
      qed
    qed
  qed
qed

lemma pump_reconnect_agrees:
  assumes agrees: "pump_agrees p ib" and step: "pump_reconnect R reader now p ib = (res, p', ib')"
  shows "pump_agrees p' ib'"
proof (cases res)
  case (Inl e)
  with step show ?thesis
    using agrees connect_view(2) [of ib]
    by (auto simp: pump_reconnect_def intro: pump_agrees_view split: if_splits prod.splits option.splits sum.splits)
next
  case (Inr u)
  let ?si = "pp_source_identity p"
  from step Inr obtain identity reader' g where g: "checked_add (pp_generation p) 1 = Some g"
    and ib': "sender_connect ib g = (CtlAccepted, ib')"
    and p': "p' = p\<lparr>pp_reader := Some reader', pp_bound_process := identity, pp_generation := g,
        pp_active_boot_id := derive_connection_boot_id (lsi_boot_id ?si) g,
        pp_next_sample_at_ms := Some now, pp_last_step_at_ms := Some now,
        pp_phase := PumpActive, pp_terminal_reason := None, pp_world_available := False\<rparr>"
    by (auto simp: pump_reconnect_def split: if_splits prod.splits option.splits sum.splits)
  have less: "pp_generation p < g" using g by (rule checked_add_one_greater)
  have start: "lsi_starting_generation ?si \<le> pp_generation p" "lsi_starting_generation ?si \<noteq> 0"
    "length (lsi_boot_id ?si) = 32" using agrees by (auto simp: pump_agrees_def)
  have boot: "derive_connection_boot_id (lsi_boot_id ?si) g = connection_boot_id ?si g"
    using less start(1) by (auto simp: connection_boot_id_def)
  have new: "connection_boot_id ?si h \<noteq> connection_boot_id ?si g"
    if "lsi_starting_generation ?si \<le> h" "h \<le> pp_generation p" for h
  proof -
    have "h \<noteq> 0" using that(1) start(2) by auto
    moreover have "g \<noteq> 0" using less by auto
    moreover have "h \<noteq> g" using that(2) less by auto
    ultimately show ?thesis using connection_boot_id_inject [OF start(3)] by simp
  qed
  show ?thesis
    using agrees start less new boot connect_view(1) [OF ib']
    by (fastforce simp: p' pump_agrees_def boot_agrees_def sender_view_def split: option.splits)
qed

section \<open>Runs\<close>

text \<open>
  What can happen to a pump and its channel, in any order: a step at any time, a reconnection, a poll of
  the source by the overlay, the end of the pump, and any change in the process that is read. The last
  argument collects the events the overlay received.
\<close>

inductive pump_run :: "'r memory_reader \<Rightarrow> 'r pump \<Rightarrow> Inbox \<Rightarrow> PositionSourceEvent list \<Rightarrow> bool" for R where
  run_new: "LocalPositionSourceIdentity_new world subject boot start = Inr si \<Longrightarrow> length boot = 32 \<Longrightarrow>
     pump_new R reader si = Inr (p, ib) \<Longrightarrow> pump_run R p ib []"
| run_step: "pump_run R p ib es \<Longrightarrow> pump_step R now p ib = (out, p', ib') \<Longrightarrow> pump_run R p' ib' es"
| run_reconnect: "pump_run R p ib es \<Longrightarrow> pump_reconnect R reader now p ib = (res, p', ib') \<Longrightarrow>
     pump_run R p' ib' es"
| run_poll: "pump_run R p ib es \<Longrightarrow> server_agent_poll ib now = (Inr ev, ib') \<Longrightarrow>
     pump_run R p ib' (es @ (case ev of None \<Rightarrow> [] | Some e \<Rightarrow> [e]))"
| run_drop: "pump_run R p ib es \<Longrightarrow> pump_drop p ib = (p', ib') \<Longrightarrow> pump_run R p' ib' es"
| run_process: "pump_run R p ib es \<Longrightarrow> pump_run R (p\<lparr>pp_reader := map_option f (pp_reader p)\<rparr>) ib es"

lemma pump_disconnect_relates:
  "inbox_relates ib m \<Longrightarrow> inbox_relates (snd (snd (pump_disconnect reason p ib))) m"
  by (simp add: pump_disconnect_def disconnect_relates)

lemma pump_step_relates:
  assumes "pump_step R now p ib = (out, p', ib')" "inbox_relates ib m"
  shows "inbox_relates ib' m"
proof -
  have wait: "inbox_relates (snd (snd (pump_wait now q ib))) m" for q :: "'a pump"
    using assms(2) by (auto simp: pump_wait_def Let_def case_prod_beta unavailable_relates pump_disconnect_relates)
  have publish: "inbox_relates (snd (snd (pump_publish now ob q ib))) m" for ob and q :: "'a pump"
  proof -
    have keep: "inbox_relates i m" if "publish_position ib f now = (res, i)" for f res i
      using publish_relates [OF assms(2), of f now] that by simp
    show ?thesis
      using assms(2) keep
      by (auto simp: pump_publish_def pump_disconnect_relates
          split: option.splits prod.splits sum.splits ServerAgentIngestOutcome.splits)
  qed
  have "inbox_relates (snd (snd (pump_step R now p ib))) m"
    using assms(2) wait publish
    by (simp add: pump_step_def Let_def pump_disconnect_relates clock_invalid_relates
        split: prod.split sum.split option.split)
  with assms(1) show ?thesis by simp
qed

lemma pump_reconnect_relates:
  "pump_reconnect R reader now p ib = (res, p', ib') \<Longrightarrow> inbox_relates ib m \<Longrightarrow> inbox_relates ib' m"
  using connect_relates [of ib m]
  by (auto simp: pump_reconnect_def split: if_splits prod.splits option.splits sum.splits) (metis snd_conv)+

lemma pump_new_agrees:
  assumes "LocalPositionSourceIdentity_new world subject boot start = Inr si" "length boot = 32"
    "pump_new R reader si = Inr (p, ib)"
  shows "pump_agrees p ib \<and> inbox_relates ib monitor_init"
proof -
  from assms(3) obtain ib0 identity reader' where
    ib0: "server_agent_channel (lsi_world_alias si) (lsi_subject_id si) = Inr ib0"
    and ib: "sender_connect ib0 (lsi_starting_generation si) = (CtlAccepted, ib)"
    and p: "p = \<lparr>pp_reader = Some reader', pp_bound_process = identity, pp_source_identity = si,
       pp_active_boot_id = lsi_boot_id si, pp_generation = lsi_starting_generation si, pp_sequence = 0,
       pp_next_sample_at_ms = None, pp_last_step_at_ms = None, pp_phase = PumpActive,
       pp_terminal_reason = None, pp_world_available = False\<rparr>"
    by (auto simp: pump_new_def and_then_eq_Inr split: prod.splits option.splits sum.splits if_splits)
  have "inbox_relates ib monitor_init"
    using connect_relates [OF server_agent_channel_relates [OF ib0], of "lsi_starting_generation si"] ib by simp
  moreover have "pump_agrees p ib"
    using assms(1,2) ib0 connect_view(1) [OF ib]
    by (auto simp: p pump_agrees_def boot_agrees_def sender_view_def server_agent_channel_def
        LocalPositionSourceIdentity_new_def connection_boot_id_def split: if_splits)
  ultimately show ?thesis by simp
qed

lemma pump_run_agrees:
  "pump_run R p ib es \<Longrightarrow> pump_agrees p ib \<and> (\<exists>m. monitor_run monitor_init es = Some m \<and> inbox_relates ib m)"
proof (induction rule: pump_run.induct)
  case (run_new world subject boot start si reader p ib)
  then show ?case using pump_new_agrees by fastforce
next
  case (run_step p ib es now out p' ib')
  then show ?case using pump_step_agrees pump_step_relates by blast
next
  case (run_reconnect p ib es reader now res p' ib')
  then have "pump_agrees p' ib'" by (intro pump_reconnect_agrees [OF _ run_reconnect.hyps(2)]) simp
  with run_reconnect pump_reconnect_relates [OF run_reconnect.hyps(2)] show ?case by auto
next
  case (run_poll p ib es now ev ib')
  then obtain m where m: "monitor_run monitor_init es = Some m" "inbox_relates ib m" by blast
  have "pump_agrees p ib'" using run_poll poll_view [of ib now] by (auto intro: pump_agrees_view)
  with poll_relates [OF m(2) run_poll.hyps(2)] m(1) show ?case
    by (auto simp: monitor_run_snoc split: option.splits)
next
  case (run_drop p ib es p' ib')
  then obtain m where m: "pump_agrees p ib" "monitor_run monitor_init es = Some m" "inbox_relates ib m" by blast
  show ?case
  proof (cases "pp_phase p = PumpDisconnected")
    case True
    with run_drop show ?thesis by (auto simp: pump_drop_def)
  next
    case False
    then have drop: "p' = p\<lparr>pp_phase := PumpDisconnected\<rparr>" "ib' = snd (sender_disconnect ib (pp_generation p))"
      using run_drop.hyps by (auto simp: pump_drop_def)
    have "pump_agrees p' ib'"
      using pump_disconnect_agrees [OF m(1), of TrReadFailed] False
      by (auto simp: drop pump_disconnect_def pump_agrees_def boot_agrees_def split: option.splits)
    then show ?thesis using m disconnect_relates [OF m(3)] by (auto simp: drop)
  qed
next
  case (run_process p ib es f)
  then show ?case by (simp add: pump_agrees_reader)
qed

lemma publishes_sample:
  assumes "publishes p n ob now ib ib'"
  shows "\<exists>s. ib_pending_sample ib' = Some (Sample s) \<and> (ps_x s, ps_y s, ps_z s) = (ob_x ob, ob_y ob, ob_z ob)
    \<and> ps_generation s = pp_generation p \<and> ps_sequence s = n \<and> ps_clock s = received_with_age 0 now"
  using assms by (auto simp: publishes_def PositionSample_new_def split: if_splits)

lemma published_step:
  assumes "pump_step R now p ib = (StepPublished g n, p', ib')"
  obtains r r' ob where "pp_reader p = Some r" "read_stable_position R (pp_bound_process p) r = (Inr (Some ob), r')"
    "g = pp_generation p" "checked_add (pp_sequence p) 1 = Some n" "publishes p n ob now ib ib'"
proof -
  from assms obtain p2 ob where read: "pump_read R (p\<lparr>pp_last_step_at_ms := Some now\<rparr>) = (Inr (Some ob), p2)"
    and step: "pump_publish now ob p2 ib = (StepPublished g n, p', ib')"
    by (auto simp: pump_step_def pump_disconnect_def pump_wait_def Let_def
        split: if_splits prod.splits sum.splits option.splits)
  from read obtain r r' where r: "pp_reader p = Some r"
    "read_stable_position R (pp_bound_process p) r = (Inr (Some ob), r')"
    and p2: "p2 = p\<lparr>pp_last_step_at_ms := Some now, pp_reader := Some r'\<rparr>"
    by (auto simp: pump_read_def split: option.splits prod.splits)
  from step have pub: "checked_add (pp_sequence p2) 1 = Some n"
    "publish_position ib (pump_frame p2 n ob) now = (Inr InAccepted, ib')" "g = pp_generation p2"
    by (auto simp: pump_publish_def pump_disconnect_def
        split: option.splits prod.splits sum.splits ServerAgentIngestOutcome.splits)
  have "publishes p n ob now ib ib'"
    using accepted_pending [OF pub(2)] by (simp add: p2 publishes_def)
  with that [OF r] pub show ?thesis by (simp add: p2)
qed

section \<open>Examples\<close>

text \<open>A process of the supported build whose pointers all lead to address 4096, with the player at x = 1.\<close>

definition sample_process :: LocalProcessIdentity where
  "sample_process = \<lparr>lp_build_id = BUILD_ID, lp_executable_sha256 = EXECUTABLE_SHA256,
     lp_executable_file_size = EXECUTABLE_FILE_SIZE, lp_module_base = 0x140000000,
     lp_module_size = LOADED_MODULE_SIZE\<rparr>"

definition sample_memory :: "unit memory_reader" where
  "sample_memory = \<lparr>mr_identity = Pair (Some sample_process), mr_open = Pair True,
     mr_read = (\<lambda>address n. Pair (Some (\<lambda>i. if n = 8 then (if i = 1 then 16 else 0)
        else if i = 6 then 0xf0 else if i = 7 then 0x3f else 0))),
     mr_close = Pair True\<rparr>"

definition sample_observation :: LocalPositionObservation where
  "sample_observation = \<lparr>ob_x = FFin 1, ob_y = FFin 0, ob_z = FFin 0, ob_yaw_degrees = FFin 0\<rparr>"

definition sample_source :: LocalPositionSourceIdentity where
  "sample_source = \<lparr>lsi_world_alias = ''world-a'', lsi_subject_id = replicate 32 7,
     lsi_boot_id = replicate 32 9, lsi_starting_generation = 1\<rparr>"

definition sample_pump :: "unit pump" where
  "sample_pump = \<lparr>pp_reader = Some (), pp_bound_process = sample_process, pp_source_identity = sample_source,
     pp_active_boot_id = replicate 32 9, pp_generation = 1, pp_sequence = 0, pp_next_sample_at_ms = None,
     pp_last_step_at_ms = None, pp_phase = PumpActive, pp_terminal_reason = None, pp_world_available = False\<rparr>"

definition sample_channel :: Inbox where
  "sample_channel = snd (sender_connect sample_inbox 1)"

lemma sample_process_exact: "validate_exact_process sample_process = Inr ()"
  by (simp add: validate_exact_process_def sample_process_def checked_add_def LOADED_MODULE_SIZE_def ROOT_RVA_def
      word_less_nat_alt)

lemma sample_floats: "f64_from_bits 0 = FFin 0" "f64_from_bits 0x3ff0000000000000 = FFin 1"
proof -
  show "f64_from_bits 0 = FFin 0" by (simp add: f64_from_bits_def)
  have sign: "bit (0x3ff0000000000000 :: u64) 63 = False" by code_simp
  have exponent: "take_bit 11 (drop_bit 52 (0x3ff0000000000000 :: u64)) = 1023" by code_simp
  have mantissa: "take_bit 52 (0x3ff0000000000000 :: u64) = 0" by code_simp
  show "f64_from_bits 0x3ff0000000000000 = FFin 1"
    unfolding f64_from_bits_def sign exponent mantissa Let_def by (simp add: pow2_def)
qed

lemma le_bytes_zero: "u64_from_le_bytes (replicate n 0) = 0"
  by (induction n) simp_all

lemma sample_le_bytes:
  "u64_from_le_bytes [0, 0, 0, 0, 0, 0, 0xf0, 0x3f] = 0x3ff0000000000000"
  "u64_from_le_bytes [0, 16, 0, 0, 0, 0, 0, 0] = 4096"
  by code_simp+

definition sample_camera_block :: bytes where
  "sample_camera_block = [0, 0, 0, 0, 0, 0, 0xf0, 0x3f] @ replicate 32 0"

lemma sample_camera: "decode_camera_block sample_camera_block = Inr (Some sample_observation)"
proof -
  have zero: "read_f64 sample_camera_block offset = FFin 0" if "8 \<le> offset" "offset \<le> 32" for offset
  proof -
    have "take 8 (drop offset (xs @ replicate 32 (0 :: u8))) = replicate 8 0" if "length xs = 8" for xs
      using \<open>8 \<le> offset\<close> \<open>offset \<le> 32\<close> that by (simp add: min_def)
    then have "take 8 (drop offset sample_camera_block) = replicate 8 0"
      unfolding sample_camera_block_def by this simp
    then show ?thesis unfolding read_f64_def by (simp only: le_bytes_zero sample_floats)
  qed
  have "read_f64 sample_camera_block 0 = FFin 1"
    unfolding read_f64_def sample_camera_block_def using sample_le_bytes(1) sample_floats(2) by simp
  then show ?thesis
    by (simp add: decode_camera_block_def Let_def zero sample_observation_def
        MAX_ABSOLUTE_WORLD_COORDINATE_def MIN_PLAUSIBLE_YAW_def MAX_PLAUSIBLE_YAW_def fl_in_closed_def)
qed

lemma sample_reads:
  "read_pointer sample_memory a r = (if a = 0 then (Inl TrInvalidPointer, r) else (Inr 4096, r))"
  "read_exact sample_memory a CAMERA_BLOCK_BYTES r = (Inr sample_camera_block, r)"
proof -
  have "map (\<lambda>i. if i = 1 then 16 else 0) [0..<8] = [0, 16, 0, 0, 0, 0, 0, 0 :: u8]" by code_simp
  then show "read_pointer sample_memory a r = (if a = 0 then (Inl TrInvalidPointer, r) else (Inr 4096, r))"
    using sample_le_bytes(2)
    by (simp add: read_pointer_def read_exact_def then_read_def sample_memory_def Let_def)
  have "map (\<lambda>i. if i = 6 then 0xf0 else if i = 7 then 0x3f else 0) [0..<40] =
      sample_camera_block" by code_simp
  then show "read_exact sample_memory a CAMERA_BLOCK_BYTES r =
      (Inr sample_camera_block, r)"
    by (simp add: read_exact_def sample_memory_def CAMERA_BLOCK_BYTES_def)
qed

lemma sample_memory_calls:
  "mr_identity sample_memory r = (Some sample_process, r)" "mr_open sample_memory r = (True, r)"
  "mr_close sample_memory r = (True, r)"
  by (simp_all add: sample_memory_def)

lemma sample_session:
  "read_stable_position_in_session sample_memory sample_process r = (Inr (Some sample_observation), r)"
  unfolding read_stable_position_in_session_def resolve_pointer_chain_def verify_pointer_chain_def
  by (simp add: then_read_def sample_reads sample_camera POINTER_READ_OFFSETS_def address_add_def checked_add_def
      CAMERA_OFFSET_def sample_process_def ROOT_RVA_def) (simp add: CAMERA_BLOCK_BYTES_def)

lemma sample_read:
  "read_stable_position sample_memory sample_process r = (Inr (Some sample_observation), r)"
  using sample_session sample_process_exact
  by (simp add: read_stable_position_def with_read_session_def sample_memory_calls)

lemma sample_pump_started:
  "LocalPositionSourceIdentity_new ''world-a'' (replicate 32 7) (replicate 32 9) 1 = Inr sample_source"
  "pump_new sample_memory () sample_source = Inr (sample_pump, sample_channel)"
proof -
  show "LocalPositionSourceIdentity_new ''world-a'' (replicate 32 7) (replicate 32 9) 1 = Inr sample_source"
    by (simp add: LocalPositionSourceIdentity_new_def sample_source_def is_ascii_def)
  have "fst (sender_connect sample_inbox 1) = CtlAccepted"
    by (simp add: sample_inbox_value sample_run_defs)
  then have "sender_connect sample_inbox 1 = (CtlAccepted, sample_channel)"
    unfolding sample_channel_def by (metis prod.collapse)
  then show "pump_new sample_memory () sample_source = Inr (sample_pump, sample_channel)"
    using sample_process_exact sample_inbox_channel
    by (simp add: pump_new_def sample_source_def sample_pump_def sample_memory_calls)
qed

lemma sample_pump_run: "pump_run sample_memory sample_pump sample_channel []"
  using run_new [OF sample_pump_started(1) _ sample_pump_started(2)] by simp

lemma sample_channel_fresh: "\<not> RetiredBootFilter_contains (ib_retired_boots sample_channel) b"
  by (simp add: sample_channel_def sample_inbox_value sample_run_defs)

lemma sample_step:
  obtains p' ib' where "pump_step sample_memory 1000 sample_pump sample_channel = (StepPublished 1 1, p', ib')"
proof -
  let ?p = "sample_pump\<lparr>pp_last_step_at_ms := Some 1000\<rparr>"
  have read: "pump_read sample_memory ?p = (Inr (Some sample_observation), ?p)"
    by (simp add: pump_read_def sample_pump_def sample_read)
  have agrees: "pump_agrees sample_pump sample_channel" using pump_run_agrees [OF sample_pump_run] by simp
  then have "pump_agrees ?p sample_channel" by (rule pump_agrees_later) (simp add: sample_pump_def)
  moreover have "ib_connected sample_channel" using agrees by (simp add: pump_agrees_def sample_pump_def)
  moreover have "plausible_observation sample_observation"
    using read pump_read_cases by blast
  ultimately have "case pump_publish 1000 sample_observation ?p sample_channel of (out, p', ib') \<Rightarrow> out = StepPublished 1 1"
    using pump_publish_outcome [of ?p sample_channel sample_observation 1000] sample_channel_fresh
    by (auto simp: sample_pump_def)
  moreover have "pump_step sample_memory 1000 sample_pump sample_channel =
      pump_publish 1000 sample_observation ?p sample_channel"
    by (subst due_step) (simp_all add: sample_pump_def read [unfolded sample_pump_def, simplified])
  ultimately show ?thesis using that by auto
qed

section \<open>Properties\<close>

text \<open>
  C14: a position is published only if it was read safely from the supported build of the game. Before
  and after the read the process was the one the pump is bound to, which is the exact build; in one
  session the pointer chain was walked twice with the same result and the camera block between the two
  walks decoded to a plausible position; and the sample now pending for the overlay has its coordinates,
  the generation and the next sequence number.
\<close>

theorem local_position_verified:
  assumes "pump_step R now p ib = (StepPublished g n, p', ib')"
  shows "\<exists>r r1 r2 r3 r4 r5 ob s. pp_reader p = Some r \<and> validate_exact_process (pp_bound_process p) = Inr ()
    \<and> mr_identity R r = (Some (pp_bound_process p), r1) \<and> mr_open R r1 = (True, r2)
    \<and> sampled R (pp_bound_process p) r2 (Some ob) r3
    \<and> mr_close R r3 = (True, r4) \<and> mr_identity R r4 = (Some (pp_bound_process p), r5)
    \<and> plausible_observation ob \<and> ib_pending_sample ib' = Some (Sample s)
    \<and> (ps_x s, ps_y s, ps_z s) = (ob_x ob, ob_y ob, ob_z ob)
    \<and> ps_generation s = g \<and> ps_sequence s = n \<and> checked_add (pp_sequence p) 1 = Some n"
proof -
  obtain r r' ob where run: "pp_reader p = Some r"
    "read_stable_position R (pp_bound_process p) r = (Inr (Some ob), r')" "g = pp_generation p"
    "checked_add (pp_sequence p) 1 = Some n" "publishes p n ob now ib ib'"
    using assms by (rule published_step)
  obtain r1 r2 r3 r4 where "validate_exact_process (pp_bound_process p) = Inr ()"
    "mr_identity R r = (Some (pp_bound_process p), r1)" "mr_open R r1 = (True, r2)"
    "sampled R (pp_bound_process p) r2 (Some ob) r3" "mr_close R r3 = (True, r4)"
    "mr_identity R r4 = (Some (pp_bound_process p), r')" "plausible_observation ob"
    using run(2) by (rule read_stable_position_Inr)
  with run(1,3,4) publishes_sample [OF run(5)] show ?thesis by blast
qed

theorem local_position_verified_witness:
  "\<exists>p' ib' ob s. pump_step sample_memory 1000 sample_pump sample_channel = (StepPublished 1 1, p', ib')
     \<and> plausible_observation ob \<and> ib_pending_sample ib' = Some (Sample s) \<and> ps_x s = ob_x ob"
proof -
  obtain p' ib' where step: "pump_step sample_memory 1000 sample_pump sample_channel = (StepPublished 1 1, p', ib')"
    by (rule sample_step)
  with local_position_verified [OF step] show ?thesis by blast
qed

text \<open>
  C15: the overlay accepts everything the pump sends. Whatever happens to the pump, its channel and the
  process it reads, the events the overlay received are accepted in full by the reducer, the channel is on
  the generation of the pump and open exactly while the pump is not disconnected.
\<close>

theorem local_position_feeds_reducer:
  assumes "pump_run R p ib es"
  shows "reducer_drops (foldl apply_position_source StateReducer_default es) = [0, 0, 0, 0, 0]
    \<and> ib_generation ib = pp_generation p \<and> (ib_connected ib \<longleftrightarrow> pp_phase p \<noteq> PumpDisconnected)"
proof -
  obtain m where m: "monitor_run monitor_init es = Some m" and agrees: "pump_agrees p ib"
    using pump_run_agrees [OF assms] by blast
  have "reducer_drops (foldl apply_position_source StateReducer_default es) = reducer_drops StateReducer_default"
    using monitor_run_accepted [of StateReducer_default es m] m by (simp add: monitor_of_default)
  with agrees show ?thesis by (simp add: reducer_drops_default pump_agrees_def)
qed

theorem local_position_feeds_reducer_witness:
  "ib_generation sample_channel = 1 \<and> ib_connected sample_channel"
  using local_position_feeds_reducer [OF sample_pump_run] by (simp add: sample_pump_def)

text \<open>
  C16: a position that can be read is shown. After any history, an active pump that is due, at a time
  that has not gone back, and reads a position publishes it with the next sequence number, unless the
  sequence numbers are used up or the channel reports the boot identity of the connection as retired.
\<close>

theorem local_position_published:
  assumes "pump_run R p ib es" "pp_phase p = PumpActive" "pp_reader p = Some r"
    and "\<forall>s. pp_last_step_at_ms p = Some s \<longrightarrow> s \<le> now" "\<forall>d. pp_next_sample_at_ms p = Some d \<longrightarrow> d \<le> now"
    and "read_stable_position R (pp_bound_process p) r = (Inr (Some ob), r')"
    and "pp_sequence p \<noteq> - 1" "\<not> RetiredBootFilter_contains (ib_retired_boots ib) (pp_active_boot_id p)"
  shows "\<exists>p' ib' s. pump_step R now p ib = (StepPublished (pp_generation p) (pp_sequence p + 1), p', ib')
    \<and> ib_pending_sample ib' = Some (Sample s) \<and> (ps_x s, ps_y s, ps_z s) = (ob_x ob, ob_y ob, ob_z ob)
    \<and> ps_clock s = received_with_age 0 now"
proof -
  let ?p = "p\<lparr>pp_last_step_at_ms := Some now, pp_reader := Some r'\<rparr>"
  have read: "pump_read R (p\<lparr>pp_last_step_at_ms := Some now\<rparr>) = (Inr (Some ob), ?p)"
    using assms(3,6) by (simp add: pump_read_def)
  have agrees: "pump_agrees p ib" using pump_run_agrees [OF assms(1)] by simp
  then have "ib_connected ib" using assms(2) by (simp add: pump_agrees_def)
  moreover have "pump_agrees ?p ib"
    using pump_agrees_reader [OF pump_agrees_later [OF agrees assms(4)], of "\<lambda>_. r'"] assms(3) by simp
  moreover have "plausible_observation ob" using assms(6) by (rule read_stable_position_Inr)
  ultimately have "case pump_publish now ob ?p ib of (out, p', ib') \<Rightarrow>
      out = StepPublished (pp_generation p) (pp_sequence p + 1) \<and> publishes ?p (pp_sequence p + 1) ob now ib ib'"
    using pump_publish_outcome [of ?p ib ob now] assms(7,8) by auto
  then show ?thesis
    unfolding due_step [OF assms(2,4,5)] read by (auto dest!: publishes_sample)
qed

theorem local_position_published_witness:
  "\<exists>p' ib' s. pump_step sample_memory 1000 sample_pump sample_channel = (StepPublished 1 1, p', ib')
     \<and> ib_pending_sample ib' = Some (Sample s) \<and> (ps_x s, ps_y s, ps_z s) = (FFin 1, FFin 0, FFin 0)"
  using local_position_published [OF sample_pump_run, of "()" 1000 sample_observation "()"]
    sample_read [of "()"] sample_channel_fresh
  by (auto simp: sample_pump_def sample_observation_def)

end
