(* ===== verification/Windows_Hotkeys.thy ===== *)
theory Windows_Hotkeys
  imports Domain_Settings
begin

text \<open>
  The hotkey registry of \<open>crates/pal-windows/src/hotkeys.rs\<close>: the validation of bindings, the
  resolution of duplicate chords, the incremental replacement of the registrations held by the
  operating system and their release when the registry is dropped.

  The trait \<open>HotkeyBackend\<close> is a record of two functions on a backend state, so a definition that
  calls the backend takes the record as an argument.  The arrays of four slots are lists indexed by
  \<open>action_index\<close>.  A call that would panic at an \<open>expect\<close> returns \<open>None\<close>.  The locale
  \<open>hotkey_table\<close> states what the operating system promises about the table of registrations it
  holds; it is interpreted on an arbitrary backend that carries this table along.
\<close>

unbundle bit_operations_syntax

section \<open>Identifiers\<close>

definition MOD_ALT :: u32 where "MOD_ALT = 0x0001"
definition MOD_CONTROL :: u32 where "MOD_CONTROL = 0x0002"
definition MOD_SHIFT :: u32 where "MOD_SHIFT = 0x0004"
definition MOD_WIN :: u32 where "MOD_WIN = 0x0008"
definition MOD_NOREPEAT :: u32 where "MOD_NOREPEAT = 0x4000"

text \<open>An \<open>i32\<close> is a 32-bit word read with \<open>sint\<close>; \<open>-\<close> wraps as in a release build.\<close>

definition ACTION_HOTKEY_ID_START :: i32 where "ACTION_HOTKEY_ID_START = 0x5100"
definition TRANSIENT_HOTKEY_ID_START :: i32 where "TRANSIENT_HOTKEY_ID_START = 0x5200"
definition TRANSIENT_HOTKEY_ID_END :: i32 where "TRANSIENT_HOTKEY_ID_END = 0x52FF"

definition CANONICAL_ACTIONS :: "HotkeyAction list" where
  "CANONICAL_ACTIONS = [OverlayVisibility, RotationToggle, TemporaryInteraction, InteractionLock]"

fun action_index :: "HotkeyAction \<Rightarrow> nat" where
  "action_index OverlayVisibility = 0"
| "action_index RotationToggle = 1"
| "action_index TemporaryInteraction = 2"
| "action_index InteractionLock = 3"

definition action_registration_id :: "HotkeyAction \<Rightarrow> i32" where
  "action_registration_id action = ACTION_HOTKEY_ID_START + of_nat (action_index action)"

definition action_from_registration_id :: "i32 \<Rightarrow> HotkeyAction option" where
  "action_from_registration_id i =
     (let index = i - ACTION_HOTKEY_ID_START in
      if sint index < 0 \<or> int (length CANONICAL_ACTIONS) \<le> sint index then None
      else Some (CANONICAL_ACTIONS ! nat (sint index)))"

section \<open>Backend, reports and registry\<close>

datatype HotkeyBackendOperation = OpRegister | OpUnregister

datatype HotkeyBackendErrorCategory = Collision | System

record HotkeyBackendError =
  hbe_operation :: HotkeyBackendOperation
  hbe_category :: HotkeyBackendErrorCategory
  hbe_code :: u32

record 'b HotkeyBackend =
  hb_register :: "'b \<Rightarrow> i32 \<Rightarrow> u32 \<Rightarrow> u32 \<Rightarrow> (HotkeyBackendError + unit) \<times> 'b"
  hb_unregister :: "'b \<Rightarrow> i32 \<Rightarrow> (HotkeyBackendError + unit) \<times> 'b"

datatype HotkeyDisableReason = OsCollision | DuplicateChord HotkeyAction

record DisabledHotkey =
  dh_action :: HotkeyAction
  dh_reason :: HotkeyDisableReason

record HotkeyReport =
  hrep_active :: "HotkeyAction list"
  hrep_disabled :: "DisabledHotkey list"

datatype HotkeyRegistryError =
    InvalidBinding HotkeyAction HotkeyValidationReason
  | FatalRegister HotkeyAction HotkeyBackendError
  | FatalUnregister HotkeyAction HotkeyBackendError
  | Poisoned

record ActiveRegistration =
  ar_chord :: HotkeyChord

datatype Target = TargetNone | TargetRegister HotkeyChord | TargetDuplicate HotkeyChord HotkeyAction

datatype Outcome = OutcomeNone | OutcomeActive | OutcomeDisabled HotkeyDisableReason

record 'b HotkeyRegistry =
  hr_backend :: 'b
  hr_initialized :: bool
  hr_targets :: "Target list"
  hr_outcomes :: "Outcome list"
  hr_active :: "ActiveRegistration option list"
  hr_unregister_attempted :: "bool list"
  hr_report :: "HotkeyReport option"
  hr_poisoned :: bool

definition HotkeyRegistry_new :: "'b \<Rightarrow> 'b HotkeyRegistry" where
  "HotkeyRegistry_new backend =
     \<lparr>hr_backend = backend, hr_initialized = False, hr_targets = replicate 4 TargetNone,
      hr_outcomes = replicate 4 OutcomeNone, hr_active = replicate 4 None,
      hr_unregister_attempted = replicate 4 False, hr_report = None, hr_poisoned = False\<rparr>"

section \<open>Bindings\<close>

definition action_chords :: "HotkeyBindings \<Rightarrow> (HotkeyAction \<times> HotkeyChord option) list" where
  "action_chords bindings =
     [(OverlayVisibility, overlay_visibility bindings), (RotationToggle, rotation_toggle bindings),
      (TemporaryInteraction, temporary_interaction bindings),
      (InteractionLock, interaction_lock bindings)]"

definition has_modifier :: "HotkeyModifiers \<Rightarrow> bool" where
  "has_modifier m = (hm_control m \<or> hm_alt m \<or> hm_shift m \<or> hm_windows m)"

fun validate_action_chords ::
  "(HotkeyAction \<times> HotkeyChord option) list \<Rightarrow> HotkeyRegistryError + unit" where
  "validate_action_chords [] = Inr ()"
| "validate_action_chords ((action, None) # rest) = validate_action_chords rest"
| "validate_action_chords ((action, Some chord) # rest) =
     (if hc_virtual_key chord = 0 then Inl (InvalidBinding action ZeroVirtualKey)
      else if hc_virtual_key chord = 0x4B \<and> \<not> has_modifier (hc_modifiers chord)
      then Inl (InvalidBinding action UnmodifiedK)
      else if \<not> has_modifier (hc_modifiers chord)
              \<and> (0x30 \<le> hc_virtual_key chord \<and> hc_virtual_key chord \<le> 0x39
                 \<or> 0x41 \<le> hc_virtual_key chord \<and> hc_virtual_key chord \<le> 0x5A)
      then Inl (InvalidBinding action UnmodifiedGameKey)
      else validate_action_chords rest)"

definition validate_bindings :: "HotkeyBindings \<Rightarrow> HotkeyRegistryError + unit" where
  "validate_bindings bindings = validate_action_chords (action_chords bindings)"

text \<open>\<open>find_map\<close> over the enumerated prefix of the targets.\<close>

fun find_prior :: "HotkeyChord \<Rightarrow> (nat \<times> Target) list \<Rightarrow> HotkeyAction option" where
  "find_prior chord [] = None"
| "find_prior chord ((prior_index, target) # rest) =
     (case target of
        TargetRegister prior \<Rightarrow>
          if prior = chord then Some (CANONICAL_ACTIONS ! prior_index) else find_prior chord rest
      | TargetDuplicate prior _ \<Rightarrow>
          if prior = chord then Some (CANONICAL_ACTIONS ! prior_index) else find_prior chord rest
      | TargetNone \<Rightarrow> find_prior chord rest)"

fun resolve_targets_from ::
  "(nat \<times> HotkeyAction \<times> HotkeyChord option) list \<Rightarrow> Target list \<Rightarrow> Target list" where
  "resolve_targets_from [] targets = targets"
| "resolve_targets_from ((index, action, None) # rest) targets = resolve_targets_from rest targets"
| "resolve_targets_from ((index, action, Some chord) # rest) targets =
     resolve_targets_from rest
       (targets[index := (case find_prior chord (List.enumerate 0 (take index targets)) of
                            None \<Rightarrow> TargetRegister chord
                          | Some conflicting_action \<Rightarrow> TargetDuplicate chord conflicting_action)])"

definition resolve_targets :: "HotkeyBindings \<Rightarrow> Target list" where
  "resolve_targets bindings =
     resolve_targets_from (List.enumerate 0 (action_chords bindings)) (replicate 4 TargetNone)"

definition modifiers_to_native :: "HotkeyModifiers \<Rightarrow> u32" where
  "modifiers_to_native m =
     (let native = MOD_NOREPEAT;
          native = (if hm_control m then native OR MOD_CONTROL else native);
          native = (if hm_alt m then native OR MOD_ALT else native);
          native = (if hm_shift m then native OR MOD_SHIFT else native);
          native = (if hm_windows m then native OR MOD_WIN else native)
      in native)"

fun build_report_from :: "(nat \<times> HotkeyAction) list \<Rightarrow> Outcome list \<Rightarrow> HotkeyReport \<Rightarrow> HotkeyReport" where
  "build_report_from [] outcomes report = report"
| "build_report_from ((index, action) # rest) outcomes report =
     build_report_from rest outcomes
       (case outcomes ! index of
          OutcomeNone \<Rightarrow> report
        | OutcomeActive \<Rightarrow> report\<lparr>hrep_active := hrep_active report @ [action]\<rparr>
        | OutcomeDisabled reason \<Rightarrow>
            report\<lparr>hrep_disabled :=
              hrep_disabled report @ [\<lparr>dh_action = action, dh_reason = reason\<rparr>]\<rparr>)"

definition build_report :: "Outcome list \<Rightarrow> HotkeyReport" where
  "build_report outcomes =
     build_report_from (List.enumerate 0 CANONICAL_ACTIONS) outcomes
       \<lparr>hrep_active = [], hrep_disabled = []\<rparr>"

section \<open>Replacement\<close>

text \<open>The two loops of \<open>replace\<close>: first every changed slot is released, then registered anew.\<close>

definition unregister_changed ::
  "'b HotkeyBackend \<Rightarrow> Target list \<Rightarrow> nat \<times> HotkeyAction \<Rightarrow> 'b HotkeyRegistry
   \<Rightarrow> (HotkeyRegistryError + unit) \<times> 'b HotkeyRegistry" where
  "unregister_changed B targets = (\<lambda>(index, action) r.
     if targets ! index = hr_targets r ! index then (Inr (), r)
     else if hr_active r ! index \<noteq> None
     then let r = r\<lparr>hr_unregister_attempted := (hr_unregister_attempted r)[index := True]\<rparr> in
       (case hb_unregister B (hr_backend r) (action_registration_id action) of
          (Inl source, b) \<Rightarrow>
            (Inl (FatalUnregister action source),
             r\<lparr>hr_backend := b, hr_poisoned := True, hr_report := None\<rparr>)
        | (Inr _, b) \<Rightarrow>
            (Inr (), r\<lparr>hr_backend := b, hr_active := (hr_active r)[index := None]\<rparr>))
     else (Inr (), r))"

definition register_changed ::
  "'b HotkeyBackend \<Rightarrow> Target list \<Rightarrow> nat \<times> HotkeyAction \<Rightarrow> 'b HotkeyRegistry
   \<Rightarrow> (HotkeyRegistryError + unit) \<times> 'b HotkeyRegistry" where
  "register_changed B targets = (\<lambda>(index, action) r.
     if targets ! index = hr_targets r ! index then (Inr (), r)
     else case targets ! index of
       TargetNone \<Rightarrow> (Inr (), r\<lparr>hr_outcomes := (hr_outcomes r)[index := OutcomeNone]\<rparr>)
     | TargetDuplicate _ conflicting_action \<Rightarrow>
         (Inr (), r\<lparr>hr_outcomes :=
            (hr_outcomes r)[index := OutcomeDisabled (DuplicateChord conflicting_action)]\<rparr>)
     | TargetRegister chord \<Rightarrow>
         (case hb_register B (hr_backend r) (action_registration_id action)
                 (modifiers_to_native (hc_modifiers chord)) (ucast (hc_virtual_key chord)) of
            (Inr _, b) \<Rightarrow>
              (Inr (), r\<lparr>hr_backend := b,
                 hr_active := (hr_active r)[index := Some \<lparr>ar_chord = chord\<rparr>],
                 hr_unregister_attempted := (hr_unregister_attempted r)[index := False],
                 hr_outcomes := (hr_outcomes r)[index := OutcomeActive]\<rparr>)
          | (Inl source, b) \<Rightarrow>
              if hbe_category source = Collision
              then (Inr (), r\<lparr>hr_backend := b, hr_active := (hr_active r)[index := None],
                      hr_outcomes := (hr_outcomes r)[index := OutcomeDisabled OsCollision]\<rparr>)
              else (Inl (FatalRegister action source),
                    r\<lparr>hr_backend := b, hr_poisoned := True, hr_report := None\<rparr>)))"

definition HotkeyRegistry_replace ::
  "'b HotkeyBackend \<Rightarrow> HotkeyBindings \<Rightarrow> 'b HotkeyRegistry
   \<Rightarrow> (HotkeyRegistryError + HotkeyReport) option \<times> 'b HotkeyRegistry" where
  "HotkeyRegistry_replace B bindings r =
     (if hr_poisoned r then (Some (Inl Poisoned), r)
      else case validate_bindings bindings of
        Inl e \<Rightarrow> (Some (Inl e), r)
      | Inr _ \<Rightarrow>
          let targets = resolve_targets bindings in
          if hr_initialized r \<and> targets = hr_targets r
          then (map_option Inr (hr_report r), r)
          else case try_each (unregister_changed B targets) (List.enumerate 0 CANONICAL_ACTIONS) r of
            (Inl e, r) \<Rightarrow> (Some (Inl e), r)
          | (Inr _, r) \<Rightarrow>
              (case try_each (register_changed B targets) (List.enumerate 0 CANONICAL_ACTIONS) r of
                 (Inl e, r) \<Rightarrow> (Some (Inl e), r)
               | (Inr _, r) \<Rightarrow>
                   let r = r\<lparr>hr_targets := targets, hr_initialized := True,
                             hr_report := Some (build_report (hr_outcomes r))\<rparr>
                   in (map_option Inr (hr_report r), r)))"

definition effective_report :: "'b HotkeyRegistry \<Rightarrow> HotkeyReport option" where
  "effective_report r = (if hr_poisoned r then None else hr_report r)"

definition claimed_virtual_keys :: "'b HotkeyRegistry \<Rightarrow> u16 list" where
  "claimed_virtual_keys r =
     map (\<lambda>registration. hc_virtual_key (ar_chord registration)) (List.map_filter id (hr_active r))"

definition drop_slot ::
  "'b HotkeyBackend \<Rightarrow> nat \<times> HotkeyAction \<Rightarrow> 'b HotkeyRegistry \<Rightarrow> 'b HotkeyRegistry" where
  "drop_slot B = (\<lambda>(index, action) r.
     let was_active = hr_active r ! index \<noteq> None;
         r = r\<lparr>hr_active := (hr_active r)[index := None]\<rparr>
     in if was_active \<and> \<not> hr_unregister_attempted r ! index
        then r\<lparr>hr_unregister_attempted := (hr_unregister_attempted r)[index := True],
               hr_backend := snd (hb_unregister B (hr_backend r) (action_registration_id action))\<rparr>
        else r)"

definition HotkeyRegistry_drop :: "'b HotkeyBackend \<Rightarrow> 'b HotkeyRegistry \<Rightarrow> 'b HotkeyRegistry" where
  "HotkeyRegistry_drop B r = fold (drop_slot B) (List.enumerate 0 CANONICAL_ACTIONS) r"

section \<open>The fake backend\<close>

datatype HotkeyBackendCall = CallRegister i32 u32 u32 | CallUnregister i32

record FakeHotkeyState =
  fh_calls :: "HotkeyBackendCall list"
  fh_collision_ids :: "i32 list"
  fh_unregister_failures :: "(i32 \<times> HotkeyBackendError) list"

definition FakeHotkeyState_default :: FakeHotkeyState where
  "FakeHotkeyState_default =
     \<lparr>fh_calls = [], fh_collision_ids = [], fh_unregister_failures = []\<rparr>"

definition fake_clear_calls :: "FakeHotkeyState \<Rightarrow> FakeHotkeyState" where
  "fake_clear_calls s = s\<lparr>fh_calls := []\<rparr>"

definition collide_registration_id :: "i32 \<Rightarrow> FakeHotkeyState \<Rightarrow> FakeHotkeyState" where
  "collide_registration_id i s =
     (if i \<notin> set (fh_collision_ids s)
      then s\<lparr>fh_collision_ids := fh_collision_ids s @ [i]\<rparr> else s)"

definition fail_unregister :: "i32 \<Rightarrow> HotkeyBackendError \<Rightarrow> FakeHotkeyState \<Rightarrow> FakeHotkeyState" where
  "fail_unregister i err s =
     s\<lparr>fh_unregister_failures :=
         filter (\<lambda>(existing, _). existing \<noteq> i) (fh_unregister_failures s) @ [(i, err)]\<rparr>"

definition fake_register ::
  "FakeHotkeyState \<Rightarrow> i32 \<Rightarrow> u32 \<Rightarrow> u32 \<Rightarrow> (HotkeyBackendError + unit) \<times> FakeHotkeyState" where
  "fake_register s i modifiers virtual_key =
     (let s = s\<lparr>fh_calls := fh_calls s @ [CallRegister i modifiers virtual_key]\<rparr> in
      if i \<in> set (fh_collision_ids s)
      then (Inl \<lparr>hbe_operation = OpRegister, hbe_category = Collision, hbe_code = 1409\<rparr>, s)
      else (Inr (), s))"

definition fake_unregister ::
  "FakeHotkeyState \<Rightarrow> i32 \<Rightarrow> (HotkeyBackendError + unit) \<times> FakeHotkeyState" where
  "fake_unregister s i =
     (let s = s\<lparr>fh_calls := fh_calls s @ [CallUnregister i]\<rparr> in
      (case find (\<lambda>(failed_id, _). failed_id = i) (fh_unregister_failures s) of
         None \<Rightarrow> Inr ()
       | Some (_, err) \<Rightarrow> Inl err, s))"

definition FakeHotkeyBackend :: "FakeHotkeyState HotkeyBackend" where
  "FakeHotkeyBackend = \<lparr>hb_register = fake_register, hb_unregister = fake_unregister\<rparr>"

section \<open>Slots and identifiers\<close>

lemma action_index_less [simp]: "action_index a < 4"
  by (cases a) simp_all

lemma action_index_inject [simp]: "action_index a = action_index b \<longleftrightarrow> a = b"
  by (cases a; cases b) simp_all

lemma action_from_registration_id_iff:
  "action_from_registration_id i = Some a \<longleftrightarrow> i = action_registration_id a"
proof
  assume "action_from_registration_id i = Some a"
  then have n: "0 \<le> sint (i - ACTION_HOTKEY_ID_START)" "sint (i - ACTION_HOTKEY_ID_START) < 4"
    and a: "a = CANONICAL_ACTIONS ! nat (sint (i - ACTION_HOTKEY_ID_START))"
    by (auto simp: action_from_registration_id_def Let_def CANONICAL_ACTIONS_def split: if_splits)
  define k where "k = nat (sint (i - ACTION_HOTKEY_ID_START))"
  have "k < 4" using n by (simp add: k_def)
  then have idx: "action_index a = k"
    by (auto simp: a k_def [symmetric] CANONICAL_ACTIONS_def less_Suc_eq numeral_eq_Suc)
  have "i - ACTION_HOTKEY_ID_START = of_int (sint (i - ACTION_HOTKEY_ID_START))" by simp
  also have "\<dots> = of_nat k" using n by (simp add: k_def)
  finally show "i = action_registration_id a"
    by (simp add: action_registration_id_def idx algebra_simps)
next
  assume i: "i = action_registration_id a"
  show "action_from_registration_id i = Some a"
    unfolding i
    by (cases a) (simp_all add: action_from_registration_id_def action_registration_id_def
        CANONICAL_ACTIONS_def)
qed

lemma action_registration_id_inject [simp]:
  "action_registration_id a = action_registration_id b \<longleftrightarrow> a = b"
  by (metis action_from_registration_id_iff option.inject)

lemma action_from_own_id [simp]: "action_from_registration_id (action_registration_id a) = Some a"
  by (simp add: action_from_registration_id_iff)

text \<open>What the loops run over: the four slots, each with its own action.\<close>

definition slot_list :: "(nat \<times> HotkeyAction) list \<Rightarrow> bool" where
  "slot_list ps = (distinct (map fst ps) \<and> (\<forall>(i, a) \<in> set ps. i = action_index a))"

lemma slot_list_Cons [simp]:
  "slot_list ((i, a) # ps) \<longleftrightarrow> i = action_index a \<and> slot_list ps \<and> i \<notin> fst ` set ps"
  by (auto simp: slot_list_def)

lemma slot_list_Nil [simp]: "slot_list []"
  by (simp add: slot_list_def)

lemma enumerate_actions:
  "List.enumerate 0 CANONICAL_ACTIONS =
     [(0, OverlayVisibility), (1, RotationToggle), (2, TemporaryInteraction), (3, InteractionLock)]"
  by (simp add: CANONICAL_ACTIONS_def)

lemma slot_list_canonical [simp]: "slot_list (List.enumerate 0 CANONICAL_ACTIONS)"
  by (simp add: enumerate_actions)

lemma fst_canonical [simp]: "fst ` set (List.enumerate 0 CANONICAL_ACTIONS) = {i. i < 4}"
  by (auto simp: enumerate_actions)

section \<open>The slot invariant\<close>

fun slot_ok :: "Target \<Rightarrow> Outcome \<Rightarrow> ActiveRegistration option \<Rightarrow> bool" where
  "slot_ok TargetNone out act \<longleftrightarrow> out = OutcomeNone \<and> act = None"
| "slot_ok (TargetDuplicate _ a) out act \<longleftrightarrow> out = OutcomeDisabled (DuplicateChord a) \<and> act = None"
| "slot_ok (TargetRegister c) out act \<longleftrightarrow>
     out = OutcomeActive \<and> act = Some \<lparr>ar_chord = c\<rparr> \<or> out = OutcomeDisabled OsCollision \<and> act = None"

definition registry_shape :: "'b HotkeyRegistry \<Rightarrow> bool" where
  "registry_shape r =
     (length (hr_targets r) = 4 \<and> length (hr_outcomes r) = 4 \<and> length (hr_active r) = 4
      \<and> length (hr_unregister_attempted r) = 4)"

definition registry_ok :: "'b HotkeyRegistry \<Rightarrow> bool" where
  "registry_ok r =
     (registry_shape r
      \<and> (if hr_poisoned r then hr_report r = None
         else (\<forall>i < 4. slot_ok (hr_targets r ! i) (hr_outcomes r ! i) (hr_active r ! i))
            \<and> hr_report r = (if hr_initialized r then Some (build_report (hr_outcomes r)) else None)))"

lemma registry_new_ok: "registry_ok (HotkeyRegistry_new b)"
  by (simp add: registry_ok_def registry_shape_def HotkeyRegistry_new_def)

lemma slot_listD:
  assumes "slot_list ps" "x \<in> set ps"
  shows "fst x = action_index (snd x)"
  using assms by (auto simp: slot_list_def)

lemma slot_list_distinct: "slot_list ps \<Longrightarrow> distinct ps"
  by (auto simp: slot_list_def distinct_map)

text \<open>The slots that keep their target keep everything; the others are released or refused.\<close>

definition releasing :: "Target list \<Rightarrow> 'b HotkeyRegistry \<Rightarrow> 'b HotkeyRegistry \<Rightarrow> bool" where
  "releasing targets r0 r =
     (registry_shape r \<and> hr_targets r = hr_targets r0 \<and> hr_outcomes r = hr_outcomes r0
      \<and> hr_initialized r = hr_initialized r0 \<and> hr_poisoned r = hr_poisoned r0
      \<and> (\<forall>j. targets ! j = hr_targets r0 ! j \<longrightarrow> hr_active r ! j = hr_active r0 ! j))"

definition slot_released :: "Target list \<Rightarrow> nat \<times> HotkeyAction \<Rightarrow> 'b HotkeyRegistry \<Rightarrow> bool" where
  "slot_released targets = (\<lambda>(i, a) r.
     i = action_index a \<and> (targets ! i \<noteq> hr_targets r ! i \<longrightarrow> hr_active r ! i = None))"

definition broken :: "'b HotkeyRegistry \<Rightarrow> bool" where
  "broken r = (registry_shape r \<and> hr_poisoned r \<and> hr_report r = None)"

lemma unregister_changed_step:
  assumes "unregister_changed B targets (i, a) r = (res, r')" "releasing targets r0 r"
    "i = action_index a"
  shows "case res of Inl _ \<Rightarrow> broken r'
     | Inr _ \<Rightarrow> releasing targets r0 r' \<and> slot_released targets (i, a) r'
         \<and> (\<forall>y. slot_released targets y r \<longrightarrow> slot_released targets y r')"
proof (cases "targets ! i = hr_targets r ! i \<or> hr_active r ! i = None")
  case True
  then show ?thesis
    using assms by (auto simp: unregister_changed_def slot_released_def split: if_splits)
next
  case False
  then have i: "i < length (hr_active r)" "targets ! i \<noteq> hr_targets r0 ! i"
    using assms(2,3) by (auto simp: releasing_def registry_shape_def)
  obtain x b where call: "hb_unregister B (hr_backend r) (action_registration_id a) = (x, b)"
    by (cases "hb_unregister B (hr_backend r) (action_registration_id a)")
  show ?thesis
    using assms(1,2) False i call
    by (cases x) (auto simp: unregister_changed_def releasing_def slot_released_def broken_def
        registry_shape_def nth_list_update assms(3))
qed

lemma unregister_changed_all:
  assumes "try_each (unregister_changed B targets) ps r = (res, r')" "registry_shape r" "slot_list ps"
  shows "case res of Inl _ \<Rightarrow> broken r'
     | Inr _ \<Rightarrow> releasing targets r r' \<and> (\<forall>x \<in> set ps. slot_released targets x r')"
proof -
  have "case res of Inl _ \<Rightarrow> broken r'
     | Inr _ \<Rightarrow> releasing targets r r'
         \<and> (\<forall>x. x \<in> set ps \<or> slot_released targets x r \<longrightarrow> slot_released targets x r')"
  proof (rule try_each_establishes [OF assms(1), where Pre = "\<lambda>x _. fst x = action_index (snd x)"
        and Inv = "releasing targets r" and Err = "\<lambda>_. broken"])
    show "releasing targets r r" using assms(2) by (simp add: releasing_def)
    show "distinct ps" using assms(3) by (rule slot_list_distinct)
    fix x s s' assume x: "releasing targets r s" and own: "fst x = action_index (snd x)"
    obtain i a where ia: "x = (i, a)" by (cases x)
    have i: "i = action_index a" using own by (simp add: ia)
    note step = unregister_changed_step [OF _ x i]
    show "broken s'" if "unregister_changed B targets x s = (Inl e, s')" for e
      using step that by (fastforce simp: ia)
    assume "unregister_changed B targets x s = (Inr (), s')"
    note after = step [OF this [unfolded ia], simplified, folded ia]
    show "releasing targets r s' \<and> slot_released targets x s'" using after by simp
    show "(fst y = action_index (snd y) \<longrightarrow> fst y = action_index (snd y))
        \<and> (slot_released targets y s \<longrightarrow> slot_released targets y s')" for y
      using after by (cases y) (auto simp: ia)
  qed (use slot_listD [OF assms(3)] in auto)
  then show ?thesis by (auto split: sum.splits)
qed

text \<open>The second loop establishes the slot invariant for the new targets.\<close>

definition registering :: "Target list \<Rightarrow> 'b HotkeyRegistry \<Rightarrow> 'b HotkeyRegistry \<Rightarrow> bool" where
  "registering targets r0 r =
     (registry_shape r \<and> hr_targets r = hr_targets r0
      \<and> hr_initialized r = hr_initialized r0 \<and> hr_poisoned r = hr_poisoned r0
      \<and> (\<forall>j. targets ! j = hr_targets r0 ! j \<longrightarrow>
           hr_active r ! j = hr_active r0 ! j \<and> hr_outcomes r ! j = hr_outcomes r0 ! j))"

definition slot_registered :: "Target list \<Rightarrow> nat \<times> HotkeyAction \<Rightarrow> 'b HotkeyRegistry \<Rightarrow> bool" where
  "slot_registered targets = (\<lambda>(i, a) r. i = action_index a \<and>
     (targets ! i \<noteq> hr_targets r ! i \<longrightarrow> slot_ok (targets ! i) (hr_outcomes r ! i) (hr_active r ! i)))"

lemma register_changed_step:
  assumes "register_changed B targets (i, a) r = (res, r')" "registering targets r0 r"
    "slot_released targets (i, a) r"
  shows "case res of Inl _ \<Rightarrow> broken r'
     | Inr _ \<Rightarrow> registering targets r0 r' \<and> slot_registered targets (i, a) r'
         \<and> (\<forall>y. y \<noteq> (i, a) \<longrightarrow> (slot_released targets y r \<longrightarrow> slot_released targets y r')
              \<and> (slot_registered targets y r \<longrightarrow> slot_registered targets y r'))"
proof (cases "targets ! i = hr_targets r ! i")
  case True
  then show ?thesis
    using assms by (auto simp: register_changed_def slot_registered_def slot_released_def)
next
  case False
  then have i: "i < length (hr_active r)" "i < length (hr_outcomes r)" "hr_active r ! i = None"
    "targets ! i \<noteq> hr_targets r0 ! i" "i = action_index a"
    using assms(2,3) by (auto simp: registering_def registry_shape_def slot_released_def)
  have same: "(hr_active r)[i := None] = hr_active r" using i(3) by (metis list_update_id)
  have local: "registering targets r0 r' \<and> slot_registered targets (i, a) r'
      \<and> (\<forall>y. y \<noteq> (i, a) \<longrightarrow> (slot_released targets y r \<longrightarrow> slot_released targets y r')
           \<and> (slot_registered targets y r \<longrightarrow> slot_registered targets y r'))"
    if "hr_active r' = (hr_active r)[i := act]" "hr_outcomes r' = (hr_outcomes r)[i := out]"
      "slot_ok (targets ! i) out act" "hr_targets r' = hr_targets r"
      "hr_initialized r' = hr_initialized r" "hr_poisoned r' = hr_poisoned r"
      "length (hr_unregister_attempted r') = length (hr_unregister_attempted r)"
    for act out
    using that i assms(2)
    by (auto simp: registering_def registry_shape_def slot_registered_def slot_released_def
        nth_list_update)
  show ?thesis
  proof (cases "targets ! i")
    case TargetNone
    show ?thesis
      using assms(1) False same TargetNone local [of None OutcomeNone]
      by (auto simp: register_changed_def)
  next
    case (TargetDuplicate c x)
    show ?thesis
      using assms(1) False same TargetDuplicate local [of None "OutcomeDisabled (DuplicateChord x)"]
      by (auto simp: register_changed_def)
  next
    case (TargetRegister c)
    obtain x b where call: "hb_register B (hr_backend r) (action_registration_id a)
        (modifiers_to_native (hc_modifiers c)) (ucast (hc_virtual_key c)) = (x, b)"
      by (metis prod.exhaust)
    show ?thesis
      using assms(1,2) False i TargetRegister call local [of None "OutcomeDisabled OsCollision"]
        local [of "Some \<lparr>ar_chord = c\<rparr>" OutcomeActive]
      by (cases x) (auto simp: register_changed_def broken_def registering_def registry_shape_def
          split: if_splits)
  qed
qed

lemma register_changed_all:
  assumes "try_each (register_changed B targets) ps r = (res, r')" "registry_shape r" "slot_list ps"
    "\<forall>x \<in> set ps. slot_released targets x r"
  shows "case res of Inl _ \<Rightarrow> broken r'
     | Inr _ \<Rightarrow> registering targets r r' \<and> (\<forall>x \<in> set ps. slot_registered targets x r')"
proof -
  have "case res of Inl _ \<Rightarrow> broken r'
     | Inr _ \<Rightarrow> registering targets r r'
         \<and> (\<forall>x. x \<in> set ps \<or> slot_registered targets x r \<longrightarrow> slot_registered targets x r')"
  proof (rule try_each_establishes [OF assms(1), where Pre = "slot_released targets"
        and Inv = "registering targets r" and Err = "\<lambda>_. broken"])
    show "registering targets r r" using assms(2) by (simp add: registering_def)
    show "distinct ps" using assms(3) by (rule slot_list_distinct)
    fix x s s' assume x: "registering targets r s" "slot_released targets x s"
    obtain i a where ia: "x = (i, a)" by (cases x)
    note step = register_changed_step [OF _ x [unfolded ia]]
    show "broken s'" if "register_changed B targets x s = (Inl e, s')" for e
      using step that by (fastforce simp: ia)
    assume "register_changed B targets x s = (Inr (), s')"
    note after = step [OF this [unfolded ia], simplified, folded ia]
    show "registering targets r s' \<and> slot_registered targets x s'" using after by simp
    show "(slot_released targets y s \<longrightarrow> slot_released targets y s')
        \<and> (slot_registered targets y s \<longrightarrow> slot_registered targets y s')" if "y \<noteq> x" for y
      using after that by (cases y) (auto simp: ia)
  qed (use assms(4) in auto)
  then show ?thesis by (auto split: sum.splits)
qed

lemma length_resolve_targets [simp]: "length (resolve_targets bindings) = 4"
proof -
  have "length (resolve_targets_from xs ts) = length ts" for xs ts
    by (induction xs ts rule: resolve_targets_from.induct) simp_all
  then show ?thesis by (simp add: resolve_targets_def)
qed

lemma all_actions_iff:
  "(\<forall>a. P a) \<longleftrightarrow> P OverlayVisibility \<and> P RotationToggle \<and> P TemporaryInteraction \<and> P InteractionLock"
  by (metis HotkeyAction.exhaust)

lemma all_slots_iff:
  "(\<forall>x \<in> set (List.enumerate 0 CANONICAL_ACTIONS). P x) \<longleftrightarrow> (\<forall>a. P (action_index a, a))"
  by (simp add: enumerate_actions all_actions_iff)

lemma all_index_iff: "(\<forall>i < 4. P i) \<longleftrightarrow> (\<forall>a. P (action_index a))"
  by (simp add: all_actions_iff numeral_eq_Suc All_less_Suc2)

text \<open>Everything a call of \<open>replace\<close> can do, on the way to its result.\<close>

lemma HotkeyRegistry_replace_changed:
  assumes "\<not> hr_poisoned r" "validate_bindings bindings = Inr ()"
    "\<not> (hr_initialized r \<and> resolve_targets bindings = hr_targets r)"
  shows "HotkeyRegistry_replace B bindings r =
     (case try_each (unregister_changed B (resolve_targets bindings))
             (List.enumerate 0 CANONICAL_ACTIONS) r of
        (Inl e, r) \<Rightarrow> (Some (Inl e), r)
      | (Inr _, r) \<Rightarrow>
          (case try_each (register_changed B (resolve_targets bindings))
                  (List.enumerate 0 CANONICAL_ACTIONS) r of
             (Inl e, r) \<Rightarrow> (Some (Inl e), r)
           | (Inr _, r) \<Rightarrow>
               (Some (Inr (build_report (hr_outcomes r))),
                r\<lparr>hr_targets := resolve_targets bindings, hr_initialized := True,
                  hr_report := Some (build_report (hr_outcomes r))\<rparr>)))"
  unfolding HotkeyRegistry_replace_def Let_def if_not_P [OF assms(1)] assms(2) sum.case
    if_not_P [OF assms(3)]
  by (auto split: prod.split sum.split)

lemma HotkeyRegistry_replace_cases:
  assumes "HotkeyRegistry_replace B bindings r = (res, r')" "registry_ok r"
  obtains (refused) e where "res = Some (Inl e)" "r' = r"
  | (same) "hr_targets r = resolve_targets bindings" "r' = r" "\<not> hr_poisoned r" "hr_initialized r"
      "res = Some (Inr (build_report (hr_outcomes r)))"
  | (failed) e where "res = Some (Inl e)" "broken r'"
  | (replaced) r1 r2 where
      "try_each (unregister_changed B (resolve_targets bindings)) (List.enumerate 0 CANONICAL_ACTIONS) r
         = (Inr (), r1)"
      "try_each (register_changed B (resolve_targets bindings)) (List.enumerate 0 CANONICAL_ACTIONS) r1
         = (Inr (), r2)"
      "r' = r2\<lparr>hr_targets := resolve_targets bindings, hr_initialized := True,
               hr_report := Some (build_report (hr_outcomes r2))\<rparr>"
      "res = Some (Inr (build_report (hr_outcomes r2)))" "\<not> hr_poisoned r2"
      "\<forall>a. slot_ok (resolve_targets bindings ! action_index a) (hr_outcomes r2 ! action_index a)
             (hr_active r2 ! action_index a)" "registry_shape r2"
proof -
  let ?T = "resolve_targets bindings" and ?ps = "List.enumerate 0 CANONICAL_ACTIONS"
  have shape: "registry_shape r" using assms(2) by (simp add: registry_ok_def)
  consider "hr_poisoned r" | e where "\<not> hr_poisoned r" "validate_bindings bindings = Inl e"
    | "\<not> hr_poisoned r" "validate_bindings bindings = Inr ()" "hr_initialized r" "?T = hr_targets r"
    | "\<not> hr_poisoned r" "validate_bindings bindings = Inr ()" "\<not> (hr_initialized r \<and> ?T = hr_targets r)"
    by (cases "validate_bindings bindings") auto
  then show ?thesis
  proof cases
    case 1
    then show ?thesis
      using assms(1) by (intro refused [of Poisoned]) (simp_all add: HotkeyRegistry_replace_def)
  next
    case (2 e)
    then show ?thesis
      using assms(1) by (intro refused [of e]) (simp_all add: HotkeyRegistry_replace_def)
  next
    case 3
    then show ?thesis
      using assms by (intro same) (auto simp add: HotkeyRegistry_replace_def registry_ok_def)
  next
    case 4
    obtain res1 r1 where one: "try_each (unregister_changed B ?T) ?ps r = (res1, r1)"
      by (cases "try_each (unregister_changed B ?T) ?ps r")
    note released = unregister_changed_all [OF one shape slot_list_canonical]
    show ?thesis
    proof (cases res1)
      case (Inl e)
      then show ?thesis
        using assms(1) one released by (intro failed [of e]) (auto simp: HotkeyRegistry_replace_changed [OF 4])
    next
      case ok1: (Inr u)
      have shape1: "registry_shape r1" using released ok1 by (simp add: releasing_def)
      have free: "\<forall>x \<in> set ?ps. slot_released ?T x r1" using released ok1 by simp
      obtain res2 r2 where two: "try_each (register_changed B ?T) ?ps r1 = (res2, r2)"
        by (cases "try_each (register_changed B ?T) ?ps r1")
      note registered = register_changed_all [OF two shape1 slot_list_canonical free]
      show ?thesis
      proof (cases res2)
        case (Inl e)
        then show ?thesis
          using assms(1) one two ok1 registered
          by (intro failed [of e]) (auto simp: HotkeyRegistry_replace_changed [OF 4])
      next
        case ok2: (Inr v)
        have rel: "releasing ?T r r1" and reg: "registering ?T r1 r2"
          and new: "\<forall>x \<in> set ?ps. slot_registered ?T x r2"
          using released registered ok1 ok2 by simp_all
        have slots: "slot_ok (?T ! action_index a) (hr_outcomes r2 ! action_index a)
            (hr_active r2 ! action_index a)" for a
        proof (cases "?T ! action_index a = hr_targets r ! action_index a")
          case True
          then have "hr_active r2 ! action_index a = hr_active r ! action_index a"
            "hr_outcomes r2 ! action_index a = hr_outcomes r ! action_index a"
            using rel reg by (simp_all add: releasing_def registering_def)
          then show ?thesis using assms(2) 4(1) True by (simp add: registry_ok_def)
        next
          case False
          then show ?thesis
            using new rel reg by (simp add: all_slots_iff slot_registered_def releasing_def registering_def)
        qed
        show ?thesis
        proof (rule replaced [of r1 r2])
          show "registry_shape r2" "\<not> hr_poisoned r2"
            using rel reg 4(1) by (simp_all add: releasing_def registering_def)
        qed (use assms(1) one two ok1 ok2 slots in
            \<open>auto simp: HotkeyRegistry_replace_changed [OF 4]\<close>)
      qed
    qed
  qed
qed

lemma HotkeyRegistry_replace_ok:
  assumes "HotkeyRegistry_replace B bindings r = (res, r')" "registry_ok r"
  shows "registry_ok r' \<and> res \<noteq> None"
  by (rule HotkeyRegistry_replace_cases [OF assms])
    (use assms(2) in \<open>auto simp: registry_ok_def broken_def registry_shape_def all_index_iff\<close>)

section \<open>Targets and reports\<close>

fun binding :: "HotkeyBindings \<Rightarrow> HotkeyAction \<Rightarrow> HotkeyChord option" where
  "binding bindings OverlayVisibility = overlay_visibility bindings"
| "binding bindings RotationToggle = rotation_toggle bindings"
| "binding bindings TemporaryInteraction = temporary_interaction bindings"
| "binding bindings InteractionLock = interaction_lock bindings"

text \<open>The action that gets a chord is the first one bound to it.\<close>

definition chord_owner :: "HotkeyBindings \<Rightarrow> HotkeyChord \<Rightarrow> HotkeyAction option" where
  "chord_owner bindings c = find (\<lambda>a. binding bindings a = Some c) CANONICAL_ACTIONS"

lemma resolve_targets_spec:
  "resolve_targets bindings ! action_index a =
     (case binding bindings a of
        None \<Rightarrow> TargetNone
      | Some c \<Rightarrow> (case chord_owner bindings c of
          Some b \<Rightarrow> if b = a then TargetRegister c else TargetDuplicate c b
        | None \<Rightarrow> TargetRegister c))"
proof -
  obtain b0 b1 b2 b3 where b: "overlay_visibility bindings = b0" "rotation_toggle bindings = b1"
    "temporary_interaction bindings = b2" "interaction_lock bindings = b3" by blast
  have four: "(4::nat) = Suc (Suc (Suc (Suc 0)))" by simp
  show ?thesis
    by (cases a; cases b0; cases b1; cases b2; cases b3)
      (simp_all add: resolve_targets_def action_chords_def chord_owner_def CANONICAL_ACTIONS_def b
        four)
qed

lemma chord_owner_bound:
  assumes "binding bindings a = Some c"
  obtains b where "chord_owner bindings c = Some b"
proof -
  have "a \<in> set CANONICAL_ACTIONS" by (cases a) (simp_all add: CANONICAL_ACTIONS_def)
  then show ?thesis
    using assms that by (cases "chord_owner bindings c") (auto simp: chord_owner_def find_None_iff)
qed

lemma build_report_from_set:
  "set (hrep_active (build_report_from ps outs rep)) =
     set (hrep_active rep) \<union> {a. \<exists>i. (i, a) \<in> set ps \<and> outs ! i = OutcomeActive}"
  "set (hrep_disabled (build_report_from ps outs rep)) =
     set (hrep_disabled rep) \<union> {\<lparr>dh_action = a, dh_reason = x\<rparr> | a x i. (i, a) \<in> set ps \<and> outs ! i = OutcomeDisabled x}"
  by (induction ps outs rep rule: build_report_from.induct) (auto split: Outcome.splits)

lemma slot_of_action: "(i, a) \<in> set (List.enumerate 0 CANONICAL_ACTIONS) \<longleftrightarrow> i = action_index a"
  by (cases a) (auto simp: enumerate_actions)

lemma build_report_active [simp]:
  "a \<in> set (hrep_active (build_report outs)) \<longleftrightarrow> outs ! action_index a = OutcomeActive"
  by (simp add: build_report_def build_report_from_set slot_of_action)

lemma build_report_disabled [simp]:
  "\<lparr>dh_action = a, dh_reason = x\<rparr> \<in> set (hrep_disabled (build_report outs)) \<longleftrightarrow>
     outs ! action_index a = OutcomeDisabled x"
  by (auto simp: build_report_def build_report_from_set slot_of_action)

section \<open>The table of the operating system\<close>

type_synonym hotkey_map = "i32 \<rightharpoonup> u32 \<times> u32"

definition native_chord :: "HotkeyChord \<Rightarrow> u32 \<times> u32" where
  "native_chord c = (modifiers_to_native (hc_modifiers c), ucast (hc_virtual_key c))"

text \<open>The registry agrees with the table, and an entry it gave up on was refused a release.\<close>

definition table_agrees :: "hotkey_map \<Rightarrow> i32 set \<Rightarrow> 'b HotkeyRegistry \<Rightarrow> bool" where
  "table_agrees held refused r =
     ((\<forall>a. held (action_registration_id a) =
          map_option (\<lambda>x. native_chord (ar_chord x)) (hr_active r ! action_index a))
      \<and> (\<forall>i. action_from_registration_id i = None \<longrightarrow> held i = None)
      \<and> (\<forall>a. hr_active r ! action_index a \<noteq> None \<and> hr_unregister_attempted r ! action_index a
            \<longrightarrow> action_registration_id a \<in> refused))"

text \<open>
  A backend whose state determines which registrations are held and which releases were refused:
  a registration that succeeds is held, one that fails changes nothing, a release that fails leaves
  the registration in place.
\<close>

locale hotkey_table =
  fixes B :: "'b HotkeyBackend" and held :: "'b \<Rightarrow> hotkey_map" and refused :: "'b \<Rightarrow> i32 set"
  assumes register_Inr: "hb_register B b i m k = (Inr u, b') \<Longrightarrow>
      held b' = (held b)(i \<mapsto> (m, k)) \<and> refused b' = refused b"
    and register_Inl: "hb_register B b i m k = (Inl e, b') \<Longrightarrow> held b' = held b \<and> refused b' = refused b"
    and unregister_Inr: "hb_unregister B b i = (Inr u, b') \<Longrightarrow>
      held b' = (held b)(i := None) \<and> refused b' = refused b"
    and unregister_Inl: "hb_unregister B b i = (Inl e, b') \<Longrightarrow>
      held b' = held b \<and> refused b' = insert i (refused b)"
begin

definition agrees :: "'b HotkeyRegistry \<Rightarrow> bool" where
  "agrees r = (registry_shape r \<and> table_agrees (held (hr_backend r)) (refused (hr_backend r)) r)"

lemma agreesD:
  assumes "agrees r"
  shows "held (hr_backend r) (action_registration_id a) =
      map_option (\<lambda>x. native_chord (ar_chord x)) (hr_active r ! action_index a)"
    "action_from_registration_id i = None \<Longrightarrow> held (hr_backend r) i = None"
    "\<lbrakk>hr_active r ! action_index a \<noteq> None; hr_unregister_attempted r ! action_index a\<rbrakk>
       \<Longrightarrow> action_registration_id a \<in> refused (hr_backend r)"
    "registry_shape r"
  using assms by (simp_all add: agrees_def table_agrees_def)

text \<open>What a body has to show: its own slot and the table move together.\<close>

lemma agrees_slot:
  assumes "agrees r" "registry_shape r'"
    and "hr_active r' = (hr_active r)[action_index a := x]"
    and "held (hr_backend r') =
        (held (hr_backend r))(action_registration_id a := map_option (\<lambda>x. native_chord (ar_chord x)) x)"
    and "\<And>b. b \<noteq> a \<Longrightarrow> hr_unregister_attempted r' ! action_index b = hr_unregister_attempted r ! action_index b"
    and "refused (hr_backend r) \<subseteq> refused (hr_backend r')"
    and "x \<noteq> None \<Longrightarrow> hr_unregister_attempted r' ! action_index a \<Longrightarrow>
        action_registration_id a \<in> refused (hr_backend r')"
  shows "agrees r'"
proof -
  have len: "length (hr_active r) = 4" using assms(1) by (simp add: agrees_def registry_shape_def)
  have "table_agrees (held (hr_backend r')) (refused (hr_backend r')) r'"
    unfolding table_agrees_def
  proof (intro conjI allI impI)
    fix b
    show "held (hr_backend r') (action_registration_id b) =
        map_option (\<lambda>x. native_chord (ar_chord x)) (hr_active r' ! action_index b)"
      using agreesD(1) [OF assms(1), of b] by (simp add: assms(3,4) len nth_list_update)
    show "action_registration_id b \<in> refused (hr_backend r')"
      if "hr_active r' ! action_index b \<noteq> None \<and> hr_unregister_attempted r' ! action_index b"
      using that agreesD(3) [OF assms(1), of b] assms(5-7)
      by (cases "b = a") (auto simp: assms(3) len nth_list_update)
  next
    fix i assume "action_from_registration_id i = None"
    then show "held (hr_backend r') i = None"
      using agreesD(2) [OF assms(1)] by (auto simp: assms(4))
  qed
  then show ?thesis using assms(2) by (simp add: agrees_def)
qed

lemma agrees_frame:
  assumes "agrees r" "registry_shape r'" "hr_active r' = hr_active r" "hr_backend r' = hr_backend r"
    "hr_unregister_attempted r' = hr_unregister_attempted r"
  shows "agrees r'"
  using assms by (simp add: agrees_def table_agrees_def)

lemma unregister_changed_agrees:
  assumes "unregister_changed B targets (action_index a, a) r = (res, r')" "agrees r"
  shows "agrees r'"
proof (cases "targets ! action_index a = hr_targets r ! action_index a \<or> hr_active r ! action_index a = None")
  case True
  then show ?thesis using assms by (auto simp: unregister_changed_def split: if_splits)
next
  case False
  note shape = agreesD(4) [OF assms(2), unfolded registry_shape_def]
  obtain x b where call: "hb_unregister B (hr_backend r) (action_registration_id a) = (x, b)"
    by (cases "hb_unregister B (hr_backend r) (action_registration_id a)")
  have r': "r' = (case x of
       Inl _ \<Rightarrow> r\<lparr>hr_unregister_attempted := (hr_unregister_attempted r)[action_index a := True],
                 hr_backend := b, hr_poisoned := True, hr_report := None\<rparr>
     | Inr _ \<Rightarrow> r\<lparr>hr_unregister_attempted := (hr_unregister_attempted r)[action_index a := True],
                 hr_backend := b, hr_active := (hr_active r)[action_index a := None]\<rparr>)"
    using assms(1) False call by (auto simp: unregister_changed_def split: sum.splits)
  show ?thesis
  proof (cases x)
    case (Inl e)
    show ?thesis
      by (rule agrees_slot [OF assms(2), of r' a "hr_active r ! action_index a"])
        (use shape unregister_Inl [OF call [unfolded Inl]] agreesD(1) [OF assms(2), of a] in
          \<open>auto simp: r' Inl registry_shape_def nth_list_update\<close>)
  next
    case (Inr u)
    show ?thesis
      by (rule agrees_slot [OF assms(2), of r' a None])
        (use shape unregister_Inr [OF call [unfolded Inr]] in
          \<open>auto simp: r' Inr registry_shape_def nth_list_update\<close>)
  qed
qed

lemma register_changed_agrees:
  assumes "register_changed B targets (action_index a, a) r = (res, r')" "agrees r"
    "slot_released targets (action_index a, a) r"
  shows "agrees r'"
proof (cases "\<exists>c. targets ! action_index a = TargetRegister c
    \<and> targets ! action_index a \<noteq> hr_targets r ! action_index a")
  case False
  then show ?thesis
    using assms(1) agrees_frame [OF assms(2), of r'] agreesD(4) [OF assms(2)]
    by (auto simp: register_changed_def registry_shape_def assms(2) split: if_splits Target.splits)
next
  case True
  then obtain c where c: "targets ! action_index a = TargetRegister c"
    "targets ! action_index a \<noteq> hr_targets r ! action_index a" by blast
  then have free: "hr_active r ! action_index a = None" using assms(3) by (simp add: slot_released_def)
  note shape = agreesD(4) [OF assms(2), unfolded registry_shape_def]
  obtain x b where call: "hb_register B (hr_backend r) (action_registration_id a)
        (modifiers_to_native (hc_modifiers c)) (ucast (hc_virtual_key c)) = (x, b)"
    by (metis prod.exhaust)
  show ?thesis
  proof (cases x)
    case (Inl e)
    have "hr_backend r' = b" "hr_unregister_attempted r' = hr_unregister_attempted r"
      "hr_active r' = (hr_active r)[action_index a := None]" "registry_shape r'"
      using assms(1) c call Inl shape list_update_id [of "hr_active r" "action_index a"] free
      by (auto simp: register_changed_def registry_shape_def split: if_splits)
    then show ?thesis
      using register_Inl [OF call [unfolded Inl]] agreesD(1) [OF assms(2), of a] free
      by (intro agrees_slot [OF assms(2), of r' a None]) auto
  next
    case (Inr u)
    have r': "hr_backend r' = b" "registry_shape r'"
      "hr_unregister_attempted r' = (hr_unregister_attempted r)[action_index a := False]"
      "hr_active r' = (hr_active r)[action_index a := Some \<lparr>ar_chord = c\<rparr>]"
      using assms(1) c call Inr shape by (auto simp: register_changed_def registry_shape_def)
    show ?thesis
      by (rule agrees_slot [OF assms(2), of r' a "Some \<lparr>ar_chord = c\<rparr>"])
        (use shape r' register_Inr [OF call [unfolded Inr]] in
          \<open>auto simp: nth_list_update native_chord_def\<close>)
  qed
qed

lemma unregister_all_agrees:
  assumes "try_each (unregister_changed B targets) ps r = (res, r')" "agrees r" "slot_list ps"
  shows "agrees r'"
proof (rule try_each_preserves [where Inv = agrees, OF assms(1,2)])
  fix x s s' res assume "x \<in> set ps" "agrees s" "unregister_changed B targets x s = (res, s')"
  moreover from this have "x = (action_index (snd x), snd x)"
    using slot_listD [OF assms(3)] by (simp add: prod_eq_iff)
  ultimately show "agrees s'"
    using unregister_changed_agrees [of targets "snd x" s res s'] by simp
qed

lemma register_all_agrees:
  assumes "try_each (register_changed B targets) ps r = (res, r')" "agrees r" "slot_list ps"
    "\<forall>x \<in> set ps. slot_released targets x r"
  shows "agrees r'"
proof -
  let ?inv = "\<lambda>s. agrees s \<and> registering targets r s"
  have "case res of Inl _ \<Rightarrow> agrees r' | Inr _ \<Rightarrow> ?inv r' \<and> (\<forall>x. x \<in> set ps \<or> True \<longrightarrow> True)"
  proof (rule try_each_establishes [OF assms(1), where Pre = "slot_released targets"
        and Inv = ?inv and Err = "\<lambda>_. agrees" and Post = "\<lambda>_ _. True"])
    show "?inv r" using assms(2) by (simp add: registering_def agrees_def)
    show "distinct ps" using assms(3) by (rule slot_list_distinct)
    fix x s s' assume x: "x \<in> set ps" "?inv s" "slot_released targets x s"
    obtain i a where ia: "x = (i, a)" by (cases x)
    have i: "i = action_index a" using slot_listD [OF assms(3) x(1)] ia by simp
    note step = register_changed_step [OF _ conjunct2 [OF x(2)] x(3) [unfolded ia]]
    show "agrees s'" if "register_changed B targets x s = (Inl e, s')" for e
      using that x register_changed_agrees by (simp add: ia i)
    assume run: "register_changed B targets x s = (Inr (), s')"
    note after = step [OF run [unfolded ia], simplified, folded ia]
    show "?inv s' \<and> True"
      using after run x register_changed_agrees by (auto simp: ia i)
    show "(slot_released targets y s \<longrightarrow> slot_released targets y s') \<and> (True \<longrightarrow> True)" if "y \<noteq> x" for y
      using after that by (cases y) (auto simp: ia)
  qed (use assms(4) in auto)
  then show ?thesis by (auto split: sum.splits)
qed

lemma agrees_stored:
  assumes "agrees r" "length targets = 4"
  shows "agrees (r\<lparr>hr_targets := targets, hr_initialized := flag, hr_report := report\<rparr>)"
  using assms by (simp add: agrees_def table_agrees_def registry_shape_def)

lemma replace_agrees:
  assumes "registry_ok r" "agrees r"
  shows "agrees (snd (HotkeyRegistry_replace B bindings r))"
proof (cases "\<not> hr_poisoned r \<and> validate_bindings bindings = Inr ()
    \<and> \<not> (hr_initialized r \<and> resolve_targets bindings = hr_targets r)")
  case False
  then have "snd (HotkeyRegistry_replace B bindings r) = r"
    by (auto simp: HotkeyRegistry_replace_def split: sum.splits)
  then show ?thesis using assms(2) by simp
next
  case True
  let ?T = "resolve_targets bindings" and ?ps = "List.enumerate 0 CANONICAL_ACTIONS"
  obtain res1 r1 where one: "try_each (unregister_changed B ?T) ?ps r = (res1, r1)"
    by (cases "try_each (unregister_changed B ?T) ?ps r")
  obtain res2 r2 where two: "try_each (register_changed B ?T) ?ps r1 = (res2, r2)"
    by (cases "try_each (register_changed B ?T) ?ps r1")
  have a1: "agrees r1" by (rule unregister_all_agrees [OF one assms(2) slot_list_canonical])
  have a2: "agrees r2" if "\<not> isl res1"
  proof (rule register_all_agrees [OF two a1 slot_list_canonical])
    show "\<forall>x \<in> set ?ps. slot_released ?T x r1"
      using unregister_changed_all [OF one agreesD(4) [OF assms(2)] slot_list_canonical] that
      by (cases res1) auto
  qed
  have "HotkeyRegistry_replace B bindings r =
    (case res1 of Inl e \<Rightarrow> (Some (Inl e), r1) | Inr _ \<Rightarrow>
      (case res2 of Inl e \<Rightarrow> (Some (Inl e), r2) | Inr _ \<Rightarrow>
         (Some (Inr (build_report (hr_outcomes r2))),
          r2\<lparr>hr_targets := ?T, hr_initialized := True,
             hr_report := Some (build_report (hr_outcomes r2))\<rparr>)))"
    using True by (cases res1) (simp_all add: HotkeyRegistry_replace_changed one two)
  then show ?thesis using a1 a2 agrees_stored by (auto split: sum.splits)
qed

text \<open>While the registry is dropped, what is still held was refused or is still to be released.\<close>

definition dropping :: "HotkeyAction set \<Rightarrow> 'b HotkeyRegistry \<Rightarrow> bool" where
  "dropping todo r =
     (registry_shape r
      \<and> (\<forall>i. held (hr_backend r) i \<noteq> None \<longrightarrow> i \<in> refused (hr_backend r)
           \<or> (\<exists>a \<in> todo. i = action_registration_id a \<and> hr_active r ! action_index a \<noteq> None))
      \<and> (\<forall>a. hr_active r ! action_index a \<noteq> None \<and> hr_unregister_attempted r ! action_index a
           \<longrightarrow> action_registration_id a \<in> refused (hr_backend r)))"

lemma droppingD:
  assumes "dropping todo r"
  shows "registry_shape r"
    "held (hr_backend r) i \<noteq> None \<Longrightarrow> i \<in> refused (hr_backend r)
       \<or> (\<exists>a \<in> todo. i = action_registration_id a \<and> hr_active r ! action_index a \<noteq> None)"
    "\<lbrakk>hr_active r ! action_index a \<noteq> None; hr_unregister_attempted r ! action_index a\<rbrakk>
       \<Longrightarrow> action_registration_id a \<in> refused (hr_backend r)"
  using assms unfolding dropping_def by blast+

lemma dropping_slot:
  assumes "dropping (insert a todo) r" "a \<notin> todo" "registry_shape r'"
    and act: "hr_active r' = (hr_active r)[action_index a := None]"
    and att: "\<And>b. b \<noteq> a \<Longrightarrow> hr_unregister_attempted r' ! action_index b = hr_unregister_attempted r ! action_index b"
    and sub: "refused (hr_backend r) \<subseteq> refused (hr_backend r')"
    and hld: "\<And>i. held (hr_backend r') i \<noteq> None \<Longrightarrow> held (hr_backend r) i \<noteq> None"
    and own: "held (hr_backend r') (action_registration_id a) \<noteq> None \<Longrightarrow>
        action_registration_id a \<in> refused (hr_backend r')"
  shows "dropping todo r'"
proof -
  have other: "hr_active r' ! action_index b = (if b = a then None else hr_active r ! action_index b)" for b
    using assms(1) by (simp add: act dropping_def registry_shape_def nth_list_update)
  show ?thesis
    unfolding dropping_def
  proof (intro conjI allI impI)
    fix i assume i: "held (hr_backend r') i \<noteq> None"
    then consider "i \<in> refused (hr_backend r)" | "i = action_registration_id a"
      | b where "b \<in> todo" "i = action_registration_id b" "hr_active r ! action_index b \<noteq> None"
      using hld [OF i] assms(1) unfolding dropping_def by blast
    then show "i \<in> refused (hr_backend r')
        \<or> (\<exists>b \<in> todo. i = action_registration_id b \<and> hr_active r' ! action_index b \<noteq> None)"
      using i own sub assms(2) other by cases auto
  next
    fix b assume "hr_active r' ! action_index b \<noteq> None \<and> hr_unregister_attempted r' ! action_index b"
    then show "action_registration_id b \<in> refused (hr_backend r')"
      using other [of b] att [of b] sub assms(1) by (auto simp: dropping_def split: if_splits)
  qed (rule assms(3))
qed

lemma drop_slot_dropping:
  assumes "dropping (insert a todo) r" "a \<notin> todo"
  shows "dropping todo (drop_slot B (action_index a, a) r)"
proof (cases "hr_active r ! action_index a = None \<or> hr_unregister_attempted r ! action_index a")
  case True
  have r': "drop_slot B (action_index a, a) r = r\<lparr>hr_active := (hr_active r)[action_index a := None]\<rparr>"
    using True unfolding drop_slot_def by (cases "hr_active r ! action_index a") simp_all
  have own: "action_registration_id a \<in> refused (hr_backend r)"
    if "held (hr_backend r) (action_registration_id a) \<noteq> None"
  proof -
    have "action_registration_id a \<in> refused (hr_backend r) \<or> hr_active r ! action_index a \<noteq> None"
      using droppingD(2) [OF assms(1) that] by auto
    then show ?thesis
      using True droppingD(3) [OF assms(1)] by (cases "hr_active r ! action_index a = None") simp_all
  qed
  show ?thesis
  proof (rule dropping_slot [OF assms])
    show "registry_shape (drop_slot B (action_index a, a) r)"
      using droppingD(1) [OF assms(1)] by (simp add: r' registry_shape_def)
  qed (simp_all add: r' own)
next
  case False
  obtain x b where call: "hb_unregister B (hr_backend r) (action_registration_id a) = (x, b)"
    by (cases "hb_unregister B (hr_backend r) (action_registration_id a)")
  have r': "drop_slot B (action_index a, a) r =
      r\<lparr>hr_active := (hr_active r)[action_index a := None],
        hr_unregister_attempted := (hr_unregister_attempted r)[action_index a := True],
        hr_backend := b\<rparr>"
    using False call by (simp add: drop_slot_def)
  have b: "held b i \<noteq> None \<Longrightarrow> held (hr_backend r) i \<noteq> None" "refused (hr_backend r) \<subseteq> refused b"
    "held b (action_registration_id a) \<noteq> None \<Longrightarrow> action_registration_id a \<in> refused b" for i
  proof -
    consider "held b = held (hr_backend r)"
        "refused b = insert (action_registration_id a) (refused (hr_backend r))"
      | "held b = (held (hr_backend r))(action_registration_id a := None)"
        "refused b = refused (hr_backend r)"
      using unregister_Inl unregister_Inr call by (cases x) auto
    note effect = this
    show "held (hr_backend r) i \<noteq> None" if "held b i \<noteq> None"
      by (rule effect) (use that in \<open>simp_all split: if_splits\<close>)
    show "refused (hr_backend r) \<subseteq> refused b" by (rule effect) auto
    show "action_registration_id a \<in> refused b" if "held b (action_registration_id a) \<noteq> None"
      by (rule effect) (use that in simp_all)
  qed
  show ?thesis
  proof (rule dropping_slot [OF assms])
    show "registry_shape (drop_slot B (action_index a, a) r)"
      using droppingD(1) [OF assms(1)] by (simp add: r' registry_shape_def)
    show "held (hr_backend r) i \<noteq> None"
      if "held (hr_backend (drop_slot B (action_index a, a) r)) i \<noteq> None" for i
      using that b(1) by (simp add: r')
  qed (use b(2,3) in \<open>simp_all add: r'\<close>)
qed

lemma drop_releases:
  assumes "agrees r" "held (hr_backend (HotkeyRegistry_drop B r)) i \<noteq> None"
  shows "i \<in> refused (hr_backend (HotkeyRegistry_drop B r))"
proof -
  have "dropping UNIV r"
    using agreesD [OF assms(1)] action_from_registration_id_iff
    by (auto simp: dropping_def) (metis option.distinct(1) option.exhaust option.map_disc_iff)
  moreover have "UNIV = insert OverlayVisibility (insert RotationToggle
      (insert TemporaryInteraction (insert InteractionLock {})))"
    using HotkeyAction.exhaust by blast
  ultimately have "dropping {} (HotkeyRegistry_drop B r)"
    using drop_slot_dropping [of OverlayVisibility] drop_slot_dropping [of RotationToggle]
      drop_slot_dropping [of TemporaryInteraction] drop_slot_dropping [of InteractionLock]
    by (simp add: HotkeyRegistry_drop_def enumerate_actions)
  then show ?thesis using assms(2) by (auto simp: dropping_def)
qed

text \<open>The registry after a sequence of replacements.\<close>

lemma replacements_ok:
  assumes "registry_ok r" "agrees r"
  shows "let r' = fold (\<lambda>bs r. snd (HotkeyRegistry_replace B bs r)) bss r in registry_ok r' \<and> agrees r'"
  using assms
proof (induction bss arbitrary: r)
  case (Cons bs bss)
  then show ?case
    using HotkeyRegistry_replace_ok [of B bs r] replace_agrees
    by (cases "HotkeyRegistry_replace B bs r") (metis (no_types) fold_simps(2) snd_conv)
qed simp

end

section \<open>Carrying the table along\<close>

text \<open>
  Any backend, with the table the operating system keeps and the releases it refused as ghost
  state.  The ghost state only observes: erasing it gives the run of the backend itself.
\<close>

definition ghost_backend :: "'b HotkeyBackend \<Rightarrow> ('b \<times> hotkey_map \<times> i32 set) HotkeyBackend" where
  "ghost_backend B =
     \<lparr>hb_register = (\<lambda>(b, held, refused) i m k.
        case hb_register B b i m k of
          (Inl e, b') \<Rightarrow> (Inl e, (b', held, refused))
        | (Inr _, b') \<Rightarrow> (Inr (), (b', held(i \<mapsto> (m, k)), refused))),
      hb_unregister = (\<lambda>(b, held, refused) i.
        case hb_unregister B b i of
          (Inl e, b') \<Rightarrow> (Inl e, (b', held, insert i refused))
        | (Inr _, b') \<Rightarrow> (Inr (), (b', held(i := None), refused)))\<rparr>"

interpretation ghost: hotkey_table "ghost_backend B" "\<lambda>s. fst (snd s)" "\<lambda>s. snd (snd s)" for B
  by unfold_locales (auto simp: ghost_backend_def split: prod.splits sum.splits)

definition erase :: "('b \<times> 'g) HotkeyRegistry \<Rightarrow> 'b HotkeyRegistry" where
  "erase r = \<lparr>hr_backend = fst (hr_backend r), hr_initialized = hr_initialized r,
     hr_targets = hr_targets r, hr_outcomes = hr_outcomes r, hr_active = hr_active r,
     hr_unregister_attempted = hr_unregister_attempted r, hr_report = hr_report r,
     hr_poisoned = hr_poisoned r\<rparr>"

lemma erase_simps [simp]:
  "hr_initialized (erase r) = hr_initialized r" "hr_targets (erase r) = hr_targets r"
  "hr_outcomes (erase r) = hr_outcomes r" "hr_active (erase r) = hr_active r"
  "hr_unregister_attempted (erase r) = hr_unregister_attempted r" "hr_report (erase r) = hr_report r"
  "hr_poisoned (erase r) = hr_poisoned r" "hr_backend (erase r) = fst (hr_backend r)"
  by (simp_all add: erase_def)

lemma erase_stored:
  "erase (r\<lparr>hr_targets := t, hr_initialized := i, hr_report := x\<rparr>) =
     (erase r)\<lparr>hr_targets := t, hr_initialized := i, hr_report := x\<rparr>"
  by (simp add: erase_def)

lemma unregister_changed_erase:
  "unregister_changed B targets x (erase r) =
     map_prod id erase (unregister_changed (ghost_backend B) targets x r)"
  by (cases x; cases "hr_backend r")
    (auto simp: unregister_changed_def ghost_backend_def erase_def split: prod.split sum.split)

lemma register_changed_erase:
  "register_changed B targets x (erase r) =
     map_prod id erase (register_changed (ghost_backend B) targets x r)"
  by (cases x; cases "hr_backend r")
    (auto simp: register_changed_def ghost_backend_def erase_def
      split: prod.split sum.split Target.split)

lemma unregister_all_erase:
  "try_each (unregister_changed B targets) xs (erase r) =
     map_prod id erase (try_each (unregister_changed (ghost_backend B) targets) xs r)"
  by (rule try_each_simulates) (rule unregister_changed_erase)

lemma register_all_erase:
  "try_each (register_changed B targets) xs (erase r) =
     map_prod id erase (try_each (register_changed (ghost_backend B) targets) xs r)"
  by (rule try_each_simulates) (rule register_changed_erase)

lemma replace_erase:
  "HotkeyRegistry_replace B bindings (erase r) =
     map_prod id erase (HotkeyRegistry_replace (ghost_backend B) bindings r)"
proof (cases "\<not> hr_poisoned r \<and> validate_bindings bindings = Inr ()
    \<and> \<not> (hr_initialized r \<and> resolve_targets bindings = hr_targets r)")
  case True
  then show ?thesis
    by (simp add: HotkeyRegistry_replace_changed unregister_all_erase register_all_erase
        erase_stored map_prod_def split: prod.split sum.split)
next
  case False
  then show ?thesis by (auto simp: HotkeyRegistry_replace_def split: sum.split)
qed

definition registry_after :: "'b HotkeyBackend \<Rightarrow> 'b \<Rightarrow> HotkeyBindings list
    \<Rightarrow> ('b \<times> hotkey_map \<times> i32 set) HotkeyRegistry" where
  "registry_after B b bss =
     fold (\<lambda>bs r. snd (HotkeyRegistry_replace (ghost_backend B) bs r)) bss
       (HotkeyRegistry_new (b, Map.empty, {}))"

lemma registry_after_erase:
  "erase (registry_after B b bss) =
     fold (\<lambda>bs r. snd (HotkeyRegistry_replace B bs r)) bss (HotkeyRegistry_new b)"
proof -
  have "erase (fold (\<lambda>bs r. snd (HotkeyRegistry_replace (ghost_backend B) bs r)) bss r) =
      fold (\<lambda>bs r. snd (HotkeyRegistry_replace B bs r)) bss (erase r)"
    for r
    by (induction bss arbitrary: r) (simp_all add: replace_erase)
  moreover have "erase (HotkeyRegistry_new (b, x)) = HotkeyRegistry_new b"
    for x :: "hotkey_map \<times> i32 set"
    by (simp add: erase_def HotkeyRegistry_new_def)
  ultimately show ?thesis by (simp add: registry_after_def)
qed

lemma registry_after_ok:
  "registry_ok (registry_after B b bss)" "ghost.agrees (registry_after B b bss)"
proof -
  have "ghost.agrees (HotkeyRegistry_new (b, Map.empty, {}))"
    by (simp add: ghost.agrees_def table_agrees_def HotkeyRegistry_new_def registry_shape_def)
  then show "registry_ok (registry_after B b bss)" "ghost.agrees (registry_after B b bss)"
    using ghost.replacements_ok [OF registry_new_ok, of "(b, Map.empty, {})" B bss] by (simp_all add: registry_after_def Let_def)
qed

section \<open>Properties\<close>

definition registered_table :: "'b HotkeyRegistry \<Rightarrow> hotkey_map" where
  "registered_table r = (\<lambda>i. case action_from_registration_id i of
       None \<Rightarrow> None
     | Some a \<Rightarrow> map_option (\<lambda>x. native_chord (ar_chord x)) (hr_active r ! action_index a))"

text \<open>
  C7: Whatever the backend answers and whatever sequence of bindings was applied, failed
  replacements included, the registry's slots are exactly the registrations the operating system
  holds for it: nothing is held that the registry forgot and nothing is listed that is not held.
  The ghost table only observes the run of the backend.
\<close>
theorem hotkey_slots_match_os:
  "erase (registry_after B b bss) =
     fold (\<lambda>bs r. snd (HotkeyRegistry_replace B bs r)) bss (HotkeyRegistry_new b)
   \<and> fst (snd (hr_backend (registry_after B b bss))) = registered_table (registry_after B b bss)"
proof -
  note agree = ghost.agreesD [OF registry_after_ok(2) [of B b bss]]
  have "fst (snd (hr_backend (registry_after B b bss))) i = registered_table (registry_after B b bss) i"
    for i
    using agree(2) [of i] agree(1)
    by (cases "action_from_registration_id i")
      (simp_all add: registered_table_def action_from_registration_id_iff)
  then show ?thesis by (simp add: registry_after_erase fun_eq_iff)
qed

text \<open>
  Dropping the registry after any history, a poisoned one included, releases every
  registration, except those whose release the operating system itself refused.
\<close>
lemma hotkey_drop_releases:
  "dom (fst (snd (hr_backend (HotkeyRegistry_drop (ghost_backend B) (registry_after B b bss)))))
   \<subseteq> snd (snd (hr_backend (HotkeyRegistry_drop (ghost_backend B) (registry_after B b bss))))"
  using ghost.drop_releases [OF registry_after_ok(2) [of B b bss], of B] by blast

lemma replace_success_slots:
  assumes "HotkeyRegistry_replace B bs r = (Some (Inr rep), r')" "registry_ok r"
  shows "slot_ok (resolve_targets bs ! action_index a) (hr_outcomes r' ! action_index a)
      (hr_active r' ! action_index a)" "rep = build_report (hr_outcomes r')"
    "HotkeyRegistry_replace B bs r' = (Some (Inr rep), r')"
proof -
  have all: "(\<forall>a. slot_ok (resolve_targets bs ! action_index a) (hr_outcomes r' ! action_index a)
      (hr_active r' ! action_index a)) \<and> rep = build_report (hr_outcomes r')
      \<and> hr_initialized r' \<and> hr_targets r' = resolve_targets bs \<and> \<not> hr_poisoned r'"
    by (rule HotkeyRegistry_replace_cases [OF assms])
      (use assms(2) in \<open>auto simp: registry_ok_def all_index_iff\<close>)
  then show "slot_ok (resolve_targets bs ! action_index a) (hr_outcomes r' ! action_index a)
      (hr_active r' ! action_index a)" "rep = build_report (hr_outcomes r')" by auto
  have "registry_ok r'" using HotkeyRegistry_replace_ok [OF assms] by simp
  moreover have "validate_bindings bs = Inr ()"
    using assms(1) by (auto simp: HotkeyRegistry_replace_def split: if_splits sum.splits)
  ultimately show "HotkeyRegistry_replace B bs r' = (Some (Inr rep), r')"
    using all by (simp add: HotkeyRegistry_replace_def registry_ok_def)
qed

text \<open>
  After any history a replacement returns (its \<open>expect\<close>s cannot fail), and when it succeeds its
  report tells the truth: an action is active exactly when it is the first one bound to its chord
  and the operating system holds that chord under its identifier, disabled as a duplicate exactly
  when an earlier action has its chord, disabled as a collision exactly when nothing is held for
  it; and repeating the call changes nothing, not even the backend.
\<close>
lemma hotkey_replace_reports:
  assumes "HotkeyRegistry_replace (ghost_backend B) bs (registry_after B b bss) = (res, r')"
  shows "res \<noteq> None \<and> (\<forall>rep. res = Some (Inr rep) \<longrightarrow>
     (\<forall>a. (a \<in> set (hrep_active rep) \<longleftrightarrow> (\<exists>c. binding bs a = Some c \<and> chord_owner bs c = Some a
             \<and> fst (snd (hr_backend r')) (action_registration_id a) = Some (native_chord c)))
        \<and> (\<forall>x. \<lparr>dh_action = a, dh_reason = DuplicateChord x\<rparr> \<in> set (hrep_disabled rep) \<longleftrightarrow>
             (\<exists>c. binding bs a = Some c \<and> chord_owner bs c = Some x \<and> x \<noteq> a))
        \<and> (\<lparr>dh_action = a, dh_reason = OsCollision\<rparr> \<in> set (hrep_disabled rep) \<longleftrightarrow>
             (\<exists>c. binding bs a = Some c \<and> chord_owner bs c = Some a
             \<and> fst (snd (hr_backend r')) (action_registration_id a) = None)))
     \<and> HotkeyRegistry_replace (ghost_backend B) bs r' = (res, r'))"
proof -
  note ok = registry_after_ok [of B b bss]
  have "ghost.agrees r'" using ghost.replace_agrees [OF ok, of B bs] assms by simp
  note held = ghost.agreesD(1) [OF this]
  have report: "(a \<in> set (hrep_active rep) \<longleftrightarrow> (\<exists>c. binding bs a = Some c \<and> chord_owner bs c = Some a
             \<and> fst (snd (hr_backend r')) (action_registration_id a) = Some (native_chord c)))
        \<and> (\<forall>x. \<lparr>dh_action = a, dh_reason = DuplicateChord x\<rparr> \<in> set (hrep_disabled rep) \<longleftrightarrow>
             (\<exists>c. binding bs a = Some c \<and> chord_owner bs c = Some x \<and> x \<noteq> a))
        \<and> (\<lparr>dh_action = a, dh_reason = OsCollision\<rparr> \<in> set (hrep_disabled rep) \<longleftrightarrow>
             (\<exists>c. binding bs a = Some c \<and> chord_owner bs c = Some a
             \<and> fst (snd (hr_backend r')) (action_registration_id a) = None))"
    if "res = Some (Inr rep)" for rep a
  proof -
    note slots = replace_success_slots [OF assms [unfolded that] ok(1)]
    show ?thesis
    proof (cases "binding bs a")
      case None
      then show ?thesis using slots(1) [of a] by (simp add: slots(2) resolve_targets_spec)
    next
      case (Some c)
      then obtain x where "chord_owner bs c = Some x" by (rule chord_owner_bound)
      then show ?thesis
        using slots(1) [of a] Some
        by (auto simp: slots(2) resolve_targets_spec held split: if_splits)
    qed
  qed
  show ?thesis
  proof (intro conjI allI impI report)
    show "res \<noteq> None" using HotkeyRegistry_replace_ok [OF assms ok(1)] by simp
    show "HotkeyRegistry_replace (ghost_backend B) bs r' = (res, r')" if "res = Some (Inr rep)" for rep
      using replace_success_slots(3) [OF assms [unfolded that] ok(1)] by (simp add: that)
  qed (use report in auto)
qed

text \<open>
  The registry's own check of bindings and the check of the overlay settings are the same: they
  accept the same bindings and name the same action and reason otherwise.
\<close>
lemma validate_bindings_equiv:
  "validate_bindings b =
     (case validate_hotkeys (settings_hotkeys b) of
        Inl (InvalidHotkey action reason) \<Rightarrow> Inl (InvalidBinding action reason)
      | _ \<Rightarrow> Inr ())
   \<and> validate_hotkeys (settings_hotkeys b) =
     (case validate_bindings b of
        Inl (InvalidBinding action reason) \<Rightarrow> Inl (InvalidHotkey action reason)
      | _ \<Rightarrow> Inr ())"
proof -
  have same: "has_modifier = settings_has_modifier"
    by (simp add: fun_eq_iff has_modifier_def settings_has_modifier_def)
  have step: "validate_action_chords ((action, Some chord) # rest) =
     (case validate_hotkey action (Some chord) of
        Inl (InvalidHotkey action reason) \<Rightarrow> Inl (InvalidBinding action reason)
      | _ \<Rightarrow> validate_action_chords rest)
    \<and> (\<forall>e. validate_hotkey action (Some chord) = Inl e \<longrightarrow> (\<exists>reason. e = InvalidHotkey action reason))"
    for action chord rest
    unfolding validate_action_chords.simps validate_hotkey_def option.case same
      is_game_key_def [symmetric] Let_def by simp
  have "validate_action_chords xs =
     (case validate_hotkeys xs of
        Inl (InvalidHotkey action reason) \<Rightarrow> Inl (InvalidBinding action reason)
      | _ \<Rightarrow> Inr ()) \<and> (\<forall>e. validate_hotkeys xs = Inl e \<longrightarrow> (\<exists>a r. e = InvalidHotkey a r))" for xs
  proof (induction xs)
    case (Cons x xs)
    obtain action chord where x: "x = (action, chord)" by (cases x)
    show ?case
    proof (cases chord)
      case None
      then show ?thesis using Cons.IH by (simp add: x validate_hotkey_def)
    next
      case (Some c)
      then show ?thesis
        using Cons.IH step [of action c xs]
        by (cases "validate_hotkey action (Some c)") (auto simp: x)
    qed
  qed simp
  note main = this [of "settings_hotkeys b"]
  have "action_chords b = settings_hotkeys b" by (simp add: action_chords_def settings_hotkeys_def)
  then show ?thesis
    using main by (cases "validate_hotkeys (settings_hotkeys b)") (auto simp: validate_bindings_def)
qed

text \<open>
  A registration identifier leads back to its action and to no other, an identifier of no
  action is refused, and the identifiers stay outside the range reserved for transient hotkeys.
\<close>
lemma hotkey_id_roundtrip:
  "(action_from_registration_id i = Some a \<longleftrightarrow> i = action_registration_id a)
   \<and> sint (action_registration_id a) \<notin> {sint TRANSIENT_HOTKEY_ID_START..sint TRANSIENT_HOTKEY_ID_END}"
proof
  show "action_from_registration_id i = Some a \<longleftrightarrow> i = action_registration_id a"
    by (rule action_from_registration_id_iff)
  show "sint (action_registration_id a) \<notin> {sint TRANSIENT_HOTKEY_ID_START..sint TRANSIENT_HOTKEY_ID_END}"
    by (cases a) (simp_all add: action_registration_id_def ACTION_HOTKEY_ID_START_def
        TRANSIENT_HOTKEY_ID_START_def TRANSIENT_HOTKEY_ID_END_def)
qed

section \<open>A session with the fake backend\<close>

definition sample_chord :: HotkeyChord where
  "sample_chord = \<lparr>hc_modifiers = \<lparr>hm_control = True, hm_alt = False, hm_shift = True,
     hm_windows = False\<rparr>, hc_virtual_key = 0x4D\<rparr>"

definition sample_bindings :: HotkeyBindings where
  "sample_bindings = HotkeyBindings_default\<lparr>overlay_visibility := Some sample_chord,
     interaction_lock := Some sample_chord\<rparr>"

lemma hotkey_replace_reports_example:
  "\<exists>r'. HotkeyRegistry_replace (ghost_backend FakeHotkeyBackend) sample_bindings
      (registry_after FakeHotkeyBackend FakeHotkeyState_default [])
      = (Some (Inr \<lparr>hrep_active = [OverlayVisibility],
           hrep_disabled = [\<lparr>dh_action = InteractionLock,
             dh_reason = DuplicateChord OverlayVisibility\<rparr>]\<rparr>), r')
    \<and> fst (snd (hr_backend r')) (action_registration_id OverlayVisibility) =
        Some (native_chord sample_chord)"
proof -
  let ?run = "HotkeyRegistry_replace (ghost_backend FakeHotkeyBackend) sample_bindings
      (registry_after FakeHotkeyBackend FakeHotkeyState_default [])"
  let ?rep = "\<lparr>hrep_active = [OverlayVisibility],
      hrep_disabled = [\<lparr>dh_action = InteractionLock, dh_reason = DuplicateChord OverlayVisibility\<rparr>]\<rparr>"
  have "fst ?run = Some (Inr ?rep)" by code_simp
  then have run: "?run = (Some (Inr ?rep), snd ?run)" by (metis prod.collapse)
  have "OverlayVisibility \<in> set (hrep_active ?rep)" by simp
  then obtain c where "binding sample_bindings OverlayVisibility = Some c"
    "fst (snd (hr_backend (snd ?run))) (action_registration_id OverlayVisibility) = Some (native_chord c)"
    using hotkey_replace_reports [OF run] by blast
  then show ?thesis using run by (auto simp: sample_bindings_def)
qed

end
