(* ===== verification/Windows_Tracker.thy ===== *)
theory Windows_Tracker
  imports Domain_Core
begin

text \<open>
  The game window tracker of \<open>crates/pal-windows/src/tracker.rs\<close> over the observations and the
  backend trait of \<open>crates/pal-windows/src/backend.rs\<close>.

  The trait \<open>WindowBackend\<close> is a record of two functions on a backend state.  Between two polls the
  desktop may change at will, so the reachable states close under any change of the backend state.
  Raw window and monitor identifiers are 64-bit words.
\<close>

section \<open>Observations and the backend\<close>

record PhysicalClientRect =
  rect_left :: i32
  rect_top :: i32
  rect_width :: u32
  rect_height :: u32

definition rect_area :: "PhysicalClientRect \<Rightarrow> u64" where
  "rect_area r = ucast (rect_width r) * ucast (rect_height r)"

record WindowObservation =
  wo_id :: u64
  wo_monitor_id :: u64
  wo_process_id :: u32
  wo_image_path :: string
  wo_window_title :: string
  wo_client_rect :: PhysicalClientRect
  wo_dpi :: u32
  wo_visible :: bool
  wo_top_level :: bool
  wo_foreground :: bool
  wo_minimized :: bool
  wo_inspectable :: bool

text \<open>The first piece of \<open>rsplit\<close>: what follows the last separator.\<close>

definition path_basename :: "string \<Rightarrow> string" where
  "path_basename path = rev (takeWhile (\<lambda>c. c \<noteq> CHR 0x5C \<and> c \<noteq> CHR ''/'') (rev path))"

definition image_basename :: "WindowObservation \<Rightarrow> string" where
  "image_basename ob = path_basename (wo_image_path ob)"

datatype WindowBackendOperation = Inspect | EnumerateTopLevel

record WindowBackendError =
  wbe_operation :: WindowBackendOperation
  wbe_code :: u32

record 'b WindowBackend =
  wb_inspect :: "'b \<Rightarrow> u64 \<Rightarrow> (WindowBackendError + WindowObservation option) \<times> 'b"
  wb_enumerate_top_level :: "'b \<Rightarrow> (WindowBackendError + WindowObservation list) \<times> 'b"

section \<open>The tracker\<close>

definition PALWORLD_IMAGE_NAME :: string where
  "PALWORLD_IMAGE_NAME = ''Palworld-Win64-Shipping.exe''"

record TrackedWindow =
  tw_id :: u64
  tw_monitor_id :: u64
  tw_image_path :: string
  tw_snapshot :: WindowSnapshot

datatype WindowEvent =
    WindowAttached TrackedWindow
  | WindowChanged (changed_previous: TrackedWindow) (changed_current: TrackedWindow)
  | WindowDetached TrackedWindow

datatype TrackerErrorCategory = InvalidSelectedSnapshot

datatype TrackerError =
    TrackerBackend WindowBackendError
  | Materialization TrackerErrorCategory string

record 'b GameWindowTracker =
  gt_backend :: 'b
  gt_current :: "TrackedWindow option"

definition GameWindowTracker_new :: "'b \<Rightarrow> 'b GameWindowTracker" where
  "GameWindowTracker_new backend = \<lparr>gt_backend = backend, gt_current = None\<rparr>"

definition has_valid_identity :: "WindowObservation \<Rightarrow> bool" where
  "has_valid_identity ob =
     (wo_inspectable ob \<and> wo_top_level ob
      \<and> eq_ignore_ascii_case (image_basename ob) PALWORLD_IMAGE_NAME \<and> wo_dpi ob \<noteq> 0)"

definition has_visible_client_geometry :: "WindowObservation \<Rightarrow> bool" where
  "has_visible_client_geometry ob =
     (rect_width (wo_client_rect ob) \<noteq> 0 \<and> rect_height (wo_client_rect ob) \<noteq> 0)"

definition is_valid_candidate :: "WindowObservation \<Rightarrow> bool" where
  "is_valid_candidate ob =
     (wo_visible ob \<and> has_valid_identity ob \<and> has_visible_client_geometry ob)"

definition is_valid_current_candidate :: "WindowObservation \<Rightarrow> bool" where
  "is_valid_current_candidate ob =
     ((wo_visible ob \<or> wo_minimized ob) \<and> has_valid_identity ob
      \<and> (wo_minimized ob \<or> has_visible_client_geometry ob))"

text \<open>\<open>std::cmp::Ordering\<close>, \<open>Ord::cmp\<close>, \<open>then_with\<close> and \<open>Iterator::min_by\<close>.\<close>

datatype Ordering = OrdLess | OrdEqual | OrdGreater

definition ord_cmp :: "'a::linorder \<Rightarrow> 'a \<Rightarrow> Ordering" where
  "ord_cmp x y = (if x < y then OrdLess else if x = y then OrdEqual else OrdGreater)"

fun then_with :: "Ordering \<Rightarrow> Ordering \<Rightarrow> Ordering" where
  "then_with OrdEqual o2 = o2"
| "then_with o1 _ = o1"

fun min_by_from :: "('a \<Rightarrow> 'a \<Rightarrow> Ordering) \<Rightarrow> 'a \<Rightarrow> 'a list \<Rightarrow> 'a" where
  "min_by_from cmp x [] = x"
| "min_by_from cmp x (y # ys) = min_by_from cmp (if cmp x y = OrdGreater then y else x) ys"

fun min_by :: "('a \<Rightarrow> 'a \<Rightarrow> Ordering) \<Rightarrow> 'a list \<Rightarrow> 'a option" where
  "min_by cmp [] = None"
| "min_by cmp (x # xs) = Some (min_by_from cmp x xs)"

definition candidate_order :: "WindowObservation \<Rightarrow> WindowObservation \<Rightarrow> Ordering" where
  "candidate_order left right =
     then_with (then_with (ord_cmp (wo_foreground right) (wo_foreground left))
         (ord_cmp (rect_area (wo_client_rect right)) (rect_area (wo_client_rect left))))
       (ord_cmp (wo_id left) (wo_id right))"

definition materialize_with_rect ::
  "WindowObservation \<Rightarrow> i32 \<Rightarrow> i32 \<Rightarrow> u32 \<Rightarrow> u32 \<Rightarrow> TrackerError + TrackedWindow" where
  "materialize_with_rect ob left top_edge width height =
     (case WindowSnapshot_new (wo_process_id ob) left top_edge width height (wo_dpi ob)
             (wo_visible ob) (wo_foreground ob) (wo_minimized ob) of
        Inl e \<Rightarrow> Inl (Materialization InvalidSelectedSnapshot (WindowValidationError_field e))
      | Inr snapshot \<Rightarrow>
          Inr \<lparr>tw_id = wo_id ob, tw_monitor_id = wo_monitor_id ob,
               tw_image_path = wo_image_path ob, tw_snapshot = snapshot\<rparr>)"

definition materialize :: "WindowObservation \<Rightarrow> TrackerError + TrackedWindow" where
  "materialize ob =
     (let rect = wo_client_rect ob in
      materialize_with_rect ob (rect_left rect) (rect_top rect) (rect_width rect) (rect_height rect))"

definition materialize_current ::
  "WindowObservation \<Rightarrow> TrackedWindow \<Rightarrow> TrackerError + TrackedWindow" where
  "materialize_current ob previous =
     (let rect = wo_client_rect ob in
      if wo_minimized ob \<and> (rect_width rect = 0 \<or> rect_height rect = 0)
      then let snapshot = tw_snapshot previous in
        materialize_with_rect ob (ws_client_left snapshot) (ws_client_top snapshot)
          (ws_client_width snapshot) (ws_client_height snapshot)
      else materialize ob)"

text \<open>The second half of \<open>poll\<close>: the current window is gone or was never there.\<close>

definition poll_enumerate ::
  "'b WindowBackend \<Rightarrow> 'b GameWindowTracker
   \<Rightarrow> (TrackerError + WindowEvent option) \<times> 'b GameWindowTracker" where
  "poll_enumerate B t =
     (case wb_enumerate_top_level B (gt_backend t) of
        (Inl e, b) \<Rightarrow> (Inl (TrackerBackend e), t\<lparr>gt_backend := b\<rparr>)
      | (Inr windows, b) \<Rightarrow>
          let t = t\<lparr>gt_backend := b\<rparr>;
              selected = min_by candidate_order (filter is_valid_candidate windows)
          in case selected of
               None \<Rightarrow> (Inr (map_option WindowDetached (gt_current t)), t\<lparr>gt_current := None\<rparr>)
             | Some ob \<Rightarrow>
                 (case materialize ob of
                    Inl e \<Rightarrow> (Inl e, t)
                  | Inr current \<Rightarrow>
                      let event = (case gt_current t of
                            Some previous \<Rightarrow>
                              if tw_id previous = tw_id current
                                 \<and> ws_process_id (tw_snapshot previous) = ws_process_id (tw_snapshot current)
                              then if previous = current then None
                                   else Some (WindowChanged previous current)
                              else Some (WindowAttached current)
                          | None \<Rightarrow> Some (WindowAttached current))
                      in (Inr event, t\<lparr>gt_current := Some current\<rparr>)))"

definition tracker_poll ::
  "'b WindowBackend \<Rightarrow> 'b GameWindowTracker
   \<Rightarrow> (TrackerError + WindowEvent option) \<times> 'b GameWindowTracker" where
  "tracker_poll B t =
     (case gt_current t of
        None \<Rightarrow> poll_enumerate B t
      | Some previous \<Rightarrow>
          (case wb_inspect B (gt_backend t) (tw_id previous) of
             (inspected, b) \<Rightarrow>
               let t = t\<lparr>gt_backend := b\<rparr> in
               case inspected of
                 Inr (Some ob) \<Rightarrow>
                   if wo_id ob = tw_id previous
                      \<and> wo_process_id ob = ws_process_id (tw_snapshot previous)
                      \<and> is_valid_current_candidate ob
                   then (case materialize_current ob previous of
                           Inl e \<Rightarrow> (Inl e, t)
                         | Inr current \<Rightarrow>
                             if current = previous then (Inr None, t)
                             else (Inr (Some (WindowChanged previous current)),
                                   t\<lparr>gt_current := Some current\<rparr>))
                   else poll_enumerate B t
               | _ \<Rightarrow> poll_enumerate B t))"

section \<open>The fake backend\<close>

record FakeWindowState =
  fw_windows :: "WindowObservation list"
  fw_inspected :: "u64 list"
  fw_enumerate_top_level :: nat
  fw_inspection_errors :: "(u64 \<times> WindowBackendError) list"
  fw_enumeration_error :: "WindowBackendError option"

definition fake_with_windows :: "WindowObservation list \<Rightarrow> FakeWindowState" where
  "fake_with_windows windows =
     \<lparr>fw_windows = windows, fw_inspected = [], fw_enumerate_top_level = 0,
      fw_inspection_errors = [], fw_enumeration_error = None\<rparr>"

definition fake_replace_windows :: "WindowObservation list \<Rightarrow> FakeWindowState \<Rightarrow> FakeWindowState" where
  "fake_replace_windows windows s = s\<lparr>fw_windows := windows\<rparr>"

definition fake_fail_enumeration :: "WindowBackendError \<Rightarrow> FakeWindowState \<Rightarrow> FakeWindowState" where
  "fake_fail_enumeration e s = s\<lparr>fw_enumeration_error := Some e\<rparr>"

definition fake_fail_inspection :: "u64 \<Rightarrow> WindowBackendError \<Rightarrow> FakeWindowState \<Rightarrow> FakeWindowState" where
  "fake_fail_inspection i e s =
     s\<lparr>fw_inspection_errors :=
         filter (\<lambda>(existing, _). existing \<noteq> i) (fw_inspection_errors s) @ [(i, e)]\<rparr>"

definition fake_clear_window_calls :: "FakeWindowState \<Rightarrow> FakeWindowState" where
  "fake_clear_window_calls s = s\<lparr>fw_inspected := [], fw_enumerate_top_level := 0\<rparr>"

definition fake_inspect ::
  "FakeWindowState \<Rightarrow> u64 \<Rightarrow> (WindowBackendError + WindowObservation option) \<times> FakeWindowState" where
  "fake_inspect s i =
     (let s = s\<lparr>fw_inspected := fw_inspected s @ [i]\<rparr> in
      (case find (\<lambda>(failed_id, _). failed_id = i) (fw_inspection_errors s) of
         Some (_, e) \<Rightarrow> Inl e
       | None \<Rightarrow> Inr (find (\<lambda>w. wo_id w = i) (fw_windows s)), s))"

definition fake_enumerate ::
  "FakeWindowState \<Rightarrow> (WindowBackendError + WindowObservation list) \<times> FakeWindowState" where
  "fake_enumerate s =
     (let s = s\<lparr>fw_enumerate_top_level := fw_enumerate_top_level s + 1\<rparr> in
      (case fw_enumeration_error s of Some e \<Rightarrow> Inl e | None \<Rightarrow> Inr (fw_windows s), s))"

definition FakeWindowBackend :: "FakeWindowState WindowBackend" where
  "FakeWindowBackend = \<lparr>wb_inspect = fake_inspect, wb_enumerate_top_level = fake_enumerate\<rparr>"

section \<open>The selection\<close>

lemma rect_area_nat: "unat (rect_area r) = unat (rect_width r) * unat (rect_height r)"
proof -
  have "unat (rect_width r) < 2 ^ 32" "unat (rect_height r) < 2 ^ 32"
    using unat_less_pow [of "rect_width r"] unat_less_pow [of "rect_height r"] by simp_all
  then have "unat (rect_width r) * unat (rect_height r) < 2 ^ 32 * 2 ^ 32"
    by (rule mult_strict_mono) simp_all
  then have "(unat (rect_width r) * unat (rect_height r)) mod 2 ^ 64
      = unat (rect_width r) * unat (rect_height r)" by simp
  moreover have "unat (ucast x :: u64) = unat x" for x :: u32
    using unat_less_pow [of x] by (simp add: unsigned_ucast_eq take_bit_nat_eq_self_iff)
  ultimately show ?thesis by (simp add: rect_area_def unat_word_ariths)
qed

text \<open>The order spelled out: foreground first, then the larger client area, then the lower id.\<close>

definition preferred :: "WindowObservation \<Rightarrow> WindowObservation \<Rightarrow> bool" where
  "preferred x y \<longleftrightarrow>
     (let area = (\<lambda>ob. unat (rect_width (wo_client_rect ob)) * unat (rect_height (wo_client_rect ob))) in
      if wo_foreground x \<noteq> wo_foreground y then wo_foreground x
      else if area x \<noteq> area y then area y < area x
      else wo_id x \<le> wo_id y)"

lemma candidate_order_preferred: "candidate_order x y \<noteq> OrdGreater \<longleftrightarrow> preferred x y"
  by (auto simp: candidate_order_def preferred_def ord_cmp_def rect_area_nat [symmetric] Let_def
      word_unat_eq_iff [symmetric] word_less_nat_alt [symmetric] not_less)

lemma preferred_refl [simp]: "preferred x x"
  by (simp add: preferred_def)

lemma preferred_total: "preferred x y \<or> preferred y x"
  by (auto simp: preferred_def Let_def)

lemma preferred_trans: "preferred x y \<Longrightarrow> preferred y z \<Longrightarrow> preferred x z"
  by (auto simp: preferred_def Let_def split: if_splits)

text \<open>A minimum of a total preorder, whichever client uses it.\<close>

locale min_order =
  fixes cmp :: "'a \<Rightarrow> 'a \<Rightarrow> Ordering"
  assumes refl: "cmp x x \<noteq> OrdGreater"
    and flip: "cmp x y = OrdGreater \<Longrightarrow> cmp y x \<noteq> OrdGreater"
    and trans: "\<lbrakk>cmp x y \<noteq> OrdGreater; cmp y z \<noteq> OrdGreater\<rbrakk> \<Longrightarrow> cmp x z \<noteq> OrdGreater"
begin

lemma min_by_from_least:
  "min_by_from cmp x ys \<in> insert x (set ys)
   \<and> (\<forall>y \<in> insert x (set ys). cmp (min_by_from cmp x ys) y \<noteq> OrdGreater)"
proof (induction ys arbitrary: x)
  case Nil
  then show ?case by (simp add: refl)
next
  case (Cons z ys)
  show ?case
    using Cons.IH [of "if cmp x z = OrdGreater then z else x"]
    by (auto split: if_splits dest: flip trans)
qed

lemma min_by_least:
  assumes "min_by cmp xs = Some m"
  shows "m \<in> set xs" "y \<in> set xs \<Longrightarrow> cmp m y \<noteq> OrdGreater"
  using assms min_by_from_least by (cases xs; force)+

lemma min_by_None [simp]: "min_by cmp xs = None \<longleftrightarrow> xs = []"
  by (cases xs) simp_all

end

interpretation window: min_order candidate_order
proof
  show "candidate_order x x \<noteq> OrdGreater" for x by (simp add: candidate_order_preferred)
  show "candidate_order y x \<noteq> OrdGreater" if "candidate_order x y = OrdGreater" for x y
    using that candidate_order_preferred preferred_total by blast
  show "candidate_order x z \<noteq> OrdGreater"
    if "candidate_order x y \<noteq> OrdGreater" "candidate_order y z \<noteq> OrdGreater" for x y z
    using that preferred_trans by (auto simp: candidate_order_preferred)
qed

section \<open>Reachable trackers\<close>

inductive tracker_reachable :: "'b WindowBackend \<Rightarrow> 'b GameWindowTracker \<Rightarrow> bool" for B where
  tracker_new: "tracker_reachable B (GameWindowTracker_new b)"
| tracker_polled: "tracker_reachable B t \<Longrightarrow> tracker_reachable B (snd (tracker_poll B t))"
| desktop_changed: "tracker_reachable B t \<Longrightarrow> tracker_reachable B (t\<lparr>gt_backend := b\<rparr>)"

definition tracked_ok :: "TrackedWindow \<Rightarrow> bool" where
  "tracked_ok w =
     (ws_client_width (tw_snapshot w) \<noteq> 0 \<and> ws_client_height (tw_snapshot w) \<noteq> 0
      \<and> ws_dpi (tw_snapshot w) \<noteq> 0
      \<and> (ws_visible (tw_snapshot w) \<or> ws_minimized (tw_snapshot w))
      \<and> eq_ignore_ascii_case (path_basename (tw_image_path w)) PALWORLD_IMAGE_NAME)"

text \<open>The tracked window an observation stands for, with the client rectangle given.\<close>

definition window_of :: "WindowObservation \<Rightarrow> i32 \<Rightarrow> i32 \<Rightarrow> u32 \<Rightarrow> u32 \<Rightarrow> TrackedWindow" where
  "window_of ob left top_edge width height =
     \<lparr>tw_id = wo_id ob, tw_monitor_id = wo_monitor_id ob, tw_image_path = wo_image_path ob,
      tw_snapshot = \<lparr>ws_process_id = wo_process_id ob, ws_client_left = left,
        ws_client_top = top_edge, ws_client_width = width, ws_client_height = height,
        ws_dpi = wo_dpi ob, ws_visible = wo_visible ob, ws_active = wo_foreground ob,
        ws_minimized = wo_minimized ob\<rparr>\<rparr>"

abbreviation observed_window :: "WindowObservation \<Rightarrow> TrackedWindow" where
  "observed_window ob \<equiv> let rect = wo_client_rect ob in
     window_of ob (rect_left rect) (rect_top rect) (rect_width rect) (rect_height rect)"

lemma materialize_with_rect_ok:
  assumes "width \<noteq> 0" "height \<noteq> 0" "wo_dpi ob \<noteq> 0"
  shows "materialize_with_rect ob left top_edge width height =
     Inr (window_of ob left top_edge width height)"
  using assms by (simp add: materialize_with_rect_def WindowSnapshot_new_def WindowSnapshot_validate_def
      window_of_def Let_def)

lemma materialize_candidate:
  assumes "is_valid_candidate ob"
  shows "materialize ob = Inr (observed_window ob)" "tracked_ok (observed_window ob)"
  using assms
  by (simp_all add: materialize_def materialize_with_rect_ok is_valid_candidate_def Let_def
      has_valid_identity_def has_visible_client_geometry_def tracked_ok_def window_of_def
      image_basename_def)

lemma materialize_current_window:
  assumes "is_valid_current_candidate ob" "tracked_ok previous"
  shows "if has_visible_client_geometry ob
    then materialize_current ob previous = Inr (observed_window ob)
    else materialize_current ob previous =
        Inr (window_of ob (ws_client_left (tw_snapshot previous)) (ws_client_top (tw_snapshot previous))
          (ws_client_width (tw_snapshot previous)) (ws_client_height (tw_snapshot previous)))
      \<and> wo_minimized ob"
proof -
  note ident = assms(1) [unfolded is_valid_current_candidate_def has_valid_identity_def]
  have rect: "ws_client_width (tw_snapshot previous) \<noteq> 0" "ws_client_height (tw_snapshot previous) \<noteq> 0"
    using assms(2) by (simp_all add: tracked_ok_def)
  show ?thesis
    using ident rect
    by (auto simp: materialize_current_def materialize_def materialize_with_rect_ok
        has_visible_client_geometry_def Let_def)
qed

lemma materialize_current_ok:
  assumes "is_valid_current_candidate ob" "tracked_ok previous"
  obtains w where "materialize_current ob previous = Inr w" "tracked_ok w"
proof -
  have "tracked_ok (window_of ob l t w h)" if "w \<noteq> 0" "h \<noteq> 0" for l t w h
    using that assms(1)
    by (simp add: tracked_ok_def window_of_def image_basename_def is_valid_current_candidate_def
        has_valid_identity_def)
  then show ?thesis
    using that materialize_current_window [OF assms] assms(2)
    by (auto simp: tracked_ok_def [of previous] has_visible_client_geometry_def Let_def split: if_splits)
qed

text \<open>What a poll that looks at all windows finds: the preferred candidate, if there is one.\<close>

definition best_candidate :: "WindowObservation list \<Rightarrow> WindowObservation \<Rightarrow> bool" where
  "best_candidate windows ob \<longleftrightarrow>
     ob \<in> set windows \<and> is_valid_candidate ob
     \<and> (\<forall>w \<in> set windows. is_valid_candidate w \<longrightarrow> preferred ob w)"

lemma selected_best:
  "case min_by candidate_order (filter is_valid_candidate windows) of
     None \<Rightarrow> \<not> (\<exists>w \<in> set windows. is_valid_candidate w)
   | Some ob \<Rightarrow> best_candidate windows ob"
proof (cases "min_by candidate_order (filter is_valid_candidate windows)")
  case None
  then show ?thesis by (simp add: filter_empty_conv)
next
  case (Some ob)
  note least = window.min_by_least [OF Some, unfolded candidate_order_preferred]
  have "ob \<in> set windows" "is_valid_candidate ob" using least(1) by simp_all
  moreover have "preferred ob w" if "w \<in> set windows" "is_valid_candidate w" for w
    using least(2) [of w] that by simp
  ultimately show ?thesis by (simp add: Some best_candidate_def)
qed

fun consume :: "WindowEvent option \<Rightarrow> TrackedWindow option \<Rightarrow> TrackedWindow option option" where
  "consume None known = Some known"
| "consume (Some (WindowAttached w)) known = Some (Some w)"
| "consume (Some (WindowChanged p q)) known =
     (if known = Some p \<and> p \<noteq> q \<and> tw_id p = tw_id q
         \<and> ws_process_id (tw_snapshot p) = ws_process_id (tw_snapshot q)
      then Some (Some q) else None)"
| "consume (Some (WindowDetached p)) known = (if known = Some p then Some None else None)"

text \<open>The event of a poll that found a window.\<close>

definition attach_event :: "TrackedWindow option \<Rightarrow> TrackedWindow \<Rightarrow> WindowEvent option" where
  "attach_event known current = (case known of
       Some previous \<Rightarrow>
         if tw_id previous = tw_id current
            \<and> ws_process_id (tw_snapshot previous) = ws_process_id (tw_snapshot current)
         then if previous = current then None else Some (WindowChanged previous current)
         else Some (WindowAttached current)
     | None \<Rightarrow> Some (WindowAttached current))"

lemma consume_attach_event: "consume (attach_event known w) known = Some (Some w)"
  by (auto simp: attach_event_def split: option.split)

lemma poll_enumerate_selected:
  assumes "wb_enumerate_top_level B (gt_backend t) = (Inr windows, b)"
    "min_by candidate_order (filter is_valid_candidate windows) = Some ob" "materialize ob = Inr w"
  shows "poll_enumerate B t = (Inr (attach_event (gt_current t) w), \<lparr>gt_backend = b, gt_current = Some w\<rparr>)"
  unfolding poll_enumerate_def assms(1) attach_event_def Let_def
  by (simp only: prod.case sum.case assms(2,3) option.case) simp

lemma poll_enumerate_cases:
  obtains (failed) e b where "wb_enumerate_top_level B (gt_backend t) = (Inl e, b)"
      "poll_enumerate B t = (Inl (TrackerBackend e), t\<lparr>gt_backend := b\<rparr>)"
  | (none) windows b where "wb_enumerate_top_level B (gt_backend t) = (Inr windows, b)"
      "\<not> (\<exists>w \<in> set windows. is_valid_candidate w)"
      "poll_enumerate B t = (Inr (map_option WindowDetached (gt_current t)), \<lparr>gt_backend = b, gt_current = None\<rparr>)"
  | (found) windows b ob where "wb_enumerate_top_level B (gt_backend t) = (Inr windows, b)"
      "best_candidate windows ob"
      "poll_enumerate B t =
         (Inr (attach_event (gt_current t) (observed_window ob)),
          \<lparr>gt_backend = b, gt_current = Some (observed_window ob)\<rparr>)"
proof -
  obtain x b where call: "wb_enumerate_top_level B (gt_backend t) = (x, b)"
    by (cases "wb_enumerate_top_level B (gt_backend t)")
  show ?thesis
  proof (cases x)
    case (Inl e)
    then show ?thesis using call by (intro failed [of e b]) (simp_all add: poll_enumerate_def)
  next
    case (Inr windows)
    show ?thesis
    proof (cases "min_by candidate_order (filter is_valid_candidate windows)")
      case None
      then show ?thesis
        using call Inr selected_best [of windows]
        by (intro none [of windows b]) (simp_all add: poll_enumerate_def)
    next
      case (Some ob)
      then have best: "best_candidate windows ob" using selected_best [of windows] by simp
      then have mat: "materialize ob = Inr (observed_window ob)"
        by (simp add: materialize_candidate(1) best_candidate_def)
      show ?thesis
        by (rule found [OF call [unfolded Inr] best poll_enumerate_selected [OF call [unfolded Inr] Some mat]])
    qed
  qed
qed

lemma tracker_poll_cases:
  obtains (kept) previous ob b where "gt_current t = Some previous"
      "wb_inspect B (gt_backend t) (tw_id previous) = (Inr (Some ob), b)"
      "wo_id ob = tw_id previous" "wo_process_id ob = ws_process_id (tw_snapshot previous)"
      "is_valid_current_candidate ob"
      "tracker_poll B t = (case materialize_current ob previous of
         Inl e \<Rightarrow> (Inl e, t\<lparr>gt_backend := b\<rparr>)
       | Inr current \<Rightarrow>
           if current = previous then (Inr None, t\<lparr>gt_backend := b\<rparr>)
           else (Inr (Some (WindowChanged previous current)), \<lparr>gt_backend = b, gt_current = Some current\<rparr>))"
  | (searched) b where "tracker_poll B t = poll_enumerate B (t\<lparr>gt_backend := b\<rparr>)"
proof (cases "gt_current t")
  case None
  then show ?thesis by (intro searched [of "gt_backend t"]) (simp add: tracker_poll_def)
next
  case (Some previous)
  obtain x b where call: "wb_inspect B (gt_backend t) (tw_id previous) = (x, b)"
    by (cases "wb_inspect B (gt_backend t) (tw_id previous)")
  show ?thesis
  proof (cases "\<exists>ob. x = Inr (Some ob) \<and> wo_id ob = tw_id previous
      \<and> wo_process_id ob = ws_process_id (tw_snapshot previous) \<and> is_valid_current_candidate ob")
    case True
    then obtain ob where x: "x = Inr (Some ob)" and ob: "wo_id ob = tw_id previous"
      "wo_process_id ob = ws_process_id (tw_snapshot previous)" "is_valid_current_candidate ob"
      by blast
    show ?thesis
      by (rule kept [OF Some call [unfolded x] ob])
        (auto simp: tracker_poll_def Some call x ob Let_def split: sum.split)
  next
    case False
    then show ?thesis
      by (intro searched [of b]) (auto simp: tracker_poll_def Some call Let_def split: sum.split option.split)
  qed
qed

lemma materialize_current_identity:
  assumes "materialize_current ob previous = Inr w"
  shows "tw_id w = wo_id ob" "ws_process_id (tw_snapshot w) = wo_process_id ob"
proof -
  have "tw_id w = wo_id ob \<and> ws_process_id (tw_snapshot w) = wo_process_id ob"
    if "materialize_with_rect ob l tp wd h = Inr w" for l tp wd h
    using that
    by (auto simp: materialize_with_rect_def WindowSnapshot_new_def WindowSnapshot_validate_def Let_def
        split: sum.splits if_splits)
  then have "tw_id w = wo_id ob \<and> ws_process_id (tw_snapshot w) = wo_process_id ob"
    using assms by (simp add: materialize_current_def materialize_def Let_def split: if_splits)
  then show "tw_id w = wo_id ob" "ws_process_id (tw_snapshot w) = wo_process_id ob" by simp_all
qed

lemma tracker_poll_consumed:
  "(case fst (tracker_poll B t) of Inl _ \<Rightarrow> Some (gt_current t) | Inr ev \<Rightarrow> consume ev (gt_current t))
     = Some (gt_current (snd (tracker_poll B t)))"
proof (cases rule: tracker_poll_cases [of t B])
  case (kept previous ob b)
  show ?thesis
  proof (cases "materialize_current ob previous")
    case (Inl e)
    then show ?thesis by (simp add: kept(6))
  next
    case (Inr w)
    then show ?thesis
      using materialize_current_identity [OF Inr] by (simp add: kept(1,3,4,6))
  qed
next
  case (searched b)
  have "(case fst (poll_enumerate B u) of Inl _ \<Rightarrow> Some (gt_current u) | Inr ev \<Rightarrow> consume ev (gt_current u))
      = Some (gt_current (snd (poll_enumerate B u)))" for u
  proof (cases rule: poll_enumerate_cases [of B u])
    case (none windows b)
    then show ?thesis by (cases "gt_current u") simp_all
  qed (simp_all add: consume_attach_event)
  from this [of "t\<lparr>gt_backend := b\<rparr>"] show ?thesis by (simp add: searched cong: sum.case_cong)
qed

lemma tracker_poll_ok:
  assumes "\<forall>w. gt_current t = Some w \<longrightarrow> tracked_ok w"
  shows "(\<forall>w. gt_current (snd (tracker_poll B t)) = Some w \<longrightarrow> tracked_ok w)
    \<and> (\<forall>e. fst (tracker_poll B t) = Inl e \<longrightarrow> (\<exists>source. e = TrackerBackend source))"
proof (cases rule: tracker_poll_cases [of t B])
  case (kept previous ob b)
  obtain w where "materialize_current ob previous = Inr w" "tracked_ok w"
    using materialize_current_ok [OF kept(5)] assms kept(1) by blast
  then show ?thesis using kept(1,6) assms by auto
next
  case (searched b)
  show ?thesis
    unfolding searched
    by (rule poll_enumerate_cases [of B "t\<lparr>gt_backend := b\<rparr>"])
      (use assms in \<open>auto simp: best_candidate_def materialize_candidate(2)\<close>)
qed

lemma tracker_reachable_ok:
  "tracker_reachable B t \<Longrightarrow> \<forall>w. gt_current t = Some w \<longrightarrow> tracked_ok w"
proof (induction rule: tracker_reachable.induct)
  case (tracker_polled t)
  then show ?case using tracker_poll_ok by blast
qed (simp_all add: GameWindowTracker_new_def)

text \<open>A session of polls, each finding the desktop in some state, and a client that follows it.\<close>

fun poll_session :: "'b WindowBackend \<Rightarrow> 'b list \<Rightarrow> 'b GameWindowTracker
    \<Rightarrow> (TrackerError + WindowEvent option) list \<times> 'b GameWindowTracker" where
  "poll_session B [] t = ([], t)"
| "poll_session B (b # bs) t =
     (let (res, t1) = tracker_poll B (t\<lparr>gt_backend := b\<rparr>); (rest, t2) = poll_session B bs t1
      in (res # rest, t2))"

fun follow :: "(TrackerError + WindowEvent option) list \<Rightarrow> TrackedWindow option
    \<Rightarrow> TrackedWindow option option" where
  "follow [] known = Some known"
| "follow (Inl _ # rest) known = follow rest known"
| "follow (Inr ev # rest) known =
     (case consume ev known of None \<Rightarrow> None | Some known' \<Rightarrow> follow rest known')"

section \<open>Properties\<close>

text \<open>
  C28: A client that applies the events of a session of polls, whatever the desktop does in between
  and whichever polls fail, always knows the tracked window: each change starts from the window it
  knows and keeps its identity, each detachment removes the window it knows, and a failed poll
  changes nothing.
\<close>
theorem tracker_events_complete:
  "follow (fst (poll_session B desktops t)) (gt_current t) = Some (gt_current (snd (poll_session B desktops t)))"
proof (induction desktops arbitrary: t)
  case (Cons b bs)
  obtain res t1 where poll: "tracker_poll B (t\<lparr>gt_backend := b\<rparr>) = (res, t1)"
    by (cases "tracker_poll B (t\<lparr>gt_backend := b\<rparr>)")
  have step: "(case res of Inl _ \<Rightarrow> Some (gt_current t) | Inr ev \<Rightarrow> consume ev (gt_current t)) = Some (gt_current t1)"
    using tracker_poll_consumed [where B = B and t = "t\<lparr>gt_backend := b\<rparr>"]
    by (simp add: poll cong: sum.case_cong)
  show ?case
    using step Cons.IH [of t1] by (cases res) (auto simp: poll split: prod.split)
qed simp

text \<open>
  C30: In every reachable tracker the tracked window is well formed (a Palworld window with a
  nonempty client area and a known DPI, visible or minimised), so turning an observation into a
  tracked window never fails: a poll fails only with an error of the backend.
\<close>
theorem tracked_window_wellformed:
  assumes "tracker_reachable B t"
  shows "(\<forall>w. gt_current t = Some w \<longrightarrow> tracked_ok w)
    \<and> (\<forall>e. fst (tracker_poll B t) = Inl e \<longrightarrow> (\<exists>source. e = TrackerBackend source))"
proof -
  have "\<forall>w. gt_current t = Some w \<longrightarrow> tracked_ok w" by (rule tracker_reachable_ok [OF assms])
  then show ?thesis using tracker_poll_ok by blast
qed

text \<open>
  A tracker without a window attaches to the preferred valid window of the desktop, the
  foreground one before the others, then the one with the larger client area (a product that
  cannot overflow), then the one with the lower identifier; it stays detached when there is none.
\<close>
lemma tracker_selects_preferred:
  assumes "wb_enumerate_top_level B (gt_backend t) = (Inr windows, b)" "gt_current t = None"
  shows "(\<exists>ob. best_candidate windows ob
        \<and> tracker_poll B t = (Inr (Some (WindowAttached (observed_window ob))),
            \<lparr>gt_backend = b, gt_current = Some (observed_window ob)\<rparr>))
     \<or> (filter is_valid_candidate windows = []
        \<and> tracker_poll B t = (Inr None, \<lparr>gt_backend = b, gt_current = None\<rparr>))"
proof -
  have "tracker_poll B t = poll_enumerate B t" using assms(2) by (simp add: tracker_poll_def)
  then show ?thesis
    by (cases rule: poll_enumerate_cases [of B t])
      (use assms in \<open>auto simp: attach_event_def filter_empty_conv\<close>)
qed

text \<open>
  While the tracked window can still be inspected, belongs to the same process and is valid,
  the tracker keeps it, minimised or not, whatever other windows there are: it does not look at
  them.  A minimised window that reports no client area keeps the area last seen.
\<close>
lemma tracker_keeps_valid_window:
  assumes "tracker_reachable B t" "gt_current t = Some previous"
    "wb_inspect B (gt_backend t) (tw_id previous) = (Inr (Some ob), b)"
    "wo_id ob = tw_id previous" "wo_process_id ob = ws_process_id (tw_snapshot previous)"
    "is_valid_current_candidate ob"
  shows "\<exists>w. gt_current (snd (tracker_poll B t)) = Some w \<and> gt_backend (snd (tracker_poll B t)) = b
     \<and> tw_id w = tw_id previous
     \<and> (if has_visible_client_geometry ob then w = observed_window ob
        else ws_client_width (tw_snapshot w) = ws_client_width (tw_snapshot previous)
           \<and> ws_client_height (tw_snapshot w) = ws_client_height (tw_snapshot previous)
           \<and> ws_minimized (tw_snapshot w))"
proof -
  have ok: "tracked_ok previous"
    using tracker_reachable_ok [OF assms(1)] assms(2) by blast
  obtain w where w: "materialize_current ob previous = Inr w" by (rule materialize_current_ok [OF assms(6) ok])
  have "gt_current (snd (tracker_poll B t)) = Some w \<and> gt_backend (snd (tracker_poll B t)) = b"
    using assms(2-6) w by (simp add: tracker_poll_def Let_def)
  moreover have "if has_visible_client_geometry ob then w = observed_window ob
      else w = window_of ob (ws_client_left (tw_snapshot previous)) (ws_client_top (tw_snapshot previous))
          (ws_client_width (tw_snapshot previous)) (ws_client_height (tw_snapshot previous)) \<and> wo_minimized ob"
    using materialize_current_window [OF assms(6) ok] w by (simp split: if_splits)
  ultimately show ?thesis
    using materialize_current_identity [OF w] assms(4) by (auto simp: window_of_def split: if_splits)
qed

section \<open>A desktop with two windows\<close>

definition sample_window :: "u64 \<Rightarrow> bool \<Rightarrow> WindowObservation" where
  "sample_window i minimized =
     \<lparr>wo_id = i, wo_monitor_id = 1, wo_process_id = 4242,
      wo_image_path = ''C:/Games/palworld-win64-shipping.EXE'', wo_window_title = ''Pal'',
      wo_client_rect = \<lparr>rect_left = 0, rect_top = 0,
        rect_width = (if minimized then 0 else 1280), rect_height = 720\<rparr>,
      wo_dpi = 96, wo_visible = True, wo_top_level = True, wo_foreground = False,
      wo_minimized = minimized, wo_inspectable = True\<rparr>"

lemma sample_name: "eq_ignore_ascii_case (path_basename ''C:/Games/palworld-win64-shipping.EXE'') PALWORLD_IMAGE_NAME"
  by code_simp

lemma sample_window_valid:
  "is_valid_candidate (sample_window i False)" "is_valid_current_candidate (sample_window i m)"
  "has_visible_client_geometry (sample_window i m) \<longleftrightarrow> \<not> m"
  using sample_name
  by (simp_all add: is_valid_candidate_def is_valid_current_candidate_def has_valid_identity_def
      has_visible_client_geometry_def image_basename_def sample_window_def)

definition sample_tracker :: "WindowObservation list \<Rightarrow> FakeWindowState GameWindowTracker" where
  "sample_tracker windows = GameWindowTracker_new (fake_with_windows windows)"

lemma sample_enumerates:
  "wb_enumerate_top_level FakeWindowBackend (gt_backend (sample_tracker ws)) =
     (Inr ws, (fake_with_windows ws)\<lparr>fw_enumerate_top_level := 1\<rparr>)"
  "gt_current (sample_tracker ws) = None"
  by (simp_all add: FakeWindowBackend_def fake_enumerate_def fake_with_windows_def sample_tracker_def
      GameWindowTracker_new_def)

lemma tracker_selects_preferred_example:
  "gt_current (snd (tracker_poll FakeWindowBackend (sample_tracker [sample_window 9 False, sample_window 7 False])))
   = Some (observed_window (sample_window 7 False))"
proof -
  let ?ws = "[sample_window 9 False, sample_window 7 False]"
  have "\<not> best_candidate ?ws (sample_window 9 False)"
    using sample_window_valid(1) [of 7] by (simp add: best_candidate_def preferred_def sample_window_def)
  then show ?thesis
    using tracker_selects_preferred [OF sample_enumerates(1,2) [of ?ws]]
    by (auto simp: sample_window_valid best_candidate_def)
qed

definition attached_tracker :: "FakeWindowState GameWindowTracker" where
  "attached_tracker = (snd (tracker_poll FakeWindowBackend (sample_tracker [sample_window 7 False])))
     \<lparr>gt_backend := fake_with_windows [sample_window 9 False, sample_window 7 True]\<rparr>"

lemma attached_tracker_reachable: "tracker_reachable FakeWindowBackend attached_tracker"
  unfolding attached_tracker_def sample_tracker_def
  by (intro tracker_reachable.intros)

lemma attached_tracker_current: "gt_current attached_tracker = Some (observed_window (sample_window 7 False))"
proof (cases rule: poll_enumerate_cases [of FakeWindowBackend "sample_tracker [sample_window 7 False]"])
  case (found windows b ob)
  then show ?thesis
    using sample_enumerates [of "[sample_window 7 False]"]
    by (auto simp: attached_tracker_def tracker_poll_def best_candidate_def)
qed (use sample_enumerates [of "[sample_window 7 False]"] sample_window_valid in auto)

theorem tracked_window_wellformed_witness:
  "tracked_ok (observed_window (sample_window 7 False))"
  using tracked_window_wellformed [OF attached_tracker_reachable] attached_tracker_current by blast

lemma tracker_keeps_valid_window_example:
  "\<exists>w. gt_current (snd (tracker_poll FakeWindowBackend attached_tracker)) = Some w
     \<and> tw_id w = 7 \<and> ws_client_width (tw_snapshot w) = 1280"
proof -
  let ?prev = "observed_window (sample_window 7 False)"
  have call: "wb_inspect FakeWindowBackend (gt_backend attached_tracker) (tw_id ?prev) =
     (Inr (Some (sample_window 7 True)),
      (fake_with_windows [sample_window 9 False, sample_window 7 True])\<lparr>fw_inspected := [7]\<rparr>)"
    by (simp add: attached_tracker_def FakeWindowBackend_def fake_inspect_def fake_with_windows_def
        window_of_def sample_window_def Let_def)
  have same: "wo_id (sample_window 7 True) = tw_id ?prev"
    "wo_process_id (sample_window 7 True) = ws_process_id (tw_snapshot ?prev)"
    by (simp_all add: sample_window_def window_of_def Let_def)
  show ?thesis
    using tracker_keeps_valid_window [OF attached_tracker_reachable attached_tracker_current call same
        sample_window_valid(2)]
    by (auto simp: has_visible_client_geometry_def window_of_def sample_window_def Let_def)
qed

end
