(* ===== verification/Protocol_Convert.thy ===== *)
theory Protocol_Convert
  imports Domain_Core
begin

text \<open>
  Conversions between the domain and the local protocol, \<open>crates/pal-protocol/src/lib.rs\<close>, over the
  messages of \<open>proto/palcompanion/v2/common.proto\<close> and \<open>local.proto\<close>.

  A message type generated from the proto files is a record with the fields the code uses; an
  enumeration is a datatype with its wire numbers, and a field of enumeration type is the raw
  number.  Payloads of which only the trace identifier is read carry just that.  The bit pattern of
  a float in an error value is represented by the float itself.
\<close>

section \<open>Enumerations on the wire\<close>

datatype WireRotationMode = WRotationUnspecified | WNorthUp | WHeadingUp

fun WireRotationMode_i32 :: "WireRotationMode \<Rightarrow> i32" where
  "WireRotationMode_i32 WRotationUnspecified = 0"
| "WireRotationMode_i32 WNorthUp = 1"
| "WireRotationMode_i32 WHeadingUp = 2"

datatype WireInputMode =
    WInputUnspecified | WLocked | WTemporaryInteractive | WPinnedInteractive | WLayoutEdit

fun WireInputMode_i32 :: "WireInputMode \<Rightarrow> i32" where
  "WireInputMode_i32 WInputUnspecified = 0"
| "WireInputMode_i32 WLocked = 1"
| "WireInputMode_i32 WTemporaryInteractive = 2"
| "WireInputMode_i32 WPinnedInteractive = 3"
| "WireInputMode_i32 WLayoutEdit = 4"

datatype WireDisplayMode = WDisplayUnspecified | WMiniMap | WExpandedMap

fun WireDisplayMode_i32 :: "WireDisplayMode \<Rightarrow> i32" where
  "WireDisplayMode_i32 WDisplayUnspecified = 0"
| "WireDisplayMode_i32 WMiniMap = 1"
| "WireDisplayMode_i32 WExpandedMap = 2"

datatype WireFpsProfile = WFpsUnspecified | WAuto | WThirty | WSixty

fun WireFpsProfile_i32 :: "WireFpsProfile \<Rightarrow> i32" where
  "WireFpsProfile_i32 WFpsUnspecified = 0"
| "WireFpsProfile_i32 WAuto = 1"
| "WireFpsProfile_i32 WThirty = 2"
| "WireFpsProfile_i32 WSixty = 3"

datatype WireFreshness = WFreshnessUnspecified | WLive | WDelayed | WStale | WOffline

fun WireFreshness_i32 :: "WireFreshness \<Rightarrow> i32" where
  "WireFreshness_i32 WFreshnessUnspecified = 0"
| "WireFreshness_i32 WLive = 1"
| "WireFreshness_i32 WDelayed = 2"
| "WireFreshness_i32 WStale = 3"
| "WireFreshness_i32 WOffline = 4"

datatype OverlayCommandKind =
    CmdUnspecified | CmdStart | CmdStop | CmdRestart | CmdShow | CmdHide | CmdEnterInteractive
  | CmdExitInteractive | CmdOpenExpanded | CmdCloseExpanded | CmdZoomIn | CmdZoomOut
  | CmdToggleRotation | CmdLock | CmdToggleVisibility | CmdToggleFastTravel | CmdToggleBoss
  | CmdToggleWanted | CmdToggleDungeon | CmdToggleTower | CmdToggleEgg | CmdToggleResources
  | CmdToggleSalvage

definition all_command_kinds :: "OverlayCommandKind list" where
  "all_command_kinds =
     [CmdUnspecified, CmdStart, CmdStop, CmdRestart, CmdShow, CmdHide, CmdEnterInteractive,
      CmdExitInteractive, CmdOpenExpanded, CmdCloseExpanded, CmdZoomIn, CmdZoomOut,
      CmdToggleRotation, CmdLock, CmdToggleVisibility, CmdToggleFastTravel, CmdToggleBoss,
      CmdToggleWanted, CmdToggleDungeon, CmdToggleTower, CmdToggleEgg, CmdToggleResources,
      CmdToggleSalvage]"

fun OverlayCommandKind_i32 :: "OverlayCommandKind \<Rightarrow> i32" where
  "OverlayCommandKind_i32 CmdUnspecified = 0"
| "OverlayCommandKind_i32 CmdStart = 1"
| "OverlayCommandKind_i32 CmdStop = 2"
| "OverlayCommandKind_i32 CmdRestart = 3"
| "OverlayCommandKind_i32 CmdShow = 4"
| "OverlayCommandKind_i32 CmdHide = 5"
| "OverlayCommandKind_i32 CmdEnterInteractive = 6"
| "OverlayCommandKind_i32 CmdExitInteractive = 7"
| "OverlayCommandKind_i32 CmdOpenExpanded = 8"
| "OverlayCommandKind_i32 CmdCloseExpanded = 9"
| "OverlayCommandKind_i32 CmdZoomIn = 10"
| "OverlayCommandKind_i32 CmdZoomOut = 11"
| "OverlayCommandKind_i32 CmdToggleRotation = 12"
| "OverlayCommandKind_i32 CmdLock = 13"
| "OverlayCommandKind_i32 CmdToggleVisibility = 14"
| "OverlayCommandKind_i32 CmdToggleFastTravel = 15"
| "OverlayCommandKind_i32 CmdToggleBoss = 16"
| "OverlayCommandKind_i32 CmdToggleWanted = 17"
| "OverlayCommandKind_i32 CmdToggleDungeon = 18"
| "OverlayCommandKind_i32 CmdToggleTower = 19"
| "OverlayCommandKind_i32 CmdToggleEgg = 20"
| "OverlayCommandKind_i32 CmdToggleResources = 21"
| "OverlayCommandKind_i32 CmdToggleSalvage = 22"

definition OverlayCommandKind_try_from :: "i32 \<Rightarrow> OverlayCommandKind option" where
  "OverlayCommandKind_try_from = enum_try_from OverlayCommandKind_i32 all_command_kinds"

section \<open>Messages\<close>

record WirePoiFilters =
  wpf_fast_travel :: bool
  wpf_boss :: bool
  wpf_dungeon :: bool
  wpf_wanted :: bool
  wpf_enabled_layer_ids :: "string list"
  wpf_selected_pal_ids :: "string list"
  wpf_night_only :: bool

record WireHotkeyModifiers =
  whm_control :: bool
  whm_alt :: bool
  whm_shift :: bool
  whm_windows :: bool

record WireHotkeyChord =
  whc_modifiers :: "WireHotkeyModifiers option"
  whc_virtual_key :: u32

record WireHotkeyBindings =
  whb_overlay_visibility :: "WireHotkeyChord option"
  whb_rotation_toggle :: "WireHotkeyChord option"
  whb_temporary_interaction :: "WireHotkeyChord option"
  whb_interaction_lock :: "WireHotkeyChord option"

record WireOverlaySettings =
  wos_enabled :: bool
  wos_auto_show :: bool
  wos_rotation_mode :: i32
  wos_input_mode :: i32
  wos_display_mode :: i32
  wos_opacity :: fl
  wos_diameter_px :: u32
  wos_zoom :: fl
  wos_normalized_x :: fl
  wos_normalized_y :: fl
  wos_fps_profile :: i32
  wos_poi_filters :: "WirePoiFilters option"
  wos_hotkey_bindings :: "WireHotkeyBindings option"

record WireWindowSnapshot =
  wws_process_id :: u32
  wws_client_left :: i32
  wws_client_top :: i32
  wws_client_width :: u32
  wws_client_height :: u32
  wws_dpi :: u32
  wws_visible :: bool
  wws_active :: bool
  wws_minimized :: bool

record PositionData =
  pd_world_alias :: string
  pd_subject_id :: bytes
  pd_source_boot_id :: bytes
  pd_source_connection_generation :: u64
  pd_sequence :: u64
  pd_x :: fl
  pd_y :: fl
  pd_z :: fl
  pd_heading_degrees :: "fl option"
  pd_age_at_receive_upper_bound_ms :: u64
  pd_received_at_monotonic_ms :: u64

record ClientHello =
  ch_role :: i32
  ch_process_id :: u32
  ch_minimum_protocol_version :: u32
  ch_maximum_protocol_version :: u32

record SettingsPatch =
  sp_trace_id :: bytes
  sp_expected_settings_version :: u64
  sp_candidate :: "WireOverlaySettings option"
  sp_changed_fields :: "i32 list"

record SettingsSnapshot =
  ssn_trace_id :: bytes
  ssn_settings_version :: u64
  ssn_settings :: "WireOverlaySettings option"

record HotkeyConflict =
  hcf_action :: i32
  hcf_conflicting_action :: i32
  hcf_chord :: "WireHotkeyChord option"

record SettingsAck =
  sa_trace_id :: bytes
  sa_status :: i32
  sa_applied_version :: u64
  sa_effective_settings :: "WireOverlaySettings option"
  sa_hotkey_conflicts :: "HotkeyConflict list"

record OverlayCommand =
  oc_trace_id :: bytes
  oc_command :: i32
  oc_expected_settings_version :: u64

record OverlayCommandResult =
  ocr_trace_id :: bytes
  ocr_status :: i32
  ocr_visible :: bool
  ocr_input_mode :: i32
  ocr_display_mode :: i32
  ocr_settings_version :: u64
  ocr_error_code :: i32
  ocr_effective_settings :: "WireOverlaySettings option"

record ProtocolError =
  pe_code :: i32
  pe_field :: string
  pe_offending_value :: string

datatype Payload =
    PClientHello ClientHello
  | PSettingsPatch SettingsPatch
  | PSettingsAck SettingsAck
  | PCoreStatus
  | PPosition bytes
  | PRenderSnapshot bytes
  | POverlayCommand OverlayCommand
  | POverlayCommandResult OverlayCommandResult
  | PRenderApplied bytes
  | PError ProtocolError
  | PProductRequest bytes
  | PProductResponse bytes
  | PSettingsQuery bytes
  | PSettingsSnapshot SettingsSnapshot
  | PMapViewIntent bytes
  | PMapViewUpdate bytes

record LocalEnvelope =
  le_protocol_version :: u32
  le_connection_id :: bytes
  le_message_id :: u64
  le_reply_to_message_id :: "u64 option"
  le_payload :: "Payload option"

section \<open>Errors\<close>

datatype ConversionValue =
    CVMissing | CVEmpty | CVEnum i32 | CVU32 u32 | CVF32Bits fl | CVF64Bits fl

datatype DomainValidationReason =
    DVSettings SettingsValidationError | DVWindow WindowValidationError
  | DVPosition PositionValidationError

datatype DomainConversionError =
    MissingMessage string
  | InvalidEnum string i32
  | OutOfRangeU32 string u32
  | InvalidDomainValue string ConversionValue DomainValidationReason

fun DomainConversionError_field :: "DomainConversionError \<Rightarrow> string" where
  "DomainConversionError_field (MissingMessage field) = field"
| "DomainConversionError_field (InvalidEnum field _) = field"
| "DomainConversionError_field (OutOfRangeU32 field _) = field"
| "DomainConversionError_field (InvalidDomainValue field _ _) = field"

fun DomainConversionError_value :: "DomainConversionError \<Rightarrow> ConversionValue" where
  "DomainConversionError_value (MissingMessage _) = CVMissing"
| "DomainConversionError_value (InvalidEnum _ v) = CVEnum v"
| "DomainConversionError_value (OutOfRangeU32 _ v) = CVU32 v"
| "DomainConversionError_value (InvalidDomainValue _ v _) = v"

datatype LocalValidationError = MissingPayload | InvalidLength string nat nat

fun LocalValidationError_field :: "LocalValidationError \<Rightarrow> string" where
  "LocalValidationError_field MissingPayload = ''payload''"
| "LocalValidationError_field (InvalidLength field _ _) = field"

definition validate_len :: "string \<Rightarrow> bytes \<Rightarrow> nat \<Rightarrow> LocalValidationError + unit" where
  "validate_len field value expected =
     (if length value = expected then Inr ()
      else Inl (InvalidLength field expected (length value)))"

fun payload_trace :: "Payload \<Rightarrow> (string \<times> bytes) option" where
  "payload_trace (PSettingsPatch v) = Some (''settings_patch.trace_id'', sp_trace_id v)"
| "payload_trace (PSettingsAck v) = Some (''settings_ack.trace_id'', sa_trace_id v)"
| "payload_trace (PPosition t) = Some (''position.trace_id'', t)"
| "payload_trace (PRenderSnapshot t) = Some (''render_snapshot.trace_id'', t)"
| "payload_trace (POverlayCommand v) = Some (''overlay_command.trace_id'', oc_trace_id v)"
| "payload_trace (POverlayCommandResult v) = Some (''overlay_command_result.trace_id'', ocr_trace_id v)"
| "payload_trace (PRenderApplied t) = Some (''render_applied.trace_id'', t)"
| "payload_trace (PProductRequest t) = Some (''product_request.trace_id'', t)"
| "payload_trace (PProductResponse t) = Some (''product_response.trace_id'', t)"
| "payload_trace (PSettingsQuery t) = Some (''settings_query.trace_id'', t)"
| "payload_trace (PSettingsSnapshot v) = Some (''settings_snapshot.trace_id'', ssn_trace_id v)"
| "payload_trace (PMapViewIntent t) = Some (''map_view_intent.trace_id'', t)"
| "payload_trace (PMapViewUpdate t) = Some (''map_view_update.trace_id'', t)"
| "payload_trace (PClientHello _) = None"
| "payload_trace PCoreStatus = None"
| "payload_trace (PError _) = None"

definition validate_local_envelope :: "LocalEnvelope \<Rightarrow> LocalValidationError + unit" where
  "validate_local_envelope e =
     and_then (validate_len ''connection_id'' (le_connection_id e) 16) (\<lambda>_.
       case le_payload e of
         None \<Rightarrow> Inl MissingPayload
       | Some payload \<Rightarrow>
           (case payload_trace payload of
              Some (field, value) \<Rightarrow> validate_len field value 16
            | None \<Rightarrow> Inr ()))"

section \<open>Enumeration conversions\<close>

fun encode_rotation_mode :: "RotationMode \<Rightarrow> WireRotationMode" where
  "encode_rotation_mode NorthUp = WNorthUp"
| "encode_rotation_mode HeadingUp = WHeadingUp"

fun decode_rotation_mode :: "WireRotationMode \<Rightarrow> DomainConversionError + RotationMode" where
  "decode_rotation_mode WRotationUnspecified = Inl (InvalidEnum ''rotation_mode'' 0)"
| "decode_rotation_mode WNorthUp = Inr NorthUp"
| "decode_rotation_mode WHeadingUp = Inr HeadingUp"

fun encode_input_mode :: "InputMode \<Rightarrow> WireInputMode" where
  "encode_input_mode Locked = WLocked"
| "encode_input_mode TemporaryInteractive = WTemporaryInteractive"
| "encode_input_mode PinnedInteractive = WPinnedInteractive"
| "encode_input_mode LayoutEdit = WLayoutEdit"

fun decode_input_mode :: "WireInputMode \<Rightarrow> DomainConversionError + InputMode" where
  "decode_input_mode WInputUnspecified = Inl (InvalidEnum ''input_mode'' 0)"
| "decode_input_mode WLocked = Inr Locked"
| "decode_input_mode WTemporaryInteractive = Inr TemporaryInteractive"
| "decode_input_mode WPinnedInteractive = Inr PinnedInteractive"
| "decode_input_mode WLayoutEdit = Inr LayoutEdit"

fun encode_display_mode :: "DisplayMode \<Rightarrow> WireDisplayMode" where
  "encode_display_mode MiniMap = WMiniMap"
| "encode_display_mode ExpandedMap = WExpandedMap"

fun decode_display_mode :: "WireDisplayMode \<Rightarrow> DomainConversionError + DisplayMode" where
  "decode_display_mode WDisplayUnspecified = Inl (InvalidEnum ''display_mode'' 0)"
| "decode_display_mode WMiniMap = Inr MiniMap"
| "decode_display_mode WExpandedMap = Inr ExpandedMap"

fun encode_fps_profile :: "FpsProfile \<Rightarrow> WireFpsProfile" where
  "encode_fps_profile Auto = WAuto"
| "encode_fps_profile Thirty = WThirty"
| "encode_fps_profile Sixty = WSixty"

fun decode_fps_profile :: "WireFpsProfile \<Rightarrow> DomainConversionError + FpsProfile" where
  "decode_fps_profile WFpsUnspecified = Inl (InvalidEnum ''fps_profile'' 0)"
| "decode_fps_profile WAuto = Inr Auto"
| "decode_fps_profile WThirty = Inr Thirty"
| "decode_fps_profile WSixty = Inr Sixty"

fun encode_freshness :: "Freshness \<Rightarrow> WireFreshness" where
  "encode_freshness Live = WLive"
| "encode_freshness Delayed = WDelayed"
| "encode_freshness Stale = WStale"
| "encode_freshness Offline = WOffline"

fun decode_freshness :: "WireFreshness \<Rightarrow> DomainConversionError + Freshness" where
  "decode_freshness WFreshnessUnspecified = Inl (InvalidEnum ''freshness'' 0)"
| "decode_freshness WLive = Inr Live"
| "decode_freshness WDelayed = Inr Delayed"
| "decode_freshness WStale = Inr Stale"
| "decode_freshness WOffline = Inr Offline"

fun encode_overlay_action :: "OverlayAction \<Rightarrow> OverlayCommandKind" where
  "encode_overlay_action Show = CmdShow"
| "encode_overlay_action Hide = CmdHide"
| "encode_overlay_action ToggleVisibility = CmdToggleVisibility"
| "encode_overlay_action EnterInteractive = CmdEnterInteractive"
| "encode_overlay_action ExitInteractive = CmdExitInteractive"
| "encode_overlay_action OpenExpanded = CmdOpenExpanded"
| "encode_overlay_action CloseExpanded = CmdCloseExpanded"
| "encode_overlay_action ZoomIn = CmdZoomIn"
| "encode_overlay_action ZoomOut = CmdZoomOut"
| "encode_overlay_action ToggleRotation = CmdToggleRotation"
| "encode_overlay_action Lock = CmdLock"
| "encode_overlay_action ToggleFastTravel = CmdToggleFastTravel"
| "encode_overlay_action ToggleBoss = CmdToggleBoss"
| "encode_overlay_action ToggleWanted = CmdToggleWanted"
| "encode_overlay_action ToggleDungeon = CmdToggleDungeon"
| "encode_overlay_action ToggleTower = CmdToggleTower"
| "encode_overlay_action ToggleEgg = CmdToggleEgg"
| "encode_overlay_action ToggleResources = CmdToggleResources"
| "encode_overlay_action ToggleSalvage = CmdToggleSalvage"

fun decode_overlay_action :: "OverlayCommandKind \<Rightarrow> DomainConversionError + OverlayAction" where
  "decode_overlay_action CmdShow = Inr Show"
| "decode_overlay_action CmdHide = Inr Hide"
| "decode_overlay_action CmdToggleVisibility = Inr ToggleVisibility"
| "decode_overlay_action CmdEnterInteractive = Inr EnterInteractive"
| "decode_overlay_action CmdExitInteractive = Inr ExitInteractive"
| "decode_overlay_action CmdOpenExpanded = Inr OpenExpanded"
| "decode_overlay_action CmdCloseExpanded = Inr CloseExpanded"
| "decode_overlay_action CmdZoomIn = Inr ZoomIn"
| "decode_overlay_action CmdZoomOut = Inr ZoomOut"
| "decode_overlay_action CmdToggleRotation = Inr ToggleRotation"
| "decode_overlay_action CmdLock = Inr Lock"
| "decode_overlay_action CmdToggleFastTravel = Inr ToggleFastTravel"
| "decode_overlay_action CmdToggleBoss = Inr ToggleBoss"
| "decode_overlay_action CmdToggleWanted = Inr ToggleWanted"
| "decode_overlay_action CmdToggleDungeon = Inr ToggleDungeon"
| "decode_overlay_action CmdToggleTower = Inr ToggleTower"
| "decode_overlay_action CmdToggleEgg = Inr ToggleEgg"
| "decode_overlay_action CmdToggleResources = Inr ToggleResources"
| "decode_overlay_action CmdToggleSalvage = Inr ToggleSalvage"
| "decode_overlay_action k =
     Inl (InvalidEnum ''overlay_command.command'' (OverlayCommandKind_i32 k))"

section \<open>Settings\<close>

definition hotkey_value :: "HotkeyChord option \<Rightarrow> ConversionValue" where
  "hotkey_value v = (case v of None \<Rightarrow> CVMissing | Some c \<Rightarrow> CVU32 (ucast (hc_virtual_key c)))"

definition settings_value :: "OverlaySettings \<Rightarrow> string \<Rightarrow> ConversionValue" where
  "settings_value s field =
     (if field = ''opacity'' then CVF32Bits (opacity s)
      else if field = ''diameter_px'' then CVU32 (diameter_px s)
      else if field = ''zoom'' then CVF32Bits (zoom s)
      else if field = ''normalized_x'' then CVF32Bits (normalized_x s)
      else if field = ''normalized_y'' then CVF32Bits (normalized_y s)
      else if field = ''hotkey_bindings.overlay_visibility''
      then hotkey_value (overlay_visibility (hotkey_bindings s))
      else if field = ''hotkey_bindings.rotation_toggle''
      then hotkey_value (rotation_toggle (hotkey_bindings s))
      else if field = ''hotkey_bindings.temporary_interaction''
      then hotkey_value (temporary_interaction (hotkey_bindings s))
      else if field = ''hotkey_bindings.interaction_lock''
      then hotkey_value (interaction_lock (hotkey_bindings s))
      else CVMissing)"

text \<open>The closure both directions apply to a failed validation.\<close>

definition settings_error :: "OverlaySettings \<Rightarrow> SettingsValidationError \<Rightarrow> DomainConversionError" where
  "settings_error s reason =
     (let field = SettingsValidationError_field reason
      in InvalidDomainValue field (settings_value s field) (DVSettings reason))"

definition wire_hotkey :: "HotkeyChord \<Rightarrow> WireHotkeyChord" where
  "wire_hotkey c =
     \<lparr>whc_modifiers = Some \<lparr>whm_control = hm_control (hc_modifiers c), whm_alt = hm_alt (hc_modifiers c),
        whm_shift = hm_shift (hc_modifiers c), whm_windows = hm_windows (hc_modifiers c)\<rparr>,
      whc_virtual_key = ucast (hc_virtual_key c)\<rparr>"

definition encode_overlay_settings :: "OverlaySettings \<Rightarrow> DomainConversionError + WireOverlaySettings" where
  "encode_overlay_settings s =
     and_then (map_err (settings_error s) (OverlaySettings_validate s)) (\<lambda>_.
       Inr \<lparr>wos_enabled = enabled s, wos_auto_show = auto_show s,
         wos_rotation_mode = WireRotationMode_i32 (encode_rotation_mode (rotation_mode s)),
         wos_input_mode = WireInputMode_i32 (encode_input_mode (input_mode s)),
         wos_display_mode = WireDisplayMode_i32 (encode_display_mode (display_mode s)),
         wos_opacity = opacity s, wos_diameter_px = diameter_px s, wos_zoom = zoom s,
         wos_normalized_x = normalized_x s, wos_normalized_y = normalized_y s,
         wos_fps_profile = WireFpsProfile_i32 (encode_fps_profile (fps_profile s)),
         wos_poi_filters = Some
           \<lparr>wpf_fast_travel = fast_travel (poi_filters s), wpf_boss = boss (poi_filters s),
            wpf_dungeon = dungeon (poi_filters s), wpf_wanted = wanted (poi_filters s),
            wpf_enabled_layer_ids = enabled_layer_ids (poi_filters s),
            wpf_selected_pal_ids = selected_pal_ids (poi_filters s),
            wpf_night_only = night_only (poi_filters s)\<rparr>,
         wos_hotkey_bindings = Some
           \<lparr>whb_overlay_visibility = map_option wire_hotkey (overlay_visibility (hotkey_bindings s)),
            whb_rotation_toggle = map_option wire_hotkey (rotation_toggle (hotkey_bindings s)),
            whb_temporary_interaction = map_option wire_hotkey (temporary_interaction (hotkey_bindings s)),
            whb_interaction_lock = map_option wire_hotkey (interaction_lock (hotkey_bindings s))\<rparr>\<rparr>)"

definition checked_enum ::
  "(i32 \<Rightarrow> 'w option) \<Rightarrow> string \<Rightarrow> i32 \<Rightarrow> ('w \<Rightarrow> DomainConversionError + 'd) \<Rightarrow> DomainConversionError + 'd" where
  "checked_enum try_from field raw decode =
     (case try_from raw of None \<Rightarrow> Inl (InvalidEnum field raw) | Some wire \<Rightarrow> decode wire)"

definition hotkey_modifiers_field :: "string \<Rightarrow> string" where
  "hotkey_modifiers_field field =
     (if field \<in> set [''hotkey_bindings.overlay_visibility'', ''hotkey_bindings.rotation_toggle'',
           ''hotkey_bindings.temporary_interaction'', ''hotkey_bindings.interaction_lock'']
      then field @ ''.modifiers'' else ''hotkey_bindings.modifiers'')"

definition hotkey_key_field :: "string \<Rightarrow> string" where
  "hotkey_key_field field =
     (if field \<in> set [''hotkey_bindings.overlay_visibility'', ''hotkey_bindings.rotation_toggle'',
           ''hotkey_bindings.temporary_interaction'', ''hotkey_bindings.interaction_lock'']
      then field @ ''.virtual_key'' else ''hotkey_bindings.virtual_key'')"

definition checked_hotkey ::
  "string \<Rightarrow> WireHotkeyChord option \<Rightarrow> DomainConversionError + HotkeyChord option" where
  "checked_hotkey field value =
     (case value of
        None \<Rightarrow> Inr None
      | Some v \<Rightarrow>
          (case whc_modifiers v of
             None \<Rightarrow> Inl (MissingMessage (hotkey_modifiers_field field))
           | Some m \<Rightarrow>
               if 0xFFFF < whc_virtual_key v
               then Inl (OutOfRangeU32 (hotkey_key_field field) (whc_virtual_key v))
               else Inr (Some \<lparr>hc_modifiers =
                     \<lparr>hm_control = whm_control m, hm_alt = whm_alt m, hm_shift = whm_shift m,
                      hm_windows = whm_windows m\<rparr>,
                   hc_virtual_key = ucast (whc_virtual_key v)\<rparr>)))"

definition RotationMode_try_from :: "i32 \<Rightarrow> WireRotationMode option" where
  "RotationMode_try_from =
     enum_try_from WireRotationMode_i32 [WRotationUnspecified, WNorthUp, WHeadingUp]"

definition InputMode_try_from :: "i32 \<Rightarrow> WireInputMode option" where
  "InputMode_try_from = enum_try_from WireInputMode_i32
     [WInputUnspecified, WLocked, WTemporaryInteractive, WPinnedInteractive, WLayoutEdit]"

definition DisplayMode_try_from :: "i32 \<Rightarrow> WireDisplayMode option" where
  "DisplayMode_try_from =
     enum_try_from WireDisplayMode_i32 [WDisplayUnspecified, WMiniMap, WExpandedMap]"

definition FpsProfile_try_from :: "i32 \<Rightarrow> WireFpsProfile option" where
  "FpsProfile_try_from =
     enum_try_from WireFpsProfile_i32 [WFpsUnspecified, WAuto, WThirty, WSixty]"

definition decode_overlay_settings :: "WireOverlaySettings \<Rightarrow> DomainConversionError + OverlaySettings" where
  "decode_overlay_settings v =
     (case wos_poi_filters v of
        None \<Rightarrow> Inl (MissingMessage ''poi_filters'')
      | Some poi \<Rightarrow>
          (case wos_hotkey_bindings v of
             None \<Rightarrow> Inl (MissingMessage ''hotkey_bindings'')
           | Some keys \<Rightarrow>
               and_then (checked_enum RotationMode_try_from ''rotation_mode'' (wos_rotation_mode v) decode_rotation_mode) (\<lambda>rotation.
               and_then (checked_enum InputMode_try_from ''input_mode'' (wos_input_mode v) decode_input_mode) (\<lambda>input.
               and_then (checked_enum DisplayMode_try_from ''display_mode'' (wos_display_mode v) decode_display_mode) (\<lambda>display.
               and_then (checked_enum FpsProfile_try_from ''fps_profile'' (wos_fps_profile v) decode_fps_profile) (\<lambda>fps.
               and_then (checked_hotkey ''hotkey_bindings.overlay_visibility'' (whb_overlay_visibility keys)) (\<lambda>k1.
               and_then (checked_hotkey ''hotkey_bindings.rotation_toggle'' (whb_rotation_toggle keys)) (\<lambda>k2.
               and_then (checked_hotkey ''hotkey_bindings.temporary_interaction'' (whb_temporary_interaction keys)) (\<lambda>k3.
               and_then (checked_hotkey ''hotkey_bindings.interaction_lock'' (whb_interaction_lock keys)) (\<lambda>k4.
                 let settings =
                   \<lparr>enabled = wos_enabled v, auto_show = wos_auto_show v, rotation_mode = rotation,
                    input_mode = input, display_mode = display, opacity = wos_opacity v,
                    diameter_px = wos_diameter_px v, zoom = wos_zoom v,
                    normalized_x = wos_normalized_x v, normalized_y = wos_normalized_y v,
                    fps_profile = fps,
                    poi_filters =
                      \<lparr>fast_travel = wpf_fast_travel poi, boss = wpf_boss poi, wanted = wpf_wanted poi,
                       dungeon = wpf_dungeon poi, enabled_layer_ids = wpf_enabled_layer_ids poi,
                       selected_pal_ids = wpf_selected_pal_ids poi, night_only = wpf_night_only poi\<rparr>,
                    hotkey_bindings =
                      \<lparr>overlay_visibility = k1, rotation_toggle = k2, temporary_interaction = k3,
                       interaction_lock = k4\<rparr>\<rparr>
                 in and_then (map_err (settings_error settings) (OverlaySettings_validate settings))
                      (\<lambda>_. Inr settings)))))))))))"

section \<open>Windows and positions\<close>

definition encode_window_snapshot :: "WindowSnapshot \<Rightarrow> WireWindowSnapshot" where
  "encode_window_snapshot w =
     \<lparr>wws_process_id = ws_process_id w, wws_client_left = ws_client_left w,
      wws_client_top = ws_client_top w, wws_client_width = ws_client_width w,
      wws_client_height = ws_client_height w, wws_dpi = ws_dpi w, wws_visible = ws_visible w,
      wws_active = ws_active w, wws_minimized = ws_minimized w\<rparr>"

definition decode_window_snapshot :: "WireWindowSnapshot \<Rightarrow> DomainConversionError + WindowSnapshot" where
  "decode_window_snapshot v =
     map_err (\<lambda>reason. InvalidDomainValue (WindowValidationError_field reason)
         (case reason of
            VisibleWidthZero \<Rightarrow> CVU32 (wws_client_width v)
          | VisibleHeightZero \<Rightarrow> CVU32 (wws_client_height v)
          | VisibleDpiZero \<Rightarrow> CVU32 (wws_dpi v))
         (DVWindow reason))
       (WindowSnapshot_new (wws_process_id v) (wws_client_left v) (wws_client_top v)
          (wws_client_width v) (wws_client_height v) (wws_dpi v) (wws_visible v) (wws_active v)
          (wws_minimized v))"

definition encode_position_sample :: "PositionSample \<Rightarrow> PositionData" where
  "encode_position_sample p =
     \<lparr>pd_world_alias = ps_world_alias p, pd_subject_id = ps_subject_id p,
      pd_source_boot_id = ps_agent_boot_id p, pd_source_connection_generation = ps_generation p,
      pd_sequence = ps_sequence p, pd_x = ps_x p, pd_y = ps_y p, pd_z = ps_z p,
      pd_heading_degrees = ps_heading p,
      pd_age_at_receive_upper_bound_ms = age_at_receive_upper_bound_ms (ps_clock p),
      pd_received_at_monotonic_ms = received_at_monotonic_ms (ps_clock p)\<rparr>"

fun position_wire_field :: "PositionValidationError \<Rightarrow> string" where
  "position_wire_field EmptyAgentBootId = ''source_boot_id''"
| "position_wire_field reason = PositionValidationError_field reason"

text \<open>A heading is rejected only when there is one, so the \<open>expect\<close> on it never fails; \<open>CVMissing\<close> stands there.\<close>

fun position_value :: "PositionData \<Rightarrow> PositionValidationError \<Rightarrow> ConversionValue" where
  "position_value v NonFiniteX = CVF64Bits (pd_x v)"
| "position_value v NonFiniteY = CVF64Bits (pd_y v)"
| "position_value v NonFiniteZ = CVF64Bits (pd_z v)"
| "position_value v NonFiniteHeading =
     (case pd_heading_degrees v of Some h \<Rightarrow> CVF32Bits h | None \<Rightarrow> CVMissing)"
| "position_value v _ = CVEmpty"

definition decode_position_sample :: "PositionData \<Rightarrow> DomainConversionError + PositionSample" where
  "decode_position_sample v =
     map_err (\<lambda>reason. InvalidDomainValue (position_wire_field reason) (position_value v reason)
         (DVPosition reason))
       (PositionSample_new (pd_world_alias v) (pd_subject_id v) (pd_source_boot_id v)
          (pd_source_connection_generation v) (pd_sequence v) (pd_x v) (pd_y v) (pd_z v)
          (pd_heading_degrees v)
          (received_with_age (pd_age_at_receive_upper_bound_ms v) (pd_received_at_monotonic_ms v)))"

section \<open>Each conversion undoes the other\<close>

lemma checked_enum_iff:
  "checked_enum RotationMode_try_from f1 raw decode_rotation_mode = Inr r \<longleftrightarrow>
     raw = WireRotationMode_i32 (encode_rotation_mode r)"
  "checked_enum InputMode_try_from f2 raw decode_input_mode = Inr i \<longleftrightarrow>
     raw = WireInputMode_i32 (encode_input_mode i)"
  "checked_enum DisplayMode_try_from f3 raw decode_display_mode = Inr d \<longleftrightarrow>
     raw = WireDisplayMode_i32 (encode_display_mode d)"
  "checked_enum FpsProfile_try_from f4 raw decode_fps_profile = Inr p \<longleftrightarrow>
     raw = WireFpsProfile_i32 (encode_fps_profile p)"
  by (cases r; cases i; cases d; cases p;
      auto simp: checked_enum_def RotationMode_try_from_def InputMode_try_from_def
        DisplayMode_try_from_def FpsProfile_try_from_def enum_try_from_def)+

lemma virtual_key_cast:
  "(ucast (ucast k :: u32) :: u16) = k" "\<not> 0xFFFF < (ucast k :: u32)"
  "\<not> 0xFFFF < v \<Longrightarrow> (ucast (ucast v :: u16) :: u32) = v" for k :: u16 and v :: u32
proof -
  have k: "unat k < 65536" using unat_less_pow [of k] by simp
  then have small: "take_bit 32 (unat k) = unat k" by (simp add: take_bit_nat_eq_self_iff)
  have "unat (ucast (ucast k :: u32) :: u16) = unat k"
    using k by (simp add: unsigned_ucast_eq unsigned_take_bit_eq small take_bit_nat_eq_self)
  then show "(ucast (ucast k :: u32) :: u16) = k" by (simp add: word_unat_eq_iff)
  show "\<not> 0xFFFF < (ucast k :: u32)"
    using k by (simp add: word_less_nat_alt unsigned_ucast_eq small)
  assume "\<not> 0xFFFF < v"
  then have v: "unat v < 65536" by (simp add: word_less_nat_alt)
  then have "take_bit 16 (unat v) = unat v" by (simp add: take_bit_nat_eq_self_iff)
  then have "unat (ucast (ucast v :: u16) :: u32) = unat v"
    using v by (simp add: unsigned_ucast_eq unsigned_take_bit_eq)
  then show "(ucast (ucast v :: u16) :: u32) = v" by (simp add: word_unat_eq_iff)
qed

lemma checked_hotkey_iff:
  "checked_hotkey field v = Inr k \<longleftrightarrow> v = map_option wire_hotkey k"
  by (cases v; cases k)
    (auto simp: checked_hotkey_def wire_hotkey_def virtual_key_cast split: option.splits if_splits)

lemma encode_overlay_settings_Inr:
  "encode_overlay_settings s = Inr v \<longleftrightarrow> settings_valid s \<and> v =
     \<lparr>wos_enabled = enabled s, wos_auto_show = auto_show s,
         wos_rotation_mode = WireRotationMode_i32 (encode_rotation_mode (rotation_mode s)),
         wos_input_mode = WireInputMode_i32 (encode_input_mode (input_mode s)),
         wos_display_mode = WireDisplayMode_i32 (encode_display_mode (display_mode s)),
         wos_opacity = opacity s, wos_diameter_px = diameter_px s, wos_zoom = zoom s,
         wos_normalized_x = normalized_x s, wos_normalized_y = normalized_y s,
         wos_fps_profile = WireFpsProfile_i32 (encode_fps_profile (fps_profile s)),
         wos_poi_filters = Some
           \<lparr>wpf_fast_travel = fast_travel (poi_filters s), wpf_boss = boss (poi_filters s),
            wpf_dungeon = dungeon (poi_filters s), wpf_wanted = wanted (poi_filters s),
            wpf_enabled_layer_ids = enabled_layer_ids (poi_filters s),
            wpf_selected_pal_ids = selected_pal_ids (poi_filters s),
            wpf_night_only = night_only (poi_filters s)\<rparr>,
         wos_hotkey_bindings = Some
           \<lparr>whb_overlay_visibility = map_option wire_hotkey (overlay_visibility (hotkey_bindings s)),
            whb_rotation_toggle = map_option wire_hotkey (rotation_toggle (hotkey_bindings s)),
            whb_temporary_interaction = map_option wire_hotkey (temporary_interaction (hotkey_bindings s)),
            whb_interaction_lock = map_option wire_hotkey (interaction_lock (hotkey_bindings s))\<rparr>\<rparr>"
  by (cases "OverlaySettings_validate s") (auto simp: encode_overlay_settings_def)

lemma decode_overlay_settings_iff:
  "decode_overlay_settings v = Inr s \<longleftrightarrow> encode_overlay_settings s = Inr v"
proof
  assume "encode_overlay_settings s = Inr v"
  note enc = this [unfolded encode_overlay_settings_Inr]
  have enums: "checked_enum RotationMode_try_from f (WireRotationMode_i32 (encode_rotation_mode r)) decode_rotation_mode = Inr r"
    "checked_enum InputMode_try_from f (WireInputMode_i32 (encode_input_mode i)) decode_input_mode = Inr i"
    "checked_enum DisplayMode_try_from f (WireDisplayMode_i32 (encode_display_mode d)) decode_display_mode = Inr d"
    "checked_enum FpsProfile_try_from f (WireFpsProfile_i32 (encode_fps_profile p)) decode_fps_profile = Inr p"
    for f r i d p by (simp_all add: checked_enum_iff)
  have keys: "checked_hotkey f (map_option wire_hotkey k) = Inr k" for f k
    by (simp add: checked_hotkey_iff)
  have parts: "\<lparr>fast_travel = fast_travel p, boss = boss p, wanted = wanted p, dungeon = dungeon p,
      enabled_layer_ids = enabled_layer_ids p, selected_pal_ids = selected_pal_ids p,
      night_only = night_only p\<rparr> = p"
    "\<lparr>overlay_visibility = overlay_visibility h, rotation_toggle = rotation_toggle h,
      temporary_interaction = temporary_interaction h, interaction_lock = interaction_lock h\<rparr> = h"
    "\<lparr>enabled = enabled s, auto_show = auto_show s, rotation_mode = rotation_mode s,
      input_mode = input_mode s, display_mode = display_mode s, opacity = opacity s,
      diameter_px = diameter_px s, zoom = zoom s, normalized_x = normalized_x s,
      normalized_y = normalized_y s, fps_profile = fps_profile s, poi_filters = poi_filters s,
      hotkey_bindings = hotkey_bindings s\<rparr> = s"
    for p :: PoiFilters and h :: HotkeyBindings
    by simp_all
  show "decode_overlay_settings v = Inr s"
    using enc by (simp add: decode_overlay_settings_def enums keys Let_def parts)
next
  assume "decode_overlay_settings v = Inr s"
  then show "encode_overlay_settings s = Inr v"
    unfolding encode_overlay_settings_Inr
    by (auto simp: decode_overlay_settings_def checked_enum_iff checked_hotkey_iff Let_def
        and_then_eq_Inr split: option.splits)
qed

lemma decode_overlay_action_iff:
  "decode_overlay_action k = Inr a \<longleftrightarrow> k = encode_overlay_action a"
  by (cases k; cases a) simp_all

lemma decode_window_snapshot_iff:
  "decode_window_snapshot v = Inr w \<longleftrightarrow>
     v = encode_window_snapshot w \<and> WindowSnapshot_validate w = Inr ()"
  by (auto simp: decode_window_snapshot_def encode_window_snapshot_def WindowSnapshot_new_def
      WindowSnapshot_validate_def and_then_eq_Inr Let_def split: if_splits)

section \<open>Properties\<close>

text \<open>
  Settings, user actions and window snapshots survive the wire in both directions: a settings
  message decodes to settings exactly when the settings encode to that message (so only valid
  settings travel and no two messages mean the same), and likewise for actions and valid windows.
\<close>
lemma wire_conversions_inverse:
  "(decode_overlay_settings v = Inr s \<longleftrightarrow> encode_overlay_settings s = Inr v)
   \<and> (decode_overlay_action k = Inr a \<longleftrightarrow> k = encode_overlay_action a)
   \<and> (decode_window_snapshot u = Inr w \<longleftrightarrow> u = encode_window_snapshot w \<and> WindowSnapshot_validate w = Inr ())"
  by (simp add: decode_overlay_settings_iff decode_overlay_action_iff decode_window_snapshot_iff)

text \<open>
  C29: A position sample decodes from its encoding with every field unchanged, with one exception:
  a heading of exactly 360 degrees, which the constructor can produce, comes back as 0.
\<close>
theorem position_wire_roundtrip:
  assumes "PositionSample_new world subject boot generation sequence x y z heading clock = Inr p"
  shows "decode_position_sample (encode_position_sample p) =
     Inr (p\<lparr>ps_heading := map_option (\<lambda>h. if h = FFin 360 then FFin 0 else h) (ps_heading p)\<rparr>)"
proof -
  have fin: "fl_is_finite (ps_x p)" "fl_is_finite (ps_y p)" "fl_is_finite (ps_z p)"
    "ps_world_alias p \<noteq> []" "ps_subject_id p \<noteq> []" "ps_agent_boot_id p \<noteq> []"
    using assms by (auto simp: PositionSample_new_def split: if_splits option.splits)
  have clock: "received_with_age (age_at_receive_upper_bound_ms c) (received_at_monotonic_ms c) = c" for c
    by (simp add: received_with_age_def)
  show ?thesis
  proof (cases "ps_heading p")
    case None
    then show ?thesis
      using fin by (simp add: decode_position_sample_def encode_position_sample_def
          PositionSample_new_def clock)
  next
    case (Some h)
    obtain a where "heading = Some (FFin a)" "h = fl_rem_euclid f32_fmt (FFin a) (FFin 360)"
      using assms Some
      by (auto simp: PositionSample_new_def split: if_splits option.splits) (metis fl_is_finite.elims(2))
    then obtain q where q: "h = FFin q" "0 \<le> q" "q \<le> 360" using rem_euclid_360 [of a] by auto
    have "fl_rem_euclid f32_fmt (FFin q) (FFin 360) = (if q = 360 then FFin 0 else FFin q)"
      using heading_normalised [of q] q by (simp add: fl_rem_euclid_def rat_trunc_def)
    then show ?thesis
      using fin by (simp add: decode_position_sample_def encode_position_sample_def
          PositionSample_new_def clock Some q(1))
  qed
qed

definition sample_position :: PositionSample where
  "sample_position = \<lparr>ps_world_alias = ''world-a'', ps_subject_id = [1], ps_agent_boot_id = [2],
     ps_generation = 1, ps_sequence = 5, ps_x = FFin 1, ps_y = FFin 2, ps_z = FFin 3,
     ps_heading = Some (FFin 90),
     ps_clock = \<lparr>age_at_receive_upper_bound_ms = 7, received_at_monotonic_ms = 11\<rparr>\<rparr>"

theorem position_wire_roundtrip_witness:
  "decode_position_sample (encode_position_sample sample_position) = Inr sample_position"
proof -
  have "PositionSample_new ''world-a'' [1] [2] 1 5 (FFin 1) (FFin 2) (FFin 3) (Some (FFin 90))
      \<lparr>age_at_receive_upper_bound_ms = 7, received_at_monotonic_ms = 11\<rparr> = Inr sample_position"
    by (simp add: PositionSample_new_def heading_normalised sample_position_def)
  from position_wire_roundtrip [OF this] show ?thesis by (simp add: sample_position_def)
qed

end
