(* ===== verification/Core_Settings.thy ===== *)
theory Core_Settings
  imports Protocol_Convert
begin

text \<open>
  The versioned settings store of the core process, \<open>crates/pal-core-win/src/settings_store.rs\<close>:
  patches over a field mask, user actions and the forced lock, each under optimistic version checks.
\<close>

datatype OverlaySettingField =
    FieldUnspecified | FieldEnabled | FieldAutoShow | FieldRotationMode | FieldInputMode
  | FieldDisplayMode | FieldOpacity | FieldDiameterPx | FieldZoom | FieldNormalizedX
  | FieldNormalizedY | FieldFpsProfile | FieldPoiFilters | FieldHotkeyBindings

fun OverlaySettingField_i32 :: "OverlaySettingField \<Rightarrow> i32" where
  "OverlaySettingField_i32 FieldUnspecified = 0"
| "OverlaySettingField_i32 FieldEnabled = 1"
| "OverlaySettingField_i32 FieldAutoShow = 2"
| "OverlaySettingField_i32 FieldRotationMode = 3"
| "OverlaySettingField_i32 FieldInputMode = 4"
| "OverlaySettingField_i32 FieldDisplayMode = 5"
| "OverlaySettingField_i32 FieldOpacity = 6"
| "OverlaySettingField_i32 FieldDiameterPx = 7"
| "OverlaySettingField_i32 FieldZoom = 8"
| "OverlaySettingField_i32 FieldNormalizedX = 9"
| "OverlaySettingField_i32 FieldNormalizedY = 10"
| "OverlaySettingField_i32 FieldFpsProfile = 11"
| "OverlaySettingField_i32 FieldPoiFilters = 12"
| "OverlaySettingField_i32 FieldHotkeyBindings = 13"

definition OverlaySettingField_try_from :: "i32 \<Rightarrow> OverlaySettingField option" where
  "OverlaySettingField_try_from = enum_try_from OverlaySettingField_i32
     [FieldUnspecified, FieldEnabled, FieldAutoShow, FieldRotationMode, FieldInputMode,
      FieldDisplayMode, FieldOpacity, FieldDiameterPx, FieldZoom, FieldNormalizedX,
      FieldNormalizedY, FieldFpsProfile, FieldPoiFilters, FieldHotkeyBindings]"

section \<open>The store\<close>

record StoreSnapshot =
  snap_settings :: OverlaySettings
  snap_version :: u64

datatype SettingsStoreError = InvalidInitial SettingsValidationError

datatype PatchRejection =
    MissingCandidate | InvalidCandidate DomainConversionError | EmptyFieldMask | UnspecifiedField
  | UnknownField | DuplicateField | InvalidEffective SettingsValidationError | VersionOverflow

datatype PatchResult =
    PatchApplied StoreSnapshot
  | PatchVersionConflict StoreSnapshot
  | PatchRejected StoreSnapshot PatchRejection

datatype ActionResult =
    ActionApplied StoreSnapshot
  | ActionNoOp StoreSnapshot
  | ActionVersionConflict StoreSnapshot
  | ActionRejected StoreSnapshot PatchRejection

record SettingsStore =
  st_settings :: OverlaySettings
  st_version :: u64

definition SettingsStore_new :: "OverlaySettings \<Rightarrow> SettingsStoreError + SettingsStore" where
  "SettingsStore_new s =
     and_then (map_err InvalidInitial (OverlaySettings_validate s)) (\<lambda>_.
       Inr \<lparr>st_settings = s, st_version = 1\<rparr>)"

definition store_snapshot :: "SettingsStore \<Rightarrow> StoreSnapshot" where
  "store_snapshot st = \<lparr>snap_settings = st_settings st, snap_version = st_version st\<rparr>"

definition rejected :: "SettingsStore \<Rightarrow> PatchRejection \<Rightarrow> PatchResult" where
  "rejected st reason = PatchRejected (store_snapshot st) reason"

definition rejected_action :: "SettingsStore \<Rightarrow> PatchRejection \<Rightarrow> ActionResult" where
  "rejected_action st reason = ActionRejected (store_snapshot st) reason"

definition reject_missing_candidate :: "SettingsStore \<Rightarrow> PatchResult" where
  "reject_missing_candidate st = rejected st MissingCandidate"

text \<open>The loop over the field mask; \<open>earlier\<close> is \<open>changed_fields[..index]\<close>.\<close>

fun validate_fields_from :: "i32 list \<Rightarrow> i32 list \<Rightarrow> PatchRejection + unit" where
  "validate_fields_from earlier [] = Inr ()"
| "validate_fields_from earlier (raw # rest) =
     (case OverlaySettingField_try_from raw of
        None \<Rightarrow> Inl UnknownField
      | Some field \<Rightarrow>
          if field = FieldUnspecified then Inl UnspecifiedField
          else if raw \<in> set earlier then Inl DuplicateField
          else validate_fields_from (earlier @ [raw]) rest)"

definition validate_fields :: "i32 list \<Rightarrow> PatchRejection + unit" where
  "validate_fields changed_fields =
     (if changed_fields = [] then Inl EmptyFieldMask else validate_fields_from [] changed_fields)"

text \<open>\<open>None\<close> is a panic: the \<open>unreachable!\<close> arm of \<open>copy_field\<close>, the \<open>expect\<close> of the copying loop.\<close>

fun copy_field :: "OverlaySettings \<Rightarrow> OverlaySettings \<Rightarrow> OverlaySettingField \<Rightarrow> OverlaySettings option" where
  "copy_field target candidate FieldUnspecified = None"
| "copy_field target candidate FieldEnabled = Some (target\<lparr>enabled := enabled candidate\<rparr>)"
| "copy_field target candidate FieldAutoShow = Some (target\<lparr>auto_show := auto_show candidate\<rparr>)"
| "copy_field target candidate FieldRotationMode = Some (target\<lparr>rotation_mode := rotation_mode candidate\<rparr>)"
| "copy_field target candidate FieldInputMode = Some (target\<lparr>input_mode := input_mode candidate\<rparr>)"
| "copy_field target candidate FieldDisplayMode = Some (target\<lparr>display_mode := display_mode candidate\<rparr>)"
| "copy_field target candidate FieldOpacity = Some (target\<lparr>opacity := opacity candidate\<rparr>)"
| "copy_field target candidate FieldDiameterPx = Some (target\<lparr>diameter_px := diameter_px candidate\<rparr>)"
| "copy_field target candidate FieldZoom = Some (target\<lparr>zoom := zoom candidate\<rparr>)"
| "copy_field target candidate FieldNormalizedX = Some (target\<lparr>normalized_x := normalized_x candidate\<rparr>)"
| "copy_field target candidate FieldNormalizedY = Some (target\<lparr>normalized_y := normalized_y candidate\<rparr>)"
| "copy_field target candidate FieldFpsProfile = Some (target\<lparr>fps_profile := fps_profile candidate\<rparr>)"
| "copy_field target candidate FieldPoiFilters = Some (target\<lparr>poi_filters := poi_filters candidate\<rparr>)"
| "copy_field target candidate FieldHotkeyBindings = Some (target\<lparr>hotkey_bindings := hotkey_bindings candidate\<rparr>)"

fun copy_fields :: "OverlaySettings \<Rightarrow> i32 list \<Rightarrow> OverlaySettings \<Rightarrow> OverlaySettings option" where
  "copy_fields candidate [] effective = Some effective"
| "copy_fields candidate (raw # rest) effective =
     (case OverlaySettingField_try_from raw of
        None \<Rightarrow> None
      | Some field \<Rightarrow>
          (case copy_field effective candidate field of
             None \<Rightarrow> None
           | Some effective \<Rightarrow> copy_fields candidate rest effective))"

definition apply_patch ::
  "SettingsStore \<Rightarrow> u64 \<Rightarrow> WireOverlaySettings \<Rightarrow> i32 list \<Rightarrow> PatchResult option \<times> SettingsStore" where
  "apply_patch st expected_version candidate changed_fields =
     (if expected_version \<noteq> st_version st then (Some (PatchVersionConflict (store_snapshot st)), st)
      else case decode_overlay_settings candidate of
        Inl e \<Rightarrow> (Some (rejected st (InvalidCandidate e)), st)
      | Inr candidate \<Rightarrow>
          (case validate_fields changed_fields of
             Inl e \<Rightarrow> (Some (rejected st e), st)
           | Inr _ \<Rightarrow>
               (case checked_add (st_version st) 1 of
                  None \<Rightarrow> (Some (rejected st VersionOverflow), st)
                | Some next_version \<Rightarrow>
                    (case copy_fields candidate changed_fields (st_settings st) of
                       None \<Rightarrow> (None, st)
                     | Some effective \<Rightarrow>
                         (case OverlaySettings_validate effective of
                            Inl e \<Rightarrow> (Some (rejected st (InvalidEffective e)), st)
                          | Inr _ \<Rightarrow>
                              let st = \<lparr>st_settings = effective, st_version = next_version\<rparr>
                              in (Some (PatchApplied (store_snapshot st)), st))))))"

definition apply_action :: "SettingsStore \<Rightarrow> u64 \<Rightarrow> OverlayAction \<Rightarrow> ActionResult \<times> SettingsStore" where
  "apply_action st expected_version action =
     (if expected_version \<noteq> st_version st then (ActionVersionConflict (store_snapshot st), st)
      else case checked_add (st_version st) 1 of
        None \<Rightarrow> (rejected_action st VersionOverflow, st)
      | Some next_version \<Rightarrow>
          let effective = reduce_overlay_action (st_settings st) action in
          if effective = st_settings st then (ActionNoOp (store_snapshot st), st)
          else case OverlaySettings_validate effective of
            Inl e \<Rightarrow> (rejected_action st (InvalidEffective e), st)
          | Inr _ \<Rightarrow>
              let st = \<lparr>st_settings = effective, st_version = next_version\<rparr>
              in (ActionApplied (store_snapshot st), st))"

definition force_locked :: "SettingsStore \<Rightarrow> (PatchRejection + StoreSnapshot) \<times> SettingsStore" where
  "force_locked st =
     (if input_mode (st_settings st) = Locked then (Inr (store_snapshot st), st)
      else case checked_add (st_version st) 1 of
        None \<Rightarrow> (Inl VersionOverflow, st)
      | Some next_version \<Rightarrow>
          let effective = (st_settings st)\<lparr>input_mode := Locked\<rparr> in
          (case OverlaySettings_validate effective of
             Inl e \<Rightarrow> (Inl (InvalidEffective e), st)
           | Inr _ \<Rightarrow>
               let st = \<lparr>st_settings = effective, st_version = next_version\<rparr>
               in (Inr (store_snapshot st), st)))"

section \<open>The store invariant\<close>

definition store_inv :: "SettingsStore \<Rightarrow> bool" where
  "store_inv st \<longleftrightarrow> settings_valid (st_settings st) \<and> 0 < st_version st"

text \<open>A step of the store: nothing changes, or valid settings get the next version.\<close>

definition store_step :: "SettingsStore \<Rightarrow> SettingsStore \<Rightarrow> bool" where
  "store_step st st' \<longleftrightarrow>
     st' = st \<or> settings_valid (st_settings st') \<and> unat (st_version st') = unat (st_version st) + 1"

lemma store_step_refl [simp]: "store_step st st"
  by (simp add: store_step_def)

lemma store_step_inv:
  assumes "store_step st st'" "store_inv st"
  shows "store_inv st'"
  using assms by (auto simp: store_step_def store_inv_def word_less_nat_alt)

lemma unchecked_fields_valid [simp]:
  "OverlaySettings_validate (s\<lparr>input_mode := m\<rparr>) = OverlaySettings_validate s"
  "OverlaySettings_validate (s\<lparr>enabled := b\<rparr>) = OverlaySettings_validate s"
  by (simp_all add: OverlaySettings_validate_def)

text \<open>Agreement of two settings on one field.\<close>

fun same_field :: "OverlaySettingField \<Rightarrow> OverlaySettings \<Rightarrow> OverlaySettings \<Rightarrow> bool" where
  "same_field FieldUnspecified s t \<longleftrightarrow> True"
| "same_field FieldEnabled s t \<longleftrightarrow> enabled s = enabled t"
| "same_field FieldAutoShow s t \<longleftrightarrow> auto_show s = auto_show t"
| "same_field FieldRotationMode s t \<longleftrightarrow> rotation_mode s = rotation_mode t"
| "same_field FieldInputMode s t \<longleftrightarrow> input_mode s = input_mode t"
| "same_field FieldDisplayMode s t \<longleftrightarrow> display_mode s = display_mode t"
| "same_field FieldOpacity s t \<longleftrightarrow> opacity s = opacity t"
| "same_field FieldDiameterPx s t \<longleftrightarrow> diameter_px s = diameter_px t"
| "same_field FieldZoom s t \<longleftrightarrow> zoom s = zoom t"
| "same_field FieldNormalizedX s t \<longleftrightarrow> normalized_x s = normalized_x t"
| "same_field FieldNormalizedY s t \<longleftrightarrow> normalized_y s = normalized_y t"
| "same_field FieldFpsProfile s t \<longleftrightarrow> fps_profile s = fps_profile t"
| "same_field FieldPoiFilters s t \<longleftrightarrow> poi_filters s = poi_filters t"
| "same_field FieldHotkeyBindings s t \<longleftrightarrow> hotkey_bindings s = hotkey_bindings t"

lemma same_field_refl [simp]: "same_field f s s"
  by (cases f) simp_all

lemma same_fields_eq: "(\<And>f. same_field f s t) \<Longrightarrow> s = t"
proof (rule OverlaySettings.equality)
  assume all: "\<And>f. same_field f s t"
  show "enabled s = enabled t" using all [of FieldEnabled] by simp
  show "auto_show s = auto_show t" using all [of FieldAutoShow] by simp
  show "rotation_mode s = rotation_mode t" using all [of FieldRotationMode] by simp
  show "input_mode s = input_mode t" using all [of FieldInputMode] by simp
  show "display_mode s = display_mode t" using all [of FieldDisplayMode] by simp
  show "opacity s = opacity t" using all [of FieldOpacity] by simp
  show "diameter_px s = diameter_px t" using all [of FieldDiameterPx] by simp
  show "zoom s = zoom t" using all [of FieldZoom] by simp
  show "normalized_x s = normalized_x t" using all [of FieldNormalizedX] by simp
  show "normalized_y s = normalized_y t" using all [of FieldNormalizedY] by simp
  show "fps_profile s = fps_profile t" using all [of FieldFpsProfile] by simp
  show "poi_filters s = poi_filters t" using all [of FieldPoiFilters] by simp
  show "hotkey_bindings s = hotkey_bindings t" using all [of FieldHotkeyBindings] by simp
qed simp

lemma same_field_trans: "same_field f s t \<Longrightarrow> same_field f t u \<Longrightarrow> same_field f s u"
  by (cases f) simp_all

lemma copy_field_same:
  "copy_field target candidate g = Some t \<Longrightarrow> same_field f t (if f = g then candidate else target)"
  by (cases g; cases f) auto

lemma copy_field_defined: "g \<noteq> FieldUnspecified \<Longrightarrow> \<exists>t. copy_field target candidate g = Some t"
  by (cases g) simp_all

lemma field_try_from_iff: "OverlaySettingField_try_from raw = Some f \<longleftrightarrow> raw = OverlaySettingField_i32 f"
  unfolding OverlaySettingField_try_from_def by (rule enum_try_from_iff) (simp, cases f, simp_all)

lemma field_i32_inject [simp]: "OverlaySettingField_i32 f = OverlaySettingField_i32 g \<longleftrightarrow> f = g"
  by (metis field_try_from_iff option.inject)

lemma copy_fields_same:
  assumes "copy_fields candidate raws e = Some e'"
  shows "same_field f e' (if OverlaySettingField_i32 f \<in> set raws then candidate else e)"
  using assms
proof (induction raws arbitrary: e)
  case (Cons raw raws)
  then obtain g t where g: "raw = OverlaySettingField_i32 g" "copy_field e candidate g = Some t"
    "copy_fields candidate raws t = Some e'"
    by (auto simp: field_try_from_iff split: option.splits)
  show ?case
  proof (cases "OverlaySettingField_i32 f \<in> set raws")
    case True
    then show ?thesis using Cons.IH [OF g(3)] by simp
  next
    case False
    then have "same_field f e' t" using Cons.IH [OF g(3)] by simp
    from same_field_trans [OF this copy_field_same [OF g(2)]] show ?thesis using False by (simp add: g(1))
  qed
qed simp

lemma validated_fields_copied:
  assumes "validate_fields_from earlier raws = Inr ()"
  obtains e' where "copy_fields candidate raws e = Some e'"
  using assms
proof (induction raws arbitrary: earlier e thesis)
  case (Cons raw raws)
  then obtain g where g: "OverlaySettingField_try_from raw = Some g" "g \<noteq> FieldUnspecified"
    "validate_fields_from (earlier @ [raw]) raws = Inr ()"
    by (auto split: option.splits if_splits)
  from copy_field_defined [OF g(2)] obtain t where t: "copy_field e candidate g = Some t" by blast
  show ?case
    by (rule Cons.IH [OF _ g(3), of t]) (use Cons.prems(1) g(1) t in simp)
qed simp

lemma apply_patch_cases:
  obtains (refused) r where "apply_patch st v cand chg = (Some r, st)" "\<And>snap. r \<noteq> PatchApplied snap"
  | (applied) c e n where "v = st_version st" "decode_overlay_settings cand = Inr c"
      "copy_fields c chg (st_settings st) = Some e" "settings_valid e"
      "checked_add (st_version st) 1 = Some n"
      "apply_patch st v cand chg =
         (Some (PatchApplied \<lparr>snap_settings = e, snap_version = n\<rparr>), \<lparr>st_settings = e, st_version = n\<rparr>)"
proof (cases "\<exists>c n. v = st_version st \<and> decode_overlay_settings cand = Inr c
    \<and> validate_fields chg = Inr () \<and> checked_add (st_version st) 1 = Some n")
  case False
  have "\<exists>r. apply_patch st v cand chg = (Some r, st) \<and> (\<forall>snap. r \<noteq> PatchApplied snap)"
    using False
    by (auto simp: apply_patch_def rejected_def split: sum.splits option.splits)
  then show ?thesis using refused by blast
next
  case True
  then obtain c n where c: "v = st_version st" "decode_overlay_settings cand = Inr c"
    "validate_fields chg = Inr ()" "checked_add (st_version st) 1 = Some n" by blast
  have "validate_fields_from [] chg = Inr ()"
    using c(3) by (simp add: validate_fields_def split: if_splits)
  then obtain e where e: "copy_fields c chg (st_settings st) = Some e" by (rule validated_fields_copied)
  show ?thesis
  proof (cases "OverlaySettings_validate e")
    case (Inl x)
    then show ?thesis
      using c e by (intro refused [of "rejected st (InvalidEffective x)"])
        (simp_all add: apply_patch_def rejected_def)
  next
    case (Inr u)
    then show ?thesis
      using c e by (intro applied [of c e n]) (simp_all add: apply_patch_def store_snapshot_def)
  qed
qed

lemma apply_patch_step: "store_step st (snd (apply_patch st v cand chg))"
  by (cases rule: apply_patch_cases [of st v cand chg])
    (simp_all add: store_step_def checked_add_Some_iff)

lemma apply_action_step: "store_step st (snd (apply_action st v action))"
  by (auto simp: apply_action_def store_step_def checked_add_Some_iff Let_def split: option.split sum.split)

lemma force_locked_step: "store_step st (snd (force_locked st))"
  by (auto simp: force_locked_def store_step_def checked_add_Some_iff Let_def split: option.split sum.split)

lemma force_locked_result:
  assumes "store_inv st"
  shows "(\<exists>st'. force_locked st = (Inr (store_snapshot st'), st')
         \<and> st_settings st' = (st_settings st)\<lparr>input_mode := Locked\<rparr>)
     \<or> force_locked st = (Inl VersionOverflow, st) \<and> unat (st_version st) = 2 ^ 64 - 1"
proof -
  have "unat (st_version st) < 2 ^ 64" using unat_less_pow [of "st_version st"] by simp
  then have "unat (st_version st) = 2 ^ 64 - 1" if "checked_add (st_version st) 1 = None"
    using that by (simp add: checked_add_def split: if_splits)
  moreover have "settings_valid (st_settings st)" using assms by (simp add: store_inv_def)
  ultimately show ?thesis
    by (auto simp: force_locked_def Let_def split: option.split)
qed

text \<open>Every call that can change the store, and a history of such calls.\<close>

datatype store_call =
    CallPatch u64 WireOverlaySettings "i32 list" | CallAction u64 OverlayAction | CallForceLocked

fun store_apply :: "store_call \<Rightarrow> SettingsStore \<Rightarrow> SettingsStore" where
  "store_apply (CallPatch v cand chg) st = snd (apply_patch st v cand chg)"
| "store_apply (CallAction v action) st = snd (apply_action st v action)"
| "store_apply CallForceLocked st = snd (force_locked st)"

lemma store_apply_step: "store_step st (store_apply call st)"
  by (cases call) (simp_all add: apply_patch_step apply_action_step force_locked_step)

lemma store_history:
  "store_inv st \<Longrightarrow> store_inv (fold store_apply calls st)
     \<and> unat (st_version st) \<le> unat (st_version (fold store_apply calls st))
     \<and> (st_version (fold store_apply calls st) = st_version st \<longrightarrow> fold store_apply calls st = st)"
proof (induction calls arbitrary: st)
  case (Cons call calls)
  let ?st = "store_apply call st"
  have step: "store_step st ?st" by (rule store_apply_step)
  note later = Cons.IH [OF store_step_inv [OF step Cons.prems]]
  show ?case
    using step later by (auto simp: store_step_def)
qed simp

section \<open>Properties\<close>

text \<open>
  C8: Along any history of patches, actions and forced locks the settings stay valid, the version
  never decreases, and it identifies the settings: whenever the version is what it was before, so
  are the settings, so a client that names the version it saw acts on what it saw.
\<close>
theorem settings_version_identifies:
  assumes "SettingsStore_new s = Inr st0"
  shows "let st = fold store_apply earlier st0; st' = fold store_apply later st in
     settings_valid (st_settings st') \<and> 0 < st_version st' \<and> st_version st \<le> st_version st'
     \<and> (st_version st' = st_version st \<longrightarrow> st' = st)"
proof -
  have "store_inv st0"
    using assms by (auto simp: SettingsStore_new_def store_inv_def and_then_eq_Inr)
  then have "store_inv (fold store_apply earlier st0)" using store_history by blast
  from store_history [OF this, of later] show ?thesis
    by (simp add: Let_def store_inv_def word_le_nat_alt)
qed

theorem settings_version_identifies_witness:
  "st_version (fold store_apply [CallAction 1 Hide, CallAction 1 Show]
      \<lparr>st_settings = OverlaySettings_default, st_version = 1\<rparr>) = 2"
proof -
  let ?st = "\<lparr>st_settings = OverlaySettings_default, st_version = 1\<rparr>"
  have "SettingsStore_new OverlaySettings_default = Inr ?st"
    by (simp add: SettingsStore_new_def settings_default_valid)
  note v = settings_version_identifies [OF this, of "[CallAction 1 Hide]" "[CallAction 1 Show]"]
  have "settings_valid (OverlaySettings_default\<lparr>enabled := False\<rparr>)"
    by (simp add: settings_default_valid)
  moreover have "OverlaySettings_default\<lparr>enabled := False\<rparr> \<noteq> OverlaySettings_default"
    by (simp add: OverlaySettings_default_def)
  ultimately have "fold store_apply [CallAction 1 Hide] ?st =
      \<lparr>st_settings = OverlaySettings_default\<lparr>enabled := False\<rparr>, st_version = 2\<rparr>"
    by (simp add: apply_action_def checked_add_def Let_def)
  then show ?thesis using v by (simp add: apply_action_def)
qed

text \<open>
  A patch either changes nothing or was made against the current version, has a decodable
  candidate, replaces exactly the fields of its mask by the candidate's, leaves every other field,
  gives valid settings the next version and reports what the store now holds; neither the
  \<open>expect\<close> nor the \<open>unreachable!\<close> of the copying loop can be reached.
\<close>
lemma patch_changes_its_fields:
  "case apply_patch st v cand chg of
     (None, _) \<Rightarrow> False
   | (Some (PatchApplied snap), st') \<Rightarrow>
       v = st_version st \<and> unat (st_version st') = unat (st_version st) + 1
       \<and> settings_valid (st_settings st') \<and> snap = store_snapshot st'
       \<and> (\<exists>c. decode_overlay_settings cand = Inr c \<and> (\<forall>f. same_field f (st_settings st')
             (if OverlaySettingField_i32 f \<in> set chg then c else st_settings st)))
   | (Some _, st') \<Rightarrow> st' = st"
proof (cases rule: apply_patch_cases [of st v cand chg])
  case (refused r)
  then show ?thesis by (cases r) auto
next
  case (applied c e n)
  then show ?thesis
    using copy_fields_same [OF applied(3)] by (auto simp: store_snapshot_def checked_add_Some_iff)
qed

text \<open>
  Forcing the lock on a valid store ends with the input mode locked and everything else as it
  was; the only way it can fail is an exhausted version counter, and then nothing changes.
\<close>
lemma force_locked_locks:
  assumes "store_inv st"
  shows "case force_locked st of
     (Inr snap, st') \<Rightarrow> st_settings st' = (st_settings st)\<lparr>input_mode := Locked\<rparr> \<and> snap = store_snapshot st'
   | (Inl e, st') \<Rightarrow> e = VersionOverflow \<and> unat (st_version st) = 2 ^ 64 - 1 \<and> st' = st"
  using force_locked_result [OF assms] by (cases "force_locked st"; cases "fst (force_locked st)") auto

lemma force_locked_locks_example:
  "input_mode (st_settings (snd (force_locked
      \<lparr>st_settings = OverlaySettings_default\<lparr>input_mode := PinnedInteractive\<rparr>, st_version = 7\<rparr>))) = Locked"
proof -
  let ?st = "\<lparr>st_settings = OverlaySettings_default\<lparr>input_mode := PinnedInteractive\<rparr>, st_version = 7\<rparr>"
  have "store_inv ?st" by (simp add: store_inv_def settings_default_valid)
  from force_locked_locks [OF this] show ?thesis by (auto split: prod.splits sum.splits)
qed

end
