(* ===== verification/Ipc_Handshake.thy ===== *)
theory Ipc_Handshake
  imports Protocol_Convert
begin

text \<open>
  The handshake gate of the local pipe, \<open>crates/pal-windows-ipc/src/handshake.rs\<close>: the first message
  must be an acceptable hello, later messages must belong to the connection and be permitted for the
  client's role.  The two \<open>expect\<close>s of \<open>evaluate\<close> follow checks of the same call, so the model uses the
  checked values directly.
\<close>

datatype ClientRole = RoleUnspecified | RoleManagementUi | RoleOverlay

fun ClientRole_i32 :: "ClientRole \<Rightarrow> i32" where
  "ClientRole_i32 RoleUnspecified = 0"
| "ClientRole_i32 RoleManagementUi = 3"
| "ClientRole_i32 RoleOverlay = 2"

definition ClientRole_try_from :: "i32 \<Rightarrow> ClientRole option" where
  "ClientRole_try_from =
     enum_try_from ClientRole_i32 [RoleUnspecified, RoleManagementUi, RoleOverlay]"

datatype ProtocolErrorCode =
    CodeUnspecified | CodeNone | UnsupportedVersion | CodeInvalidConnectionId | InvalidTraceId
  | CodeInvalidRole | UnexpectedPayload | InvalidSettings | CodeVersionConflict
  | CodeHotkeyConflict | ValidationFailed

fun ProtocolErrorCode_i32 :: "ProtocolErrorCode \<Rightarrow> i32" where
  "ProtocolErrorCode_i32 CodeUnspecified = 0"
| "ProtocolErrorCode_i32 CodeNone = 1"
| "ProtocolErrorCode_i32 UnsupportedVersion = 2"
| "ProtocolErrorCode_i32 CodeInvalidConnectionId = 3"
| "ProtocolErrorCode_i32 InvalidTraceId = 4"
| "ProtocolErrorCode_i32 CodeInvalidRole = 5"
| "ProtocolErrorCode_i32 UnexpectedPayload = 6"
| "ProtocolErrorCode_i32 InvalidSettings = 7"
| "ProtocolErrorCode_i32 CodeVersionConflict = 8"
| "ProtocolErrorCode_i32 CodeHotkeyConflict = 9"
| "ProtocolErrorCode_i32 ValidationFailed = 10"

definition LOCAL_PROTOCOL_VERSION :: u32 where "LOCAL_PROTOCOL_VERSION = 2"

datatype HelloRejectionKind =
    ExpectedHello | SecondHello | HelloInvalidRole | InvalidProcessId | HelloInvalidConnectionId
  | InvalidMessageId | IncompatibleVersion

record HelloRejection =
  rej_kind :: HelloRejectionKind
  rej_code :: ProtocolErrorCode
  rej_field :: string

record HelloAccepted =
  ha_process_id :: u32
  ha_connection_id :: bytes
  ha_role :: ClientRole

datatype AllowedRole = AllowManagementUi | AllowOverlay | AnyLocalClient

type_synonym SessionPolicy = AllowedRole

record HelloGate =
  hg_policy :: SessionPolicy
  hg_accepted :: "HelloAccepted option"

definition rejection :: "HelloRejectionKind \<Rightarrow> ProtocolErrorCode \<Rightarrow> string \<Rightarrow> HelloRejection" where
  "rejection kind code field = \<lparr>rej_kind = kind, rej_code = code, rej_field = field\<rparr>"

fun policy_client_role :: "SessionPolicy \<Rightarrow> ClientRole option" where
  "policy_client_role AllowManagementUi = Some RoleManagementUi"
| "policy_client_role AllowOverlay = Some RoleOverlay"
| "policy_client_role AnyLocalClient = None"

definition permits_for_role :: "SessionPolicy \<Rightarrow> ClientRole \<Rightarrow> Payload \<Rightarrow> bool" where
  "permits_for_role policy role payload =
     (let effective_role = (case policy of
            AnyLocalClient \<Rightarrow> role
          | AllowManagementUi \<Rightarrow> RoleManagementUi
          | AllowOverlay \<Rightarrow> RoleOverlay)
      in case effective_role of
           RoleUnspecified \<Rightarrow> False
         | RoleOverlay \<Rightarrow>
             (case payload of
                PClientHello _ \<Rightarrow> True
              | PRenderApplied _ \<Rightarrow> True
              | POverlayCommand _ \<Rightarrow> True
              | PSettingsPatch _ \<Rightarrow> True
              | PSettingsQuery _ \<Rightarrow> True
              | _ \<Rightarrow> False)
         | RoleManagementUi \<Rightarrow>
             (case payload of
                PRenderSnapshot _ \<Rightarrow> False
              | PRenderApplied _ \<Rightarrow> False
              | _ \<Rightarrow> True))"

definition policy_permits :: "SessionPolicy \<Rightarrow> Payload \<Rightarrow> bool" where
  "policy_permits policy payload =
     (case policy_client_role policy of
        None \<Rightarrow> False
      | Some role \<Rightarrow> permits_for_role policy role payload)"

definition HelloGate_new :: "SessionPolicy \<Rightarrow> HelloGate" where
  "HelloGate_new policy = \<lparr>hg_policy = policy, hg_accepted = None\<rparr>"

definition is_established :: "HelloGate \<Rightarrow> bool" where
  "is_established g = (hg_accepted g \<noteq> None)"

definition gate_connection_id :: "HelloGate \<Rightarrow> bytes option" where
  "gate_connection_id g = map_option ha_connection_id (hg_accepted g)"

definition accepted_role :: "HelloGate \<Rightarrow> ClientRole option" where
  "accepted_role g = map_option ha_role (hg_accepted g)"

definition validate_common :: "LocalEnvelope \<Rightarrow> HelloRejection + unit" where
  "validate_common e =
     (if length (le_connection_id e) \<noteq> 16
      then Inl (rejection HelloInvalidConnectionId CodeInvalidConnectionId ''connection_id'')
      else if le_message_id e = 0
      then Inl (rejection InvalidMessageId ValidationFailed ''message_id'')
      else if le_protocol_version e \<noteq> LOCAL_PROTOCOL_VERSION
      then Inl (rejection IncompatibleVersion UnsupportedVersion ''protocol_version'')
      else Inr ())"

definition evaluate_hello ::
  "ClientHello \<Rightarrow> LocalEnvelope \<Rightarrow> HelloGate \<Rightarrow> (HelloRejection + HelloAccepted) \<times> HelloGate" where
  "evaluate_hello hello e g =
     (case validate_common e of
        Inl r \<Rightarrow> (Inl r, g)
      | Inr _ \<Rightarrow>
          (case ClientRole_try_from (ch_role hello) of
             None \<Rightarrow> (Inl (rejection HelloInvalidRole CodeInvalidRole ''client_hello.role''), g)
           | Some role \<Rightarrow>
               if role = RoleUnspecified
                  \<or> (case policy_client_role (hg_policy g) of
                       Some required \<Rightarrow> role \<noteq> required | None \<Rightarrow> False)
               then (Inl (rejection HelloInvalidRole CodeInvalidRole ''client_hello.role''), g)
               else if ch_process_id hello = 0
               then (Inl (rejection InvalidProcessId ValidationFailed ''client_hello.process_id''), g)
               else if LOCAL_PROTOCOL_VERSION < ch_minimum_protocol_version hello
                  \<or> ch_maximum_protocol_version hello < LOCAL_PROTOCOL_VERSION
                  \<or> ch_maximum_protocol_version hello < ch_minimum_protocol_version hello
               then (Inl (rejection IncompatibleVersion UnsupportedVersion
                       ''client_hello.protocol_range''), g)
               else let accepted = \<lparr>ha_process_id = ch_process_id hello,
                          ha_connection_id = le_connection_id e, ha_role = role\<rparr>
                    in (Inr accepted, g\<lparr>hg_accepted := Some accepted\<rparr>)))"

definition HelloGate_evaluate ::
  "LocalEnvelope \<Rightarrow> HelloGate \<Rightarrow> (HelloRejection + HelloAccepted) \<times> HelloGate" where
  "HelloGate_evaluate e g =
     (if hg_accepted g \<noteq> None
      then (Inl (rejection SecondHello UnexpectedPayload ''payload''), g)
      else case le_payload e of
        Some (PClientHello hello) \<Rightarrow> evaluate_hello hello e g
      | _ \<Rightarrow> (Inl (rejection ExpectedHello UnexpectedPayload ''payload''), g))"

definition validate_established :: "LocalEnvelope \<Rightarrow> HelloGate \<Rightarrow> HelloRejection + unit" where
  "validate_established e g =
     (case hg_accepted g of
        None \<Rightarrow> Inl (rejection ExpectedHello UnexpectedPayload ''payload'')
      | Some accepted \<Rightarrow>
          if (case le_payload e of Some (PClientHello _) \<Rightarrow> True | _ \<Rightarrow> False)
          then Inl (rejection SecondHello UnexpectedPayload ''payload'')
          else and_then (validate_common e) (\<lambda>_.
            if le_connection_id e \<noteq> ha_connection_id accepted
            then Inl (rejection HelloInvalidConnectionId CodeInvalidConnectionId ''connection_id'')
            else case le_payload e of
              None \<Rightarrow> Inl (rejection ExpectedHello UnexpectedPayload ''payload'')
            | Some payload \<Rightarrow>
                if \<not> permits_for_role (hg_policy g) (ha_role accepted) payload
                then Inl (rejection ExpectedHello UnexpectedPayload ''payload'')
                else Inr ()))"

section \<open>What an accepted client is\<close>

lemma evaluate_accepted:
  assumes "HelloGate_evaluate e g = (Inr a, g')"
  shows "hg_accepted g = None" "g' = g\<lparr>hg_accepted := Some a\<rparr>"
    "length (ha_connection_id a) = 16" "ha_connection_id a = le_connection_id e"
    "ha_role a \<noteq> RoleUnspecified" "ha_process_id a \<noteq> 0"
    "policy_client_role (hg_policy g) = None \<or> policy_client_role (hg_policy g) = Some (ha_role a)"
  using assms
  by (auto simp: HelloGate_evaluate_def evaluate_hello_def validate_common_def Let_def
      split: if_splits option.splits Payload.splits sum.splits)

lemma evaluate_rejected: "HelloGate_evaluate e g = (Inl r, g') \<Longrightarrow> g' = g"
  by (auto simp: HelloGate_evaluate_def evaluate_hello_def Let_def
      split: if_splits option.splits Payload.splits sum.splits)

lemma validate_established_ok:
  assumes "validate_established e g = Inr ()"
  obtains a payload where "hg_accepted g = Some a" "le_payload e = Some payload"
    "le_connection_id e = ha_connection_id a" "le_message_id e \<noteq> 0"
    "permits_for_role (hg_policy g) (ha_role a) payload"
  using assms
  by (auto simp: validate_established_def validate_common_def and_then_eq_Inr
      split: if_splits option.splits Payload.splits)

end
