(* ===== verification/Protocol_Frames.thy ===== *)
theory Protocol_Frames
  imports Pal_Prelude
begin

text \<open>
  Frames of the local protocol: the one-shot codec of \<open>crates/pal-protocol/src/framing.rs\<close> and the
  incremental decoder of \<open>crates/pal-windows-ipc/src/framed_stream.rs\<close>.

  The protobuf library is an argument: a record with the three functions of a \<open>prost::Message\<close> the
  code calls.  Lengths are natural numbers; an addition that would exceed \<open>usize\<close> exceeds the payload
  limit as well.  A subtraction of lengths that would underflow makes \<open>push\<close> return \<open>None\<close>.
\<close>

unbundle bit_operations_syntax

section \<open>The codec\<close>

definition MAX_PAYLOAD_LEN :: nat where "MAX_PAYLOAD_LEN = 1048576"
definition MAX_FRAME_LEN :: nat where "MAX_FRAME_LEN = MAX_PAYLOAD_LEN + 4"

datatype FrameError =
    FrameTruncated | FrameEmpty | FrameTooLarge | FrameTrailingBytes | FrameEncode | FrameDecode

record 'm prost_message =
  pm_encoded_len :: "'m \<Rightarrow> nat"
  pm_encode :: "'m \<Rightarrow> bytes option"
  pm_decode :: "bytes \<Rightarrow> 'm option"

definition u32_to_le_bytes :: "u32 \<Rightarrow> bytes" where
  "u32_to_le_bytes w = map (\<lambda>i. ucast (drop_bit (8 * i) w)) [0..<4]"

definition u32_from_le_bytes :: "bytes \<Rightarrow> u32" where
  "u32_from_le_bytes bs =
     ucast (bs ! 0) OR push_bit 8 (ucast (bs ! 1)) OR push_bit 16 (ucast (bs ! 2))
     OR push_bit 24 (ucast (bs ! 3))"

definition FrameCodec_encode :: "'m prost_message \<Rightarrow> 'm \<Rightarrow> FrameError + bytes" where
  "FrameCodec_encode P message =
     (let payload_len = pm_encoded_len P message in
      if payload_len = 0 then Inl FrameEmpty
      else if MAX_PAYLOAD_LEN < payload_len then Inl FrameTooLarge
      else case pm_encode P message of
        None \<Rightarrow> Inl FrameEncode
      | Some bs \<Rightarrow> Inr (u32_to_le_bytes (of_nat payload_len) @ bs))"

definition FrameCodec_decode :: "'m prost_message \<Rightarrow> bytes \<Rightarrow> FrameError + 'm" where
  "FrameCodec_decode P frame =
     (if length frame < 4 then Inl FrameTruncated
      else let declared_len = unat (u32_from_le_bytes (take 4 frame)) in
        if declared_len = 0 then Inl FrameEmpty
        else if MAX_PAYLOAD_LEN < declared_len then Inl FrameTooLarge
        else let body_len = length frame - 4 in
          if body_len < declared_len then Inl FrameTruncated
          else if declared_len < body_len then Inl FrameTrailingBytes
          else case pm_decode P (drop 4 frame) of
            None \<Rightarrow> Inl FrameDecode
          | Some m \<Rightarrow> Inr m)"

section \<open>The incremental decoder\<close>

definition MAX_QUEUED_FRAMES :: nat where "MAX_QUEUED_FRAMES = 1024"

datatype StreamError = StreamEmpty | StreamTooLarge | StreamTruncated | StreamMalformed | QueueFull

record FramedStream =
  fs_buffer :: bytes
  fs_completed :: "bytes list"
  fs_queued_bytes :: nat

definition FramedStream_new :: FramedStream where
  "FramedStream_new = \<lparr>fs_buffer = [], fs_completed = [], fs_queued_bytes = 0\<rparr>"

definition declared_len :: "FramedStream \<Rightarrow> nat" where
  "declared_len s = unat (u32_from_le_bytes (take 4 (fs_buffer s)))"

definition validate_declared_len :: "FramedStream \<Rightarrow> (StreamError + unit) \<times> FramedStream" where
  "validate_declared_len s =
     (let declared = declared_len s in
      if declared = 0 then (Inl StreamEmpty, s\<lparr>fs_buffer := []\<rparr>)
      else if MAX_PAYLOAD_LEN < declared then (Inl StreamTooLarge, s\<lparr>fs_buffer := []\<rparr>)
      else (Inr (), s))"

text \<open>
  The two halves of the body of the loop in \<open>push\<close>: the first completes the length prefix and says
  whether the body goes on, the second takes payload bytes and queues a completed payload.
\<close>

definition fill_prefix :: "bytes \<Rightarrow> FramedStream \<Rightarrow> (StreamError + bool) \<times> bytes \<times> FramedStream" where
  "fill_prefix input s =
     (if length (fs_buffer s) < 4
      then let needed = 4 - length (fs_buffer s);
               n = min needed (length input);
               s = s\<lparr>fs_buffer := fs_buffer s @ take n input\<rparr>;
               input = drop n input
           in if length (fs_buffer s) < 4 then (Inr False, input, s)
              else case validate_declared_len s of
                (Inl e, s) \<Rightarrow> (Inl e, input, s)
              | (Inr _, s) \<Rightarrow> (Inr True, input, s)
      else (Inr True, input, s))"

definition fill_payload ::
  "bytes \<Rightarrow> FramedStream \<Rightarrow> (StreamError + unit) option \<times> bytes \<times> FramedStream" where
  "fill_payload input s =
     (let payload_len = declared_len s;
          frame_len = payload_len + 4
      in if frame_len < length (fs_buffer s) then (None, input, s)
         else let needed = frame_len - length (fs_buffer s);
                  n = min needed (length input);
                  s = s\<lparr>fs_buffer := fs_buffer s @ take n input\<rparr>;
                  input = drop n input
              in if length (fs_buffer s) = frame_len
                 then if length (fs_completed s) = MAX_QUEUED_FRAMES
                         \<or> MAX_PAYLOAD_LEN < fs_queued_bytes s + payload_len
                      then (Some (Inl QueueFull), input, s\<lparr>fs_buffer := []\<rparr>)
                      else let payload = drop 4 (fs_buffer s) in
                        (Some (Inr ()), input,
                         \<lparr>fs_buffer = [], fs_completed = fs_completed s @ [payload],
                          fs_queued_bytes = fs_queued_bytes s + length payload\<rparr>)
                 else (Some (Inr ()), input, s))"

lemma fill_prefix_input:
  "fill_prefix input s = (Inr True, input', s') \<Longrightarrow>
     length input' \<le> length input \<and> (length (fs_buffer s) < 4 \<longrightarrow> input \<noteq> [] \<longrightarrow> length input' < length input)
     \<and> 4 \<le> length (fs_buffer s') \<and> (4 \<le> length (fs_buffer s) \<longrightarrow> s' = s)"
  by (auto simp: fill_prefix_def validate_declared_len_def Let_def split: if_splits)

lemma fill_payload_input:
  "fill_payload input s = (Some (Inr ()), input', s') \<Longrightarrow>
     length input' < length input \<or> input' = input \<and> (input = [] \<or> fs_buffer s' = [])"
  by (auto simp: fill_payload_def Let_def split: if_splits)

function (sequential) push ::
  "bytes \<Rightarrow> FramedStream \<Rightarrow> (StreamError + unit) option \<times> FramedStream" where
  "push input s =
     (if input = [] then (Some (Inr ()), s)
      else case fill_prefix input s of
        (Inl e, _, s) \<Rightarrow> (Some (Inl e), s)
      | (Inr False, _, s) \<Rightarrow> (Some (Inr ()), s)
      | (Inr True, input, s) \<Rightarrow>
          (case fill_payload input s of
             (None, _, s) \<Rightarrow> (None, s)
           | (Some (Inl e), _, s) \<Rightarrow> (Some (Inl e), s)
           | (Some (Inr _), input, s) \<Rightarrow> push input s))"
  by pat_completeness auto

termination push
proof (relation "measures [\<lambda>(input, _). length input, \<lambda>(_, s). length (fs_buffer s)]", goal_cases)
  case 2
  then show ?case
    by (force dest!: fill_prefix_input [OF sym] fill_payload_input [OF sym])
qed simp

declare push.simps [simp del]

definition next_payload :: "FramedStream \<Rightarrow> bytes option \<times> FramedStream" where
  "next_payload s =
     (case fs_completed s of
        [] \<Rightarrow> (None, s)
      | payload # rest \<Rightarrow>
          (Some payload,
           s\<lparr>fs_completed := rest, fs_queued_bytes := fs_queued_bytes s - length payload\<rparr>))"

definition next_message ::
  "'m prost_message \<Rightarrow> FramedStream \<Rightarrow> (StreamError + 'm option) \<times> FramedStream" where
  "next_message P s =
     (case next_payload s of
        (None, s) \<Rightarrow> (Inr None, s)
      | (Some payload, s) \<Rightarrow>
          (case pm_decode P payload of None \<Rightarrow> Inl StreamMalformed | Some m \<Rightarrow> Inr (Some m), s))"

definition FramedStream_finish :: "FramedStream \<Rightarrow> StreamError + unit" where
  "FramedStream_finish s = (if fs_buffer s = [] then Inr () else Inl StreamTruncated)"

section \<open>Little-endian lengths\<close>

lemma length_u32_to_le_bytes [simp]: "length (u32_to_le_bytes w) = 4"
  by (simp add: u32_to_le_bytes_def)

lemma u32_from_to_le_bytes [simp]: "u32_from_le_bytes (u32_to_le_bytes w) = w"
proof (rule bit_word_eqI)
  fix n assume "n < LENGTH(32)"
  then have n: "n < 32" by simp
  have bytes: "u32_to_le_bytes w = [ucast w, ucast (drop_bit 8 w), ucast (drop_bit 16 w), ucast (drop_bit 24 w)]"
    by (simp add: u32_to_le_bytes_def upt_rec)
  consider "n < 8" | "8 \<le> n" "n < 16" | "16 \<le> n" "n < 24" | "24 \<le> n" using n by linarith
  then show "bit (u32_from_le_bytes (u32_to_le_bytes w)) n = bit w n"
    unfolding u32_from_le_bytes_def bytes using n by cases (auto simp: bit_simps)
qed

section \<open>A byte at a time\<close>

text \<open>
  The reference decoder: one byte is appended to the buffer, the length is checked when the prefix
  is complete, and the payload is queued when the frame is.
\<close>

definition feed :: "u8 \<Rightarrow> FramedStream \<Rightarrow> (StreamError + unit) \<times> FramedStream" where
  "feed byte s =
     (let s = s\<lparr>fs_buffer := fs_buffer s @ [byte]\<rparr> in
      if length (fs_buffer s) < 4 then (Inr (), s)
      else if length (fs_buffer s) = 4 then validate_declared_len s
      else if length (fs_buffer s) = declared_len s + 4
      then if length (fs_completed s) = MAX_QUEUED_FRAMES
              \<or> MAX_PAYLOAD_LEN < fs_queued_bytes s + declared_len s
           then (Inl QueueFull, s\<lparr>fs_buffer := []\<rparr>)
           else (Inr (), \<lparr>fs_buffer = [], fs_completed = fs_completed s @ [drop 4 (fs_buffer s)],
                   fs_queued_bytes = fs_queued_bytes s + declared_len s\<rparr>)
      else (Inr (), s))"

definition buffer_inv :: "bytes \<Rightarrow> bool" where
  "buffer_inv b \<longleftrightarrow> (4 \<le> length b \<longrightarrow>
     (let n = unat (u32_from_le_bytes (take 4 b)) in 0 < n \<and> n \<le> MAX_PAYLOAD_LEN \<and> length b < n + 4))"

definition queue_inv :: "bytes list \<Rightarrow> nat \<Rightarrow> bool" where
  "queue_inv ps n \<longleftrightarrow> n = sum_list (map length ps) \<and> n \<le> MAX_PAYLOAD_LEN
     \<and> length ps \<le> MAX_QUEUED_FRAMES \<and> (\<forall>p \<in> set ps. p \<noteq> [])"

definition stream_inv :: "FramedStream \<Rightarrow> bool" where
  "stream_inv s \<longleftrightarrow> buffer_inv (fs_buffer s) \<and> queue_inv (fs_completed s) (fs_queued_bytes s)"

lemma stream_inv_alt:
  "stream_inv s =
     ((4 \<le> length (fs_buffer s) \<longrightarrow> 0 < declared_len s \<and> declared_len s \<le> MAX_PAYLOAD_LEN
         \<and> length (fs_buffer s) < declared_len s + 4)
      \<and> fs_queued_bytes s = sum_list (map length (fs_completed s))
      \<and> fs_queued_bytes s \<le> MAX_PAYLOAD_LEN \<and> length (fs_completed s) \<le> MAX_QUEUED_FRAMES
      \<and> (\<forall>p \<in> set (fs_completed s). p \<noteq> []))"
  by (auto simp: stream_inv_def buffer_inv_def queue_inv_def declared_len_def Let_def)

lemma stream_inv_new: "stream_inv FramedStream_new"
  by (simp add: stream_inv_alt FramedStream_new_def)

lemma declared_len_append [simp]:
  "4 \<le> length (fs_buffer s) \<Longrightarrow> declared_len (s\<lparr>fs_buffer := fs_buffer s @ xs\<rparr>) = declared_len s"
  by (simp add: declared_len_def)

lemma feed_prefix:
  "length (fs_buffer s) + length xs < 4 \<Longrightarrow>
     try_each feed xs s = (Inr (), s\<lparr>fs_buffer := fs_buffer s @ xs\<rparr>)"
  by (induction xs arbitrary: s) (simp_all add: feed_def Let_def)

lemma feed_payload:
  "\<lbrakk>4 \<le> length (fs_buffer s); length (fs_buffer s) + length xs < declared_len s + 4\<rbrakk> \<Longrightarrow>
     try_each feed xs s = (Inr (), s\<lparr>fs_buffer := fs_buffer s @ xs\<rparr>)"
proof (induction xs arbitrary: s)
  case (Cons x xs)
  let ?s = "s\<lparr>fs_buffer := fs_buffer s @ [x]\<rparr>"
  have "feed x s = (Inr (), ?s)" using Cons.prems by (simp add: feed_def Let_def)
  moreover have "try_each feed xs ?s = (Inr (), ?s\<lparr>fs_buffer := fs_buffer ?s @ xs\<rparr>)"
    by (rule Cons.IH) (use Cons.prems in simp_all)
  ultimately show ?case by simp
qed simp

lemma try_each_append:
  "try_each body (xs @ ys) s =
     (case try_each body xs s of (Inl e, s) \<Rightarrow> (Inl e, s) | (Inr _, s) \<Rightarrow> try_each body ys s)"
  by (induction xs arbitrary: s) (auto split: prod.split sum.split)

text \<open>The prefix half of the loop body is the reference decoder on the bytes it takes.\<close>

lemma fill_prefix_feed:
  assumes "length (fs_buffer s) < 4" "input \<noteq> []"
  shows "\<exists>n. 0 < n \<and> n \<le> length input \<and> fst (snd (fill_prefix input s)) = drop n input
     \<and> try_each feed (take n input) s =
         (map_sum id (\<lambda>_. ()) (fst (fill_prefix input s)), snd (snd (fill_prefix input s)))
     \<and> (fst (fill_prefix input s) = Inr False \<longrightarrow> n = length input)
     \<and> (fst (fill_prefix input s) = Inr True \<longrightarrow> length (fs_buffer (snd (snd (fill_prefix input s)))) = 4)"
proof (cases "length (fs_buffer s) + length input < 4")
  case True
  then show ?thesis
    using assms feed_prefix [OF True]
    by (intro exI [of _ "length input"]) (simp add: fill_prefix_def Let_def min_def)
next
  case False
  let ?n = "4 - length (fs_buffer s)"
  let ?s = "s\<lparr>fs_buffer := fs_buffer s @ take ?n input\<rparr>"
  have n: "?n \<le> length input" "0 < ?n" using False assms by simp_all
  obtain ys y where ys: "take ?n input = ys @ [y]" using n
    by (metis append_butlast_last_id gr_implies_not0 length_0_conv length_take min.absorb2)
  have len: "length ys = ?n - 1" using n ys by (metis diff_Suc_1 length_append_singleton length_take min.absorb2)
  have "try_each feed ys s = (Inr (), s\<lparr>fs_buffer := fs_buffer s @ ys\<rparr>)"
    by (rule feed_prefix) (use assms len in simp)
  moreover have "feed y (s\<lparr>fs_buffer := fs_buffer s @ ys\<rparr>) = validate_declared_len ?s"
    using assms len ys by (simp add: feed_def Let_def)
  ultimately have "try_each feed (take ?n input) s = validate_declared_len ?s"
    by (simp add: ys try_each_append split: prod.split sum.split)
  moreover have "fill_prefix input s =
      (case validate_declared_len ?s of (Inl e, s') \<Rightarrow> (Inl e, drop ?n input, s')
       | (Inr _, s') \<Rightarrow> (Inr True, drop ?n input, s'))"
    unfolding fill_prefix_def Let_def min_absorb1 [OF n(1)] using assms n by simp
  ultimately show ?thesis
    using n assms
    by (intro exI [of _ ?n]) (auto simp: validate_declared_len_def Let_def split: if_splits)
qed

lemma fill_payload_feed:
  assumes "stream_inv s" "4 \<le> length (fs_buffer s)"
  shows "\<exists>n \<le> length input. fst (snd (fill_payload input s)) = drop n input
     \<and> (input \<noteq> [] \<longrightarrow> 0 < n) \<and> fst (fill_payload input s) \<noteq> None
     \<and> try_each feed (take n input) s = (the (fst (fill_payload input s)), snd (snd (fill_payload input s)))"
proof -
  let ?n = "declared_len s + 4 - length (fs_buffer s)"
  have inv: "length (fs_buffer s) < declared_len s + 4"
    using assms by (simp add: stream_inv_alt)
  show ?thesis
  proof (cases "length input < ?n")
    case True
    then have "try_each feed input s = (Inr (), s\<lparr>fs_buffer := fs_buffer s @ input\<rparr>)"
      by (intro feed_payload) (use assms in simp_all)
    moreover have "fill_payload input s = (Some (Inr ()), [], s\<lparr>fs_buffer := fs_buffer s @ input\<rparr>)"
      using True inv by (auto simp: fill_payload_def Let_def)
    ultimately show ?thesis by (intro exI [of _ "length input"]) simp
  next
    case False
    let ?s = "s\<lparr>fs_buffer := fs_buffer s @ take ?n input\<rparr>"
    have n: "?n \<le> length input" "0 < ?n" using False inv by simp_all
    obtain ys y where ys: "take ?n input = ys @ [y]"
      using n by (metis append_butlast_last_id gr_implies_not0 length_0_conv length_take min.absorb2)
    have len: "length ys = ?n - 1"
      using n ys by (metis diff_Suc_1 length_append_singleton length_take min.absorb2)
    have most: "try_each feed ys s = (Inr (), s\<lparr>fs_buffer := fs_buffer s @ ys\<rparr>)"
      by (rule feed_payload) (use assms len n in simp_all)
    have buf: "fs_buffer s @ ys @ [y] = fs_buffer s @ take ?n input" by (simp add: ys)
    have full: "length (fs_buffer s @ take ?n input) = declared_len s + 4" using n by simp
    have last: "feed y (s\<lparr>fs_buffer := fs_buffer s @ ys\<rparr>) =
        (the (fst (fill_payload input s)), snd (snd (fill_payload input s)))"
      using n full assms(2)
      unfolding feed_def fill_payload_def Let_def
      by (auto simp: buf declared_len_append min_absorb1)
    have "try_each feed (take ?n input) s =
        (the (fst (fill_payload input s)), snd (snd (fill_payload input s)))"
      using most last by (simp add: ys try_each_append split: prod.split sum.split)
    moreover have "fst (snd (fill_payload input s)) = drop ?n input \<and> fst (fill_payload input s) \<noteq> None"
      using n inv by (simp add: fill_payload_def Let_def)
    ultimately show ?thesis using n by (intro exI [of _ ?n]) simp
  qed
qed

lemma buffer_inv_short [simp]: "length b < 4 \<Longrightarrow> buffer_inv b"
  by (simp add: buffer_inv_def)

lemma queue_inv_snoc:
  "\<lbrakk>queue_inv ps n; p \<noteq> []; length ps \<noteq> MAX_QUEUED_FRAMES; n + length p \<le> MAX_PAYLOAD_LEN\<rbrakk>
     \<Longrightarrow> queue_inv (ps @ [p]) (n + length p)"
  by (auto simp: queue_inv_def)


lemma validate_inv:
  assumes "queue_inv (fs_completed t) (fs_queued_bytes t)" "length (fs_buffer t) = 4"
  shows "stream_inv (snd (validate_declared_len t))"
proof -
  have "buffer_inv (fs_buffer t)" if "0 < declared_len t" "declared_len t \<le> MAX_PAYLOAD_LEN"
    using assms(2) that by (simp add: buffer_inv_def declared_len_def)
  then show ?thesis using assms(1) by (simp add: validate_declared_len_def Let_def stream_inv_def)
qed

lemma stream_inv_feed_snd:
  assumes "stream_inv s"
  shows "stream_inv (snd (feed b s))"
proof -
  define t where "t = s\<lparr>fs_buffer := fs_buffer s @ [b]\<rparr>"
  have t: "fs_buffer t = fs_buffer s @ [b]" "fs_completed t = fs_completed s" "fs_queued_bytes t = fs_queued_bytes s"
    by (simp_all add: t_def)
  have q: "queue_inv (fs_completed t) (fs_queued_bytes t)" and b: "buffer_inv (fs_buffer s)"
    using assms by (simp_all add: stream_inv_def t)
  have feed: "feed b s = (if length (fs_buffer t) < 4 then (Inr (), t)
      else if length (fs_buffer t) = 4 then validate_declared_len t
      else if length (fs_buffer t) = declared_len t + 4
      then if length (fs_completed t) = MAX_QUEUED_FRAMES
              \<or> MAX_PAYLOAD_LEN < fs_queued_bytes t + declared_len t
           then (Inl QueueFull, t\<lparr>fs_buffer := []\<rparr>)
           else (Inr (), \<lparr>fs_buffer = [], fs_completed = fs_completed t @ [drop 4 (fs_buffer t)],
                   fs_queued_bytes = fs_queued_bytes t + declared_len t\<rparr>)
      else (Inr (), t))" by (simp only: feed_def t_def Let_def)
  consider "length (fs_buffer t) < 4" | "length (fs_buffer t) = 4"
    | "4 < length (fs_buffer t)" "length (fs_buffer t) = declared_len t + 4"
    | "4 < length (fs_buffer t)" "length (fs_buffer t) \<noteq> declared_len t + 4" by linarith
  then show ?thesis
  proof cases
    case 1
    then show ?thesis using q by (simp add: feed stream_inv_def)
  next
    case 2
    then show ?thesis using validate_inv [OF q 2] by (simp add: feed)
  next
    case 3
    then have "drop 4 (fs_buffer t) \<noteq> []" "length (drop 4 (fs_buffer t)) = declared_len t" by simp_all
    with queue_inv_snoc [OF q this(1)] show ?thesis
      using 3 q by (simp add: feed stream_inv_def)
  next
    case 4
    then have "declared_len t = declared_len s" "4 \<le> length (fs_buffer s)" by (simp_all add: t declared_len_def)
    then have "buffer_inv (fs_buffer t)" using b 4 by (simp add: buffer_inv_def declared_len_def Let_def t)
    then show ?thesis using 4 q by (simp add: feed stream_inv_def)
  qed
qed

lemma stream_inv_feed: "\<lbrakk>stream_inv s; feed b s = (res, s')\<rbrakk> \<Longrightarrow> stream_inv s'"
  using stream_inv_feed_snd [of s b] by simp

lemma stream_inv_feeds: "\<lbrakk>stream_inv s; try_each feed bs s = (res, s')\<rbrakk> \<Longrightarrow> stream_inv s'"
  using try_each_preserves [where Inv = stream_inv] stream_inv_feed by metis

lemma next_payload_inv: "stream_inv s \<Longrightarrow> stream_inv (snd (next_payload s))"
  by (cases "fs_completed s") (auto simp: stream_inv_def next_payload_def queue_inv_def)

lemma next_message_inv: "stream_inv s \<Longrightarrow> stream_inv (snd (next_message P s))"
  using next_payload_inv [of s] by (auto simp: next_message_def split: prod.split option.split)

lemma payload_then_push:
  assumes "stream_inv s" "4 \<le> length (fs_buffer s)"
    and "\<And>input' s'. \<lbrakk>fill_payload input s = (Some (Inr ()), input', s'); stream_inv s'\<rbrakk> \<Longrightarrow>
        push input' s' = map_prod Some id (try_each feed input' s')"
  shows "(case fill_payload input s of
             (None, _, s) \<Rightarrow> (None, s)
           | (Some (Inl e), _, s) \<Rightarrow> (Some (Inl e), s)
           | (Some (Inr _), input, s) \<Rightarrow> push input s) = map_prod Some id (try_each feed input s)"
proof -
  obtain r input1 s1 where fill: "fill_payload input s = (r, input1, s1)" by (metis prod.exhaust)
  obtain n where n: "n \<le> length input" "input1 = drop n input" "r \<noteq> None"
    "try_each feed (take n input) s = (the r, s1)"
    using fill_payload_feed [OF assms(1,2), of input] by (auto simp: fill)
  have inv: "stream_inv s1" by (rule stream_inv_feeds [OF assms(1) n(4)])
  have all: "try_each feed input s =
      (case the r of Inl e \<Rightarrow> (Inl e, s1) | Inr _ \<Rightarrow> try_each feed input1 s1)"
    unfolding n(2) using try_each_append [of feed "take n input" "drop n input" s] n by simp
  obtain x where r: "r = Some x" using n(3) by auto
  show ?thesis
  proof (cases x)
    case (Inl e)
    then show ?thesis by (simp add: fill r all)
  next
    case (Inr u)
    then show ?thesis using assms(3) [of input1 s1] inv by (simp add: fill r all)
  qed
qed

lemma push_feed:
  assumes "stream_inv s"
  shows "push input s = map_prod Some id (try_each feed input s)"
  using assms
proof (induction input s rule: push.induct)
  case (1 input s)
  show ?case
  proof (cases "input = []")
    case True
    then show ?thesis by (simp add: push.simps)
  next
    case False
    obtain r input1 s1 where fill: "fill_prefix input s = (r, input1, s1)" by (metis prod.exhaust)
    have "\<exists>n. n \<le> length input \<and> input1 = drop n input
        \<and> try_each feed (take n input) s = (map_sum id (\<lambda>_. ()) r, s1)
        \<and> (r = Inr False \<longrightarrow> n = length input) \<and> (r = Inr True \<longrightarrow> 4 \<le> length (fs_buffer s1))"
    proof (cases "length (fs_buffer s) < 4")
      case True
      then show ?thesis using fill_prefix_feed [OF True False] by (auto simp: fill)
    next
      case long: False
      then show ?thesis using fill by (intro exI [of _ 0]) (auto simp: fill_prefix_def)
    qed
    then obtain n where n: "n \<le> length input" "input1 = drop n input"
      "try_each feed (take n input) s = (map_sum id (\<lambda>_. ()) r, s1)"
      "r = Inr False \<longrightarrow> n = length input" "r = Inr True \<longrightarrow> 4 \<le> length (fs_buffer s1)" by blast
    have inv: "stream_inv s1" by (rule stream_inv_feeds [OF 1(2) n(3)])
    have all: "try_each feed input s =
        (case r of Inl e \<Rightarrow> (Inl e, s1) | Inr _ \<Rightarrow> try_each feed input1 s1)"
      using try_each_append [of feed "take n input" "drop n input" s] n by (cases r) simp_all
    consider e where "r = Inl e" | "r = Inr False" | "r = Inr True" by (cases r) auto
    then show ?thesis
    proof cases
      case 3
      have "push input1' s1' = map_prod Some id (try_each feed input1' s1')"
        if "fill_payload input1 s1 = (Some (Inr ()), input1', s1')" "stream_inv s1'" for input1' s1'
        using 1(1) [OF False fill [symmetric]] 3 that by (simp add: id_def)
      then show ?thesis
        using payload_then_push [OF inv, of input1] n(5) 3 False fill all by (simp add: push.simps [of input s] id_def)
    qed (use False fill all n in \<open>simp_all add: push.simps [of input s]\<close>)
  qed
qed

section \<open>Frames on a stream\<close>

definition frame_of :: "bytes \<Rightarrow> bytes" where
  "frame_of payload = u32_to_le_bytes (of_nat (length payload)) @ payload"

definition payload_ok :: "bytes \<Rightarrow> bool" where
  "payload_ok payload \<longleftrightarrow> payload \<noteq> [] \<and> length payload \<le> MAX_PAYLOAD_LEN"

lemma declared_frame:
  assumes "length payload \<le> MAX_PAYLOAD_LEN"
  shows "unat (of_nat (length payload) :: u32) = length payload"
  using assms by (simp add: MAX_PAYLOAD_LEN_def unat_of_nat)

lemma encoded_frame_decodes:
  assumes law: "\<And>m. \<exists>bs. pm_encode P m = Some bs \<and> length bs = pm_encoded_len P m \<and> pm_decode P bs = Some m"
    and "FrameCodec_encode P m = Inr frame"
  shows "FrameCodec_decode P frame = Inr m \<and> length frame = pm_encoded_len P m + 4"
proof -
  obtain bs where bs: "pm_encode P m = Some bs" "length bs = pm_encoded_len P m" "pm_decode P bs = Some m"
    using law by blast
  then show ?thesis
    using assms(2) declared_frame [of bs]
    by (auto simp: FrameCodec_encode_def FrameCodec_decode_def Let_def split: if_splits)
qed

lemma feed_frame:
  assumes "fs_buffer s = []" "payload_ok payload"
    "length (fs_completed s) < MAX_QUEUED_FRAMES" "fs_queued_bytes s + length payload \<le> MAX_PAYLOAD_LEN"
  shows "try_each feed (frame_of payload) s =
    (Inr (), \<lparr>fs_buffer = [], fs_completed = fs_completed s @ [payload],
       fs_queued_bytes = fs_queued_bytes s + length payload\<rparr>)"
proof -
  let ?p = "u32_to_le_bytes (of_nat (length payload))"
  let ?s = "s\<lparr>fs_buffer := ?p\<rparr>"
  have dec: "declared_len (s\<lparr>fs_buffer := ?p @ xs\<rparr>) = length payload" for xs
    using assms(2) by (simp add: declared_len_def declared_frame payload_ok_def)
  obtain a b c d where p: "?p = [a, b, c, d]"
    by (simp add: u32_to_le_bytes_def upt_rec)
  have prefix: "try_each feed ?p s = (Inr (), ?s)"
    using dec [of "[]"] assms(1,2)
    by (simp add: p feed_def validate_declared_len_def payload_ok_def Let_def)
  obtain xs x where xs: "payload = xs @ [x]"
    using assms(2) by (metis payload_ok_def append_butlast_last_id)
  have most: "try_each feed xs ?s = (Inr (), s\<lparr>fs_buffer := ?p @ xs\<rparr>)"
    using feed_payload [of ?s xs] dec [of "[]"] by (simp add: xs)
  have last: "feed x (s\<lparr>fs_buffer := ?p @ xs\<rparr>) =
      (Inr (), \<lparr>fs_buffer = [], fs_completed = fs_completed s @ [payload],
         fs_queued_bytes = fs_queued_bytes s + length payload\<rparr>)"
    using dec [of "xs @ [x]"] assms(3,4) by (simp add: feed_def Let_def xs)
  show ?thesis
    using prefix most last unfolding frame_of_def by (simp add: try_each_append xs)
qed

lemma feed_frames:
  assumes "fs_buffer s = []" "\<forall>p \<in> set ps. payload_ok p"
    "length (fs_completed s) + length ps \<le> MAX_QUEUED_FRAMES"
    "fs_queued_bytes s + sum_list (map length ps) \<le> MAX_PAYLOAD_LEN"
  shows "try_each feed (concat (map frame_of ps)) s =
    (Inr (), \<lparr>fs_buffer = [], fs_completed = fs_completed s @ ps,
       fs_queued_bytes = fs_queued_bytes s + sum_list (map length ps)\<rparr>)"
  using assms
proof (induction ps arbitrary: s)
  case (Cons p ps)
  then show ?case by (simp add: try_each_append feed_frame add.assoc)
qed simp

fun take_all :: "nat \<Rightarrow> FramedStream \<Rightarrow> bytes list" where
  "take_all 0 s = []"
| "take_all (Suc n) s =
     (case next_payload s of (None, _) \<Rightarrow> [] | (Some p, s) \<Rightarrow> p # take_all n s)"

lemma take_all_completed: "take_all n s = take n (fs_completed s)"
  by (induction n arbitrary: s) (auto simp: next_payload_def split: list.split)

section \<open>Properties\<close>

text \<open>
  C26: The decoder that takes whole slices is the decoder that takes one byte at a time: from every
  consistent state it never panics and has the same outcome, so how the transport cuts the byte
  stream into chunks does not matter.
\<close>
theorem push_is_bytewise:
  assumes "stream_inv s"
  shows "push input s = map_prod Some id (try_each feed input s)
     \<and> push (xs @ ys) s =
        (case push xs s of (Some (Inr _), s') \<Rightarrow> push ys s' | failed \<Rightarrow> failed)"
proof
  show "push input s = map_prod Some id (try_each feed input s)" by (rule push_feed [OF assms])
  obtain r s1 where one: "try_each feed xs s = (r, s1)" by (cases "try_each feed xs s")
  have inv: "stream_inv s1" by (rule stream_inv_feeds [OF assms one])
  show "push (xs @ ys) s = (case push xs s of (Some (Inr _), s') \<Rightarrow> push ys s' | failed \<Rightarrow> failed)"
    by (cases r) (simp_all add: push_feed [OF assms] push_feed [OF inv] try_each_append one)
qed

theorem push_is_bytewise_witness:
  "push [1, 0] FramedStream_new = map_prod Some id (try_each feed [1, 0] FramedStream_new)"
  using push_is_bytewise [OF stream_inv_new] by blast

text \<open>
  Whatever a peer sends, accepted or not, the memory held for it stays bounded: fewer bytes than
  the largest frame are buffered, at most one mebibyte of payloads and 1024 payloads are queued, the
  count of queued bytes is exact, and reading a payload keeps all of this.
\<close>
lemma stream_memory_bounded:
  assumes "stream_inv s"
  shows "stream_inv (snd (push input s)) \<and> stream_inv (snd (next_payload s))
     \<and> length (fs_buffer s) < MAX_FRAME_LEN \<and> fs_queued_bytes s = sum_list (map length (fs_completed s))
     \<and> fs_queued_bytes s \<le> MAX_PAYLOAD_LEN \<and> length (fs_completed s) \<le> MAX_QUEUED_FRAMES"
proof -
  have "stream_inv (snd (push input s))"
    using stream_inv_feeds [OF assms] by (cases "try_each feed input s") (simp add: push_feed [OF assms])
  moreover have "stream_inv (snd (next_payload s))" by (rule next_payload_inv [OF assms])
  ultimately show ?thesis
    using assms by (cases "4 \<le> length (fs_buffer s)")
      (auto simp: stream_inv_alt MAX_FRAME_LEN_def)
qed

lemma stream_memory_bounded_example:
  "fs_queued_bytes (snd (push [3, 0, 0, 0, 7] FramedStream_new)) \<le> MAX_PAYLOAD_LEN"
  using stream_memory_bounded [OF conjunct1 [OF stream_memory_bounded [OF stream_inv_new]]] by blast

text \<open>
  C27: Payloads come out as they went in: encoded frames, cut into chunks anywhere, pushed chunk by
  chunk into a new decoder and read back are the payloads in order, as long as they fit the limits.
\<close>
theorem frames_roundtrip:
  assumes "concat chunks = concat (map frame_of ps)" "\<forall>p \<in> set ps. payload_ok p"
    "length ps \<le> MAX_QUEUED_FRAMES" "sum_list (map length ps) \<le> MAX_PAYLOAD_LEN"
  shows "\<exists>s. foldl (\<lambda>(r, s) chunk. case r of Some (Inr _) \<Rightarrow> push chunk s | _ \<Rightarrow> (r, s))
        (Some (Inr ()), FramedStream_new) chunks = (Some (Inr ()), s)
     \<and> take_all (length ps) s = ps \<and> FramedStream_finish s = Inr ()"
proof -
  have run: "foldl (\<lambda>(r, s) chunk. case r of Some (Inr _) \<Rightarrow> push chunk s | _ \<Rightarrow> (r, s))
      (Some (Inr ()), s) chunks = map_prod Some id (try_each feed (concat chunks) s)"
    if "stream_inv s" "fst (try_each feed (concat chunks) s) = Inr ()" for s
    using that
  proof (induction chunks arbitrary: s)
    case (Cons c cs)
    obtain r s1 where one: "try_each feed c s = (r, s1)" by (cases "try_each feed c s")
    have r: "r = Inr ()" using Cons.prems(2) one
      by (cases r) (simp_all add: try_each_append)
    have "stream_inv s1" by (rule stream_inv_feeds [OF Cons.prems(1) one])
    then show ?case
      using Cons.IH [of s1] Cons.prems one r by (simp add: push_feed try_each_append)
  qed simp
  have "try_each feed (concat chunks) FramedStream_new =
      (Inr (), \<lparr>fs_buffer = [], fs_completed = ps, fs_queued_bytes = sum_list (map length ps)\<rparr>)"
    using feed_frames [of FramedStream_new ps] assms by (simp add: FramedStream_new_def)
  then show ?thesis
    using run [OF stream_inv_new] by (auto simp: take_all_completed FramedStream_finish_def)
qed

theorem frames_roundtrip_witness:
  "\<exists>s. foldl (\<lambda>(r, s) chunk. case r of Some (Inr _) \<Rightarrow> push chunk s | _ \<Rightarrow> (r, s))
        (Some (Inr ()), FramedStream_new) [[2, 0], [0, 0, 9], [8, 1, 0, 0, 0, 5]] = (Some (Inr ()), s)
     \<and> take_all 2 s = [[9, 8], [5]] \<and> FramedStream_finish s = Inr ()"
proof -
  have "concat [[2, 0], [0, 0, 9], [8, 1, 0, 0, 0, 5]] = concat (map frame_of [[9, 8], [5]])"
    by (simp add: frame_of_def u32_to_le_bytes_def upt_rec)
  moreover have "\<forall>p \<in> set [[9, 8], [5]]. payload_ok p" "length [[9, 8 :: u8], [5]] \<le> MAX_QUEUED_FRAMES"
    "sum_list (map length [[9, 8 :: u8], [5]]) \<le> MAX_PAYLOAD_LEN"
    by (simp_all add: payload_ok_def MAX_PAYLOAD_LEN_def MAX_QUEUED_FRAMES_def)
  moreover have two: "length [[9, 8 :: u8], [5]] = 2" by simp
  ultimately show ?thesis
    using frames_roundtrip [of "[[2, 0], [0, 0, 9], [8, 1, 0, 0, 0, 5]]" "[[9, 8], [5]]"]
    unfolding two by blast
qed

text \<open>
  The one-shot codec is faithful over any protobuf encoding that is: a message whose encoding is
  neither empty nor larger than one mebibyte decodes from its frame to itself, any other message is
  refused when it is encoded, and a decoded frame is the length prefix followed by exactly the
  declared number of bytes.
\<close>
lemma frame_codec_roundtrip:
  assumes "\<And>m. \<exists>bs. pm_encode P m = Some bs \<and> length bs = pm_encoded_len P m \<and> pm_decode P bs = Some m"
  shows "(case FrameCodec_encode P m of
       Inr frame \<Rightarrow> FrameCodec_decode P frame = Inr m \<and> length frame = pm_encoded_len P m + 4
     | Inl e \<Rightarrow> e = FrameEmpty \<and> pm_encoded_len P m = 0
         \<or> e = FrameTooLarge \<and> MAX_PAYLOAD_LEN < pm_encoded_len P m)
     \<and> (FrameCodec_decode P frame = Inr m \<longrightarrow>
         length frame = unat (u32_from_le_bytes (take 4 frame)) + 4 \<and> length frame \<le> MAX_FRAME_LEN
         \<and> pm_decode P (drop 4 frame) = Some m)"
proof -
  have "case FrameCodec_encode P m of
       Inr frame \<Rightarrow> FrameCodec_decode P frame = Inr m \<and> length frame = pm_encoded_len P m + 4
     | Inl e \<Rightarrow> e = FrameEmpty \<and> pm_encoded_len P m = 0
         \<or> e = FrameTooLarge \<and> MAX_PAYLOAD_LEN < pm_encoded_len P m"
  proof (cases "FrameCodec_encode P m")
    case (Inl e)
    then show ?thesis using assms [of m] by (auto simp: FrameCodec_encode_def Let_def split: if_splits)
  next
    case (Inr frame)
    then show ?thesis using encoded_frame_decodes [OF assms Inr] by simp
  qed
  then show ?thesis
    by (auto simp: FrameCodec_decode_def Let_def MAX_FRAME_LEN_def split: if_splits option.splits)
qed

definition raw_message :: "bytes prost_message" where
  "raw_message = \<lparr>pm_encoded_len = length, pm_encode = Some, pm_decode = Some\<rparr>"

lemma frame_codec_roundtrip_example:
  "FrameCodec_decode raw_message [2, 0, 0, 0, 7, 9] = Inr [7, 9]"
proof -
  have raw: "\<exists>bs. pm_encode raw_message m = Some bs \<and> length bs = pm_encoded_len raw_message m
      \<and> pm_decode raw_message bs = Some m" for m
    by (simp add: raw_message_def)
  have "FrameCodec_encode raw_message [7, 9] = Inr [2, 0, 0, 0, 7, 9]"
    by (simp add: FrameCodec_encode_def raw_message_def MAX_PAYLOAD_LEN_def u32_to_le_bytes_def upt_rec)
  then show ?thesis using frame_codec_roundtrip [OF raw, of "[7, 9]"] by simp
qed

end
