(* ===== verification/Core_Control.thy ===== *)
theory Core_Control
  imports Core_Settings Ipc_Handshake Protocol_Frames
begin

text \<open>
  The control session of the core process, \<open>crates/pal-core-win/src/control_session.rs\<close>, the loop
  that drives it over a pipe, \<open>crates/pal-windows-ipc/src/session.rs\<close>, and the adapter between them in
  \<open>crates/pal-core-win/src/ipc_runtime.rs\<close>.

  The shared store behind its mutex is a component of the session state; other sessions act on it
  between any two messages, given by lists of store calls.  The protobuf codec is an argument.  What
  the pipe delivers is a script: the chunks read, the failures, the cancellations; a script that ends
  stands for a peer that closes the pipe.  A panic is the outcome \<open>None\<close>.
\<close>

section \<open>The session\<close>

datatype SessionError =
    SessionFrameEncode FrameError | ResponseIdOverflow | SessionDisconnect PatchRejection

datatype OverlayCommandStatus = OcsUnspecified | OcsApplied | OcsNoOp | OcsRejected | OcsFailed

fun OverlayCommandStatus_i32 :: "OverlayCommandStatus \<Rightarrow> i32" where
  "OverlayCommandStatus_i32 OcsUnspecified = 0"
| "OverlayCommandStatus_i32 OcsApplied = 1"
| "OverlayCommandStatus_i32 OcsNoOp = 2"
| "OverlayCommandStatus_i32 OcsRejected = 3"
| "OverlayCommandStatus_i32 OcsFailed = 4"

datatype SettingsApplyStatus =
    SasUnspecified | SasApplied | SasVersionConflict | SasValidationRejected | SasHotkeyConflict

fun SettingsApplyStatus_i32 :: "SettingsApplyStatus \<Rightarrow> i32" where
  "SettingsApplyStatus_i32 SasUnspecified = 0"
| "SettingsApplyStatus_i32 SasApplied = 1"
| "SettingsApplyStatus_i32 SasVersionConflict = 2"
| "SettingsApplyStatus_i32 SasValidationRejected = 3"
| "SettingsApplyStatus_i32 SasHotkeyConflict = 4"

record ControlSession =
  ctl_gate :: HelloGate
  ctl_store :: SettingsStore
  ctl_next_response_id :: u64

type_synonym session_result = "(SessionError + bytes option) option \<times> ControlSession"

definition ControlSession_from_shared :: "SettingsStore \<Rightarrow> ControlSession" where
  "ControlSession_from_shared store =
     \<lparr>ctl_gate = HelloGate_new AnyLocalClient, ctl_store = store, ctl_next_response_id = 1\<rparr>"

definition ControlSession_new :: "OverlaySettings \<Rightarrow> SettingsStoreError + ControlSession" where
  "ControlSession_new settings =
     and_then (SettingsStore_new settings) (\<lambda>store. Inr (ControlSession_from_shared store))"

definition ControlSession_disconnect ::
  "ControlSession \<Rightarrow> (SessionError + StoreSnapshot) \<times> ControlSession" where
  "ControlSession_disconnect cs =
     (if \<not> is_established (ctl_gate cs) then (Inr (store_snapshot (ctl_store cs)), cs)
      else let (res, store) = force_locked (ctl_store cs)
           in (map_err SessionDisconnect res, cs\<lparr>ctl_store := store\<rparr>))"

definition established_connection_id :: "ControlSession \<Rightarrow> bytes" where
  "established_connection_id cs =
     (case gate_connection_id (ctl_gate cs) of None \<Rightarrow> replicate 16 0 | Some value \<Rightarrow> value)"

definition response_envelope :: "LocalEnvelope \<Rightarrow> Payload \<Rightarrow> bytes \<Rightarrow> u64 \<Rightarrow> LocalEnvelope" where
  "response_envelope request payload connection_id message_id =
     \<lparr>le_protocol_version = LOCAL_PROTOCOL_VERSION, le_connection_id = connection_id,
      le_message_id = message_id, le_reply_to_message_id = Some (le_message_id request),
      le_payload = Some payload\<rparr>"

definition session_response ::
  "LocalEnvelope prost_message \<Rightarrow> LocalEnvelope \<Rightarrow> Payload \<Rightarrow> bytes \<Rightarrow> ControlSession \<Rightarrow> session_result" where
  "session_response P request payload connection_id cs =
     (let message_id = ctl_next_response_id cs in
      case checked_add (ctl_next_response_id cs) 1 of
        None \<Rightarrow> (Some (Inl ResponseIdOverflow), cs)
      | Some next_id \<Rightarrow>
          (case FrameCodec_encode P (response_envelope request payload connection_id message_id) of
             Inl e \<Rightarrow> (Some (Inl (SessionFrameEncode e)), cs\<lparr>ctl_next_response_id := next_id\<rparr>)
           | Inr frame \<Rightarrow> (Some (Inr (Some frame)), cs\<lparr>ctl_next_response_id := next_id\<rparr>)))"

definition protocol_error_values ::
  "LocalEnvelope prost_message \<Rightarrow> LocalEnvelope \<Rightarrow> ProtocolErrorCode \<Rightarrow> string \<Rightarrow> ControlSession \<Rightarrow> session_result" where
  "protocol_error_values P request code field cs =
     session_response P request
       (PError \<lparr>pe_code = ProtocolErrorCode_i32 code, pe_field = field, pe_offending_value = []\<rparr>)
       (established_connection_id cs) cs"

definition protocol_error ::
  "LocalEnvelope prost_message \<Rightarrow> LocalEnvelope \<Rightarrow> HelloRejection \<Rightarrow> ControlSession \<Rightarrow> session_result" where
  "protocol_error P request r cs = protocol_error_values P request (rej_code r) (rej_field r) cs"

definition handle_query ::
  "LocalEnvelope prost_message \<Rightarrow> LocalEnvelope \<Rightarrow> bytes \<Rightarrow> ControlSession \<Rightarrow> session_result" where
  "handle_query P e trace_id cs =
     (let snapshot = store_snapshot (ctl_store cs) in
      case encode_overlay_settings (snap_settings snapshot) of
        Inl _ \<Rightarrow> (None, cs)
      | Inr settings \<Rightarrow>
          session_response P e
            (PSettingsSnapshot \<lparr>ssn_trace_id = trace_id, ssn_settings_version = snap_version snapshot,
               ssn_settings = Some settings\<rparr>)
            (established_connection_id cs) cs)"

fun action_status :: "ActionResult \<Rightarrow> OverlayCommandStatus \<times> ProtocolErrorCode \<times> StoreSnapshot" where
  "action_status (ActionApplied snapshot) = (OcsApplied, CodeNone, snapshot)"
| "action_status (ActionNoOp snapshot) = (OcsNoOp, CodeNone, snapshot)"
| "action_status (ActionVersionConflict snapshot) = (OcsRejected, CodeVersionConflict, snapshot)"
| "action_status (ActionRejected current _) = (OcsRejected, InvalidSettings, current)"

definition handle_command ::
  "LocalEnvelope prost_message \<Rightarrow> LocalEnvelope \<Rightarrow> OverlayCommand \<Rightarrow> ControlSession \<Rightarrow> session_result" where
  "handle_command P e command cs =
     (case OverlayCommandKind_try_from (oc_command command) of
        None \<Rightarrow> protocol_error_values P e ValidationFailed ''overlay_command.command'' cs
      | Some raw_command \<Rightarrow>
          (case decode_overlay_action raw_command of
             Inl _ \<Rightarrow> protocol_error_values P e ValidationFailed ''overlay_command.command'' cs
           | Inr action \<Rightarrow>
               let (result, store) =
                     apply_action (ctl_store cs) (oc_expected_settings_version command) action;
                   cs = cs\<lparr>ctl_store := store\<rparr>;
                   (status, error_code, snapshot) = action_status result;
                   settings = snap_settings snapshot
               in case encode_overlay_settings settings of
                    Inl _ \<Rightarrow> (None, cs)
                  | Inr effective \<Rightarrow>
                      session_response P e
                        (POverlayCommandResult
                          \<lparr>ocr_trace_id = oc_trace_id command,
                           ocr_status = OverlayCommandStatus_i32 status,
                           ocr_visible = enabled settings,
                           ocr_input_mode = WireInputMode_i32 (encode_input_mode (input_mode settings)),
                           ocr_display_mode =
                             WireDisplayMode_i32 (encode_display_mode (display_mode settings)),
                           ocr_settings_version = snap_version snapshot,
                           ocr_error_code = ProtocolErrorCode_i32 error_code,
                           ocr_effective_settings = Some effective\<rparr>)
                        (established_connection_id cs) cs))"

fun patch_status :: "PatchResult \<Rightarrow> SettingsApplyStatus \<times> StoreSnapshot" where
  "patch_status (PatchApplied snapshot) = (SasApplied, snapshot)"
| "patch_status (PatchVersionConflict snapshot) = (SasVersionConflict, snapshot)"
| "patch_status (PatchRejected current _) = (SasValidationRejected, current)"

definition handle_patch ::
  "LocalEnvelope prost_message \<Rightarrow> LocalEnvelope \<Rightarrow> SettingsPatch \<Rightarrow> ControlSession \<Rightarrow> session_result" where
  "handle_patch P e patch cs =
     (if length (sp_trace_id patch) \<noteq> 16
      then protocol_error_values P e InvalidTraceId ''settings_patch.trace_id'' cs
      else if accepted_role (ctl_gate cs) = Some RoleOverlay
              \<and> sp_changed_fields patch \<noteq> [OverlaySettingField_i32 FieldPoiFilters]
      then protocol_error_values P e UnexpectedPayload ''settings_patch.changed_fields'' cs
      else case (case sp_candidate patch of
                   Some candidate \<Rightarrow>
                     apply_patch (ctl_store cs) (sp_expected_settings_version patch) candidate
                       (sp_changed_fields patch)
                 | None \<Rightarrow> (Some (reject_missing_candidate (ctl_store cs)), ctl_store cs)) of
          (None, store) \<Rightarrow> (None, cs\<lparr>ctl_store := store\<rparr>)
        | (Some result, store) \<Rightarrow>
            let cs = cs\<lparr>ctl_store := store\<rparr>; (status, snapshot) = patch_status result in
            (case encode_overlay_settings (snap_settings snapshot) of
               Inl _ \<Rightarrow> (None, cs)
             | Inr effective_settings \<Rightarrow>
                 session_response P e
                   (PSettingsAck \<lparr>sa_trace_id = sp_trace_id patch,
                      sa_status = SettingsApplyStatus_i32 status,
                      sa_applied_version = snap_version snapshot,
                      sa_effective_settings = Some effective_settings, sa_hotkey_conflicts = []\<rparr>)
                   (established_connection_id cs) cs))"

definition handle_envelope ::
  "LocalEnvelope prost_message \<Rightarrow> LocalEnvelope \<Rightarrow> ControlSession \<Rightarrow> session_result" where
  "handle_envelope P e cs =
     (if \<not> is_established (ctl_gate cs)
      then (case HelloGate_evaluate e (ctl_gate cs) of
              (Inr _, gate) \<Rightarrow> (Some (Inr None), cs\<lparr>ctl_gate := gate\<rparr>)
            | (Inl r, gate) \<Rightarrow> protocol_error P e r (cs\<lparr>ctl_gate := gate\<rparr>))
      else case validate_established e (ctl_gate cs) of
        Inl r \<Rightarrow> protocol_error P e r cs
      | Inr _ \<Rightarrow>
          (case le_payload e of
             Some (PSettingsQuery trace_id) \<Rightarrow> handle_query P e trace_id cs
           | Some (POverlayCommand command) \<Rightarrow> handle_command P e command cs
           | Some (PSettingsPatch patch) \<Rightarrow> handle_patch P e patch cs
           | _ \<Rightarrow> protocol_error_values P e UnexpectedPayload ''payload'' cs))"

section \<open>The loop over the pipe\<close>

datatype io_kind = Interrupted | TimedOut | InvalidData | OtherKind

datatype PipeError =
    PipeIo io_kind | PipeStream StreamError | PipeInvalidEnvelope LocalValidationError
  | PipeSession SessionError | PipeFrameTooLarge nat | PipeWriteTimeout | PipeReadTimeout
  | PipeCancelled

fun map_read_error :: "io_kind \<Rightarrow> PipeError" where
  "map_read_error Interrupted = PipeCancelled"
| "map_read_error TimedOut = PipeReadTimeout"
| "map_read_error k = PipeIo k"

fun map_write_error :: "io_kind \<Rightarrow> PipeError" where
  "map_write_error Interrupted = PipeCancelled"
| "map_write_error TimedOut = PipeWriteTimeout"
| "map_write_error k = PipeIo k"

text \<open>
  What the environment contributes: the outcome of each write (none left means success) and the
  store calls of other sessions before each message handled.
\<close>

record session_env =
  env_writes :: "io_kind option list"
  env_others :: "store_call list list"

definition others_act :: "session_env \<Rightarrow> ControlSession \<Rightarrow> session_env \<times> ControlSession" where
  "others_act env cs =
     (case env_others env of
        [] \<Rightarrow> (env, cs)
      | calls # rest \<Rightarrow>
          (env\<lparr>env_others := rest\<rparr>, cs\<lparr>ctl_store := fold store_apply calls (ctl_store cs)\<rparr>))"

definition write_frame :: "session_env \<Rightarrow> (PipeError + unit) \<times> session_env" where
  "write_frame env =
     (case env_writes env of
        [] \<Rightarrow> (Inr (), env)
      | None # rest \<Rightarrow> (Inr (), env\<lparr>env_writes := rest\<rparr>)
      | Some k # rest \<Rightarrow> (Inl (map_write_error k), env\<lparr>env_writes := rest\<rparr>))"

type_synonym pipe_state = "session_env \<times> FramedStream \<times> ControlSession"

text \<open>The inner loop: every completed frame is decoded, checked and handled.\<close>

function drain_messages ::
  "LocalEnvelope prost_message \<Rightarrow> pipe_state \<Rightarrow> (PipeError + unit) option \<times> pipe_state" where
  "drain_messages P (env, decoder, cs) =
     (case next_message P decoder of
        (Inl e, decoder) \<Rightarrow> (Some (Inl (PipeStream e)), env, decoder, cs)
      | (Inr None, decoder) \<Rightarrow> (Some (Inr ()), env, decoder, cs)
      | (Inr (Some e), decoder) \<Rightarrow>
          (case validate_local_envelope e of
             Inl err \<Rightarrow> (Some (Inl (PipeInvalidEnvelope err)), env, decoder, cs)
           | Inr _ \<Rightarrow>
               let (env, cs) = others_act env cs in
               (case handle_envelope P e cs of
                  (None, cs) \<Rightarrow> (None, env, decoder, cs)
                | (Some (Inl err), cs) \<Rightarrow> (Some (Inl (PipeSession err)), env, decoder, cs)
                | (Some (Inr None), cs) \<Rightarrow> drain_messages P (env, decoder, cs)
                | (Some (Inr (Some frame)), cs) \<Rightarrow>
                    if MAX_PAYLOAD_LEN + 4 < length frame
                    then (Some (Inl (PipeFrameTooLarge (length frame))), env, decoder, cs)
                    else (case write_frame env of
                            (Inl err, env) \<Rightarrow> (Some (Inl err), env, decoder, cs)
                          | (Inr _, env) \<Rightarrow> drain_messages P (env, decoder, cs)))))"
  by pat_completeness auto

lemma next_message_shorter:
  "next_message P s = (Inr (Some m), s') \<Longrightarrow> length (fs_completed s') < length (fs_completed s)"
  by (auto simp: next_message_def next_payload_def split: list.splits option.splits)

termination drain_messages
  by (relation "measure (\<lambda>(P, env, decoder, cs). length (fs_completed decoder))")
    (auto dest: next_message_shorter [OF sym])

declare drain_messages.simps [simp del]

datatype pipe_event = CancelSeen | ReadChunk bytes | ReadFailed io_kind

fun run_session_inner ::
  "LocalEnvelope prost_message \<Rightarrow> pipe_event list \<Rightarrow> pipe_state \<Rightarrow> (PipeError + unit) option \<times> pipe_state" where
  "run_session_inner P [] (env, decoder, cs) =
     (Some (map_err PipeStream (FramedStream_finish decoder)), env, decoder, cs)"
| "run_session_inner P (CancelSeen # _) (env, decoder, cs) = (Some (Inl PipeCancelled), env, decoder, cs)"
| "run_session_inner P (ReadFailed k # _) (env, decoder, cs) =
     (Some (Inl (map_read_error k)), env, decoder, cs)"
| "run_session_inner P (ReadChunk chunk # rest) (env, decoder, cs) =
     (if chunk = []
      then (case rest of
              CancelSeen # _ \<Rightarrow> (Some (Inl PipeCancelled), env, decoder, cs)
            | _ \<Rightarrow> (Some (map_err PipeStream (FramedStream_finish decoder)), env, decoder, cs))
      else case push chunk decoder of
        (None, decoder) \<Rightarrow> (None, env, decoder, cs)
      | (Some (Inl _), decoder) \<Rightarrow> (Some (Inl (map_read_error InvalidData)), env, decoder, cs)
      | (Some (Inr _), decoder) \<Rightarrow>
          (case drain_messages P (env, decoder, cs) of
             (Some (Inr _), state) \<Rightarrow> run_session_inner P rest state
           | failed \<Rightarrow> failed))"

text \<open>The adapter ends every session with \<open>disconnect\<close>; a panic would skip it.\<close>

definition run_control_session ::
  "LocalEnvelope prost_message \<Rightarrow> pipe_event list \<Rightarrow> session_env \<Rightarrow> SettingsStore
   \<Rightarrow> (PipeError + unit) option \<times> ControlSession" where
  "run_control_session P script env store =
     (case run_session_inner P script (env, FramedStream_new, ControlSession_from_shared store) of
        (None, _, _, cs) \<Rightarrow> (None, cs)
      | (Some result, env, _, cs) \<Rightarrow>
          (Some result, snd (ControlSession_disconnect (snd (others_act env cs)))))"

section \<open>What a message can do\<close>

lemma session_response_cases:
  obtains (overflow) "session_response P e payload c cs = (Some (Inl ResponseIdOverflow), cs)"
  | (failed) err n where "checked_add (ctl_next_response_id cs) 1 = Some n"
      "session_response P e payload c cs = (Some (Inl (SessionFrameEncode err)), cs\<lparr>ctl_next_response_id := n\<rparr>)"
  | (sent) frame n where "checked_add (ctl_next_response_id cs) 1 = Some n"
      "FrameCodec_encode P (response_envelope e payload c (ctl_next_response_id cs)) = Inr frame"
      "session_response P e payload c cs = (Some (Inr (Some frame)), cs\<lparr>ctl_next_response_id := n\<rparr>)"
  by (cases "checked_add (ctl_next_response_id cs) 1";
      cases "FrameCodec_encode P (response_envelope e payload c (ctl_next_response_id cs))")
    (auto simp: session_response_def Let_def)

text \<open>A reply: at most the response counter moves, and a frame sent carries its old value.\<close>

definition replies :: "LocalEnvelope prost_message \<Rightarrow> LocalEnvelope \<Rightarrow> ControlSession \<Rightarrow> session_result \<Rightarrow> bool" where
  "replies P e cs r \<longleftrightarrow>
     fst r \<noteq> None \<and> ctl_gate (snd r) = ctl_gate cs \<and> ctl_store (snd r) = ctl_store cs
     \<and> (case fst r of
          Some (Inr (Some frame)) \<Rightarrow>
            unat (ctl_next_response_id (snd r)) = unat (ctl_next_response_id cs) + 1
            \<and> (\<exists>payload. FrameCodec_encode P (response_envelope e payload (established_connection_id cs)
                 (ctl_next_response_id cs)) = Inr frame)
        | Some (Inr None) \<Rightarrow> False
        | _ \<Rightarrow> True)"

lemma session_response_replies:
  "replies P e cs (session_response P e payload (established_connection_id cs) cs)"
  by (cases rule: session_response_cases [of P e payload "established_connection_id cs" cs])
    (auto simp: replies_def checked_add_Some_iff)

lemma protocol_error_replies [simp]:
  "replies P e cs (protocol_error_values P e code field cs)" "replies P e cs (protocol_error P e r cs)"
  by (simp_all add: protocol_error_def protocol_error_values_def session_response_replies)

lemma encode_valid:
  assumes "settings_valid s"
  obtains v where "encode_overlay_settings s = Inr v"
  using assms encode_overlay_settings_Inr by blast

lemma connection_id_store [simp]:
  "established_connection_id (cs\<lparr>ctl_store := st\<rparr>) = established_connection_id cs"
  by (simp add: established_connection_id_def)

lemma action_snapshot: "snd (snd (action_status (fst (apply_action st v a)))) = store_snapshot (snd (apply_action st v a))"
  by (auto simp: apply_action_def rejected_action_def Let_def split: option.split sum.split)

lemma patch_snapshot:
  "apply_patch st v cand chg = (Some r, st') \<Longrightarrow> snd (patch_status r) = store_snapshot st'"
  by (cases rule: apply_patch_cases [of st v cand chg])
    (auto simp: apply_patch_def rejected_def store_snapshot_def Let_def
      split: if_splits sum.splits option.splits)

text \<open>Where a message may change the store: the store moves on its own, then a reply is sent.\<close>

definition acts :: "LocalEnvelope prost_message \<Rightarrow> LocalEnvelope \<Rightarrow> (SettingsStore \<Rightarrow> SettingsStore) \<Rightarrow> ControlSession
    \<Rightarrow> session_result \<Rightarrow> bool" where
  "acts P e f cs r \<longleftrightarrow> replies P e (cs\<lparr>ctl_store := f (ctl_store cs)\<rparr>) r"

lemma handle_query_replies:
  assumes "store_inv (ctl_store cs)"
  shows "replies P e cs (handle_query P e trace cs)"
proof -
  have "settings_valid (st_settings (ctl_store cs))" using assms by (simp add: store_inv_def)
  then obtain v where "encode_overlay_settings (st_settings (ctl_store cs)) = Inr v" by (rule encode_valid)
  then show ?thesis
    by (simp add: handle_query_def store_snapshot_def session_response_replies)
qed

lemma handle_command_acts:
  assumes "store_inv (ctl_store cs)"
  shows "replies P e cs (handle_command P e command cs)
     \<or> (\<exists>action. acts P e (\<lambda>st. snd (apply_action st (oc_expected_settings_version command) action)) cs
           (handle_command P e command cs))"
proof (cases "OverlayCommandKind_try_from (oc_command command)")
  case None
  then show ?thesis by (simp add: handle_command_def)
next
  case (Some k)
  show ?thesis
  proof (cases "decode_overlay_action k")
    case (Inl err)
    then show ?thesis by (simp add: handle_command_def Some)
  next
    case (Inr action)
    obtain r st where run: "apply_action (ctl_store cs) (oc_expected_settings_version command) action = (r, st)"
      by (cases "apply_action (ctl_store cs) (oc_expected_settings_version command) action")
    have snap: "snd (snd (action_status r)) = store_snapshot st"
      using action_snapshot [of "ctl_store cs" "oc_expected_settings_version command" action] by (simp add: run)
    have "store_inv st"
      using store_step_inv [OF apply_action_step assms] by (metis run snd_conv)
    then have "settings_valid (st_settings st)" by (simp add: store_inv_def)
    then obtain v where v: "encode_overlay_settings (st_settings st) = Inr v" by (rule encode_valid)
    have "replies P e (cs\<lparr>ctl_store := st\<rparr>) (handle_command P e command cs)"
      using snap v session_response_replies [of P e "cs\<lparr>ctl_store := st\<rparr>"]
      by (cases "action_status r") (simp add: handle_command_def Some Inr run store_snapshot_def Let_def)
    then show ?thesis using run by (auto simp: acts_def intro!: exI [of _ action])
  qed
qed

lemma handle_patch_acts:
  assumes "store_inv (ctl_store cs)"
  shows "replies P e cs (handle_patch P e patch cs)
     \<or> (\<exists>cand. sp_candidate patch = Some cand
          \<and> (accepted_role (ctl_gate cs) = Some RoleOverlay \<longrightarrow>
               sp_changed_fields patch = [OverlaySettingField_i32 FieldPoiFilters])
          \<and> acts P e (\<lambda>st. snd (apply_patch st (sp_expected_settings_version patch) cand (sp_changed_fields patch)))
               cs (handle_patch P e patch cs))"
proof (cases "length (sp_trace_id patch) \<noteq> 16 \<or> accepted_role (ctl_gate cs) = Some RoleOverlay
    \<and> sp_changed_fields patch \<noteq> [OverlaySettingField_i32 FieldPoiFilters]")
  case True
  then show ?thesis by (auto simp: handle_patch_def)
next
  case False
  have valid: "settings_valid (st_settings (ctl_store cs))" using assms by (simp add: store_inv_def)
  show ?thesis
  proof (cases "sp_candidate patch")
    case None
    obtain v where "encode_overlay_settings (st_settings (ctl_store cs)) = Inr v" by (rule encode_valid [OF valid])
    then have "replies P e cs (handle_patch P e patch cs)"
      using False None session_response_replies [of P e cs]
      by (auto simp: handle_patch_def reject_missing_candidate_def rejected_def store_snapshot_def)
    then show ?thesis by simp
  next
    case (Some cand)
    obtain x st where run: "apply_patch (ctl_store cs) (sp_expected_settings_version patch) cand
        (sp_changed_fields patch) = (x, st)"
      by (cases "apply_patch (ctl_store cs) (sp_expected_settings_version patch) cand (sp_changed_fields patch)")
    obtain r where x: "x = Some r"
      using apply_patch_cases [of "ctl_store cs" "sp_expected_settings_version patch" cand "sp_changed_fields patch"]
      by (metis fst_conv run)
    have snap: "snd (patch_status r) = store_snapshot st" by (rule patch_snapshot [OF run [unfolded x]])
    have "store_inv st" using store_step_inv [OF apply_patch_step assms] by (metis run snd_conv)
    then have "settings_valid (st_settings st)" by (simp add: store_inv_def)
    then obtain v where v: "encode_overlay_settings (st_settings st) = Inr v" by (rule encode_valid)
    have "replies P e (cs\<lparr>ctl_store := st\<rparr>) (handle_patch P e patch cs)"
      using False snap v session_response_replies [of P e "cs\<lparr>ctl_store := st\<rparr>"]
      by (cases "patch_status r") (auto simp: handle_patch_def Some run x store_snapshot_def)
    then show ?thesis using False run Some by (auto simp: acts_def)
  qed
qed

lemma acts_result:
  assumes "acts P e f cs r"
  shows "fst r \<noteq> None" "ctl_gate (snd r) = ctl_gate cs" "ctl_store (snd r) = f (ctl_store cs)"
  using assms by (simp_all add: acts_def replies_def)

lemma replies_acts: "replies P e cs r \<Longrightarrow> acts P e id cs r"
  by (simp add: acts_def)

text \<open>What a settings change needs: an established client, and a request on the version it changes.\<close>

inductive authorised :: "LocalEnvelope \<Rightarrow> HelloGate \<Rightarrow> SettingsStore \<Rightarrow> SettingsStore \<Rightarrow> bool" for e g st where
  unchanged: "authorised e g st st"
| by_command: "\<lbrakk>validate_established e g = Inr (); le_payload e = Some (POverlayCommand command);
     oc_expected_settings_version command = st_version st\<rbrakk>
   \<Longrightarrow> authorised e g st (snd (apply_action st (st_version st) action))"
| by_patch: "\<lbrakk>validate_established e g = Inr (); le_payload e = Some (PSettingsPatch patch);
     sp_candidate patch = Some cand; sp_expected_settings_version patch = st_version st;
     accepted_role g = Some RoleOverlay \<longrightarrow> sp_changed_fields patch = [OverlaySettingField_i32 FieldPoiFilters]\<rbrakk>
   \<Longrightarrow> authorised e g st (snd (apply_patch st (st_version st) cand (sp_changed_fields patch)))"

inductive_cases authorisedE: "authorised e g st st'"

lemma stale_action [simp]: "v \<noteq> st_version st \<Longrightarrow> snd (apply_action st v action) = st"
  by (simp add: apply_action_def)

lemma stale_patch [simp]: "v \<noteq> st_version st \<Longrightarrow> snd (apply_patch st v cand chg) = st"
  by (simp add: apply_patch_def)

text \<open>A request served: a reply after an authorised change.\<close>

definition serves :: "LocalEnvelope prost_message \<Rightarrow> LocalEnvelope \<Rightarrow> ControlSession \<Rightarrow> session_result \<Rightarrow> bool" where
  "serves P e cs r \<longleftrightarrow>
     (\<exists>f. acts P e f cs r \<and> authorised e (ctl_gate cs) (ctl_store cs) (f (ctl_store cs)))"

lemma replies_serves: "replies P e cs r \<Longrightarrow> serves P e cs r"
  unfolding serves_def by (rule exI [of _ id]) (simp add: replies_acts authorised.unchanged)

lemma handle_command_serves:
  assumes "store_inv (ctl_store cs)" "validate_established e (ctl_gate cs) = Inr ()"
    "le_payload e = Some (POverlayCommand command)"
  shows "serves P e cs (handle_command P e command cs)"
  using handle_command_acts [OF assms(1), of P e command]
proof (elim disjE exE)
  fix action
  assume "acts P e (\<lambda>st. snd (apply_action st (oc_expected_settings_version command) action)) cs
      (handle_command P e command cs)"
  then show ?thesis
    using authorised.by_command [OF assms(2,3)] authorised.unchanged
    by (cases "oc_expected_settings_version command = st_version (ctl_store cs)") (auto simp: serves_def)
qed (rule replies_serves)

lemma handle_patch_serves:
  assumes "store_inv (ctl_store cs)" "validate_established e (ctl_gate cs) = Inr ()"
    "le_payload e = Some (PSettingsPatch patch)"
  shows "serves P e cs (handle_patch P e patch cs)"
  using handle_patch_acts [OF assms(1), of P e patch]
proof (elim disjE exE conjE)
  fix cand
  assume "sp_candidate patch = Some cand"
    "accepted_role (ctl_gate cs) = Some RoleOverlay \<longrightarrow>
       sp_changed_fields patch = [OverlaySettingField_i32 FieldPoiFilters]"
    "acts P e (\<lambda>st. snd (apply_patch st (sp_expected_settings_version patch) cand (sp_changed_fields patch)))
       cs (handle_patch P e patch cs)"
  then show ?thesis
    using authorised.by_patch [OF assms(2,3)] authorised.unchanged
    by (cases "sp_expected_settings_version patch = st_version (ctl_store cs)") (auto simp: serves_def)
qed (rule replies_serves)

lemma established_serves:
  assumes "store_inv (ctl_store cs)" "is_established (ctl_gate cs)"
  shows "serves P e cs (handle_envelope P e cs)"
proof (cases "validate_established e (ctl_gate cs)")
  case (Inl rej)
  then show ?thesis using assms(2) by (simp add: handle_envelope_def replies_serves)
next
  case (Inr u)
  have "serves P e cs (handle_query P e trace cs)" for trace
    by (rule replies_serves [OF handle_query_replies [OF assms(1)]])
  then show ?thesis
    using assms(2) Inr handle_command_serves [OF assms(1)] handle_patch_serves [OF assms(1)]
    by (auto simp: handle_envelope_def replies_serves split: option.split Payload.split)
qed

text \<open>One message: a request served, or an accepted hello that is not answered.\<close>

lemma handle_envelope_cases:
  assumes "store_inv (ctl_store cs)"
  obtains (hello) accepted where "\<not> is_established (ctl_gate cs)"
      "handle_envelope P e cs = (Some (Inr None), cs\<lparr>ctl_gate := (ctl_gate cs)\<lparr>hg_accepted := Some accepted\<rparr>\<rparr>)"
  | (request) f where "acts P e f cs (handle_envelope P e cs)"
      "authorised e (ctl_gate cs) (ctl_store cs) (f (ctl_store cs))"
proof (cases "is_established (ctl_gate cs)")
  case True
  then show ?thesis using established_serves [OF assms, of P e] request by (auto simp: serves_def)
next
  case False
  obtain r g where gate: "HelloGate_evaluate e (ctl_gate cs) = (r, g)" by (cases "HelloGate_evaluate e (ctl_gate cs)")
  show ?thesis
  proof (cases r)
    case (Inl rej)
    then have "handle_envelope P e cs = protocol_error P e rej cs"
      using False evaluate_rejected [OF gate [unfolded Inl]] gate by (simp add: handle_envelope_def)
    then show ?thesis using request [of id] by (simp add: replies_acts authorised.unchanged)
  next
    case (Inr accepted)
    then show ?thesis
      using hello [OF False, of accepted] False evaluate_accepted(2) [OF gate [unfolded Inr]] gate
      by (simp add: handle_envelope_def)
  qed
qed

lemma authorised_step: "authorised e g st st' \<Longrightarrow> store_step st st'"
  by (auto elim!: authorisedE simp: apply_action_step apply_patch_step)


text \<open>The overlay's own change touches nothing but its point-of-interest filters.\<close>

lemma poi_filter_patch:
  assumes "apply_patch st v cand [OverlaySettingField_i32 FieldPoiFilters] = (r, st')"
  shows "st_settings st' = (st_settings st)\<lparr>poi_filters := poi_filters (st_settings st')\<rparr>"
proof (cases rule: apply_patch_cases [of st v cand "[OverlaySettingField_i32 FieldPoiFilters]"])
  case (applied c e n)
  have "OverlaySettingField_try_from 12 = Some FieldPoiFilters" by (simp add: field_try_from_iff)
  then show ?thesis using applied assms by auto
qed (use assms in simp)

section \<open>A whole session\<close>

definition session_inv :: "pipe_state \<Rightarrow> bool" where
  "session_inv = (\<lambda>(env, decoder, cs). stream_inv decoder \<and> store_inv (ctl_store cs))"

lemma handle_envelope_inv:
  assumes "store_inv (ctl_store cs)" "handle_envelope P e cs = (r, cs')"
  shows "r \<noteq> None" "store_inv (ctl_store cs')"
    "is_established (ctl_gate cs) \<Longrightarrow> ctl_gate cs' = ctl_gate cs"
proof -
  have "r \<noteq> None \<and> store_inv (ctl_store cs') \<and> (is_established (ctl_gate cs) \<longrightarrow> ctl_gate cs' = ctl_gate cs)"
    using assms(1)
  proof (cases rule: handle_envelope_cases [of cs P e])
    case (hello accepted)
    then show ?thesis using assms by auto
  next
    case (request f)
    then show ?thesis
      using acts_result [OF request(1)] store_step_inv [OF authorised_step [OF request(2)] assms(1)]
      by (simp add: assms(2))
  qed
  then show "r \<noteq> None" "store_inv (ctl_store cs')"
    "is_established (ctl_gate cs) \<Longrightarrow> ctl_gate cs' = ctl_gate cs" by blast+
qed

lemma others_act_inv:
  assumes "store_inv (ctl_store cs)" "others_act env cs = (env', cs')"
  shows "store_inv (ctl_store cs')" "ctl_gate cs' = ctl_gate cs"
  using assms store_history [OF assms(1), THEN conjunct1]
  by (cases "env_others env"; simp add: others_act_def; force)+

lemma drain_messages_inv:
  assumes "session_inv s" "drain_messages P s = (r, s')"
  shows "r \<noteq> None \<and> session_inv s'"
  using assms
proof (induction P s arbitrary: r s' rule: drain_messages.induct)
  case (1 P env decoder cs)
  obtain m decoder1 where m: "next_message P decoder = (m, decoder1)" by (cases "next_message P decoder")
  obtain env1 cs1 where oth: "others_act env cs = (env1, cs1)" by (cases "others_act env cs")
  obtain w env2 where w: "write_frame env1 = (w, env2)" by (cases "write_frame env1")
  have inv: "stream_inv decoder1" "store_inv (ctl_store cs1)"
    using 1(3) next_message_inv [of decoder P] m others_act_inv(1) [OF _ oth] by (simp_all add: session_inv_def)
  show ?case
  proof (cases "\<exists>e. m = Inr (Some e) \<and> validate_local_envelope e = Inr ()")
    case False
    then show ?thesis
      using 1(3,4) inv(1) m
      by (auto simp: drain_messages.simps [of P env decoder cs] session_inv_def split: sum.splits option.splits)
  next
    case True
    then obtain e where e: "m = Inr (Some e)" "validate_local_envelope e = Inr ()" by blast
    obtain r2 cs2 where h: "handle_envelope P e cs1 = (r2, cs2)" by (cases "handle_envelope P e cs1")
    then obtain x where x: "r2 = Some x" using handle_envelope_inv(1) [OF inv(2)] by blast
    have inv2: "session_inv (env', decoder1, cs2)" for env'
      using handle_envelope_inv(2) [OF inv(2) h] inv(1) by (simp add: session_inv_def)
    note step = 1(4) [unfolded drain_messages.simps [of P env decoder cs] m e(1) prod.case sum.case
        option.case e(2) oth Let_def h x]
    note IH = 1(1) [OF m [symmetric] e(1) refl e(2) refl oth [symmetric] h [symmetric] x]
      1(2) [OF m [symmetric] e(1) refl e(2) refl oth [symmetric] h [symmetric] x]
    show ?thesis
    proof (cases x)
      case (Inl err)
      then show ?thesis using step inv2 by auto
    next
      case (Inr sent)
      show ?thesis
      proof (cases sent)
        case None
        then show ?thesis using step Inr IH(1) [OF Inr None inv2] by simp
      next
        case (Some frame)
        then show ?thesis
          using step Inr IH(2) [OF Inr Some _ w [symmetric] _ inv2] inv2 w
          by (cases "MAX_PAYLOAD_LEN + 4 < length frame"; cases w) auto
      qed
    qed
  qed
qed

lemma run_session_inv:
  assumes "session_inv s" "run_session_inner P script s = (r, s')"
  shows "r \<noteq> None \<and> session_inv s'"
  using assms
proof (induction P script s arbitrary: r s' rule: run_session_inner.induct)
  case (4 P chunk rest env decoder cs)
  show ?case
  proof (cases "chunk = []")
    case True
    then show ?thesis using 4(2,3) by (auto split: list.splits pipe_event.splits)
  next
    case False
    have "stream_inv decoder" using 4(2) by (simp add: session_inv_def)
    note fed = push_feed [OF this, of chunk]
    obtain x decoder1 where push: "try_each feed chunk decoder = (x, decoder1)" by (cases "try_each feed chunk decoder")
    then have inv: "session_inv (env, decoder1, cs)"
      using 4(2) stream_inv_feeds [OF _ push] by (simp add: session_inv_def)
    show ?thesis
    proof (cases x)
      case (Inl e)
      then show ?thesis using 4(3) False fed push inv by auto
    next
      case (Inr u)
      obtain r1 s1 where drain: "drain_messages P (env, decoder1, cs) = (r1, s1)"
        by (cases "drain_messages P (env, decoder1, cs)")
      note drained = drain_messages_inv [OF inv drain]
      then obtain y where y: "r1 = Some y" by blast
      have push': "push chunk decoder = (Some (Inr u), decoder1)" by (simp add: fed push Inr)
      show ?thesis
      proof (cases y)
        case (Inl e)
        then show ?thesis using 4(3) False push' drain y drained by simp
      next
        case more: (Inr v)
        then show ?thesis
          using 4(1) [OF False push' [symmetric] refl refl drain [symmetric] y more] drained 4(3) False push' drain y
          by simp
      qed
    qed
  qed
qed auto

lemma disconnect_locks:
  assumes "store_inv (ctl_store cs)"
  shows "store_inv (ctl_store (snd (ControlSession_disconnect cs)))
     \<and> ctl_gate (snd (ControlSession_disconnect cs)) = ctl_gate cs
     \<and> (is_established (ctl_gate cs) \<longrightarrow>
          input_mode (st_settings (ctl_store (snd (ControlSession_disconnect cs)))) = Locked
          \<or> unat (st_version (ctl_store (snd (ControlSession_disconnect cs)))) = 2 ^ 64 - 1)"
  using force_locked_result [OF assms] store_step_inv [OF force_locked_step assms] assms
  by (auto simp: ControlSession_disconnect_def)

section \<open>Properties\<close>

text \<open>
  C5: The settings change only on an authorised request.  Handling any message never panics, and if the
  settings differ afterwards then the handshake was complete, the message belongs to the connection
  and is permitted for the client's role, it named the version of the settings it changed, and an
  overlay client changed nothing but the point-of-interest filters by a patch; the new settings are
  valid and have the next version.
\<close>
theorem settings_change_authorised:
  assumes "store_inv (ctl_store cs)" "handle_envelope P e cs = (r, cs')"
  shows "r \<noteq> None \<and> store_inv (ctl_store cs')
     \<and> (ctl_store cs' \<noteq> ctl_store cs \<longrightarrow>
          validate_established e (ctl_gate cs) = Inr () \<and> ctl_gate cs' = ctl_gate cs
          \<and> unat (st_version (ctl_store cs')) = unat (st_version (ctl_store cs)) + 1
          \<and> ((\<exists>command. le_payload e = Some (POverlayCommand command)
                \<and> oc_expected_settings_version command = st_version (ctl_store cs))
             \<or> (\<exists>patch. le_payload e = Some (PSettingsPatch patch)
                \<and> sp_expected_settings_version patch = st_version (ctl_store cs)
                \<and> (accepted_role (ctl_gate cs) = Some RoleOverlay \<longrightarrow>
                     st_settings (ctl_store cs') = (st_settings (ctl_store cs))
                       \<lparr>poi_filters := poi_filters (st_settings (ctl_store cs'))\<rparr>))))"
proof (cases "ctl_store cs' = ctl_store cs")
  case True
  then show ?thesis using handle_envelope_inv [OF assms] by simp
next
  case False
  from assms(1) obtain f where f: "acts P e f cs (r, cs')" "authorised e (ctl_gate cs) (ctl_store cs) (f (ctl_store cs))"
    by (cases rule: handle_envelope_cases [of cs P e]) (use assms(2) False in auto)
  note changed = acts_result [OF f(1)]
  then have auth: "authorised e (ctl_gate cs) (ctl_store cs) (ctl_store cs')" using f(2) by simp
  then have "unat (st_version (ctl_store cs')) = unat (st_version (ctl_store cs)) + 1"
    using authorised_step [OF auth] False by (auto simp: store_step_def)
  moreover have "st_settings (ctl_store cs') = (st_settings (ctl_store cs))\<lparr>poi_filters := poi_filters (st_settings (ctl_store cs'))\<rparr>"
    if "ctl_store cs' = snd (apply_patch (ctl_store cs) v cand [OverlaySettingField_i32 FieldPoiFilters])" for v cand
    using poi_filter_patch [of "ctl_store cs" v cand] that by (metis prod.collapse)
  ultimately show ?thesis
    using auth handle_envelope_inv [OF assms] False changed(2) by (cases rule: authorisedE) auto
qed

definition one_message_codec :: "LocalEnvelope \<Rightarrow> LocalEnvelope prost_message" where
  "one_message_codec m = \<lparr>pm_encoded_len = \<lambda>_. 1, pm_encode = \<lambda>_. Some [7],
     pm_decode = \<lambda>bytes. if bytes = [7] then Some m else None\<rparr>"

definition hello_message :: LocalEnvelope where
  "hello_message = \<lparr>le_protocol_version = 2, le_connection_id = replicate 16 9, le_message_id = 1,
     le_reply_to_message_id = None, le_payload = Some (PClientHello
       \<lparr>ch_role = 2, ch_process_id = 42, ch_minimum_protocol_version = 1, ch_maximum_protocol_version = 3\<rparr>)\<rparr>"

definition pinned_store :: SettingsStore where
  "pinned_store = \<lparr>st_settings = OverlaySettings_default\<lparr>input_mode := PinnedInteractive\<rparr>, st_version = 1\<rparr>"

lemma pinned_store_inv: "store_inv pinned_store"
  by (simp add: store_inv_def pinned_store_def settings_default_valid)

theorem settings_change_authorised_witness:
  "ctl_store (snd (handle_envelope (one_message_codec hello_message)
      (hello_message\<lparr>le_payload := Some (PSettingsQuery [])\<rparr>) (ControlSession_from_shared pinned_store))) = pinned_store"
proof -
  let ?cs = "ControlSession_from_shared pinned_store"
  let ?e = "hello_message\<lparr>le_payload := Some (PSettingsQuery [])\<rparr>"
  have cs: "ctl_store ?cs = pinned_store" by (simp add: ControlSession_from_shared_def)
  then have "store_inv (ctl_store ?cs)" by (simp add: pinned_store_inv)
  moreover have "validate_established ?e (ctl_gate ?cs) \<noteq> Inr ()"
    by (simp add: ControlSession_from_shared_def HelloGate_new_def validate_established_def)
  ultimately show ?thesis
    using settings_change_authorised [of ?cs "one_message_codec hello_message" ?e] cs by (metis prod.collapse)
qed

text \<open>
  C6: A session of an established client ends with the overlay locked, however it ends: whatever
  bytes arrive in whatever chunks, whichever reads, writes or cancellations end it, and whatever
  other sessions do to the shared store meanwhile, it does not panic, the store stays valid, and the
  input mode it leaves is locked unless the version counter is exhausted.
\<close>
theorem session_ends_locked:
  assumes "store_inv store" "run_control_session P script env store = (r, cs)"
  shows "r \<noteq> None \<and> store_inv (ctl_store cs)
     \<and> (is_established (ctl_gate cs) \<longrightarrow>
          input_mode (st_settings (ctl_store cs)) = Locked \<or> unat (st_version (ctl_store cs)) = 2 ^ 64 - 1)"
proof -
  let ?s = "(env, FramedStream_new, ControlSession_from_shared store)"
  obtain x env1 decoder1 cs1 where run: "run_session_inner P script ?s = (x, env1, decoder1, cs1)"
    by (metis prod.exhaust)
  have "session_inv ?s"
    using assms(1) stream_inv_new by (simp add: session_inv_def ControlSession_from_shared_def)
  from run_session_inv [OF this run] obtain res where res: "x = Some res" and "store_inv (ctl_store cs1)"
    by (auto simp: session_inv_def)
  moreover obtain env2 cs2 where oth: "others_act env1 cs1 = (env2, cs2)" by (cases "others_act env1 cs1")
  ultimately have "store_inv (ctl_store cs2)" using others_act_inv(1) by blast
  from disconnect_locks [OF this] show ?thesis
    using assms(2) run oth res by (auto simp: run_control_session_def)
qed

lemma session_hello_established:
  "is_established (ctl_gate (snd (run_control_session (one_message_codec hello_message)
     [ReadChunk [1, 0, 0, 0, 7], ReadFailed TimedOut] \<lparr>env_writes = [], env_others = []\<rparr> pinned_store)))"
proof -
  let ?P = "one_message_codec hello_message" and ?env = "\<lparr>env_writes = [], env_others = []\<rparr>"
  let ?cs = "ControlSession_from_shared pinned_store"
  let ?a = "\<lparr>ha_process_id = 42, ha_connection_id = replicate 16 9, ha_role = RoleOverlay\<rparr>"
  let ?cs1 = "?cs\<lparr>ctl_gate := (ctl_gate ?cs)\<lparr>hg_accepted := Some ?a\<rparr>\<rparr>"
  have role: "ClientRole_try_from 2 = Some RoleOverlay" by code_simp
  have "handle_envelope ?P hello_message ?cs = (Some (Inr None), ?cs1)"
    by (simp add: handle_envelope_def ControlSession_from_shared_def HelloGate_new_def is_established_def
        HelloGate_evaluate_def evaluate_hello_def validate_common_def hello_message_def role
        LOCAL_PROTOCOL_VERSION_def Let_def)
  moreover have "validate_local_envelope hello_message = Inr ()" by code_simp
  moreover have "push [1, 0, 0, 0, 7] FramedStream_new =
      (Some (Inr ()), \<lparr>fs_buffer = [], fs_completed = [[7]], fs_queued_bytes = 1\<rparr>)"
    using push_feed [OF stream_inv_new, of "[1, 0, 0, 0, 7]"]
    by (simp add: feed_def FramedStream_new_def validate_declared_len_def declared_len_def
        u32_from_le_bytes_def MAX_PAYLOAD_LEN_def MAX_QUEUED_FRAMES_def)
  ultimately have "run_session_inner ?P [ReadChunk [1, 0, 0, 0, 7], ReadFailed TimedOut] (?env, FramedStream_new, ?cs)
      = (Some (Inl PipeReadTimeout), ?env, FramedStream_new, ?cs1)"
    by (simp add: drain_messages.simps next_message_def next_payload_def one_message_codec_def others_act_def
        FramedStream_new_def)
  then show ?thesis
    by (simp add: run_control_session_def others_act_def ControlSession_disconnect_def is_established_def
        split: prod.split)
qed

theorem session_ends_locked_witness:
  "input_mode (st_settings (ctl_store (snd (run_control_session (one_message_codec hello_message)
      [ReadChunk [1, 0, 0, 0, 7], ReadFailed TimedOut] \<lparr>env_writes = [], env_others = []\<rparr> pinned_store)))) = Locked
   \<or> unat (st_version (ctl_store (snd (run_control_session (one_message_codec hello_message)
      [ReadChunk [1, 0, 0, 0, 7], ReadFailed TimedOut] \<lparr>env_writes = [], env_others = []\<rparr> pinned_store)))) = 2 ^ 64 - 1"
  using session_ends_locked [OF pinned_store_inv, of "one_message_codec hello_message"] session_hello_established
  by (metis prod.collapse)

text \<open>
  What the peer of a session receives.  An accepted hello is not answered and completes the
  handshake; every other message is answered by one envelope in the connection's name that names the
  message it answers and carries the next response number, and the numbers never repeat: a session
  that runs out of them fails instead.
\<close>
lemma session_answers:
  assumes "store_inv (ctl_store cs)" "handle_envelope P e cs = (Some outcome, cs')"
  shows "case outcome of
     Inr None \<Rightarrow> \<not> is_established (ctl_gate cs) \<and> is_established (ctl_gate cs')
       \<and> cs' = cs\<lparr>ctl_gate := ctl_gate cs'\<rparr>
   | Inr (Some frame) \<Rightarrow> ctl_gate cs' = ctl_gate cs
       \<and> unat (ctl_next_response_id cs') = unat (ctl_next_response_id cs) + 1
       \<and> (\<exists>payload. FrameCodec_encode P
            \<lparr>le_protocol_version = LOCAL_PROTOCOL_VERSION, le_connection_id = established_connection_id cs,
             le_message_id = ctl_next_response_id cs, le_reply_to_message_id = Some (le_message_id e),
             le_payload = Some payload\<rparr> = Inr frame)
   | Inl err \<Rightarrow> ctl_gate cs' = ctl_gate cs"
  using assms(1)
proof (cases rule: handle_envelope_cases [of cs P e])
  case (hello accepted)
  then show ?thesis using assms(2) by (auto simp: is_established_def)
next
  case (request f)
  then show ?thesis
    using assms(2) connection_id_store
    by (auto simp: acts_def replies_def response_envelope_def split: sum.splits option.splits)
qed

lemma session_answers_example:
  "unat (ctl_next_response_id (snd (handle_envelope (one_message_codec hello_message)
      (hello_message\<lparr>le_payload := Some (PSettingsQuery [])\<rparr>) (ControlSession_from_shared pinned_store)))) = 2"
proof -
  let ?cs = "ControlSession_from_shared pinned_store"
  let ?r = "handle_envelope (one_message_codec hello_message)
      (hello_message\<lparr>le_payload := Some (PSettingsQuery [])\<rparr>) ?cs"
  have cs: "store_inv (ctl_store ?cs)" "ctl_next_response_id ?cs = 1"
    by (simp_all add: ControlSession_from_shared_def pinned_store_inv)
  have "fst ?r = Some (Inr (Some [1, 0, 0, 0, 7]))"
    by (simp add: handle_envelope_def ControlSession_from_shared_def HelloGate_new_def is_established_def
        HelloGate_evaluate_def protocol_error_def protocol_error_values_def session_response_def
        checked_add_def FrameCodec_encode_def one_message_codec_def hello_message_def
        MAX_PAYLOAD_LEN_def u32_to_le_bytes_def upt_rec Let_def)
  then have "?r = (Some (Inr (Some [1, 0, 0, 0, 7])), snd ?r)" by (metis prod.collapse)
  from session_answers [OF cs(1) this] show ?thesis by (simp add: cs(2))
qed

end
