(* ===== verification/Core_Supervisor.thy ===== *)
theory Core_Supervisor
  imports Pal_Prelude
begin

text \<open>
  The supervisor of the overlay process, \<open>crates/pal-core-win/src/overlay_supervisor.rs\<close>.

  Instants and durations are milliseconds on a monotonic clock.  What the operating system answers
  during a tick (whether the child still runs, whether the executable is a regular file, whether a
  process could be started) is an argument; the child is known only by its presence.
\<close>

definition STABLE_CHILD_INTERVAL :: nat where "STABLE_CHILD_INTERVAL = 30000"
definition MAX_RESTART_DELAY :: nat where "MAX_RESTART_DELAY = 30000"

datatype OverlaySupervisorStatus =
    Started | Running | Exited | BackingOff | ExecutableMissing | StartFailed

record RestartPolicy =
  rp_consecutive_failures :: u32

definition restart_delay :: "u32 \<Rightarrow> nat" where
  "restart_delay consecutive_failures =
     (let exponent = min (sat_sub consecutive_failures 1) 5
      in min (1000 * unat (push_bit (unat exponent) (1 :: u64))) MAX_RESTART_DELAY)"

definition record_failure :: "RestartPolicy \<Rightarrow> nat \<times> RestartPolicy" where
  "record_failure p =
     (let p = p\<lparr>rp_consecutive_failures := sat_add (rp_consecutive_failures p) 1\<rparr>
      in (restart_delay (rp_consecutive_failures p), p))"

definition record_stable_child :: "RestartPolicy \<Rightarrow> RestartPolicy" where
  "record_stable_child p = p\<lparr>rp_consecutive_failures := 0\<rparr>"

record OverlaySupervisor =
  os_child :: bool
  os_child_started_at :: "nat option"
  os_retry_at :: "nat option"
  os_policy :: RestartPolicy

definition OverlaySupervisor_new :: OverlaySupervisor where
  "OverlaySupervisor_new = \<lparr>os_child = False, os_child_started_at = None, os_retry_at = None,
     os_policy = \<lparr>rp_consecutive_failures = 0\<rparr>\<rparr>"

datatype wait_answer = StillRunning | HasExited | WaitFailed

record tick_answers =
  ta_try_wait :: wait_answer
  ta_is_regular_file :: bool
  ta_spawn_ok :: bool

text \<open>The failing branches: the failure is recorded and the next attempt postponed.\<close>

definition fail_until :: "nat \<Rightarrow> OverlaySupervisor \<Rightarrow> OverlaySupervisor" where
  "fail_until now s =
     (let (delay, p) = record_failure (os_policy s)
      in s\<lparr>os_policy := p, os_retry_at := Some (now + delay)\<rparr>)"

definition supervisor_tick ::
  "tick_answers \<Rightarrow> nat \<Rightarrow> OverlaySupervisor \<Rightarrow> OverlaySupervisorStatus \<times> OverlaySupervisor" where
  "supervisor_tick answers now s =
     (if os_child s
      then (case ta_try_wait answers of
              StillRunning \<Rightarrow>
                (Running,
                 if (case os_child_started_at s of
                       None \<Rightarrow> False
                     | Some started \<Rightarrow> STABLE_CHILD_INTERVAL \<le> now - started)
                 then s\<lparr>os_policy := record_stable_child (os_policy s)\<rparr> else s)
            | _ \<Rightarrow> (Exited, fail_until now (s\<lparr>os_child := False, os_child_started_at := None\<rparr>)))
      else if (case os_retry_at s of None \<Rightarrow> False | Some retry_at \<Rightarrow> now < retry_at) then (BackingOff, s)
      else if \<not> ta_is_regular_file answers then (ExecutableMissing, fail_until now s)
      else if ta_spawn_ok answers
      then (Started, s\<lparr>os_child := True, os_child_started_at := Some now, os_retry_at := None\<rparr>)
      else (StartFailed, fail_until now s))"

definition supervisor_shutdown :: "OverlaySupervisor \<Rightarrow> OverlaySupervisor" where
  "supervisor_shutdown s =
     (if os_child s then s\<lparr>os_child := False, os_child_started_at := None\<rparr> else s)"

section \<open>The delays\<close>

lemma restart_delay_bounds: "1000 \<le> restart_delay n \<and> restart_delay n \<le> MAX_RESTART_DELAY"
proof -
  have "unat (min (sat_sub n 1) 5) \<le> 5" by (simp add: min_def word_le_nat_alt)
  then have "unat (min (sat_sub n 1) 5) \<in> {0, 1, 2, 3, 4, 5}" by auto
  then show ?thesis
    unfolding restart_delay_def Let_def
    by (elim insertE) (simp_all add: MAX_RESTART_DELAY_def)
qed

lemma restart_delay_doubles:
  assumes "0 < unat n"
  shows "restart_delay n = min (1000 * 2 ^ (unat n - 1)) MAX_RESTART_DELAY"
proof (cases "unat n \<le> 6")
  case True
  then have "unat n \<in> {1, 2, 3, 4, 5, 6}" using assms by auto
  moreover have "unat (min (sat_sub n 1) 5) = unat n - 1"
    using True assms by (auto simp: min_def word_le_nat_alt unat_sat_sub)
  ultimately show ?thesis unfolding restart_delay_def Let_def by (elim insertE) simp_all
next
  case False
  then have "unat (min (sat_sub n 1) 5) = 5" by (auto simp: min_def word_le_nat_alt unat_sat_sub)
  moreover have "(2 :: nat) ^ 5 \<le> 2 ^ (unat n - 1)" using False by (intro power_increasing) auto
  ultimately show ?thesis unfolding restart_delay_def Let_def by (simp add: MAX_RESTART_DELAY_def)
qed

section \<open>Runs\<close>

fun supervisor_run ::
  "(nat \<times> tick_answers) list \<Rightarrow> OverlaySupervisor \<Rightarrow> (nat \<times> OverlaySupervisorStatus) list \<times> OverlaySupervisor" where
  "supervisor_run [] s = ([], s)"
| "supervisor_run ((now, answers) # rest) s =
     (let (status, s) = supervisor_tick answers now s; (log, s) = supervisor_run rest s
      in ((now, status) # log, s))"

definition is_failure :: "OverlaySupervisorStatus \<Rightarrow> bool" where
  "is_failure status \<longleftrightarrow> status \<in> {Exited, ExecutableMissing, StartFailed}"

definition failure_times :: "(nat \<times> OverlaySupervisorStatus) list \<Rightarrow> nat list" where
  "failure_times log = map fst (filter (\<lambda>(_, status). is_failure status) log)"

text \<open>No failure can be reported before this time.\<close>

definition quiet_until :: "nat \<Rightarrow> OverlaySupervisor \<Rightarrow> bool" where
  "quiet_until t s \<longleftrightarrow>
     (if os_child s then (\<exists>started. os_child_started_at s = Some started \<and> t \<le> started)
      else t \<le> (case os_retry_at s of None \<Rightarrow> 0 | Some retry \<Rightarrow> retry))"

text \<open>The ticks so far were not later than this time.\<close>

definition not_after :: "nat \<Rightarrow> OverlaySupervisor \<Rightarrow> bool" where
  "not_after t s \<longleftrightarrow> (\<forall>started. os_child_started_at s = Some started \<longrightarrow> started \<le> t)"

lemma fail_until_simps [simp]:
  "os_child (fail_until now s) = os_child s" "os_child_started_at (fail_until now s) = os_child_started_at s"
  "os_retry_at (fail_until now s) = Some (now + restart_delay (sat_add (rp_consecutive_failures (os_policy s)) 1))"
  "rp_consecutive_failures (os_policy (fail_until now s)) = sat_add (rp_consecutive_failures (os_policy s)) 1"
  by (simp_all add: fail_until_def record_failure_def Let_def)

lemma tick_failure:
  assumes "supervisor_tick answers now s = (status, s')" "is_failure status"
  shows "\<not> os_child s'" "os_child_started_at s' = (if os_child s then None else os_child_started_at s)"
    "os_retry_at s' = Some (now + restart_delay (rp_consecutive_failures (os_policy s')))"
    "rp_consecutive_failures (os_policy s') = sat_add (rp_consecutive_failures (os_policy s)) 1"
  using assms
  by (auto simp: supervisor_tick_def is_failure_def split: wait_answer.splits if_splits option.splits)

lemma tick_quiet:
  assumes "supervisor_tick answers now s = (status, s')" "quiet_until t s" "not_after now s"
  shows "not_after now s' \<and> (if is_failure status then t \<le> now \<and> quiet_until (now + 1000) s' else quiet_until t s')"
proof (cases "is_failure status")
  case True
  note fail = tick_failure [OF assms(1) True]
  have "1000 \<le> restart_delay (rp_consecutive_failures (os_policy s'))" using restart_delay_bounds by blast
  moreover have "t \<le> now"
    using assms True
    by (auto simp: supervisor_tick_def is_failure_def quiet_until_def not_after_def
        split: wait_answer.splits if_splits option.splits)
  ultimately show ?thesis
    using True fail assms(3) by (simp add: quiet_until_def not_after_def split: if_splits)
next
  case False
  then show ?thesis
    using assms
    by (auto simp: supervisor_tick_def is_failure_def quiet_until_def not_after_def
        split: wait_answer.splits if_splits option.splits)
qed

lemma run_spaced:
  assumes "supervisor_run ticks s = (log, s')" "sorted (map fst ticks)"
    and "quiet_until t s" "\<forall>now \<in> fst ` set ticks. not_after now s"
  shows "sorted_wrt (\<lambda>a b. a + 1000 \<le> b) (failure_times log) \<and> (\<forall>f \<in> set (failure_times log). t \<le> f)"
  using assms
proof (induction ticks arbitrary: s log t)
  case (Cons tick ticks)
  obtain now answers where tick: "tick = (now, answers)" by (cases tick)
  obtain status s1 where one: "supervisor_tick answers now s = (status, s1)" by (cases "supervisor_tick answers now s")
  obtain log1 where rest: "supervisor_run ticks s1 = (log1, s')" "log = (now, status) # log1"
    using Cons.prems(1) one tick by (auto split: prod.splits)
  have q: "not_after now s1" "if is_failure status then t \<le> now \<and> quiet_until (now + 1000) s1 else quiet_until t s1"
    using tick_quiet [OF one Cons.prems(3)] Cons.prems(4) tick by auto
  have later: "\<forall>now' \<in> fst ` set ticks. not_after now' s1"
    using q(1) Cons.prems(2) tick by (force simp: not_after_def)
  have times: "failure_times log = (if is_failure status then now # failure_times log1 else failure_times log1)"
    by (simp add: failure_times_def rest(2))
  show ?case
  proof (cases "is_failure status")
    case True
    then have "sorted_wrt (\<lambda>a b. a + 1000 \<le> b) (failure_times log1) \<and> (\<forall>f \<in> set (failure_times log1). now + 1000 \<le> f)"
      using Cons.IH [OF rest(1) _ _ later, of "now + 1000"] q Cons.prems(2) by simp
    then show ?thesis using times True q by auto
  next
    case False
    then show ?thesis using Cons.IH [OF rest(1) _ _ later, of t] q Cons.prems(2) times by simp
  qed
qed (simp add: failure_times_def)

lemma spaced_length:
  "sorted_wrt (\<lambda>a b. a + 1000 \<le> b) fs \<Longrightarrow> fs \<noteq> [] \<Longrightarrow> 1000 * (length fs - 1) + hd fs \<le> (last fs :: nat)"
proof (induction fs rule: rev_induct)
  case (snoc f fs)
  show ?case
  proof (cases "fs = []")
    case False
    then have "last fs + 1000 \<le> f" "0 < length fs" using snoc.prems(1) by (auto simp: sorted_wrt_append)
    moreover have "1000 * (length fs - 1) + hd fs \<le> last fs"
      using snoc False by (auto simp: sorted_wrt_append)
    ultimately show ?thesis using False by (cases "length fs") auto
  qed simp
qed simp

section \<open>Properties\<close>

text \<open>
  The supervisor never restarts in a storm: in every run of ticks on a clock that does not go
  back, whatever the operating system answers, the failures (a child that exited, a missing
  executable, a process that could not be started) are at least a second apart, so that a run with
  that many failures took at least as many seconds less one.
\<close>
lemma supervisor_failures_spaced:
  assumes "supervisor_run ticks OverlaySupervisor_new = (log, s)" "sorted (map fst ticks)"
  shows "sorted_wrt (\<lambda>a b. a + 1000 \<le> b) (failure_times log)
     \<and> (failure_times log \<noteq> [] \<longrightarrow>
          1000 * (length (failure_times log) - 1) + hd (failure_times log) \<le> last (failure_times log))"
proof -
  have "quiet_until 0 OverlaySupervisor_new" "\<forall>now \<in> fst ` set ticks. not_after now OverlaySupervisor_new"
    by (simp_all add: quiet_until_def not_after_def OverlaySupervisor_new_def)
  from run_spaced [OF assms this] spaced_length show ?thesis by blast
qed

lemma supervisor_failures_spaced_example:
  "sorted_wrt (\<lambda>a b. a + 1000 \<le> b) (failure_times (fst (supervisor_run
     (map (\<lambda>t. (t, \<lparr>ta_try_wait = HasExited, ta_is_regular_file = False, ta_spawn_ok = True\<rparr>)) [5, 10, 1005, 2000, 4000])
     OverlaySupervisor_new)))"
  using supervisor_failures_spaced [OF prod.collapse [symmetric],
      of "map (\<lambda>t. (t, \<lparr>ta_try_wait = HasExited, ta_is_regular_file = False, ta_spawn_ok = True\<rparr>)) [5, 10, 1005, 2000, 4000]"]
  by simp

text \<open>
  After a failure the supervisor waits one second, doubled with every further failure in a row
  and capped at thirty: until then ticks change nothing, and from then on the next tick tries to
  start the overlay again, which it then runs.
\<close>
lemma supervisor_backs_off:
  assumes "supervisor_tick answers now s = (status, s')" "is_failure status"
  shows "let n = unat (rp_consecutive_failures (os_policy s')); delay = min (1000 * 2 ^ (n - 1)) 30000 in
     n = min (unat (rp_consecutive_failures (os_policy s)) + 1) (2 ^ 32 - 1)
     \<and> (\<forall>later < now + delay. supervisor_tick answers' later s' = (BackingOff, s'))
     \<and> (\<forall>later \<ge> now + delay. ta_is_regular_file answers' \<and> ta_spawn_ok answers' \<longrightarrow>
          fst (supervisor_tick answers' later s') = Started \<and> os_child (snd (supervisor_tick answers' later s')))"
proof -
  note fail = tick_failure [OF assms]
  have n: "unat (rp_consecutive_failures (os_policy s')) = min (unat (rp_consecutive_failures (os_policy s)) + 1) (2 ^ 32 - 1)"
    using fail(4) by (simp add: unat_sat_add)
  then have "restart_delay (rp_consecutive_failures (os_policy s'))
      = min (1000 * 2 ^ (unat (rp_consecutive_failures (os_policy s')) - 1)) 30000"
    using restart_delay_doubles [of "rp_consecutive_failures (os_policy s')"] by (simp add: MAX_RESTART_DELAY_def)
  then show ?thesis using n fail(1,3) by (simp add: Let_def supervisor_tick_def)
qed

lemma supervisor_backs_off_example:
  "fst (supervisor_tick \<lparr>ta_try_wait = WaitFailed, ta_is_regular_file = True, ta_spawn_ok = True\<rparr> 1700
     (snd (supervisor_tick \<lparr>ta_try_wait = WaitFailed, ta_is_regular_file = False, ta_spawn_ok = True\<rparr> 700
        OverlaySupervisor_new))) = Started"
proof -
  let ?a = "\<lparr>ta_try_wait = WaitFailed, ta_is_regular_file = False, ta_spawn_ok = True\<rparr>"
  have fail: "supervisor_tick ?a 700 OverlaySupervisor_new = (ExecutableMissing, fail_until 700 OverlaySupervisor_new)"
    by (simp add: supervisor_tick_def OverlaySupervisor_new_def)
  have n: "unat (sat_add (rp_consecutive_failures (os_policy OverlaySupervisor_new)) 1) = 1"
    by (simp add: OverlaySupervisor_new_def sat_add_def)
  from supervisor_backs_off [OF fail, of "\<lparr>ta_try_wait = WaitFailed, ta_is_regular_file = True, ta_spawn_ok = True\<rparr>"]
  show ?thesis by (simp add: is_failure_def Let_def n fail)
qed

end
