(* ===== verification/Overlay_Control.thy ===== *)
theory Overlay_Control
  imports Domain_Settings
begin

text \<open>
  The control document through which the overlay settings persist, \<open>crates/pal-overlay-control/src/lib.rs\<close>:
  its conversion from and to the domain settings, its validation, and reading, creating, migrating and
  writing the file.

  The file is its contents, \<open>None\<close> when it does not exist; it does not change while a call reads it.
  The JSON codec is an argument, as is which accesses of the operating system fail; a write replaces
  the whole file or leaves it.  The text of a settings error is the error itself.  The catalog of
  points of interest in the same file is not modelled.
\<close>

definition CONTROL_SCHEMA :: string where "CONTROL_SCHEMA = ''palbeacon.overlay_control.v2''"
definition MAX_CONTROL_BYTES :: nat where "MAX_CONTROL_BYTES = 16 * 1024"

datatype ControlRotationMode = CtlNorthUp | CtlHeadingUp
datatype ControlInputMode = CtlLocked | CtlPinnedInteractive
datatype ControlDisplayMode = CtlMiniMap | CtlExpandedMap
datatype ControlFpsProfile = CtlThirty | CtlSixty

record ControlHotkeyModifiers =
  chm_control :: bool
  chm_alt :: bool
  chm_shift :: bool
  chm_windows :: bool

record ControlHotkeyChord =
  chc_modifiers :: ControlHotkeyModifiers
  chc_virtual_key :: u16

record ControlHotkeyBindings =
  chb_overlay_visibility :: "ControlHotkeyChord option"
  chb_rotation_toggle :: "ControlHotkeyChord option"
  chb_temporary_interaction :: "ControlHotkeyChord option"
  chb_interaction_lock :: "ControlHotkeyChord option"

record ControlPoiFilters =
  cpf_fast_travel :: bool
  cpf_boss :: bool
  cpf_wanted :: bool
  cpf_dungeon :: bool
  cpf_enabled_layer_ids :: "string list"
  cpf_selected_pal_ids :: "string list"
  cpf_night_only :: bool

record ControlSettings =
  cs_enabled :: bool
  cs_rotation_mode :: ControlRotationMode
  cs_input_mode :: ControlInputMode
  cs_display_mode :: ControlDisplayMode
  cs_opacity :: fl
  cs_diameter_px :: u32
  cs_zoom :: fl
  cs_fps_profile :: ControlFpsProfile
  cs_poi_filters :: ControlPoiFilters
  cs_hotkey_bindings :: ControlHotkeyBindings

definition ControlHotkeyBindings_default :: ControlHotkeyBindings where
  "ControlHotkeyBindings_default =
     (let modifiers = \<lparr>chm_control = False, chm_alt = False, chm_shift = False, chm_windows = False\<rparr>
      in \<lparr>chb_overlay_visibility = Some \<lparr>chc_modifiers = modifiers, chc_virtual_key = 0x77\<rparr>,
          chb_rotation_toggle = Some \<lparr>chc_modifiers = modifiers\<lparr>chm_control := True\<rparr>, chc_virtual_key = 0x78\<rparr>,
          chb_temporary_interaction = None, chb_interaction_lock = None\<rparr>)"

definition ControlPoiFilters_default :: ControlPoiFilters where
  "ControlPoiFilters_default =
     \<lparr>cpf_fast_travel = True, cpf_boss = True, cpf_wanted = False, cpf_dungeon = True,
      cpf_enabled_layer_ids = [''map-unlock'', ''poi'', ''tower''], cpf_selected_pal_ids = [],
      cpf_night_only = False\<rparr>"

definition ControlSettings_default :: ControlSettings where
  "ControlSettings_default =
     \<lparr>cs_enabled = True, cs_rotation_mode = CtlNorthUp, cs_input_mode = CtlLocked,
      cs_display_mode = CtlMiniMap, cs_opacity = f32_lit (92 / 100), cs_diameter_px = 320,
      cs_zoom = f32_lit 1, cs_fps_profile = CtlSixty, cs_poi_filters = ControlPoiFilters_default,
      cs_hotkey_bindings = ControlHotkeyBindings_default\<rparr>"

section \<open>Conversions\<close>

definition chord_from_domain :: "HotkeyChord \<Rightarrow> ControlHotkeyChord" where
  "chord_from_domain c =
     \<lparr>chc_modifiers = \<lparr>chm_control = hm_control (hc_modifiers c), chm_alt = hm_alt (hc_modifiers c),
        chm_shift = hm_shift (hc_modifiers c), chm_windows = hm_windows (hc_modifiers c)\<rparr>,
      chc_virtual_key = hc_virtual_key c\<rparr>"

definition chord_to_domain :: "ControlHotkeyChord \<Rightarrow> HotkeyChord" where
  "chord_to_domain c =
     \<lparr>hc_modifiers = \<lparr>hm_control = chm_control (chc_modifiers c), hm_alt = chm_alt (chc_modifiers c),
        hm_shift = chm_shift (chc_modifiers c), hm_windows = chm_windows (chc_modifiers c)\<rparr>,
      hc_virtual_key = chc_virtual_key c\<rparr>"

definition bindings_from_domain :: "HotkeyBindings \<Rightarrow> ControlHotkeyBindings" where
  "bindings_from_domain b =
     \<lparr>chb_overlay_visibility = map_option chord_from_domain (overlay_visibility b),
      chb_rotation_toggle = map_option chord_from_domain (rotation_toggle b),
      chb_temporary_interaction = map_option chord_from_domain (temporary_interaction b),
      chb_interaction_lock = map_option chord_from_domain (interaction_lock b)\<rparr>"

definition bindings_to_domain :: "ControlHotkeyBindings \<Rightarrow> HotkeyBindings" where
  "bindings_to_domain b =
     \<lparr>overlay_visibility = map_option chord_to_domain (chb_overlay_visibility b),
      rotation_toggle = map_option chord_to_domain (chb_rotation_toggle b),
      temporary_interaction = map_option chord_to_domain (chb_temporary_interaction b),
      interaction_lock = map_option chord_to_domain (chb_interaction_lock b)\<rparr>"

definition ControlSettings_from_domain :: "OverlaySettings \<Rightarrow> ControlSettings" where
  "ControlSettings_from_domain s =
     \<lparr>cs_enabled = enabled s,
      cs_rotation_mode = (case rotation_mode s of NorthUp \<Rightarrow> CtlNorthUp | HeadingUp \<Rightarrow> CtlHeadingUp),
      cs_input_mode = (case input_mode s of PinnedInteractive \<Rightarrow> CtlPinnedInteractive | _ \<Rightarrow> CtlLocked),
      cs_display_mode = (case display_mode s of MiniMap \<Rightarrow> CtlMiniMap | ExpandedMap \<Rightarrow> CtlExpandedMap),
      cs_opacity = opacity s, cs_diameter_px = diameter_px s, cs_zoom = zoom s,
      cs_fps_profile = (case fps_profile s of Thirty \<Rightarrow> CtlThirty | _ \<Rightarrow> CtlSixty),
      cs_poi_filters = \<lparr>cpf_fast_travel = fast_travel (poi_filters s), cpf_boss = boss (poi_filters s),
        cpf_wanted = wanted (poi_filters s), cpf_dungeon = dungeon (poi_filters s),
        cpf_enabled_layer_ids = enabled_layer_ids (poi_filters s),
        cpf_selected_pal_ids = selected_pal_ids (poi_filters s), cpf_night_only = night_only (poi_filters s)\<rparr>,
      cs_hotkey_bindings = bindings_from_domain (hotkey_bindings s)\<rparr>"

datatype io_error = IoNotFound | IoOther

datatype ControlError =
    ControlIo io_error | ControlJson | FileTooLarge | SchemaMismatch | InvalidVersion
  | ControlInvalidSettings SettingsValidationError

definition control_poi_filters :: "ControlPoiFilters \<Rightarrow> PoiFilters" where
  "control_poi_filters f =
     \<lparr>fast_travel = cpf_fast_travel f, boss = cpf_boss f, wanted = cpf_wanted f, dungeon = cpf_dungeon f,
      enabled_layer_ids = cpf_enabled_layer_ids f, selected_pal_ids = cpf_selected_pal_ids f,
      night_only = cpf_night_only f\<rparr>"

definition control_overlay_settings :: "ControlSettings \<Rightarrow> OverlaySettings" where
  "control_overlay_settings c =
     \<lparr>enabled = cs_enabled c, auto_show = True,
      rotation_mode = (case cs_rotation_mode c of CtlNorthUp \<Rightarrow> NorthUp | CtlHeadingUp \<Rightarrow> HeadingUp),
      input_mode = (case cs_input_mode c of CtlLocked \<Rightarrow> Locked | CtlPinnedInteractive \<Rightarrow> PinnedInteractive),
      display_mode = (case cs_display_mode c of CtlMiniMap \<Rightarrow> MiniMap | CtlExpandedMap \<Rightarrow> ExpandedMap),
      opacity = cs_opacity c, diameter_px = cs_diameter_px c, zoom = cs_zoom c,
      normalized_x = f32_lit 0, normalized_y = f32_lit 0,
      fps_profile = (case cs_fps_profile c of CtlThirty \<Rightarrow> Thirty | CtlSixty \<Rightarrow> Sixty),
      poi_filters = control_poi_filters (cs_poi_filters c),
      hotkey_bindings = bindings_to_domain (cs_hotkey_bindings c)\<rparr>"

definition ControlSettings_to_domain :: "ControlSettings \<Rightarrow> ControlError + OverlaySettings" where
  "ControlSettings_to_domain c =
     (let settings = control_overlay_settings c;
          settings = settings\<lparr>poi_filters := snd (remove_hidden_unverified_layers (poi_filters settings))\<rparr>
      in and_then (map_err ControlInvalidSettings (OverlaySettings_validate settings)) (\<lambda>_. Inr settings))"

section \<open>Documents\<close>

record OverlayControlDocument =
  cd_schema :: string
  cd_version :: u64
  cd_updated_at_unix_ms :: u64
  cd_settings :: ControlSettings

definition OverlayControlDocument_default :: "u64 \<Rightarrow> OverlayControlDocument" where
  "OverlayControlDocument_default unix_ms =
     \<lparr>cd_schema = CONTROL_SCHEMA, cd_version = 1, cd_updated_at_unix_ms = unix_ms,
      cd_settings = ControlSettings_default\<rparr>"

definition OverlayControlDocument_validate :: "OverlayControlDocument \<Rightarrow> ControlError + unit" where
  "OverlayControlDocument_validate d =
     (if cd_schema d \<noteq> CONTROL_SCHEMA then Inl SchemaMismatch
      else if cd_version d = 0 then Inl InvalidVersion
      else and_then (ControlSettings_to_domain (cd_settings d)) (\<lambda>_. Inr ()))"

definition OverlayControlDocument_next ::
  "u64 \<Rightarrow> ControlSettings \<Rightarrow> u64 \<Rightarrow> ControlError + OverlayControlDocument" where
  "OverlayControlDocument_next unix_ms settings current_version =
     (case checked_add current_version 1 of
        None \<Rightarrow> Inl InvalidVersion
      | Some version \<Rightarrow>
          let document = \<lparr>cd_schema = CONTROL_SCHEMA, cd_version = version,
                cd_updated_at_unix_ms = unix_ms, cd_settings = settings\<rparr>
          in and_then (OverlayControlDocument_validate document) (\<lambda>_. Inr document))"

section \<open>The file\<close>

record json_codec =
  jc_to_vec :: "OverlayControlDocument \<Rightarrow> bytes option"
  jc_from_slice :: "bytes \<Rightarrow> OverlayControlDocument option"

record file_access =
  fa_read :: "io_error option"
  fa_write :: "io_error option"

definition read_bounded :: "file_access \<Rightarrow> nat \<Rightarrow> bytes option \<Rightarrow> ControlError + bytes" where
  "read_bounded fa maximum file =
     (case fa_read fa of
        Some e \<Rightarrow> Inl (ControlIo e)
      | None \<Rightarrow>
          (case file of
             None \<Rightarrow> Inl (ControlIo IoNotFound)
           | Some bytes \<Rightarrow> if maximum < length bytes then Inl FileTooLarge else Inr bytes))"

definition read_control :: "json_codec \<Rightarrow> file_access \<Rightarrow> bytes option \<Rightarrow> ControlError + OverlayControlDocument" where
  "read_control J fa file =
     and_then (read_bounded fa MAX_CONTROL_BYTES file) (\<lambda>bytes.
       case jc_from_slice J bytes of
         None \<Rightarrow> Inl ControlJson
       | Some document \<Rightarrow> and_then (OverlayControlDocument_validate document) (\<lambda>_. Inr document))"

definition write_control ::
  "json_codec \<Rightarrow> file_access \<Rightarrow> OverlayControlDocument \<Rightarrow> bytes option \<Rightarrow> (ControlError + unit) \<times> bytes option" where
  "write_control J fa document file =
     (case OverlayControlDocument_validate document of
        Inl e \<Rightarrow> (Inl e, file)
      | Inr _ \<Rightarrow>
          (case jc_to_vec J document of
             None \<Rightarrow> (Inl ControlJson, file)
           | Some bytes \<Rightarrow>
               if MAX_CONTROL_BYTES < length bytes then (Inl FileTooLarge, file)
               else (case fa_write fa of
                       Some e \<Rightarrow> (Inl (ControlIo e), file)
                     | None \<Rightarrow> (Inr (), Some bytes))))"

definition read_or_create_control ::
  "json_codec \<Rightarrow> file_access \<Rightarrow> u64 \<Rightarrow> bytes option \<Rightarrow> (ControlError + OverlayControlDocument) \<times> bytes option" where
  "read_or_create_control J fa unix_ms file =
     (case read_control J fa file of
        Inr document \<Rightarrow>
          (case ControlSettings_to_domain (cd_settings document) of
             Inl e \<Rightarrow> (Inl e, file)
           | Inr sanitized \<Rightarrow>
               let sanitized_settings = ControlSettings_from_domain sanitized in
               if sanitized_settings = cd_settings document then (Inr document, file)
               else (case OverlayControlDocument_next unix_ms sanitized_settings (cd_version document) of
                       Inl e \<Rightarrow> (Inl e, file)
                     | Inr migrated \<Rightarrow>
                         (case write_control J fa migrated file of
                            (Inl e, file) \<Rightarrow> (Inl e, file)
                          | (Inr _, file) \<Rightarrow> (Inr migrated, file))))
      | Inl e \<Rightarrow>
          if e = ControlIo IoNotFound
          then let document = OverlayControlDocument_default unix_ms in
               (case write_control J fa document file of
                  (Inl e, file) \<Rightarrow> (Inl e, file)
                | (Inr _, file) \<Rightarrow> (Inr document, file))
          else (Inl e, file))"

section \<open>Sanitised settings\<close>

lemma chord_roundtrip [simp]: "chord_from_domain (chord_to_domain c) = c" "chord_to_domain (chord_from_domain d) = d"
  by (simp_all add: chord_from_domain_def chord_to_domain_def)

lemma bindings_roundtrip [simp]:
  "bindings_from_domain (bindings_to_domain b) = b" "bindings_to_domain (bindings_from_domain d) = d"
  by (simp_all add: bindings_from_domain_def bindings_to_domain_def option.map_comp comp_def option.map_ident)

text \<open>What sanitising removes, and what a control document does not keep.\<close>

definition visible_layers :: "ControlSettings \<Rightarrow> ControlSettings" where
  "visible_layers c = c\<lparr>cs_poi_filters := (cs_poi_filters c)\<lparr>cpf_enabled_layer_ids :=
     filter (\<lambda>l. l \<notin> set HIDDEN_UNVERIFIED_LAYER_IDS) (cpf_enabled_layer_ids (cs_poi_filters c))\<rparr>\<rparr>"

definition persistent_settings :: "OverlaySettings \<Rightarrow> OverlaySettings" where
  "persistent_settings s = s\<lparr>auto_show := True, normalized_x := f32_lit 0, normalized_y := f32_lit 0,
     input_mode := (if input_mode s = PinnedInteractive then PinnedInteractive else Locked),
     fps_profile := (if fps_profile s = Thirty then Thirty else Sixty)\<rparr>"

lemma from_control_settings:
  "ControlSettings_from_domain (control_overlay_settings c) = c"
  by (rule ControlSettings.equality)
    (simp_all add: ControlSettings_from_domain_def control_overlay_settings_def control_poi_filters_def
      split: ControlRotationMode.split ControlInputMode.split ControlDisplayMode.split ControlFpsProfile.split)

lemma control_settings_from:
  "control_overlay_settings (ControlSettings_from_domain s) = persistent_settings s"
  by (rule OverlaySettings.equality)
    (simp_all add: ControlSettings_from_domain_def control_overlay_settings_def control_poi_filters_def
      persistent_settings_def split: RotationMode.split InputMode.split DisplayMode.split FpsProfile.split)

lemma from_to_domain:
  assumes "ControlSettings_to_domain c = Inr s"
  shows "ControlSettings_from_domain s = visible_layers c"
proof -
  have "s = (control_overlay_settings c)\<lparr>poi_filters :=
      snd (remove_hidden_unverified_layers (control_poi_filters (cs_poi_filters c)))\<rparr>"
    using assms by (auto simp: ControlSettings_to_domain_def Let_def and_then_eq_Inr control_overlay_settings_def)
  also have "\<dots> = control_overlay_settings (visible_layers c)"
    by (simp add: control_overlay_settings_def visible_layers_def control_poi_filters_def
        remove_hidden_unverified_layers_def Let_def)
  finally show ?thesis by (simp add: from_control_settings)
qed

lemma no_hidden_layers:
  assumes "layer_ids_ok (enabled_layer_ids f)"
  shows "snd (remove_hidden_unverified_layers f) = f"
proof -
  have "filter (\<lambda>l. l \<notin> set HIDDEN_UNVERIFIED_LAYER_IDS) (enabled_layer_ids f) = enabled_layer_ids f"
    using assms by (auto simp: layer_ids_ok_def filter_id_conv)
  then show ?thesis by (simp add: remove_hidden_unverified_layers_def Let_def)
qed

lemma persistent_valid: "settings_valid s \<Longrightarrow> settings_valid (persistent_settings s)"
proof -
  have "fl_in_closed (f32_lit 0) (f32_lit 1) (f32_lit 0)" by code_simp
  then show "settings_valid s \<Longrightarrow> settings_valid (persistent_settings s)"
    by (simp add: settings_valid_iff persistent_settings_def del: f32_lit_values validate_hotkeys.simps)
qed

lemma to_from_domain:
  assumes "settings_valid s"
  shows "ControlSettings_to_domain (ControlSettings_from_domain s) = Inr (persistent_settings s)"
proof -
  have "layer_ids_ok (enabled_layer_ids (poi_filters s))" using assms by (simp add: settings_valid_iff)
  note visible = no_hidden_layers [OF this]
  have "poi_filters (persistent_settings s) = poi_filters s" by (simp add: persistent_settings_def)
  then have "(persistent_settings s)\<lparr>poi_filters := snd (remove_hidden_unverified_layers (poi_filters (persistent_settings s)))\<rparr>
      = persistent_settings s" using visible by (simp add: persistent_settings_def)
  then show ?thesis
    using persistent_valid [OF assms] by (simp add: ControlSettings_to_domain_def control_settings_from Let_def)
qed

lemma to_domain_valid:
  assumes "ControlSettings_to_domain c = Inr s"
  shows "settings_valid s" "persistent_settings s = s"
proof -
  show "settings_valid s"
    using assms by (auto simp: ControlSettings_to_domain_def Let_def and_then_eq_Inr)
  show "persistent_settings s = s"
    using assms
    by (auto simp: ControlSettings_to_domain_def Let_def and_then_eq_Inr persistent_settings_def
        control_overlay_settings_def split: ControlInputMode.split ControlFpsProfile.split)
qed

text \<open>A document whose settings sanitising leaves alone.\<close>

definition sanitised :: "OverlayControlDocument \<Rightarrow> bool" where
  "sanitised d \<longleftrightarrow> OverlayControlDocument_validate d = Inr () \<and> visible_layers (cd_settings d) = cd_settings d"

lemma visible_layers_idem [simp]: "visible_layers (visible_layers c) = visible_layers c"
  by (simp add: visible_layers_def)

lemma next_sanitised:
  assumes "OverlayControlDocument_next unix_ms (visible_layers c) v = Inr d"
  shows "sanitised d" "unat (cd_version d) = unat v + 1"
  using assms
  by (auto simp: OverlayControlDocument_next_def Let_def and_then_eq_Inr sanitised_def checked_add_Some_iff
      split: option.splits)

lemma default_sanitised: "sanitised (OverlayControlDocument_default unix_ms)"
proof -
  have "(case ControlSettings_to_domain ControlSettings_default of Inr _ \<Rightarrow> True | _ \<Rightarrow> False)"
    "visible_layers ControlSettings_default = ControlSettings_default"
    by code_simp+
  then show ?thesis
    by (auto simp: sanitised_def OverlayControlDocument_default_def OverlayControlDocument_validate_def split: sum.splits)
qed

lemma read_sanitised:
  assumes "sanitised d" "fa_read fa = None" "jc_from_slice J bytes = Some d" "length bytes \<le> MAX_CONTROL_BYTES"
  shows "read_or_create_control J fa unix_ms (Some bytes) = (Inr d, Some bytes)"
proof -
  have valid: "OverlayControlDocument_validate d = Inr ()" "visible_layers (cd_settings d) = cd_settings d"
    using assms(1) by (simp_all add: sanitised_def)
  then obtain s where s: "ControlSettings_to_domain (cd_settings d) = Inr s"
    by (auto simp: OverlayControlDocument_validate_def and_then_eq_Inr split: if_splits)
  have "read_control J fa (Some bytes) = Inr d"
    using assms valid by (simp add: read_control_def read_bounded_def)
  then show ?thesis
    using s from_to_domain [OF s] valid(2) by (simp add: read_or_create_control_def)
qed

lemma write_control_Inr:
  "write_control J fa d file = (Inr u, file') \<longleftrightarrow>
     (\<exists>bytes. OverlayControlDocument_validate d = Inr () \<and> jc_to_vec J d = Some bytes
        \<and> length bytes \<le> MAX_CONTROL_BYTES \<and> fa_write fa = None \<and> file' = Some bytes)"
  by (auto simp: write_control_def split: sum.splits option.splits)

lemma read_control_Inr:
  "read_control J fa file = Inr d \<longleftrightarrow>
     (\<exists>bytes. file = Some bytes \<and> fa_read fa = None \<and> length bytes \<le> MAX_CONTROL_BYTES
        \<and> jc_from_slice J bytes = Some d \<and> OverlayControlDocument_validate d = Inr ())"
  by (auto simp: read_control_def read_bounded_def and_then_eq_Inr split: option.splits)

text \<open>A file that holds a document for good: opening it returns the document and does not write.\<close>

definition settled :: "json_codec \<Rightarrow> OverlayControlDocument \<Rightarrow> bytes option \<Rightarrow> bool" where
  "settled J d file \<longleftrightarrow>
     (\<forall>fa unix_ms. fa_read fa = None \<longrightarrow> read_or_create_control J fa unix_ms file = (Inr d, file))"

lemma write_control_Inl: "write_control J fa d file = (Inl e, file') \<Longrightarrow> file' = file"
  by (auto simp: write_control_def split: sum.splits option.splits if_splits)

lemma write_settles:
  assumes codec: "\<And>d bytes. \<lbrakk>OverlayControlDocument_validate d = Inr (); jc_to_vec J d = Some bytes\<rbrakk>
      \<Longrightarrow> jc_from_slice J bytes = Some d"
    and "sanitised d"
    and run: "(case write_control J fa d file of (Inl e, file) \<Rightarrow> (Inl e, file) | (Inr _, file) \<Rightarrow> (Inr d, file)) = (r, file')"
  shows "(\<exists>e. r = Inl e) \<and> file' = file \<or> r = Inr d \<and> settled J d file'"
proof -
  obtain w f where w: "write_control J fa d file = (w, f)" by (cases "write_control J fa d file")
  show ?thesis
  proof (cases w)
    case (Inl e)
    then show ?thesis using run w by (auto dest: write_control_Inl)
  next
    case (Inr u)
    then obtain bytes where bytes: "OverlayControlDocument_validate d = Inr ()" "jc_to_vec J d = Some bytes"
      "length bytes \<le> MAX_CONTROL_BYTES" "f = Some bytes" using w by (auto simp: write_control_Inr)
    have "settled J d (Some bytes)"
      unfolding settled_def using read_sanitised [OF assms(2) _ codec [OF bytes(1,2)] bytes(3)] by blast
    then show ?thesis using run w Inr bytes(4) by auto
  qed
qed

lemma migrate_control:
  assumes "read_control J fa file = Inr old" "\<not> sanitised old"
    and run: "read_or_create_control J fa unix_ms file = (r, file')"
  obtains (refused) e where "r = Inl e" "file' = file"
  | (migrated) d where "sanitised d" "cd_settings d = visible_layers (cd_settings old)"
      "unat (cd_version d) = unat (cd_version old) + 1"
      "(case write_control J fa d file of (Inl e, file) \<Rightarrow> (Inl e, file) | (Inr _, file) \<Rightarrow> (Inr d, file)) = (r, file')"
proof -
  have valid: "OverlayControlDocument_validate old = Inr ()" using assms(1) by (auto simp: read_control_Inr)
  then obtain s where s: "ControlSettings_to_domain (cd_settings old) = Inr s"
    by (auto simp: OverlayControlDocument_validate_def and_then_eq_Inr split: if_splits)
  have changed: "visible_layers (cd_settings old) \<noteq> cd_settings old" using assms(2) valid by (simp add: sanitised_def)
  show thesis
  proof (cases "OverlayControlDocument_next unix_ms (visible_layers (cd_settings old)) (cd_version old)")
    case (Inl e)
    then show ?thesis
      using run assms(1) s from_to_domain [OF s] changed
      by (intro refused [of e]) (simp_all add: read_or_create_control_def)
  next
    case (Inr d)
    note d = next_sanitised [OF Inr]
    have "cd_settings d = visible_layers (cd_settings old)"
      using Inr by (auto simp: OverlayControlDocument_next_def Let_def and_then_eq_Inr split: option.splits)
    then show ?thesis
      using run assms(1) s from_to_domain [OF s] changed Inr d
      by (intro migrated [of d]) (simp_all add: read_or_create_control_def)
  qed
qed

section \<open>Properties\<close>

text \<open>
  Control settings and domain settings convert into each other: valid domain settings come back
  from their control form with everything that is meant to persist (the rest takes its fixed value),
  and control settings that convert come back without their hidden layers and nothing else changed.
\<close>
lemma control_settings_roundtrip:
  "(settings_valid s \<longrightarrow> ControlSettings_to_domain (ControlSettings_from_domain s) = Inr (persistent_settings s))
   \<and> (case ControlSettings_to_domain c of
        Inl _ \<Rightarrow> True
      | Inr s' \<Rightarrow> settings_valid s' \<and> ControlSettings_from_domain s' = visible_layers c
          \<and> ControlSettings_to_domain (visible_layers c) = Inr s')"
proof -
  have "settings_valid s' \<and> ControlSettings_from_domain s' = visible_layers c
      \<and> ControlSettings_to_domain (visible_layers c) = Inr s'" if "ControlSettings_to_domain c = Inr s'" for s'
    using to_domain_valid [OF that] from_to_domain [OF that] to_from_domain [of s'] by simp
  then show ?thesis using to_from_domain by (auto split: sum.split)
qed

lemma control_settings_roundtrip_example:
  "ControlSettings_to_domain (ControlSettings_from_domain OverlaySettings_default)
     = Inr (persistent_settings OverlaySettings_default)"
  using control_settings_roundtrip [of OverlaySettings_default] settings_default_valid by blast

text \<open>
  C18: Opening the control file settles it.  When it succeeds, the file holds the returned document,
  which is valid and free of hidden layers, and opening it again gives the same document without
  writing.  A document that needed no change is returned as it was, one that did gets the next
  version; a call that fails leaves the file as it was.
\<close>
theorem control_file_settles:
  assumes codec: "\<And>d bytes. \<lbrakk>OverlayControlDocument_validate d = Inr (); jc_to_vec J d = Some bytes\<rbrakk>
      \<Longrightarrow> jc_from_slice J bytes = Some d"
    and run: "read_or_create_control J fa unix_ms file = (r, file')"
  shows "case r of
     Inl _ \<Rightarrow> file' = file
   | Inr d \<Rightarrow> sanitised d \<and> settled J d file'
       \<and> (case read_control J fa file of
            Inl e \<Rightarrow> e = ControlIo IoNotFound \<and> d = OverlayControlDocument_default unix_ms
          | Inr old \<Rightarrow> if sanitised old then d = old \<and> file' = file
              else cd_settings d = visible_layers (cd_settings old) \<and> unat (cd_version d) = unat (cd_version old) + 1)"
proof (cases "read_control J fa file")
  case (Inl e)
  show ?thesis
  proof (cases "e = ControlIo IoNotFound")
    case True
    have "(case write_control J fa (OverlayControlDocument_default unix_ms) file of
        (Inl e, file) \<Rightarrow> (Inl e, file) | (Inr _, file) \<Rightarrow> (Inr (OverlayControlDocument_default unix_ms), file)) = (r, file')"
      using run Inl True by (simp add: read_or_create_control_def Let_def)
    from write_settles [OF codec default_sanitised this] show ?thesis using Inl True default_sanitised by auto
  next
    case False
    then have "r = Inl e" "file' = file" using run Inl by (simp_all add: read_or_create_control_def)
    then show ?thesis by simp
  qed
next
  case (Inr old)
  show ?thesis
  proof (cases "sanitised old")
    case True
    obtain bytes where old: "file = Some bytes" "length bytes \<le> MAX_CONTROL_BYTES" "jc_from_slice J bytes = Some old" "fa_read fa = None"
      using Inr by (auto simp: read_control_Inr)
    have "settled J old file"
      unfolding settled_def old(1) using read_sanitised [OF True _ old(3,2)] by blast
    moreover from this have "r = Inr old" "file' = file" using run old(4) by (simp_all add: settled_def)
    ultimately show ?thesis using True Inr by simp
  next
    case False
    from Inr False run show ?thesis
    proof (cases rule: migrate_control)
      case (migrated d)
      from write_settles [OF codec migrated(1,4)] show ?thesis using migrated Inr False by auto
    qed simp
  qed
qed

definition one_document_codec :: "OverlayControlDocument \<Rightarrow> json_codec" where
  "one_document_codec d = \<lparr>jc_to_vec = \<lambda>x. if x = d then Some [7] else None,
     jc_from_slice = \<lambda>bytes. if bytes = [7] then Some d else None\<rparr>"

theorem control_file_settles_witness:
  "read_or_create_control (one_document_codec (OverlayControlDocument_default 5))
     \<lparr>fa_read = None, fa_write = Some IoOther\<rparr> 9 (Some [7]) = (Inr (OverlayControlDocument_default 5), Some [7])"
proof -
  let ?J = "one_document_codec (OverlayControlDocument_default 5)" and ?fa = "\<lparr>fa_read = None, fa_write = None\<rparr>"
  have run: "read_or_create_control ?J ?fa 5 None = (Inr (OverlayControlDocument_default 5), Some [7])"
    using default_sanitised [of 5]
    by (simp add: read_or_create_control_def read_control_def read_bounded_def write_control_def one_document_codec_def
        sanitised_def MAX_CONTROL_BYTES_def)
  have "jc_from_slice ?J bytes = Some d" if "jc_to_vec ?J d = Some bytes" for d bytes
    using that by (simp add: one_document_codec_def split: if_splits)
  from control_file_settles [OF this run] show ?thesis by (simp add: settled_def)
qed

end
