(* ===== verification/Overlay_Host.thy ===== *)
theory Overlay_Host
  imports Windows_Tracker
begin

text \<open>
  The overlay window of the game overlay process: its lifecycle controller
  (\<open>crates/pal-overlay-win/src/host_model.rs\<close>), the geometry it passes to the window
  (\<open>crates/pal-overlay-win/src/lib.rs\<close>, \<open>placement.rs\<close>), the single-slot mailbox between its threads
  (\<open>mailbox.rs\<close>) and the intents its hotkeys produce (\<open>control_intent.rs\<close>).

  The window itself is a backend, a record of the two operations of the trait over any state; what a
  backend promises is the locale \<open>shell_backend\<close>.
\<close>

section \<open>Geometry\<close>

record PhysicalPoint =
  pp_x :: i32
  pp_y :: i32

record PhysicalSize =
  sz_width :: u32
  sz_height :: u32

record PhysicalRect =
  pr_left :: i32
  pr_top :: i32
  pr_width :: u32
  pr_height :: u32

definition rect_contains :: "PhysicalRect \<Rightarrow> PhysicalPoint \<Rightarrow> bool" where
  "rect_contains r p =
     (sint (pr_left r) \<le> sint (pp_x p) \<and> sint (pp_x p) < sint (pr_left r) + uint (pr_width r)
      \<and> sint (pr_top r) \<le> sint (pp_y p) \<and> sint (pp_y p) < sint (pr_top r) + uint (pr_height r))"

datatype HitShape = RoundedRectangle (shape_bounds: PhysicalRect) (corner_radius_px: u32)

record OverlayLayout =
  ol_host_rect :: PhysicalRect
  ol_surface_shape :: HitShape
  ol_map_viewport_rect :: PhysicalRect
  ol_control_rail_rect :: "PhysicalRect option"
  ol_viewport_size :: PhysicalSize

record TopLeftOverlayLayouts =
  tl_mini :: OverlayLayout
  tl_expanded :: OverlayLayout

datatype ResizeHandle = North | NorthEast | East | SouthEast | South | SouthWest | West | NorthWest

definition resize_handle :: "PhysicalRect \<Rightarrow> PhysicalPoint \<Rightarrow> ResizeHandle option" where
  "resize_handle bounds point =
     (let x = sint (pp_x point); y = sint (pp_y point);
          left = sint (pr_left bounds); top_edge = sint (pr_top bounds);
          right = left + uint (pr_width bounds); bottom = top_edge + uint (pr_height bounds);
          west = x - left < 12; east = right - x \<le> 12; north = y - top_edge < 12; south = bottom - y \<le> 12
      in if north \<and> east then Some NorthEast
         else if north \<and> west then Some NorthWest
         else if east \<and> south then Some SouthEast
         else if south \<and> west then Some SouthWest
         else if north then Some North
         else if east then Some East
         else if south then Some South
         else if west then Some West
         else None)"

section \<open>The lifecycle controller\<close>

datatype SuspendReason = Minimized | Inactive | DisplayChange | Explicit

datatype OverlayLifecycle = Detached | HiddenAttached | Visible | Suspended SuspendReason

datatype HostUpdate = Changed | Unchanged

record HostPlan =
  hp_layout :: OverlayLayout
  hp_display_mode :: DisplayMode
  hp_input_mode :: InputMode
  hp_visible :: bool

definition plan_window_rect :: "HostPlan \<Rightarrow> PhysicalRect" where
  "plan_window_rect p = shape_bounds (ol_surface_shape (hp_layout p))"

definition plan_transparent :: "HostPlan \<Rightarrow> bool" where
  "plan_transparent p = (hp_input_mode p = Locked)"

record ('b, 'e) shell_ops =
  sh_apply_plan :: "HostPlan \<Rightarrow> 'b \<Rightarrow> ('e + unit) \<times> 'b"
  sh_hide_fail_closed :: "'b \<Rightarrow> ('e + unit) \<times> 'b"

record 'b OverlayHostController =
  hc_backend :: 'b
  hc_layout :: OverlayLayout
  hc_mini_layout :: OverlayLayout
  hc_expanded_layout :: OverlayLayout
  hc_display_mode :: DisplayMode
  hc_input_mode :: InputMode
  hc_lifecycle :: OverlayLifecycle
  hc_requested_visible :: bool
  hc_attached_window :: "u64 option"
  hc_last_plan :: "HostPlan option"

definition OverlayHostController_new :: "'b \<Rightarrow> TopLeftOverlayLayouts \<Rightarrow> 'b OverlayHostController" where
  "OverlayHostController_new backend layouts =
     \<lparr>hc_backend = backend, hc_layout = tl_mini layouts, hc_mini_layout = tl_mini layouts,
      hc_expanded_layout = tl_expanded layouts, hc_display_mode = MiniMap, hc_input_mode = Locked,
      hc_lifecycle = Detached, hc_requested_visible = True, hc_attached_window = None, hc_last_plan = None\<rparr>"

definition host_is_visible :: "'b OverlayHostController \<Rightarrow> bool" where
  "host_is_visible h = (hc_lifecycle h = Visible)"

definition host_current_plan :: "'b OverlayHostController \<Rightarrow> HostPlan" where
  "host_current_plan h = \<lparr>hp_layout = hc_layout h, hp_display_mode = hc_display_mode h,
     hp_input_mode = hc_input_mode h, hp_visible = (hc_lifecycle h = Visible)\<rparr>"

definition host_apply_current ::
  "('b, 'e) shell_ops \<Rightarrow> bool \<Rightarrow> 'b OverlayHostController \<Rightarrow> ('e + HostUpdate) \<times> 'b OverlayHostController" where
  "host_apply_current B state_changed h =
     (let plan = host_current_plan h in
      if hc_last_plan h = Some plan then (Inr (if state_changed then Changed else Unchanged), h)
      else case sh_apply_plan B plan (hc_backend h) of
        (Inl error, b) \<Rightarrow>
          let b = snd (sh_hide_fail_closed B b) in
          (Inl error, h\<lparr>hc_backend := b, hc_input_mode := Locked,
             hc_lifecycle := (if hc_attached_window h \<noteq> None then HiddenAttached else Detached),
             hc_last_plan := None\<rparr>)
      | (Inr _, b) \<Rightarrow> (Inr Changed, h\<lparr>hc_backend := b, hc_last_plan := Some plan\<rparr>))"

definition layout_for :: "DisplayMode \<Rightarrow> 'b OverlayHostController \<Rightarrow> OverlayLayout" where
  "layout_for mode h = (case mode of MiniMap \<Rightarrow> hc_mini_layout h | ExpandedMap \<Rightarrow> hc_expanded_layout h)"

definition host_attach ::
  "('b, 'e) shell_ops \<Rightarrow> TrackedWindow \<Rightarrow> 'b OverlayHostController \<Rightarrow> ('e + HostUpdate) \<times> 'b OverlayHostController" where
  "host_attach B game h =
     (let prior = host_is_visible h; snapshot = tw_snapshot game;
          host_rect = \<lparr>pr_left = ws_client_left snapshot, pr_top = ws_client_top snapshot,
             pr_width = ws_client_width snapshot, pr_height = ws_client_height snapshot\<rparr>;
          h = h\<lparr>hc_attached_window := Some (tw_id game),
             hc_mini_layout := (hc_mini_layout h)\<lparr>ol_host_rect := host_rect\<rparr>,
             hc_expanded_layout := (hc_expanded_layout h)\<lparr>ol_host_rect := host_rect\<rparr>\<rparr>;
          h = h\<lparr>hc_layout := layout_for (hc_display_mode h) h\<rparr>;
          h = (if ws_minimized snapshot then h\<lparr>hc_input_mode := Locked, hc_lifecycle := Suspended Minimized\<rparr>
               else if \<not> ws_active snapshot \<or> \<not> ws_visible snapshot
               then h\<lparr>hc_input_mode := Locked, hc_lifecycle := Suspended Inactive\<rparr>
               else if hc_requested_visible h then h\<lparr>hc_lifecycle := Visible\<rparr>
               else h\<lparr>hc_input_mode := Locked, hc_lifecycle := HiddenAttached\<rparr>)
      in host_apply_current B (prior \<noteq> host_is_visible h) h)"

definition host_apply_layouts ::
  "('b, 'e) shell_ops \<Rightarrow> TopLeftOverlayLayouts \<Rightarrow> 'b OverlayHostController \<Rightarrow> ('e + HostUpdate) \<times> 'b OverlayHostController" where
  "host_apply_layouts B layouts h =
     (if hc_mini_layout h = tl_mini layouts \<and> hc_expanded_layout h = tl_expanded layouts then (Inr Unchanged, h)
      else let h = h\<lparr>hc_mini_layout := tl_mini layouts, hc_expanded_layout := tl_expanded layouts\<rparr>
           in host_apply_current B True (h\<lparr>hc_layout := layout_for (hc_display_mode h) h\<rparr>))"

definition host_set_display_mode ::
  "('b, 'e) shell_ops \<Rightarrow> DisplayMode \<Rightarrow> 'b OverlayHostController \<Rightarrow> ('e + HostUpdate) \<times> 'b OverlayHostController" where
  "host_set_display_mode B mode h =
     (if hc_display_mode h = mode then (Inr Unchanged, h)
      else host_apply_current B True (h\<lparr>hc_display_mode := mode, hc_layout := layout_for mode h\<rparr>))"

definition host_set_input_mode ::
  "('b, 'e) shell_ops \<Rightarrow> InputMode \<Rightarrow> 'b OverlayHostController \<Rightarrow> ('e + HostUpdate) \<times> 'b OverlayHostController" where
  "host_set_input_mode B mode h =
     (let actual = (if hc_lifecycle h = Visible then mode else Locked) in
      if hc_input_mode h = actual then (Inr Unchanged, h)
      else host_apply_current B True (h\<lparr>hc_input_mode := actual\<rparr>))"

definition host_set_requested_visible ::
  "('b, 'e) shell_ops \<Rightarrow> bool \<Rightarrow> 'b OverlayHostController \<Rightarrow> ('e + HostUpdate) \<times> 'b OverlayHostController" where
  "host_set_requested_visible B visible h =
     (if hc_requested_visible h = visible then (Inr Unchanged, h)
      else let h = h\<lparr>hc_requested_visible := visible\<rparr> in
        if hc_attached_window h = None then (Inr Changed, h)
        else (case hc_lifecycle h of
                Suspended _ \<Rightarrow> host_apply_current B True (h\<lparr>hc_input_mode := Locked\<rparr>)
              | _ \<Rightarrow>
                  if visible then host_apply_current B True (h\<lparr>hc_lifecycle := Visible\<rparr>)
                  else host_apply_current B True (h\<lparr>hc_input_mode := Locked, hc_lifecycle := HiddenAttached\<rparr>)))"

definition host_suspend ::
  "('b, 'e) shell_ops \<Rightarrow> SuspendReason \<Rightarrow> 'b OverlayHostController \<Rightarrow> ('e + unit) \<times> 'b OverlayHostController" where
  "host_suspend B reason h =
     (if hc_lifecycle h = Detached \<or> hc_lifecycle h = Suspended reason then (Inr (), h)
      else let (res, h) = host_apply_current B True (h\<lparr>hc_input_mode := Locked, hc_lifecycle := Suspended reason\<rparr>)
           in (map_sum id (\<lambda>_. ()) res, h))"

definition host_detach ::
  "('b, 'e) shell_ops \<Rightarrow> 'b OverlayHostController \<Rightarrow> ('e + unit) \<times> 'b OverlayHostController" where
  "host_detach B h =
     (if hc_lifecycle h = Detached then (Inr (), h)
      else let (res, h) = host_apply_current B True
                 (h\<lparr>hc_input_mode := Locked, hc_lifecycle := Detached, hc_attached_window := None\<rparr>)
           in (map_sum id (\<lambda>_. ()) res, h))"

section \<open>The mailbox\<close>

record 'v LatestMailbox =
  mb_generation :: u64
  mb_latest :: "(u64 \<times> 'v) option"

definition mailbox_new :: "'v LatestMailbox" where
  "mailbox_new = \<lparr>mb_generation = 0, mb_latest = None\<rparr>"

text \<open>An exhausted generation panics.\<close>

definition mailbox_publish :: "'v \<Rightarrow> 'v LatestMailbox \<Rightarrow> (u64 \<times> 'v LatestMailbox) option" where
  "mailbox_publish value m =
     (case checked_add (mb_generation m) 1 of
        None \<Rightarrow> None
      | Some generation \<Rightarrow> Some (generation, \<lparr>mb_generation = generation, mb_latest = Some (generation, value)\<rparr>))"

definition mailbox_take_latest :: "'v LatestMailbox \<Rightarrow> (u64 \<times> 'v) option \<times> 'v LatestMailbox" where
  "mailbox_take_latest m = (mb_latest m, m\<lparr>mb_latest := None\<rparr>)"

text \<open>A taken value is the last one published, and is taken once.\<close>

lemma mailbox_publish_take:
  assumes "mailbox_publish v m = Some (g, m')"
  shows "mailbox_take_latest m' = (Some (g, v), m'\<lparr>mb_latest := None\<rparr>)" "mb_generation m < g"
    and "fst (mailbox_take_latest (snd (mailbox_take_latest m'))) = None"
proof -
  have g: "g = mb_generation m + 1" "unat (mb_generation m) + 1 < 2 ^ 64"
    using assms by (auto simp: mailbox_publish_def checked_add_def split: option.splits if_splits)
  then show "mb_generation m < g" by (simp add: word_less_nat_alt unat_word_ariths)
  show "mailbox_take_latest m' = (Some (g, v), m'\<lparr>mb_latest := None\<rparr>)"
    using assms by (auto simp: mailbox_publish_def mailbox_take_latest_def split: option.splits)
  show "fst (mailbox_take_latest (snd (mailbox_take_latest m'))) = None" by (simp add: mailbox_take_latest_def)
qed

section \<open>Hotkey intents\<close>

datatype ControlIntent =
    IntentAction (intent_version: u64) (intent_action: OverlayAction)
  | ReplacePoiFilters (intent_version: u64) (intent_filters: PoiFilters)

definition control_intent_for_hotkey :: "HotkeyAction \<Rightarrow> OverlaySettings \<Rightarrow> u64 \<Rightarrow> ControlIntent" where
  "control_intent_for_hotkey action settings expected_settings_version =
     IntentAction expected_settings_version
       (case action of
          OverlayVisibility \<Rightarrow> ToggleVisibility
        | RotationToggle \<Rightarrow> ToggleRotation
        | TemporaryInteraction \<Rightarrow> (case input_mode settings of Locked \<Rightarrow> EnterInteractive | _ \<Rightarrow> Lock)
        | InteractionLock \<Rightarrow> Lock)"

section \<open>Histories\<close>

datatype host_op =
    HostAttach TrackedWindow | HostApplyLayouts TopLeftOverlayLayouts | HostSetDisplayMode DisplayMode
  | HostSetInputMode InputMode | HostSetRequestedVisible bool | HostSuspend SuspendReason | HostDetach

text \<open>One call, whether it succeeds or fails.\<close>

fun host_step :: "('b, 'e) shell_ops \<Rightarrow> host_op \<Rightarrow> 'b OverlayHostController \<Rightarrow> 'b OverlayHostController" where
  "host_step B (HostAttach game) h = snd (host_attach B game h)"
| "host_step B (HostApplyLayouts layouts) h = snd (host_apply_layouts B layouts h)"
| "host_step B (HostSetDisplayMode mode) h = snd (host_set_display_mode B mode h)"
| "host_step B (HostSetInputMode mode) h = snd (host_set_input_mode B mode h)"
| "host_step B (HostSetRequestedVisible visible) h = snd (host_set_requested_visible B visible h)"
| "host_step B (HostSuspend reason) h = snd (host_suspend B reason h)"
| "host_step B HostDetach h = snd (host_detach B h)"

definition host_run :: "('b, 'e) shell_ops \<Rightarrow> 'b \<Rightarrow> TopLeftOverlayLayouts \<Rightarrow> host_op list \<Rightarrow> 'b OverlayHostController" where
  "host_run B backend layouts ops = fold (host_step B) ops (OverlayHostController_new backend layouts)"

text \<open>
  The controller takes input only while it is visible, is visible only when that was requested and a game
  window is attached, and uses the layout of its display mode.
\<close>

definition host_consistent :: "'b OverlayHostController \<Rightarrow> bool" where
  "host_consistent h \<longleftrightarrow>
     (hc_input_mode h \<noteq> Locked \<longrightarrow> hc_lifecycle h = Visible)
     \<and> (hc_lifecycle h = Visible \<longrightarrow> hc_requested_visible h)
     \<and> (hc_lifecycle h = Detached \<longleftrightarrow> hc_attached_window h = None)
     \<and> hc_layout h = layout_for (hc_display_mode h) h"

text \<open>What was last applied is the current plan; when nothing is applied, nothing is shown.\<close>

definition host_synced :: "'b OverlayHostController \<Rightarrow> bool" where
  "host_synced h \<longleftrightarrow> (case hc_last_plan h of
       None \<Rightarrow> hc_lifecycle h \<noteq> Visible
     | Some p \<Rightarrow> p = host_current_plan h)"

lemma layout_for_updates [simp]:
  "layout_for m (h\<lparr>hc_layout := l\<rparr>) = layout_for m h"
  "layout_for m (h\<lparr>hc_input_mode := i\<rparr>) = layout_for m h"
  "layout_for m (h\<lparr>hc_lifecycle := c\<rparr>) = layout_for m h"
  "layout_for m (h\<lparr>hc_display_mode := d\<rparr>) = layout_for m h"
  "layout_for m (h\<lparr>hc_requested_visible := v\<rparr>) = layout_for m h"
  "layout_for m (h\<lparr>hc_attached_window := w\<rparr>) = layout_for m h"
  "layout_for m (h\<lparr>hc_backend := b\<rparr>) = layout_for m h"
  "layout_for m (h\<lparr>hc_last_plan := p\<rparr>) = layout_for m h"
  by (cases m; simp add: layout_for_def)+

lemma layout_for_host_rect:
  "ol_host_rect (layout_for m (h\<lparr>hc_attached_window := w, hc_mini_layout := l\<lparr>ol_host_rect := x\<rparr>,
      hc_expanded_layout := l'\<lparr>ol_host_rect := x\<rparr>\<rparr>)) = x"
  by (cases m) (simp_all add: layout_for_def)

lemma apply_current_consistent:
  assumes "host_consistent h"
  shows "host_consistent (snd (host_apply_current B c h)) \<and> host_synced (snd (host_apply_current B c h))"
  using assms
  by (auto simp: host_apply_current_def host_consistent_def host_synced_def host_current_plan_def Let_def
      split: prod.split sum.split)

lemma apply_current_result:
  assumes "host_apply_current B c h = (r, h')"
  shows "hc_attached_window h' = hc_attached_window h" "hc_layout h' = hc_layout h"
    and "r = Inl e \<Longrightarrow> hc_input_mode h' = Locked \<and> hc_last_plan h' = None
      \<and> hc_lifecycle h' = (if hc_attached_window h = None then Detached else HiddenAttached)"
    and "r = Inr u \<Longrightarrow> hc_input_mode h' = hc_input_mode h \<and> hc_lifecycle h' = hc_lifecycle h
      \<and> hc_last_plan h' = Some (host_current_plan h')"
  using assms by (auto simp: host_apply_current_def host_current_plan_def Let_def split: if_splits prod.splits sum.splits)

lemma host_step_consistent:
  assumes "host_consistent h" "host_synced h"
  shows "host_consistent (host_step B op h) \<and> host_synced (host_step B op h)"
proof (cases op)
  case (HostAttach game)
  show ?thesis using assms unfolding HostAttach host_step.simps host_attach_def Let_def
    by (intro apply_current_consistent) (auto simp: host_consistent_def layout_for_def split: DisplayMode.split)
next
  case (HostApplyLayouts layouts)
  show ?thesis using assms unfolding HostApplyLayouts host_step.simps host_apply_layouts_def Let_def
    by (auto intro!: apply_current_consistent) (auto simp: host_consistent_def layout_for_def split: DisplayMode.split)
next
  case (HostSetDisplayMode mode)
  show ?thesis using assms unfolding HostSetDisplayMode host_step.simps host_set_display_mode_def
    by (auto intro!: apply_current_consistent) (auto simp: host_consistent_def)
next
  case (HostSetInputMode mode)
  show ?thesis using assms unfolding HostSetInputMode host_step.simps host_set_input_mode_def Let_def
    by (auto intro!: apply_current_consistent) (auto simp: host_consistent_def)
next
  case (HostSetRequestedVisible visible)
  show ?thesis
  proof (cases "hc_requested_visible h = visible \<or> hc_attached_window h = None")
    case True
    then show ?thesis using assms
      by (auto simp: HostSetRequestedVisible host_set_requested_visible_def host_consistent_def host_synced_def
          host_current_plan_def split: option.split)
  next
    case False
    let ?h = "h\<lparr>hc_requested_visible := visible\<rparr>"
    have next_state: "host_consistent (case hc_lifecycle h of Suspended _ \<Rightarrow> ?h\<lparr>hc_input_mode := Locked\<rparr>
        | _ \<Rightarrow> if visible then ?h\<lparr>hc_lifecycle := Visible\<rparr> else ?h\<lparr>hc_input_mode := Locked, hc_lifecycle := HiddenAttached\<rparr>)"
      using assms(1) False by (cases "hc_lifecycle h") (auto simp: host_consistent_def)
    show ?thesis using apply_current_consistent [OF next_state, of B True] False
      by (cases "hc_lifecycle h"; cases visible) (auto simp: HostSetRequestedVisible host_set_requested_visible_def Let_def)
  qed
next
  case (HostSuspend reason)
  have "host_consistent (h\<lparr>hc_input_mode := Locked, hc_lifecycle := Suspended reason\<rparr>)" if "hc_lifecycle h \<noteq> Detached"
    using assms(1) that by (simp add: host_consistent_def)
  from apply_current_consistent [OF this, of B True] show ?thesis
    using assms by (simp add: HostSuspend host_suspend_def split_beta)
next
  case HostDetach
  have "host_consistent (h\<lparr>hc_input_mode := Locked, hc_lifecycle := Detached, hc_attached_window := None\<rparr>)"
    using assms(1) by (simp add: host_consistent_def)
  from apply_current_consistent [OF this, of B True] show ?thesis
    using assms by (simp add: HostDetach host_detach_def split_beta)
qed

lemma host_run_consistent: "host_consistent (host_run B backend layouts ops) \<and> host_synced (host_run B backend layouts ops)"
proof -
  have "host_consistent (fold (host_step B) ops h) \<and> host_synced (fold (host_step B) ops h)"
    if "host_consistent h" "host_synced h" for h
    using that by (induction ops arbitrary: h) (simp_all add: host_step_consistent)
  then show ?thesis
    by (simp add: host_run_def OverlayHostController_new_def host_consistent_def host_synced_def layout_for_def)
qed

section \<open>The window\<close>

text \<open>
  What a shell promises: after a plan was applied it shows that plan, and after it was hidden it shows
  none.  Nothing is known of what it shows after a failure.
\<close>

locale shell_backend =
  fixes B :: "('b, 'e) shell_ops"
    and shows_plan :: "'b \<Rightarrow> HostPlan option"
  assumes applied: "sh_apply_plan B p b = (Inr (), b') \<Longrightarrow> shows_plan b' = Some p"
    and hidden: "sh_hide_fail_closed B b = (Inr (), b') \<Longrightarrow> shows_plan b' = None"
begin

lemma apply_current_shows:
  assumes "\<And>p. hc_last_plan h = Some p \<Longrightarrow> shows_plan (hc_backend h) = Some p"
  shows "hc_last_plan (snd (host_apply_current B c h)) = Some p
      \<Longrightarrow> shows_plan (hc_backend (snd (host_apply_current B c h))) = Some p"
  using assms applied
  by (auto simp: host_apply_current_def Let_def split: prod.splits sum.splits if_splits)

lemma step_shows:
  assumes "\<And>p. hc_last_plan h = Some p \<Longrightarrow> shows_plan (hc_backend h) = Some p"
    and "hc_last_plan (host_step B op h) = Some p"
  shows "shows_plan (hc_backend (host_step B op h)) = Some p"
proof -
  have keep: "shows_plan (hc_backend (snd (host_apply_current B c h'))) = Some p"
    if "hc_last_plan (snd (host_apply_current B c h')) = Some p" "hc_last_plan h' = hc_last_plan h" "hc_backend h' = hc_backend h" for c h'
    using apply_current_shows [of h' c p] that assms(1) by simp
  show ?thesis
    using assms keep
    by (cases op)
      (auto simp: host_attach_def host_apply_layouts_def host_set_display_mode_def host_set_input_mode_def
        host_set_requested_visible_def host_suspend_def host_detach_def Let_def split_beta
        split: if_splits OverlayLifecycle.splits)
qed

lemma run_shows: "hc_last_plan (host_run B backend layouts ops) = Some p
    \<Longrightarrow> shows_plan (hc_backend (host_run B backend layouts ops)) = Some p"
proof -
  have "(\<forall>p. hc_last_plan (fold (host_step B) ops h) = Some p \<longrightarrow> shows_plan (hc_backend (fold (host_step B) ops h)) = Some p)"
    if "\<forall>p. hc_last_plan h = Some p \<longrightarrow> shows_plan (hc_backend h) = Some p" for h
    using that
  proof (induction ops arbitrary: h)
    case (Cons op ops)
    show ?case using Cons.IH [of "host_step B op h"] step_shows [of h op] Cons.prems by simp
  qed simp
  then show "hc_last_plan (host_run B backend layouts ops) = Some p
    \<Longrightarrow> shows_plan (hc_backend (host_run B backend layouts ops)) = Some p"
    by (simp add: host_run_def OverlayHostController_new_def)
qed

end

text \<open>A shell that follows a script: each entry says whether the next call succeeds.\<close>

record scripted_shell =
  ss_plan :: "HostPlan option"
  ss_script :: "bool list"

definition next_answer :: "scripted_shell \<Rightarrow> bool \<times> scripted_shell" where
  "next_answer s = (case ss_script s of [] \<Rightarrow> (True, s) | a # rest \<Rightarrow> (a, s\<lparr>ss_script := rest\<rparr>))"

definition scripted_shell_ops :: "(scripted_shell, unit) shell_ops" where
  "scripted_shell_ops =
     \<lparr>sh_apply_plan = (\<lambda>p s. case next_answer s of (True, s) \<Rightarrow> (Inr (), s\<lparr>ss_plan := Some p\<rparr>) | (False, s) \<Rightarrow> (Inl (), s)),
      sh_hide_fail_closed = (\<lambda>s. case next_answer s of (True, s) \<Rightarrow> (Inr (), s\<lparr>ss_plan := None\<rparr>) | (False, s) \<Rightarrow> (Inl (), s))\<rparr>"

interpretation scripted: shell_backend scripted_shell_ops ss_plan
  by unfold_locales (auto simp: scripted_shell_ops_def split: prod.splits bool.splits)

section \<open>Properties\<close>


definition sample_window :: "bool \<Rightarrow> TrackedWindow" where
  "sample_window active = \<lparr>tw_id = 7, tw_monitor_id = 1, tw_image_path = ''game'',
     tw_snapshot = \<lparr>ws_process_id = 1, ws_client_left = 0, ws_client_top = 0, ws_client_width = 1600, ws_client_height = 900,
       ws_dpi = 96, ws_visible = True, ws_active = active, ws_minimized = False\<rparr>\<rparr>"

definition sample_layout :: "u32 \<Rightarrow> OverlayLayout" where
  "sample_layout side =
     (let r = \<lparr>pr_left = 16, pr_top = 16, pr_width = side, pr_height = side\<rparr> in
      \<lparr>ol_host_rect = r, ol_surface_shape = RoundedRectangle r 10, ol_map_viewport_rect = r, ol_control_rail_rect = None,
       ol_viewport_size = \<lparr>sz_width = side, sz_height = side\<rparr>\<rparr>)"

definition sample_layouts :: TopLeftOverlayLayouts where
  "sample_layouts = \<lparr>tl_mini = sample_layout 288, tl_expanded = sample_layout 630\<rparr>"


text \<open>
  Attaching to the game window moves the overlay over its client area and shows it exactly when the game is
  active, on screen and not minimised and the overlay is wanted; otherwise it stays hidden and locked.  When
  the window refuses the new plan the overlay is hidden and locked instead.
\<close>

lemma host_attach_follows_window:
  assumes "host_attach B game (host_run B backend layouts ops) = (r, h)"
  shows "hc_attached_window h = Some (tw_id game)
    \<and> ol_host_rect (hc_layout h) = \<lparr>pr_left = ws_client_left (tw_snapshot game), pr_top = ws_client_top (tw_snapshot game),
        pr_width = ws_client_width (tw_snapshot game), pr_height = ws_client_height (tw_snapshot game)\<rparr>
    \<and> (case r of
         Inl _ \<Rightarrow> hc_lifecycle h = HiddenAttached \<and> hc_input_mode h = Locked \<and> hc_last_plan h = None
       | Inr _ \<Rightarrow> hc_last_plan h = Some (host_current_plan h)
           \<and> (hc_lifecycle h = Visible \<longleftrightarrow> \<not> ws_minimized (tw_snapshot game) \<and> ws_active (tw_snapshot game)
                \<and> ws_visible (tw_snapshot game) \<and> hc_requested_visible (host_run B backend layouts ops))
           \<and> (hc_lifecycle h \<noteq> Visible \<longrightarrow> hc_input_mode h = Locked))"
proof -
  let ?h0 = "host_run B backend layouts ops"
  have h: "h = host_run B backend layouts (ops @ [HostAttach game])" using assms by (simp add: host_run_def)
  have c: "host_consistent h" unfolding h by (simp add: host_run_consistent)
  let ?s = "tw_snapshot game"
  define h1 where "h1 = (let host_rect = \<lparr>pr_left = ws_client_left ?s, pr_top = ws_client_top ?s,
             pr_width = ws_client_width ?s, pr_height = ws_client_height ?s\<rparr>;
          h = ?h0\<lparr>hc_attached_window := Some (tw_id game),
             hc_mini_layout := (hc_mini_layout ?h0)\<lparr>ol_host_rect := host_rect\<rparr>,
             hc_expanded_layout := (hc_expanded_layout ?h0)\<lparr>ol_host_rect := host_rect\<rparr>\<rparr>;
          h = h\<lparr>hc_layout := layout_for (hc_display_mode h) h\<rparr>
      in if ws_minimized ?s then h\<lparr>hc_input_mode := Locked, hc_lifecycle := Suspended Minimized\<rparr>
         else if \<not> ws_active ?s \<or> \<not> ws_visible ?s then h\<lparr>hc_input_mode := Locked, hc_lifecycle := Suspended Inactive\<rparr>
         else if hc_requested_visible h then h\<lparr>hc_lifecycle := Visible\<rparr>
         else h\<lparr>hc_input_mode := Locked, hc_lifecycle := HiddenAttached\<rparr>)"
  have run: "host_apply_current B (host_is_visible ?h0 \<noteq> host_is_visible h1) h1 = (r, h)"
    using assms by (simp only: host_attach_def Let_def h1_def)
  have h1_window: "hc_attached_window h1 = Some (tw_id game)" by (simp add: h1_def Let_def)
  have h1_rect: "ol_host_rect (hc_layout h1) = \<lparr>pr_left = ws_client_left ?s, pr_top = ws_client_top ?s,
        pr_width = ws_client_width ?s, pr_height = ws_client_height ?s\<rparr>"
    by (simp add: h1_def Let_def layout_for_host_rect)
  have h1_visible: "hc_lifecycle h1 = Visible \<longleftrightarrow> \<not> ws_minimized ?s \<and> ws_active ?s \<and> ws_visible ?s \<and> hc_requested_visible ?h0"
    by (auto simp: h1_def Let_def)
  have locked: "hc_lifecycle h \<noteq> Visible \<longrightarrow> hc_input_mode h = Locked" using c unfolding host_consistent_def by blast
  note result = apply_current_result [OF run]
  show ?thesis
  proof (cases r)
    case (Inl e)
    then show ?thesis using result(1,2) result(3) [OF Inl] h1_window h1_rect by simp
  next
    case (Inr u)
    then show ?thesis using result(1,2) result(4) [OF Inr] h1_window h1_rect h1_visible locked by simp
  qed
qed

lemma host_attach_follows_window_example:
  "let h = snd (host_attach scripted_shell_ops (sample_window False)
       (host_run scripted_shell_ops \<lparr>ss_plan = None, ss_script = []\<rparr> sample_layouts []))
   in hc_attached_window h = Some 7 \<and> hc_lifecycle h \<noteq> Visible \<and> hc_input_mode h = Locked"
proof -
  let ?h0 = "host_run scripted_shell_ops \<lparr>ss_plan = None, ss_script = []\<rparr> sample_layouts []"
  obtain r h where run: "host_attach scripted_shell_ops (sample_window False) ?h0 = (r, h)" by fastforce
  have "hc_attached_window h = Some (tw_id (sample_window False))" "hc_lifecycle h \<noteq> Visible \<and> hc_input_mode h = Locked"
    using host_attach_follows_window [OF run] by (cases r; simp add: sample_window_def)+
  moreover have "tw_id (sample_window False) = 7" by (simp add: sample_window_def)
  ultimately show ?thesis by (simp add: run)
qed

end
