(* ===== verification/Agent_Pipeline.thy ===== *)
theory Agent_Pipeline
  imports Telemetry_Latest
begin

text \<open>
  The server agent that turns observations of the game server into telemetry: its health counters
  (\<open>crates/pal-agent/src/health.rs\<close>, \<open>metrics.rs\<close>), the pipeline that numbers and publishes samples
  (\<open>pipeline.rs\<close>), the polling loop (\<open>poller.rs\<close>) and the task that runs it (\<open>main.rs\<close>).

  The latest-value cell is that of the telemetry crate; the endpoint that serves it only reads it, so
  the pipeline's copy is the cell.  The health monitor is shared by the pipeline and the poller and is
  passed along.  A \<open>SystemTime\<close> is its distance to the epoch and an \<open>Instant\<close> a number, both in
  nanoseconds; clock readings, random bytes and the answers of the source are arguments.
\<close>

section \<open>Health\<close>

datatype EndpointKind = EpGameData | EpInfo | EpMetrics | EpPlayers | EpSettings

datatype RestError =
    InvalidSelector | InvalidWorldAlias | SelectedPlayerMissing | SelectedPlayerAmbiguous
  | SelectedPlayerInactive | RestDecode EndpointKind | InvalidEndpoint | EndpointNotAllowed
  | InvalidClientConfig | ConnectionUntrusted | Unauthorized | RedirectRejected
  | CompressionNotAllowed | ContentTypeRejected | ResponseTooLarge | RestTimeout | RestTransport
  | UnexpectedStatus u16

datatype HealthErrorKind =
    SelectionMissing | SelectionInactive | SelectionAmbiguous | Authentication | HkTimeout | HkDecode
  | HkPolicy | HkTransport | Publication

fun classify :: "RestError \<Rightarrow> HealthErrorKind" where
  "classify SelectedPlayerMissing = SelectionMissing"
| "classify SelectedPlayerInactive = SelectionInactive"
| "classify SelectedPlayerAmbiguous = SelectionAmbiguous"
| "classify Unauthorized = Authentication"
| "classify RestTimeout = HkTimeout"
| "classify (RestDecode _) = HkDecode"
| "classify InvalidSelector = HkPolicy"
| "classify InvalidWorldAlias = HkPolicy"
| "classify InvalidEndpoint = HkPolicy"
| "classify EndpointNotAllowed = HkPolicy"
| "classify InvalidClientConfig = HkPolicy"
| "classify ConnectionUntrusted = HkPolicy"
| "classify RedirectRejected = HkPolicy"
| "classify CompressionNotAllowed = HkPolicy"
| "classify ContentTypeRejected = HkPolicy"
| "classify ResponseTooLarge = HkPolicy"
| "classify RestTransport = HkTransport"
| "classify (UnexpectedStatus _) = HkTransport"

record AgentMetrics =
  am_successful_polls :: u64
  am_failed_polls :: u64
  am_emitted_samples :: u64
  am_publish_failures :: u64

record HealthState =
  hs_consecutive_failures :: u64
  hs_last_error :: "HealthErrorKind option"

record HealthMonitor =
  hm_state :: HealthState
  hm_metrics :: AgentMetrics

definition saturating_increment :: "u64 \<Rightarrow> u64" where
  "saturating_increment value = sat_add value 1"

definition HealthMonitor_default :: HealthMonitor where
  "HealthMonitor_default =
     \<lparr>hm_state = \<lparr>hs_consecutive_failures = 0, hs_last_error = None\<rparr>,
      hm_metrics = \<lparr>am_successful_polls = 0, am_failed_polls = 0, am_emitted_samples = 0, am_publish_failures = 0\<rparr>\<rparr>"

definition record_poll_success :: "HealthMonitor \<Rightarrow> HealthMonitor" where
  "record_poll_success m =
     m\<lparr>hm_metrics := (hm_metrics m)\<lparr>am_successful_polls := saturating_increment (am_successful_polls (hm_metrics m))\<rparr>,
       hm_state := \<lparr>hs_consecutive_failures = 0, hs_last_error = None\<rparr>\<rparr>"

definition record_poll_failure :: "RestError \<Rightarrow> HealthMonitor \<Rightarrow> HealthMonitor" where
  "record_poll_failure error m =
     m\<lparr>hm_metrics := (hm_metrics m)\<lparr>am_failed_polls := saturating_increment (am_failed_polls (hm_metrics m))\<rparr>,
       hm_state := \<lparr>hs_consecutive_failures = sat_add (hs_consecutive_failures (hm_state m)) 1,
                    hs_last_error = Some (classify error)\<rparr>\<rparr>"

definition record_emitted :: "HealthMonitor \<Rightarrow> HealthMonitor" where
  "record_emitted m =
     m\<lparr>hm_metrics := (hm_metrics m)\<lparr>am_emitted_samples := saturating_increment (am_emitted_samples (hm_metrics m))\<rparr>\<rparr>"

definition record_publish_failure :: "HealthMonitor \<Rightarrow> HealthMonitor" where
  "record_publish_failure m =
     m\<lparr>hm_metrics := (hm_metrics m)\<lparr>am_publish_failures := saturating_increment (am_publish_failures (hm_metrics m))\<rparr>,
       hm_state := \<lparr>hs_consecutive_failures = sat_add (hs_consecutive_failures (hm_state m)) 1,
                    hs_last_error = Some Publication\<rparr>\<rparr>"

record HealthSnapshot =
  hsn_degraded :: bool
  hsn_successful_polls :: u64
  hsn_failed_polls :: u64
  hsn_emitted_samples :: u64
  hsn_publish_failures :: u64
  hsn_consecutive_failures :: u64
  hsn_last_error :: "HealthErrorKind option"

definition health_snapshot :: "HealthMonitor \<Rightarrow> HealthSnapshot" where
  "health_snapshot m =
     \<lparr>hsn_degraded = (0 < hs_consecutive_failures (hm_state m)),
      hsn_successful_polls = am_successful_polls (hm_metrics m),
      hsn_failed_polls = am_failed_polls (hm_metrics m),
      hsn_emitted_samples = am_emitted_samples (hm_metrics m),
      hsn_publish_failures = am_publish_failures (hm_metrics m),
      hsn_consecutive_failures = hs_consecutive_failures (hm_state m),
      hsn_last_error = hs_last_error (hm_state m)\<rparr>"

section \<open>The pipeline\<close>

text \<open>The fields of \<open>SafePlayerObservation\<close> and \<open>TimedResponse\<close> the agent reads.\<close>

record SafePlayerObservation =
  so_subject_id :: string
  so_x :: fl
  so_y :: fl
  so_z :: fl
  so_heading_degrees :: "fl option"

record TimedResponse =
  tr_value :: SafePlayerObservation
  tr_rest_completed_at :: int
  tr_completed_monotonic :: nat

record AgentPipeline =
  ap_world_alias :: string
  ap_subject_id :: bytes
  ap_coordinate_profile_sha256 :: string
  ap_rotation_z_validated :: bool
  ap_boot_id :: bytes
  ap_next_sequence :: u64
  ap_generation :: u64
  ap_latest :: LatestTelemetry

datatype PipelineError =
    PipelineInvalidConfiguration | RandomUnavailable | PublisherUnavailable | IdentityMismatch
  | SequenceExhausted | InvalidTimestamp | PublisherRejected

definition hex_nibble :: "char \<Rightarrow> u8 option" where
  "hex_nibble c =
     (let n = (of_char c :: nat) in
      if 48 \<le> n \<and> n \<le> 57 then Some (of_nat n - 48)
      else if 97 \<le> n \<and> n \<le> 102 then Some (of_nat n - 97 + 10)
      else None)"

fun decode_pairs :: "string \<Rightarrow> bytes option" where
  "decode_pairs (a # b # rest) =
     (case (hex_nibble a, hex_nibble b, decode_pairs rest) of
        (Some h, Some l, Some bs) \<Rightarrow> Some (or (push_bit 4 h) l # bs)
      | _ \<Rightarrow> None)"
| "decode_pairs _ = Some []"

definition decode_sha256 :: "string \<Rightarrow> bytes option" where
  "decode_sha256 value =
     (if length value \<noteq> 64 \<or> list_ex (\<lambda>c. \<not> is_lower_hex c) value then None else decode_pairs value)"

text \<open>
  \<open>random\<close> is what the random source fills the boot id with.  The second component is the cell the caller
  still holds.
\<close>

definition AgentPipeline_new ::
  "string \<Rightarrow> bytes \<Rightarrow> string \<Rightarrow> bool \<Rightarrow> bytes option \<Rightarrow> LatestTelemetry \<Rightarrow> (PipelineError + AgentPipeline) \<times> LatestTelemetry" where
  "AgentPipeline_new alias subject profile rotation_z_validated random latest =
     (if length subject \<noteq> 32 then (Inl PipelineInvalidConfiguration, latest)
      else if \<not> is_bound_to latest alias subject profile then (Inl PipelineInvalidConfiguration, latest)
      else case random of
        None \<Rightarrow> (Inl RandomUnavailable, latest)
      | Some boot_id \<Rightarrow>
          if boot_id = replicate 16 0 then (Inl RandomUnavailable, latest)
          else (case LatestTelemetry_connect latest 1 of
                  (LcAccepted, latest) \<Rightarrow>
                    (Inr \<lparr>ap_world_alias = alias, ap_subject_id = subject, ap_coordinate_profile_sha256 = profile,
                       ap_rotation_z_validated = rotation_z_validated, ap_boot_id = boot_id, ap_next_sequence = 1,
                       ap_generation = 1, ap_latest = latest\<rparr>, latest)
                | (_, latest) \<Rightarrow> (Inl PublisherUnavailable, latest)))"

definition unix_millis :: "int \<Rightarrow> PipelineError + i64" where
  "unix_millis t =
     (if t < 0 then Inl InvalidTimestamp
      else let ms = nat t div 1000000 in
        if 2 ^ 63 \<le> ms then Inl InvalidTimestamp
        else if ms = 0 then Inl InvalidTimestamp
        else Inr (of_nat ms))"

definition age_at_emit :: "nat \<Rightarrow> nat \<Rightarrow> u32" where
  "age_at_emit now completed =
     (let ms = (now - completed) div 1000000 in if ms < 2 ^ 32 then of_nat ms else - 1)"

definition emit_heading :: "bool \<Rightarrow> fl option \<Rightarrow> fl option \<times> i32" where
  "emit_heading rotation_z_validated heading =
     (if rotation_z_validated
      then (case heading of Some h \<Rightarrow> (Some h, 1) | None \<Rightarrow> (None, 0))
      else (None, 0))"

definition emit_envelope :: "AgentPipeline \<Rightarrow> TimedResponse \<Rightarrow> i64 \<Rightarrow> nat \<Rightarrow> bytes \<Rightarrow> SubscribeResponse" where
  "emit_envelope p response completed_ms now trace_id =
     (let (heading_degrees, heading_source) = emit_heading (ap_rotation_z_validated p) (so_heading_degrees (tr_value response))
      in \<lparr>env_protocol_version = PROTOCOL_VERSION, env_world_alias = ap_world_alias p, env_subject_id = ap_subject_id p,
          env_boot_id = ap_boot_id p, env_sequence = ap_next_sequence p, env_rest_completed_at_unix_ms = completed_ms,
          env_age_at_emit_ms = age_at_emit now (tr_completed_monotonic response),
          env_position_x = so_x (tr_value response), env_position_y = so_y (tr_value response), env_position_z = so_z (tr_value response),
          env_heading_degrees = heading_degrees, env_heading_source = heading_source, env_trace_id = trace_id,
          env_coordinate_space = 1, env_coordinate_profile_sha256 = ap_coordinate_profile_sha256 p\<rparr>)"

definition emit_inner ::
  "nat \<Rightarrow> bytes option \<Rightarrow> TimedResponse \<Rightarrow> AgentPipeline \<times> HealthMonitor \<Rightarrow> (PipelineError + unit) \<times> AgentPipeline \<times> HealthMonitor" where
  "emit_inner now random response = (\<lambda>(p, health).
     case decode_sha256 (so_subject_id (tr_value response)) of
       None \<Rightarrow> (Inl IdentityMismatch, p, health)
     | Some observed_subject \<Rightarrow>
         if observed_subject \<noteq> ap_subject_id p then (Inl IdentityMismatch, p, health)
         else if ap_next_sequence p = - 1 then (Inl SequenceExhausted, p, health)
         else (case unix_millis (tr_rest_completed_at response) of
           Inl e \<Rightarrow> (Inl e, p, health)
         | Inr completed_ms \<Rightarrow>
             (case random of
                None \<Rightarrow> (Inl RandomUnavailable, p, health)
              | Some trace_id \<Rightarrow>
                  (case LatestTelemetry_publish (ap_latest p) (ap_generation p) (emit_envelope p response completed_ms now trace_id) of
                     (Inl _, latest) \<Rightarrow> (Inl PublisherUnavailable, p\<lparr>ap_latest := latest\<rparr>, health)
                   | (Inr outcome, latest) \<Rightarrow>
                       if (case outcome of LpAccepted \<Rightarrow> True | LpAcceptedWithGap _ \<Rightarrow> True | _ \<Rightarrow> False)
                       then (Inr (), p\<lparr>ap_latest := latest, ap_next_sequence := sat_add (ap_next_sequence p) 1\<rparr>, record_emitted health)
                       else (Inl PublisherRejected, p\<lparr>ap_latest := latest\<rparr>, health)))))"

definition pipeline_emit ::
  "nat \<Rightarrow> bytes option \<Rightarrow> TimedResponse \<Rightarrow> AgentPipeline \<times> HealthMonitor \<Rightarrow> (PipelineError + unit) \<times> AgentPipeline \<times> HealthMonitor" where
  "pipeline_emit now random response st =
     (let (result, p, health) = emit_inner now random response st
      in (result, p, if isl result then record_publish_failure health else health))"

section \<open>Trust in the source\<close>

record SanitizedServerInfo =
  si_version :: string
  si_server_subject_id :: string

definition REMOTE_IDENTITY_RECHECK_INTERVAL :: nat where
  "REMOTE_IDENTITY_RECHECK_INTERVAL = 30 * 10 ^ 9"

record RemoteIdentityCheck =
  ri_expected :: SanitizedServerInfo
  ri_last_verified :: nat

datatype RestTrustBinding = LocalProcess | ExplicitRemoteHttps RemoteIdentityCheck

definition remote_is_due :: "nat \<Rightarrow> RemoteIdentityCheck \<Rightarrow> bool" where
  "remote_is_due now c = (REMOTE_IDENTITY_RECHECK_INTERVAL \<le> now - ri_last_verified c)"

definition remote_confirm :: "SanitizedServerInfo \<Rightarrow> nat \<Rightarrow> RemoteIdentityCheck \<Rightarrow> (RestError + unit) \<times> RemoteIdentityCheck" where
  "remote_confirm current now c =
     (if current \<noteq> ri_expected c then (Inl ConnectionUntrusted, c) else (Inr (), c\<lparr>ri_last_verified := now\<rparr>))"

text \<open>\<open>live\<close> is the answer of the check of the local server process.\<close>

definition binding_revalidate :: "bool \<Rightarrow> RestTrustBinding \<Rightarrow> bool" where
  "binding_revalidate live b = (case b of LocalProcess \<Rightarrow> live | ExplicitRemoteHttps _ \<Rightarrow> True)"

text \<open>\<open>info\<close> is the answer of the server's info endpoint, \<open>now\<close> and \<open>later\<close> the clock before and after it.\<close>

definition revalidate_remote_identity_if_due ::
  "nat \<Rightarrow> RestError + SanitizedServerInfo \<Rightarrow> nat \<Rightarrow> RestTrustBinding \<Rightarrow> (RestError + unit) \<times> RestTrustBinding" where
  "revalidate_remote_identity_if_due now info later b =
     (case b of
        LocalProcess \<Rightarrow> (Inr (), b)
      | ExplicitRemoteHttps c \<Rightarrow>
          if \<not> remote_is_due now c then (Inr (), b)
          else (case info of
                  Inl e \<Rightarrow> (Inl e, b)
                | Inr current \<Rightarrow> (case remote_confirm current later c of (r, c) \<Rightarrow> (r, ExplicitRemoteHttps c))))"

definition rest_game_data ::
  "nat \<Rightarrow> RestError + SanitizedServerInfo \<Rightarrow> nat \<Rightarrow> RestError + TimedResponse \<Rightarrow> RestTrustBinding
     \<Rightarrow> (RestError + TimedResponse) \<times> RestTrustBinding" where
  "rest_game_data now info later answer b =
     (case revalidate_remote_identity_if_due now info later b of
        (Inl e, b) \<Rightarrow> (Inl e, b)
      | (Inr _, b) \<Rightarrow> (answer, b))"

section \<open>The polling loop\<close>

datatype PollerExit = PollShutdown | TrustLost

text \<open>A change of the shutdown channel: its sender is gone, or the value it now holds.\<close>

datatype shutdown_change = SenderGone | ShutdownIs bool

definition shuts_down :: "shutdown_change \<Rightarrow> bool" where
  "shuts_down c = (case c of SenderGone \<Rightarrow> True | ShutdownIs b \<Rightarrow> b)"

text \<open>
  What one round of the loop meets: a tick or a change of the shutdown channel; the trust in the source;
  the answer of the source or a change of the channel while it is awaited; the trust again; and the clock
  and the random bytes at the emission.
\<close>

record poll_round =
  rd_interrupt :: "shutdown_change option"
  rd_trust_before :: bool
  rd_answer :: "shutdown_change + (RestError + TimedResponse)"
  rd_trust_after :: bool
  rd_now :: nat
  rd_random :: "bytes option"

record Poller =
  po_poll_interval :: nat
  po_pipeline :: AgentPipeline
  po_health :: HealthMonitor

datatype PollerBuildError = InvalidInterval

definition Poller_new :: "nat \<Rightarrow> AgentPipeline \<Rightarrow> HealthMonitor \<Rightarrow> PollerBuildError + Poller" where
  "Poller_new interval_ms pipeline health =
     (if interval_ms \<in> {500, 1000, 2000}
      then Inr \<lparr>po_poll_interval = interval_ms, po_pipeline = pipeline, po_health = health\<rparr>
      else Inl InvalidInterval)"

definition poll_round_step :: "poll_round \<Rightarrow> Poller \<Rightarrow> PollerExit option \<times> Poller" where
  "poll_round_step r po =
     (case rd_interrupt r of
        Some c \<Rightarrow> (if shuts_down c then Some PollShutdown else None, po)
      | None \<Rightarrow>
          if \<not> rd_trust_before r then (Some TrustLost, po)
          else (case rd_answer r of
            Inl c \<Rightarrow> (if shuts_down c then Some PollShutdown else None, po)
          | Inr result \<Rightarrow>
              if result = Inl ConnectionUntrusted then (Some TrustLost, po)
              else if \<not> rd_trust_after r then (Some TrustLost, po)
              else (case result of
                Inr sample \<Rightarrow>
                  let health = record_poll_success (po_health po);
                      (_, pipeline, health) = pipeline_emit (rd_now r) (rd_random r) sample (po_pipeline po, health)
                  in (None, po\<lparr>po_pipeline := pipeline, po_health := health\<rparr>)
              | Inl e \<Rightarrow> (None, po\<lparr>po_health := record_poll_failure e (po_health po)\<rparr>))))"

fun poller_run :: "poll_round list \<Rightarrow> Poller \<Rightarrow> PollerExit option \<times> Poller" where
  "poller_run [] po = (None, po)"
| "poller_run (r # rs) po =
     (case poll_round_step r po of
        (Some e, po) \<Rightarrow> (Some e, po)
      | (None, po) \<Rightarrow> poller_run rs po)"

text \<open>The polling task of \<open>main\<close>: a poller that lost trust withdraws the published value.\<close>

definition poll_task :: "poll_round list \<Rightarrow> Poller \<Rightarrow> PollerExit option \<times> Poller" where
  "poll_task rounds po =
     (case poller_run rounds po of
        (Some TrustLost, po) \<Rightarrow>
          (Some TrustLost, po\<lparr>po_pipeline := (po_pipeline po)\<lparr>ap_latest := LatestTelemetry_close (ap_latest (po_pipeline po))\<rparr>\<rparr>)
      | (e, po) \<Rightarrow> (e, po))"

text \<open>What \<open>main\<close> wires together before it starts the task.\<close>

definition agent_start :: "string \<Rightarrow> bytes \<Rightarrow> string \<Rightarrow> bool \<Rightarrow> bytes option \<Rightarrow> nat \<Rightarrow> Poller option" where
  "agent_start world subject profile rotation_z_validated random interval_ms =
     (case LatestTelemetry_new world subject profile of
        Inl _ \<Rightarrow> None
      | Inr latest \<Rightarrow>
          (case AgentPipeline_new world subject profile rotation_z_validated random latest of
             (Inl _, _) \<Rightarrow> None
           | (Inr pipeline, _) \<Rightarrow>
               (case Poller_new interval_ms pipeline HealthMonitor_default of Inl _ \<Rightarrow> None | Inr po \<Rightarrow> Some po)))"

section \<open>Numbering\<close>

text \<open>
  The state between two emissions: the cell is open for the pipeline's identity and generation and holds
  the sample before the next one.
\<close>

definition pipeline_inv :: "AgentPipeline \<Rightarrow> bool" where
  "pipeline_inv p \<longleftrightarrow>
     is_bound_to (ap_latest p) (ap_world_alias p) (ap_subject_id p) (ap_coordinate_profile_sha256 p)
     \<and> alias_ok (ap_world_alias p) \<and> length (ap_subject_id p) = 32 \<and> length (ap_boot_id p) = 16
     \<and> sha256_text (ap_coordinate_profile_sha256 p)
     \<and> ap_generation p = 1 \<and> lt_generation (ap_latest p) = 1 \<and> \<not> lt_closed (ap_latest p)
     \<and> lt_retired_boots (ap_latest p) = LatestBootFilter_default
     \<and> ap_next_sequence p \<noteq> 0
     \<and> (if ap_next_sequence p = 1
        then lt_last_sequence (ap_latest p) = None \<and> lt_active_boot_id (ap_latest p) = None
        else lt_last_sequence (ap_latest p) = Some (ap_next_sequence p - 1) \<and> lt_active_boot_id (ap_latest p) = Some (ap_boot_id p))"

text \<open>The observations that can be published.\<close>

definition observation_ok :: "AgentPipeline \<Rightarrow> bytes option \<Rightarrow> TimedResponse \<Rightarrow> bool" where
  "observation_ok p random response \<longleftrightarrow>
     decode_sha256 (so_subject_id (tr_value response)) = Some (ap_subject_id p)
     \<and> ap_next_sequence p \<noteq> - 1
     \<and> 1000000 \<le> tr_rest_completed_at response \<and> tr_rest_completed_at response < 2 ^ 63 * 1000000
     \<and> random \<noteq> None
     \<and> fl_is_finite (so_x (tr_value response)) \<and> fl_is_finite (so_y (tr_value response)) \<and> fl_is_finite (so_z (tr_value response))
     \<and> (case so_heading_degrees (tr_value response) of
          Some h \<Rightarrow> \<not> ap_rotation_z_validated p \<or> (\<exists>q. h = FFin q \<and> 0 \<le> q \<and> q < 360)
        | None \<Rightarrow> True)"

definition completed_ms :: "TimedResponse \<Rightarrow> i64" where
  "completed_ms response = of_nat (nat (tr_rest_completed_at response) div 1000000)"

lemma unix_millis_ok:
  "(\<exists>ms. unix_millis t = Inr ms) \<longleftrightarrow> 1000000 \<le> t \<and> t < 2 ^ 63 * 1000000"
  "unix_millis t = Inr ms \<Longrightarrow> ms = of_nat (nat t div 1000000) \<and> 0 < sint ms"
proof -
  have ge: "(nat t div 1000000 = 0) \<longleftrightarrow> t < 1000000" if "0 \<le> t"
    using that by (simp add: div_eq_0_iff nat_less_iff)
  have lt: "nat t div 1000000 < 2 ^ 63 \<longleftrightarrow> t < 2 ^ 63 * 1000000" if "0 \<le> t"
    using that by (simp add: div_less_iff_less_mult nat_less_iff)
  show "(\<exists>ms. unix_millis t = Inr ms) \<longleftrightarrow> 1000000 \<le> t \<and> t < 2 ^ 63 * 1000000"
    using ge lt by (auto simp: unix_millis_def Let_def not_less split: if_splits)
  assume "unix_millis t = Inr ms"
  then have "0 \<le> t" "nat t div 1000000 < 2 ^ 63" "nat t div 1000000 \<noteq> 0" "ms = of_nat (nat t div 1000000)"
    by (auto simp: unix_millis_def Let_def not_le split: if_splits)
  moreover from this have "sint ms = int (nat t div 1000000)"
    by (simp add: signed_of_nat signed_take_bit_int_eq_self)
  ultimately show "ms = of_nat (nat t div 1000000) \<and> 0 < sint ms" by simp
qed

lemma emit_envelope_valid:
  assumes inv: "pipeline_inv p" and ms: "unix_millis (tr_rest_completed_at response) = Inr ms" and trace: "length trace_id = 16"
  shows "validate_envelope (emit_envelope p response ms now trace_id) (ap_coordinate_profile_sha256 p) = Inr ()
     \<longleftrightarrow> fl_is_finite (so_x (tr_value response)) \<and> fl_is_finite (so_y (tr_value response)) \<and> fl_is_finite (so_z (tr_value response))
       \<and> (case so_heading_degrees (tr_value response) of
            Some h \<Rightarrow> \<not> ap_rotation_z_validated p \<or> (\<exists>q. h = FFin q \<and> 0 \<le> q \<and> q < 360)
          | None \<Rightarrow> True)"
proof -
  have "0 < sint ms" by (rule conjunct2 [OF unix_millis_ok(2) [OF ms]])
  then show ?thesis using inv trace
    by (cases "so_heading_degrees (tr_value response)")
      (auto simp: validate_envelope_def emit_envelope_def emit_heading_def pipeline_inv_def and_then_eq_Inr validate_heading_Inr
        word_sless_alt split: if_splits)
qed

text \<open>The envelope an observation is published as.\<close>

definition published_as :: "AgentPipeline \<Rightarrow> nat \<Rightarrow> bytes \<Rightarrow> TimedResponse \<Rightarrow> SubscribeResponse" where
  "published_as p now trace_id response = emit_envelope p response (completed_ms response) now trace_id"

lemma publish_next:
  assumes inv: "pipeline_inv p" and valid: "validate_envelope env (ap_coordinate_profile_sha256 p) = Inr ()"
    and env: "env_world_alias env = ap_world_alias p" "env_subject_id env = ap_subject_id p"
      "env_boot_id env = ap_boot_id p" "env_sequence env = ap_next_sequence p"
  shows "LatestTelemetry_publish (ap_latest p) (ap_generation p) env
      = (Inr LpAccepted, latest_accept (ap_latest p) env (lt_diagnostics (ap_latest p)))"
proof -
  have step: "sat_add (n - 1) 1 = n" "n - 1 < n" if "n \<noteq> 0" for n :: u64
  proof -
    have u: "unat (n - 1) = unat n - 1" using that by (simp add: unat_minus_one)
    then have "unat (n - 1) + 1 = unat n" using that by (simp add: unat_gt_0)
    then show "sat_add (n - 1) 1 = n" using unat_less_pow [of n] by (simp add: sat_add_def)
    show "n - 1 < n" using u that by (simp add: word_less_nat_alt unat_gt_0)
  qed
  have "latest_publish_sequenced (ap_latest p) env
      = (Inr LpAccepted, latest_accept (ap_latest p) env (lt_diagnostics (ap_latest p)))"
    using inv step [of "ap_next_sequence p"]
    by (auto simp: latest_publish_sequenced_def pipeline_inv_def env Let_def split: if_splits)
  moreover have "LatestTelemetry_publish (ap_latest p) (ap_generation p) env = latest_publish_sequenced (ap_latest p) env"
    using inv valid
    by (auto simp: LatestTelemetry_publish_def pipeline_inv_def is_bound_to_def env Let_def split: if_splits)
  ultimately show ?thesis by simp
qed

lemma emit_envelope_fields:
  "env_world_alias (emit_envelope p r ms now t) = ap_world_alias p"
  "env_subject_id (emit_envelope p r ms now t) = ap_subject_id p"
  "env_boot_id (emit_envelope p r ms now t) = ap_boot_id p"
  "env_sequence (emit_envelope p r ms now t) = ap_next_sequence p"
  by (simp_all add: emit_envelope_def split_beta)

lemma sat_add_one: "n \<noteq> - 1 \<Longrightarrow> sat_add n 1 = n + (1 :: u64)"
proof -
  assume "n \<noteq> - 1"
  then have "unat n \<noteq> unat (- 1 :: u64)" using word_unat_eq_iff [of n "- 1"] by blast
  moreover have "unat (- 1 :: u64) = 2 ^ 64 - 1" by (simp add: unsigned_minus_1_eq_mask mask_eq_exp_minus_1)
  ultimately have "unat n \<noteq> 2 ^ 64 - 1" by simp
  then show ?thesis using unat_less_pow [of n] by (simp add: sat_add_def)
qed

text \<open>An emission succeeds exactly on the observations that can be published, and then publishes them.\<close>

lemma emit_inner_cases:
  assumes inv: "pipeline_inv p" and random: "\<And>b. random = Some b \<Longrightarrow> length b = 16"
  shows "observation_ok p random response \<Longrightarrow>
      emit_inner now random response (p, health) =
        (Inr (), p\<lparr>ap_latest := latest_accept (ap_latest p) (published_as p now (the random) response) (lt_diagnostics (ap_latest p)),
           ap_next_sequence := ap_next_sequence p + 1\<rparr>, record_emitted health)"
    and "\<not> observation_ok p random response \<Longrightarrow> \<exists>e. emit_inner now random response (p, health) = (Inl e, p, health)"
proof -
  let ?t = "tr_rest_completed_at response"
  have valid: "validate_envelope (emit_envelope p response ms now b) (ap_coordinate_profile_sha256 p) = Inr ()
      \<longleftrightarrow> fl_is_finite (so_x (tr_value response)) \<and> fl_is_finite (so_y (tr_value response)) \<and> fl_is_finite (so_z (tr_value response))
       \<and> (case so_heading_degrees (tr_value response) of
            Some h \<Rightarrow> \<not> ap_rotation_z_validated p \<or> (\<exists>q. h = FFin q \<and> 0 \<le> q \<and> q < 360)
          | None \<Rightarrow> True)" if "unix_millis ?t = Inr ms" "random = Some b" for ms b
    using emit_envelope_valid [OF inv that(1) random [OF that(2)]] .
  show "emit_inner now random response (p, health) =
        (Inr (), p\<lparr>ap_latest := latest_accept (ap_latest p) (published_as p now (the random) response) (lt_diagnostics (ap_latest p)),
           ap_next_sequence := ap_next_sequence p + 1\<rparr>, record_emitted health)"
    if ok: "observation_ok p random response"
  proof -
    obtain b where b: "random = Some b" using ok by (auto simp: observation_ok_def)
    obtain ms where ms: "unix_millis ?t = Inr ms" using ok unix_millis_ok(1) by (auto simp: observation_ok_def)
    have ms_eq: "ms = completed_ms response" using unix_millis_ok(2) [OF ms] by (simp add: completed_ms_def)
    have "validate_envelope (emit_envelope p response ms now b) (ap_coordinate_profile_sha256 p) = Inr ()"
      unfolding valid [OF ms b] using ok by (simp add: observation_ok_def)
    from publish_next [OF inv this emit_envelope_fields]
    have pub: "LatestTelemetry_publish (ap_latest p) (ap_generation p) (emit_envelope p response ms now b)
        = (Inr LpAccepted, latest_accept (ap_latest p) (emit_envelope p response ms now b) (lt_diagnostics (ap_latest p)))" .
    have "sat_add (ap_next_sequence p) 1 = ap_next_sequence p + 1"
      using ok by (intro sat_add_one) (simp add: observation_ok_def)
    then have "emit_inner now random response (p, health) =
        (Inr (), p\<lparr>ap_latest := latest_accept (ap_latest p) (emit_envelope p response ms now b) (lt_diagnostics (ap_latest p)),
           ap_next_sequence := ap_next_sequence p + 1\<rparr>, record_emitted health)"
      using ok pub by (simp add: emit_inner_def observation_ok_def b ms)
    then show ?thesis by (simp add: b published_as_def ms_eq)
  qed
  show "\<exists>e. emit_inner now random response (p, health) = (Inl e, p, health)" if bad: "\<not> observation_ok p random response"
  proof (cases "unix_millis ?t")
    case (Inl e)
    then show ?thesis by (auto simp: emit_inner_def split: option.split)
  next
    case ms: (Inr ms)
    show ?thesis
    proof (cases random)
      case None
      then show ?thesis by (auto simp: emit_inner_def ms split: option.split)
    next
      case (Some b)
      show ?thesis
      proof (cases "decode_sha256 (so_subject_id (tr_value response)) = Some (ap_subject_id p) \<and> ap_next_sequence p \<noteq> - 1")
        case True
        have "validate_envelope (emit_envelope p response ms now b) (ap_coordinate_profile_sha256 p) \<noteq> Inr ()"
          unfolding valid [OF ms Some] using bad True unix_millis_ok(1) [of ?t] ms Some by (auto simp: observation_ok_def)
        then obtain e where "validate_envelope (emit_envelope p response ms now b) (ap_coordinate_profile_sha256 p) = Inl e"
          by (cases "validate_envelope (emit_envelope p response ms now b) (ap_coordinate_profile_sha256 p)") auto
        then have "LatestTelemetry_publish (ap_latest p) (ap_generation p) (emit_envelope p response ms now b) = (Inl LatestValidation, ap_latest p)"
          using inv by (simp add: LatestTelemetry_publish_def pipeline_inv_def is_bound_to_def)
        then show ?thesis using True by (simp add: emit_inner_def ms Some)
      next
        case False
        then show ?thesis by (auto simp: emit_inner_def split: option.split)
      qed
    qed
  qed
qed

lemma emit_keeps_inv:
  assumes inv: "pipeline_inv p" and random: "\<And>b. random = Some b \<Longrightarrow> length b = 16"
    and run: "emit_inner now random response (p, health) = (r, p', health')"
  shows "pipeline_inv p'"
proof (cases "observation_ok p random response")
  case True
  have p': "p' = p\<lparr>ap_latest := latest_accept (ap_latest p) (published_as p now (the random) response) (lt_diagnostics (ap_latest p)),
           ap_next_sequence := ap_next_sequence p + 1\<rparr>"
    using emit_inner_cases(1) [OF inv random True, of now health] run by simp
  have n: "ap_next_sequence p + 1 \<noteq> 0" "ap_next_sequence p + 1 \<noteq> 1"
    using True inv by (auto simp: observation_ok_def pipeline_inv_def eq_neg_iff_add_eq_0)
  show ?thesis using inv n
    by (simp add: p' pipeline_inv_def latest_accept_def is_bound_to_def published_as_def emit_envelope_fields)
next
  case False
  then show ?thesis using emit_inner_cases(2) [OF inv random False, of now health] run inv by auto
qed

lemma agent_start_inv:
  assumes start: "agent_start world subject profile rz random interval_ms = Some po" and random: "\<And>b. random = Some b \<Longrightarrow> length b = 16"
  shows "pipeline_inv (po_pipeline po)" "ap_next_sequence (po_pipeline po) = 1" "po_health po = HealthMonitor_default"
    "LatestTelemetry_current (ap_latest (po_pipeline po)) = None"
proof -
  obtain latest where latest: "LatestTelemetry_new world subject profile = Inr latest"
    using start by (auto simp: agent_start_def split: sum.splits)
  have l: "latest = \<lparr>lt_expected_world_alias = world, lt_expected_subject_id = subject, lt_expected_profile = profile,
      lt_closed = False, lt_generation = 0, lt_active_boot_id = None, lt_last_sequence = None,
      lt_retired_boots = LatestBootFilter_default, lt_diagnostics = LatestDiagnostics_default, lt_signal = SigOpen None\<rparr>"
    "length subject = 32" "alias_ok world" "sha256_text profile"
    using latest by (auto simp: LatestTelemetry_new_def and_then_eq_Inr latest_validation_sample_def validate_envelope_def split: if_splits)
  obtain boot where boot: "random = Some boot" "boot \<noteq> replicate 16 0"
    using start latest by (auto simp: agent_start_def AgentPipeline_new_def split: option.splits if_splits)
  have con: "LatestTelemetry_connect latest 1 = (LcAccepted, latest\<lparr>lt_generation := 1\<rparr>)"
    by (simp add: LatestTelemetry_connect_def l(1))
  have bound: "is_bound_to latest world subject profile" by (simp add: is_bound_to_def l(1))
  have po: "po = \<lparr>po_poll_interval = interval_ms, po_pipeline = \<lparr>ap_world_alias = world, ap_subject_id = subject,
      ap_coordinate_profile_sha256 = profile, ap_rotation_z_validated = rz, ap_boot_id = boot, ap_next_sequence = 1,
      ap_generation = 1, ap_latest = latest\<lparr>lt_generation := 1\<rparr>\<rparr>, po_health = HealthMonitor_default\<rparr>"
    using start latest boot bound con l(2)
    by (auto simp: agent_start_def AgentPipeline_new_def Poller_new_def split: if_splits)
  show "pipeline_inv (po_pipeline po)"
    using l(2-4) random [OF boot(1)] by (simp add: po pipeline_inv_def is_bound_to_def l(1))
  show "ap_next_sequence (po_pipeline po) = 1" "po_health po = HealthMonitor_default"
    "LatestTelemetry_current (ap_latest (po_pipeline po)) = None"
    by (simp_all add: po LatestTelemetry_current_def l(1))
qed

section \<open>What the poller did\<close>

text \<open>The outcome of each round that got an answer from a trusted source, up to the end of the run.\<close>

datatype poll_result = PollFailed RestError | SampleRefused | SamplePublished SubscribeResponse

definition round_exit :: "poll_round \<Rightarrow> PollerExit option" where
  "round_exit r =
     (case rd_interrupt r of
        Some c \<Rightarrow> if shuts_down c then Some PollShutdown else None
      | None \<Rightarrow>
          if \<not> rd_trust_before r then Some TrustLost
          else (case rd_answer r of
                  Inl c \<Rightarrow> if shuts_down c then Some PollShutdown else None
                | Inr result \<Rightarrow> if result = Inl ConnectionUntrusted \<or> \<not> rd_trust_after r then Some TrustLost else None))"

definition trusted_answer :: "poll_round \<Rightarrow> (RestError + TimedResponse) option" where
  "trusted_answer r =
     (case (rd_interrupt r, rd_answer r) of
        (None, Inr result) \<Rightarrow>
          if rd_trust_before r \<and> rd_trust_after r \<and> result \<noteq> Inl ConnectionUntrusted then Some result else None
      | _ \<Rightarrow> None)"

fun round_log :: "AgentPipeline \<Rightarrow> poll_round list \<Rightarrow> poll_result list" where
  "round_log p [] = []"
| "round_log p (r # rs) =
     (if round_exit r \<noteq> None then []
      else case trusted_answer r of
        None \<Rightarrow> round_log p rs
      | Some (Inl e) \<Rightarrow> PollFailed e # round_log p rs
      | Some (Inr response) \<Rightarrow>
          if observation_ok p (rd_random r) response
          then SamplePublished (published_as p (rd_now r) (the (rd_random r)) response)
            # round_log (p\<lparr>ap_next_sequence := ap_next_sequence p + 1\<rparr>) rs
          else SampleRefused # round_log p rs)"

definition published :: "poll_result list \<Rightarrow> SubscribeResponse list" where
  "published results = concat (map (\<lambda>r. case r of SamplePublished env \<Rightarrow> [env] | _ \<Rightarrow> []) results)"

text \<open>The health a log amounts to.\<close>

fun log_health :: "poll_result \<Rightarrow> HealthMonitor \<Rightarrow> HealthMonitor" where
  "log_health (PollFailed e) m = record_poll_failure e m"
| "log_health SampleRefused m = record_publish_failure (record_poll_success m)"
| "log_health (SamplePublished _) m = record_emitted (record_poll_success m)"

lemma poll_round_step_cases:
  assumes inv: "pipeline_inv (po_pipeline po)" and random: "\<And>b. rd_random r = Some b \<Longrightarrow> length b = 16"
  shows "round_exit r = Some e \<Longrightarrow> poll_round_step r po = (Some e, po)"
    and "round_exit r = None \<Longrightarrow> trusted_answer r = None \<Longrightarrow> poll_round_step r po = (None, po)"
    and "round_exit r = None \<Longrightarrow> trusted_answer r = Some (Inl err)
      \<Longrightarrow> poll_round_step r po = (None, po\<lparr>po_health := log_health (PollFailed err) (po_health po)\<rparr>)"
    and "round_exit r = None \<Longrightarrow> trusted_answer r = Some (Inr response) \<Longrightarrow> \<not> observation_ok (po_pipeline po) (rd_random r) response
      \<Longrightarrow> poll_round_step r po = (None, po\<lparr>po_health := log_health SampleRefused (po_health po)\<rparr>)"
    and "round_exit r = None \<Longrightarrow> trusted_answer r = Some (Inr response) \<Longrightarrow> observation_ok (po_pipeline po) (rd_random r) response
      \<Longrightarrow> poll_round_step r po = (None, po\<lparr>po_pipeline := (po_pipeline po)\<lparr>ap_latest := latest_accept (ap_latest (po_pipeline po))
             (published_as (po_pipeline po) (rd_now r) (the (rd_random r)) response) (lt_diagnostics (ap_latest (po_pipeline po))),
           ap_next_sequence := ap_next_sequence (po_pipeline po) + 1\<rparr>,
         po_health := log_health (SamplePublished env) (po_health po)\<rparr>)"
proof -
  show "round_exit r = Some e \<Longrightarrow> poll_round_step r po = (Some e, po)"
    by (auto simp: round_exit_def poll_round_step_def split: option.splits sum.splits if_splits)
  show "round_exit r = None \<Longrightarrow> trusted_answer r = None \<Longrightarrow> poll_round_step r po = (None, po)"
    by (auto simp: round_exit_def trusted_answer_def poll_round_step_def split: option.splits sum.splits if_splits)
  show "round_exit r = None \<Longrightarrow> trusted_answer r = Some (Inl err)
      \<Longrightarrow> poll_round_step r po = (None, po\<lparr>po_health := log_health (PollFailed err) (po_health po)\<rparr>)"
    by (auto simp: round_exit_def trusted_answer_def poll_round_step_def split: option.splits sum.splits if_splits)
  have sample: "poll_round_step r po = (let (_, pipeline, health) = pipeline_emit (rd_now r) (rd_random r) response
        (po_pipeline po, record_poll_success (po_health po)) in (None, po\<lparr>po_pipeline := pipeline, po_health := health\<rparr>))"
    if "round_exit r = None" "trusted_answer r = Some (Inr response)"
    using that by (auto simp: round_exit_def trusted_answer_def poll_round_step_def Let_def split: option.splits sum.splits if_splits)
  show "round_exit r = None \<Longrightarrow> trusted_answer r = Some (Inr response) \<Longrightarrow> \<not> observation_ok (po_pipeline po) (rd_random r) response
      \<Longrightarrow> poll_round_step r po = (None, po\<lparr>po_health := log_health SampleRefused (po_health po)\<rparr>)"
    using emit_inner_cases(2) [OF inv random, of "rd_random r" response "rd_now r" "record_poll_success (po_health po)"]
    by (auto simp: sample pipeline_emit_def)
  show "round_exit r = None \<Longrightarrow> trusted_answer r = Some (Inr response) \<Longrightarrow> observation_ok (po_pipeline po) (rd_random r) response
      \<Longrightarrow> poll_round_step r po = (None, po\<lparr>po_pipeline := (po_pipeline po)\<lparr>ap_latest := latest_accept (ap_latest (po_pipeline po))
             (published_as (po_pipeline po) (rd_now r) (the (rd_random r)) response) (lt_diagnostics (ap_latest (po_pipeline po))),
           ap_next_sequence := ap_next_sequence (po_pipeline po) + 1\<rparr>,
         po_health := log_health (SamplePublished env) (po_health po)\<rparr>)"
    using emit_inner_cases(1) [OF inv random, of "rd_random r" response "rd_now r" "record_poll_success (po_health po)"]
    by (auto simp: sample pipeline_emit_def)
qed

lemma observation_latest [simp]:
  "observation_ok (p\<lparr>ap_latest := l\<rparr>) random response = observation_ok p random response"
  "published_as (p\<lparr>ap_latest := l\<rparr>) now t response = published_as p now t response"
  by (simp_all add: observation_ok_def published_as_def emit_envelope_def split_beta cong: option.case_cong)

lemma round_log_latest [simp]: "round_log (p\<lparr>ap_latest := l\<rparr>) rs = round_log p rs"
proof (induction rs arbitrary: p)
  case (Cons r rs)
  have "round_log (p\<lparr>ap_latest := l, ap_next_sequence := n\<rparr>) rs = round_log (p\<lparr>ap_next_sequence := n\<rparr>) rs" for n
    using Cons.IH [of "p\<lparr>ap_next_sequence := n\<rparr>"] by (cases p) simp
  then show ?case by (simp add: Cons.IH split: option.split sum.split)
qed simp

lemma published_simps [simp]:
  "published [] = []" "published (PollFailed e # log') = published log'" "published (SampleRefused # log') = published log'"
  "published (SamplePublished env # log') = env # published log'"
  by (simp_all add: published_def)

lemma next_sequence_unat: "n \<noteq> - 1 \<Longrightarrow> unat (n + 1 :: u64) = Suc (unat n)"
  using sat_add_one [of n] unat_sat_add [of n 1] unat_less_pow [of n]
proof -
  assume n: "n \<noteq> - 1"
  then have "unat n \<noteq> unat (- 1 :: u64)" using word_unat_eq_iff [of n "- 1"] by blast
  moreover have "unat (- 1 :: u64) = 2 ^ 64 - 1" by (simp add: unsigned_minus_1_eq_mask mask_eq_exp_minus_1)
  ultimately have "unat n + 1 \<le> 2 ^ 64 - 1" using unat_less_pow [of n] by simp
  then show ?thesis using unat_sat_add [of n 1] sat_add_one [OF n] by simp
qed

text \<open>A run of the poller is its log: numbered in order, the last sample visible, the health counted.\<close>

lemma poller_run_log:
  assumes "poller_run rs po = (e, po')" "pipeline_inv (po_pipeline po)"
    and "\<forall>r \<in> set rs. \<forall>b. rd_random r = Some b \<longrightarrow> length b = 16"
  shows "e = Option.bind (find (\<lambda>r. round_exit r \<noteq> None) rs) round_exit
    \<and> pipeline_inv (po_pipeline po')
    \<and> po_health po' = fold log_health (round_log (po_pipeline po) rs) (po_health po)
    \<and> map (unat \<circ> env_sequence) (published (round_log (po_pipeline po) rs))
        = [unat (ap_next_sequence (po_pipeline po)) ..< unat (ap_next_sequence (po_pipeline po'))]
    \<and> unat (ap_next_sequence (po_pipeline po'))
        = unat (ap_next_sequence (po_pipeline po)) + length (published (round_log (po_pipeline po) rs))
    \<and> LatestTelemetry_current (ap_latest (po_pipeline po'))
        = (if published (round_log (po_pipeline po) rs) = [] then LatestTelemetry_current (ap_latest (po_pipeline po))
           else Some (last (published (round_log (po_pipeline po) rs))))"
  using assms
proof (induction rs arbitrary: po)
  case (Cons r rs)
  have random: "\<And>b. rd_random r = Some b \<Longrightarrow> length b = 16" using Cons.prems(3) by simp
  note step = poll_round_step_cases [OF Cons.prems(2) random]
  have later: "\<forall>r \<in> set rs. \<forall>b. rd_random r = Some b \<longrightarrow> length b = 16" using Cons.prems(3) by simp
  show ?case
  proof (cases "round_exit r")
    case (Some x)
    have run: "poll_round_step r po = (Some x, po)" using step(1) [OF _ Some] by simp
    have "e = Some x" "po' = po" using Cons.prems(1) by (simp_all add: run)
    then show ?thesis using Cons.prems(2) Some by simp
  next
    case go: None
    show ?thesis
    proof (cases "trusted_answer r")
      case None
      have "poller_run rs po = (e, po')" using Cons.prems(1) step(2) [OF _ go None] by simp
      from Cons.IH [OF this Cons.prems(2) later] show ?thesis using go None by simp
    next
      case (Some answer)
      show ?thesis
      proof (cases answer)
        case (Inl err)
        let ?po = "po\<lparr>po_health := log_health (PollFailed err) (po_health po)\<rparr>"
        have "poll_round_step r po = (None, ?po)" using step(3) [OF _ go] Some Inl by simp
        then have "poller_run rs ?po = (e, po')" using Cons.prems(1) by simp
        from Cons.IH [OF this _ later] show ?thesis using Cons.prems(2) go Some Inl by simp
      next
        case (Inr response)
        show ?thesis
        proof (cases "observation_ok (po_pipeline po) (rd_random r) response")
          case False
          let ?po = "po\<lparr>po_health := log_health SampleRefused (po_health po)\<rparr>"
          have "poll_round_step r po = (None, ?po)" using step(4) [OF _ go _ False] Some Inr by simp
          then have "poller_run rs ?po = (e, po')" using Cons.prems(1) by simp
          from Cons.IH [OF this _ later] show ?thesis using Cons.prems(2) go Some Inr False by simp
        next
          case True
          let ?p = "po_pipeline po" and ?n = "ap_next_sequence (po_pipeline po)"
          let ?env = "published_as ?p (rd_now r) (the (rd_random r)) response"
          define p1 where "p1 = ?p\<lparr>ap_latest := latest_accept (ap_latest ?p) ?env (lt_diagnostics (ap_latest ?p)), ap_next_sequence := ?n + 1\<rparr>"
          define po1 where "po1 = po\<lparr>po_pipeline := p1, po_health := log_health (SamplePublished ?env) (po_health po)\<rparr>"
          have run: "poll_round_step r po = (None, po1)"
            using step(5) [OF _ go _ True] Some Inr by (simp add: po1_def p1_def)
          have inv1: "pipeline_inv (po_pipeline po1)"
          proof -
            note emitted = emit_inner_cases(1) [OF Cons.prems(2) random True, of "rd_now r" HealthMonitor_default]
            show ?thesis using emit_keeps_inv [OF Cons.prems(2) random emitted] by (simp add: po1_def p1_def)
          qed
          have log1: "round_log (po_pipeline po1) rs = round_log (?p\<lparr>ap_next_sequence := ?n + 1\<rparr>) rs"
            using round_log_latest [where p = "?p\<lparr>ap_next_sequence := ?n + 1\<rparr>"] by (cases ?p) (simp add: po1_def p1_def)
          have log: "round_log ?p (r # rs) = SamplePublished ?env # round_log (po_pipeline po1) rs"
            using go Some Inr True by (simp add: log1)
          have "?n \<noteq> - 1" using True by (simp add: observation_ok_def)
          then have n1: "unat (ap_next_sequence (po_pipeline po1)) = Suc (unat ?n)"
            by (simp add: po1_def p1_def next_sequence_unat)
          have env: "env_sequence ?env = ?n" by (simp add: published_as_def emit_envelope_fields)
          have seen: "LatestTelemetry_current (ap_latest (po_pipeline po1)) = Some ?env"
            by (simp add: po1_def p1_def latest_accept_def LatestTelemetry_current_def)
          have "poller_run rs po1 = (e, po')" using Cons.prems(1) run by simp
          note IH = Cons.IH [OF this inv1 later]
          have upt: "[unat ?n ..< m] = unat ?n # [Suc (unat ?n) ..< m]" if "Suc (unat ?n) \<le> m" for m
            using that by (simp add: upt_conv_Cons)
          have health: "po_health po1 = log_health (SamplePublished ?env) (po_health po)" by (simp add: po1_def)
          show ?thesis unfolding log using IH go env n1 seen health by (auto simp: upt)
        qed
      qed
    qed
  qed
qed simp

text \<open>A published sample carries the observation of a round whose source was trusted before and after it.\<close>

definition sample_of :: "poll_round \<Rightarrow> SubscribeResponse \<Rightarrow> bool" where
  "sample_of r env \<longleftrightarrow> (\<exists>response. trusted_answer r = Some (Inr response)
     \<and> env_position_x env = so_x (tr_value response) \<and> env_position_y env = so_y (tr_value response)
     \<and> env_position_z env = so_z (tr_value response)
     \<and> env_heading_degrees env \<in> {None, so_heading_degrees (tr_value response)}
     \<and> env_rest_completed_at_unix_ms env = completed_ms response
     \<and> env_age_at_emit_ms env = age_at_emit (rd_now r) (tr_completed_monotonic response))"

lemma published_from_rounds: "env \<in> set (published (round_log p rs)) \<Longrightarrow> \<exists>r \<in> set rs. sample_of r env"
proof (induction rs arbitrary: p)
  case (Cons r rs)
  have here: "sample_of r (published_as p (rd_now r) t response)" if "trusted_answer r = Some (Inr response)" for t response
    using that by (cases "so_heading_degrees (tr_value response)")
      (auto simp: sample_of_def published_as_def emit_envelope_def emit_heading_def)
  show ?case using Cons.prems Cons.IH here
    by (auto split: if_splits option.splits sum.splits)
qed simp

text \<open>A counter after so many increments.\<close>

definition counted :: "nat \<Rightarrow> u64" where
  "counted n = of_nat (min n (2 ^ 64 - 1))"

lemma counted_steps: "counted 0 = 0" "saturating_increment (counted n) = counted (Suc n)"
proof -
  show "saturating_increment (counted n) = counted (Suc n)"
    by (rule word_unat_eq_iff [THEN iffD2]) (simp add: counted_def saturating_increment_def sat_unat unat_of_nat min_def)
qed (simp add: counted_def)

lemma log_health_step:
  "am_successful_polls (hm_metrics (log_health x m)) = (if (\<exists>e. x = PollFailed e) then am_successful_polls (hm_metrics m)
     else saturating_increment (am_successful_polls (hm_metrics m)))"
  "am_failed_polls (hm_metrics (log_health x m)) = (if (\<exists>e. x = PollFailed e) then saturating_increment (am_failed_polls (hm_metrics m))
     else am_failed_polls (hm_metrics m))"
  "am_emitted_samples (hm_metrics (log_health x m)) = (if (\<exists>env. x = SamplePublished env) then saturating_increment (am_emitted_samples (hm_metrics m))
     else am_emitted_samples (hm_metrics m))"
  "am_publish_failures (hm_metrics (log_health x m)) = (if x = SampleRefused then saturating_increment (am_publish_failures (hm_metrics m))
     else am_publish_failures (hm_metrics m))"
  "0 < hs_consecutive_failures (hm_state (log_health x m)) \<longleftrightarrow> (\<forall>env. x \<noteq> SamplePublished env)"
  by (cases x; simp add: record_poll_failure_def record_poll_success_def record_publish_failure_def record_emitted_def
      word_neq_0_conv [symmetric])+

definition refused :: "poll_result list \<Rightarrow> nat" where
  "refused results = length (filter (\<lambda>x. x = SampleRefused) results)"

definition failed :: "poll_result list \<Rightarrow> nat" where
  "failed results = length (filter (\<lambda>x. \<exists>e. x = PollFailed e) results)"

lemma published_snoc: "published (xs @ [x]) = published xs @ (case x of SamplePublished env \<Rightarrow> [env] | _ \<Rightarrow> [])"
  by (simp add: published_def)

lemma log_counters:
  "let m = hm_metrics (fold log_health results HealthMonitor_default) in
     am_successful_polls m = counted (length (published results) + refused results)
     \<and> am_failed_polls m = counted (failed results)
     \<and> am_emitted_samples m = counted (length (published results))
     \<and> am_publish_failures m = counted (refused results)"
proof (induction results rule: rev_induct)
  case Nil
  show ?case by (simp add: HealthMonitor_default_def counted_steps failed_def refused_def)
next
  case (snoc x xs)
  then show ?case unfolding Let_def
    by (cases x) (simp_all add: log_health_step counted_steps published_snoc failed_def refused_def del: log_health.simps)
qed

lemma log_degraded:
  "0 < hs_consecutive_failures (hm_state (fold log_health results HealthMonitor_default))
     \<longleftrightarrow> results \<noteq> [] \<and> (\<forall>env. last results \<noteq> SamplePublished env)"
  by (cases results rule: rev_cases) (simp_all add: log_health_step HealthMonitor_default_def del: log_health.simps)

text \<open>Data from a remote server comes within half a minute of a check that it is still the same server.\<close>

lemma remote_data_verified:
  assumes "rest_game_data now info later answer (ExplicitRemoteHttps c) = (Inr response, b)" "now \<le> later"
  shows "\<exists>c'. b = ExplicitRemoteHttps c' \<and> ri_expected c' = ri_expected c
    \<and> (c' = c \<and> now - ri_last_verified c < REMOTE_IDENTITY_RECHECK_INTERVAL
       \<or> ri_last_verified c' = later \<and> info = Inr (ri_expected c))"
  using assms
  by (auto simp: rest_game_data_def revalidate_remote_identity_if_due_def remote_is_due_def remote_confirm_def not_le
      split: if_splits sum.splits prod.splits)

section \<open>Properties\<close>

definition sample_poller :: Poller where
  "sample_poller =
     \<lparr>po_poll_interval = 500, po_pipeline = \<lparr>ap_world_alias = ''w'', ap_subject_id = replicate 32 7,
        ap_coordinate_profile_sha256 = sample_profile, ap_rotation_z_validated = False, ap_boot_id = replicate 16 1,
        ap_next_sequence = 1, ap_generation = 1, ap_latest = sample_latest\<lparr>lt_generation := 1\<rparr>\<rparr>,
      po_health = HealthMonitor_default\<rparr>"

definition sample_round :: "bool \<Rightarrow> poll_round" where
  "sample_round trusted_after =
     \<lparr>rd_interrupt = None, rd_trust_before = True,
      rd_answer = Inr (Inr \<lparr>tr_value = \<lparr>so_subject_id = concat (replicate 32 ''07''), so_x = FFin 1, so_y = FFin 2, so_z = FFin 3,
        so_heading_degrees = None\<rparr>, tr_rest_completed_at = 2000000, tr_completed_monotonic = 0\<rparr>),
      rd_trust_after = trusted_after, rd_now = 5000000, rd_random = Some (replicate 16 9)\<rparr>"

lemma sample_agent_start:
  "agent_start ''w'' (replicate 32 7) sample_profile False (Some (replicate 16 1)) 500 = Some sample_poller"
proof -
  have "LatestTelemetry_new ''w'' (replicate 32 7) sample_profile = Inr sample_latest"
    by (simp add: LatestTelemetry_new_def sample_latest_def and_then_eq_Inr latest_validation_sample_def
        validate_envelope_def alias_ok_def is_ascii_def sample_profile_canonical validate_heading_Inr)
  moreover have "LatestTelemetry_connect sample_latest 1 = (LcAccepted, sample_latest\<lparr>lt_generation := 1\<rparr>)"
    by (simp add: LatestTelemetry_connect_def sample_latest_def)
  moreover have "is_bound_to sample_latest ''w'' (replicate 32 7) sample_profile" by (simp add: is_bound_to_def sample_latest_def)
  moreover have "replicate 16 (1 :: u8) \<noteq> replicate 16 0" by simp
  ultimately show ?thesis by (simp add: agent_start_def AgentPipeline_new_def Poller_new_def sample_poller_def)
qed

lemma sample_round_log:
  "\<exists>env. round_log (po_pipeline sample_poller) [sample_round True] = [SamplePublished env]"
proof -
  have "decode_sha256 (concat (replicate 32 ''07'')) = Some (replicate 32 7)" by code_simp
  then have "observation_ok (po_pipeline sample_poller) (rd_random (sample_round True))
      \<lparr>tr_value = \<lparr>so_subject_id = concat (replicate 32 ''07''), so_x = FFin 1, so_y = FFin 2, so_z = FFin 3,
        so_heading_degrees = None\<rparr>, tr_rest_completed_at = 2000000, tr_completed_monotonic = 0\<rparr>"
    by (simp add: observation_ok_def sample_poller_def sample_round_def)
  then show ?thesis by (simp add: round_exit_def trusted_answer_def sample_round_def)
qed

lemma sample_traces: "\<forall>r \<in> set [sample_round t]. \<forall>b. rd_random r = Some b \<longrightarrow> length b = 16"
  "\<forall>b. Some (replicate 16 (1 :: u8)) = Some b \<longrightarrow> length b = 16"
  by (simp_all add: sample_round_def)

text \<open>
  C11: Whatever the game server answers and whenever the agent is stopped, the samples it publishes are numbered
  one, two, three and so on, each carries the position of an observation that arrived while the source was
  trusted, and the value subscribers see is the last of them.
\<close>

theorem agent_publishes_in_order:
  assumes start: "agent_start world subject profile rz random interval_ms = Some po"
    and boot: "\<forall>b. random = Some b \<longrightarrow> length b = 16"
    and traces: "\<forall>r \<in> set rounds. \<forall>b. rd_random r = Some b \<longrightarrow> length b = 16"
    and run: "poller_run rounds po = (e, po')"
  shows "let samples = published (round_log (po_pipeline po) rounds) in
       map (unat \<circ> env_sequence) samples = [1 ..< Suc (length samples)]
     \<and> (\<forall>env \<in> set samples. \<exists>r \<in> set rounds. sample_of r env)
     \<and> LatestTelemetry_current (ap_latest (po_pipeline po')) = (if samples = [] then None else Some (last samples))"
proof -
  have random: "\<And>b. random = Some b \<Longrightarrow> length b = 16" using boot by blast
  note begin_state = agent_start_inv [OF start random]
  note log = poller_run_log [OF run begin_state(1) traces]
  have one: "unat (ap_next_sequence (po_pipeline po)) = 1" by (simp add: begin_state(2))
  show ?thesis unfolding Let_def using log published_from_rounds [of _ "po_pipeline po" rounds]
    by (auto simp: one begin_state(4) comp_def)
qed

theorem agent_publishes_in_order_witness:
  "\<exists>env. LatestTelemetry_current (ap_latest (po_pipeline (snd (poller_run [sample_round True] sample_poller)))) = Some env
     \<and> unat (env_sequence env) = 1"
proof -
  obtain env where env: "round_log (po_pipeline sample_poller) [sample_round True] = [SamplePublished env]"
    using sample_round_log by blast
  have "poller_run [sample_round True] sample_poller
      = (fst (poller_run [sample_round True] sample_poller), snd (poller_run [sample_round True] sample_poller))" by simp
  from agent_publishes_in_order [OF sample_agent_start sample_traces(2) sample_traces(1) this] show ?thesis
    unfolding env Let_def by simp
qed

text \<open>
  The health report adds up: every answered poll is counted once, as a failure or as a success, every
  success as an emitted sample or as a publication failure, and the agent reports itself degraded exactly when
  the last answered poll did not end in a published sample.
\<close>

lemma agent_health_adds_up:
  assumes start: "agent_start world subject profile rz random interval_ms = Some po"
    and boot: "\<forall>b. random = Some b \<longrightarrow> length b = 16"
    and traces: "\<forall>r \<in> set rounds. \<forall>b. rd_random r = Some b \<longrightarrow> length b = 16"
    and run: "poller_run rounds po = (e, po')"
  shows "let results = round_log (po_pipeline po) rounds; health = health_snapshot (po_health po') in
       length results = length (published results) + refused results + failed results
     \<and> hsn_successful_polls health = counted (length (published results) + refused results)
     \<and> hsn_failed_polls health = counted (failed results)
     \<and> hsn_emitted_samples health = counted (length (published results))
     \<and> hsn_publish_failures health = counted (refused results)
     \<and> (hsn_degraded health \<longleftrightarrow> results \<noteq> [] \<and> (\<forall>env. last results \<noteq> SamplePublished env))"
proof -
  have random: "\<And>b. random = Some b \<Longrightarrow> length b = 16" using boot by blast
  note begin_state = agent_start_inv [OF start random]
  have health: "po_health po' = fold log_health (round_log (po_pipeline po) rounds) HealthMonitor_default"
    using poller_run_log [OF run begin_state(1) traces] begin_state(3) by simp
  have total: "length results = length (published results) + refused results + failed results" for results
  proof (induction results)
    case (Cons x xs)
    then show ?case by (cases x) (simp_all add: refused_def failed_def)
  qed (simp add: refused_def failed_def)
  show ?thesis
    using total log_counters [of "round_log (po_pipeline po) rounds"] log_degraded [of "round_log (po_pipeline po) rounds"]
    by (simp add: Let_def health_snapshot_def health)
qed

lemma agent_health_adds_up_example:
  "hsn_successful_polls (health_snapshot (po_health (snd (poller_run [sample_round True] sample_poller)))) = 1
   \<and> \<not> hsn_degraded (health_snapshot (po_health (snd (poller_run [sample_round True] sample_poller))))"
proof -
  obtain env where env: "round_log (po_pipeline sample_poller) [sample_round True] = [SamplePublished env]"
    using sample_round_log by blast
  have "poller_run [sample_round True] sample_poller
      = (fst (poller_run [sample_round True] sample_poller), snd (poller_run [sample_round True] sample_poller))" by simp
  from agent_health_adds_up [OF sample_agent_start sample_traces(2) sample_traces(1) this] show ?thesis
    unfolding env Let_def by (simp add: refused_def counted_def)
qed

text \<open>
  C13: The polling task ends with lost trust exactly when the first round that ends the loop found the source
  untrusted, before or after its answer or in the answer itself; the published value is then withdrawn and
  the cell closed for good.
\<close>

theorem agent_withdraws_untrusted:
  assumes start: "agent_start world subject profile rz random interval_ms = Some po"
    and boot: "\<forall>b. random = Some b \<longrightarrow> length b = 16"
    and traces: "\<forall>r \<in> set rounds. \<forall>b. rd_random r = Some b \<longrightarrow> length b = 16"
    and run: "poll_task rounds po = (e, po')"
  shows "e = Option.bind (find (\<lambda>r. round_exit r \<noteq> None) rounds) round_exit
     \<and> (e = Some TrustLost \<longrightarrow> LatestTelemetry_current (ap_latest (po_pipeline po')) = None \<and> lt_closed (ap_latest (po_pipeline po')))
     \<and> (e \<noteq> Some TrustLost \<longrightarrow> poller_run rounds po = (e, po'))"
proof -
  have random: "\<And>b. random = Some b \<Longrightarrow> length b = 16" using boot by blast
  obtain e1 po1 where run1: "poller_run rounds po = (e1, po1)" by fastforce
  have "e1 = Option.bind (find (\<lambda>r. round_exit r \<noteq> None) rounds) round_exit"
    using poller_run_log [OF run1 agent_start_inv(1) [OF start random] traces] by blast
  moreover have "e = e1" using run by (auto simp: poll_task_def run1 split: option.splits PollerExit.splits)
  moreover have "e1 = Some TrustLost \<Longrightarrow> LatestTelemetry_current (ap_latest (po_pipeline po')) = None \<and> lt_closed (ap_latest (po_pipeline po'))"
    using run by (auto simp: poll_task_def run1 LatestTelemetry_close_def LatestTelemetry_current_def)
  moreover have "e1 \<noteq> Some TrustLost \<Longrightarrow> po' = po1"
    using run by (auto simp: poll_task_def run1 split: option.splits PollerExit.splits)
  ultimately show ?thesis using run1 by auto
qed

theorem agent_withdraws_untrusted_witness:
  "fst (poll_task [sample_round False] sample_poller) = Some TrustLost
   \<and> LatestTelemetry_current (ap_latest (po_pipeline (snd (poll_task [sample_round False] sample_poller)))) = None"
proof -
  have "poll_task [sample_round False] sample_poller
      = (fst (poll_task [sample_round False] sample_poller), snd (poll_task [sample_round False] sample_poller))" by simp
  from agent_withdraws_untrusted [OF sample_agent_start sample_traces(2) sample_traces(1) this] show ?thesis
    by (simp add: round_exit_def sample_round_def)
qed

end
