(* ===== verification/Knowledge_Graph.thy ===== *)
theory Knowledge_Graph
  imports Pal_Prelude "HOL-Library.Multiset" "HOL-Library.Product_Lexorder"
begin

text \<open>
  The knowledge graph, \<open>crates/pal-knowledge-graph/src/lib.rs\<close>: building it from nodes and edges,
  expanding a query by breadth-first search under a node budget, and checking a wiki page against
  the evidence in the graph.  Rendering to Markdown and the routing of Korean questions are not
  modelled.

  The graph structure is the \<open>petgraph\<close> crate, here a record of its operations; what the code relies
  on is the locale \<open>stable_graph\<close>.  A \<open>BTreeMap\<close> or \<open>BTreeSet\<close> that is iterated is a sorted list, one
  that is only looked up a map.  Strings are their UTF-8 bytes.  A panic is the outcome \<open>None\<close>.
\<close>

definition MAX_GRAPH_NODES :: nat where "MAX_GRAPH_NODES = 100000"
definition MAX_GRAPH_EDGES :: nat where "MAX_GRAPH_EDGES = 1000000"
definition MAX_QUERY_SEEDS :: nat where "MAX_QUERY_SEEDS = 16"
definition MAX_QUERY_HOPS :: u8 where "MAX_QUERY_HOPS = 4"
definition MAX_QUERY_NODES :: nat where "MAX_QUERY_NODES = 128"
definition MAX_WIKI_CLAIMS :: nat where "MAX_WIKI_CLAIMS = 64"

record KnowledgeGraphIdentity =
  gi_game_build_id :: string
  gi_dataset_manifest_id_hex :: string

datatype KnowledgeNodeKind =
    Species | Item | ActiveSkill | PassiveSkill | Building | Technology | Shop | PointOfInterest
  | Recipe | KindBreedingRule | OfficialDocument | WikiPage | Concept

datatype KnowledgeRelationKind =
    LearnsSkill | HasGuaranteedPassive | DropsItem | IngredientFor | ProducesItem | SoldBy | Unlocks
  | LocatedAt | Requires | BreedingParent | BreedsInto | References | RelatedTo

datatype KnowledgeQuality = QUnknown | QModel | QMeasured | QExact

text \<open>The derived order of the qualities is that of their declaration.\<close>

primrec quality_rank :: "KnowledgeQuality \<Rightarrow> nat" where
  "quality_rank QUnknown = 0"
| "quality_rank QModel = 1"
| "quality_rank QMeasured = 2"
| "quality_rank QExact = 3"

lemma quality_rank_inject: "quality_rank p = quality_rank q \<longleftrightarrow> p = q"
  by (cases p; cases q) simp_all

instantiation KnowledgeQuality :: linorder
begin

definition less_eq_KnowledgeQuality :: "KnowledgeQuality \<Rightarrow> KnowledgeQuality \<Rightarrow> bool" where
  "less_eq_KnowledgeQuality p q \<longleftrightarrow> quality_rank p \<le> quality_rank q"

definition less_KnowledgeQuality :: "KnowledgeQuality \<Rightarrow> KnowledgeQuality \<Rightarrow> bool" where
  "less_KnowledgeQuality p q \<longleftrightarrow> quality_rank p < quality_rank q"

instance
  by standard (auto simp: less_eq_KnowledgeQuality_def less_KnowledgeQuality_def quality_rank_inject)

end

lemma quality_le_Exact [simp]: "q \<le> QExact"
  by (cases q) (simp_all add: less_eq_KnowledgeQuality_def)

record KnowledgeEvidenceRef =
  ke_evidence_id :: string
  ke_quality :: KnowledgeQuality
  ke_source_ids :: "string list"

record KnowledgeNode =
  kn_node_id :: string
  kn_kind :: KnowledgeNodeKind
  kn_label_ko :: string
  kn_game_build_id :: string
  kn_evidence :: "KnowledgeEvidenceRef list"

record KnowledgeEdge =
  kx_edge_id :: string
  kx_from_node_id :: string
  kx_to_node_id :: string
  kx_relation :: KnowledgeRelationKind
  kx_game_build_id :: string
  kx_evidence :: "KnowledgeEvidenceRef list"

datatype GraphDirection = DirIncoming | DirOutgoing | DirBoth

record KnowledgeGraphQuery =
  kq_seed_node_ids :: "string list"
  kq_max_hops :: u8
  kq_max_nodes :: nat
  kq_direction :: GraphDirection
  kq_relation_filter :: "KnowledgeRelationKind set"

record KnowledgeContextPack =
  kp_identity :: KnowledgeGraphIdentity
  kp_seed_node_ids :: "string list"
  kp_max_hops :: u8
  kp_nodes :: "KnowledgeNode list"
  kp_edges :: "KnowledgeEdge list"
  kp_complete_within_budget :: bool
  kp_warnings :: "string list"

datatype WikiPageStatus = Draft | Reviewed | Superseded

record WikiClaim =
  wc_claim_id :: string
  wc_text_ko :: string
  wc_quality :: KnowledgeQuality
  wc_evidence_refs :: "string list"
  wc_related_node_ids :: "string list"

record KnowledgeWikiPage =
  wp_page_id :: string
  wp_title_ko :: string
  wp_summary_ko :: string
  wp_game_build_id :: string
  wp_dataset_manifest_id_hex :: string
  wp_status :: WikiPageStatus
  wp_claims :: "WikiClaim list"
  wp_related_node_ids :: "string list"

datatype KnowledgeGraphError =
    InvalidIdentity | GraphTooLarge | InvalidNode string | InvalidEdge string | DuplicateNode string
  | DuplicateEdge string | MissingEndpoint string | BuildMismatch string | InvalidQuery
  | MissingSeed string | InvalidWikiPage string | UnknownEvidence string | UnknownNode string
  | UnsupportedClaimQuality string

section \<open>Checks of identifiers and texts\<close>

definition knowledge_id :: "string \<Rightarrow> bool" where
  "knowledge_id v = (v \<noteq> [] \<and> length v \<le> 128 \<and> is_ascii v
     \<and> list_all (\<lambda>c. is_ascii_alphanumeric c \<or> c \<in> {CHR ''_'', CHR ''-'', CHR ''.'', CHR '':''}) v)"

definition hex_digit :: "char \<Rightarrow> bool" where
  "hex_digit c =
     (let n = (of_char c :: nat) in 48 \<le> n \<and> n \<le> 57 \<or> 65 \<le> n \<and> n \<le> 70 \<or> 97 \<le> n \<and> n \<le> 102)"

definition valid_hex :: "string \<Rightarrow> nat \<Rightarrow> bool" where
  "valid_hex v n = (length v = n \<and> list_all hex_digit v)"

definition valid_human_text :: "string \<Rightarrow> nat \<Rightarrow> bool" where
  "valid_human_text v max_bytes =
     (\<not> blank_bytes (map of_char v) \<and> length v \<le> max_bytes \<and> CHR 0x00 \<notin> set v)"

definition valid_evidence :: "KnowledgeEvidenceRef \<Rightarrow> bool" where
  "valid_evidence ev =
     (knowledge_id (ke_evidence_id ev) \<and> length (ke_source_ids ev) \<le> 32 \<and> list_all knowledge_id (ke_source_ids ev))"

definition validate_identity :: "KnowledgeGraphIdentity \<Rightarrow> KnowledgeGraphError + unit" where
  "validate_identity i =
     (if \<not> knowledge_id (gi_game_build_id i) \<or> \<not> valid_hex (gi_dataset_manifest_id_hex i) 64
      then Inl InvalidIdentity else Inr ())"

definition validate_node :: "KnowledgeNode \<Rightarrow> KnowledgeGraphError + unit" where
  "validate_node n =
     (if \<not> knowledge_id (kn_node_id n) \<or> \<not> valid_human_text (kn_label_ko n) 256
         \<or> \<not> knowledge_id (kn_game_build_id n) \<or> kn_evidence n = []
         \<or> list_ex (\<lambda>ev. \<not> valid_evidence ev) (kn_evidence n)
      then Inl (InvalidNode (kn_node_id n)) else Inr ())"

definition validate_edge :: "KnowledgeEdge \<Rightarrow> KnowledgeGraphError + unit" where
  "validate_edge e =
     (if \<not> knowledge_id (kx_edge_id e) \<or> \<not> knowledge_id (kx_from_node_id e)
         \<or> \<not> knowledge_id (kx_to_node_id e) \<or> \<not> knowledge_id (kx_game_build_id e) \<or> kx_evidence e = []
         \<or> list_ex (\<lambda>ev. \<not> valid_evidence ev) (kx_evidence e)
      then Inl (InvalidEdge (kx_edge_id e)) else Inr ())"

definition validate_query :: "KnowledgeGraphQuery \<Rightarrow> KnowledgeGraphError + unit" where
  "validate_query q =
     (if kq_seed_node_ids q = [] \<or> MAX_QUERY_SEEDS < length (kq_seed_node_ids q)
         \<or> card (set (kq_seed_node_ids q)) \<noteq> length (kq_seed_node_ids q)
         \<or> list_ex (\<lambda>seed. \<not> knowledge_id seed) (kq_seed_node_ids q)
         \<or> MAX_QUERY_HOPS < kq_max_hops q \<or> kq_max_nodes q < length (kq_seed_node_ids q)
         \<or> MAX_QUERY_NODES < kq_max_nodes q
      then Inl InvalidQuery else Inr ())"

definition relation_allowed :: "KnowledgeRelationKind \<Rightarrow> KnowledgeRelationKind set \<Rightarrow> bool" where
  "relation_allowed relation filter_set = (filter_set = {} \<or> relation \<in> filter_set)"

section \<open>The graph\<close>

datatype PetDirection = PetOutgoing | PetIncoming

record 'g graph_ops =
  sg_new :: 'g
  sg_add_node :: "KnowledgeNode \<Rightarrow> 'g \<Rightarrow> nat \<times> 'g"
  sg_add_edge :: "nat \<Rightarrow> nat \<Rightarrow> KnowledgeEdge \<Rightarrow> 'g \<Rightarrow> 'g"
  sg_node_weight :: "'g \<Rightarrow> nat \<Rightarrow> KnowledgeNode option"
  sg_edges_directed :: "'g \<Rightarrow> nat \<Rightarrow> PetDirection \<Rightarrow> (nat \<times> nat \<times> KnowledgeEdge) list"
  sg_edges :: "'g \<Rightarrow> (nat \<times> nat \<times> KnowledgeEdge) list"
  sg_node_weights :: "'g \<Rightarrow> KnowledgeNode list"

record 'g KnowledgeGraph =
  kg_identity :: KnowledgeGraphIdentity
  kg_graph :: 'g
  kg_node_indices :: "string \<rightharpoonup> nat"

definition insert_node :: "KnowledgeGraphIdentity \<Rightarrow> KnowledgeNode \<Rightarrow> KnowledgeNode list
    \<Rightarrow> (KnowledgeGraphError + unit) \<times> KnowledgeNode list" where
  "insert_node identity node ordered =
     (case validate_node node of
        Inl e \<Rightarrow> (Inl e, ordered)
      | Inr _ \<Rightarrow>
          if kn_game_build_id node \<noteq> gi_game_build_id identity
          then (Inl (BuildMismatch (kn_node_id node)), ordered)
          else if kn_node_id node \<in> kn_node_id ` set ordered
          then (Inl (DuplicateNode (kn_node_id node)), ordered)
          else (Inr (), insort_key kn_node_id node ordered))"

definition insert_edge :: "KnowledgeGraphIdentity \<Rightarrow> KnowledgeNode list \<Rightarrow> KnowledgeEdge \<Rightarrow> KnowledgeEdge list
    \<Rightarrow> (KnowledgeGraphError + unit) \<times> KnowledgeEdge list" where
  "insert_edge identity nodes edge ordered =
     (case validate_edge edge of
        Inl e \<Rightarrow> (Inl e, ordered)
      | Inr _ \<Rightarrow>
          if kx_game_build_id edge \<noteq> gi_game_build_id identity
          then (Inl (BuildMismatch (kx_edge_id edge)), ordered)
          else if kx_from_node_id edge \<notin> kn_node_id ` set nodes \<or> kx_to_node_id edge \<notin> kn_node_id ` set nodes
          then (Inl (MissingEndpoint (kx_edge_id edge)), ordered)
          else if kx_edge_id edge \<in> kx_edge_id ` set ordered
          then (Inl (DuplicateEdge (kx_edge_id edge)), ordered)
          else (Inr (), insort_key kx_edge_id edge ordered))"

definition add_node :: "'g graph_ops \<Rightarrow> KnowledgeNode \<Rightarrow> 'g \<times> (string \<rightharpoonup> nat) \<Rightarrow> 'g \<times> (string \<rightharpoonup> nat)" where
  "add_node G node = (\<lambda>(graph, indices).
     let (index, graph) = sg_add_node G node graph in (graph, indices(kn_node_id node \<mapsto> index)))"

fun add_edges :: "'g graph_ops \<Rightarrow> (string \<rightharpoonup> nat) \<Rightarrow> KnowledgeEdge list \<Rightarrow> 'g \<Rightarrow> 'g option" where
  "add_edges G indices [] graph = Some graph"
| "add_edges G indices (edge # rest) graph =
     (case (indices (kx_from_node_id edge), indices (kx_to_node_id edge)) of
        (Some a, Some b) \<Rightarrow> add_edges G indices rest (sg_add_edge G a b edge graph)
      | _ \<Rightarrow> None)"

definition graph_build :: "'g graph_ops \<Rightarrow> KnowledgeGraphIdentity \<Rightarrow> KnowledgeNode list \<Rightarrow> KnowledgeEdge list
    \<Rightarrow> (KnowledgeGraphError + 'g KnowledgeGraph) option" where
  "graph_build G identity nodes edges =
     (case validate_identity identity of
        Inl e \<Rightarrow> Some (Inl e)
      | Inr _ \<Rightarrow>
          if MAX_GRAPH_NODES < length nodes \<or> MAX_GRAPH_EDGES < length edges then Some (Inl GraphTooLarge)
          else case try_each (insert_node identity) nodes [] of
            (Inl e, _) \<Rightarrow> Some (Inl e)
          | (Inr _, ordered_nodes) \<Rightarrow>
              (case try_each (insert_edge identity ordered_nodes) edges [] of
                 (Inl e, _) \<Rightarrow> Some (Inl e)
               | (Inr _, ordered_edges) \<Rightarrow>
                   let (graph, indices) = fold (add_node G) ordered_nodes (sg_new G, Map.empty) in
                   map_option (\<lambda>graph. Inr \<lparr>kg_identity = identity, kg_graph = graph, kg_node_indices = indices\<rparr>)
                     (add_edges G indices ordered_edges graph)))"

definition graph_node :: "'g graph_ops \<Rightarrow> 'g KnowledgeGraph \<Rightarrow> string \<Rightarrow> KnowledgeNode option" where
  "graph_node G k node_id = Option.bind (kg_node_indices k node_id) (sg_node_weight G (kg_graph k))"

section \<open>Expansion\<close>

text \<open>The neighbours one direction contributes; indexing a missing node panics.\<close>

definition directed_candidates :: "'g graph_ops \<Rightarrow> 'g KnowledgeGraph \<Rightarrow> KnowledgeGraphQuery \<Rightarrow> nat \<Rightarrow> PetDirection
    \<Rightarrow> (string \<times> string) option list" where
  "directed_candidates G k q index dir =
     map (\<lambda>(s, t, edge). map_option (\<lambda>n. (kx_edge_id edge, kn_node_id n))
            (sg_node_weight G (kg_graph k) (case dir of PetOutgoing \<Rightarrow> t | PetIncoming \<Rightarrow> s)))
       (filter (\<lambda>(_, _, edge). relation_allowed (kx_relation edge) (kq_relation_filter q))
          (sg_edges_directed G (kg_graph k) index dir))"

definition neighbor_candidates :: "'g graph_ops \<Rightarrow> 'g KnowledgeGraph \<Rightarrow> string \<Rightarrow> KnowledgeGraphQuery
    \<Rightarrow> (string \<times> string) list option" where
  "neighbor_candidates G k node_id q =
     (case kg_node_indices k node_id of
        None \<Rightarrow> None
      | Some index \<Rightarrow>
          map_option (\<lambda>candidates. remdups_adj (sort candidates))
            (those ((if kq_direction q \<in> {DirOutgoing, DirBoth} then directed_candidates G k q index PetOutgoing else [])
                @ (if kq_direction q \<in> {DirIncoming, DirBoth} then directed_candidates G k q index PetIncoming else []))))"

datatype walk_stop = BudgetExhausted | WalkPanic

definition visit_neighbor :: "nat \<Rightarrow> string \<Rightarrow> string list \<times> string list \<Rightarrow> (walk_stop + unit) \<times> string list \<times> string list" where
  "visit_neighbor max_nodes neighbor_id = (\<lambda>(visited, next_nodes).
     if neighbor_id \<in> set visited then (Inr (), visited, next_nodes)
     else if max_nodes \<le> length visited then (Inl BudgetExhausted, visited, next_nodes)
     else (Inr (), insort neighbor_id visited, insort_insert neighbor_id next_nodes))"

definition visit_node :: "(string \<Rightarrow> string list option) \<Rightarrow> nat \<Rightarrow> string \<Rightarrow> string list \<times> string list
    \<Rightarrow> (walk_stop + unit) \<times> string list \<times> string list" where
  "visit_node neighbors max_nodes node_id st =
     (case neighbors node_id of
        None \<Rightarrow> (Inl WalkPanic, st)
      | Some ids \<Rightarrow> try_each (visit_neighbor max_nodes) ids st)"

fun walk :: "(string \<Rightarrow> string list option) \<Rightarrow> nat \<Rightarrow> nat \<Rightarrow> string list \<Rightarrow> string list \<Rightarrow> (walk_stop + unit) \<times> string list" where
  "walk neighbors max_nodes 0 frontier visited = (Inr (), visited)"
| "walk neighbors max_nodes (Suc hops) frontier visited =
     (case try_each (visit_node neighbors max_nodes) frontier (visited, []) of
        (Inl stop, visited, _) \<Rightarrow> (Inl stop, visited)
      | (Inr _, visited, next_nodes) \<Rightarrow>
          if next_nodes = [] then (Inr (), visited) else walk neighbors max_nodes hops next_nodes visited)"

definition check_seed :: "'g KnowledgeGraph \<Rightarrow> string \<Rightarrow> string list \<Rightarrow> (KnowledgeGraphError + unit) \<times> string list" where
  "check_seed k seed visited =
     (if kg_node_indices k seed = None then (Inl (MissingSeed seed), visited)
      else (Inr (), insort_insert seed visited))"

definition context_edges :: "'g graph_ops \<Rightarrow> 'g KnowledgeGraph \<Rightarrow> KnowledgeGraphQuery \<Rightarrow> string list \<Rightarrow> KnowledgeEdge list" where
  "context_edges G k q visited =
     sort_key kx_edge_id (List.map_filter (\<lambda>(a, b, edge).
       case (sg_node_weight G (kg_graph k) a, sg_node_weight G (kg_graph k) b) of
         (Some m, Some n) \<Rightarrow>
           if kn_node_id m \<in> set visited \<and> kn_node_id n \<in> set visited
              \<and> relation_allowed (kx_relation edge) (kq_relation_filter q)
           then Some edge else None
       | _ \<Rightarrow> None) (sg_edges G (kg_graph k)))"

definition graph_expand :: "'g graph_ops \<Rightarrow> 'g KnowledgeGraph \<Rightarrow> KnowledgeGraphQuery
    \<Rightarrow> (KnowledgeGraphError + KnowledgeContextPack) option" where
  "graph_expand G k q =
     (case validate_query q of
        Inl e \<Rightarrow> Some (Inl e)
      | Inr _ \<Rightarrow>
          (case try_each (check_seed k) (kq_seed_node_ids q) [] of
             (Inl e, _) \<Rightarrow> Some (Inl e)
           | (Inr _, seeds) \<Rightarrow>
               (case walk (\<lambda>n. map_option (map snd) (neighbor_candidates G k n q)) (kq_max_nodes q)
                       (unat (kq_max_hops q)) seeds seeds of
                  (Inl WalkPanic, _) \<Rightarrow> None
                | (stop, visited) \<Rightarrow>
                    Some (Inr \<lparr>kp_identity = kg_identity k, kp_seed_node_ids = kq_seed_node_ids q,
                      kp_max_hops = kq_max_hops q,
                      kp_nodes = List.map_filter (graph_node G k) visited,
                      kp_edges = context_edges G k q visited,
                      kp_complete_within_budget = (stop = Inr ()),
                      kp_warnings = (if stop = Inr () then [] else [''GRAPH_NODE_BUDGET_EXHAUSTED''])\<rparr>))))"


section \<open>Wiki pages\<close>

text \<open>The weakest quality recorded for each evidence id, over all nodes and edges.\<close>

definition note_quality :: "KnowledgeEvidenceRef \<Rightarrow> (string \<rightharpoonup> KnowledgeQuality) \<Rightarrow> (string \<rightharpoonup> KnowledgeQuality)" where
  "note_quality ev m =
     (case m (ke_evidence_id ev) of
        None \<Rightarrow> m(ke_evidence_id ev \<mapsto> ke_quality ev)
      | Some quality \<Rightarrow> if ke_quality ev < quality then m(ke_evidence_id ev \<mapsto> ke_quality ev) else m)"

definition evidence_quality :: "'g graph_ops \<Rightarrow> 'g \<Rightarrow> (string \<rightharpoonup> KnowledgeQuality)" where
  "evidence_quality G graph =
     fold note_quality (concat (map kn_evidence (sg_node_weights G graph))
        @ concat (map (\<lambda>(_, _, edge). kx_evidence edge) (sg_edges G graph))) Map.empty"

definition check_related_node :: "'g KnowledgeGraph \<Rightarrow> string \<Rightarrow> unit \<Rightarrow> (KnowledgeGraphError + unit) \<times> unit" where
  "check_related_node k node_id u =
     (if kg_node_indices k node_id = None then (Inl (UnknownNode node_id), u) else (Inr (), u))"

definition weaken_by :: "(string \<rightharpoonup> KnowledgeQuality) \<Rightarrow> string \<Rightarrow> KnowledgeQuality
    \<Rightarrow> (KnowledgeGraphError + unit) \<times> KnowledgeQuality" where
  "weaken_by qualities evidence_id weakest =
     (case qualities evidence_id of
        None \<Rightarrow> (Inl (UnknownEvidence evidence_id), weakest)
      | Some quality \<Rightarrow> (Inr (), min weakest quality))"

definition check_claim :: "string \<Rightarrow> (string \<rightharpoonup> KnowledgeQuality) \<Rightarrow> WikiClaim \<Rightarrow> string set
    \<Rightarrow> (KnowledgeGraphError + unit) \<times> string set" where
  "check_claim page_id qualities claim claim_ids =
     (if \<not> knowledge_id (wc_claim_id claim) \<or> \<not> valid_human_text (wc_text_ko claim) 1024
         \<or> wc_evidence_refs claim = [] \<or> wc_claim_id claim \<in> claim_ids
      then (Inl (InvalidWikiPage page_id), claim_ids)
      else case try_each (weaken_by qualities) (wc_evidence_refs claim) QExact of
        (Inl e, _) \<Rightarrow> (Inl e, insert (wc_claim_id claim) claim_ids)
      | (Inr _, weakest) \<Rightarrow>
          (if weakest < wc_quality claim then Inl (UnsupportedClaimQuality (wc_claim_id claim)) else Inr (),
           insert (wc_claim_id claim) claim_ids))"

definition validate_wiki_page :: "'g graph_ops \<Rightarrow> 'g KnowledgeGraph \<Rightarrow> KnowledgeWikiPage \<Rightarrow> KnowledgeGraphError + unit" where
  "validate_wiki_page G k page =
     (if wp_game_build_id page \<noteq> gi_game_build_id (kg_identity k)
         \<or> wp_dataset_manifest_id_hex page \<noteq> gi_dataset_manifest_id_hex (kg_identity k)
      then Inl (BuildMismatch (wp_page_id page))
      else if \<not> knowledge_id (wp_page_id page) \<or> \<not> valid_human_text (wp_title_ko page) 256
         \<or> \<not> valid_human_text (wp_summary_ko page) 2000 \<or> MAX_WIKI_CLAIMS < length (wp_claims page)
      then Inl (InvalidWikiPage (wp_page_id page))
      else case fst (try_each (check_related_node k)
             (wp_related_node_ids page @ concat (map wc_related_node_ids (wp_claims page))) ()) of
        Inl e \<Rightarrow> Inl e
      | Inr _ \<Rightarrow> fst (try_each (check_claim (wp_page_id page) (evidence_quality G (kg_graph k))) (wp_claims page) {}))"

section \<open>The graph structure\<close>

text \<open>
  What the code relies on of a graph that is only ever added to: \<open>ns\<close> and \<open>es\<close> are its nodes and edges in
  the order of insertion, an index is a position in \<open>ns\<close>.
\<close>

locale stable_graph =
  fixes G :: "'g graph_ops"
    and ns :: "'g \<Rightarrow> KnowledgeNode list"
    and es :: "'g \<Rightarrow> (nat \<times> nat \<times> KnowledgeEdge) list"
  assumes new_empty: "ns (sg_new G) = []" "es (sg_new G) = []"
    and add_node: "sg_add_node G n g = (i, g') \<Longrightarrow> i = length (ns g) \<and> ns g' = ns g @ [n] \<and> es g' = es g"
    and add_edge: "\<lbrakk>a < length (ns g); b < length (ns g)\<rbrakk>
        \<Longrightarrow> ns (sg_add_edge G a b e g) = ns g \<and> es (sg_add_edge G a b e g) = es g @ [(a, b, e)]"
    and node_weight: "sg_node_weight G g i = (if i < length (ns g) then Some (ns g ! i) else None)"
    and edges_out: "set (sg_edges_directed G g i PetOutgoing) = {(s, t, e). (s, t, e) \<in> set (es g) \<and> s = i}"
    and edges_in: "set (sg_edges_directed G g i PetIncoming) = {(s, t, e). (s, t, e) \<in> set (es g) \<and> t = i}"
    and edges: "mset (sg_edges G g) = mset (es g)"
    and node_weights: "mset (sg_node_weights G g) = mset (ns g)"

text \<open>The graph as a pair of lists.\<close>

type_synonym list_graph = "KnowledgeNode list \<times> (nat \<times> nat \<times> KnowledgeEdge) list"

definition list_graph_ops :: "list_graph graph_ops" where
  "list_graph_ops =
     \<lparr>sg_new = ([], []),
      sg_add_node = (\<lambda>n (ns, es). (length ns, ns @ [n], es)),
      sg_add_edge = (\<lambda>a b e (ns, es). (ns, es @ [(a, b, e)])),
      sg_node_weight = (\<lambda>(ns, es) i. if i < length ns then Some (ns ! i) else None),
      sg_edges_directed = (\<lambda>(ns, es) i dir. filter (\<lambda>(s, t, _). case dir of PetOutgoing \<Rightarrow> s = i | PetIncoming \<Rightarrow> t = i) es),
      sg_edges = snd,
      sg_node_weights = fst\<rparr>"

interpretation lg: stable_graph list_graph_ops fst snd
  by unfold_locales (auto simp: list_graph_ops_def)

section \<open>The walk\<close>

text \<open>
  Growing the visited set \<open>v\<close> by the nodes \<open>T\<close>: all of them when the budget allows it, and otherwise as many
  as the budget allows.
\<close>

definition grown :: "nat \<Rightarrow> string list \<Rightarrow> string set \<Rightarrow> walk_stop + unit \<Rightarrow> string list \<Rightarrow> bool" where
  "grown max_nodes v T r v' \<longleftrightarrow> sorted v' \<and> distinct v' \<and> length v' \<le> max_nodes
     \<and> set v \<subseteq> set v' \<and> set v' \<subseteq> set v \<union> T
     \<and> (case r of Inr _ \<Rightarrow> T \<subseteq> set v' | Inl e \<Rightarrow> e = BudgetExhausted \<and> length v' = max_nodes \<and> \<not> T \<subseteq> set v')"

lemma grown_trans:
  assumes "grown max_nodes v S (Inr ()) v'" "grown max_nodes v' T r v''"
  shows "grown max_nodes v (S \<union> T) r v''"
  using assms by (auto simp: grown_def split: sum.splits)

lemma grown_stop: "grown max_nodes v S (Inl e) v' \<Longrightarrow> grown max_nodes v (S \<union> T) (Inl e) v'"
  by (auto simp: grown_def)

lemma grown_refl: "\<lbrakk>sorted v; distinct v; length v \<le> max_nodes\<rbrakk> \<Longrightarrow> grown max_nodes v {} (Inr ()) v"
  by (simp add: grown_def)

lemma grown_ordered: "grown max_nodes v T r v' \<Longrightarrow> sorted v' \<and> distinct v' \<and> length v' \<le> max_nodes"
  by (simp add: grown_def)

text \<open>A loop whose items each contribute their nodes contributes the union of them.\<close>

lemma try_each_grown:
  assumes "try_each body xs (v, nx) = (r, v', nx')" "sorted v" "distinct v" "length v \<le> max_nodes"
    and step: "\<And>x v nx r v' nx'. \<lbrakk>x \<in> set xs; body x (v, nx) = (r, v', nx'); sorted v; distinct v; length v \<le> max_nodes\<rbrakk>
        \<Longrightarrow> grown max_nodes v (T x) r v' \<and> set nx' = set nx \<union> (set v' - set v)"
  shows "grown max_nodes v (\<Union>x \<in> set xs. T x) r v' \<and> set nx' = set nx \<union> (set v' - set v)"
  using assms
proof (induction xs arbitrary: v nx)
  case Nil
  then have "r = Inr ()" "v' = v" "nx' = nx" by auto
  with Nil.prems(2-4) show ?case by (simp add: grown_refl)
next
  case (Cons x xs)
  obtain r1 v1 nx1 where body: "body x (v, nx) = (r1, v1, nx1)" by (cases "body x (v, nx)") auto
  have first: "grown max_nodes v (T x) r1 v1" "set nx1 = set nx \<union> (set v1 - set v)"
    using Cons.prems(5) [OF _ body] Cons.prems(2-4) by auto
  show ?case
  proof (cases r1)
    case (Inl e)
    then show ?thesis using Cons.prems(1) body first grown_stop [of max_nodes v "T x" e v1 "\<Union>x \<in> set xs. T x"] by simp
  next
    case (Inr u)
    have rest: "grown max_nodes v1 (\<Union>x \<in> set xs. T x) r v' \<and> set nx' = set nx1 \<union> (set v' - set v1)"
      using grown_ordered [OF first(1)] Cons.prems(1) body Inr
      by (intro Cons.IH Cons.prems(5)) auto
    have "grown max_nodes v (\<Union>x \<in> set (x # xs). T x) r v'"
      using grown_trans [of max_nodes v "T x" v1] first(1) rest Inr by simp
    moreover have "set v \<subseteq> set v1" "set v1 \<subseteq> set v'" using first(1) rest by (auto simp: grown_def)
    ultimately show ?thesis using first(2) rest by auto
  qed
qed

lemma visit_neighbor_grown:
  assumes "visit_neighbor max_nodes n (v, nx) = (r, v', nx')" "sorted v" "distinct v" "length v \<le> max_nodes"
  shows "grown max_nodes v {n} r v' \<and> set nx' = set nx \<union> (set v' - set v)"
  using assms
  by (auto simp: visit_neighbor_def grown_def set_insort_key set_insort_insert distinct_insort sorted_insort split: if_splits)

lemma visit_node_grown:
  assumes "visit_node neighbors max_nodes m (v, nx) = (r, v', nx')" "neighbors m = Some ids"
    and "sorted v" "distinct v" "length v \<le> max_nodes"
  shows "grown max_nodes v (set ids) r v' \<and> set nx' = set nx \<union> (set v' - set v)"
proof -
  have run: "try_each (visit_neighbor max_nodes) ids (v, nx) = (r, v', nx')"
    using assms(1,2) by (simp add: visit_node_def)
  have "grown max_nodes v (\<Union>x \<in> set ids. {x}) r v' \<and> set nx' = set nx \<union> (set v' - set v)"
    by (rule try_each_grown [OF run assms(3-5) visit_neighbor_grown])
  then show ?thesis by simp
qed

text \<open>The nodes at most so many steps of the relation away.\<close>

fun reach :: "(string \<Rightarrow> string set) \<Rightarrow> nat \<Rightarrow> string set \<Rightarrow> string set" where
  "reach N 0 S = S"
| "reach N (Suc hops) S = reach N hops (S \<union> (\<Union>m \<in> S. N m))"

lemma reach_mono: "S \<subseteq> reach N hops S"
proof (induction hops arbitrary: S)
  case (Suc hops)
  show ?case using Suc.IH [of "S \<union> (\<Union>m \<in> S. N m)"] by simp
qed simp

lemma reach_closed: "(\<Union>m \<in> S. N m) \<subseteq> S \<Longrightarrow> reach N hops S = S"
  by (induction hops) (auto simp: Un_absorb2)

lemma reach_within: "\<lbrakk>S \<subseteq> U; \<And>m. m \<in> U \<Longrightarrow> N m \<subseteq> U\<rbrakk> \<Longrightarrow> reach N hops S \<subseteq> U"
proof (induction hops arbitrary: S)
  case (Suc hops)
  have "(\<Union>m \<in> S. N m) \<subseteq> U" using Suc.prems by blast
  then show ?case using Suc.IH [of "S \<union> (\<Union>m \<in> S. N m)"] Suc.prems by simp
qed simp

text \<open>
  The walk only follows the nodes found in the last round: everything an earlier node leads to has been
  visited.
\<close>

lemma walk_grown:
  assumes "walk neighbors max_nodes hops frontier v = (r, v')"
    and "sorted v" "distinct v" "length v \<le> max_nodes" "set frontier \<subseteq> set v"
    and "\<And>m. m \<in> set v - set frontier \<Longrightarrow> N m \<subseteq> set v"
    and known: "\<And>m. m \<in> U \<Longrightarrow> \<exists>ids. neighbors m = Some ids \<and> set ids = N m \<and> N m \<subseteq> U"
    and "set v \<subseteq> U"
  shows "grown max_nodes v (reach N hops (set v)) r v'"
  using assms
proof (induction hops arbitrary: frontier v)
  case 0
  then show ?case by (auto simp: grown_def)
next
  case (Suc hops)
  obtain r1 v1 nx where round: "try_each (visit_node neighbors max_nodes) frontier (v, []) = (r1, v1, nx)"
    by (cases "try_each (visit_node neighbors max_nodes) frontier (v, [])") auto
  let ?S = "\<Union>m \<in> set frontier. N m"
  have step: "grown max_nodes v ?S r1 v1 \<and> set nx = set [] \<union> (set v1 - set v)"
    using round Suc.prems(2-4)
  proof (rule try_each_grown)
    fix m v nx r v' nx'
    assume m: "m \<in> set frontier" and run: "visit_node neighbors max_nodes m (v, nx) = (r, v', nx')"
      and ok: "sorted v" "distinct v" "length v \<le> max_nodes"
    have "m \<in> U" using m Suc.prems(5,8) by blast
    then obtain ids where "neighbors m = Some ids" "set ids = N m" using known [of m] by blast
    then show "grown max_nodes v (N m) r v' \<and> set nx' = set nx \<union> (set v' - set v)"
      using visit_node_grown [OF run _ ok, of ids] by simp
  qed
  have all: "set v \<union> ?S = set v \<union> (\<Union>m \<in> set v. N m)"
  proof -
    have "N m \<subseteq> set v \<union> ?S" if "m \<in> set v" for m using that Suc.prems(6) [of m] by (cases "m \<in> set frontier") auto
    then show ?thesis using Suc.prems(5) by blast
  qed
  then have hop: "reach N (Suc hops) (set v) = reach N hops (set v \<union> ?S)" by simp
  have "N m \<subseteq> U" if "m \<in> U" for m using known [OF that] by blast
  then have U: "set v \<union> ?S \<subseteq> U" using Suc.prems(5,8) by blast
  show ?case
  proof (cases r1)
    case (Inl e)
    then have "r = Inl e" "v' = v1" using Suc.prems(1) round by auto
    then have "grown max_nodes v (?S \<union> reach N (Suc hops) (set v)) r v'"
      using step grown_stop [of max_nodes v ?S e v1] Inl by simp
    moreover have "?S \<subseteq> reach N (Suc hops) (set v)" unfolding hop using reach_mono [of "set v \<union> ?S" N hops] by simp
    ultimately show ?thesis by (simp add: Un_absorb1)
  next
    case (Inr u)
    then have v1: "set v1 = set v \<union> ?S" using step by (simp add: grown_def subset_antisym)
    show ?thesis
    proof (cases "nx = []")
      case True
      then have same: "set v1 = set v" using step v1 by auto
      then have "reach N (Suc hops) (set v) = set v" using all v1 by (intro reach_closed) auto
      moreover have "r = Inr ()" "v' = v1" using Suc.prems(1) round Inr True by auto
      ultimately show ?thesis using step same unfolding grown_def by simp
    next
      case False
      have "grown max_nodes v1 (reach N hops (set v1)) r v'"
      proof (rule Suc.IH)
        show "walk neighbors max_nodes hops nx v1 = (r, v')" using Suc.prems(1) round Inr False by simp
        show "sorted v1" "distinct v1" "length v1 \<le> max_nodes" using grown_ordered [OF conjunct1 [OF step]] by simp_all
        show "set nx \<subseteq> set v1" using step by auto
        show "N m \<subseteq> set v1" if "m \<in> set v1 - set nx" for m
        proof -
          have "m \<in> set v" using that step by auto
          then show ?thesis unfolding v1 all by blast
        qed
        show "set v1 \<subseteq> U" using U v1 by simp
      qed (rule known)
      then have "grown max_nodes v (?S \<union> reach N hops (set v1)) r v'"
        using grown_trans [of max_nodes v ?S v1] step Inr by simp
      moreover have "?S \<subseteq> reach N hops (set v1)" using reach_mono [of "set v1" N hops] v1 by simp
      ultimately show ?thesis using hop v1 by (simp add: Un_absorb1)
    qed
  qed
qed

text \<open>The walk runs out of budget exactly when the nodes in reach exceed it.\<close>

lemma grown_complete:
  assumes "grown max_nodes v T r v'" "set v \<subseteq> T" "finite T"
  shows "r = Inr () \<longleftrightarrow> card T \<le> max_nodes"
proof -
  have "set v' \<subseteq> T" "card (set v') = length v'"
    using assms by (auto simp: grown_def distinct_card)
  moreover have "card (set v') < card T" if "\<not> T \<subseteq> set v'"
    using calculation(1) that assms(3) by (intro psubset_card_mono) auto
  ultimately show ?thesis using assms(1)
    by (cases r) (auto simp: grown_def dest: subset_antisym)
qed

section \<open>What is built\<close>

text \<open>The graph holds the nodes in the order of their ids and links each edge to the nodes it names.\<close>

definition built_from :: "('g \<Rightarrow> KnowledgeNode list) \<Rightarrow> ('g \<Rightarrow> (nat \<times> nat \<times> KnowledgeEdge) list) \<Rightarrow> 'g KnowledgeGraph
    \<Rightarrow> KnowledgeNode list \<Rightarrow> KnowledgeEdge list \<Rightarrow> bool" where
  "built_from ns es k nodes edges \<longleftrightarrow>
     mset (ns (kg_graph k)) = mset nodes \<and> distinct (map kn_node_id nodes) \<and>
     mset (map (snd \<circ> snd) (es (kg_graph k))) = mset edges \<and> distinct (map kx_edge_id edges) \<and>
     (\<forall>id i. kg_node_indices k id = Some i \<longleftrightarrow> i < length (ns (kg_graph k)) \<and> kn_node_id (ns (kg_graph k) ! i) = id) \<and>
     (\<forall>(s, t, e) \<in> set (es (kg_graph k)).
        kg_node_indices k (kx_from_node_id e) = Some s \<and> kg_node_indices k (kx_to_node_id e) = Some t)"

definition node_acceptable :: "KnowledgeGraphIdentity \<Rightarrow> KnowledgeNode \<Rightarrow> bool" where
  "node_acceptable identity n \<longleftrightarrow> validate_node n = Inr () \<and> kn_game_build_id n = gi_game_build_id identity"

definition edge_acceptable :: "KnowledgeGraphIdentity \<Rightarrow> KnowledgeNode list \<Rightarrow> KnowledgeEdge \<Rightarrow> bool" where
  "edge_acceptable identity nodes e \<longleftrightarrow> validate_edge e = Inr () \<and> kx_game_build_id e = gi_game_build_id identity
     \<and> kx_from_node_id e \<in> kn_node_id ` set nodes \<and> kx_to_node_id e \<in> kn_node_id ` set nodes"

text \<open>
  Both loops of \<open>build\<close> insert into a map keyed by id and stop at an item that is not acceptable or whose
  id is taken.
\<close>

lemma keyed_inserts:
  assumes ok: "\<And>x ordered. (\<exists>s. body x ordered = (Inr (), s)) \<longleftrightarrow> P x \<and> key x \<notin> key ` set ordered"
    and inserts: "\<And>x ordered s. body x ordered = (Inr (), s) \<longrightarrow> s = insort_key key x ordered"
  shows "(\<exists>s. try_each body xs ordered = (Inr (), s))
      \<longleftrightarrow> list_all P xs \<and> distinct (map key xs) \<and> key ` set xs \<inter> key ` set ordered = {}"
    and "try_each body xs ordered = (Inr (), s) \<Longrightarrow> mset s = mset ordered + mset xs"
    and "try_each body xs ordered = (Inr (), s) \<Longrightarrow> sorted (map key ordered) \<Longrightarrow> sorted (map key s)"
proof -
  have ins: "s = insort_key key x ordered" if "body x ordered = (Inr (), s)" for x ordered s
    using inserts that by blast
  show "(\<exists>s. try_each body xs ordered = (Inr (), s))
      \<longleftrightarrow> list_all P xs \<and> distinct (map key xs) \<and> key ` set xs \<inter> key ` set ordered = {}"
  proof (induction xs arbitrary: ordered)
    case (Cons x xs)
    show ?case
    proof (cases "\<exists>s. body x ordered = (Inr (), s)")
      case True
      then have "body x ordered = (Inr (), insort_key key x ordered)" using ins by blast
      then show ?thesis using True ok [of x ordered] Cons.IH [of "insort_key key x ordered"]
        by (auto simp: set_insort_key)
    next
      case False
      then have "fst (body x ordered) \<noteq> Inr ()" by (metis prod.collapse)
      then show ?thesis using False ok [of x ordered] by (auto split: prod.splits sum.splits)
    qed
  qed simp
  show "try_each body xs ordered = (Inr (), s) \<Longrightarrow> mset s = mset ordered + mset xs"
    by (induction xs arbitrary: ordered) (auto split: prod.splits sum.splits dest: ins)
  show "try_each body xs ordered = (Inr (), s) \<Longrightarrow> sorted (map key ordered) \<Longrightarrow> sorted (map key s)"
    by (induction xs arbitrary: ordered) (auto split: prod.splits sum.splits dest!: ins simp: sorted_insort_key)
qed

lemma insert_node_body:
  "(\<exists>s. insert_node identity x ordered = (Inr (), s)) \<longleftrightarrow> node_acceptable identity x \<and> kn_node_id x \<notin> kn_node_id ` set ordered"
  "insert_node identity x ordered = (Inr (), s) \<longrightarrow> s = insort_key kn_node_id x ordered"
  by (auto simp: insert_node_def node_acceptable_def split: sum.splits if_splits)

lemma insert_edge_body:
  "(\<exists>s. insert_edge identity nodes x ordered = (Inr (), s))
     \<longleftrightarrow> edge_acceptable identity nodes x \<and> kx_edge_id x \<notin> kx_edge_id ` set ordered"
  "insert_edge identity nodes x ordered = (Inr (), s) \<longrightarrow> s = insort_key kx_edge_id x ordered"
  by (auto simp: insert_edge_def edge_acceptable_def split: sum.splits if_splits)

lemmas insert_nodes =
  keyed_inserts [where body = "insert_node identity" and P = "node_acceptable identity", OF insert_node_body]
  for identity

lemmas insert_edges =
  keyed_inserts [where body = "insert_edge identity nodes" and P = "edge_acceptable identity nodes", OF insert_edge_body]
  for identity nodes


definition all_evidence :: "KnowledgeNode list \<Rightarrow> KnowledgeEdge list \<Rightarrow> KnowledgeEvidenceRef set" where
  "all_evidence nodes edges = (\<Union>n \<in> set nodes. set (kn_evidence n)) \<union> (\<Union>e \<in> set edges. set (kx_evidence e))"

definition quality_of :: "KnowledgeEvidenceRef set \<Rightarrow> (string \<rightharpoonup> KnowledgeQuality) \<Rightarrow> bool" where
  "quality_of E m \<longleftrightarrow> (\<forall>id. case m id of
       None \<Rightarrow> \<forall>ev \<in> E. ke_evidence_id ev \<noteq> id
     | Some w \<Rightarrow> (\<exists>ev \<in> E. ke_evidence_id ev = id \<and> ke_quality ev = w) \<and> (\<forall>ev \<in> E. ke_evidence_id ev = id \<longrightarrow> w \<le> ke_quality ev))"

lemma note_quality_step: "quality_of E m \<Longrightarrow> quality_of (insert ev E) (note_quality ev m)"
  unfolding quality_of_def
proof (rule allI)
  fix id
  assume "\<forall>id. case m id of None \<Rightarrow> \<forall>ev \<in> E. ke_evidence_id ev \<noteq> id
     | Some w \<Rightarrow> (\<exists>ev \<in> E. ke_evidence_id ev = id \<and> ke_quality ev = w) \<and> (\<forall>ev \<in> E. ke_evidence_id ev = id \<longrightarrow> w \<le> ke_quality ev)"
  from spec [OF this, of id]
  show "case note_quality ev m id of None \<Rightarrow> \<forall>ev \<in> insert ev E. ke_evidence_id ev \<noteq> id
     | Some w \<Rightarrow> (\<exists>ev \<in> insert ev E. ke_evidence_id ev = id \<and> ke_quality ev = w)
         \<and> (\<forall>ev \<in> insert ev E. ke_evidence_id ev = id \<longrightarrow> w \<le> ke_quality ev)"
    by (cases "ke_evidence_id ev = id"; cases "m id") (auto simp: note_quality_def split: option.splits)
qed

lemma note_qualities: "quality_of E m \<Longrightarrow> quality_of (E \<union> set evs) (fold note_quality evs m)"
proof (induction evs arbitrary: E m)
  case (Cons ev evs)
  show ?case using Cons.IH [OF note_quality_step [OF Cons.prems, of ev]] by simp
qed simp

text \<open>A claim may be asserted at a quality no stronger than any evidence recorded for what it cites.\<close>

definition supported :: "KnowledgeEvidenceRef set \<Rightarrow> WikiClaim \<Rightarrow> bool" where
  "supported E c \<longleftrightarrow> (\<forall>id \<in> set (wc_evidence_refs c).
     (\<exists>ev \<in> E. ke_evidence_id ev = id) \<and> (\<forall>ev \<in> E. ke_evidence_id ev = id \<longrightarrow> wc_quality c \<le> ke_quality ev))"

definition claim_ok :: "KnowledgeEvidenceRef set \<Rightarrow> WikiClaim \<Rightarrow> bool" where
  "claim_ok E c \<longleftrightarrow> knowledge_id (wc_claim_id c) \<and> valid_human_text (wc_text_ko c) 1024
     \<and> wc_evidence_refs c \<noteq> [] \<and> supported E c"

lemma weaken_refs:
  "fst (try_each (weaken_by m) ids w) = (case find (\<lambda>x. m x = None) ids of Some x \<Rightarrow> Inl (UnknownEvidence x) | None \<Rightarrow> Inr ())"
  "find (\<lambda>x. m x = None) ids = None \<Longrightarrow> snd (try_each (weaken_by m) ids w) = fold (\<lambda>x w. min w (the (m x))) ids w"
  by (induction ids arbitrary: w) (auto simp: weaken_by_def split: option.splits)

lemma weakest_below: "q \<le> fold (\<lambda>id w. min w (f id)) ids w \<longleftrightarrow> q \<le> (w :: KnowledgeQuality) \<and> (\<forall>id \<in> set ids. q \<le> f id)"
  by (induction ids arbitrary: w) auto

lemma check_claim_iff:
  assumes "quality_of E m"
  shows "fst (check_claim page_id m c seen) = Inr () \<longleftrightarrow> claim_ok E c \<and> wc_claim_id c \<notin> seen"
    and "snd (check_claim page_id m c seen) = insert (wc_claim_id c) seen \<or> fst (check_claim page_id m c seen) \<noteq> Inr ()"
proof -
  have q: "m id \<noteq> None \<longleftrightarrow> (\<exists>ev \<in> E. ke_evidence_id ev = id)"
    "m id = Some w \<Longrightarrow> q \<le> w \<longleftrightarrow> (\<forall>ev \<in> E. ke_evidence_id ev = id \<longrightarrow> q \<le> ke_quality ev)" for id q w
    using spec [OF assms [unfolded quality_of_def], of id] by (auto split: option.splits intro: order_trans)
  obtain r w where run: "try_each (weaken_by m) (wc_evidence_refs c) QExact = (r, w)" by fastforce
  have "r = Inr () \<and> wc_quality c \<le> w \<longleftrightarrow> supported E c"
  proof (cases "find (\<lambda>x. m x = None) (wc_evidence_refs c)")
    case (Some id)
    then have "id \<in> set (wc_evidence_refs c)" "m id = None" by (auto simp: find_Some_iff)
    then have "\<not> supported E c" using q(1) [of id] by (auto simp: supported_def)
    then show ?thesis using run weaken_refs(1) [of m "wc_evidence_refs c" QExact] Some by simp
  next
    case None
    then have all: "\<And>id. id \<in> set (wc_evidence_refs c) \<Longrightarrow> \<exists>w. m id = Some w" by (auto simp: find_None_iff)
    have "r = Inr ()" "w = fold (\<lambda>id w. min w (the (m id))) (wc_evidence_refs c) QExact"
      using run weaken_refs [of m "wc_evidence_refs c" QExact] None by simp_all
    moreover have "wc_quality c \<le> the (m id) \<longleftrightarrow> (\<exists>ev \<in> E. ke_evidence_id ev = id)
        \<and> (\<forall>ev \<in> E. ke_evidence_id ev = id \<longrightarrow> wc_quality c \<le> ke_quality ev)" if "id \<in> set (wc_evidence_refs c)" for id
      using all [OF that] q(1) [of id] q(2) [of id] by auto
    ultimately show ?thesis by (simp add: weakest_below supported_def)
  qed
  then show "fst (check_claim page_id m c seen) = Inr () \<longleftrightarrow> claim_ok E c \<and> wc_claim_id c \<notin> seen"
    by (auto simp: check_claim_def claim_ok_def run not_less split: sum.split)
  show "snd (check_claim page_id m c seen) = insert (wc_claim_id c) seen \<or> fst (check_claim page_id m c seen) \<noteq> Inr ()"
    by (auto simp: check_claim_def run split: sum.split)
qed

lemma check_claims_iff:
  assumes "quality_of E m"
  shows "fst (try_each (check_claim page_id m) cs seen) = Inr ()
      \<longleftrightarrow> list_all (claim_ok E) cs \<and> distinct (map wc_claim_id cs) \<and> wc_claim_id ` set cs \<inter> seen = {}"
proof (induction cs arbitrary: seen)
  case (Cons c cs)
  obtain r s where "check_claim page_id m c seen = (r, s)" by fastforce
  with check_claim_iff [OF assms, of page_id c seen] Cons.IH [of s]
  show ?case by (cases r) auto
qed simp

lemma check_related_iff: "fst (try_each (check_related_node k) xs ()) = Inr () \<longleftrightarrow> (\<forall>x \<in> set xs. kg_node_indices k x \<noteq> None)"
  by (induction xs) (simp_all add: check_related_node_def)

text \<open>The nodes one step away under the direction and the relations of the query.\<close>

definition linked :: "KnowledgeGraphQuery \<Rightarrow> KnowledgeEdge list \<Rightarrow> string \<Rightarrow> string set" where
  "linked q edges m = {n. \<exists>e \<in> set edges. relation_allowed (kx_relation e) (kq_relation_filter q) \<and>
     (kq_direction q \<in> {DirOutgoing, DirBoth} \<and> kx_from_node_id e = m \<and> kx_to_node_id e = n \<or>
      kq_direction q \<in> {DirIncoming, DirBoth} \<and> kx_to_node_id e = m \<and> kx_from_node_id e = n)}"

lemma those_map_Some: "those (map Some xs) = Some xs"
  by (induction xs) simp_all

lemma map_filter_Some: "(\<And>x. x \<in> set xs \<Longrightarrow> f x = Some (h x)) \<Longrightarrow> List.map_filter f xs = map h xs"
  by (induction xs) (simp_all add: List.map_filter_def)

lemma map_filter_if:
  "(\<And>x. x \<in> set xs \<Longrightarrow> f x = (if P x then Some (h x) else None)) \<Longrightarrow> List.map_filter f xs = map h (filter P xs)"
  by (induction xs) (simp_all add: List.map_filter_def)

text \<open>The seeds are collected in order; the first one that is not in the graph is reported.\<close>

lemma check_seeds:
  assumes "\<And>x. x \<in> set xs \<Longrightarrow> kg_node_indices k x \<noteq> None" "sorted v" "distinct v"
  shows "\<exists>v'. try_each (check_seed k) xs v = (Inr (), v') \<and> sorted v' \<and> distinct v' \<and> set v' = set v \<union> set xs"
  using assms
proof (induction xs arbitrary: v)
  case (Cons x xs)
  have "\<exists>v'. try_each (check_seed k) xs (insort_insert x v) = (Inr (), v') \<and> sorted v' \<and> distinct v'
      \<and> set v' = set (insort_insert x v) \<union> set xs"
    using Cons.prems by (intro Cons.IH) (auto simp: sorted_insort_insert distinct_insort_insert)
  moreover have "check_seed k x v = (Inr (), insort_insert x v)" using Cons.prems(1) [of x] by (simp add: check_seed_def)
  ultimately show ?case by (simp add: set_insort_insert)
qed simp

lemma check_seeds_missing:
  assumes "\<exists>x \<in> set xs. kg_node_indices k x = None"
  shows "\<exists>x v'. try_each (check_seed k) xs v = (Inl (MissingSeed x), v') \<and> x \<in> set xs \<and> kg_node_indices k x = None"
  using assms
proof (induction xs arbitrary: v)
  case (Cons x xs)
  show ?case
  proof (cases "kg_node_indices k x = None")
    case True
    then show ?thesis by (simp add: check_seed_def [of k x])
  next
    case False
    then have "check_seed k x v = (Inr (), insort_insert x v)" by (simp add: check_seed_def)
    then show ?thesis using Cons.IH [of "insort_insert x v"] Cons.prems False by auto
  qed
qed simp

context stable_graph
begin

text \<open>Adding the nodes numbers them in order.\<close>

lemma add_nodes:
  assumes "fold (Knowledge_Graph.add_node G) xs (g, m) = (g', m')"
    and "\<And>id i. m id = Some i \<longleftrightarrow> i < length (ns g) \<and> kn_node_id (ns g ! i) = id"
    and "distinct (map kn_node_id (ns g @ xs))"
  shows "ns g' = ns g @ xs \<and> es g' = es g
      \<and> (\<forall>id i. m' id = Some i \<longleftrightarrow> i < length (ns g') \<and> kn_node_id (ns g' ! i) = id)"
  using assms
proof (induction xs arbitrary: g m)
  case (Cons x xs)
  obtain i g1 where step: "sg_add_node G x g = (i, g1)" by fastforce
  from add_node [OF this] have i: "i = length (ns g)" and ns1: "ns g1 = ns g @ [x]" and es1: "es g1 = es g" by auto
  let ?m = "m(kn_node_id x \<mapsto> i)"
  have fresh: "m (kn_node_id x) = None"
  proof (rule ccontr)
    assume "m (kn_node_id x) \<noteq> None"
    then obtain j where "j < length (ns g)" "kn_node_id (ns g ! j) = kn_node_id x"
      using Cons.prems(2) by blast
    then have "kn_node_id x \<in> kn_node_id ` set (ns g)" by (metis image_eqI nth_mem)
    then show False using Cons.prems(3) by auto
  qed
  have "?m id = Some j \<longleftrightarrow> j < length (ns g1) \<and> kn_node_id (ns g1 ! j) = id" for id j
    using Cons.prems(2) [of id j] Cons.prems(2) [of "kn_node_id x" j] fresh
    by (auto simp: ns1 i nth_append less_Suc_eq)
  note m1 = this
  have "Knowledge_Graph.add_node G x (g, m) = (g1, ?m)" by (simp add: Knowledge_Graph.add_node_def step)
  then have "fold (Knowledge_Graph.add_node G) xs (g1, ?m) = (g', m')" using Cons.prems(1) by (simp del: fun_upd_apply)
  from Cons.IH [OF this m1] show ?case using Cons.prems(3) by (simp add: ns1 es1)
qed simp

lemma add_edges_total:
  assumes "\<And>id i. m id = Some i \<Longrightarrow> i < length (ns g)"
    and "\<And>e. e \<in> set xs \<Longrightarrow> m (kx_from_node_id e) \<noteq> None \<and> m (kx_to_node_id e) \<noteq> None"
  shows "\<exists>g'. add_edges G m xs g = Some g' \<and> ns g' = ns g
      \<and> es g' = es g @ map (\<lambda>e. (the (m (kx_from_node_id e)), the (m (kx_to_node_id e)), e)) xs"
  using assms
proof (induction xs arbitrary: g)
  case (Cons x xs)
  from Cons.prems(2) [of x] obtain a b where ab: "m (kx_from_node_id x) = Some a" "m (kx_to_node_id x) = Some b"
    by auto
  note bounds = Cons.prems(1) [OF ab(1)] Cons.prems(1) [OF ab(2)]
  note g1 = add_edge [OF bounds, of x]
  have "\<exists>g'. add_edges G m xs (sg_add_edge G a b x g) = Some g' \<and> ns g' = ns (sg_add_edge G a b x g)
      \<and> es g' = es (sg_add_edge G a b x g) @ map (\<lambda>e. (the (m (kx_from_node_id e)), the (m (kx_to_node_id e)), e)) xs"
    using Cons.prems g1 by (intro Cons.IH) auto
  then show ?case using g1 by (simp add: ab)
qed simp

lemma built_ok:
  assumes nodes: "try_each (insert_node identity) nodes [] = (Inr (), s)"
    and edges: "try_each (insert_edge identity s) edges [] = (Inr (), t)"
    and fold: "fold (Knowledge_Graph.add_node G) s (sg_new G, Map.empty) = (g, m)"
  shows "\<exists>g'. add_edges G m t g = Some g'
      \<and> built_from ns es \<lparr>kg_identity = identity, kg_graph = g', kg_node_indices = m\<rparr> nodes edges"
proof -
  note s = insert_nodes(2) [OF nodes, simplified] and t = insert_edges(2) [OF edges, simplified]
  have dn: "distinct (map kn_node_id nodes)" using insert_nodes(1) [of identity nodes "[]"] nodes by simp
  then have ds: "distinct (map kn_node_id s)" using s by (metis mset_eq_imp_distinct_iff mset_map)
  have de: "distinct (map kx_edge_id edges)" and acc: "list_all (edge_acceptable identity s) edges"
    using insert_edges(1) [of identity s edges "[]"] edges by simp_all
  have g: "ns g = s" "es g = []" and m: "\<And>id i. m id = Some i \<longleftrightarrow> i < length s \<and> kn_node_id (s ! i) = id"
    using add_nodes [OF fold] ds by (simp_all add: new_empty)
  have ends: "m (kx_from_node_id e) \<noteq> None \<and> m (kx_to_node_id e) \<noteq> None" if "e \<in> set t" for e
  proof -
    have known: "id \<in> kn_node_id ` set s \<Longrightarrow> m id \<noteq> None" for id
      using m [of id] by (force simp: in_set_conv_nth)
    have "e \<in> set edges" using that t mset_eq_setD by blast
    then show ?thesis using acc known by (auto simp: list_all_iff edge_acceptable_def)
  qed
  obtain g' where g': "add_edges G m t g = Some g'" "ns g' = s"
    "es g' = map (\<lambda>e. (the (m (kx_from_node_id e)), the (m (kx_to_node_id e)), e)) t"
    using add_edges_total [of m g t] ends m g by auto
  have links: "\<forall>(a, b, e) \<in> set (es g'). m (kx_from_node_id e) = Some a \<and> m (kx_to_node_id e) = Some b"
    using ends by (fastforce simp: g'(3))
  have "built_from ns es \<lparr>kg_identity = identity, kg_graph = g', kg_node_indices = m\<rparr> nodes edges"
    unfolding built_from_def using links m by (simp add: g'(2) s dn de t comp_def g'(3))
  then show ?thesis using g'(1) by blast
qed

lemma build_total:
  "\<exists>r. graph_build G identity nodes edges = Some r \<and>
     ((\<exists>k. r = Inr k) \<longleftrightarrow>
        validate_identity identity = Inr () \<and> length nodes \<le> MAX_GRAPH_NODES \<and> length edges \<le> MAX_GRAPH_EDGES
        \<and> list_all (node_acceptable identity) nodes \<and> distinct (map kn_node_id nodes)
        \<and> list_all (edge_acceptable identity nodes) edges \<and> distinct (map kx_edge_id edges)) \<and>
     (\<forall>k. r = Inr k \<longrightarrow> kg_identity k = identity \<and> built_from ns es k nodes edges)"
proof (cases "validate_identity identity = Inr () \<and> length nodes \<le> MAX_GRAPH_NODES \<and> length edges \<le> MAX_GRAPH_EDGES")
  case False
  then show ?thesis by (auto simp: graph_build_def split: sum.split)
next
  case True
  obtain r s where nodes: "try_each (insert_node identity) nodes [] = (r, s)" by fastforce
  obtain r' t where edges: "try_each (insert_edge identity s) edges [] = (r', t)" by fastforce
  obtain g m where fold: "fold (Knowledge_Graph.add_node G) s (sg_new G, Map.empty) = (g, m)" by fastforce
  have run: "graph_build G identity nodes edges = (case r of Inl e \<Rightarrow> Some (Inl e) | Inr _ \<Rightarrow>
      (case r' of Inl e \<Rightarrow> Some (Inl e) | Inr _ \<Rightarrow>
         map_option (\<lambda>g. Inr \<lparr>kg_identity = identity, kg_graph = g, kg_node_indices = m\<rparr>) (add_edges G m t g)))"
    using True by (simp add: graph_build_def nodes edges fold not_less split: sum.split)
  have good_nodes: "r = Inr () \<longleftrightarrow> list_all (node_acceptable identity) nodes \<and> distinct (map kn_node_id nodes)"
    using insert_nodes(1) [of identity nodes "[]"] by (simp add: nodes)
  have good_edges: "r' = Inr () \<longleftrightarrow> list_all (edge_acceptable identity nodes) edges \<and> distinct (map kx_edge_id edges)"
    if "r = Inr ()"
  proof -
    have "set s = set nodes" using insert_nodes(2) nodes that by (metis add_0 mset.simps(1) set_mset_mset)
    then have "edge_acceptable identity s = edge_acceptable identity nodes"
      by (auto simp: edge_acceptable_def fun_eq_iff)
    then show ?thesis using insert_edges(1) [of identity s edges "[]"] by (simp add: edges)
  qed
  show ?thesis
  proof (cases "r = Inr () \<and> r' = Inr ()")
    case ok: True
    then obtain g' where "add_edges G m t g = Some g'"
      "built_from ns es \<lparr>kg_identity = identity, kg_graph = g', kg_node_indices = m\<rparr> nodes edges"
      using built_ok fold nodes edges by blast
    then show ?thesis using ok True good_nodes good_edges by (simp add: run)
  next
    case bad: False
    then show ?thesis using True good_nodes good_edges by (auto simp: run split: sum.split)
  qed
qed

text \<open>Reading a graph that was built.\<close>

lemma built_index:
  assumes "built_from ns es k nodes edges"
  shows "kg_node_indices k m \<noteq> None \<longleftrightarrow> m \<in> kn_node_id ` set nodes"
proof -
  have "set (ns (kg_graph k)) = set nodes" using assms mset_eq_setD by (auto simp: built_from_def)
  moreover have "kg_node_indices k m \<noteq> None \<longleftrightarrow> (\<exists>i. i < length (ns (kg_graph k)) \<and> kn_node_id (ns (kg_graph k) ! i) = m)"
    using assms by (auto simp: built_from_def)
  ultimately show ?thesis by (metis (no_types, lifting) image_iff in_set_conv_nth)
qed

lemma built_node:
  assumes "built_from ns es k nodes edges" "kg_node_indices k m = Some i"
  shows "\<exists>n \<in> set nodes. sg_node_weight G (kg_graph k) i = Some n \<and> kn_node_id n = m"
proof -
  have "i < length (ns (kg_graph k))" "kn_node_id (ns (kg_graph k) ! i) = m" "set (ns (kg_graph k)) = set nodes"
    using assms mset_eq_setD by (auto simp: built_from_def)
  then show ?thesis using nth_mem by (fastforce simp: node_weight)
qed

lemma built_edges:
  assumes "built_from ns es k nodes edges"
  shows "set edges = (snd \<circ> snd) ` set (es (kg_graph k))"
proof -
  have "mset (map (snd \<circ> snd) (es (kg_graph k))) = mset edges" using assms unfolding built_from_def by blast
  from mset_eq_setD [OF this] show ?thesis by simp
qed

lemma built_link:
  assumes "built_from ns es k nodes edges" "(s, t, e) \<in> set (es (kg_graph k))"
  shows "map_option kn_node_id (sg_node_weight G (kg_graph k) s) = Some (kx_from_node_id e)"
    and "map_option kn_node_id (sg_node_weight G (kg_graph k) t) = Some (kx_to_node_id e)"
    and "kg_node_indices k m = Some i \<Longrightarrow> s = i \<longleftrightarrow> kx_from_node_id e = m"
    and "kg_node_indices k m = Some i \<Longrightarrow> t = i \<longleftrightarrow> kx_to_node_id e = m"
proof -
  have "\<forall>(s, t, e) \<in> set (es (kg_graph k)).
      kg_node_indices k (kx_from_node_id e) = Some s \<and> kg_node_indices k (kx_to_node_id e) = Some t"
    using assms(1) unfolding built_from_def by blast
  from bspec [OF this assms(2)]
  have st: "kg_node_indices k (kx_from_node_id e) = Some s" "kg_node_indices k (kx_to_node_id e) = Some t" by simp_all
  obtain n n' where nodes: "sg_node_weight G (kg_graph k) s = Some n" "kn_node_id n = kx_from_node_id e"
    "sg_node_weight G (kg_graph k) t = Some n'" "kn_node_id n' = kx_to_node_id e"
    using built_node [OF assms(1) st(1)] built_node [OF assms(1) st(2)] by blast
  then show "map_option kn_node_id (sg_node_weight G (kg_graph k) s) = Some (kx_from_node_id e)"
    "map_option kn_node_id (sg_node_weight G (kg_graph k) t) = Some (kx_to_node_id e)"
    by simp_all
  show "s = i \<longleftrightarrow> kx_from_node_id e = m" "t = i \<longleftrightarrow> kx_to_node_id e = m" if i: "kg_node_indices k m = Some i"
  proof -
    obtain n'' where "sg_node_weight G (kg_graph k) i = Some n''" "kn_node_id n'' = m"
      using built_node [OF assms(1) i] by blast
    then show "s = i \<longleftrightarrow> kx_from_node_id e = m" "t = i \<longleftrightarrow> kx_to_node_id e = m"
      using st i nodes by auto
  qed
qed

text \<open>What one direction contributes, as pairs of an edge id and the node at the other end.\<close>

lemma built_directed:
  assumes built: "built_from ns es k nodes edges" and i: "kg_node_indices k m = Some i"
  shows "\<exists>cs. directed_candidates G k q i PetOutgoing = map Some cs
      \<and> snd ` set cs = kx_to_node_id ` {e \<in> set edges. relation_allowed (kx_relation e) (kq_relation_filter q) \<and> kx_from_node_id e = m}"
    (is "\<exists>cs. ?out cs")
    and "\<exists>cs. directed_candidates G k q i PetIncoming = map Some cs
      \<and> snd ` set cs = kx_from_node_id ` {e \<in> set edges. relation_allowed (kx_relation e) (kq_relation_filter q) \<and> kx_to_node_id e = m}"
    (is "\<exists>cs. ?in cs")
proof -
  let ?g = "kg_graph k"
  let ?allowed = "\<lambda>(_ :: nat, _ :: nat, e). relation_allowed (kx_relation e) (kq_relation_filter q)"
  have edge_set: "set edges = {e. \<exists>s t. (s, t, e) \<in> set (es ?g)}"
    unfolding built_edges [OF built] by force
  let ?all = "\<lambda>far dir. map (\<lambda>(_, _, e). (kx_edge_id e, far e)) (filter ?allowed (sg_edges_directed G ?g i dir))"
  have near: "kx_from_node_id e = m \<longleftrightarrow> s = i" "kx_to_node_id e = m \<longleftrightarrow> t = i" if "(s, t, e) \<in> set (es ?g)" for s t e
    using built_link(3,4) [OF built that i] by simp_all
  have far: "\<exists>n. sg_node_weight G ?g s = Some n \<and> kn_node_id n = kx_from_node_id e"
    "\<exists>n. sg_node_weight G ?g t = Some n \<and> kn_node_id n = kx_to_node_id e" if "(s, t, e) \<in> set (es ?g)" for s t e
    using built_link(1,2) [OF built that] by auto
  have "directed_candidates G k q i PetOutgoing = map Some (?all kx_to_node_id PetOutgoing)"
    unfolding directed_candidates_def map_map by (rule map_cong) (auto simp: edges_out intro: far)
  moreover have "snd ` set (?all kx_to_node_id PetOutgoing) = kx_to_node_id ` {e \<in> set edges.
      relation_allowed (kx_relation e) (kq_relation_filter q) \<and> kx_from_node_id e = m}"
  proof -
    have "{e \<in> set edges. relation_allowed (kx_relation e) (kq_relation_filter q) \<and> kx_from_node_id e = m}
        = {e. \<exists>t. (i, t, e) \<in> set (es ?g) \<and> relation_allowed (kx_relation e) (kq_relation_filter q)}"
      unfolding edge_set using near by blast
    then show ?thesis by (force simp: edges_out image_iff)
  qed
  ultimately show "\<exists>cs. ?out cs" by blast
  have "directed_candidates G k q i PetIncoming = map Some (?all kx_from_node_id PetIncoming)"
    unfolding directed_candidates_def map_map by (rule map_cong) (auto simp: edges_in intro: far)
  moreover have "snd ` set (?all kx_from_node_id PetIncoming) = kx_from_node_id ` {e \<in> set edges.
      relation_allowed (kx_relation e) (kq_relation_filter q) \<and> kx_to_node_id e = m}"
  proof -
    have "{e \<in> set edges. relation_allowed (kx_relation e) (kq_relation_filter q) \<and> kx_to_node_id e = m}
        = {e. \<exists>s. (s, i, e) \<in> set (es ?g) \<and> relation_allowed (kx_relation e) (kq_relation_filter q)}"
      unfolding edge_set using near by blast
    then show ?thesis by (force simp: edges_in image_iff)
  qed
  ultimately show "\<exists>cs. ?in cs" by blast
qed

lemma built_neighbors:
  assumes built: "built_from ns es k nodes edges" and m: "m \<in> kn_node_id ` set nodes"
  shows "\<exists>ids. map_option (map snd) (neighbor_candidates G k m q) = Some ids \<and> set ids = linked q edges m"
proof -
  obtain i where i: "kg_node_indices k m = Some i" using built_index [OF built, of m] m by auto
  obtain a where a: "directed_candidates G k q i PetOutgoing = map Some a" "snd ` set a
      = kx_to_node_id ` {e \<in> set edges. relation_allowed (kx_relation e) (kq_relation_filter q) \<and> kx_from_node_id e = m}"
    using built_directed(1) [OF built i] by blast
  obtain b where b: "directed_candidates G k q i PetIncoming = map Some b" "snd ` set b
      = kx_from_node_id ` {e \<in> set edges. relation_allowed (kx_relation e) (kq_relation_filter q) \<and> kx_to_node_id e = m}"
    using built_directed(2) [OF built i] by blast
  define c where "c = (case kq_direction q of DirOutgoing \<Rightarrow> a | DirIncoming \<Rightarrow> b | DirBoth \<Rightarrow> a @ b)"
  have "neighbor_candidates G k m q = Some (remdups_adj (sort c))"
    using those_map_Some [of c] by (cases "kq_direction q") (simp_all add: neighbor_candidates_def i a(1) b(1) c_def)
  moreover have "snd ` set c = linked q edges m"
    by (cases "kq_direction q") (auto simp: c_def linked_def image_Un a(2) b(2))
  ultimately show ?thesis by simp
qed

text \<open>The nodes and edges reported for a visited set.\<close>

lemma built_visited:
  assumes built: "built_from ns es k nodes edges" and v: "set v \<subseteq> kn_node_id ` set nodes"
  shows "map kn_node_id (List.map_filter (graph_node G k) v) = v"
    and "set (List.map_filter (graph_node G k) v) \<subseteq> set nodes"
proof -
  have found: "\<exists>n \<in> set nodes. graph_node G k m = Some n \<and> kn_node_id n = m" if m: "m \<in> set v" for m
  proof -
    obtain i where i: "kg_node_indices k m = Some i" using built_index [OF built, of m] v m by auto
    then show ?thesis using built_node [OF built i] by (simp add: graph_node_def)
  qed
  have list: "List.map_filter (graph_node G k) v = map (\<lambda>m. the (graph_node G k m)) v"
    by (rule map_filter_Some) (use found in force)
  have id: "the (graph_node G k m) \<in> set nodes \<and> kn_node_id (the (graph_node G k m)) = m" if "m \<in> set v" for m
    using found [OF that] by auto
  show "map kn_node_id (List.map_filter (graph_node G k) v) = v"
    unfolding list using id by (simp add: map_idI)
  show "set (List.map_filter (graph_node G k) v) \<subseteq> set nodes" unfolding list using id by auto
qed

lemma built_context_edges:
  assumes built: "built_from ns es k nodes edges"
  shows "set (context_edges G k q v) = {e \<in> set edges. kx_from_node_id e \<in> set v \<and> kx_to_node_id e \<in> set v
      \<and> relation_allowed (kx_relation e) (kq_relation_filter q)}" (is "_ = {e \<in> _. ?P e}")
    and "sorted (map kx_edge_id (context_edges G k q v))" and "distinct (map kx_edge_id (context_edges G k q v))"
proof -
  let ?g = "kg_graph k"
  have members: "set (sg_edges G ?g) = set (es ?g)" using edges [of ?g] by (rule mset_eq_setD)
  have "mset (map (snd \<circ> snd) (es ?g)) = mset edges" using built unfolding built_from_def by blast
  then have all: "mset (map (snd \<circ> snd) (sg_edges G ?g)) = mset edges" by (simp add: edges)
  let ?pick = "\<lambda>(a, b, edge). case (sg_node_weight G ?g a, sg_node_weight G ?g b) of
         (Some m, Some n) \<Rightarrow> if kn_node_id m \<in> set v \<and> kn_node_id n \<in> set v
              \<and> relation_allowed (kx_relation edge) (kq_relation_filter q) then Some edge else None
       | _ \<Rightarrow> None"
  have "?pick x = (if ?P (snd (snd x)) then Some (snd (snd x)) else None)" if "x \<in> set (sg_edges G ?g)" for x
  proof (cases x)
    case (fields a b e)
    then have "(a, b, e) \<in> set (es ?g)" using that members by simp
    from built_link(1,2) [OF built this] show ?thesis by (auto simp: fields)
  qed
  then have picked: "context_edges G k q v = sort_key kx_edge_id (filter ?P (map (snd \<circ> snd) (sg_edges G ?g)))"
    unfolding context_edges_def by (subst map_filter_if) (simp_all add: filter_map comp_def)
  show "set (context_edges G k q v) = {e \<in> set edges. ?P e}"
    unfolding picked using mset_eq_setD [OF all] by auto
  show "sorted (map kx_edge_id (context_edges G k q v))" unfolding picked by (rule sorted_sort_key)
  have "distinct (map kx_edge_id edges)" using built unfolding built_from_def by blast
  moreover have "mset (map kx_edge_id (map (snd \<circ> snd) (sg_edges G ?g))) = mset (map kx_edge_id edges)"
    by (simp only: mset_map [of kx_edge_id] all)
  ultimately have "distinct (map kx_edge_id (map (snd \<circ> snd) (sg_edges G ?g)))"
    using mset_eq_imp_distinct_iff by blast
  then have "distinct (map kx_edge_id (filter ?P (map (snd \<circ> snd) (sg_edges G ?g))))"
    by (rule distinct_map_filter)
  moreover have "mset (map kx_edge_id (context_edges G k q v)) = mset (map kx_edge_id (filter ?P (map (snd \<circ> snd) (sg_edges G ?g))))"
    by (simp only: picked mset_map mset_sort)
  ultimately show "distinct (map kx_edge_id (context_edges G k q v))"
    using mset_eq_imp_distinct_iff by blast
qed

lemma expand_exact:
  assumes built: "built_from ns es k nodes edges" and query: "validate_query q = Inr ()"
    and seeds: "set (kq_seed_node_ids q) \<subseteq> kn_node_id ` set nodes"
    and closed: "\<And>e. e \<in> set edges \<Longrightarrow> kx_from_node_id e \<in> kn_node_id ` set nodes \<and> kx_to_node_id e \<in> kn_node_id ` set nodes"
  defines "T \<equiv> reach (linked q edges) (unat (kq_max_hops q)) (set (kq_seed_node_ids q))"
  shows "\<exists>pack v. graph_expand G k q = Some (Inr pack) \<and> map kn_node_id (kp_nodes pack) = v
      \<and> set (kp_nodes pack) \<subseteq> set nodes
      \<and> sorted v \<and> distinct v \<and> length v \<le> kq_max_nodes q
      \<and> set (kq_seed_node_ids q) \<subseteq> set v \<and> set v \<subseteq> T
      \<and> kp_complete_within_budget pack = (card T \<le> kq_max_nodes q)
      \<and> (if card T \<le> kq_max_nodes q then set v = T else length v = kq_max_nodes q)
      \<and> kp_edges pack = context_edges G k q v"
proof -
  let ?ids = "kn_node_id ` set nodes"
  have known: "\<exists>ids. map_option (map snd) (neighbor_candidates G k m q) = Some ids \<and> set ids = linked q edges m \<and> linked q edges m \<subseteq> ?ids"
    if "m \<in> ?ids" for m
    using built_neighbors [OF built that, of q] closed by (auto simp: linked_def)
  have "kg_node_indices k x \<noteq> None" if "x \<in> set (kq_seed_node_ids q)" for x
    using built_index [OF built, of x] seeds that by auto
  from check_seeds [OF this, of "kq_seed_node_ids q" "[]"]
  obtain s where s: "try_each (check_seed k) (kq_seed_node_ids q) [] = (Inr (), s)" "sorted s" "distinct s"
    "set s = set (kq_seed_node_ids q)" by auto
  have small: "length s \<le> kq_max_nodes q"
    using query s by (auto simp: validate_query_def distinct_card [symmetric] split: if_splits)
  obtain r v where w: "walk (\<lambda>n. map_option (map snd) (neighbor_candidates G k n q)) (kq_max_nodes q)
      (unat (kq_max_hops q)) s s = (r, v)" by fastforce
  have g: "grown (kq_max_nodes q) s T r v"
    unfolding T_def s(4) [symmetric]
    using w s(2,3) small _ _ known by (rule walk_grown) (use s(4) seeds in auto)
  have "\<And>m. m \<in> ?ids \<Longrightarrow> linked q edges m \<subseteq> ?ids" using known by blast
  then have T: "T \<subseteq> ?ids" "set s \<subseteq> T"
    unfolding T_def using reach_within [OF seeds] reach_mono s(4) by simp_all
  then have fin: "finite T" using finite_subset by blast
  have complete: "r = Inr () \<longleftrightarrow> card T \<le> kq_max_nodes q" by (rule grown_complete [OF g T(2) fin])
  have v: "sorted v" "distinct v" "length v \<le> kq_max_nodes q" "set s \<subseteq> set v" "set v \<subseteq> T"
    "if r = Inr () then set v = T else length v = kq_max_nodes q"
    using g T(2) by (auto simp: grown_def split: sum.splits)
  have "r \<noteq> Inl WalkPanic" using g by (auto simp: grown_def)
  then have "graph_expand G k q = Some (Inr \<lparr>kp_identity = kg_identity k, kp_seed_node_ids = kq_seed_node_ids q,
      kp_max_hops = kq_max_hops q, kp_nodes = List.map_filter (graph_node G k) v, kp_edges = context_edges G k q v,
      kp_complete_within_budget = (r = Inr ()),
      kp_warnings = (if r = Inr () then [] else [''GRAPH_NODE_BUDGET_EXHAUSTED''])\<rparr>)"
    by (simp add: graph_expand_def query s(1) w split: sum.split walk_stop.split)
  moreover have "set v \<subseteq> ?ids" using v(5) T(1) by blast
  note built_visited [OF built this]
  ultimately show ?thesis using v s(4) complete by (intro exI conjI) (assumption | simp)+
qed

text \<open>The weakest quality of an evidence id, over the evidence of all nodes and edges.\<close>

lemma built_quality:
  assumes built: "built_from ns es k nodes edges"
  shows "quality_of (all_evidence nodes edges) (evidence_quality G (kg_graph k))"
proof -
  let ?evs = "concat (map kn_evidence (sg_node_weights G (kg_graph k)))
        @ concat (map (\<lambda>(_, _, edge). kx_evidence edge) (sg_edges G (kg_graph k)))"
  have n: "set (sg_node_weights G (kg_graph k)) = set nodes"
    using node_weights [of "kg_graph k"] built mset_eq_setD unfolding built_from_def by metis
  have e: "set edges = (snd \<circ> snd) ` set (sg_edges G (kg_graph k))"
    using built_edges [OF built] mset_eq_setD [OF edges] by simp
  have "set ?evs = all_evidence nodes edges"
    unfolding all_evidence_def e by (auto simp: n)
  moreover have "quality_of ({} \<union> set ?evs) (fold note_quality ?evs Map.empty)"
    by (rule note_qualities) (simp add: quality_of_def)
  ultimately show ?thesis by (simp add: evidence_quality_def)
qed

end

section \<open>Properties\<close>

definition sample_identity :: KnowledgeGraphIdentity where
  "sample_identity = \<lparr>gi_game_build_id = ''steam:1'', gi_dataset_manifest_id_hex = replicate 64 CHR ''1''\<rparr>"

definition sample_evidence :: "KnowledgeQuality \<Rightarrow> KnowledgeEvidenceRef" where
  "sample_evidence quality = \<lparr>ke_evidence_id = ''fact:a'', ke_quality = quality, ke_source_ids = []\<rparr>"

definition sample_node :: "string \<Rightarrow> KnowledgeQuality \<Rightarrow> KnowledgeNode" where
  "sample_node node_id quality =
     \<lparr>kn_node_id = node_id, kn_kind = Item, kn_label_ko = node_id, kn_game_build_id = ''steam:1'',
      kn_evidence = [sample_evidence quality]\<rparr>"

definition sample_nodes :: "KnowledgeNode list" where
  "sample_nodes = [sample_node ''b'' QModel, sample_node ''a'' QExact]"

definition sample_edges :: "KnowledgeEdge list" where
  "sample_edges =
     [\<lparr>kx_edge_id = ''ab'', kx_from_node_id = ''a'', kx_to_node_id = ''b'', kx_relation = DropsItem,
       kx_game_build_id = ''steam:1'', kx_evidence = [sample_evidence QMeasured]\<rparr>]"

definition sample_query :: KnowledgeGraphQuery where
  "sample_query = \<lparr>kq_seed_node_ids = [''a''], kq_max_hops = 1, kq_max_nodes = 2, kq_direction = DirOutgoing, kq_relation_filter = {}\<rparr>"

definition sample_page :: "KnowledgeQuality \<Rightarrow> KnowledgeWikiPage" where
  "sample_page quality =
     \<lparr>wp_page_id = ''p'', wp_title_ko = ''t'', wp_summary_ko = ''s'', wp_game_build_id = ''steam:1'',
      wp_dataset_manifest_id_hex = replicate 64 CHR ''1'', wp_status = Draft,
      wp_claims = [\<lparr>wc_claim_id = ''c'', wc_text_ko = ''t'', wc_quality = quality, wc_evidence_refs = [''fact:a''],
        wc_related_node_ids = []\<rparr>], wp_related_node_ids = [''a'']\<rparr>"

lemma sample_texts:
  "knowledge_id ''a''" "knowledge_id ''b''" "knowledge_id ''ab''" "knowledge_id ''c''" "knowledge_id ''p''"
  "knowledge_id ''steam:1''" "knowledge_id ''fact:a''"
  "valid_hex (replicate 64 CHR ''1'') 64"
  "valid_human_text ''a'' 256" "valid_human_text ''b'' 256" "valid_human_text ''t'' 256" "valid_human_text ''t'' 1024"
  "valid_human_text ''s'' 2000"
  by (simp_all add: knowledge_id_def valid_hex_def hex_digit_def valid_human_text_def is_ascii_def is_ascii_alphanumeric_def
      is_ascii_digit_def is_ascii_lower_def is_ascii_upper_def list_all_iff)

lemma sample_valid:
  "validate_identity sample_identity = Inr ()"
  "list_all (node_acceptable sample_identity) sample_nodes"
  "list_all (edge_acceptable sample_identity sample_nodes) sample_edges"
  "distinct (map kn_node_id sample_nodes)" "distinct (map kx_edge_id sample_edges)"
  "length sample_nodes \<le> MAX_GRAPH_NODES" "length sample_edges \<le> MAX_GRAPH_EDGES"
  "validate_query sample_query = Inr ()"
  by (simp_all add: sample_identity_def validate_identity_def sample_nodes_def sample_node_def sample_edges_def
      sample_evidence_def node_acceptable_def edge_acceptable_def validate_node_def validate_edge_def valid_evidence_def
      validate_query_def sample_query_def MAX_GRAPH_NODES_def MAX_GRAPH_EDGES_def MAX_QUERY_SEEDS_def MAX_QUERY_HOPS_def
      MAX_QUERY_NODES_def sample_texts)

lemma sample_built:
  obtains k where "graph_build list_graph_ops sample_identity sample_nodes sample_edges = Some (Inr k)"
  using lg.build_total [of sample_identity sample_nodes sample_edges] sample_valid by auto

text \<open>
  Building a graph never panics.  It succeeds exactly when the identity is valid, both lists are within
  their limits, every node and edge is valid and of the identity's game build, all node ids and all edge ids
  are distinct and every edge joins two of the nodes; the graph then holds exactly these nodes and edges, each
  edge joined to the nodes it names.
\<close>

lemma graph_build_accepts:
  assumes "stable_graph G ns es"
  shows "\<exists>r. graph_build G identity nodes edges = Some r \<and>
     ((\<exists>k. r = Inr k) \<longleftrightarrow>
        validate_identity identity = Inr () \<and> length nodes \<le> MAX_GRAPH_NODES \<and> length edges \<le> MAX_GRAPH_EDGES
        \<and> list_all (node_acceptable identity) nodes \<and> distinct (map kn_node_id nodes)
        \<and> list_all (edge_acceptable identity nodes) edges \<and> distinct (map kx_edge_id edges)) \<and>
     (\<forall>k. r = Inr k \<longrightarrow> kg_identity k = identity \<and> built_from ns es k nodes edges)"
  by (rule stable_graph.build_total [OF assms])

lemma graph_build_accepts_example:
  "stable_graph list_graph_ops fst snd \<and>
   (\<exists>k. graph_build list_graph_ops sample_identity sample_nodes sample_edges = Some (Inr k)
      \<and> built_from fst snd k sample_nodes sample_edges)"
  using graph_build_accepts [OF lg.stable_graph_axioms, of sample_identity sample_nodes sample_edges]
    sample_valid lg.stable_graph_axioms by auto

text \<open>
  C10: Expanding a valid query whose seeds are in the graph never panics and returns nodes in the order of
  their ids, without duplicates, at most as many as the budget, the seeds among them, and none farther from the
  seeds than the number of hops along edges of the requested direction and relations.  The result is marked
  complete exactly when all the nodes in reach fit the budget: it then holds all of them, and otherwise it
  holds as many nodes as the budget allows.  The edges are exactly those of the requested relations between
  the nodes returned.
\<close>

theorem graph_expand_exact:
  assumes graph: "stable_graph G ns es" and build: "graph_build G identity nodes edges = Some (Inr k)"
    and query: "validate_query q = Inr ()" and seeds: "set (kq_seed_node_ids q) \<subseteq> kn_node_id ` set nodes"
  shows "\<exists>pack v T. graph_expand G k q = Some (Inr pack)
      \<and> T = reach (linked q edges) (unat (kq_max_hops q)) (set (kq_seed_node_ids q))
      \<and> map kn_node_id (kp_nodes pack) = v \<and> set (kp_nodes pack) \<subseteq> set nodes
      \<and> sorted v \<and> distinct v \<and> length v \<le> kq_max_nodes q
      \<and> set (kq_seed_node_ids q) \<subseteq> set v \<and> set v \<subseteq> T
      \<and> kp_complete_within_budget pack = (card T \<le> kq_max_nodes q)
      \<and> (if card T \<le> kq_max_nodes q then set v = T else length v = kq_max_nodes q)
      \<and> set (kp_edges pack) = {e \<in> set edges. kx_from_node_id e \<in> set v \<and> kx_to_node_id e \<in> set v
           \<and> relation_allowed (kx_relation e) (kq_relation_filter q)}
      \<and> sorted (map kx_edge_id (kp_edges pack)) \<and> distinct (map kx_edge_id (kp_edges pack))"
proof -
  have built: "built_from ns es k nodes edges" and ends: "list_all (edge_acceptable identity nodes) edges"
    using stable_graph.build_total [OF graph, of identity nodes edges] build by auto
  have "kx_from_node_id e \<in> kn_node_id ` set nodes \<and> kx_to_node_id e \<in> kn_node_id ` set nodes" if "e \<in> set edges" for e
    using ends that by (simp add: list_all_iff edge_acceptable_def)
  note found = stable_graph.expand_exact [OF graph built query seeds this]
  define T where "T = reach (linked q edges) (unat (kq_max_hops q)) (set (kq_seed_node_ids q))"
  obtain pack v where "graph_expand G k q = Some (Inr pack)" "map kn_node_id (kp_nodes pack) = v"
      "set (kp_nodes pack) \<subseteq> set nodes" "sorted v" "distinct v" "length v \<le> kq_max_nodes q"
      "set (kq_seed_node_ids q) \<subseteq> set v" "set v \<subseteq> T"
      "kp_complete_within_budget pack = (card T \<le> kq_max_nodes q)"
      "if card T \<le> kq_max_nodes q then set v = T else length v = kq_max_nodes q"
      and edges: "kp_edges pack = context_edges G k q v"
    using found unfolding T_def [symmetric] by blast
  with T_def show ?thesis
    using stable_graph.built_context_edges [OF graph built, of q v] unfolding edges [symmetric] by blast
qed

theorem graph_expand_exact_witness:
  "\<exists>k pack. graph_build list_graph_ops sample_identity sample_nodes sample_edges = Some (Inr k)
     \<and> graph_expand list_graph_ops k sample_query = Some (Inr pack)
     \<and> kn_node_id ` set (kp_nodes pack) = {''a'', ''b''} \<and> set (kp_edges pack) = set sample_edges"
proof -
  obtain k where k: "graph_build list_graph_ops sample_identity sample_nodes sample_edges = Some (Inr k)"
    by (rule sample_built)
  have link: "linked sample_query sample_edges ''a'' = {''b''}"
    by (auto simp: linked_def sample_query_def sample_edges_def relation_allowed_def)
  have T: "reach (linked sample_query sample_edges) (unat (kq_max_hops sample_query)) (set (kq_seed_node_ids sample_query)) = {''a'', ''b''}"
    using link by (auto simp: sample_query_def)
  have "set (kq_seed_node_ids sample_query) \<subseteq> kn_node_id ` set sample_nodes"
    by (simp add: sample_query_def sample_nodes_def sample_node_def)
  from graph_expand_exact [OF lg.stable_graph_axioms k sample_valid(8) this]
  obtain pack where pack: "graph_expand list_graph_ops k sample_query = Some (Inr pack)"
    "kn_node_id ` set (kp_nodes pack) = {''a'', ''b''}"
    "set (kp_edges pack) = {e \<in> set sample_edges. kx_from_node_id e \<in> {''a'', ''b''} \<and> kx_to_node_id e \<in> {''a'', ''b''}
       \<and> relation_allowed (kx_relation e) (kq_relation_filter sample_query)}"
    unfolding T by (fastforce simp: sample_query_def)
  have "set (kp_edges pack) = set sample_edges"
    unfolding pack(3) by (auto simp: sample_edges_def sample_query_def relation_allowed_def)
  then show ?thesis using k pack(1,2) by blast
qed

text \<open>
  C17: A wiki page is accepted exactly when it is for the graph's build and dataset, its texts are valid, every
  node it names is in the graph, its claim ids are distinct, and each claim cites evidence that exists and has
  a quality no stronger than any evidence the graph records, on a node or an edge, for what it cites.
\<close>

theorem wiki_page_accepted_iff:
  assumes graph: "stable_graph G ns es" and build: "graph_build G identity nodes edges = Some (Inr k)"
  shows "validate_wiki_page G k page = Inr () \<longleftrightarrow>
       wp_game_build_id page = gi_game_build_id identity
     \<and> wp_dataset_manifest_id_hex page = gi_dataset_manifest_id_hex identity
     \<and> knowledge_id (wp_page_id page) \<and> valid_human_text (wp_title_ko page) 256
     \<and> valid_human_text (wp_summary_ko page) 2000 \<and> length (wp_claims page) \<le> MAX_WIKI_CLAIMS
     \<and> set (wp_related_node_ids page) \<union> (\<Union>c \<in> set (wp_claims page). set (wc_related_node_ids c)) \<subseteq> kn_node_id ` set nodes
     \<and> distinct (map wc_claim_id (wp_claims page))
     \<and> list_all (claim_ok (all_evidence nodes edges)) (wp_claims page)"
proof -
  have built: "built_from ns es k nodes edges" and id: "kg_identity k = identity"
    using stable_graph.build_total [OF graph, of identity nodes edges] build by auto
  note claims = check_claims_iff [OF stable_graph.built_quality [OF graph built], of "wp_page_id page" "wp_claims page" "{}"]
  let ?xs = "wp_related_node_ids page @ concat (map wc_related_node_ids (wp_claims page))"
  have "fst (try_each (check_related_node k) ?xs ()) = Inr ()
      \<longleftrightarrow> set (wp_related_node_ids page) \<union> (\<Union>c \<in> set (wp_claims page). set (wc_related_node_ids c)) \<subseteq> kn_node_id ` set nodes"
    unfolding check_related_iff stable_graph.built_index [OF graph built] by auto
  then show ?thesis using claims
    by (cases "fst (try_each (check_related_node k) ?xs ())") (auto simp: validate_wiki_page_def id not_less)
qed

theorem wiki_page_accepted_iff_witness:
  "\<exists>k. graph_build list_graph_ops sample_identity sample_nodes sample_edges = Some (Inr k)
     \<and> validate_wiki_page list_graph_ops k (sample_page QModel) = Inr ()
     \<and> validate_wiki_page list_graph_ops k (sample_page QExact) \<noteq> Inr ()"
proof -
  obtain k where k: "graph_build list_graph_ops sample_identity sample_nodes sample_edges = Some (Inr k)"
    by (rule sample_built)
  note iff = wiki_page_accepted_iff [OF lg.stable_graph_axioms k]
  have "claim_ok (all_evidence sample_nodes sample_edges) (hd (wp_claims (sample_page q))) \<longleftrightarrow> q \<le> QModel" for q
    by (cases q) (simp_all add: claim_ok_def supported_def all_evidence_def sample_nodes_def sample_node_def sample_edges_def
        sample_evidence_def sample_page_def sample_texts less_eq_KnowledgeQuality_def)
  then show ?thesis using k
    by (auto simp: iff sample_page_def sample_identity_def sample_texts MAX_WIKI_CLAIMS_def sample_nodes_def sample_node_def
        less_eq_KnowledgeQuality_def)
qed

end
