(* ===== verification/Companion_Breeding.thy ===== *)
theory Companion_Breeding
  imports Pal_Prelude "HOL-Library.Multiset" "HOL-Library.Product_Lexorder" "HOL-Library.Monad_Syntax"
begin

text \<open>
  The breeding planner of the companion, \<open>crates/pal-companion-service/src/breeding.rs\<close>: which species
  can be bred from the owned ones, in how few generations, and by which rules.

  A \<open>BTreeMap\<close> that is only looked up is a map, a \<open>BTreeSet\<close> that is iterated a sorted list without
  repetitions; strings compare by their bytes.  A panic, and a recursion that would not return, is
  the outcome \<open>None\<close>.
\<close>

definition MAX_RULES :: nat where "MAX_RULES = 1048576"
definition MAX_OWNED_PALS :: nat where "MAX_OWNED_PALS = 10000"
definition MAX_GENERATIONS :: u32 where "MAX_GENERATIONS = 32"
definition MAX_NODE_BUDGET :: u64 where "MAX_NODE_BUDGET = 2000000"

record OwnedPalSeed =
  op_instance_id_hex :: string
  op_species_id :: string
  op_passive_ids :: "string list"

record BreedingRule =
  br_rule_id :: string
  br_parent_a :: string
  br_parent_b :: string
  br_child :: string

datatype BreedingPlanSource = Owned string | Bred string string string

record BreedingPlanNode =
  bn_species_id :: string
  bn_generation :: u32
  bn_source :: BreedingPlanSource

record PassiveCoverage =
  pc_passive_id :: string
  pc_donors :: "string list"

record BreedingPlan =
  bp_target :: string
  bp_generations :: u32
  bp_nodes :: "BreedingPlanNode list"
  bp_coverage :: "PassiveCoverage list"
  bp_node_visits :: u64
  bp_quality :: string
  bp_scope :: string
  bp_warnings :: "string list"

datatype BreedingError =
    InvalidTarget | TooManyOwnedPals | TooManyRules | InvalidGenerationLimit | InvalidNodeBudget
  | BudgetExhausted | Unreachable | InvalidIdentifier

record KnownSpecies =
  ks_generation :: u32
  ks_source :: BreedingPlanSource

section \<open>The checks of the input\<close>

definition valid_id :: "string \<Rightarrow> bool" where
  "valid_id v = (v \<noteq> [] \<and> length v \<le> 128 \<and> is_ascii v
     \<and> list_all (\<lambda>c. is_ascii_alphanumeric c \<or> c \<in> {CHR ''_'', CHR ''-'', CHR ''.'', CHR '':''}) v)"

definition is_ascii_hexdigit :: "char \<Rightarrow> bool" where
  "is_ascii_hexdigit c =
     (let n = (of_char c :: nat) in 48 \<le> n \<and> n \<le> 57 \<or> 65 \<le> n \<and> n \<le> 70 \<or> 97 \<le> n \<and> n \<le> 102)"

definition valid_hex_id :: "string \<Rightarrow> bool" where
  "valid_hex_id v = (length v = 32 \<and> list_all is_ascii_hexdigit v)"

definition validate_inputs ::
  "OwnedPalSeed list \<Rightarrow> BreedingRule list \<Rightarrow> string \<Rightarrow> string list \<Rightarrow> u32 \<Rightarrow> u64 \<Rightarrow> BreedingError + unit" where
  "validate_inputs owned rules target required_passive_ids generations budget =
     (if MAX_OWNED_PALS < length owned then Inl TooManyOwnedPals
      else if MAX_RULES < length rules then Inl TooManyRules
      else if MAX_GENERATIONS < generations then Inl InvalidGenerationLimit
      else if budget = 0 \<or> MAX_NODE_BUDGET < budget then Inl InvalidNodeBudget
      else if \<not> valid_id target then Inl InvalidTarget
      else if list_ex (\<lambda>pal. \<not> valid_hex_id (op_instance_id_hex pal) \<or> \<not> valid_id (op_species_id pal)
                 \<or> list_ex (\<lambda>i. \<not> valid_id i) (op_passive_ids pal)) owned
      then Inl InvalidIdentifier
      else if list_ex (\<lambda>rule. \<not> valid_id (br_rule_id rule) \<or> \<not> valid_id (br_parent_a rule)
                 \<or> \<not> valid_id (br_parent_b rule) \<or> \<not> valid_id (br_child rule)) rules
      then Inl InvalidIdentifier
      else if list_ex (\<lambda>i. \<not> valid_id i) required_passive_ids then Inl InvalidIdentifier
      else Inr ())"

section \<open>The search\<close>

type_synonym known_map = "string \<rightharpoonup> KnownSpecies"

fun candidate_rank :: "KnownSpecies \<Rightarrow> u32 \<times> string \<times> string \<times> string" where
  "candidate_rank k =
     (case ks_source k of
        Owned instance_id_hex \<Rightarrow> (ks_generation k, '''', '''', instance_id_hex)
      | Bred rule_id parent_a parent_b \<Rightarrow> (ks_generation k, rule_id, parent_a, parent_b))"

definition sort_owned :: "OwnedPalSeed list \<Rightarrow> OwnedPalSeed list" where
  "sort_owned = sort_key (\<lambda>pal. (op_species_id pal, op_instance_id_hex pal))"

definition sort_rules :: "BreedingRule list \<Rightarrow> BreedingRule list" where
  "sort_rules = sort_key (\<lambda>rule. (br_child rule, br_rule_id rule, br_parent_a rule, br_parent_b rule))"

definition know_owned :: "OwnedPalSeed \<Rightarrow> known_map \<Rightarrow> known_map" where
  "know_owned pal known =
     (case known (op_species_id pal) of
        Some _ \<Rightarrow> known
      | None \<Rightarrow> known(op_species_id pal \<mapsto>
          \<lparr>ks_generation = 0, ks_source = Owned (op_instance_id_hex pal)\<rparr>))"

record solver_state =
  sv_known :: known_map
  sv_visits :: u64
  sv_changed :: bool

text \<open>One turn of the inner loop.\<close>

definition bred_candidate :: "u32 \<Rightarrow> BreedingRule \<Rightarrow> KnownSpecies" where
  "bred_candidate generation rule = \<lparr>ks_generation = generation,
     ks_source = Bred (br_rule_id rule) (br_parent_a rule) (br_parent_b rule)\<rparr>"

definition relax_rule ::
  "u32 \<Rightarrow> u64 \<Rightarrow> BreedingRule \<Rightarrow> solver_state \<Rightarrow> (BreedingError + unit) \<times> solver_state" where
  "relax_rule maximum_generations node_budget rule st =
     (case checked_add (sv_visits st) 1 of
        None \<Rightarrow> (Inl BudgetExhausted, st)
      | Some visits \<Rightarrow>
          let st = st\<lparr>sv_visits := visits\<rparr> in
          if node_budget < visits then (Inl BudgetExhausted, st)
          else case sv_known st (br_parent_a rule) of
            None \<Rightarrow> (Inr (), st)
          | Some parent_a \<Rightarrow>
              (case sv_known st (br_parent_b rule) of
                 None \<Rightarrow> (Inr (), st)
               | Some parent_b \<Rightarrow>
                   let generation = max (ks_generation parent_a) (ks_generation parent_b) + 1 in
                   if maximum_generations < generation then (Inr (), st)
                   else let candidate = bred_candidate generation rule;
                            replace = (case sv_known st (br_child rule) of
                              None \<Rightarrow> True
                            | Some current \<Rightarrow> candidate_rank candidate < candidate_rank current)
                        in if replace
                           then (Inr (), st\<lparr>sv_known := (sv_known st)(br_child rule \<mapsto> candidate),
                                           sv_changed := True\<rparr>)
                           else (Inr (), st)))"

text \<open>Every visit is counted, so the rounds end with the budget.\<close>

lemma relax_rule_visits:
  "relax_rule g budget rule st = (Inr (), st') \<Longrightarrow>
     unat (sv_visits st') = unat (sv_visits st) + 1 \<and> sv_visits st' \<le> budget"
  by (auto simp: relax_rule_def Let_def checked_add_Some_iff split: option.splits if_splits)

lemma relax_rules_visits:
  "try_each (relax_rule g budget) rules st = (Inr (), st') \<Longrightarrow>
     unat (sv_visits st') = unat (sv_visits st) + length rules \<and> (rules \<noteq> [] \<longrightarrow> sv_visits st' \<le> budget)"
proof (induction rules arbitrary: st)
  case (Cons rule rules)
  then obtain st1 where one: "relax_rule g budget rule st = (Inr (), st1)"
    "try_each (relax_rule g budget) rules st1 = (Inr (), st')"
    by (auto split: prod.splits sum.splits)
  then show ?case using Cons.IH [OF one(2)] relax_rule_visits [OF one(1)] by auto
qed simp

function solve_rounds ::
  "u32 \<Rightarrow> u64 \<Rightarrow> BreedingRule list \<Rightarrow> solver_state \<Rightarrow> (BreedingError + unit) \<times> solver_state" where
  "solve_rounds g budget rules st =
     (if \<not> sv_changed st then (Inr (), st)
      else case try_each (relax_rule g budget) rules (st\<lparr>sv_changed := False\<rparr>) of
        (Inl e, st) \<Rightarrow> (Inl e, st)
      | (Inr _, st) \<Rightarrow> solve_rounds g budget rules st)"
  by pat_completeness auto

termination solve_rounds
proof (relation "measures [\<lambda>(g, budget, rules, st). unat budget - unat (sv_visits st),
    \<lambda>(g, budget, rules, st). if sv_changed st then 1 else 0]", goal_cases)
  case (2 g budget rules st x st' u)
  then have run: "try_each (relax_rule g budget) rules (st\<lparr>sv_changed := False\<rparr>) = (Inr (), st')" by simp
  show ?case
  proof (cases "rules = []")
    case True
    then show ?thesis using run 2 by auto
  next
    case False
    then have "0 < length rules" by simp
    moreover have "unat (sv_visits st') = unat (sv_visits st) + length rules" "unat (sv_visits st') \<le> unat budget"
      using relax_rules_visits [OF run] False by (simp_all add: word_le_nat_alt)
    ultimately have "unat budget - unat (sv_visits st') < unat budget - unat (sv_visits st)" by linarith
    then show ?thesis by simp
  qed
qed simp

declare solve_rounds.simps [simp del]

partial_function (option) collect_required_nodes ::
  "known_map \<Rightarrow> string \<Rightarrow> string list \<Rightarrow> string list option" where
  "collect_required_nodes known species_id out =
     (if species_id \<in> set out then Some out
      else let out = insort species_id out in
        case known species_id of
          None \<Rightarrow> Some out
        | Some node \<Rightarrow>
            (case ks_source node of
               Owned _ \<Rightarrow> Some out
             | Bred _ parent_a parent_b \<Rightarrow>
                 do { out \<leftarrow> collect_required_nodes known parent_a out;
                      collect_required_nodes known parent_b out }))"

definition plan_node :: "known_map \<Rightarrow> string \<Rightarrow> BreedingPlanNode option" where
  "plan_node known species_id =
     map_option (\<lambda>k. \<lparr>bn_species_id = species_id, bn_generation = ks_generation k, bn_source = ks_source k\<rparr>)
       (known species_id)"

definition passive_coverage :: "OwnedPalSeed list \<Rightarrow> string list \<Rightarrow> PassiveCoverage list" where
  "passive_coverage owned_sorted required_passive_ids =
     map (\<lambda>passive_id. \<lparr>pc_passive_id = passive_id,
           pc_donors = remdups_adj (sort (map op_instance_id_hex
             (filter (\<lambda>pal. passive_id \<in> set (op_passive_ids pal)) owned_sorted)))\<rparr>)
       (remdups_adj (sort required_passive_ids))"

definition plan_warnings :: "PassiveCoverage list \<Rightarrow> string list" where
  "plan_warnings coverage =
     (if list_ex (\<lambda>entry. pc_donors entry = []) coverage then [''MISSING_REQUIRED_PASSIVE_DONOR''] else [])
     @ (if coverage \<noteq> [] then [''PASSIVE_INHERITANCE_PROBABILITY_UNKNOWN''] else [])
     @ [''PARENT_GENDER_NOT_EVALUATED'', ''DISTINCT_PARENT_INSTANCE_NOT_EVALUATED'']"

definition solver_start :: "OwnedPalSeed list \<Rightarrow> solver_state" where
  "solver_start owned_sorted =
     \<lparr>sv_known = fold know_owned owned_sorted Map.empty, sv_visits = 0, sv_changed = True\<rparr>"

definition solve_owned_breeding ::
  "OwnedPalSeed list \<Rightarrow> BreedingRule list \<Rightarrow> string \<Rightarrow> string list \<Rightarrow> u32 \<Rightarrow> u64
   \<Rightarrow> (BreedingError + BreedingPlan) option" where
  "solve_owned_breeding owned rules target required_passive_ids maximum_generations node_budget =
     (case validate_inputs owned rules target required_passive_ids maximum_generations node_budget of
        Inl e \<Rightarrow> Some (Inl e)
      | Inr _ \<Rightarrow>
          let owned_sorted = sort_owned owned in
          (case solve_rounds maximum_generations node_budget (sort_rules rules) (solver_start owned_sorted) of
             (Inl e, _) \<Rightarrow> Some (Inl e)
           | (Inr _, st) \<Rightarrow>
               (case sv_known st target of
                  None \<Rightarrow> Some (Inl Unreachable)
                | Some known_target \<Rightarrow>
                    do { required \<leftarrow> collect_required_nodes (sv_known st) target [];
                         nodes \<leftarrow> those (map (plan_node (sv_known st)) required);
                         let coverage = passive_coverage owned_sorted required_passive_ids;
                         Some (Inr \<lparr>bp_target = target, bp_generations = ks_generation known_target,
                           bp_nodes = nodes, bp_coverage = coverage, bp_node_visits = sv_visits st,
                           bp_quality = ''exact'', bp_scope = ''species_graph_reachability'',
                           bp_warnings = plan_warnings coverage\<rparr>) })))"

section \<open>What can be bred\<close>

text \<open>The specification: a species can be had in a number of generations, whatever the order of breeding.\<close>

inductive derivable :: "OwnedPalSeed list \<Rightarrow> BreedingRule list \<Rightarrow> nat \<Rightarrow> string \<Rightarrow> bool" for owned rules where
  derive_owned: "pal \<in> set owned \<Longrightarrow> derivable owned rules 0 (op_species_id pal)"
| derive_bred: "\<lbrakk>rule \<in> set rules; derivable owned rules m (br_parent_a rule);
     derivable owned rules n (br_parent_b rule)\<rbrakk> \<Longrightarrow> derivable owned rules (max m n + 1) (br_child rule)"

text \<open>
  A recorded species is owned, or bred by a rule from parents recorded with smaller generations; and
  a species that is owned is recorded as such.
\<close>

definition entry_ok :: "OwnedPalSeed list \<Rightarrow> BreedingRule list \<Rightarrow> u32 \<Rightarrow> known_map \<Rightarrow> string \<Rightarrow> KnownSpecies \<Rightarrow> bool" where
  "entry_ok owned rules g known s k \<longleftrightarrow>
     derivable owned rules (unat (ks_generation k)) s \<and> ks_generation k \<le> g
     \<and> (case ks_source k of
          Owned i \<Rightarrow> ks_generation k = 0 \<and> (\<exists>pal \<in> set owned. op_species_id pal = s \<and> op_instance_id_hex pal = i)
        | Bred r a b \<Rightarrow>
            (\<exists>rule \<in> set rules. br_rule_id rule = r \<and> br_parent_a rule = a \<and> br_parent_b rule = b \<and> br_child rule = s)
            \<and> (\<exists>ka kb. known a = Some ka \<and> known b = Some kb
                 \<and> max (unat (ks_generation ka)) (unat (ks_generation kb)) + 1 \<le> unat (ks_generation k)))"

definition known_inv :: "OwnedPalSeed list \<Rightarrow> BreedingRule list \<Rightarrow> u32 \<Rightarrow> known_map \<Rightarrow> bool" where
  "known_inv owned rules g known \<longleftrightarrow>
     (\<forall>s k. known s = Some k \<longrightarrow> entry_ok owned rules g known s k)
     \<and> (\<forall>pal \<in> set owned. \<exists>k. known (op_species_id pal) = Some k \<and> ks_generation k = 0)"

text \<open>The map only improves: what is known stays known, with a generation that never grows.\<close>

definition improves :: "known_map \<Rightarrow> known_map \<Rightarrow> bool" where
  "improves known known' \<longleftrightarrow>
     (\<forall>s k. known s = Some k \<longrightarrow> (\<exists>k'. known' s = Some k' \<and> ks_generation k' \<le> ks_generation k))"

lemma improves_refl [simp]: "improves known known"
  by (simp add: improves_def)

lemma improves_trans: "improves a b \<Longrightarrow> improves b c \<Longrightarrow> improves a c"
  unfolding improves_def by (meson order_trans)

lemma entry_ok_improves:
  assumes "entry_ok owned rules g known s k" "improves known known'"
  shows "entry_ok owned rules g known' s k"
proof (cases "ks_source k")
  case (Bred r a b)
  then obtain ka kb where k: "known a = Some ka" "known b = Some kb"
    "max (unat (ks_generation ka)) (unat (ks_generation kb)) + 1 \<le> unat (ks_generation k)"
    using assms(1) by (auto simp: entry_ok_def)
  obtain ka' kb' where k': "known' a = Some ka'" "ks_generation ka' \<le> ks_generation ka"
    "known' b = Some kb'" "ks_generation kb' \<le> ks_generation kb"
    using assms(2) k(1,2) unfolding improves_def by meson
  then have "max (unat (ks_generation ka')) (unat (ks_generation kb')) + 1 \<le> unat (ks_generation k)"
    using k(3) by (simp add: word_le_nat_alt)
  then show ?thesis using assms(1) Bred k'(1,3) by (auto simp: entry_ok_def)
qed (use assms(1) in \<open>auto simp: entry_ok_def\<close>)

lemma fst_candidate_rank [simp]: "fst (candidate_rank k) = ks_generation k"
  by (cases "ks_source k") simp_all

lemma rank_generation: "candidate_rank k \<le> candidate_rank k' \<Longrightarrow> ks_generation k \<le> ks_generation k'"
  by (auto simp: less_eq_prod_def simp del: candidate_rank.simps)

lemma next_generation:
  assumes "a \<le> MAX_GENERATIONS" "b \<le> MAX_GENERATIONS"
  shows "unat (max a b + 1) = max (unat a) (unat b) + 1"
proof -
  have "unat a \<le> 32" "unat b \<le> 32" using assms by (simp_all add: MAX_GENERATIONS_def word_le_nat_alt)
  then show ?thesis by (cases "a \<le> b") (simp_all add: max_def unat_word_ariths word_le_nat_alt)
qed

lemma known_inv_update:
  assumes inv: "known_inv owned rules g known" and "improves known (known(s \<mapsto> k))"
    and "entry_ok owned rules g known s k"
  shows "known_inv owned rules g (known(s \<mapsto> k))"
proof -
  have "entry_ok owned rules g (known(s \<mapsto> k)) s' k'" if "(known(s \<mapsto> k)) s' = Some k'" for s' k'
    using that inv assms(3) entry_ok_improves [OF _ assms(2)]
    by (auto simp: known_inv_def split: if_splits)
  moreover have "\<exists>k'. (known(s \<mapsto> k)) (op_species_id pal) = Some k' \<and> ks_generation k' = 0"
    if "pal \<in> set owned" for pal
  proof -
    obtain k0 where "known (op_species_id pal) = Some k0" "ks_generation k0 = 0"
      using inv \<open>pal \<in> set owned\<close> by (auto simp: known_inv_def)
    then show ?thesis using assms(2) unfolding improves_def by (metis word_le_0_iff)
  qed
  ultimately show ?thesis by (simp add: known_inv_def)
qed

text \<open>What a rule offers in a map, and that the map is saturated for it.\<close>

definition offer :: "u32 \<Rightarrow> known_map \<Rightarrow> BreedingRule \<Rightarrow> KnownSpecies option" where
  "offer g known rule =
     (case (known (br_parent_a rule), known (br_parent_b rule)) of
        (Some ka, Some kb) \<Rightarrow>
          (let generation = max (ks_generation ka) (ks_generation kb) + 1 in
           if g < generation then None else Some (bred_candidate generation rule))
      | _ \<Rightarrow> None)"

definition saturated :: "u32 \<Rightarrow> known_map \<Rightarrow> BreedingRule \<Rightarrow> bool" where
  "saturated g known rule \<longleftrightarrow>
     (\<forall>c. offer g known rule = Some c \<longrightarrow>
        (\<exists>k. known (br_child rule) = Some k \<and> \<not> candidate_rank c < candidate_rank k))"

lemma relax_rule_cases:
  assumes "relax_rule g budget rule st = (Inr (), st')"
  obtains (kept) "sv_known st' = sv_known st" "sv_changed st' = sv_changed st" "saturated g (sv_known st) rule"
  | (improved) c where "offer g (sv_known st) rule = Some c"
      "sv_known st' = (sv_known st)(br_child rule \<mapsto> c)" "sv_changed st'"
      "\<And>k. sv_known st (br_child rule) = Some k \<Longrightarrow> candidate_rank c < candidate_rank k"
  using assms
  by (auto simp: relax_rule_def offer_def saturated_def Let_def split: option.splits if_splits)

lemma offer_ok:
  assumes inv: "known_inv owned rules g known" and "g \<le> MAX_GENERATIONS" "rule \<in> set rules"
    and "offer g known rule = Some c"
  shows "entry_ok owned rules g known (br_child rule) c"
proof -
  obtain ka kb where k: "known (br_parent_a rule) = Some ka" "known (br_parent_b rule) = Some kb"
    "c = bred_candidate (max (ks_generation ka) (ks_generation kb) + 1) rule"
    "max (ks_generation ka) (ks_generation kb) + 1 \<le> g"
    using assms(4) by (auto simp: offer_def Let_def split: option.splits if_splits)
  have parents: "entry_ok owned rules g known (br_parent_a rule) ka" "entry_ok owned rules g known (br_parent_b rule) kb"
    using inv k(1,2) by (auto simp: known_inv_def)
  then have "ks_generation ka \<le> MAX_GENERATIONS" "ks_generation kb \<le> MAX_GENERATIONS"
    using assms(2) by (auto simp: entry_ok_def)
  note gen = next_generation [OF this]
  have "derivable owned rules (max (unat (ks_generation ka)) (unat (ks_generation kb)) + 1) (br_child rule)"
    using parents assms(3) by (intro derive_bred) (auto simp: entry_ok_def)
  then show ?thesis
    using k assms(3) gen by (auto simp: entry_ok_def bred_candidate_def)
qed

lemma relax_rule_inv:
  assumes "known_inv owned rules g (sv_known st)" "g \<le> MAX_GENERATIONS" "rule \<in> set rules"
    and "relax_rule g budget rule st = (Inr (), st')"
  shows "known_inv owned rules g (sv_known st')"
  using assms(4)
proof (cases rule: relax_rule_cases)
  case kept
  then show ?thesis using assms(1) by simp
next
  case (improved c)
  have "improves (sv_known st) ((sv_known st)(br_child rule \<mapsto> c))"
    unfolding improves_def using rank_generation [OF less_imp_le [OF improved(4)]] by (simp del: candidate_rank.simps)
  with known_inv_update [OF assms(1) this offer_ok [OF assms(1-3) improved(1)]]
  show ?thesis using improved(2) by simp
qed

lemma relax_rules_inv:
  assumes "known_inv owned rules g (sv_known st)" "g \<le> MAX_GENERATIONS" "set rs \<subseteq> set rules"
    and "try_each (relax_rule g budget) rs st = (Inr (), st')"
  shows "known_inv owned rules g (sv_known st')
     \<and> (\<not> sv_changed st' \<longrightarrow> \<not> sv_changed st \<and> sv_known st' = sv_known st \<and> (\<forall>rule \<in> set rs. saturated g (sv_known st) rule))"
  using assms
proof (induction rs arbitrary: st)
  case (Cons rule rs)
  then obtain st1 where one: "relax_rule g budget rule st = (Inr (), st1)"
    "try_each (relax_rule g budget) rs st1 = (Inr (), st')"
    by (auto split: prod.splits sum.splits)
  have "known_inv owned rules g (sv_known st1)"
    using relax_rule_inv [OF Cons.prems(1,2) _ one(1)] Cons.prems(3) by simp
  note later = Cons.IH [OF this Cons.prems(2) _ one(2)]
  from one(1) show ?case
  proof (cases rule: relax_rule_cases)
    case kept
    then show ?thesis using later Cons.prems(3) by auto
  next
    case (improved c)
    then show ?thesis using later Cons.prems(3) by auto
  qed
qed simp

lemma solve_rounds_inv:
  assumes "known_inv owned rules g (sv_known st)" "g \<le> MAX_GENERATIONS" "set rs = set rules"
    and "sv_changed st" "solve_rounds g budget rs st = (Inr (), st')"
  shows "known_inv owned rules g (sv_known st') \<and> (\<forall>rule \<in> set rules. saturated g (sv_known st') rule)"
  using assms
proof (induction g budget rs st rule: solve_rounds.induct)
  case (1 g budget rs st)
  obtain r st1 where run: "try_each (relax_rule g budget) rs (st\<lparr>sv_changed := False\<rparr>) = (r, st1)"
    by (cases "try_each (relax_rule g budget) rs (st\<lparr>sv_changed := False\<rparr>)")
  have r: "r = Inr ()" and rest: "solve_rounds g budget rs st1 = (Inr (), st')"
    using "1.prems"(4,5) run by (cases r; simp add: solve_rounds.simps [of g budget rs st])+
  have inv: "known_inv owned rules g (sv_known st1)"
    "\<not> sv_changed st1 \<longrightarrow> sv_known st1 = sv_known st \<and> (\<forall>rule \<in> set rules. saturated g (sv_known st) rule)"
    using relax_rules_inv [OF _ "1.prems"(2) _ run [unfolded r]] "1.prems"(1,3) by auto
  show ?case
  proof (cases "sv_changed st1")
    case True
    show ?thesis
      by (rule "1.IH" [OF _ run [symmetric] r inv(1) "1.prems"(2,3) True rest]) (simp add: "1.prems"(4))
  next
    case False
    then have "st' = st1" using rest by (simp add: solve_rounds.simps [of g budget rs st1])
    then show ?thesis using inv False by simp
  qed
qed

definition only_owned :: "OwnedPalSeed list \<Rightarrow> known_map \<Rightarrow> bool" where
  "only_owned owned known \<longleftrightarrow> (\<forall>s k. known s = Some k \<longrightarrow> ks_generation k = 0
     \<and> (\<exists>pal \<in> set owned. op_species_id pal = s \<and> ks_source k = Owned (op_instance_id_hex pal)))"

lemma know_owned_dom: "dom (fold know_owned ps known) = dom known \<union> op_species_id ` set ps"
proof (induction ps arbitrary: known)
  case (Cons p ps)
  have "dom (know_owned p known) = insert (op_species_id p) (dom known)"
    by (auto simp: know_owned_def split: option.split)
  with Cons.IH [of "know_owned p known"] show ?case by simp
qed simp

lemma know_owned_only:
  "\<lbrakk>only_owned owned known; set ps \<subseteq> set owned\<rbrakk> \<Longrightarrow> only_owned owned (fold know_owned ps known)"
proof (induction ps arbitrary: known)
  case (Cons p ps)
  have "only_owned owned (know_owned p known)"
    using Cons.prems by (auto simp: only_owned_def know_owned_def split: option.splits if_splits)
  then show ?case using Cons.IH Cons.prems(2) by simp
qed simp

lemma solver_start_inv:
  assumes "set ps = set owned"
  shows "known_inv owned rules g (sv_known (solver_start ps))"
proof -
  have start: "only_owned owned (sv_known (solver_start ps))"
    using know_owned_only [of owned Map.empty ps] assms by (simp add: only_owned_def solver_start_def)
  have "entry_ok owned rules g (sv_known (solver_start ps)) s k" if k: "sv_known (solver_start ps) s = Some k" for s k
  proof -
    obtain pal where "pal \<in> set owned" "op_species_id pal = s" "ks_source k = Owned (op_instance_id_hex pal)"
      "ks_generation k = 0" using start [unfolded only_owned_def, rule_format, OF k] by auto
    then show ?thesis using derive_owned [of pal owned rules] by (auto simp: entry_ok_def)
  qed
  moreover have "\<exists>k. sv_known (solver_start ps) (op_species_id pal) = Some k \<and> ks_generation k = 0"
    if "pal \<in> set owned" for pal
  proof -
    have "op_species_id pal \<in> dom (sv_known (solver_start ps))"
      using that assms by (simp add: solver_start_def know_owned_dom)
    then obtain k where "sv_known (solver_start ps) (op_species_id pal) = Some k" by blast
    then show ?thesis using start unfolding only_owned_def by blast
  qed
  ultimately show ?thesis by (simp add: known_inv_def)
qed

text \<open>In a saturated map the generations are the smallest possible, and exact along the recorded rules.\<close>

lemma saturated_complete:
  assumes inv: "known_inv owned rules g known" and g: "g \<le> MAX_GENERATIONS"
    and sat: "\<forall>rule \<in> set rules. saturated g known rule"
    and "derivable owned rules n s" "n \<le> unat g"
  obtains k where "known s = Some k" "unat (ks_generation k) \<le> n"
  using assms(4,5)
proof (induction arbitrary: thesis rule: derivable.induct)
  case (derive_owned pal)
  then show ?case using inv by (auto simp: known_inv_def)
next
  case (derive_bred rule m n)
  obtain ka where ka: "known (br_parent_a rule) = Some ka" "unat (ks_generation ka) \<le> m"
    by (rule derive_bred.IH(1)) (use derive_bred.prems(2) in auto)
  obtain kb where kb: "known (br_parent_b rule) = Some kb" "unat (ks_generation kb) \<le> n"
    by (rule derive_bred.IH(2)) (use derive_bred.prems(2) in auto)
  have "ks_generation ka \<le> MAX_GENERATIONS" "ks_generation kb \<le> MAX_GENERATIONS"
    using inv g ka(1) kb(1) unfolding known_inv_def entry_ok_def by (meson order_trans)+
  note gen = next_generation [OF this]
  let ?c = "bred_candidate (max (ks_generation ka) (ks_generation kb) + 1) rule"
  have "\<not> g < max (ks_generation ka) (ks_generation kb) + 1"
    using gen ka(2) kb(2) derive_bred.prems(2) by (simp add: word_less_nat_alt)
  then have "offer g known rule = Some ?c" using ka(1) kb(1) by (simp add: offer_def)
  then obtain k where k: "known (br_child rule) = Some k" "\<not> candidate_rank ?c < candidate_rank k"
    using sat derive_bred.hyps(1) by (auto simp: saturated_def)
  have "ks_generation k \<le> ks_generation ?c"
    using k(2) by (intro rank_generation) (simp add: not_less del: candidate_rank.simps)
  then have "unat (ks_generation k) \<le> max m n + 1"
    using gen ka(2) kb(2) by (simp add: bred_candidate_def word_le_nat_alt)
  then show ?case by (rule derive_bred.prems(1) [OF k(1)])
qed

lemma saturated_exact:
  assumes inv: "known_inv owned rules g known" and g: "g \<le> MAX_GENERATIONS"
    and sat: "\<forall>rule \<in> set rules. saturated g known rule"
    and k: "known s = Some k" "ks_source k = Bred r a b"
  obtains ka kb where "known a = Some ka" "known b = Some kb"
    "unat (ks_generation k) = max (unat (ks_generation ka)) (unat (ks_generation kb)) + 1"
proof -
  have ok: "entry_ok owned rules g known s k" using inv k(1) by (simp add: known_inv_def)
  then obtain rule where rule: "rule \<in> set rules" "br_rule_id rule = r" "br_parent_a rule = a"
    "br_parent_b rule = b" "br_child rule = s" using k(2) by (auto simp: entry_ok_def)
  from ok k(2) obtain ka kb where kab: "known a = Some ka" "known b = Some kb"
    "max (unat (ks_generation ka)) (unat (ks_generation kb)) + 1 \<le> unat (ks_generation k)" "ks_generation k \<le> g"
    by (auto simp: entry_ok_def)
  have "ks_generation ka \<le> MAX_GENERATIONS" "ks_generation kb \<le> MAX_GENERATIONS"
    using inv g kab(1,2) unfolding known_inv_def entry_ok_def by (meson order_trans)+
  note gen = next_generation [OF this]
  let ?c = "bred_candidate (max (ks_generation ka) (ks_generation kb) + 1) rule"
  have "\<not> g < max (ks_generation ka) (ks_generation kb) + 1"
    using gen kab(3,4) by (simp add: word_less_nat_alt word_le_nat_alt)
  then have "offer g known rule = Some ?c" using kab(1,2) rule by (simp add: offer_def)
  then have "\<not> candidate_rank ?c < candidate_rank k" using sat rule k(1) by (auto simp: saturated_def)
  then have "ks_generation k \<le> ks_generation ?c"
    by (intro rank_generation) (simp add: not_less del: candidate_rank.simps)
  then have "unat (ks_generation k) \<le> max (unat (ks_generation ka)) (unat (ks_generation kb)) + 1"
    using gen by (simp add: bred_candidate_def word_le_nat_alt)
  with kab show thesis by (intro that [of ka kb]) simp_all
qed

section \<open>The species a plan needs\<close>

text \<open>Parents of a recorded species, and sets closed under parents.\<close>

definition parents_in :: "known_map \<Rightarrow> string set \<Rightarrow> string \<Rightarrow> bool" where
  "parents_in known A s \<longleftrightarrow>
     (\<exists>k. known s = Some k \<and> (\<forall>r a b. ks_source k = Bred r a b \<longrightarrow> a \<in> A \<and> b \<in> A))"

inductive ancestor :: "known_map \<Rightarrow> string \<Rightarrow> string \<Rightarrow> bool" for known s where
  itself: "ancestor known s s"
| mother: "\<lbrakk>ancestor known s t; known t = Some k; ks_source k = Bred r a b\<rbrakk> \<Longrightarrow> ancestor known s a"
| father: "\<lbrakk>ancestor known s t; known t = Some k; ks_source k = Bred r a b\<rbrakk> \<Longrightarrow> ancestor known s b"

lemma ancestor_parent:
  "\<lbrakk>known s = Some k; ks_source k = Bred r a b; ancestor known a t \<or> ancestor known b t\<rbrakk> \<Longrightarrow> ancestor known s t"
proof (elim disjE)
  assume k: "known s = Some k" "ks_source k = Bred r a b"
  show "ancestor known s t" if "ancestor known a t"
    using that by induction (auto intro: ancestor.intros k)
  show "ancestor known s t" if "ancestor known b t"
    using that by induction (auto intro: ancestor.intros k)
qed

definition descending :: "known_map \<Rightarrow> bool" where
  "descending known \<longleftrightarrow> (\<forall>s k r a b. known s = Some k \<and> ks_source k = Bred r a b \<longrightarrow>
     (\<exists>ka kb. known a = Some ka \<and> known b = Some kb
        \<and> unat (ks_generation ka) < unat (ks_generation k) \<and> unat (ks_generation kb) < unat (ks_generation k)))"

lemma known_inv_descending:
  assumes "known_inv owned rules g known"
  shows "descending known"
  unfolding descending_def
proof (intro allI impI, elim conjE)
  fix s k r a b assume k: "known s = Some k" "ks_source k = Bred r a b"
  then have "entry_ok owned rules g known s k" using assms by (simp add: known_inv_def)
  with k(2) obtain ka kb where "known a = Some ka" "known b = Some kb"
    "max (unat (ks_generation ka)) (unat (ks_generation kb)) + 1 \<le> unat (ks_generation k)"
    by (auto simp: entry_ok_def)
  then show "\<exists>ka kb. known a = Some ka \<and> known b = Some kb
     \<and> unat (ks_generation ka) < unat (ks_generation k) \<and> unat (ks_generation kb) < unat (ks_generation k)"
    by (intro exI [of _ ka] exI [of _ kb]) auto
qed

lemma parents_in_mono: "parents_in known A s \<Longrightarrow> A \<subseteq> B \<Longrightarrow> parents_in known B s"
  unfolding parents_in_def by blast

text \<open>What one call adds: the species, only ancestors of it, and with each its parents.\<close>

definition collects :: "known_map \<Rightarrow> string \<Rightarrow> string list \<Rightarrow> string list \<Rightarrow> bool" where
  "collects known s out out' \<longleftrightarrow> sorted out' \<and> distinct out' \<and> set out \<subseteq> set out' \<and> s \<in> set out'
     \<and> (\<forall>t \<in> set out' - set out. ancestor known s t \<and> parents_in known (set out') t)"

lemma collects_both:
  assumes k: "known s = Some k" "ks_source k = Bred r a b" "s \<notin> set out"
    and a: "collects known a (insort s out) out1" and b: "collects known b out1 out2"
  shows "collects known s out out2"
proof -
  have self: "parents_in known (set out2) s" using k a b by (auto simp: collects_def parents_in_def)
  have first: "ancestor known s t \<and> parents_in known (set out2) t"
    if "t \<in> set out1 - set (insort s out)" for t
    using a b that ancestor_parent [where known = known, OF k(1,2)] parents_in_mono [of known "set out1" t "set out2"]
    unfolding collects_def by blast
  have second: "ancestor known s t \<and> parents_in known (set out2) t" if "t \<in> set out2 - set out1" for t
    using b that ancestor_parent [where known = known, OF k(1,2)] unfolding collects_def by blast
  have "ancestor known s t \<and> parents_in known (set out2) t" if "t \<in> set out2 - set out" for t
    using first [of t] second [of t] self ancestor.itself [of known s] that
    by (cases "t = s"; cases "t \<in> set out1") (simp_all add: set_insort_key)
  moreover have "set out \<subseteq> set out2" "s \<in> set out2" "sorted out2" "distinct out2"
    using a b unfolding collects_def by (auto simp: set_insort_key)
  ultimately show ?thesis unfolding collects_def by simp
qed

lemma collect_returns:
  assumes "descending known" "known s = Some k" "sorted out" "distinct out"
  shows "\<exists>out'. collect_required_nodes known s out = Some out' \<and> collects known s out out'"
  using assms(2-4)
proof (induction "unat (ks_generation k)" arbitrary: s k out rule: less_induct)
  case less
  show ?case
  proof (cases "s \<in> set out")
    case True
    then show ?thesis
      using less.prems by (simp add: collect_required_nodes.simps [of known s] collects_def)
  next
    case new: False
    have sd: "sorted (insort s out)" "distinct (insort s out)"
      using less.prems new by (simp_all add: sorted_insort distinct_insort)
    show ?thesis
    proof (cases "ks_source k")
      case (Owned i)
      then show ?thesis
        using less.prems new sd
        by (auto simp: collect_required_nodes.simps [of known s] collects_def parents_in_def set_insort_key
            intro: ancestor.itself)
    next
      case (Bred r a b)
      obtain ka kb where p: "known a = Some ka" "known b = Some kb"
        "unat (ks_generation ka) < unat (ks_generation k)" "unat (ks_generation kb) < unat (ks_generation k)"
        using assms(1) less.prems(1) Bred unfolding descending_def by blast
      obtain out1 where o1: "collect_required_nodes known a (insort s out) = Some out1" "collects known a (insort s out) out1"
        using less.hyps [OF p(3,1) sd] by blast
      then obtain out2 where o2: "collect_required_nodes known b out1 = Some out2" "collects known b out1 out2"
        using less.hyps [OF p(4,2), of out1] by (auto simp: collects_def)
      show ?thesis
        using collects_both [OF less.prems(1) Bred new o1(2) o2(2)] o1(1) o2(1) new less.prems(1) Bred
        by (simp add: collect_required_nodes.simps [of known s])
    qed
  qed
qed

lemma plan_node_Some:
  "known s = Some k \<Longrightarrow> plan_node known s =
     Some \<lparr>bn_species_id = s, bn_generation = ks_generation k, bn_source = ks_source k\<rparr>"
  by (simp add: plan_node_def)

lemma plan_node_member:
  "\<lbrakk>s \<in> set ss; known s = Some k\<rbrakk> \<Longrightarrow>
     \<lparr>bn_species_id = s, bn_generation = ks_generation k, bn_source = ks_source k\<rparr>
       \<in> set (map (\<lambda>s. the (plan_node known s)) ss)"
  by (force simp: plan_node_Some)

lemma those_plan_nodes:
  "(\<forall>s \<in> set ss. known s \<noteq> None) \<Longrightarrow> those (map (plan_node known) ss) = Some (map (\<lambda>s. the (plan_node known s)) ss)"
  by (induction ss) (auto simp: plan_node_def)

section \<open>The solver as a whole\<close>

lemma validated_generations:
  "validate_inputs owned rules target passives g budget = Inr () \<Longrightarrow> g \<le> MAX_GENERATIONS"
  by (auto simp: validate_inputs_def split: if_splits)

lemma set_sort_rules [simp]: "set (sort_rules rules) = set rules"
  by (simp add: sort_rules_def)

lemma set_sort_owned [simp]: "set (sort_owned owned) = set owned"
  by (simp add: sort_owned_def)

lemma solve_rounds_visits:
  "\<lbrakk>solve_rounds g budget rules st = (Inr (), st'); sv_visits st \<le> budget\<rbrakk> \<Longrightarrow> sv_visits st' \<le> budget"
proof (induction g budget rules st rule: solve_rounds.induct)
  case (1 g budget rules st)
  show ?case
  proof (cases "sv_changed st")
    case True
    obtain r st1 where run: "try_each (relax_rule g budget) rules (st\<lparr>sv_changed := False\<rparr>) = (r, st1)"
      by (cases "try_each (relax_rule g budget) rules (st\<lparr>sv_changed := False\<rparr>)")
    have r: "r = Inr ()" and rest: "solve_rounds g budget rules st1 = (Inr (), st')"
      using "1.prems"(1) True run by (cases r; simp add: solve_rounds.simps [of g budget rules st])+
    have "sv_visits st1 \<le> budget"
      using relax_rules_visits [OF run [unfolded r]] run r "1.prems"(2) by (cases "rules = []") auto
    then show ?thesis using "1.IH" [OF _ run [symmetric] r rest] True by simp
  next
    case False
    then show ?thesis using "1.prems" by (simp add: solve_rounds.simps [of g budget rules st])
  qed
qed

lemma relax_rules_error: "try_each (relax_rule g budget) rules st = (Inl e, st') \<Longrightarrow> e = BudgetExhausted"
proof (induction rules arbitrary: st)
  case (Cons rule rules)
  obtain r st1 where one: "relax_rule g budget rule st = (r, st1)" by (cases "relax_rule g budget rule st")
  then have "r = Inl e' \<Longrightarrow> e' = BudgetExhausted" for e'
    by (auto simp: relax_rule_def Let_def split: option.splits if_splits)
  then show ?case using Cons one by (cases r) auto
qed simp

lemma solve_rounds_error: "solve_rounds g budget rules st = (Inl e, st') \<Longrightarrow> e = BudgetExhausted"
proof (induction g budget rules st rule: solve_rounds.induct)
  case (1 g budget rules st)
  obtain r st1 where run: "try_each (relax_rule g budget) rules (st\<lparr>sv_changed := False\<rparr>) = (r, st1)"
    by (cases "try_each (relax_rule g budget) rules (st\<lparr>sv_changed := False\<rparr>)")
  show ?case
  proof (cases "sv_changed st")
    case changed: True
    show ?thesis
    proof (cases r)
      case (Inl e')
      then show ?thesis
        using 1(2) changed run relax_rules_error [OF run [unfolded Inl]] by (simp add: solve_rounds.simps [of g budget rules st])
    next
      case (Inr u)
      then show ?thesis
        using 1(1) [OF _ run [symmetric] Inr] 1(2) changed run by (simp add: solve_rounds.simps [of g budget rules st])
    qed
  next
    case False
    then show ?thesis using 1(2) by (simp add: solve_rounds.simps [of g budget rules st])
  qed
qed

text \<open>A search that ends without an error ends in a saturated map.\<close>

lemma solved_map:
  assumes "validate_inputs owned rules target passives g budget = Inr ()"
    and "solve_rounds g budget (sort_rules rules) (solver_start (sort_owned owned)) = (Inr (), st)"
  shows "known_inv owned rules g (sv_known st)" "\<forall>rule \<in> set rules. saturated g (sv_known st) rule"
    "g \<le> MAX_GENERATIONS" "sv_visits st \<le> budget"
proof -
  show g: "g \<le> MAX_GENERATIONS" by (rule validated_generations [OF assms(1)])
  have "known_inv owned rules g (sv_known (solver_start (sort_owned owned)))"
    by (rule solver_start_inv) simp
  from solve_rounds_inv [OF this g _ _ assms(2)]
  show "known_inv owned rules g (sv_known st)" "\<forall>rule \<in> set rules. saturated g (sv_known st) rule"
    by (simp_all add: solver_start_def)
  show "sv_visits st \<le> budget" by (rule solve_rounds_visits [OF assms(2)]) (simp add: solver_start_def)
qed

text \<open>A plan that can be carried out: every node is owned, or bred by a rule from two other nodes.\<close>

definition node_ok :: "OwnedPalSeed list \<Rightarrow> BreedingRule list \<Rightarrow> BreedingPlanNode list \<Rightarrow> BreedingPlanNode \<Rightarrow> bool" where
  "node_ok owned rules nodes node \<longleftrightarrow>
     (case bn_source node of
        Owned i \<Rightarrow> bn_generation node = 0
          \<and> (\<exists>pal \<in> set owned. op_species_id pal = bn_species_id node \<and> op_instance_id_hex pal = i)
      | Bred r a b \<Rightarrow>
          (\<exists>rule \<in> set rules. br_rule_id rule = r \<and> br_parent_a rule = a \<and> br_parent_b rule = b
             \<and> br_child rule = bn_species_id node)
          \<and> (\<exists>na \<in> set nodes. \<exists>nb \<in> set nodes. bn_species_id na = a \<and> bn_species_id nb = b
               \<and> unat (bn_generation node) = max (unat (bn_generation na)) (unat (bn_generation nb)) + 1))"

lemma collected_nodes:
  assumes inv: "known_inv owned rules g known" "g \<le> MAX_GENERATIONS" "\<forall>rule \<in> set rules. saturated g known rule"
    and "known target = Some k"
  obtains ss where "collect_required_nodes known target [] = Some ss" "sorted ss" "distinct ss" "target \<in> set ss"
    "\<forall>s \<in> set ss. known s \<noteq> None"
    "\<forall>s \<in> set ss. node_ok owned rules (map (\<lambda>s. the (plan_node known s)) ss) (the (plan_node known s))"
proof -
  obtain ss where ss: "collect_required_nodes known target [] = Some ss" "collects known target [] ss"
    using collect_returns [OF known_inv_descending [OF inv(1)] assms(4), of "[]"] by auto
  have closed: "parents_in known (set ss) s" if "s \<in> set ss" for s
    using ss(2) that by (simp add: collects_def)
  have "node_ok owned rules (map (\<lambda>s. the (plan_node known s)) ss) (the (plan_node known s))" if s: "s \<in> set ss" for s
  proof -
    obtain ks where ks: "known s = Some ks" "\<And>r a b. ks_source ks = Bred r a b \<Longrightarrow> a \<in> set ss \<and> b \<in> set ss"
      using closed [OF s] by (auto simp: parents_in_def)
    have ok: "entry_ok owned rules g known s ks" using inv(1) ks(1) by (simp add: known_inv_def)
    show ?thesis
    proof (cases "ks_source ks")
      case (Owned i)
      then show ?thesis using ok ks(1) by (auto simp: node_ok_def entry_ok_def plan_node_def)
    next
      case (Bred r a b)
      obtain ka kb where kab: "known a = Some ka" "known b = Some kb"
        "unat (ks_generation ks) = max (unat (ks_generation ka)) (unat (ks_generation kb)) + 1"
        by (rule saturated_exact [OF inv ks(1) Bred])
      note members = plan_node_member [where known = known, OF conjunct1 [OF ks(2) [OF Bred]] kab(1)]
        plan_node_member [where known = known, OF conjunct2 [OF ks(2) [OF Bred]] kab(2)]
      then have "\<exists>na \<in> set (map (\<lambda>s. the (plan_node known s)) ss). \<exists>nb \<in> set (map (\<lambda>s. the (plan_node known s)) ss).
          bn_species_id na = a \<and> bn_species_id nb = b
          \<and> unat (ks_generation ks) = max (unat (bn_generation na)) (unat (bn_generation nb)) + 1"
        using kab(3) by (intro bexI [OF _ members(1)] bexI [OF _ members(2)]) simp
      moreover have "\<exists>rule \<in> set rules. br_rule_id rule = r \<and> br_parent_a rule = a \<and> br_parent_b rule = b \<and> br_child rule = s"
        using ok Bred by (auto simp: entry_ok_def)
      ultimately show ?thesis using ks(1) Bred by (simp add: node_ok_def plan_node_def)
    qed
  qed
  then show thesis
    using ss closed by (intro that [of ss]) (auto simp: collects_def parents_in_def)
qed

section \<open>The order of the input\<close>

lemma sort_rules_cong:
  assumes "mset rules = mset rules'"
  shows "sort_rules rules = sort_rules rules'"
  unfolding sort_rules_def using assms
  by (intro sort_key_inj_key_eq) (auto simp: inj_on_def sorted_sort_key)

lemma know_owned_cong:
  assumes "map (\<lambda>pal. (op_species_id pal, op_instance_id_hex pal)) ps = map (\<lambda>pal. (op_species_id pal, op_instance_id_hex pal)) qs"
  shows "fold know_owned ps known = fold know_owned qs known"
  using assms
proof (induction ps arbitrary: qs known)
  case (Cons p ps)
  then obtain q qs' where q: "qs = q # qs'" "op_species_id p = op_species_id q" "op_instance_id_hex p = op_instance_id_hex q"
    "map (\<lambda>pal. (op_species_id pal, op_instance_id_hex pal)) ps = map (\<lambda>pal. (op_species_id pal, op_instance_id_hex pal)) qs'"
    by (cases qs) auto
  have "know_owned p known = know_owned q known" unfolding know_owned_def by (simp only: q(2,3))
  with Cons.IH [OF q(4)] q(1) show ?case by simp
qed simp

lemma sort_owned_cong:
  assumes "mset owned = mset owned'"
  shows "map (\<lambda>pal. (op_species_id pal, op_instance_id_hex pal)) (sort_owned owned)
     = map (\<lambda>pal. (op_species_id pal, op_instance_id_hex pal)) (sort_owned owned')"
proof -
  let ?key = "\<lambda>pal. (op_species_id pal, op_instance_id_hex pal)"
  have "sort (map ?key owned) = map ?key (sort_owned ps)" if "mset ps = mset owned" for ps
    unfolding sort_owned_def
    by (rule properties_for_sort) (simp add: that [symmetric], rule sorted_sort_key)
  from this [OF refl] this [OF assms [symmetric]] show ?thesis by simp
qed

lemma passive_coverage_cong:
  assumes "mset owned = mset owned'"
  shows "passive_coverage (sort_owned owned) passives = passive_coverage (sort_owned owned') passives"
proof -
  have "sort (map op_instance_id_hex (filter P (sort_owned owned))) = sort (map op_instance_id_hex (filter P (sort_owned owned')))" for P
    using assms by (intro properties_for_sort) (simp_all add: sort_owned_def)
  then show ?thesis by (simp add: passive_coverage_def)
qed

lemma validate_inputs_cong:
  assumes "mset owned = mset owned'" "mset rules = mset rules'"
  shows "validate_inputs owned rules = validate_inputs owned' rules'"
proof -
  have "length owned = length owned'" "length rules = length rules'" using assms by (metis size_mset)+
  moreover have "list_ex P owned = list_ex P owned'" "list_ex Q rules = list_ex Q rules'" for P Q
    using assms by (metis list_ex_iff set_mset_mset)+
  ultimately show ?thesis unfolding validate_inputs_def by (intro ext) (simp only:)
qed

section \<open>Properties\<close>

text \<open>
  C9: A breeding plan is as short as possible and can be carried out: the target can be had in the
  generations it states and in no fewer, and each of its nodes, listed once and in order, is an owned
  Pal or is bred by one of the rules from two other nodes, one generation after the later of them.
\<close>
theorem breeding_plan_optimal:
  assumes "solve_owned_breeding owned rules target passives g budget = Some (Inr plan)"
  shows "bp_target plan = target
     \<and> derivable owned rules (unat (bp_generations plan)) target
     \<and> (\<forall>n. derivable owned rules n target \<longrightarrow> unat (bp_generations plan) \<le> n)
     \<and> sorted (map bn_species_id (bp_nodes plan)) \<and> distinct (map bn_species_id (bp_nodes plan))
     \<and> (\<exists>node \<in> set (bp_nodes plan). bn_species_id node = target \<and> bn_generation node = bp_generations plan)
     \<and> (\<forall>node \<in> set (bp_nodes plan). node_ok owned rules (bp_nodes plan) node)"
proof -
  obtain u where ok: "validate_inputs owned rules target passives g budget = Inr ()"
    using assms by (cases "validate_inputs owned rules target passives g budget") (auto simp: solve_owned_breeding_def)
  obtain r st where "solve_rounds g budget (sort_rules rules) (solver_start (sort_owned owned)) = (r, st)"
    by (cases "solve_rounds g budget (sort_rules rules) (solver_start (sort_owned owned))")
  moreover from this assms ok have "r = Inr ()" by (cases r) (simp_all add: solve_owned_breeding_def)
  ultimately have run: "solve_rounds g budget (sort_rules rules) (solver_start (sort_owned owned)) = (Inr (), st)" by simp
  note inv = solved_map [OF ok run]
  obtain k where k: "sv_known st target = Some k"
    using assms ok run by (cases "sv_known st target") (auto simp: solve_owned_breeding_def)
  obtain ss where ss: "collect_required_nodes (sv_known st) target [] = Some ss" "sorted ss" "distinct ss"
    "target \<in> set ss" "\<forall>s \<in> set ss. sv_known st s \<noteq> None"
    "\<forall>s \<in> set ss. node_ok owned rules (map (\<lambda>s. the (plan_node (sv_known st) s)) ss) (the (plan_node (sv_known st) s))"
    by (rule collected_nodes [OF inv(1,3,2) k])
  have plan: "bp_target plan = target" "bp_generations plan = ks_generation k"
    "bp_nodes plan = map (\<lambda>s. the (plan_node (sv_known st) s)) ss"
    using assms ok run k ss(1) those_plan_nodes [OF ss(5)] by (auto simp: solve_owned_breeding_def Let_def)
  have "map bn_species_id (bp_nodes plan) = ss"
    unfolding plan(3) using ss(5) by (intro nth_equalityI) (auto simp: plan_node_def all_set_conv_all_nth)
  moreover have best: "unat (ks_generation k) \<le> n" if "derivable owned rules n target" for n
  proof (cases "n \<le> unat g")
    case True
    from saturated_complete [OF inv(1,3,2) that True] show ?thesis using k by auto
  next
    case False
    have "ks_generation k \<le> g" using inv(1) k by (auto simp: known_inv_def entry_ok_def)
    then show ?thesis using False by (simp add: word_le_nat_alt)
  qed
  moreover have "derivable owned rules (unat (ks_generation k)) target"
    using inv(1) k by (auto simp: known_inv_def entry_ok_def)
  moreover have "\<exists>node \<in> set (bp_nodes plan). bn_species_id node = target \<and> bn_generation node = bp_generations plan"
    unfolding plan using ss(4) k by (intro bexI [OF _ plan_node_member [where known = "sv_known st", OF ss(4) k]]) simp
  ultimately show ?thesis using ss(2,3,6) plan by auto
qed

definition sample_owned :: "OwnedPalSeed list" where
  "sample_owned = [\<lparr>op_instance_id_hex = replicate 32 CHR ''0'', op_species_id = ''A'', op_passive_ids = []\<rparr>]"

definition sample_rules :: "BreedingRule list" where
  "sample_rules = [\<lparr>br_rule_id = ''r'', br_parent_a = ''A'', br_parent_b = ''A'', br_child = ''B''\<rparr>]"

lemma sample_plan:
  obtains plan where "solve_owned_breeding sample_owned sample_rules ''B'' [] 4 10 = Some (Inr plan)"
    "bp_generations plan = 1"
proof -
  let ?run = "solve_rounds 4 10 (sort_rules sample_rules) (solver_start (sort_owned sample_owned))"
  have valid: "validate_inputs sample_owned sample_rules ''B'' [] 4 10 = Inr ()"
    by (simp add: validate_inputs_def sample_owned_def sample_rules_def MAX_OWNED_PALS_def MAX_RULES_def
        MAX_GENERATIONS_def MAX_NODE_BUDGET_def valid_id_def valid_hex_id_def is_ascii_hexdigit_def is_ascii_def
        is_ascii_alphanumeric_def is_ascii_digit_def is_ascii_lower_def is_ascii_upper_def list_all_iff)
  let ?k = "bred_candidate 1 (hd sample_rules)"
  let ?known = "[''A'' \<mapsto> \<lparr>ks_generation = 0, ks_source = Owned (replicate 32 CHR ''0'')\<rparr>, ''B'' \<mapsto> ?k]"
  have sorted: "sort_rules sample_rules = sample_rules" "sort_owned sample_owned = sample_owned"
    by (simp_all add: sort_rules_def sort_owned_def sample_rules_def sample_owned_def)
  have run: "?run = (Inr (), \<lparr>sv_known = ?known, sv_visits = 2, sv_changed = False\<rparr>)"
    unfolding sorted
    by (simp add: solve_rounds.simps relax_rule_def sample_rules_def sample_owned_def solver_start_def know_owned_def
        bred_candidate_def checked_add_def Let_def)
  have req: "collect_required_nodes ?known ''B'' [] = Some [''A'', ''B'']"
    by (simp add: collect_required_nodes.simps sample_rules_def bred_candidate_def)
  have "\<exists>plan. solve_owned_breeding sample_owned sample_rules ''B'' [] 4 10 = Some (Inr plan) \<and> bp_generations plan = 1"
    using valid run req by (simp add: solve_owned_breeding_def plan_node_def bred_candidate_def Let_def)
  then show thesis using that by blast
qed

theorem breeding_plan_optimal_witness:
  "derivable sample_owned sample_rules 1 ''B'' \<and> \<not> derivable sample_owned sample_rules 0 ''B''"
proof -
  obtain plan where "solve_owned_breeding sample_owned sample_rules ''B'' [] 4 10 = Some (Inr plan)"
    "bp_generations plan = 1" by (rule sample_plan)
  with breeding_plan_optimal [OF this(1)] show ?thesis by auto
qed

text \<open>
  C19: The solver always returns, with one of four outcomes: an error of the input checks, a budget
  that ran out, a plan within the budget, or the answer that the target cannot be bred, which is
  right for every number of generations up to the limit.
\<close>
theorem breeding_outcomes:
  "case solve_owned_breeding owned rules target passives g budget of
     None \<Rightarrow> False
   | Some (Inr plan) \<Rightarrow> bp_node_visits plan \<le> budget
   | Some (Inl e) \<Rightarrow>
       validate_inputs owned rules target passives g budget = Inl e
       \<or> validate_inputs owned rules target passives g budget = Inr ()
         \<and> (e = BudgetExhausted \<or> e = Unreachable \<and> \<not> (\<exists>n \<le> unat g. derivable owned rules n target))"
proof (cases "validate_inputs owned rules target passives g budget")
  case (Inl e)
  then show ?thesis by (simp add: solve_owned_breeding_def)
next
  case ok: (Inr u)
  obtain r st where run: "solve_rounds g budget (sort_rules rules) (solver_start (sort_owned owned)) = (r, st)"
    by (cases "solve_rounds g budget (sort_rules rules) (solver_start (sort_owned owned))")
  show ?thesis
  proof (cases r)
    case (Inl e)
    then have "e = BudgetExhausted" using solve_rounds_error [OF run [unfolded Inl]] by simp
    then show ?thesis using ok run Inl by (simp add: solve_owned_breeding_def)
  next
    case (Inr v)
    have ok': "validate_inputs owned rules target passives g budget = Inr ()" using ok by simp
    have run': "solve_rounds g budget (sort_rules rules) (solver_start (sort_owned owned)) = (Inr (), st)"
      using run Inr by simp
    note inv = solved_map [OF ok' run']
    show ?thesis
    proof (cases "sv_known st target")
      case None
      have "unat g < n" if "derivable owned rules n target" for n
      proof (rule ccontr)
        assume "\<not> unat g < n"
        then show False using saturated_complete [OF inv(1,3,2) that] None by force
      qed
      then have "\<not> (\<exists>n \<le> unat g. derivable owned rules n target)" by (meson leD)
      then show ?thesis using ok' run' None by (simp add: solve_owned_breeding_def)
    next
      case (Some k)
      obtain ss where "collect_required_nodes (sv_known st) target [] = Some ss" "\<forall>s \<in> set ss. sv_known st s \<noteq> None"
        by (rule collected_nodes [OF inv(1,3,2) Some])
      then show ?thesis
        using ok' run' Some those_plan_nodes inv(4) by (simp add: solve_owned_breeding_def Let_def)
    qed
  qed
qed

text \<open>
  The plan is deterministic: it does not depend on the order in which the owned Pals and the
  rules are given.
\<close>
lemma breeding_order_irrelevant:
  assumes "mset owned = mset owned'" "mset rules = mset rules'"
  shows "solve_owned_breeding owned rules target passives g budget = solve_owned_breeding owned' rules' target passives g budget"
proof -
  have "solver_start (sort_owned owned) = solver_start (sort_owned owned')"
    unfolding solver_start_def by (simp add: know_owned_cong [OF sort_owned_cong [OF assms(1)]])
  then show ?thesis
    unfolding solve_owned_breeding_def
    by (simp only: validate_inputs_cong [OF assms] sort_rules_cong [OF assms(2)] passive_coverage_cong [OF assms(1)] Let_def)
qed

lemma breeding_order_irrelevant_example:
  "solve_owned_breeding (sample_owned @ []) (sample_rules @ sample_rules @ []) ''B'' [] 4 10
     = solve_owned_breeding ([] @ sample_owned) ((sample_rules @ []) @ sample_rules) ''B'' [] 4 10"
  by (rule breeding_order_irrelevant) simp_all

end
