(* ===== verification/Wire_Common.thy ===== *)
theory Wire_Common
  imports Pal_Prelude "HOL-Library.Multiset" "HOL-Library.Product_Lexorder"
begin

text \<open>
  The parts of \<open>crates/pal-wire/src/canonical.rs\<close> that snapshots and cloud projections share: the error,
  the checks of identifiers, counts and enumerations, the binary keys of entries, and the sums over
  the entries of a base.  The enumerations are those of \<open>proto/palcompanion/v2/profile.proto\<close> and
  \<open>sync.proto\<close>; a message holds their number.

  A \<open>usize\<close> is a natural number.  The order of byte strings and texts is the lexicographic one, that of
  an \<open>i32\<close> the signed one.
\<close>

section \<open>Errors and bounds\<close>

datatype ProjectionSectionKind =
    PskUnspecified | PskCharacter | PskInventory | PskEquipment | PskPals | PskBases | PskProgression

datatype CanonicalError =
    MissingField string
  | InvalidLength string nat nat
  | InvalidTextId string
  | InvalidEnum string i32
  | InvalidValue string string
  | TooManyEntries string nat nat
  | DuplicateSemanticKey string bytes
  | IntegerOverflow string
  | ContentTooLarge nat nat
  | ProjectionEntryTooLarge ProjectionSectionKind bytes nat
  | TooManyProjectionPages nat nat
  | ProjectionTransportTooLarge u64 u64

definition MAX_PROJECTION_PAGE_ENTRIES :: nat where "MAX_PROJECTION_PAGE_ENTRIES = 250"
definition MAX_PROJECTION_PAGE_ENCODED_LEN :: nat where "MAX_PROJECTION_PAGE_ENCODED_LEN = 4194304"
definition MAX_PROJECTION_PAGE_COUNT :: nat where "MAX_PROJECTION_PAGE_COUNT = 2048"
definition MAX_CANONICAL_CONTENT_LEN :: nat where "MAX_CANONICAL_CONTENT_LEN = 134217728"
definition MAX_INVENTORY_ENTRIES :: nat where "MAX_INVENTORY_ENTRIES = 100000"
definition MAX_EQUIPMENT_ENTRIES :: nat where "MAX_EQUIPMENT_ENTRIES = 256"
definition MAX_PAL_ENTRIES :: nat where "MAX_PAL_ENTRIES = 10000"
definition MAX_PASSIVE_IDS_PER_PAL :: nat where "MAX_PASSIVE_IDS_PER_PAL = 64"
definition MAX_ACTIVE_SKILL_IDS_PER_PAL :: nat where "MAX_ACTIVE_SKILL_IDS_PER_PAL = 256"
definition MAX_LEARNED_SKILL_IDS_PER_PAL :: nat where "MAX_LEARNED_SKILL_IDS_PER_PAL = 256"
definition MAX_BASE_ENTRIES :: nat where "MAX_BASE_ENTRIES = 256"
definition MAX_FACILITIES_PER_BASE :: nat where "MAX_FACILITIES_PER_BASE = 4096"
definition MAX_FACILITIES_TOTAL :: nat where "MAX_FACILITIES_TOTAL = 100000"
definition MAX_ASSIGNED_PALS_TOTAL :: nat where "MAX_ASSIGNED_PALS_TOTAL = 10000"
definition MAX_STORAGE_ITEMS_PER_BASE :: nat where "MAX_STORAGE_ITEMS_PER_BASE = 8192"
definition MAX_STORAGE_ITEMS_TOTAL :: nat where "MAX_STORAGE_ITEMS_TOTAL = 100000"
definition MAX_PROGRESSION_ENTRIES :: nat where "MAX_PROGRESSION_ENTRIES = 250000"

section \<open>Enumerations\<close>

datatype SnapshotCompleteness =
    ScUnspecified | ScComplete | ScPartial | ScUnavailable | ScUnknown

datatype SnapshotSectionKind =
    SskUnspecified | SskCharacter | SskInventory | SskEquipment | SskPals | SskBases | SskProgression

datatype InventoryContainerKind = IckUnspecified | IckCharacter | IckPaldeck | IckBase

datatype EquipmentSlotKind =
    EskUnspecified | EskWeapon | EskHelmet | EskArmor | EskGlider | EskAccessory

datatype PalGender = PgUnspecified | PgMale | PgFemale | PgGenderless

datatype PalContainerKind = PckUnspecified | PckParty | PckPalbox | PckBase | PckViewingCage

datatype ProjectionCompleteness =
    PcUnspecified | PcComplete | PcPartial | PcUnavailable | PcUnknown

datatype CloudProgressionUnlockKind =
    CpuUnspecified | CpuTechnology | CpuFastTravel | CpuTower | CpuBoss | CpuMission
  | CpuPaldexCapture | CpuMapRegion | CpuCollectible | CpuBaseResearch

fun SnapshotCompleteness_i32 :: "SnapshotCompleteness \<Rightarrow> i32" where
  "SnapshotCompleteness_i32 ScUnspecified = 0"
| "SnapshotCompleteness_i32 ScComplete = 1"
| "SnapshotCompleteness_i32 ScPartial = 2"
| "SnapshotCompleteness_i32 ScUnavailable = 3"
| "SnapshotCompleteness_i32 ScUnknown = 4"

fun SnapshotSectionKind_i32 :: "SnapshotSectionKind \<Rightarrow> i32" where
  "SnapshotSectionKind_i32 SskUnspecified = 0"
| "SnapshotSectionKind_i32 SskCharacter = 1"
| "SnapshotSectionKind_i32 SskInventory = 2"
| "SnapshotSectionKind_i32 SskEquipment = 3"
| "SnapshotSectionKind_i32 SskPals = 4"
| "SnapshotSectionKind_i32 SskBases = 5"
| "SnapshotSectionKind_i32 SskProgression = 6"

fun ProjectionSectionKind_i32 :: "ProjectionSectionKind \<Rightarrow> i32" where
  "ProjectionSectionKind_i32 PskUnspecified = 0"
| "ProjectionSectionKind_i32 PskCharacter = 1"
| "ProjectionSectionKind_i32 PskInventory = 2"
| "ProjectionSectionKind_i32 PskEquipment = 3"
| "ProjectionSectionKind_i32 PskPals = 4"
| "ProjectionSectionKind_i32 PskBases = 5"
| "ProjectionSectionKind_i32 PskProgression = 6"

fun InventoryContainerKind_i32 :: "InventoryContainerKind \<Rightarrow> i32" where
  "InventoryContainerKind_i32 IckUnspecified = 0"
| "InventoryContainerKind_i32 IckCharacter = 1"
| "InventoryContainerKind_i32 IckPaldeck = 2"
| "InventoryContainerKind_i32 IckBase = 3"

fun EquipmentSlotKind_i32 :: "EquipmentSlotKind \<Rightarrow> i32" where
  "EquipmentSlotKind_i32 EskUnspecified = 0"
| "EquipmentSlotKind_i32 EskWeapon = 1"
| "EquipmentSlotKind_i32 EskHelmet = 2"
| "EquipmentSlotKind_i32 EskArmor = 3"
| "EquipmentSlotKind_i32 EskGlider = 4"
| "EquipmentSlotKind_i32 EskAccessory = 5"

fun PalGender_i32 :: "PalGender \<Rightarrow> i32" where
  "PalGender_i32 PgUnspecified = 0"
| "PalGender_i32 PgMale = 1"
| "PalGender_i32 PgFemale = 2"
| "PalGender_i32 PgGenderless = 3"

fun PalContainerKind_i32 :: "PalContainerKind \<Rightarrow> i32" where
  "PalContainerKind_i32 PckUnspecified = 0"
| "PalContainerKind_i32 PckParty = 1"
| "PalContainerKind_i32 PckPalbox = 2"
| "PalContainerKind_i32 PckBase = 3"
| "PalContainerKind_i32 PckViewingCage = 4"

fun ProjectionCompleteness_i32 :: "ProjectionCompleteness \<Rightarrow> i32" where
  "ProjectionCompleteness_i32 PcUnspecified = 0"
| "ProjectionCompleteness_i32 PcComplete = 1"
| "ProjectionCompleteness_i32 PcPartial = 2"
| "ProjectionCompleteness_i32 PcUnavailable = 3"
| "ProjectionCompleteness_i32 PcUnknown = 4"

fun CloudProgressionUnlockKind_i32 :: "CloudProgressionUnlockKind \<Rightarrow> i32" where
  "CloudProgressionUnlockKind_i32 CpuUnspecified = 0"
| "CloudProgressionUnlockKind_i32 CpuTechnology = 1"
| "CloudProgressionUnlockKind_i32 CpuFastTravel = 2"
| "CloudProgressionUnlockKind_i32 CpuTower = 3"
| "CloudProgressionUnlockKind_i32 CpuBoss = 4"
| "CloudProgressionUnlockKind_i32 CpuMission = 5"
| "CloudProgressionUnlockKind_i32 CpuPaldexCapture = 6"
| "CloudProgressionUnlockKind_i32 CpuMapRegion = 7"
| "CloudProgressionUnlockKind_i32 CpuCollectible = 8"
| "CloudProgressionUnlockKind_i32 CpuBaseResearch = 9"

definition nonzero_enum :: "string \<Rightarrow> i32 \<Rightarrow> (i32 \<Rightarrow> 'v option) \<Rightarrow> CanonicalError + 'v" where
  "nonzero_enum field value parse =
     (if value = 0 then Inl (InvalidEnum field value)
      else case parse value of None \<Rightarrow> Inl (InvalidEnum field value) | Some v \<Rightarrow> Inr v)"

definition snapshot_completeness :: "string \<Rightarrow> i32 \<Rightarrow> CanonicalError + SnapshotCompleteness" where
  "snapshot_completeness field value = nonzero_enum field value
     (enum_try_from SnapshotCompleteness_i32
        [ScUnspecified, ScComplete, ScPartial, ScUnavailable, ScUnknown])"

definition snapshot_section_kind :: "string \<Rightarrow> i32 \<Rightarrow> CanonicalError + SnapshotSectionKind" where
  "snapshot_section_kind field value = nonzero_enum field value
     (enum_try_from SnapshotSectionKind_i32
        [SskUnspecified, SskCharacter, SskInventory, SskEquipment, SskPals, SskBases, SskProgression])"

definition inventory_container_kind :: "string \<Rightarrow> i32 \<Rightarrow> CanonicalError + InventoryContainerKind" where
  "inventory_container_kind field value = nonzero_enum field value
     (enum_try_from InventoryContainerKind_i32 [IckUnspecified, IckCharacter, IckPaldeck, IckBase])"

definition equipment_slot_kind :: "string \<Rightarrow> i32 \<Rightarrow> CanonicalError + EquipmentSlotKind" where
  "equipment_slot_kind field value = nonzero_enum field value
     (enum_try_from EquipmentSlotKind_i32
        [EskUnspecified, EskWeapon, EskHelmet, EskArmor, EskGlider, EskAccessory])"

definition pal_container_kind :: "string \<Rightarrow> i32 \<Rightarrow> CanonicalError + PalContainerKind" where
  "pal_container_kind field value = nonzero_enum field value
     (enum_try_from PalContainerKind_i32
        [PckUnspecified, PckParty, PckPalbox, PckBase, PckViewingCage])"

definition pal_gender :: "string \<Rightarrow> i32 \<Rightarrow> CanonicalError + PalGender" where
  "pal_gender field value = nonzero_enum field value
     (enum_try_from PalGender_i32 [PgUnspecified, PgMale, PgFemale, PgGenderless])"

definition projection_completeness :: "string \<Rightarrow> i32 \<Rightarrow> CanonicalError + ProjectionCompleteness" where
  "projection_completeness field value = nonzero_enum field value
     (enum_try_from ProjectionCompleteness_i32
        [PcUnspecified, PcComplete, PcPartial, PcUnavailable, PcUnknown])"

definition progression_unlock_kind ::
  "string \<Rightarrow> i32 \<Rightarrow> CanonicalError + CloudProgressionUnlockKind" where
  "progression_unlock_kind field value = nonzero_enum field value
     (enum_try_from CloudProgressionUnlockKind_i32
        [CpuUnspecified, CpuTechnology, CpuFastTravel, CpuTower, CpuBoss, CpuMission,
         CpuPaldexCapture, CpuMapRegion, CpuCollectible, CpuBaseResearch])"

section \<open>Checks\<close>

definition required :: "'v option \<Rightarrow> string \<Rightarrow> CanonicalError + 'v" where
  "required value field = (case value of None \<Rightarrow> Inl (MissingField field) | Some v \<Rightarrow> Inr v)"

definition validate_len :: "string \<Rightarrow> bytes \<Rightarrow> nat \<Rightarrow> CanonicalError + unit" where
  "validate_len field value expected =
     (if length value = expected then Inr () else Inl (InvalidLength field expected (length value)))"

definition validate_text_id :: "string \<Rightarrow> string \<Rightarrow> CanonicalError + unit" where
  "validate_text_id field value =
     (if value = [] \<or> length value > 128 \<or> \<not> is_trimmed value \<or> \<not> is_ascii value
         \<or> \<not> list_all (\<lambda>c. is_ascii_alphanumeric c
              \<or> c \<in> {CHR ''_'', CHR ''-'', CHR ''.'', CHR '':''}) value
      then Inl (InvalidTextId field) else Inr ())"

definition validate_text_ids :: "string \<Rightarrow> string list \<Rightarrow> CanonicalError + unit" where
  "validate_text_ids field values = check_each (validate_text_id field) values"

definition check_count :: "string \<Rightarrow> nat \<Rightarrow> nat \<Rightarrow> CanonicalError + unit" where
  "check_count field actual maximum =
     (if actual \<le> maximum then Inr () else Inl (TooManyEntries field maximum actual))"

definition check_content_length :: "nat \<Rightarrow> CanonicalError + unit" where
  "check_content_length encoded_length =
     (if encoded_length \<le> MAX_CANONICAL_CONTENT_LEN then Inr ()
      else Inl (ContentTooLarge encoded_length MAX_CANONICAL_CONTENT_LEN))"

definition reject_duplicate ::
  "bytes set \<Rightarrow> string \<Rightarrow> bytes \<Rightarrow> (CanonicalError + unit) \<times> bytes set" where
  "reject_duplicate keys field stable_key =
     (if stable_key \<notin> keys then (Inr (), insert stable_key keys)
      else (Inl (DuplicateSemanticKey field stable_key), insert stable_key keys))"

definition sort_dedup :: "'v::linorder list \<Rightarrow> 'v list" where
  "sort_dedup values = remdups_adj (sort values)"

definition validate_base_location :: "string \<Rightarrow> i32 \<Rightarrow> bytes option \<Rightarrow> CanonicalError + unit" where
  "validate_base_location field container_kind base_id =
     (if container_kind = PalContainerKind_i32 PckBase
      then (case base_id of
              None \<Rightarrow> Inl (MissingField field)
            | Some base_id \<Rightarrow> validate_len field base_id 16)
      else if base_id \<noteq> None
      then Inl (InvalidValue field ''base_id is allowed only for a base-assigned Pal'')
      else Inr ())"

section \<open>Keys\<close>

definition inventory_key :: "i32 \<Rightarrow> u32 \<Rightarrow> u32 \<Rightarrow> bytes" where
  "inventory_key container_kind container_ordinal slot_index =
     u32_to_be_bytes container_kind @ u32_to_be_bytes container_ordinal @ u32_to_be_bytes slot_index"

definition equipment_key :: "i32 \<Rightarrow> u32 \<Rightarrow> bytes" where
  "equipment_key slot_kind slot_index = u32_to_be_bytes slot_kind @ u32_to_be_bytes slot_index"

definition pal_location_key :: "i32 \<Rightarrow> u32 \<Rightarrow> u32 \<Rightarrow> bytes option \<Rightarrow> bytes" where
  "pal_location_key container_kind container_ordinal slot_index base_id =
     u32_to_be_bytes container_kind @ u32_to_be_bytes container_ordinal @ u32_to_be_bytes slot_index
     @ (case base_id of Some value \<Rightarrow> 1 # value | None \<Rightarrow> [0])"

definition progression_key :: "i32 \<Rightarrow> string \<Rightarrow> bytes" where
  "progression_key kind unlock_id = u32_to_be_bytes kind @ [0] @ map of_char unlock_id"

section \<open>Sums per identifier\<close>

text \<open>
  The loop \<open>*count = count.checked_add(...)\<close> over a \<open>BTreeMap\<close>, which the code spells out for facilities
  and storage items of snapshots and of projections: the map is a list of its entries in order.
\<close>

fun tally_entry :: "string \<Rightarrow> 'n::len word \<Rightarrow> (string \<times> 'n word) list \<Rightarrow> (string \<times> 'n word) list option" where
  "tally_entry k n [] = map_option (\<lambda>c. [(k, c)]) (checked_add 0 n)"
| "tally_entry k n ((k', m) # rest) =
     (if k < k' then map_option (\<lambda>c. (k, c) # (k', m) # rest) (checked_add 0 n)
      else if k = k' then map_option (\<lambda>c. (k, c) # rest) (checked_add m n)
      else map_option (Cons (k', m)) (tally_entry k n rest))"

fun tally :: "string \<Rightarrow> (string \<times> 'n::len word) list \<Rightarrow> (string \<times> 'n word) list
    \<Rightarrow> CanonicalError + (string \<times> 'n word) list" where
  "tally field [] sums = Inr sums"
| "tally field ((k, n) # rest) sums =
     (case tally_entry k n sums of
        None \<Rightarrow> Inl (IntegerOverflow field)
      | Some sums' \<Rightarrow> tally field rest sums')"


section \<open>Lemmas on the checks\<close>

named_theorems wire_checks

definition text_id :: "string \<Rightarrow> bool" where
  "text_id value = (value \<noteq> [] \<and> length value \<le> 128
     \<and> list_all (\<lambda>c. is_ascii_alphanumeric c
          \<or> c \<in> {CHR ''_'', CHR ''-'', CHR ''.'', CHR '':''}) value)"

lemma id_char_plain:
  assumes "is_ascii_alphanumeric c \<or> c \<in> {CHR ''_'', CHR ''-'', CHR ''.'', CHR '':''}"
  shows "32 < (of_char c :: nat)" "(of_char c :: nat) < 128"
  using assms
  by (auto simp: is_ascii_alphanumeric_def is_ascii_digit_def is_ascii_lower_def is_ascii_upper_def Let_def)

lemma not_blank: "32 < a \<Longrightarrow> a < 128 \<Longrightarrow> \<not> blank_bytes (a # rest)"
  by (simp split: list.split)

lemma text_id_trimmed: "text_id v \<Longrightarrow> is_trimmed v \<and> is_ascii v"
proof -
  assume v: "text_id v"
  have plain: "32 < (of_char c :: nat) \<and> of_char c < (128 :: nat)" if "c \<in> set v" for c
    using v that id_char_plain [of c] by (auto simp: text_id_def list_all_iff)
  have head: "\<not> blank_bytes (map of_char w)" if "w \<noteq> []" "set w \<subseteq> set v" for w
  proof -
    obtain c r where "w = c # r" using \<open>w \<noteq> []\<close> by (cases w) auto
    then show ?thesis using that plain [of c] not_blank [of "of_char c"] by (simp del: blank_bytes.simps)
  qed
  have ends: "\<not> blank_bytes (map of_char (take k v)) \<and> \<not> blank_bytes (map of_char (drop (length v - k) v))"
    if "0 < k" "k \<le> length v" for k
    using that head [of "take k v"] head [of "drop (length v - k) v"]
    by (cases "v = []") (simp_all add: set_take_subset set_drop_subset)
  show ?thesis
    using plain ends [of "Suc 0"] ends [of 2] ends [of 3]
    by (auto simp: Suc_le_eq is_trimmed_def is_ascii_def list_all_iff take_map drop_map not_less)
qed

lemma validate_text_id_Inr [wire_checks]: "validate_text_id field v = Inr u \<longleftrightarrow> text_id v"
  using text_id_trimmed [of v] by (auto simp: validate_text_id_def text_id_def)

lemma validate_text_ids_Inr [wire_checks]: "validate_text_ids field vs = Inr u \<longleftrightarrow> (\<forall>v\<in>set vs. text_id v)"
  by (simp add: validate_text_ids_def check_each_Inr wire_checks)

lemma validate_len_Inr [wire_checks]: "validate_len field v n = Inr u \<longleftrightarrow> length v = n"
  by (simp add: validate_len_def)

lemma check_count_Inr [wire_checks]: "check_count field a m = Inr u \<longleftrightarrow> a \<le> m"
  by (simp add: check_count_def)

lemma check_content_length_Inr [wire_checks]:
  "check_content_length n = Inr u \<longleftrightarrow> n \<le> MAX_CANONICAL_CONTENT_LEN"
  by (simp add: check_content_length_def)

lemma required_Inr [wire_checks]: "required v field = Inr x \<longleftrightarrow> v = Some x"
  by (simp add: required_def split: option.split)

lemma nonzero_enum_Inr:
  assumes "distinct (map number variants)" "v \<in> set variants"
  shows "nonzero_enum field raw (enum_try_from number variants) = Inr v \<longleftrightarrow> raw = number v \<and> raw \<noteq> 0"
  using enum_try_from_iff [OF assms, of raw] by (auto simp: nonzero_enum_def split: option.splits)

lemma container_kinds [wire_checks]:
  "(\<exists>k. inventory_container_kind field v = Inr k) \<longleftrightarrow> v \<in> {1, 2, 3}"
  "(\<exists>k. equipment_slot_kind field v = Inr k) \<longleftrightarrow> v \<in> {1, 2, 3, 4, 5}"
  "(\<exists>k. pal_container_kind field v = Inr k) \<longleftrightarrow> v \<in> {1, 2, 3, 4}"
  "(\<exists>k. pal_gender field v = Inr k) \<longleftrightarrow> v \<in> {1, 2, 3}"
  "(\<exists>k. progression_unlock_kind field v = Inr k) \<longleftrightarrow> v \<in> {1, 2, 3, 4, 5, 6, 7, 8, 9}"
  by (auto simp: inventory_container_kind_def equipment_slot_kind_def pal_container_kind_def pal_gender_def
      progression_unlock_kind_def nonzero_enum_def enum_try_from_def)

lemma snapshot_completeness_Inr [wire_checks]:
  "snapshot_completeness field v = Inr c \<longleftrightarrow> v = SnapshotCompleteness_i32 c \<and> v \<noteq> 0"
  unfolding snapshot_completeness_def by (rule nonzero_enum_Inr) (simp, cases c, simp_all)

lemma snapshot_section_kind_Inr [wire_checks]:
  "snapshot_section_kind field v = Inr c \<longleftrightarrow> v = SnapshotSectionKind_i32 c \<and> v \<noteq> 0"
  unfolding snapshot_section_kind_def by (rule nonzero_enum_Inr) (simp, cases c, simp_all)

lemma projection_completeness_Inr [wire_checks]:
  "projection_completeness field v = Inr c \<longleftrightarrow> v = ProjectionCompleteness_i32 c \<and> v \<noteq> 0"
  unfolding projection_completeness_def by (rule nonzero_enum_Inr) (simp, cases c, simp_all)

lemma reject_duplicate_simps [simp]:
  "fst (reject_duplicate keys field k) = Inr u \<longleftrightarrow> k \<notin> keys"
  "snd (reject_duplicate keys field k) = insert k keys"
  by (simp_all add: reject_duplicate_def)

text \<open>
  A loop that checks each entry and refuses one that clashes with an earlier entry succeeds iff every
  entry is in order and no two clash.
\<close>

lemma try_each_fresh:
  assumes body: "\<And>x s. fst (body x s) = Inr () \<longleftrightarrow> ok x \<and> fresh x s"
    and step: "\<And>x s y. fst (body x s) = Inr () \<Longrightarrow> fresh y (snd (body x s)) \<longleftrightarrow> fresh y s \<and> \<not> clash x y"
  shows "fst (try_each body xs s) = Inr () \<longleftrightarrow>
    (\<forall>x\<in>set xs. ok x \<and> fresh x s) \<and> sorted_wrt (\<lambda>x y. \<not> clash x y) xs"
proof (induction xs arbitrary: s)
  case (Cons x xs)
  obtain r s' where run: "body x s = (r, s')" by (cases "body x s")
  show ?case
  proof (cases "ok x \<and> fresh x s")
    case True
    then have r: "r = Inr ()" using body [of x s] run by simp
    have "fresh y s' \<longleftrightarrow> fresh y s \<and> \<not> clash x y" for y using step [of x s y] run r by simp
    then show ?thesis using True Cons.IH [of s'] run r by auto
  next
    case False
    then obtain e where "r = Inl e" using body [of x s] run by (cases r) auto
    then show ?thesis using False run by auto
  qed
qed simp

lemma try_each_state:
  assumes "\<And>x s. fst (body x s) = Inr () \<Longrightarrow> snd (body x s) = upd x s"
  shows "fst (try_each body xs s) = Inr () \<Longrightarrow> snd (try_each body xs s) = fold upd xs s"
proof (induction xs arbitrary: s)
  case (Cons x xs)
  then show ?case using assms [of x s] by (cases "body x s") (auto split: sum.splits)
qed simp

lemma no_clash_keys: "sorted_wrt (\<lambda>x y. key x \<noteq> key y) xs \<longleftrightarrow> distinct (map key xs)"
  by (induction xs) auto

lemma no_clash_both:
  "sorted_wrt (\<lambda>x y. key x \<noteq> key y \<and> key' x \<noteq> key' y) xs \<longleftrightarrow>
     distinct (map key xs) \<and> distinct (map key' xs)"
  by (induction xs) auto

lemma keyed_loop:
  assumes "\<And>x keys. fst (body x keys) = Inr () \<longleftrightarrow> ok x \<and> key x \<notin> keys"
    and "\<And>x keys. fst (body x keys) = Inr () \<Longrightarrow> snd (body x keys) = insert (key x) keys"
  shows "fst (try_each body xs {}) = Inr u \<longleftrightarrow> (\<forall>x\<in>set xs. ok x) \<and> distinct (map key xs)"
proof -
  have "fst (try_each body xs {}) = Inr () \<longleftrightarrow>
      (\<forall>x\<in>set xs. ok x \<and> key x \<notin> {}) \<and> sorted_wrt (\<lambda>x y. \<not> key x = key y) xs"
    by (rule try_each_fresh [where fresh = "\<lambda>x keys. key x \<notin> keys"]) (auto simp: assms(1), auto simp: assms)
  then show ?thesis by (simp add: no_clash_keys)
qed

lemma checked_loop:
  assumes body: "\<And>x keys. body x keys = (case chk x of Inl e \<Rightarrow> (Inl e, keys)
      | Inr u \<Rightarrow> reject_duplicate keys field (key x))"
    and chk: "\<And>x. chk x = Inr () \<longleftrightarrow> ok x"
  shows "fst (try_each body xs {}) = Inr u \<longleftrightarrow> (\<forall>x\<in>set xs. ok x) \<and> distinct (map key xs)"
proof (rule keyed_loop)
  show "fst (body x keys) = Inr () \<longleftrightarrow> ok x \<and> key x \<notin> keys" for x keys
    using chk [of x] by (auto simp: body split: sum.splits)
  show "snd (body x keys) = insert (key x) keys" if "fst (body x keys) = Inr ()" for x keys
    using that by (auto simp: body split: sum.splits)
qed

section \<open>Lemmas on the keys\<close>

lemma inventory_key_inject [simp]:
  "inventory_key a b c = inventory_key a' b' c' \<longleftrightarrow> a = a' \<and> b = b' \<and> c = c'"
  by (simp add: inventory_key_def append_eq_append_conv)

lemma equipment_key_inject [simp]: "equipment_key a b = equipment_key a' b' \<longleftrightarrow> a = a' \<and> b = b'"
  by (simp add: equipment_key_def append_eq_append_conv)

lemma progression_key_inject [simp]: "progression_key a s = progression_key a' s' \<longleftrightarrow> a = a' \<and> s = s'"
proof -
  have byte: "unat (of_char c :: u8) = of_char c" for c
  proof -
    have "(of_char c :: u8) = of_nat (of_char c)" by (rule of_nat_of_char [symmetric])
    then show ?thesis using nat_of_char_less_256 [of c] by (simp only: unat_of_nat take_bit_eq_mod) simp
  qed
  have "inj (of_char :: char \<Rightarrow> u8)"
  proof (rule injI)
    fix c d :: char
    assume "(of_char c :: u8) = of_char d"
    then have "unat (of_char c :: u8) = unat (of_char d :: u8)" by (rule arg_cong)
    then have "(of_char c :: nat) = of_char d" by (simp only: byte)
    then show "c = d" by simp
  qed
  then show ?thesis by (auto simp: progression_key_def append_eq_append_conv inj_map_eq_map)
qed

text \<open>Entries with distinct keys, in any order, are sorted into the same list.\<close>

lemma sort_key_permuted:
  assumes "mset xs = mset ys" "distinct (map key xs)"
  shows "sort_key key xs = sort_key key ys"
  using assms by (intro sort_key_eq_sort_key) (auto simp: distinct_map)

lemma sort_dedup_keys: "sort_dedup ks = sorted_list_of_set (set (ks :: 'v::linorder list))"
  by (rule sorted_distinct_set_unique)
    (auto simp: sort_dedup_def distinct_remdups_adj_sort sorted_remdups_adj)

lemma sort_dedup_eq: "set xs = set ys \<Longrightarrow> sort_dedup xs = sort_dedup ys"
  by (simp add: sort_dedup_keys)

lemma sort_dedup_again [simp]: "sort_dedup (sort_dedup xs) = sort_dedup xs"
  by (rule sort_dedup_eq) (simp add: sort_dedup_keys)

lemma canonical_entries:
  assumes "mset (map view xs) = mset (map view ys)" "\<And>x. key (view x) = key x" "distinct (map key xs)"
  shows "map view (sort_key key xs) = map view (sort_key key ys)"
proof -
  have view: "map view (sort_key key zs) = sort_key key (map view zs)" for zs
    by (simp add: sort_key_map assms(2))
  have "distinct (map key (map view xs))" using assms(3) by (simp add: comp_def assms(2))
  from sort_key_permuted [OF assms(1) this] show ?thesis by (simp only: view)
qed

lemma same_views:
  assumes "mset (map view xs) = mset (map view ys)"
  shows "length xs = length ys"
    and "(\<And>x. P (view x) \<longleftrightarrow> P x) \<Longrightarrow> (\<forall>x\<in>set xs. P x) \<longleftrightarrow> (\<forall>x\<in>set ys. P x)"
    and "(\<And>x. key (view x) = key x) \<Longrightarrow> distinct (map key xs) \<longleftrightarrow> distinct (map key ys)"
proof -
  show "length xs = length ys" using mset_eq_length [OF assms] by simp
  have sets: "view ` set xs = view ` set ys" using mset_eq_setD [OF assms] by simp
  show "(\<forall>x\<in>set xs. P x) \<longleftrightarrow> (\<forall>x\<in>set ys. P x)" if "\<And>x. P (view x) \<longleftrightarrow> P x"
  proof -
    have "(\<forall>x\<in>set zs. P x) \<longleftrightarrow> (\<forall>v\<in>view ` set zs. P v)" for zs using that by simp
    then show ?thesis by (simp only: sets)
  qed
  show "distinct (map key xs) \<longleftrightarrow> distinct (map key ys)" if "\<And>x. key (view x) = key x"
  proof -
    have keys: "map key zs = map key (map view zs)" for zs using that by simp
    have "mset (map key xs) = mset (map key ys)"
      using arg_cong [OF assms, of "image_mset key"] by (simp add: keys flip: mset_map)
    then show ?thesis by (metis mset_eq_imp_distinct_iff)
  qed
qed

lemma sint_inject [simp]: "sint a = sint b \<longleftrightarrow> a = (b :: 'n::len word)"
proof
  assume "sint a = sint b"
  then have "(of_int (sint a) :: 'n word) = of_int (sint b)" by (rule arg_cong)
  then show "a = b" by simp
qed simp

lemma distinct_finer:
  assumes "distinct (map f xs)" "\<And>x y. g x = g y \<Longrightarrow> f x = f y"
  shows "distinct (map g xs)"
proof -
  have "inj_on g (set xs)"
    using assms(1) by (intro inj_onI) (auto simp: distinct_map dest: assms(2) inj_onD)
  with assms(1) show ?thesis by (simp add: distinct_map)
qed

lemma sort_dedup_sorted [simp]: "sort_dedup (sort xs) = sort_dedup xs"
  by (rule sort_dedup_eq) simp

lemma set_sort_dedup [simp]: "set (sort_dedup xs) = set xs"
  by (simp add: sort_dedup_def)

lemma length_sort_dedup: "length (sort_dedup xs) \<le> length xs"
  using remdups_adj_length [of "sort xs"] by (simp add: sort_dedup_def)

section \<open>Lemmas on the sums\<close>

text \<open>What is added for an identifier, and the table of the sums in the order of the identifiers.\<close>

definition key_total :: "(string \<times> 'n::len word) list \<Rightarrow> string \<Rightarrow> nat" where
  "key_total xs k = sum_list (map (\<lambda>x. unat (snd x)) (filter (\<lambda>x. fst x = k) xs))"

definition sums_of :: "(string \<times> 'n::len word) list \<Rightarrow> (string \<times> 'n word) list" where
  "sums_of xs = map (\<lambda>k. (k, of_nat (key_total xs k))) (sort_dedup (map fst xs))"

lemma checked_add_of_nat:
  "a < 2 ^ LENGTH('n) \<Longrightarrow> checked_add (of_nat a) (n :: 'n::len word) =
     (if a + unat n < 2 ^ LENGTH('n) then Some (of_nat (a + unat n)) else None)"
  by (simp add: checked_add_def unat_of_nat take_bit_eq_mod)

lemma sorted_list_of_set_strict:
  "sorted_wrt (<) xs \<Longrightarrow> set xs = A \<Longrightarrow> sorted_list_of_set A = xs"
  using sorted_list_of_set.idem_if_sorted_distinct [of xs] by (auto simp: strict_sorted_iff)

lemma keys_insert_least:
  "finite A \<Longrightarrow> \<forall>x\<in>A. j < x \<Longrightarrow> sorted_list_of_set (insert j A) = j # sorted_list_of_set (A :: 'v::linorder set)"
  by (rule sorted_list_of_set_strict) simp_all

lemma keys_insert:
  assumes "sorted_wrt (<) (j # js)"
  shows "k < j \<Longrightarrow> sorted_list_of_set (insert k (set (j # js))) = k # j # js"
    and "j < k \<Longrightarrow> sorted_list_of_set (insert k (set (j # js))) = j # sorted_list_of_set (insert k (set js))"
proof -
  show "sorted_list_of_set (insert k (set (j # js))) = k # j # js" if "k < j"
    using assms that by (intro sorted_list_of_set_strict) auto
  show "sorted_list_of_set (insert k (set (j # js))) = j # sorted_list_of_set (insert k (set js))" if "j < k"
    using assms that keys_insert_least [of "insert k (set js)" j]
    by (simp add: insert_commute [of k j])
qed

lemma tally_entry_table:
  fixes f :: "string \<Rightarrow> nat" and n :: "'n::len word"
  assumes "sorted_wrt (<) ks" "\<forall>j\<in>set ks. f j < 2 ^ LENGTH('n)" "k \<notin> set ks \<longrightarrow> f k = 0"
  shows "tally_entry k n (map (\<lambda>j. (j, of_nat (f j))) ks) =
    (if f k + unat n < 2 ^ LENGTH('n)
     then Some (map (\<lambda>j. (j, of_nat ((f(k := f k + unat n)) j))) (sorted_list_of_set (insert k (set ks))))
     else None)"
  using assms
proof (induction ks)
  case Nil
  then show ?case using unat_less_pow [of n] checked_add_of_nat [of 0 n] by simp
next
  case (Cons j ks)
  consider "k < j" | "k = j" | "j < k" by fastforce
  then show ?case
  proof cases
    case 1
    then have "k \<notin> set (j # ks)" using Cons.prems(1) by auto
    then have "f k = 0" using Cons.prems(3) by simp
    moreover have "map (\<lambda>i. (i, of_nat ((f(k := unat n)) i) :: 'n word)) (j # ks) = map (\<lambda>i. (i, of_nat (f i))) (j # ks)"
      using \<open>k \<notin> set (j # ks)\<close> by auto
    ultimately show ?thesis
      using 1 keys_insert(1) [OF Cons.prems(1) 1] checked_add_of_nat [of 0 n] unat_less_pow [of n]
      by simp
  next
    case 2
    have "sorted_list_of_set (insert k (set (j # ks))) = j # ks"
      using 2 Cons.prems(1) by (intro sorted_list_of_set_strict) auto
    moreover have "j \<notin> set ks" using Cons.prems(1) by auto
    then have "map (\<lambda>i. (i, of_nat ((f(j := f j + unat n)) i) :: 'n word)) ks = map (\<lambda>i. (i, of_nat (f i))) ks"
      by auto
    ultimately show ?thesis using 2 Cons.prems(2) checked_add_of_nat [of "f j" n] by simp
  next
    case 3
    have "k \<notin> set ks \<longrightarrow> f k = 0" using 3 Cons.prems(3) by auto
    then show ?thesis
      using 3 Cons.IH Cons.prems keys_insert(2) [OF Cons.prems(1) 3] by (auto simp del: of_nat_add)
  qed
qed

lemma total_snoc: "key_total (xs @ [(k, n)]) = (key_total xs)(k := key_total xs k + unat n)"
  by (auto simp: key_total_def fun_eq_iff)

lemma total_absent: "k \<notin> fst ` set xs \<Longrightarrow> key_total xs k = 0"
  by (auto simp: key_total_def filter_empty_conv image_iff)

text \<open>
  The loop against its specification: it fails iff the sum of some identifier leaves the machine
  integer, whatever the order, and its result lists the sums in the order of the identifiers.
\<close>

lemma total_append: "key_total (xs @ ys) k = key_total xs k + key_total ys k"
  by (simp add: key_total_def)

lemma tally_entry_sums:
  assumes "\<forall>k\<in>fst ` set xs. key_total xs k < 2 ^ LENGTH('n)"
  shows "tally_entry k (n :: 'n::len word) (sums_of xs) =
    (if key_total xs k + unat n < 2 ^ LENGTH('n) then Some (sums_of (xs @ [(k, n)])) else None)"
proof -
  have "sorted_wrt (<) (sort_dedup (map fst xs))" by (simp add: sort_dedup_keys)
  moreover have "sorted_list_of_set (insert k (set (sort_dedup (map fst xs)))) = sort_dedup (map fst (xs @ [(k, n)]))"
    by (simp add: sort_dedup_keys)
  ultimately show ?thesis
    using tally_entry_table [of "sort_dedup (map fst xs)" "key_total xs" k n] assms total_absent [of k xs]
    by (simp add: sums_of_def total_snoc del: of_nat_add fun_upd_apply)
qed

lemma tally_from:
  assumes "\<forall>k\<in>fst ` set ys. key_total ys k < 2 ^ LENGTH('n)"
  shows "tally field (xs :: (string \<times> 'n::len word) list) (sums_of ys) =
    (if \<forall>k\<in>fst ` set (ys @ xs). key_total (ys @ xs) k < 2 ^ LENGTH('n)
     then Inr (sums_of (ys @ xs)) else Inl (IntegerOverflow field))"
  using assms
proof (induction xs arbitrary: ys)
  case (Cons x xs)
  obtain k n where x: "x = (k, n)" by (cases x)
  show ?case
  proof (cases "key_total ys k + unat n < 2 ^ LENGTH('n)")
    case True
    then have "\<forall>j\<in>fst ` set (ys @ [(k, n)]). key_total (ys @ [(k, n)]) j < 2 ^ LENGTH('n)"
      using Cons.prems by (auto simp: total_snoc)
    from Cons.IH [OF this] show ?thesis using True Cons.prems by (simp add: x tally_entry_sums)
  next
    case False
    then have "\<not> key_total (ys @ x # xs) k < 2 ^ LENGTH('n)"
      by (simp add: x total_append key_total_def)
    then have "\<not> (\<forall>j\<in>fst ` set (ys @ x # xs). key_total (ys @ x # xs) j < 2 ^ LENGTH('n))"
      by (auto simp: x)
    then show ?thesis using False Cons.prems by (simp add: x tally_entry_sums del: set_append)
  qed
qed simp

lemma tally_spec:
  "tally field (xs :: (string \<times> 'n::len word) list) [] =
    (if \<forall>k\<in>fst ` set xs. key_total xs k < 2 ^ LENGTH('n) then Inr (sums_of xs) else Inl (IntegerOverflow field))"
  using tally_from [of "[]" field xs] by (simp add: sums_of_def sort_dedup_def)

lemma total_mset: "mset xs = mset ys \<Longrightarrow> key_total xs = key_total ys"
proof (rule ext)
  fix k assume "mset xs = mset ys"
  then have "mset (map (\<lambda>x. unat (snd x)) (filter (\<lambda>x. fst x = k) xs)) =
      mset (map (\<lambda>x. unat (snd x)) (filter (\<lambda>x. fst x = k) ys))" by simp
  then show "key_total xs k = key_total ys k" unfolding key_total_def by (metis sum_mset_sum_list)
qed

lemma tally_permuted: "mset xs = mset ys \<Longrightarrow> tally field xs [] = tally field ys []"
  using total_mset [of xs ys] mset_eq_setD [of xs ys]
  by (simp add: tally_spec sums_of_def sort_dedup_keys)

lemma tally_sorted: "tally field (map f (sort_key k xs)) [] = tally field (map f xs) []"
  by (rule tally_permuted) simp

text \<open>Summing up a table of sums changes nothing.\<close>

lemma total_table:
  "distinct ks \<Longrightarrow> key_total (map (\<lambda>k. (k, w k)) ks) k = (if k \<in> set ks then unat (w k) else 0)"
proof (induction ks)
  case (Cons j ks)
  then show ?case by (cases "k = j") (auto simp: key_total_def)
qed (simp add: key_total_def)

lemma tally_table:
  fixes w :: "string \<Rightarrow> 'n::len word"
  assumes "sorted_wrt (<) ks"
  shows "tally field (map (\<lambda>k. (k, w k)) ks) [] = Inr (map (\<lambda>k. (k, w k)) ks)"
proof -
  have "distinct ks" using assms by (simp add: strict_sorted_iff)
  moreover have "sort_dedup ks = ks"
    using assms by (simp add: sort_dedup_keys sorted_list_of_set_strict)
  moreover have "sums_of (map (\<lambda>k. (k, w k)) ks) = map (\<lambda>k. (k, w k)) ks"
    using calculation by (simp add: sums_of_def total_table comp_def)
  ultimately show ?thesis by (simp add: tally_spec total_table unat_less_pow)
qed

lemma tally_again: "tally field xs [] = Inr t \<Longrightarrow> tally field' t [] = Inr t"
proof -
  assume "tally field xs [] = Inr t"
  then have "t = sums_of xs" by (simp add: tally_spec split: if_splits)
  then show ?thesis unfolding sums_of_def by (simp add: tally_table sort_dedup_keys)
qed

lemma tally_keys: "tally field xs [] = Inr t \<Longrightarrow> map fst t = sort_dedup (map fst xs)"
  by (auto simp: tally_spec sums_of_def comp_def split: if_splits)

lemma tally_positive:
  assumes "tally field (xs :: (string \<times> 'n::len word) list) [] = Inr t" "\<forall>x\<in>set xs. snd x \<noteq> 0" "(k, n) \<in> set t"
  shows "n \<noteq> 0"
proof -
  have t: "t = sums_of xs" and small: "\<forall>k\<in>fst ` set xs. key_total xs k < 2 ^ LENGTH('n)"
    using assms(1) by (auto simp: tally_spec split: if_splits)
  obtain x where x: "x \<in> set xs" "fst x = k" "n = of_nat (key_total xs k)"
    using assms(3) by (auto simp: t sums_of_def sort_dedup_keys)
  have "unat (snd x) \<le> key_total xs k"
    unfolding key_total_def using x by (intro member_le_sum_list) auto
  moreover have "unat (snd x) \<noteq> 0" using x(1) assms(2) by (simp add: unat_eq_0)
  ultimately have "key_total xs k \<noteq> 0" by linarith
  moreover have "unat n = key_total xs k" using small x by (auto simp: unat_of_nat take_bit_eq_mod)
  ultimately show ?thesis by auto
qed

end
