(* ===== verification/Wire_Snapshot.thy ===== *)
theory Wire_Snapshot
  imports Wire_Common
begin

text \<open>
  Personal snapshots, \<open>crates/pal-wire/src/canonical.rs\<close>: validation, the canonical content and the
  identity derived from it.  The messages are those of \<open>proto/palcompanion/v2/profile.proto\<close>; a message
  field is an option.  The protobuf encoder and SHA-256 are arguments.
\<close>

section \<open>Messages\<close>

record PalLocation =
  pl_container_kind :: i32
  pl_container_ordinal :: u32
  pl_slot_index :: u32
  pl_base_id :: "bytes option"

record CharacterProfile =
  cp_level :: u32
  cp_experience :: u64
  cp_allocated_hp :: u32
  cp_allocated_stamina :: u32
  cp_allocated_attack :: u32
  cp_allocated_defense :: u32
  cp_allocated_work_speed :: u32
  cp_allocated_carry_weight :: u32
  cp_technology_points :: u32
  cp_ancient_technology_points :: u32
  cp_world_subject_id :: "bytes option"
  cp_player_subject_id :: "bytes option"

record InventorySlot =
  is_container_kind :: i32
  is_container_ordinal :: u32
  is_slot_index :: u32
  is_item_id :: string
  is_quantity :: u64
  is_durability :: "u32 option"
  is_rarity :: "u32 option"

record EquipmentSlot =
  es_slot_kind :: i32
  es_slot_index :: u32
  es_item_id :: string
  es_durability :: "u32 option"
  es_rarity :: "u32 option"
  es_ammunition :: "u64 option"

record OwnedPal =
  pal_instance_id :: bytes
  pal_species_id :: string
  pal_container_ordinal :: u32
  pal_level :: u32
  pal_iv_hp :: "u32 option"
  pal_iv_attack :: "u32 option"
  pal_iv_defense :: "u32 option"
  pal_passive_ids :: "string list"
  pal_active_skill_ids :: "string list"
  pal_location :: "PalLocation option"
  pal_gender_text :: "string option"
  pal_condensation_rank :: u32
  pal_learned_skill_ids :: "string list"
  pal_soul_hp :: u32
  pal_soul_attack :: u32
  pal_soul_defense :: u32
  pal_soul_work_speed :: u32
  pal_trust :: u32
  pal_is_lucky :: bool
  pal_is_boss :: bool
  pal_is_alpha :: bool
  pal_is_awakened :: bool
  pal_is_mutated :: bool
  pal_slot_index :: u32
  pal_base_id :: "bytes option"

record BaseFacility =
  bf_building_id :: string
  bf_count :: u32

record BaseStorageItem =
  bsi_item_id :: string
  bsi_quantity :: u64

record BaseSnapshot =
  bs_base_id :: bytes
  bs_location_id :: string
  bs_level :: u32
  bs_facilities :: "BaseFacility list"
  bs_assigned_pal_instance_ids :: "bytes list"
  bs_storage_items :: "BaseStorageItem list"

record ProgressionSnapshot =
  pr_technology_ids :: "string list"
  pr_fast_travel_ids :: "string list"
  pr_tower_ids :: "string list"
  pr_boss_ids :: "string list"
  pr_mission_ids :: "string list"
  pr_paldex_capture_ids :: "string list"
  pr_map_region_ids :: "string list"
  pr_collectible_ids :: "string list"
  pr_base_research_ids :: "string list"

record SnapshotSectionState =
  sst_section :: i32
  sst_completeness :: i32
  sst_expected_record_count :: u32
  sst_observed_record_count :: u32

record PersonalSnapshotContent =
  psc_schema_major :: u32
  psc_game_build_id :: string
  psc_dataset_manifest_id :: bytes
  psc_world_id :: string
  psc_owner_subject_id :: bytes
  psc_completeness :: i32
  psc_character :: "CharacterProfile option"
  psc_inventory :: "InventorySlot list"
  psc_equipment :: "EquipmentSlot list"
  psc_pals :: "OwnedPal list"
  psc_bases :: "BaseSnapshot list"
  psc_progression :: "ProgressionSnapshot option"
  psc_section_states :: "SnapshotSectionState list"

section \<open>Validation\<close>

definition validate_inventory_slot ::
  "InventorySlot \<Rightarrow> bytes set \<Rightarrow> (CanonicalError + unit) \<times> bytes set" where
  "validate_inventory_slot slot keys =
     (case and_then (inventory_container_kind ''inventory.container_kind'' (is_container_kind slot)) (\<lambda>_.
           validate_text_id ''inventory.item_id'' (is_item_id slot)) of
        Inl e \<Rightarrow> (Inl e, keys)
      | Inr _ \<Rightarrow> reject_duplicate keys ''inventory''
          (inventory_key (is_container_kind slot) (is_container_ordinal slot) (is_slot_index slot)))"

definition validate_equipment_slot ::
  "EquipmentSlot \<Rightarrow> bytes set \<Rightarrow> (CanonicalError + unit) \<times> bytes set" where
  "validate_equipment_slot slot keys =
     (case and_then (equipment_slot_kind ''equipment.slot_kind'' (es_slot_kind slot)) (\<lambda>_.
           validate_text_id ''equipment.item_id'' (es_item_id slot)) of
        Inl e \<Rightarrow> (Inl e, keys)
      | Inr _ \<Rightarrow> reject_duplicate keys ''equipment''
          (equipment_key (es_slot_kind slot) (es_slot_index slot)))"

text \<open>The checks of an owned Pal before its instance identity is recorded, and those after it.\<close>

definition validate_pal_fields :: "OwnedPal \<Rightarrow> CanonicalError + unit" where
  "validate_pal_fields pal =
     and_then (validate_len ''pals.instance_id'' (pal_instance_id pal) 16) (\<lambda>_.
     and_then (validate_text_id ''pals.species_id'' (pal_species_id pal)) (\<lambda>_.
     and_then (check_count ''pals.passive_ids'' (length (pal_passive_ids pal)) MAX_PASSIVE_IDS_PER_PAL) (\<lambda>_.
     and_then (check_count ''pals.active_skill_ids'' (length (pal_active_skill_ids pal))
                 MAX_ACTIVE_SKILL_IDS_PER_PAL) (\<lambda>_.
     and_then (validate_text_ids ''pals.passive_ids'' (pal_passive_ids pal)) (\<lambda>_.
     and_then (validate_text_ids ''pals.active_skill_ids'' (pal_active_skill_ids pal)) (\<lambda>_.
       case pal_gender_text pal of
         Some gender \<Rightarrow>
           if gender \<notin> {''male'', ''female'', ''genderless''}
           then Inl (InvalidValue ''pals.gender'' ''expected male, female, or genderless'')
           else Inr ()
       | None \<Rightarrow> Inr ()))))))"

definition validate_pal_location :: "OwnedPal \<Rightarrow> CanonicalError + bytes" where
  "validate_pal_location pal =
     (case pal_location pal of
        None \<Rightarrow> Inl (MissingField ''pals.location'')
      | Some location \<Rightarrow>
          and_then (pal_container_kind ''pals.location.container_kind'' (pl_container_kind location)) (\<lambda>_.
          and_then (validate_base_location ''pals.location.base_id'' (pl_container_kind location)
                      (pl_base_id location)) (\<lambda>_.
          Inr (pal_location_key (pl_container_kind location) (pl_container_ordinal location)
                 (pl_slot_index location) (pl_base_id location)))))"

definition validate_owned_pal ::
  "OwnedPal \<Rightarrow> bytes set \<times> bytes set \<Rightarrow> (CanonicalError + unit) \<times> (bytes set \<times> bytes set)" where
  "validate_owned_pal pal seen =
     (case validate_pal_fields pal of
        Inl e \<Rightarrow> (Inl e, seen)
      | Inr _ \<Rightarrow>
          (case reject_duplicate (fst seen) ''pals.instance_id'' (pal_instance_id pal) of
             (Inl e, pal_ids) \<Rightarrow> (Inl e, (pal_ids, snd seen))
           | (Inr _, pal_ids) \<Rightarrow>
               (case validate_pal_location pal of
                  Inl e \<Rightarrow> (Inl e, (pal_ids, snd seen))
                | Inr key \<Rightarrow>
                    map_prod (\<lambda>r. r) (Pair pal_ids) (reject_duplicate (snd seen) ''pals.location'' key))))"

definition validate_facility :: "BaseFacility \<Rightarrow> CanonicalError + unit" where
  "validate_facility facility =
     and_then (validate_text_id ''bases.facilities.building_id'' (bf_building_id facility)) (\<lambda>_.
       if bf_count facility = 0
       then Inl (InvalidValue ''bases.facilities.count'' ''count must be positive'') else Inr ())"

definition validate_storage_item :: "BaseStorageItem \<Rightarrow> CanonicalError + unit" where
  "validate_storage_item item =
     and_then (validate_text_id ''bases.storage_items.item_id'' (bsi_item_id item)) (\<lambda>_.
       if bsi_quantity item = 0
       then Inl (InvalidValue ''bases.storage_items.quantity'' ''quantity must be positive'') else Inr ())"

definition validate_snapshot_base :: "BaseSnapshot \<Rightarrow> CanonicalError + unit" where
  "validate_snapshot_base base =
     and_then (validate_len ''bases.base_id'' (bs_base_id base) 16) (\<lambda>_.
     and_then (validate_text_id ''bases.location_id'' (bs_location_id base)) (\<lambda>_.
     and_then (check_each validate_facility (bs_facilities base)) (\<lambda>_.
     and_then (check_each (\<lambda>assigned. validate_len ''bases.assigned_pal_instance_ids'' assigned 16)
                 (bs_assigned_pal_instance_ids base)) (\<lambda>_.
     check_each validate_storage_item (bs_storage_items base)))))"

definition validate_base_step :: "BaseSnapshot \<Rightarrow> bytes set \<Rightarrow> (CanonicalError + unit) \<times> bytes set" where
  "validate_base_step base base_ids =
     (case validate_snapshot_base base of
        Inl e \<Rightarrow> (Inl e, base_ids)
      | Inr _ \<Rightarrow> reject_duplicate base_ids ''bases.base_id'' (bs_base_id base))"

definition validate_progression :: "ProgressionSnapshot \<Rightarrow> CanonicalError + unit" where
  "validate_progression progression =
     check_each (\<lambda>(field, ids). validate_text_ids field ids)
       [(''progression.technology_ids'', pr_technology_ids progression),
        (''progression.fast_travel_ids'', pr_fast_travel_ids progression),
        (''progression.tower_ids'', pr_tower_ids progression),
        (''progression.boss_ids'', pr_boss_ids progression),
        (''progression.mission_ids'', pr_mission_ids progression),
        (''progression.paldex_capture_ids'', pr_paldex_capture_ids progression),
        (''progression.map_region_ids'', pr_map_region_ids progression),
        (''progression.collectible_ids'', pr_collectible_ids progression),
        (''progression.base_research_ids'', pr_base_research_ids progression)]"

fun snapshot_section_has_content :: "PersonalSnapshotContent \<Rightarrow> SnapshotSectionKind \<Rightarrow> bool" where
  "snapshot_section_has_content content SskCharacter = (psc_character content \<noteq> None)"
| "snapshot_section_has_content content SskInventory = (psc_inventory content \<noteq> [])"
| "snapshot_section_has_content content SskEquipment = (psc_equipment content \<noteq> [])"
| "snapshot_section_has_content content SskPals = (psc_pals content \<noteq> [])"
| "snapshot_section_has_content content SskBases = (psc_bases content \<noteq> [])"
| "snapshot_section_has_content content SskProgression = (psc_progression content \<noteq> None)"
| "snapshot_section_has_content content SskUnspecified = False"

fun snapshot_counts_valid :: "SnapshotCompleteness \<Rightarrow> u32 \<Rightarrow> u32 \<Rightarrow> bool" where
  "snapshot_counts_valid ScComplete expected observed = (expected = observed)"
| "snapshot_counts_valid ScPartial expected observed = (0 < expected \<and> observed \<le> expected)"
| "snapshot_counts_valid ScUnavailable expected observed = (expected = 0 \<and> observed = 0)"
| "snapshot_counts_valid ScUnknown expected observed = (expected = 0)"
| "snapshot_counts_valid ScUnspecified expected observed = False"

definition validate_snapshot_counts :: "SnapshotCompleteness \<Rightarrow> u32 \<Rightarrow> u32 \<Rightarrow> CanonicalError + unit" where
  "validate_snapshot_counts completeness expected observed =
     (if snapshot_counts_valid completeness expected observed then Inr ()
      else Inl (InvalidValue ''section_states'' ''section counts do not match completeness semantics''))"

text \<open>One iteration over the section states: the sections seen, and the completeness of each.\<close>

definition section_state_values ::
  "SnapshotSectionState \<Rightarrow> CanonicalError + (SnapshotSectionKind \<times> SnapshotCompleteness)" where
  "section_state_values state =
     and_then (snapshot_section_kind ''section_states.section'' (sst_section state)) (\<lambda>section.
     and_then (snapshot_completeness ''section_states.completeness'' (sst_completeness state)) (\<lambda>completeness.
     and_then (validate_snapshot_counts completeness (sst_expected_record_count state)
                 (sst_observed_record_count state)) (\<lambda>_.
     Inr (section, completeness))))"

definition validate_section_state ::
  "PersonalSnapshotContent \<Rightarrow> SnapshotSectionState \<Rightarrow> i32 set \<times> SnapshotCompleteness list
     \<Rightarrow> (CanonicalError + unit) \<times> (i32 set \<times> SnapshotCompleteness list)" where
  "validate_section_state content state seen =
     (case section_state_values state of
        Inl e \<Rightarrow> (Inl e, seen)
      | Inr (section, completeness) \<Rightarrow>
          (let number = SnapshotSectionKind_i32 section in
           if number \<in> fst seen
           then (Inl (DuplicateSemanticKey ''section_states.section'' (u32_to_be_bytes number)), seen)
           else if completeness = ScUnavailable \<and> snapshot_section_has_content content section
           then (Inl (InvalidValue ''section_states.completeness''
                        ''unavailable sections must contain no entries''),
                 (insert number (fst seen), snd seen))
           else (Inr (), (insert number (fst seen), snd seen @ [completeness]))))"

definition derived_completeness :: "SnapshotCompleteness list \<Rightarrow> SnapshotCompleteness" where
  "derived_completeness states =
     (if list_all (\<lambda>state. state = ScUnavailable) states then ScUnavailable
      else if ScUnknown \<in> set states then ScUnknown
      else if list_all (\<lambda>state. state = ScComplete) states then ScComplete
      else ScPartial)"

definition validate_snapshot_section_states ::
  "PersonalSnapshotContent \<Rightarrow> SnapshotCompleteness \<Rightarrow> CanonicalError + unit" where
  "validate_snapshot_section_states content overall =
     (if length (psc_section_states content) \<noteq> 6
      then Inl (InvalidValue ''section_states'' ''exactly six section states are required'')
      else case try_each (validate_section_state content) (psc_section_states content) ({}, []) of
        (Inl e, _) \<Rightarrow> Inl e
      | (Inr _, (sections, states)) \<Rightarrow>
          if sections \<noteq> set (map of_nat [1..<7])
          then Inl (InvalidValue ''section_states.section'' ''all six non-zero section kinds are required'')
          else if overall \<noteq> derived_completeness states
          then Inl (InvalidValue ''completeness''
                      ''overall completeness does not match the six section states'')
          else Inr ())"

definition validate_snapshot :: "PersonalSnapshotContent \<Rightarrow> CanonicalError + unit" where
  "validate_snapshot content =
     (if psc_schema_major content \<noteq> 1
      then Inl (InvalidValue ''schema_major'' ''expected schema major 1'')
      else
        and_then (validate_text_id ''game_build_id'' (psc_game_build_id content)) (\<lambda>_.
        and_then (validate_len ''dataset_manifest_id'' (psc_dataset_manifest_id content) 32) (\<lambda>_.
        and_then (validate_text_id ''world_id'' (psc_world_id content)) (\<lambda>_.
        and_then (validate_len ''owner_subject_id'' (psc_owner_subject_id content) 32) (\<lambda>_.
        and_then (snapshot_completeness ''completeness'' (psc_completeness content)) (\<lambda>overall.
        and_then (check_count ''inventory'' (length (psc_inventory content)) MAX_INVENTORY_ENTRIES) (\<lambda>_.
        and_then (check_count ''equipment'' (length (psc_equipment content)) MAX_EQUIPMENT_ENTRIES) (\<lambda>_.
        and_then (check_count ''pals'' (length (psc_pals content)) MAX_PAL_ENTRIES) (\<lambda>_.
        and_then (check_count ''bases'' (length (psc_bases content)) MAX_BASE_ENTRIES) (\<lambda>_.
        and_then (fst (try_each validate_inventory_slot (psc_inventory content) {})) (\<lambda>_.
        and_then (fst (try_each validate_equipment_slot (psc_equipment content) {})) (\<lambda>_.
        and_then (fst (try_each validate_owned_pal (psc_pals content) ({}, {}))) (\<lambda>_.
        and_then (fst (try_each validate_base_step (psc_bases content) {})) (\<lambda>_.
        and_then (case psc_progression content of
                    Some progression \<Rightarrow> validate_progression progression | None \<Rightarrow> Inr ()) (\<lambda>_.
        validate_snapshot_section_states content overall)))))))))))))))"

section \<open>Canonical content\<close>

definition canonicalize_snapshot_base :: "BaseSnapshot \<Rightarrow> CanonicalError + BaseSnapshot" where
  "canonicalize_snapshot_base base =
     and_then (tally ''bases.facilities.count''
                 (map (\<lambda>f. (bf_building_id f, bf_count f)) (bs_facilities base)) []) (\<lambda>facilities.
     and_then (tally ''bases.storage_items.quantity''
                 (map (\<lambda>i. (bsi_item_id i, bsi_quantity i)) (bs_storage_items base)) []) (\<lambda>storage.
     Inr (base\<lparr>
       bs_facilities := map (\<lambda>(building_id, count). \<lparr>bf_building_id = building_id, bf_count = count\<rparr>) facilities,
       bs_assigned_pal_instance_ids := sort_dedup (bs_assigned_pal_instance_ids base),
       bs_storage_items := map (\<lambda>(item_id, quantity). \<lparr>bsi_item_id = item_id, bsi_quantity = quantity\<rparr>) storage\<rparr>)))"

definition canonicalize_pal :: "OwnedPal \<Rightarrow> OwnedPal" where
  "canonicalize_pal pal = pal\<lparr>
     pal_passive_ids := sort_dedup (pal_passive_ids pal),
     pal_active_skill_ids := sort_dedup (pal_active_skill_ids pal)\<rparr>"

definition canonicalize_progression :: "ProgressionSnapshot \<Rightarrow> ProgressionSnapshot" where
  "canonicalize_progression progression = \<lparr>
     pr_technology_ids = sort_dedup (pr_technology_ids progression),
     pr_fast_travel_ids = sort_dedup (pr_fast_travel_ids progression),
     pr_tower_ids = sort_dedup (pr_tower_ids progression),
     pr_boss_ids = sort_dedup (pr_boss_ids progression),
     pr_mission_ids = sort_dedup (pr_mission_ids progression),
     pr_paldex_capture_ids = sort_dedup (pr_paldex_capture_ids progression),
     pr_map_region_ids = sort_dedup (pr_map_region_ids progression),
     pr_collectible_ids = sort_dedup (pr_collectible_ids progression),
     pr_base_research_ids = sort_dedup (pr_base_research_ids progression)\<rparr>"

text \<open>\<open>canonical_snapshot_content\<close> up to the encoding of its result.\<close>

definition canonical_snapshot :: "PersonalSnapshotContent \<Rightarrow> CanonicalError + PersonalSnapshotContent" where
  "canonical_snapshot content =
     and_then (validate_snapshot content) (\<lambda>_.
     and_then (try_map canonicalize_snapshot_base (sort_key bs_base_id (psc_bases content))) (\<lambda>bases.
     Inr (content\<lparr>
       psc_inventory := sort_key (\<lambda>slot. (sint (is_container_kind slot), is_container_ordinal slot,
                                         is_slot_index slot)) (psc_inventory content),
       psc_equipment := sort_key (\<lambda>slot. (sint (es_slot_kind slot), es_slot_index slot))
                          (psc_equipment content),
       psc_pals := map canonicalize_pal (sort_key pal_instance_id (psc_pals content)),
       psc_bases := bases,
       psc_progression := map_option canonicalize_progression (psc_progression content),
       psc_section_states := sort_key (\<lambda>state. sint (sst_section state)) (psc_section_states content)\<rparr>)))"

definition canonical_snapshot_content ::
  "(PersonalSnapshotContent \<Rightarrow> bytes) \<Rightarrow> PersonalSnapshotContent \<Rightarrow> CanonicalError + bytes" where
  "canonical_snapshot_content encode content =
     and_then (canonical_snapshot content) (\<lambda>canonical.
     let bytes = encode canonical in
     and_then (check_content_length (length bytes)) (\<lambda>_. Inr bytes))"

definition snapshot_domain :: bytes where
  "snapshot_domain = map of_char ''palcompanion.snapshot.v1'' @ [0]"

definition personal_snapshot_id ::
  "(bytes \<Rightarrow> bytes) \<Rightarrow> (PersonalSnapshotContent \<Rightarrow> bytes) \<Rightarrow> PersonalSnapshotContent \<Rightarrow> CanonicalError + bytes" where
  "personal_snapshot_id sha256 encode content =
     and_then (canonical_snapshot_content encode content) (\<lambda>bytes. Inr (sha256 (snapshot_domain @ bytes)))"


section \<open>What validation accepts\<close>

definition inventory_slot_ok :: "InventorySlot \<Rightarrow> bool" where
  "inventory_slot_ok slot = (is_container_kind slot \<in> {1, 2, 3} \<and> text_id (is_item_id slot))"

definition inventory_slot_key :: "InventorySlot \<Rightarrow> bytes" where
  "inventory_slot_key slot =
     inventory_key (is_container_kind slot) (is_container_ordinal slot) (is_slot_index slot)"

definition equipment_slot_ok :: "EquipmentSlot \<Rightarrow> bool" where
  "equipment_slot_ok slot = (es_slot_kind slot \<in> {1, 2, 3, 4, 5} \<and> text_id (es_item_id slot))"

definition equipment_slot_key :: "EquipmentSlot \<Rightarrow> bytes" where
  "equipment_slot_key slot = equipment_key (es_slot_kind slot) (es_slot_index slot)"

definition location_ok :: "PalLocation \<Rightarrow> bool" where
  "location_ok l = (pl_container_kind l \<in> {1, 2, 3, 4}
     \<and> (case pl_base_id l of None \<Rightarrow> pl_container_kind l \<noteq> 3
        | Some b \<Rightarrow> pl_container_kind l = 3 \<and> length b = 16))"

definition pal_ok :: "OwnedPal \<Rightarrow> bool" where
  "pal_ok p = (length (pal_instance_id p) = 16 \<and> text_id (pal_species_id p)
     \<and> length (pal_passive_ids p) \<le> MAX_PASSIVE_IDS_PER_PAL
     \<and> length (pal_active_skill_ids p) \<le> MAX_ACTIVE_SKILL_IDS_PER_PAL
     \<and> (\<forall>v\<in>set (pal_passive_ids p). text_id v) \<and> (\<forall>v\<in>set (pal_active_skill_ids p). text_id v)
     \<and> (\<forall>g\<in>set_option (pal_gender_text p). g \<in> {''male'', ''female'', ''genderless''})
     \<and> pal_location p \<noteq> None \<and> location_ok (the (pal_location p)))"

definition pal_place :: "OwnedPal \<Rightarrow> bytes" where
  "pal_place p = (let l = the (pal_location p)
     in pal_location_key (pl_container_kind l) (pl_container_ordinal l) (pl_slot_index l) (pl_base_id l))"

definition base_ok :: "BaseSnapshot \<Rightarrow> bool" where
  "base_ok b = (length (bs_base_id b) = 16 \<and> text_id (bs_location_id b)
     \<and> (\<forall>f\<in>set (bs_facilities b). text_id (bf_building_id f) \<and> bf_count f \<noteq> 0)
     \<and> (\<forall>a\<in>set (bs_assigned_pal_instance_ids b). length a = 16)
     \<and> (\<forall>i\<in>set (bs_storage_items b). text_id (bsi_item_id i) \<and> bsi_quantity i \<noteq> 0))"

definition progression_ok :: "ProgressionSnapshot \<Rightarrow> bool" where
  "progression_ok p = (\<forall>ids\<in>{pr_technology_ids p, pr_fast_travel_ids p, pr_tower_ids p, pr_boss_ids p,
     pr_mission_ids p, pr_paldex_capture_ids p, pr_map_region_ids p, pr_collectible_ids p,
     pr_base_research_ids p}. \<forall>v\<in>set ids. text_id v)"

definition section_state_ok :: "PersonalSnapshotContent \<Rightarrow> SnapshotSectionState \<Rightarrow> bool" where
  "section_state_ok content st = (\<exists>section completeness.
     sst_section st = SnapshotSectionKind_i32 section \<and> sst_section st \<noteq> 0
     \<and> sst_completeness st = SnapshotCompleteness_i32 completeness \<and> sst_completeness st \<noteq> 0
     \<and> snapshot_counts_valid completeness (sst_expected_record_count st) (sst_observed_record_count st)
     \<and> \<not> (completeness = ScUnavailable \<and> snapshot_section_has_content content section))"

lemma SnapshotSectionKind_i32_inject [simp]: "SnapshotSectionKind_i32 a = SnapshotSectionKind_i32 b \<longleftrightarrow> a = b"
  by (cases a; cases b) simp_all

lemma SnapshotCompleteness_i32_inject [simp]: "SnapshotCompleteness_i32 a = SnapshotCompleteness_i32 b \<longleftrightarrow> a = b"
  by (cases a; cases b) simp_all

lemma inventory_loop:
  "fst (try_each validate_inventory_slot xs {}) = Inr u \<longleftrightarrow>
     (\<forall>x\<in>set xs. inventory_slot_ok x) \<and> distinct (map inventory_slot_key xs)"
  by (rule checked_loop [OF validate_inventory_slot_def [folded inventory_slot_key_def]])
    (auto simp: inventory_slot_ok_def and_then_eq_Inr wire_checks)

lemma equipment_loop:
  "fst (try_each validate_equipment_slot xs {}) = Inr u \<longleftrightarrow>
     (\<forall>x\<in>set xs. equipment_slot_ok x) \<and> distinct (map equipment_slot_key xs)"
  by (rule checked_loop [OF validate_equipment_slot_def [folded equipment_slot_key_def]])
    (auto simp: equipment_slot_ok_def and_then_eq_Inr wire_checks)

lemma validate_snapshot_base_Inr: "validate_snapshot_base b = Inr () \<longleftrightarrow> base_ok b"
  by (auto simp: validate_snapshot_base_def base_ok_def validate_facility_def validate_storage_item_def
      and_then_eq_Inr check_each_Inr wire_checks)

lemma base_loop:
  "fst (try_each validate_base_step xs {}) = Inr u \<longleftrightarrow>
     (\<forall>x\<in>set xs. base_ok x) \<and> distinct (map bs_base_id xs)"
  by (rule checked_loop [OF validate_base_step_def validate_snapshot_base_Inr])

lemma validate_base_location_Inr [wire_checks]:
  "validate_base_location field kind base = Inr u \<longleftrightarrow>
     (case base of None \<Rightarrow> kind \<noteq> 3 | Some b \<Rightarrow> kind = 3 \<and> length b = 16)"
  by (auto simp: validate_base_location_def wire_checks split: option.splits)

lemma gender_check:
  "(case g of Some gender \<Rightarrow> if gender \<notin> genders then Inl e else Inr () | None \<Rightarrow> Inr ()) = Inr u \<longleftrightarrow>
     (\<forall>v\<in>set_option g. v \<in> genders)"
  by (cases g) auto

lemma validate_pal_fields_Inr:
  "pal_ok p \<longleftrightarrow> validate_pal_fields p = Inr () \<and> pal_location p \<noteq> None \<and> location_ok (the (pal_location p))"
  unfolding validate_pal_fields_def and_then_eq_Inr gender_check wire_checks pal_ok_def
  by (simp only: simp_thms ex_simps conj_assoc)

lemma validate_pal_location_Inr:
  "validate_pal_location p = Inr key \<longleftrightarrow>
     pal_location p \<noteq> None \<and> location_ok (the (pal_location p)) \<and> key = pal_place p"
proof (cases "pal_location p")
  case (Some l)
  then show ?thesis
    using container_kinds(3) [of "''pals.location.container_kind''" "pl_container_kind l"]
    unfolding validate_pal_location_def location_ok_def pal_place_def Some option.case option.sel Let_def
      and_then_eq_Inr validate_base_location_Inr by blast
qed (simp add: validate_pal_location_def)

lemma validate_owned_pal_Inr:
  "fst (validate_owned_pal p seen) = Inr () \<longleftrightarrow>
     pal_ok p \<and> pal_instance_id p \<notin> fst seen \<and> pal_place p \<notin> snd seen"
proof (cases "pal_ok p")
  case True
  then have "validate_pal_fields p = Inr ()" "validate_pal_location p = Inr (pal_place p)"
    by (simp_all add: validate_pal_fields_Inr validate_pal_location_Inr)
  with True show ?thesis by (simp add: validate_owned_pal_def reject_duplicate_def)
next
  case False
  then have bad: "validate_pal_fields p \<noteq> Inr () \<or> validate_pal_location p \<noteq> Inr key" for key
    by (auto simp: validate_pal_fields_Inr validate_pal_location_Inr)
  show ?thesis
  proof (cases "validate_pal_fields p")
    case (Inr u)
    with bad obtain e where "validate_pal_location p = Inl e" by (cases "validate_pal_location p") auto
    with Inr False show ?thesis by (simp add: validate_owned_pal_def reject_duplicate_def)
  qed (simp add: validate_owned_pal_def False)
qed

lemma validate_owned_pal_state:
  assumes "fst (validate_owned_pal p seen) = Inr ()"
  shows "snd (validate_owned_pal p seen) =
    (insert (pal_instance_id p) (fst seen), insert (pal_place p) (snd seen))"
proof -
  have p: "pal_ok p" "pal_instance_id p \<notin> fst seen" using assms validate_owned_pal_Inr by auto
  have "validate_pal_fields p = Inr ()" using p(1) by (simp add: validate_pal_fields_Inr)
  moreover have "validate_pal_location p = Inr (pal_place p)"
    using p(1) by (simp add: validate_pal_fields_Inr validate_pal_location_Inr)
  ultimately show ?thesis using p(2) by (simp add: validate_owned_pal_def reject_duplicate_def)
qed

lemma pal_loop:
  "fst (try_each validate_owned_pal xs ({}, {})) = Inr u \<longleftrightarrow>
     (\<forall>x\<in>set xs. pal_ok x) \<and> distinct (map pal_instance_id xs) \<and> distinct (map pal_place xs)"
proof -
  let ?none = "({}, {}) :: bytes set \<times> bytes set"
  have "fst (try_each validate_owned_pal xs ?none) = Inr () \<longleftrightarrow>
      (\<forall>x\<in>set xs. pal_ok x \<and> pal_instance_id x \<notin> fst ?none \<and> pal_place x \<notin> snd ?none)
      \<and> sorted_wrt (\<lambda>x y. \<not> (pal_instance_id x = pal_instance_id y \<or> pal_place x = pal_place y)) xs"
    by (rule try_each_fresh [where fresh = "\<lambda>p seen. pal_instance_id p \<notin> fst seen \<and> pal_place p \<notin> snd seen"])
      (rule validate_owned_pal_Inr, auto simp: validate_owned_pal_state)
  then show ?thesis by (simp add: no_clash_both)
qed

lemma validate_progression_Inr: "validate_progression p = Inr u \<longleftrightarrow> progression_ok p"
  by (simp add: validate_progression_def progression_ok_def and_then_eq_Inr wire_checks)

definition completeness_of :: "SnapshotSectionState \<Rightarrow> SnapshotCompleteness" where
  "completeness_of st = (case section_state_values st of Inr (_, c) \<Rightarrow> c | Inl _ \<Rightarrow> ScUnspecified)"

lemma section_state_values_Inr:
  "section_state_values st = Inr (section, completeness) \<longleftrightarrow>
     sst_section st = SnapshotSectionKind_i32 section \<and> sst_section st \<noteq> 0
     \<and> sst_completeness st = SnapshotCompleteness_i32 completeness \<and> sst_completeness st \<noteq> 0
     \<and> snapshot_counts_valid completeness (sst_expected_record_count st) (sst_observed_record_count st)"
  unfolding section_state_values_def
  by (auto simp: and_then_eq_Inr wire_checks validate_snapshot_counts_def)

lemma section_state_ok_values:
  "section_state_ok content st \<longleftrightarrow> (\<exists>section completeness.
     section_state_values st = Inr (section, completeness)
     \<and> \<not> (completeness = ScUnavailable \<and> snapshot_section_has_content content section))"
  unfolding section_state_ok_def section_state_values_Inr by blast

lemma validate_section_state_Inr:
  "fst (validate_section_state content st seen) = Inr () \<longleftrightarrow>
     section_state_ok content st \<and> sst_section st \<notin> fst seen"
proof (cases "section_state_values st")
  case (Inr v)
  obtain kind level where v: "v = (kind, level)" by (cases v)
  have "sst_section st = SnapshotSectionKind_i32 kind" using Inr v section_state_values_Inr by blast
  then show ?thesis by (simp add: validate_section_state_def section_state_ok_values Inr v Let_def)
qed (simp add: validate_section_state_def section_state_ok_values)

lemma validate_section_state_state:
  assumes "fst (validate_section_state content st seen) = Inr ()"
  shows "snd (validate_section_state content st seen) =
    (insert (sst_section st) (fst seen), snd seen @ [completeness_of st])"
proof (cases "section_state_values st")
  case (Inr v)
  obtain kind level where v: "v = (kind, level)" by (cases v)
  have "sst_section st = SnapshotSectionKind_i32 kind" using Inr v section_state_values_Inr by blast
  then show ?thesis
    using assms by (simp add: validate_section_state_def completeness_of_def Inr v Let_def split: if_splits)
qed (use assms in \<open>simp add: validate_section_state_def\<close>)

lemma section_states_seen:
  "fold (\<lambda>st seen. (insert (sst_section st) (fst seen), snd seen @ [completeness_of st])) sts seen =
     (fst seen \<union> sst_section ` set sts, snd seen @ map completeness_of sts)"
  by (induction sts arbitrary: seen) auto

lemma section_states_loop:
  "fst (try_each (validate_section_state content) sts ({}, [])) = Inr () \<longleftrightarrow>
     (\<forall>st\<in>set sts. section_state_ok content st) \<and> distinct (map sst_section sts)"
proof -
  let ?none = "({}, []) :: i32 set \<times> SnapshotCompleteness list"
  have "fst (try_each (validate_section_state content) sts ?none) = Inr () \<longleftrightarrow>
      (\<forall>st\<in>set sts. section_state_ok content st \<and> sst_section st \<notin> fst ?none)
      \<and> sorted_wrt (\<lambda>x y. \<not> sst_section x = sst_section y) sts"
    by (rule try_each_fresh [where fresh = "\<lambda>st seen. sst_section st \<notin> fst seen"])
      (rule validate_section_state_Inr, auto simp: validate_section_state_state)
  then show ?thesis by (simp add: no_clash_keys)
qed

lemma validate_snapshot_section_states_Inr:
  "validate_snapshot_section_states content overall = Inr u \<longleftrightarrow>
     length (psc_section_states content) = 6
     \<and> (\<forall>st\<in>set (psc_section_states content). section_state_ok content st)
     \<and> distinct (map sst_section (psc_section_states content))
     \<and> sst_section ` set (psc_section_states content) = set (map of_nat [1..<7])
     \<and> overall = derived_completeness (map completeness_of (psc_section_states content))"
proof -
  let ?run = "try_each (validate_section_state content) (psc_section_states content) ({}, [])"
  have "snd ?run = (sst_section ` set (psc_section_states content), map completeness_of (psc_section_states content))"
    if "fst ?run = Inr ()"
    using try_each_state [OF validate_section_state_state that] by (simp add: section_states_seen)
  then show ?thesis
    using section_states_loop [of content "psc_section_states content"]
    by (cases ?run; cases "fst ?run") (auto simp: validate_snapshot_section_states_def)
qed

definition snapshot_ok :: "PersonalSnapshotContent \<Rightarrow> bool" where
  "snapshot_ok c = (psc_schema_major c = 1 \<and> text_id (psc_game_build_id c)
     \<and> length (psc_dataset_manifest_id c) = 32 \<and> text_id (psc_world_id c) \<and> length (psc_owner_subject_id c) = 32
     \<and> length (psc_inventory c) \<le> MAX_INVENTORY_ENTRIES \<and> length (psc_equipment c) \<le> MAX_EQUIPMENT_ENTRIES
     \<and> length (psc_pals c) \<le> MAX_PAL_ENTRIES \<and> length (psc_bases c) \<le> MAX_BASE_ENTRIES
     \<and> (\<forall>x\<in>set (psc_inventory c). inventory_slot_ok x) \<and> distinct (map inventory_slot_key (psc_inventory c))
     \<and> (\<forall>x\<in>set (psc_equipment c). equipment_slot_ok x) \<and> distinct (map equipment_slot_key (psc_equipment c))
     \<and> (\<forall>x\<in>set (psc_pals c). pal_ok x) \<and> distinct (map pal_instance_id (psc_pals c))
     \<and> distinct (map pal_place (psc_pals c))
     \<and> (\<forall>x\<in>set (psc_bases c). base_ok x) \<and> distinct (map bs_base_id (psc_bases c))
     \<and> (\<forall>p\<in>set_option (psc_progression c). progression_ok p)
     \<and> length (psc_section_states c) = 6
     \<and> (\<forall>st\<in>set (psc_section_states c). section_state_ok c st)
     \<and> distinct (map sst_section (psc_section_states c))
     \<and> sst_section ` set (psc_section_states c) = set (map of_nat [1..<7])
     \<and> psc_completeness c \<noteq> 0
     \<and> psc_completeness c = SnapshotCompleteness_i32 (derived_completeness (map completeness_of (psc_section_states c))))"

lemma progression_check:
  "(case p of Some v \<Rightarrow> validate_progression v | None \<Rightarrow> Inr ()) = Inr u \<longleftrightarrow>
     (\<forall>v\<in>set_option p. progression_ok v)"
  by (cases p) (simp_all add: validate_progression_Inr)

lemma validate_snapshot_Inr: "validate_snapshot c = Inr () \<longleftrightarrow> snapshot_ok c"
proof (cases "psc_schema_major c = 1")
  case True
  then show ?thesis
    by (simp only: validate_snapshot_def snapshot_ok_def not_True_eq_False if_False and_then_eq_Inr
        progression_check wire_checks inventory_loop equipment_loop pal_loop base_loop
        validate_snapshot_section_states_Inr simp_thms ex_simps conj_assoc) auto
qed (simp add: validate_snapshot_def snapshot_ok_def)

section \<open>The order of entries does not matter\<close>

text \<open>
  Two snapshots with the same information: their entries may come in another order, and so may the
  lists within an entry; in a progression and among the assigned Pals an identifier may be repeated.
\<close>

definition pal_view :: "OwnedPal \<Rightarrow> OwnedPal" where
  "pal_view p = p\<lparr>pal_passive_ids := sort (pal_passive_ids p), pal_active_skill_ids := sort (pal_active_skill_ids p)\<rparr>"

definition base_view :: "BaseSnapshot \<Rightarrow> BaseSnapshot" where
  "base_view b = b\<lparr>
     bs_facilities := sort_key (\<lambda>f. (bf_building_id f, bf_count f)) (bs_facilities b),
     bs_assigned_pal_instance_ids := sort_dedup (bs_assigned_pal_instance_ids b),
     bs_storage_items := sort_key (\<lambda>i. (bsi_item_id i, bsi_quantity i)) (bs_storage_items b)\<rparr>"

definition same_snapshot :: "PersonalSnapshotContent \<Rightarrow> PersonalSnapshotContent \<Rightarrow> bool" where
  "same_snapshot a b = (
     psc_schema_major a = psc_schema_major b \<and> psc_game_build_id a = psc_game_build_id b
     \<and> psc_dataset_manifest_id a = psc_dataset_manifest_id b \<and> psc_world_id a = psc_world_id b
     \<and> psc_owner_subject_id a = psc_owner_subject_id b \<and> psc_completeness a = psc_completeness b
     \<and> psc_character a = psc_character b
     \<and> mset (psc_inventory a) = mset (psc_inventory b)
     \<and> mset (psc_equipment a) = mset (psc_equipment b)
     \<and> mset (map pal_view (psc_pals a)) = mset (map pal_view (psc_pals b))
     \<and> mset (map base_view (psc_bases a)) = mset (map base_view (psc_bases b))
     \<and> map_option canonicalize_progression (psc_progression a) = map_option canonicalize_progression (psc_progression b)
     \<and> mset (psc_section_states a) = mset (psc_section_states b))"

lemma pal_view_fields [simp]:
  "pal_ok (pal_view p) \<longleftrightarrow> pal_ok p" "pal_instance_id (pal_view p) = pal_instance_id p"
  "pal_place (pal_view p) = pal_place p" "canonicalize_pal (pal_view p) = canonicalize_pal p"
  by (simp_all add: pal_view_def pal_ok_def pal_place_def canonicalize_pal_def)

lemma base_view_fields [simp]:
  "base_ok (base_view b) \<longleftrightarrow> base_ok b" "bs_base_id (base_view b) = bs_base_id b"
  by (simp_all add: base_view_def base_ok_def)

lemma canonicalize_base_view [simp]: "canonicalize_snapshot_base (base_view b) = canonicalize_snapshot_base b"
  by (simp add: canonicalize_snapshot_base_def base_view_def tally_sorted)

lemma progression_ok_canonical [simp]: "progression_ok (canonicalize_progression p) \<longleftrightarrow> progression_ok p"
  by (simp add: progression_ok_def canonicalize_progression_def)

lemma progression_ok_same:
  assumes "map_option canonicalize_progression p = map_option canonicalize_progression q"
  shows "(\<forall>v\<in>set_option p. progression_ok v) \<longleftrightarrow> (\<forall>v\<in>set_option q. progression_ok v)"
proof -
  have canonical: "(\<forall>v\<in>set_option r. progression_ok v) \<longleftrightarrow>
      (\<forall>v\<in>set_option (map_option canonicalize_progression r). progression_ok v)" for r
    by (cases r) simp_all
  show ?thesis unfolding canonical [of p] canonical [of q] assms ..
qed

lemma derived_completeness_set: "set xs = set ys \<Longrightarrow> derived_completeness xs = derived_completeness ys"
  by (simp add: derived_completeness_def list_all_iff)

lemma section_state_ok_same:
  assumes "\<And>kind. snapshot_section_has_content a kind = snapshot_section_has_content b kind"
  shows "section_state_ok a st \<longleftrightarrow> section_state_ok b st"
  using assms by (simp add: section_state_ok_def)

lemma same_snapshot_content:
  assumes "same_snapshot a b"
  shows "snapshot_section_has_content a kind = snapshot_section_has_content b kind"
proof -
  have empty: "xs = [] \<longleftrightarrow> ys = []" if "mset (map f xs) = mset (map f ys)" for f :: "'x \<Rightarrow> 'y" and xs ys
    using that by (metis mset_eq_length length_map length_0_conv)
  have none: "p = None \<longleftrightarrow> q = None" if "map_option f p = map_option f q" for f :: "'x \<Rightarrow> 'y" and p q
    using that by (metis map_option_is_None)
  show ?thesis
    using assms empty [of "\<lambda>x. x" "psc_inventory a" "psc_inventory b"]
      empty [of "\<lambda>x. x" "psc_equipment a" "psc_equipment b"] empty [of pal_view "psc_pals a" "psc_pals b"]
      empty [of base_view "psc_bases a" "psc_bases b"]
      none [of canonicalize_progression "psc_progression a" "psc_progression b"]
    by (cases kind) (simp_all add: same_snapshot_def)
qed

lemma same_snapshot_ok:
  assumes same: "same_snapshot a b" and ok: "snapshot_ok a"
  shows "snapshot_ok b"
proof -
  have views: "mset (map pal_view (psc_pals a)) = mset (map pal_view (psc_pals b))"
    "mset (map base_view (psc_bases a)) = mset (map base_view (psc_bases b))"
    "mset (map (\<lambda>x. x) (psc_inventory a)) = mset (map (\<lambda>x. x) (psc_inventory b))"
    "mset (map (\<lambda>x. x) (psc_equipment a)) = mset (map (\<lambda>x. x) (psc_equipment b))"
    "mset (map (\<lambda>x. x) (psc_section_states a)) = mset (map (\<lambda>x. x) (psc_section_states b))"
    using same by (simp_all add: same_snapshot_def)
  have pals: "length (psc_pals a) = length (psc_pals b)"
    "(\<forall>x\<in>set (psc_pals a). pal_ok x) \<longleftrightarrow> (\<forall>x\<in>set (psc_pals b). pal_ok x)"
    "distinct (map pal_instance_id (psc_pals a)) \<longleftrightarrow> distinct (map pal_instance_id (psc_pals b))"
    "distinct (map pal_place (psc_pals a)) \<longleftrightarrow> distinct (map pal_place (psc_pals b))"
    by (rule same_views [OF views(1)]; simp)+
  have bases: "length (psc_bases a) = length (psc_bases b)"
    "(\<forall>x\<in>set (psc_bases a). base_ok x) \<longleftrightarrow> (\<forall>x\<in>set (psc_bases b). base_ok x)"
    "distinct (map bs_base_id (psc_bases a)) \<longleftrightarrow> distinct (map bs_base_id (psc_bases b))"
    by (rule same_views [OF views(2)]; simp)+
  have states: "set (psc_section_states a) = set (psc_section_states b)"
    using mset_eq_setD [OF views(5)] by simp
  have "derived_completeness (map completeness_of (psc_section_states a)) =
      derived_completeness (map completeness_of (psc_section_states b))"
    by (rule derived_completeness_set) (simp add: states)
  moreover have "section_state_ok a = section_state_ok b"
    using section_state_ok_same [OF same_snapshot_content [OF same]] by blast
  moreover have "set (psc_inventory a) = set (psc_inventory b)" "set (psc_equipment a) = set (psc_equipment b)"
    using mset_eq_setD [OF views(3)] mset_eq_setD [OF views(4)] by simp_all
  moreover have "(\<forall>p\<in>set_option (psc_progression a). progression_ok p) \<longleftrightarrow>
      (\<forall>p\<in>set_option (psc_progression b). progression_ok p)"
    using same by (intro progression_ok_same) (simp add: same_snapshot_def)
  ultimately show ?thesis
    using ok same pals bases states same_views(1) [OF views(3)] same_views(1) [OF views(4)]
      same_views(1) [OF views(5)] same_views(3) [OF views(3), of inventory_slot_key, OF refl]
      same_views(3) [OF views(4), of equipment_slot_key, OF refl] same_views(3) [OF views(5), of sst_section, OF refl]
    unfolding snapshot_ok_def same_snapshot_def by (simp only: simp_thms) (elim conjE, simp)
qed

lemma slot_order:
  "distinct (map inventory_slot_key xs) \<Longrightarrow>
     distinct (map (\<lambda>slot. (sint (is_container_kind slot), is_container_ordinal slot, is_slot_index slot)) xs)"
  "distinct (map equipment_slot_key ys) \<Longrightarrow>
     distinct (map (\<lambda>slot. (sint (es_slot_kind slot), es_slot_index slot)) ys)"
  "distinct (map sst_section zs) \<Longrightarrow> distinct (map (\<lambda>st. sint (sst_section st)) zs)"
  by (erule distinct_finer; simp add: inventory_slot_key_def equipment_slot_key_def)+

lemma same_canonical:
  assumes same: "same_snapshot a b" and ok: "snapshot_ok a"
  shows "canonical_snapshot a = canonical_snapshot b"
proof -
  have valid: "validate_snapshot a = Inr ()" "validate_snapshot b = Inr ()"
    using same_snapshot_ok [OF same ok] ok by (simp_all add: validate_snapshot_Inr)
  have distinct: "distinct (map inventory_slot_key (psc_inventory a))"
    "distinct (map equipment_slot_key (psc_equipment a))" "distinct (map sst_section (psc_section_states a))"
    "distinct (map pal_instance_id (psc_pals a))" "distinct (map bs_base_id (psc_bases a))"
    using ok by (simp_all add: snapshot_ok_def)
  have msets: "mset (psc_inventory a) = mset (psc_inventory b)" "mset (psc_equipment a) = mset (psc_equipment b)"
    "mset (psc_section_states a) = mset (psc_section_states b)"
    "mset (map pal_view (psc_pals a)) = mset (map pal_view (psc_pals b))"
    "mset (map base_view (psc_bases a)) = mset (map base_view (psc_bases b))"
    using same by (simp_all add: same_snapshot_def)
  have pal: "map canonicalize_pal ps = map canonicalize_pal (map pal_view ps)" for ps by simp
  have pals: "map canonicalize_pal (sort_key pal_instance_id (psc_pals a)) =
      map canonicalize_pal (sort_key pal_instance_id (psc_pals b))"
    unfolding pal [of "sort_key pal_instance_id (psc_pals a)"] pal [of "sort_key pal_instance_id (psc_pals b)"]
    by (simp only: canonical_entries [OF msets(4) pal_view_fields(2) distinct(4)])
  have base: "try_map canonicalize_snapshot_base bs = try_map canonicalize_snapshot_base (map base_view bs)" for bs
    by (simp add: try_map_map)
  have bases: "try_map canonicalize_snapshot_base (sort_key bs_base_id (psc_bases a)) =
      try_map canonicalize_snapshot_base (sort_key bs_base_id (psc_bases b))"
    unfolding base [of "sort_key bs_base_id (psc_bases a)"] base [of "sort_key bs_base_id (psc_bases b)"]
    by (simp only: canonical_entries [OF msets(5) base_view_fields(2) distinct(5)])
  note slots = sort_key_permuted [OF msets(1) slot_order(1) [OF distinct(1)]]
    sort_key_permuted [OF msets(2) slot_order(2) [OF distinct(2)]]
    sort_key_permuted [OF msets(3) slot_order(3) [OF distinct(3)]]
  have other: "a\<lparr>psc_inventory := i, psc_equipment := e, psc_pals := p, psc_bases := bs, psc_progression := pr,
      psc_section_states := st\<rparr> = b\<lparr>psc_inventory := i, psc_equipment := e, psc_pals := p, psc_bases := bs,
      psc_progression := pr, psc_section_states := st\<rparr>" for i e p bs pr st
    using same by (cases a; cases b) (simp add: same_snapshot_def)
  have progression: "map_option canonicalize_progression (psc_progression a) =
      map_option canonicalize_progression (psc_progression b)" using same by (simp add: same_snapshot_def)
  show ?thesis
    unfolding canonical_snapshot_def valid and_then_simps pals bases slots progression other ..
qed

text \<open>Snapshots to evaluate: two slots, one Pal, every section complete.\<close>

definition sample_slot :: "u32 \<Rightarrow> InventorySlot" where
  "sample_slot n = \<lparr>is_container_kind = 1, is_container_ordinal = 0, is_slot_index = n, is_item_id = ''wood'',
     is_quantity = 5, is_durability = None, is_rarity = None\<rparr>"

definition sample_pal :: "string list \<Rightarrow> string list \<Rightarrow> OwnedPal" where
  "sample_pal passives learned = \<lparr>pal_instance_id = replicate 16 7, pal_species_id = ''lamball'',
     pal_container_ordinal = 0, pal_level = 3, pal_iv_hp = None, pal_iv_attack = None, pal_iv_defense = None,
     pal_passive_ids = passives, pal_active_skill_ids = [],
     pal_location = Some \<lparr>pl_container_kind = 1, pl_container_ordinal = 0, pl_slot_index = 0, pl_base_id = None\<rparr>,
     pal_gender_text = Some ''female'', pal_condensation_rank = 0, pal_learned_skill_ids = learned,
     pal_soul_hp = 0, pal_soul_attack = 0, pal_soul_defense = 0, pal_soul_work_speed = 0, pal_trust = 0,
     pal_is_lucky = False, pal_is_boss = False, pal_is_alpha = False, pal_is_awakened = False,
     pal_is_mutated = False, pal_slot_index = 0, pal_base_id = None\<rparr>"

definition sample_snapshot :: "u32 list \<Rightarrow> OwnedPal \<Rightarrow> PersonalSnapshotContent" where
  "sample_snapshot slots pal = \<lparr>psc_schema_major = 1, psc_game_build_id = ''build'',
     psc_dataset_manifest_id = replicate 32 0, psc_world_id = ''world'', psc_owner_subject_id = replicate 32 1,
     psc_completeness = 1, psc_character = None, psc_inventory = map sample_slot slots, psc_equipment = [],
     psc_pals = [pal], psc_bases = [], psc_progression = None,
     psc_section_states = map (\<lambda>n. \<lparr>sst_section = n, sst_completeness = 1, sst_expected_record_count = 2,
        sst_observed_record_count = 2\<rparr>) [1, 2, 3, 4, 5, 6]\<rparr>"

definition sample_encode :: "PersonalSnapshotContent \<Rightarrow> bytes" where
  "sample_encode c = map (\<lambda>slot. ucast (is_slot_index slot)) (psc_inventory c)
     @ map of_char (concat (concat (map pal_passive_ids (psc_pals c))))"

lemma sample_text_ids:
  "text_id ''wood''" "text_id ''lamball''" "text_id ''build''" "text_id ''world''" "text_id ''swift''" "text_id ''brave''"
  by code_simp+

lemma sample_section_states:
  "section_state_values \<lparr>sst_section = n, sst_completeness = 1, sst_expected_record_count = 2,
     sst_observed_record_count = 2\<rparr> = and_then (snapshot_section_kind ''section_states.section'' n) (\<lambda>k. Inr (k, ScComplete))"
  by (simp add: section_state_values_def snapshot_completeness_def nonzero_enum_def enum_try_from_def
      validate_snapshot_counts_def)

lemma section_numbers: "of_nat ` {Suc 0..<7} = ({1, 2, 3, 4, 5, 6} :: i32 set)"
  by (simp add: atLeastLessThan_upt upt_rec)

lemma sample_snapshot_ok:
  "snapshot_ok (sample_snapshot [2, 1] (sample_pal [''swift'', ''brave''] learned))"
  by (simp add: snapshot_ok_def sample_snapshot_def sample_pal_def sample_slot_def sample_text_ids
      inventory_slot_ok_def inventory_slot_key_def pal_ok_def location_ok_def section_state_ok_values
      sample_section_states snapshot_section_kind_def nonzero_enum_def enum_try_from_def completeness_of_def
      derived_completeness_def section_numbers MAX_INVENTORY_ENTRIES_def MAX_PAL_ENTRIES_def MAX_PASSIVE_IDS_PER_PAL_def)

lemma sample_snapshot_canonical:
  "canonical_snapshot (sample_snapshot [2, 1] (sample_pal [''swift'', ''brave''] learned)) =
     Inr (sample_snapshot [1, 2] (sample_pal [''brave'', ''swift''] learned))"
  unfolding canonical_snapshot_def validate_snapshot_Inr [THEN iffD2, OF sample_snapshot_ok] and_then_simps
  by (simp add: sample_snapshot_def sample_pal_def sample_slot_def canonicalize_pal_def sort_dedup_def
      word_le_nat_alt)



text \<open>
  The learned skills of an owned Pal are the exception: they are neither checked nor sorted, so their
  order reaches the canonical content and the identity of the snapshot.
\<close>

lemma snapshot_learned_order_kept:
  assumes "canonical_snapshot a = Inr c" "p \<in> set (psc_pals a)"
  shows "\<exists>q\<in>set (psc_pals c). pal_instance_id q = pal_instance_id p
    \<and> pal_learned_skill_ids q = pal_learned_skill_ids p"
proof -
  have "psc_pals c = map canonicalize_pal (sort_key pal_instance_id (psc_pals a))"
    using assms(1) by (auto simp: canonical_snapshot_def and_then_eq_Inr)
  with assms(2) show ?thesis by (intro bexI [of _ "canonicalize_pal p"]) (simp_all add: canonicalize_pal_def)
qed

end
