(* ===== verification/Wire_Projection.thy ===== *)
theory Wire_Projection
  imports Wire_Snapshot
begin

text \<open>
  Cloud profile projections, \<open>crates/pal-wire/src/canonical.rs\<close>: validation of the six sections, the
  canonical content and the identity derived from it.  The messages are those of
  \<open>proto/palcompanion/v2/sync.proto\<close>.  The protobuf encoders are a record of functions; the encoded length
  of a message is the length of its encoding.
\<close>

section \<open>Messages\<close>

record ProjectionSectionStateV1 =
  ps_completeness :: i32
  ps_source_expected_record_count :: u32
  ps_source_observed_record_count :: u32
  ps_projected_entry_count :: u32

record CloudCharacterEntryV1 =
  cc_level :: u32
  cc_experience :: u64
  cc_allocated_hp :: u32
  cc_allocated_stamina :: u32
  cc_allocated_attack :: u32
  cc_allocated_defense :: u32
  cc_allocated_work_speed :: u32
  cc_allocated_carry_weight :: u32
  cc_technology_points :: u32
  cc_ancient_technology_points :: u32

record CloudInventoryEntryV1 =
  ci_container_kind :: i32
  ci_container_ordinal :: u32
  ci_slot_index :: u32
  ci_item_id :: string
  ci_quantity :: u64
  ci_durability :: "u32 option"
  ci_rarity :: "u32 option"

record CloudEquipmentEntryV1 =
  ce_slot_kind :: i32
  ce_slot_index :: u32
  ce_item_id :: string
  ce_durability :: "u32 option"
  ce_rarity :: "u32 option"
  ce_ammunition :: "u64 option"

record CloudPalEntryV1 =
  cpl_pal_instance_id :: bytes
  cpl_species_id :: string
  cpl_level :: u32
  cpl_gender :: i32
  cpl_iv_hp :: "u32 option"
  cpl_iv_attack :: "u32 option"
  cpl_iv_defense :: "u32 option"
  cpl_passive_ids :: "string list"
  cpl_active_skill_ids :: "string list"
  cpl_condensation_rank :: u32
  cpl_soul_hp :: u32
  cpl_soul_attack :: u32
  cpl_soul_defense :: u32
  cpl_soul_work_speed :: u32
  cpl_container_kind :: i32
  cpl_learned_skill_ids :: "string list"
  cpl_trust :: u32
  cpl_is_lucky :: bool
  cpl_is_boss :: bool
  cpl_is_alpha :: bool
  cpl_is_awakened :: bool
  cpl_is_mutated :: bool
  cpl_container_ordinal :: u32
  cpl_slot_index :: u32
  cpl_base_id :: "bytes option"

record CloudBaseFacilityV1 =
  cbf_building_id :: string
  cbf_count :: u32

record CloudBaseStorageItemV1 =
  cbi_item_id :: string
  cbi_quantity :: u64

record CloudBaseEntryV1 =
  cb_base_id :: bytes
  cb_location_id :: string
  cb_level :: u32
  cb_facilities :: "CloudBaseFacilityV1 list"
  cb_assigned_pal_instance_ids :: "bytes list"
  cb_storage_items :: "CloudBaseStorageItemV1 list"

record CloudProgressionUnlockV1 =
  cu_kind :: i32
  cu_unlock_id :: string

record CloudCharacterProjectionContentV1 =
  chs_state :: "ProjectionSectionStateV1 option"
  chs_character :: "CloudCharacterEntryV1 option"

text \<open>
  The five sections with entries: the generated types differ only in the type of their entries.
\<close>

record 'e CloudSectionContent =
  sec_state :: "ProjectionSectionStateV1 option"
  sec_entries :: "'e list"

type_synonym CloudInventoryProjectionContentV1 = "CloudInventoryEntryV1 CloudSectionContent"
type_synonym CloudEquipmentProjectionContentV1 = "CloudEquipmentEntryV1 CloudSectionContent"
type_synonym CloudPalProjectionContentV1 = "CloudPalEntryV1 CloudSectionContent"
type_synonym CloudBaseProjectionContentV1 = "CloudBaseEntryV1 CloudSectionContent"
type_synonym CloudProgressionProjectionContentV1 = "CloudProgressionUnlockV1 CloudSectionContent"

record CloudProfileProjectionContentV1 =
  cpc_schema_version :: u32
  cpc_dataset_manifest_id :: bytes
  cpc_game_build_id :: string
  cpc_character :: "CloudCharacterProjectionContentV1 option"
  cpc_inventory :: "CloudInventoryProjectionContentV1 option"
  cpc_equipment :: "CloudEquipmentProjectionContentV1 option"
  cpc_pals :: "CloudPalProjectionContentV1 option"
  cpc_bases :: "CloudBaseProjectionContentV1 option"
  cpc_progression :: "CloudProgressionProjectionContentV1 option"

record CloudProfileSectionIdentityV1 =
  csi_section :: i32
  csi_state :: "ProjectionSectionStateV1 option"
  csi_section_content_sha256 :: bytes

record CloudProfileProjectionIdentityV1 =
  cpi_schema_version :: u32
  cpi_dataset_manifest_id :: bytes
  cpi_game_build_id :: string
  cpi_sections :: "CloudProfileSectionIdentityV1 list"

record profile_codec =
  encode_profile :: "CloudProfileProjectionContentV1 \<Rightarrow> bytes"
  encode_character :: "CloudCharacterProjectionContentV1 \<Rightarrow> bytes"
  encode_inventory :: "CloudInventoryProjectionContentV1 \<Rightarrow> bytes"
  encode_equipment :: "CloudEquipmentProjectionContentV1 \<Rightarrow> bytes"
  encode_pals :: "CloudPalProjectionContentV1 \<Rightarrow> bytes"
  encode_bases :: "CloudBaseProjectionContentV1 \<Rightarrow> bytes"
  encode_progression :: "CloudProgressionProjectionContentV1 \<Rightarrow> bytes"
  encode_identity :: "CloudProfileProjectionIdentityV1 \<Rightarrow> bytes"
  digest256 :: "bytes \<Rightarrow> bytes"

section \<open>Validation\<close>

definition projection_counts_valid :: "ProjectionCompleteness \<Rightarrow> ProjectionSectionStateV1 \<Rightarrow> bool" where
  "projection_counts_valid completeness state =
     (case completeness of
        PcComplete \<Rightarrow> ps_source_expected_record_count state = ps_source_observed_record_count state
      | PcPartial \<Rightarrow> 0 < ps_source_expected_record_count state
          \<and> ps_source_observed_record_count state \<le> ps_source_expected_record_count state
      | PcUnavailable \<Rightarrow> ps_source_expected_record_count state = 0
          \<and> ps_source_observed_record_count state = 0 \<and> ps_projected_entry_count state = 0
      | PcUnknown \<Rightarrow> ps_source_expected_record_count state = 0
      | PcUnspecified \<Rightarrow> False)"

definition validate_projection_state :: "ProjectionSectionStateV1 \<Rightarrow> nat \<Rightarrow> CanonicalError + unit" where
  "validate_projection_state state actual_entry_count =
     (if 2 ^ 32 \<le> actual_entry_count then Inl (IntegerOverflow ''state.projected_entry_count'')
      else if ps_projected_entry_count state \<noteq> of_nat actual_entry_count
      then Inl (InvalidValue ''state.projected_entry_count'' ''must equal the actual top-level entry count'')
      else and_then (projection_completeness ''state.completeness'' (ps_completeness state)) (\<lambda>completeness.
        if projection_counts_valid completeness state then Inr ()
        else Inl (InvalidValue ''state'' ''counts do not match projection completeness semantics'')))"

definition validate_character_section :: "CloudCharacterProjectionContentV1 \<Rightarrow> CanonicalError + unit" where
  "validate_character_section section =
     and_then (required (chs_state section) ''character.state'') (\<lambda>state.
     validate_projection_state state (if chs_character section = None then 0 else 1))"

definition validate_inventory_entry ::
  "CloudInventoryEntryV1 \<Rightarrow> bytes set \<Rightarrow> (CanonicalError + unit) \<times> bytes set" where
  "validate_inventory_entry entry keys =
     (case and_then (inventory_container_kind ''inventory.entries.container_kind'' (ci_container_kind entry)) (\<lambda>_.
           validate_text_id ''inventory.entries.item_id'' (ci_item_id entry)) of
        Inl e \<Rightarrow> (Inl e, keys)
      | Inr _ \<Rightarrow> reject_duplicate keys ''inventory.entries''
          (inventory_key (ci_container_kind entry) (ci_container_ordinal entry) (ci_slot_index entry)))"

definition validate_inventory_section :: "CloudInventoryProjectionContentV1 \<Rightarrow> CanonicalError + unit" where
  "validate_inventory_section section =
     and_then (check_count ''inventory.entries'' (length (sec_entries section)) MAX_INVENTORY_ENTRIES) (\<lambda>_.
     and_then (required (sec_state section) ''inventory.state'') (\<lambda>state.
     and_then (validate_projection_state state (length (sec_entries section))) (\<lambda>_.
     fst (try_each validate_inventory_entry (sec_entries section) {}))))"

definition validate_equipment_entry ::
  "CloudEquipmentEntryV1 \<Rightarrow> bytes set \<Rightarrow> (CanonicalError + unit) \<times> bytes set" where
  "validate_equipment_entry entry keys =
     (case and_then (equipment_slot_kind ''equipment.entries.slot_kind'' (ce_slot_kind entry)) (\<lambda>_.
           validate_text_id ''equipment.entries.item_id'' (ce_item_id entry)) of
        Inl e \<Rightarrow> (Inl e, keys)
      | Inr _ \<Rightarrow> reject_duplicate keys ''equipment.entries''
          (equipment_key (ce_slot_kind entry) (ce_slot_index entry)))"

definition validate_equipment_section :: "CloudEquipmentProjectionContentV1 \<Rightarrow> CanonicalError + unit" where
  "validate_equipment_section section =
     and_then (check_count ''equipment.entries'' (length (sec_entries section)) MAX_EQUIPMENT_ENTRIES) (\<lambda>_.
     and_then (required (sec_state section) ''equipment.state'') (\<lambda>state.
     and_then (validate_projection_state state (length (sec_entries section))) (\<lambda>_.
     fst (try_each validate_equipment_entry (sec_entries section) {}))))"

definition validate_pal_entry_fields :: "CloudPalEntryV1 \<Rightarrow> CanonicalError + unit" where
  "validate_pal_entry_fields pal =
     and_then (validate_len ''pals.entries.pal_instance_id'' (cpl_pal_instance_id pal) 16) (\<lambda>_.
     and_then (validate_text_id ''pals.entries.species_id'' (cpl_species_id pal)) (\<lambda>_.
     and_then (pal_gender ''pals.entries.gender'' (cpl_gender pal)) (\<lambda>_.
     and_then (check_count ''pals.entries.passive_ids'' (length (cpl_passive_ids pal)) MAX_PASSIVE_IDS_PER_PAL) (\<lambda>_.
     and_then (check_count ''pals.entries.active_skill_ids'' (length (cpl_active_skill_ids pal))
                 MAX_ACTIVE_SKILL_IDS_PER_PAL) (\<lambda>_.
     and_then (check_count ''pals.entries.learned_skill_ids'' (length (cpl_learned_skill_ids pal))
                 MAX_LEARNED_SKILL_IDS_PER_PAL) (\<lambda>_.
     and_then (validate_text_ids ''pals.entries.passive_ids'' (cpl_passive_ids pal)) (\<lambda>_.
     and_then (validate_text_ids ''pals.entries.active_skill_ids'' (cpl_active_skill_ids pal)) (\<lambda>_.
     and_then (validate_text_ids ''pals.entries.learned_skill_ids'' (cpl_learned_skill_ids pal)) (\<lambda>_.
     and_then (pal_container_kind ''pals.entries.container_kind'' (cpl_container_kind pal)) (\<lambda>_.
     validate_base_location ''pals.entries.base_id'' (cpl_container_kind pal) (cpl_base_id pal)))))))))))"

definition cloud_pal_place :: "CloudPalEntryV1 \<Rightarrow> bytes" where
  "cloud_pal_place pal = pal_location_key (cpl_container_kind pal) (cpl_container_ordinal pal)
     (cpl_slot_index pal) (cpl_base_id pal)"

definition validate_pal_entry ::
  "CloudPalEntryV1 \<Rightarrow> bytes set \<times> bytes set \<Rightarrow> (CanonicalError + unit) \<times> (bytes set \<times> bytes set)" where
  "validate_pal_entry pal seen =
     (case validate_pal_entry_fields pal of
        Inl e \<Rightarrow> (Inl e, seen)
      | Inr _ \<Rightarrow>
          (case reject_duplicate (fst seen) ''pals.entries.pal_instance_id'' (cpl_pal_instance_id pal) of
             (Inl e, ids) \<Rightarrow> (Inl e, (ids, snd seen))
           | (Inr _, ids) \<Rightarrow>
               map_prod (\<lambda>r. r) (Pair ids)
                 (reject_duplicate (snd seen) ''pals.entries.location'' (cloud_pal_place pal))))"

definition validate_pal_section :: "CloudPalProjectionContentV1 \<Rightarrow> CanonicalError + unit" where
  "validate_pal_section section =
     and_then (check_count ''pals.entries'' (length (sec_entries section)) MAX_PAL_ENTRIES) (\<lambda>_.
     and_then (required (sec_state section) ''pals.state'') (\<lambda>state.
     and_then (validate_projection_state state (length (sec_entries section))) (\<lambda>_.
     fst (try_each validate_pal_entry (sec_entries section) ({}, {})))))"

text \<open>\<open>usize::checked_add\<close>\<close>

definition usize_checked_add :: "nat \<Rightarrow> nat \<Rightarrow> nat option" where
  "usize_checked_add a b = (if a + b < 2 ^ 64 then Some (a + b) else None)"

definition count_up :: "string \<Rightarrow> nat \<Rightarrow> nat \<Rightarrow> CanonicalError + nat" where
  "count_up field acc n = (case usize_checked_add acc n of None \<Rightarrow> Inl (IntegerOverflow field) | Some s \<Rightarrow> Inr s)"

definition validate_cloud_facility :: "CloudBaseFacilityV1 \<Rightarrow> CanonicalError + unit" where
  "validate_cloud_facility facility =
     and_then (validate_text_id ''bases.entries.facilities.building_id'' (cbf_building_id facility)) (\<lambda>_.
       if cbf_count facility = 0
       then Inl (InvalidValue ''bases.entries.facilities.count'' ''count must be positive'') else Inr ())"

definition validate_cloud_storage_item :: "CloudBaseStorageItemV1 \<Rightarrow> CanonicalError + unit" where
  "validate_cloud_storage_item item =
     and_then (validate_text_id ''bases.entries.storage_items.item_id'' (cbi_item_id item)) (\<lambda>_.
       if cbi_quantity item = 0
       then Inl (InvalidValue ''bases.entries.storage_items.quantity'' ''quantity must be positive'') else Inr ())"

record base_counts =
  bc_base_ids :: "bytes set"
  bc_facilities_total :: nat
  bc_assigned_total :: nat
  bc_storage_total :: nat

text \<open>The checks of a base up to its identity, with the new totals.\<close>

definition base_entry_totals :: "CloudBaseEntryV1 \<Rightarrow> base_counts \<Rightarrow> CanonicalError + (nat \<times> nat \<times> nat)" where
  "base_entry_totals base counts =
     and_then (validate_len ''bases.entries.base_id'' (cb_base_id base) 16) (\<lambda>_.
     and_then (validate_text_id ''bases.entries.location_id'' (cb_location_id base)) (\<lambda>_.
     and_then (check_count ''bases.entries.facilities'' (length (cb_facilities base)) MAX_FACILITIES_PER_BASE) (\<lambda>_.
     and_then (check_count ''bases.entries.storage_items'' (length (cb_storage_items base))
                 MAX_STORAGE_ITEMS_PER_BASE) (\<lambda>_.
     and_then (count_up ''bases.entries.facilities'' (bc_facilities_total counts)
                 (length (cb_facilities base))) (\<lambda>facilities.
     and_then (count_up ''bases.entries.assigned_pal_instance_ids'' (bc_assigned_total counts)
                 (length (cb_assigned_pal_instance_ids base))) (\<lambda>assigned.
     and_then (count_up ''bases.entries.storage_items'' (bc_storage_total counts)
                 (length (cb_storage_items base))) (\<lambda>storage.
     and_then (check_each validate_cloud_facility (cb_facilities base)) (\<lambda>_.
     and_then (check_each (\<lambda>assigned. validate_len ''bases.entries.assigned_pal_instance_ids'' assigned 16)
                 (cb_assigned_pal_instance_ids base)) (\<lambda>_.
     and_then (check_each validate_cloud_storage_item (cb_storage_items base)) (\<lambda>_.
     Inr (facilities, assigned, storage)))))))))))"

definition validate_base_entry :: "CloudBaseEntryV1 \<Rightarrow> base_counts \<Rightarrow> (CanonicalError + unit) \<times> base_counts" where
  "validate_base_entry base counts =
     (case base_entry_totals base counts of
        Inl e \<Rightarrow> (Inl e, counts)
      | Inr (facilities, assigned, storage) \<Rightarrow>
          (case reject_duplicate (bc_base_ids counts) ''bases.entries.base_id'' (cb_base_id base) of (r, ids) \<Rightarrow>
             (r, \<lparr>bc_base_ids = ids, bc_facilities_total = facilities, bc_assigned_total = assigned,
                  bc_storage_total = storage\<rparr>)))"

definition validate_base_section :: "CloudBaseProjectionContentV1 \<Rightarrow> CanonicalError + unit" where
  "validate_base_section section =
     and_then (check_count ''bases.entries'' (length (sec_entries section)) MAX_BASE_ENTRIES) (\<lambda>_.
     and_then (required (sec_state section) ''bases.state'') (\<lambda>state.
     and_then (validate_projection_state state (length (sec_entries section))) (\<lambda>_.
     case try_each validate_base_entry (sec_entries section) \<lparr>bc_base_ids = {}, bc_facilities_total = 0,
            bc_assigned_total = 0, bc_storage_total = 0\<rparr> of
       (Inl e, _) \<Rightarrow> Inl e
     | (Inr _, counts) \<Rightarrow>
         and_then (check_count ''bases.entries.facilities'' (bc_facilities_total counts) MAX_FACILITIES_TOTAL) (\<lambda>_.
         and_then (check_count ''bases.entries.assigned_pal_instance_ids'' (bc_assigned_total counts)
                     MAX_ASSIGNED_PALS_TOTAL) (\<lambda>_.
         check_count ''bases.entries.storage_items'' (bc_storage_total counts) MAX_STORAGE_ITEMS_TOTAL)))))"

definition validate_progression_entry ::
  "CloudProgressionUnlockV1 \<Rightarrow> bytes set \<Rightarrow> (CanonicalError + unit) \<times> bytes set" where
  "validate_progression_entry entry keys =
     (case and_then (progression_unlock_kind ''progression.entries.kind'' (cu_kind entry)) (\<lambda>_.
           validate_text_id ''progression.entries.unlock_id'' (cu_unlock_id entry)) of
        Inl e \<Rightarrow> (Inl e, keys)
      | Inr _ \<Rightarrow> reject_duplicate keys ''progression.entries''
          (progression_key (cu_kind entry) (cu_unlock_id entry)))"

definition validate_progression_section :: "CloudProgressionProjectionContentV1 \<Rightarrow> CanonicalError + unit" where
  "validate_progression_section section =
     and_then (check_count ''progression.entries'' (length (sec_entries section)) MAX_PROGRESSION_ENTRIES) (\<lambda>_.
     and_then (required (sec_state section) ''progression.state'') (\<lambda>state.
     and_then (validate_projection_state state (length (sec_entries section))) (\<lambda>_.
     fst (try_each validate_progression_entry (sec_entries section) {}))))"

definition validate_cloud_profile_projection :: "CloudProfileProjectionContentV1 \<Rightarrow> CanonicalError + unit" where
  "validate_cloud_profile_projection content =
     (if cpc_schema_version content \<noteq> 1
      then Inl (InvalidValue ''schema_version'' ''expected schema version 1'')
      else
        and_then (validate_len ''dataset_manifest_id'' (cpc_dataset_manifest_id content) 32) (\<lambda>_.
        and_then (validate_text_id ''game_build_id'' (cpc_game_build_id content)) (\<lambda>_.
        and_then (and_then (required (cpc_character content) ''character'') validate_character_section) (\<lambda>_.
        and_then (and_then (required (cpc_inventory content) ''inventory'') validate_inventory_section) (\<lambda>_.
        and_then (and_then (required (cpc_equipment content) ''equipment'') validate_equipment_section) (\<lambda>_.
        and_then (and_then (required (cpc_pals content) ''pals'') validate_pal_section) (\<lambda>_.
        and_then (and_then (required (cpc_bases content) ''bases'') validate_base_section) (\<lambda>_.
        and_then (required (cpc_progression content) ''progression'') validate_progression_section))))))))"

section \<open>Canonical content\<close>

definition canonicalize_cloud_base :: "CloudBaseEntryV1 \<Rightarrow> CanonicalError + CloudBaseEntryV1" where
  "canonicalize_cloud_base base =
     and_then (tally ''bases.entries.facilities.count''
                 (map (\<lambda>f. (cbf_building_id f, cbf_count f)) (cb_facilities base)) []) (\<lambda>facilities.
     and_then (tally ''bases.entries.storage_items.quantity''
                 (map (\<lambda>i. (cbi_item_id i, cbi_quantity i)) (cb_storage_items base)) []) (\<lambda>storage.
     Inr (base\<lparr>
       cb_facilities := map (\<lambda>(building_id, count). \<lparr>cbf_building_id = building_id, cbf_count = count\<rparr>) facilities,
       cb_assigned_pal_instance_ids := sort_dedup (cb_assigned_pal_instance_ids base),
       cb_storage_items := map (\<lambda>(item_id, quantity). \<lparr>cbi_item_id = item_id, cbi_quantity = quantity\<rparr>) storage\<rparr>)))"

definition canonicalize_cloud_pal :: "CloudPalEntryV1 \<Rightarrow> CloudPalEntryV1" where
  "canonicalize_cloud_pal pal = pal\<lparr>
     cpl_passive_ids := sort_dedup (cpl_passive_ids pal),
     cpl_active_skill_ids := sort_dedup (cpl_active_skill_ids pal),
     cpl_learned_skill_ids := sort_dedup (cpl_learned_skill_ids pal)\<rparr>"

definition inventory_order :: "CloudInventoryEntryV1 \<Rightarrow> int \<times> u32 \<times> u32" where
  "inventory_order entry = (sint (ci_container_kind entry), ci_container_ordinal entry, ci_slot_index entry)"

definition equipment_order :: "CloudEquipmentEntryV1 \<Rightarrow> int \<times> u32" where
  "equipment_order entry = (sint (ce_slot_kind entry), ce_slot_index entry)"

definition progression_order :: "CloudProgressionUnlockV1 \<Rightarrow> int \<times> string" where
  "progression_order entry = (sint (cu_kind entry), cu_unlock_id entry)"

text \<open>
  \<open>canonicalize_cloud_profile_sections\<close>; the sections that validation requires are unwrapped, so a missing
  one would be a panic, the outcome \<open>None\<close>.
\<close>

definition canonicalize_cloud_profile_sections ::
  "profile_codec \<Rightarrow> CloudProfileProjectionContentV1 \<Rightarrow> (CanonicalError + CloudProfileProjectionContentV1) option" where
  "canonicalize_cloud_profile_sections C content =
     (case validate_cloud_profile_projection content of
        Inl e \<Rightarrow> Some (Inl e)
      | Inr _ \<Rightarrow>
        (case (cpc_inventory content, cpc_equipment content, cpc_pals content, cpc_bases content,
               cpc_progression content) of
           (Some inventory, Some equipment, Some pals, Some bases, Some progression) \<Rightarrow>
             Some (and_then (try_map canonicalize_cloud_base (sort_key cb_base_id (sec_entries bases))) (\<lambda>base_entries.
               let canonical = content\<lparr>
                 cpc_inventory := Some (inventory\<lparr>sec_entries := sort_key inventory_order (sec_entries inventory)\<rparr>),
                 cpc_equipment := Some (equipment\<lparr>sec_entries := sort_key equipment_order (sec_entries equipment)\<rparr>),
                 cpc_pals := Some (pals\<lparr>sec_entries :=
                   map canonicalize_cloud_pal (sort_key cpl_pal_instance_id (sec_entries pals))\<rparr>),
                 cpc_bases := Some (bases\<lparr>sec_entries := base_entries\<rparr>),
                 cpc_progression := Some (progression\<lparr>sec_entries :=
                   sort_key progression_order (sec_entries progression)\<rparr>)\<rparr>
               in and_then (check_content_length (length (encode_profile C canonical))) (\<lambda>_. Inr canonical)))
         | _ \<Rightarrow> None))"

definition canonical_cloud_profile_projection_content ::
  "profile_codec \<Rightarrow> CloudProfileProjectionContentV1 \<Rightarrow> (CanonicalError + bytes) option" where
  "canonical_cloud_profile_projection_content C content =
     map_option (\<lambda>r. and_then r (\<lambda>canonical.
        let bytes = encode_profile C canonical in
        and_then (check_content_length (length bytes)) (\<lambda>_. Inr bytes)))
       (canonicalize_cloud_profile_sections C content)"

definition section_identity ::
  "profile_codec \<Rightarrow> ProjectionSectionKind \<Rightarrow> ProjectionSectionStateV1 \<Rightarrow> bytes \<Rightarrow> CloudProfileSectionIdentityV1" where
  "section_identity C section state encoded =
     \<lparr>csi_section = ProjectionSectionKind_i32 section, csi_state = Some state,
      csi_section_content_sha256 = digest256 C encoded\<rparr>"

definition canonical_profile_section_identities ::
  "profile_codec \<Rightarrow> CloudProfileProjectionContentV1 \<Rightarrow> CanonicalError + CloudProfileSectionIdentityV1 list" where
  "canonical_profile_section_identities C content =
     and_then (required (cpc_character content) ''character'') (\<lambda>character.
     and_then (required (cpc_inventory content) ''inventory'') (\<lambda>inventory.
     and_then (required (cpc_equipment content) ''equipment'') (\<lambda>equipment.
     and_then (required (cpc_pals content) ''pals'') (\<lambda>pals.
     and_then (required (cpc_bases content) ''bases'') (\<lambda>bases.
     and_then (required (cpc_progression content) ''progression'') (\<lambda>progression.
     and_then (required (chs_state character) ''character.state'') (\<lambda>character_state.
     and_then (required (sec_state inventory) ''inventory.state'') (\<lambda>inventory_state.
     and_then (required (sec_state equipment) ''equipment.state'') (\<lambda>equipment_state.
     and_then (required (sec_state pals) ''pals.state'') (\<lambda>pals_state.
     and_then (required (sec_state bases) ''bases.state'') (\<lambda>bases_state.
     and_then (required (sec_state progression) ''progression.state'') (\<lambda>progression_state.
     Inr [section_identity C PskCharacter character_state (encode_character C character),
          section_identity C PskInventory inventory_state (encode_inventory C inventory),
          section_identity C PskEquipment equipment_state (encode_equipment C equipment),
          section_identity C PskPals pals_state (encode_pals C pals),
          section_identity C PskBases bases_state (encode_bases C bases),
          section_identity C PskProgression progression_state (encode_progression C progression)]))))))))))))"

definition canonical_cloud_profile_projection_identity ::
  "profile_codec \<Rightarrow> CloudProfileProjectionContentV1 \<Rightarrow> (CanonicalError + bytes) option" where
  "canonical_cloud_profile_projection_identity C content =
     map_option (\<lambda>r. and_then r (\<lambda>canonical.
        and_then (canonical_profile_section_identities C canonical) (\<lambda>sections.
        Inr (encode_identity C \<lparr>cpi_schema_version = cpc_schema_version canonical,
               cpi_dataset_manifest_id = cpc_dataset_manifest_id canonical,
               cpi_game_build_id = cpc_game_build_id canonical, cpi_sections = sections\<rparr>))))
       (canonicalize_cloud_profile_sections C content)"

definition cloud_profile_projection_id ::
  "profile_codec \<Rightarrow> CloudProfileProjectionContentV1 \<Rightarrow> (CanonicalError + bytes) option" where
  "cloud_profile_projection_id C content =
     map_option (\<lambda>r. and_then r (\<lambda>bytes. Inr (digest256 C bytes)))
       (canonical_cloud_profile_projection_identity C content)"


section \<open>What validation accepts\<close>

definition state_ok :: "ProjectionSectionStateV1 option \<Rightarrow> nat \<Rightarrow> bool" where
  "state_ok st n = (\<exists>s c. st = Some s \<and> n < 2 ^ 32 \<and> ps_projected_entry_count s = of_nat n
     \<and> ps_completeness s = ProjectionCompleteness_i32 c \<and> ps_completeness s \<noteq> 0 \<and> projection_counts_valid c s)"

lemma validate_projection_state_Inr:
  "validate_projection_state s n = Inr u \<longleftrightarrow> state_ok (Some s) n"
  by (auto simp: validate_projection_state_def state_ok_def and_then_eq_Inr wire_checks)

lemma state_check:
  "and_then (required st field) (\<lambda>s. and_then (validate_projection_state s n) (\<lambda>_. r)) = Inr u \<longleftrightarrow>
     state_ok st n \<and> r = Inr u"
  by (cases st) (auto simp: and_then_eq_Inr wire_checks validate_projection_state_Inr required_def state_ok_def)

definition cloud_inventory_ok :: "CloudInventoryEntryV1 \<Rightarrow> bool" where
  "cloud_inventory_ok e = (ci_container_kind e \<in> {1, 2, 3} \<and> text_id (ci_item_id e))"

definition cloud_inventory_key :: "CloudInventoryEntryV1 \<Rightarrow> bytes" where
  "cloud_inventory_key e = inventory_key (ci_container_kind e) (ci_container_ordinal e) (ci_slot_index e)"

definition cloud_equipment_ok :: "CloudEquipmentEntryV1 \<Rightarrow> bool" where
  "cloud_equipment_ok e = (ce_slot_kind e \<in> {1, 2, 3, 4, 5} \<and> text_id (ce_item_id e))"

definition cloud_equipment_key :: "CloudEquipmentEntryV1 \<Rightarrow> bytes" where
  "cloud_equipment_key e = equipment_key (ce_slot_kind e) (ce_slot_index e)"

definition cloud_progression_ok :: "CloudProgressionUnlockV1 \<Rightarrow> bool" where
  "cloud_progression_ok e = (cu_kind e \<in> {1, 2, 3, 4, 5, 6, 7, 8, 9} \<and> text_id (cu_unlock_id e))"

definition cloud_progression_key :: "CloudProgressionUnlockV1 \<Rightarrow> bytes" where
  "cloud_progression_key e = progression_key (cu_kind e) (cu_unlock_id e)"

definition cloud_pal_ok :: "CloudPalEntryV1 \<Rightarrow> bool" where
  "cloud_pal_ok p = (length (cpl_pal_instance_id p) = 16 \<and> text_id (cpl_species_id p) \<and> cpl_gender p \<in> {1, 2, 3}
     \<and> length (cpl_passive_ids p) \<le> MAX_PASSIVE_IDS_PER_PAL
     \<and> length (cpl_active_skill_ids p) \<le> MAX_ACTIVE_SKILL_IDS_PER_PAL
     \<and> length (cpl_learned_skill_ids p) \<le> MAX_LEARNED_SKILL_IDS_PER_PAL
     \<and> (\<forall>v\<in>set (cpl_passive_ids p). text_id v) \<and> (\<forall>v\<in>set (cpl_active_skill_ids p). text_id v)
     \<and> (\<forall>v\<in>set (cpl_learned_skill_ids p). text_id v)
     \<and> cpl_container_kind p \<in> {1, 2, 3, 4}
     \<and> (case cpl_base_id p of None \<Rightarrow> cpl_container_kind p \<noteq> 3
        | Some b \<Rightarrow> cpl_container_kind p = 3 \<and> length b = 16))"

definition cloud_base_ok :: "CloudBaseEntryV1 \<Rightarrow> bool" where
  "cloud_base_ok b = (length (cb_base_id b) = 16 \<and> text_id (cb_location_id b)
     \<and> length (cb_facilities b) \<le> MAX_FACILITIES_PER_BASE \<and> length (cb_storage_items b) \<le> MAX_STORAGE_ITEMS_PER_BASE
     \<and> (\<forall>f\<in>set (cb_facilities b). text_id (cbf_building_id f) \<and> cbf_count f \<noteq> 0)
     \<and> (\<forall>a\<in>set (cb_assigned_pal_instance_ids b). length a = 16)
     \<and> (\<forall>i\<in>set (cb_storage_items b). text_id (cbi_item_id i) \<and> cbi_quantity i \<noteq> 0))"

lemma cloud_inventory_loop:
  "fst (try_each validate_inventory_entry xs {}) = Inr u \<longleftrightarrow>
     (\<forall>x\<in>set xs. cloud_inventory_ok x) \<and> distinct (map cloud_inventory_key xs)"
  by (rule checked_loop [OF validate_inventory_entry_def [folded cloud_inventory_key_def]])
    (auto simp: cloud_inventory_ok_def and_then_eq_Inr wire_checks)

lemma cloud_equipment_loop:
  "fst (try_each validate_equipment_entry xs {}) = Inr u \<longleftrightarrow>
     (\<forall>x\<in>set xs. cloud_equipment_ok x) \<and> distinct (map cloud_equipment_key xs)"
  by (rule checked_loop [OF validate_equipment_entry_def [folded cloud_equipment_key_def]])
    (auto simp: cloud_equipment_ok_def and_then_eq_Inr wire_checks)

lemma cloud_progression_loop:
  "fst (try_each validate_progression_entry xs {}) = Inr u \<longleftrightarrow>
     (\<forall>x\<in>set xs. cloud_progression_ok x) \<and> distinct (map cloud_progression_key xs)"
  by (rule checked_loop [OF validate_progression_entry_def [folded cloud_progression_key_def]])
    (auto simp: cloud_progression_ok_def and_then_eq_Inr wire_checks)

lemma pal_enums:
  "(\<exists>k. pal_gender field v = Inr k \<and> P) \<longleftrightarrow> v \<in> {1, 2, 3} \<and> P"
  "(\<exists>k. pal_container_kind field v = Inr k \<and> P) \<longleftrightarrow> v \<in> {1, 2, 3, 4} \<and> P"
  by (simp_all add: container_kinds)

lemma validate_pal_entry_fields_Inr: "validate_pal_entry_fields p = Inr u \<longleftrightarrow> cloud_pal_ok p"
  unfolding validate_pal_entry_fields_def and_then_eq_Inr pal_enums wire_checks cloud_pal_ok_def
  by (simp only: simp_thms ex_simps conj_assoc)

lemma validate_pal_entry_Inr:
  "fst (validate_pal_entry p seen) = Inr () \<longleftrightarrow>
     cloud_pal_ok p \<and> cpl_pal_instance_id p \<notin> fst seen \<and> cloud_pal_place p \<notin> snd seen"
  using validate_pal_entry_fields_Inr [of p "()"]
  by (cases "validate_pal_entry_fields p") (auto simp: validate_pal_entry_def reject_duplicate_def)

lemma validate_pal_entry_state:
  "fst (validate_pal_entry p seen) = Inr () \<Longrightarrow> snd (validate_pal_entry p seen) =
     (insert (cpl_pal_instance_id p) (fst seen), insert (cloud_pal_place p) (snd seen))"
  by (cases "validate_pal_entry_fields p") (auto simp: validate_pal_entry_def reject_duplicate_def split: if_splits)

lemma cloud_pal_loop:
  "fst (try_each validate_pal_entry xs ({}, {})) = Inr u \<longleftrightarrow>
     (\<forall>x\<in>set xs. cloud_pal_ok x) \<and> distinct (map cpl_pal_instance_id xs) \<and> distinct (map cloud_pal_place xs)"
proof -
  let ?none = "({}, {}) :: bytes set \<times> bytes set"
  have "fst (try_each validate_pal_entry xs ?none) = Inr () \<longleftrightarrow>
      (\<forall>x\<in>set xs. cloud_pal_ok x \<and> cpl_pal_instance_id x \<notin> fst ?none \<and> cloud_pal_place x \<notin> snd ?none)
      \<and> sorted_wrt (\<lambda>x y. \<not> (cpl_pal_instance_id x = cpl_pal_instance_id y \<or> cloud_pal_place x = cloud_pal_place y)) xs"
    by (rule try_each_fresh [where fresh = "\<lambda>p seen. cpl_pal_instance_id p \<notin> fst seen \<and> cloud_pal_place p \<notin> snd seen"])
      (rule validate_pal_entry_Inr, auto simp: validate_pal_entry_state)
  then show ?thesis by (simp add: no_clash_both)
qed

definition facility_count :: "CloudBaseEntryV1 \<Rightarrow> nat" where
  "facility_count b = length (cb_facilities b)"
definition assigned_count :: "CloudBaseEntryV1 \<Rightarrow> nat" where
  "assigned_count b = length (cb_assigned_pal_instance_ids b)"
definition storage_count :: "CloudBaseEntryV1 \<Rightarrow> nat" where
  "storage_count b = length (cb_storage_items b)"

lemmas count_defs = facility_count_def assigned_count_def storage_count_def

lemma count_up_Inr: "count_up field acc n = Inr s \<longleftrightarrow> s = acc + n \<and> s < 2 ^ 64"
  by (auto simp: count_up_def usize_checked_add_def)

lemma base_entry_totals_Inr:
  "base_entry_totals b c = Inr (f, a, s) \<longleftrightarrow> cloud_base_ok b
     \<and> f = bc_facilities_total c + facility_count b \<and> f < 2 ^ 64
     \<and> a = bc_assigned_total c + assigned_count b \<and> a < 2 ^ 64
     \<and> s = bc_storage_total c + storage_count b \<and> s < 2 ^ 64"
  by (auto simp: base_entry_totals_def and_then_eq_Inr check_each_Inr count_up_Inr wire_checks cloud_base_ok_def
      validate_cloud_facility_def validate_cloud_storage_item_def count_defs)

lemma validate_base_entry_Inr:
  "fst (validate_base_entry b c) = Inr () \<longleftrightarrow> cloud_base_ok b \<and> cb_base_id b \<notin> bc_base_ids c
     \<and> bc_facilities_total c + facility_count b < 2 ^ 64 \<and> bc_assigned_total c + assigned_count b < 2 ^ 64
     \<and> bc_storage_total c + storage_count b < 2 ^ 64" (is "_ \<longleftrightarrow> ?ok")
proof (cases "base_entry_totals b c")
  case (Inl e)
  then show ?thesis
    using base_entry_totals_Inr [of b c "bc_facilities_total c + facility_count b"
        "bc_assigned_total c + assigned_count b" "bc_storage_total c + storage_count b"]
    by (simp add: validate_base_entry_def)
next
  case (Inr v)
  then show ?thesis using base_entry_totals_Inr [of b c "fst v" "fst (snd v)" "snd (snd v)"]
    by (cases v) (simp add: validate_base_entry_def reject_duplicate_def)
qed

lemma validate_base_entry_state:
  "fst (validate_base_entry b c) = Inr () \<Longrightarrow> snd (validate_base_entry b c) =
     \<lparr>bc_base_ids = insert (cb_base_id b) (bc_base_ids c),
      bc_facilities_total = bc_facilities_total c + facility_count b,
      bc_assigned_total = bc_assigned_total c + assigned_count b,
      bc_storage_total = bc_storage_total c + storage_count b\<rparr>"
proof (cases "base_entry_totals b c")
  case (Inr v)
  then show ?thesis using base_entry_totals_Inr [of b c "fst v" "fst (snd v)" "snd (snd v)"]
    by (cases v) (simp add: validate_base_entry_def reject_duplicate_def)
qed (simp add: validate_base_entry_def)

lemma cloud_base_loop:
  assumes "F < 2 ^ 64" "A < 2 ^ 64" "S < 2 ^ 64"
  shows "(\<exists>c'. try_each validate_base_entry bs c = (Inr (), c') \<and> bc_facilities_total c' \<le> F
      \<and> bc_assigned_total c' \<le> A \<and> bc_storage_total c' \<le> S) \<longleftrightarrow>
    (\<forall>b\<in>set bs. cloud_base_ok b \<and> cb_base_id b \<notin> bc_base_ids c) \<and> distinct (map cb_base_id bs)
    \<and> bc_facilities_total c + sum_list (map facility_count bs) \<le> F
    \<and> bc_assigned_total c + sum_list (map assigned_count bs) \<le> A
    \<and> bc_storage_total c + sum_list (map storage_count bs) \<le> S"
proof (induction bs arbitrary: c)
  case (Cons b bs)
  show ?case
  proof (cases "fst (validate_base_entry b c) = Inr ()")
    case True
    then obtain c1 where step: "validate_base_entry b c = (Inr (), c1)" by (cases "validate_base_entry b c") auto
    have c1: "c1 = \<lparr>bc_base_ids = insert (cb_base_id b) (bc_base_ids c),
      bc_facilities_total = bc_facilities_total c + facility_count b,
      bc_assigned_total = bc_assigned_total c + assigned_count b,
      bc_storage_total = bc_storage_total c + storage_count b\<rparr>"
      using validate_base_entry_state [OF True] step by simp
    have "cloud_base_ok b" "cb_base_id b \<notin> bc_base_ids c" using True validate_base_entry_Inr by auto
    then show ?thesis using Cons.IH [of c1] by (auto simp: step c1 add.assoc image_iff)
  next
    case False
    then obtain e s where step: "validate_base_entry b c = (Inl e, s)"
      by (cases "validate_base_entry b c"; cases "fst (validate_base_entry b c)") auto
    have "\<not> (cloud_base_ok b \<and> cb_base_id b \<notin> bc_base_ids c
        \<and> bc_facilities_total c + facility_count b \<le> F \<and> bc_assigned_total c + assigned_count b \<le> A
        \<and> bc_storage_total c + storage_count b \<le> S)"
      using False assms by (auto simp: validate_base_entry_Inr)
    then show ?thesis by (auto simp: step)
  qed
qed simp

definition section_ok :: "nat \<Rightarrow> ('e \<Rightarrow> bool) \<Rightarrow> ('e \<Rightarrow> bytes) \<Rightarrow> 'e CloudSectionContent \<Rightarrow> bool" where
  "section_ok limit ok key s = (length (sec_entries s) \<le> limit \<and> state_ok (sec_state s) (length (sec_entries s))
     \<and> (\<forall>x\<in>set (sec_entries s). ok x) \<and> distinct (map key (sec_entries s)))"

definition pal_section_ok :: "CloudPalProjectionContentV1 \<Rightarrow> bool" where
  "pal_section_ok s = (section_ok MAX_PAL_ENTRIES cloud_pal_ok cpl_pal_instance_id s
     \<and> distinct (map cloud_pal_place (sec_entries s)))"

definition base_section_ok :: "CloudBaseProjectionContentV1 \<Rightarrow> bool" where
  "base_section_ok s = (section_ok MAX_BASE_ENTRIES cloud_base_ok cb_base_id s
     \<and> sum_list (map facility_count (sec_entries s)) \<le> MAX_FACILITIES_TOTAL
     \<and> sum_list (map assigned_count (sec_entries s)) \<le> MAX_ASSIGNED_PALS_TOTAL
     \<and> sum_list (map storage_count (sec_entries s)) \<le> MAX_STORAGE_ITEMS_TOTAL)"

definition profile_ok :: "CloudProfileProjectionContentV1 \<Rightarrow> bool" where
  "profile_ok c = (cpc_schema_version c = 1 \<and> length (cpc_dataset_manifest_id c) = 32 \<and> text_id (cpc_game_build_id c)
     \<and> (\<exists>s. cpc_character c = Some s \<and> state_ok (chs_state s) (if chs_character s = None then 0 else 1))
     \<and> (\<exists>s. cpc_inventory c = Some s \<and> section_ok MAX_INVENTORY_ENTRIES cloud_inventory_ok cloud_inventory_key s)
     \<and> (\<exists>s. cpc_equipment c = Some s \<and> section_ok MAX_EQUIPMENT_ENTRIES cloud_equipment_ok cloud_equipment_key s)
     \<and> (\<exists>s. cpc_pals c = Some s \<and> pal_section_ok s)
     \<and> (\<exists>s. cpc_bases c = Some s \<and> base_section_ok s)
     \<and> (\<exists>s. cpc_progression c = Some s \<and> section_ok MAX_PROGRESSION_ENTRIES cloud_progression_ok cloud_progression_key s))"

lemma base_totals_check:
  "(case run of (Inl e, _) \<Rightarrow> Inl e
    | (Inr _, counts) \<Rightarrow>
        and_then (check_count f1 (bc_facilities_total counts) F) (\<lambda>_.
        and_then (check_count f2 (bc_assigned_total counts) A) (\<lambda>_.
        check_count f3 (bc_storage_total counts) S))) = Inr u \<longleftrightarrow>
   (\<exists>c'. run = (Inr (), c') \<and> bc_facilities_total c' \<le> F \<and> bc_assigned_total c' \<le> A \<and> bc_storage_total c' \<le> S)"
  by (auto simp: and_then_eq_Inr wire_checks split: prod.split sum.split)

lemma base_section_Inr: "validate_base_section s = Inr u \<longleftrightarrow> base_section_ok s"
proof -
  have bounds: "MAX_FACILITIES_TOTAL < 2 ^ 64" "MAX_ASSIGNED_PALS_TOTAL < 2 ^ 64" "MAX_STORAGE_ITEMS_TOTAL < 2 ^ 64"
    by (simp_all add: MAX_FACILITIES_TOTAL_def MAX_ASSIGNED_PALS_TOTAL_def MAX_STORAGE_ITEMS_TOTAL_def)
  show ?thesis
    unfolding validate_base_section_def and_then_eq_Inr [of "check_count _ _ _"] state_check wire_checks
      base_totals_check cloud_base_loop [OF bounds] base_section_ok_def section_ok_def
    by auto
qed

lemma character_section_Inr:
  "validate_character_section s = Inr u \<longleftrightarrow> state_ok (chs_state s) (if chs_character s = None then 0 else 1)"
  by (cases "chs_state s") (auto simp: validate_character_section_def required_def validate_projection_state_Inr state_ok_def)

lemmas section_defs = validate_inventory_section_def validate_equipment_section_def
  validate_pal_section_def validate_progression_section_def

lemma entry_sections_Inr:
  "validate_inventory_section i = Inr u \<longleftrightarrow> section_ok MAX_INVENTORY_ENTRIES cloud_inventory_ok cloud_inventory_key i"
  "validate_equipment_section e = Inr u \<longleftrightarrow> section_ok MAX_EQUIPMENT_ENTRIES cloud_equipment_ok cloud_equipment_key e"
  "validate_pal_section p = Inr u \<longleftrightarrow> pal_section_ok p"
  "validate_progression_section g = Inr u \<longleftrightarrow>
     section_ok MAX_PROGRESSION_ENTRIES cloud_progression_ok cloud_progression_key g"
  unfolding section_defs and_then_eq_Inr [of "check_count _ _ _"] state_check wire_checks section_ok_def
    pal_section_ok_def cloud_inventory_loop cloud_equipment_loop cloud_pal_loop cloud_progression_loop
  by auto

lemma validate_cloud_profile_Inr: "validate_cloud_profile_projection c = Inr u \<longleftrightarrow> profile_ok c"
proof (cases "cpc_schema_version c = 1")
  case True
  then show ?thesis
    by (simp only: validate_cloud_profile_projection_def not_True_eq_False if_False and_then_eq_Inr
        wire_checks character_section_Inr entry_sections_Inr base_section_Inr profile_ok_def simp_thms
        ex_simps conj_assoc)
qed (simp add: validate_cloud_profile_projection_def profile_ok_def)

section \<open>Canonical content is canonical\<close>

lemma sort_key_fixed: "sorted (map key xs) \<Longrightarrow> sort_key key xs = xs"
  by (rule properties_for_sort_key) simp_all

lemma canonicalize_cloud_pal_fields [simp]:
  "cpl_pal_instance_id (canonicalize_cloud_pal p) = cpl_pal_instance_id p"
  "cloud_pal_place (canonicalize_cloud_pal p) = cloud_pal_place p"
  "canonicalize_cloud_pal (canonicalize_cloud_pal p) = canonicalize_cloud_pal p"
  by (simp_all add: canonicalize_cloud_pal_def cloud_pal_place_def)

lemma canonicalize_cloud_pal_ok: "cloud_pal_ok p \<Longrightarrow> cloud_pal_ok (canonicalize_cloud_pal p)"
  using length_sort_dedup [of "cpl_passive_ids p"] length_sort_dedup [of "cpl_active_skill_ids p"]
    length_sort_dedup [of "cpl_learned_skill_ids p"]
  by (cases "cpl_base_id p") (auto simp: cloud_pal_ok_def canonicalize_cloud_pal_def)

lemma canonicalize_cloud_base_Inr:
  assumes "canonicalize_cloud_base b = Inr d"
  shows "cb_base_id d = cb_base_id b" "canonicalize_cloud_base d = Inr d"
    "cloud_base_ok b \<Longrightarrow> cloud_base_ok d"
    "facility_count d \<le> facility_count b" "assigned_count d \<le> assigned_count b" "storage_count d \<le> storage_count b"
proof -
  let ?f = "map (\<lambda>f. (cbf_building_id f, cbf_count f))" and ?i = "map (\<lambda>i. (cbi_item_id i, cbi_quantity i))"
  obtain fs st where f: "tally ''bases.entries.facilities.count'' (?f (cb_facilities b)) [] = Inr fs"
    and i: "tally ''bases.entries.storage_items.quantity'' (?i (cb_storage_items b)) [] = Inr st"
    and d: "d = b\<lparr>cb_facilities := map (\<lambda>(k, n). \<lparr>cbf_building_id = k, cbf_count = n\<rparr>) fs,
       cb_assigned_pal_instance_ids := sort_dedup (cb_assigned_pal_instance_ids b),
       cb_storage_items := map (\<lambda>(k, n). \<lparr>cbi_item_id = k, cbi_quantity = n\<rparr>) st\<rparr>"
    using assms by (auto simp: canonicalize_cloud_base_def and_then_eq_Inr)
  have pairs: "?f (cb_facilities d) = fs" "?i (cb_storage_items d) = st" by (simp_all add: d case_prod_beta comp_def)
  show "cb_base_id d = cb_base_id b" by (simp add: d)
  show "canonicalize_cloud_base d = Inr d"
    using tally_again [OF f] tally_again [OF i] unfolding canonicalize_cloud_base_def pairs
    by (simp add: d)
  have len: "length fs \<le> length (cb_facilities b)" "length st \<le> length (cb_storage_items b)"
    using arg_cong [OF tally_keys [OF f], of length] arg_cong [OF tally_keys [OF i], of length]
      length_sort_dedup [of "map fst (?f (cb_facilities b))"] length_sort_dedup [of "map fst (?i (cb_storage_items b))"]
    by simp_all
  then show "facility_count d \<le> facility_count b" "storage_count d \<le> storage_count b"
    by (simp_all add: d count_defs)
  show "assigned_count d \<le> assigned_count b" by (simp add: d count_defs length_sort_dedup)
  have keys: "fst ` set fs = cbf_building_id ` set (cb_facilities b)" "fst ` set st = cbi_item_id ` set (cb_storage_items b)"
    using arg_cong [OF tally_keys [OF f], of set] arg_cong [OF tally_keys [OF i], of set]
    by (simp_all add: image_image)
  show "cloud_base_ok d" if ok: "cloud_base_ok b"
  proof -
    have "text_id k \<and> n \<noteq> 0" if "(k, n) \<in> set fs" for k n
      using ok tally_positive [OF f _ that] imageI [OF that, of fst] by (auto simp: cloud_base_ok_def keys)
    moreover have "text_id k \<and> n \<noteq> 0" if "(k, n) \<in> set st" for k n
      using ok tally_positive [OF i _ that] imageI [OF that, of fst] by (auto simp: cloud_base_ok_def keys)
    ultimately show ?thesis using ok len by (auto simp: cloud_base_ok_def d)
  qed
qed

lemma section_ok_entries:
  assumes "section_ok limit ok key s" "length ys = length (sec_entries s)" "\<forall>y\<in>set ys. ok y" "distinct (map key ys)"
  shows "section_ok limit ok key (s\<lparr>sec_entries := ys\<rparr>)"
  using assms by (simp add: section_ok_def)

lemma section_ok_sorted: "section_ok limit ok key s \<Longrightarrow> section_ok limit ok key (s\<lparr>sec_entries := sort_key k (sec_entries s)\<rparr>)"
  by (rule section_ok_entries) (auto simp: section_ok_def distinct_map)

lemma pal_section_canonical:
  "pal_section_ok s \<Longrightarrow>
     pal_section_ok (s\<lparr>sec_entries := map canonicalize_cloud_pal (sort_key cpl_pal_instance_id (sec_entries s))\<rparr>)"
  unfolding pal_section_ok_def
  by (intro conjI section_ok_entries)
    (auto simp: section_ok_def distinct_map comp_def inj_on_def canonicalize_cloud_pal_ok)

lemma list_all2_sums:
  "list_all2 R xs ys \<Longrightarrow> (\<And>x y. R x y \<Longrightarrow> f y \<le> (f x :: nat)) \<Longrightarrow> sum_list (map f ys) \<le> sum_list (map f xs)"
  by (induction rule: list_all2_induct) (auto intro: add_mono)

lemma sum_sort_key: "sum_list (map f (sort_key k xs)) = (sum_list (map f xs) :: nat)"
  by (metis mset_map mset_sort sum_mset_sum_list)

lemma base_entries_canonical:
  assumes "try_map canonicalize_cloud_base (sort_key cb_base_id bs) = Inr ds"
  shows "map cb_base_id ds = map cb_base_id (sort_key cb_base_id bs)"
    "try_map canonicalize_cloud_base (sort_key cb_base_id ds) = Inr ds"
proof -
  have run: "list_all2 (\<lambda>b d. canonicalize_cloud_base b = Inr d) (sort_key cb_base_id bs) ds"
    using assms by (simp add: try_map_Inr)
  then show ids: "map cb_base_id ds = map cb_base_id (sort_key cb_base_id bs)"
    by (induction rule: list_all2_induct) (simp_all add: canonicalize_cloud_base_Inr(1))
  have "list_all2 (\<lambda>b d. canonicalize_cloud_base b = Inr d) ds ds"
    using run by (induction rule: list_all2_induct) (simp_all add: canonicalize_cloud_base_Inr(2))
  moreover have "sort_key cb_base_id ds = ds" by (rule sort_key_fixed) (simp add: ids)
  ultimately show "try_map canonicalize_cloud_base (sort_key cb_base_id ds) = Inr ds" by (simp add: try_map_Inr)
qed

lemma base_section_canonical:
  assumes ok: "base_section_ok s"
    and run: "try_map canonicalize_cloud_base (sort_key cb_base_id (sec_entries s)) = Inr ds"
  shows "base_section_ok (s\<lparr>sec_entries := ds\<rparr>)"
proof -
  have each: "list_all2 (\<lambda>b d. canonicalize_cloud_base b = Inr d) (sort_key cb_base_id (sec_entries s)) ds"
    using run by (simp add: try_map_Inr)
  have "\<forall>b\<in>set (sort_key cb_base_id (sec_entries s)). cloud_base_ok b"
    using ok by (simp add: base_section_ok_def section_ok_def)
  with each have "\<forall>d\<in>set ds. cloud_base_ok d"
    by (induction rule: list_all2_induct) (auto intro: canonicalize_cloud_base_Inr(3))
  moreover have "length ds = length (sec_entries s)" using list_all2_lengthD [OF each] by simp
  moreover have "distinct (map cb_base_id (sort_key cb_base_id (sec_entries s)))"
    using ok by (auto simp: base_section_ok_def section_ok_def distinct_map)
  then have "distinct (map cb_base_id ds)" by (simp only: base_entries_canonical(1) [OF run])
  moreover note list_all2_sums [OF each, of facility_count, OF canonicalize_cloud_base_Inr(4)]
    list_all2_sums [OF each, of assigned_count, OF canonicalize_cloud_base_Inr(5)]
    list_all2_sums [OF each, of storage_count, OF canonicalize_cloud_base_Inr(6)]
  ultimately show ?thesis using ok by (simp add: base_section_ok_def section_ok_def sum_sort_key)
qed

lemma canonicalize_sections_Inr:
  assumes "canonicalize_cloud_profile_sections C c = Some (Inr d)"
  obtains items eq pals bases ds pr where "profile_ok c"
    "cpc_inventory c = Some items" "cpc_equipment c = Some eq" "cpc_pals c = Some pals" "cpc_bases c = Some bases"
    "cpc_progression c = Some pr"
    "try_map canonicalize_cloud_base (sort_key cb_base_id (sec_entries bases)) = Inr ds"
    "length (encode_profile C d) \<le> MAX_CANONICAL_CONTENT_LEN"
    "d = c\<lparr>cpc_inventory := Some (items\<lparr>sec_entries := sort_key inventory_order (sec_entries items)\<rparr>),
           cpc_equipment := Some (eq\<lparr>sec_entries := sort_key equipment_order (sec_entries eq)\<rparr>),
           cpc_pals := Some (pals\<lparr>sec_entries :=
             map canonicalize_cloud_pal (sort_key cpl_pal_instance_id (sec_entries pals))\<rparr>),
           cpc_bases := Some (bases\<lparr>sec_entries := ds\<rparr>),
           cpc_progression := Some (pr\<lparr>sec_entries := sort_key progression_order (sec_entries pr)\<rparr>)\<rparr>"
proof -
  have "validate_cloud_profile_projection c = Inr ()"
    using assms by (auto simp: canonicalize_cloud_profile_sections_def split: sum.splits)
  then have ok: "profile_ok c" by (simp add: validate_cloud_profile_Inr)
  then obtain items eq pals bases pr where sections: "cpc_inventory c = Some items" "cpc_equipment c = Some eq"
    "cpc_pals c = Some pals" "cpc_bases c = Some bases" "cpc_progression c = Some pr"
    by (auto simp: profile_ok_def)
  have valid: "validate_cloud_profile_projection c = Inr ()" using ok by (simp add: validate_cloud_profile_Inr)
  obtain ds where ds: "try_map canonicalize_cloud_base (sort_key cb_base_id (sec_entries bases)) = Inr ds"
    using assms unfolding canonicalize_cloud_profile_sections_def valid sections
    by (cases "try_map canonicalize_cloud_base (sort_key cb_base_id (sec_entries bases))") simp_all
  show thesis
    using assms unfolding canonicalize_cloud_profile_sections_def valid sections
    by (intro that [OF ok sections ds]) (auto simp: ds and_then_eq_Inr Let_def wire_checks)
qed

lemma profile_ok_update:
  assumes "profile_ok c" "section_ok MAX_INVENTORY_ENTRIES cloud_inventory_ok cloud_inventory_key items"
    "section_ok MAX_EQUIPMENT_ENTRIES cloud_equipment_ok cloud_equipment_key eq" "pal_section_ok pals"
    "base_section_ok bases" "section_ok MAX_PROGRESSION_ENTRIES cloud_progression_ok cloud_progression_key pr"
  shows "profile_ok (c\<lparr>cpc_inventory := Some items, cpc_equipment := Some eq, cpc_pals := Some pals,
    cpc_bases := Some bases, cpc_progression := Some pr\<rparr>)"
  using assms by (simp add: profile_ok_def)

lemma profile_ok_sections:
  assumes "profile_ok c" "cpc_inventory c = Some items" "cpc_equipment c = Some eq" "cpc_pals c = Some pals"
    "cpc_bases c = Some bases" "cpc_progression c = Some pr"
  shows "section_ok MAX_INVENTORY_ENTRIES cloud_inventory_ok cloud_inventory_key items"
    "section_ok MAX_EQUIPMENT_ENTRIES cloud_equipment_ok cloud_equipment_key eq" "pal_section_ok pals"
    "base_section_ok bases" "section_ok MAX_PROGRESSION_ENTRIES cloud_progression_ok cloud_progression_key pr"
  using assms by (auto simp: profile_ok_def)

lemma canonical_pals_fixed:
  "map canonicalize_cloud_pal (sort_key cpl_pal_instance_id
      (map canonicalize_cloud_pal (sort_key cpl_pal_instance_id ps))) =
   map canonicalize_cloud_pal (sort_key cpl_pal_instance_id ps)"
proof -
  have "sort_key cpl_pal_instance_id (map canonicalize_cloud_pal (sort_key cpl_pal_instance_id ps)) =
      map canonicalize_cloud_pal (sort_key cpl_pal_instance_id ps)"
    by (rule sort_key_fixed) (simp add: comp_def)
  then show ?thesis by (simp add: comp_def)
qed

lemma canonical_fixed:
  assumes "canonicalize_cloud_profile_sections C c = Some (Inr d)"
  shows "canonicalize_cloud_profile_sections C d = Some (Inr d)
    \<and> cloud_profile_projection_id C d = cloud_profile_projection_id C c"
proof -
  obtain items eq pals bases ds pr where c: "profile_ok c"
    "cpc_inventory c = Some items" "cpc_equipment c = Some eq" "cpc_pals c = Some pals" "cpc_bases c = Some bases"
    "cpc_progression c = Some pr"
    and run: "try_map canonicalize_cloud_base (sort_key cb_base_id (sec_entries bases)) = Inr ds"
    and len: "length (encode_profile C d) \<le> MAX_CANONICAL_CONTENT_LEN"
    and d: "d = c\<lparr>cpc_inventory := Some (items\<lparr>sec_entries := sort_key inventory_order (sec_entries items)\<rparr>),
           cpc_equipment := Some (eq\<lparr>sec_entries := sort_key equipment_order (sec_entries eq)\<rparr>),
           cpc_pals := Some (pals\<lparr>sec_entries :=
             map canonicalize_cloud_pal (sort_key cpl_pal_instance_id (sec_entries pals))\<rparr>),
           cpc_bases := Some (bases\<lparr>sec_entries := ds\<rparr>),
           cpc_progression := Some (pr\<lparr>sec_entries := sort_key progression_order (sec_entries pr)\<rparr>)\<rparr>"
    by (rule canonicalize_sections_Inr [OF assms])
  note ok = profile_ok_sections [OF c]
  have "profile_ok d"
    unfolding d by (intro profile_ok_update c(1) section_ok_sorted pal_section_canonical ok
        base_section_canonical [OF ok(4) run])
  then have valid: "validate_cloud_profile_projection d = Inr ()" by (simp add: validate_cloud_profile_Inr)
  have "canonicalize_cloud_profile_sections C d = Some (Inr d)"
    using len unfolding canonicalize_cloud_profile_sections_def valid
    by (simp add: d base_entries_canonical(2) [OF run] canonical_pals_fixed sort_key_fixed wire_checks
        check_content_length_def Let_def)
  then show ?thesis
    using assms by (simp add: cloud_profile_projection_id_def canonical_cloud_profile_projection_identity_def)
qed

text \<open>Projections to evaluate: two slots, one Pal, a base whose walls are listed twice.\<close>

definition sample_state :: "u32 \<Rightarrow> ProjectionSectionStateV1 option" where
  "sample_state n = Some \<lparr>ps_completeness = 1, ps_source_expected_record_count = n,
     ps_source_observed_record_count = n, ps_projected_entry_count = n\<rparr>"

definition sample_item :: "u32 \<Rightarrow> CloudInventoryEntryV1" where
  "sample_item n = \<lparr>ci_container_kind = 1, ci_container_ordinal = 0, ci_slot_index = n, ci_item_id = ''wood'',
     ci_quantity = 5, ci_durability = None, ci_rarity = None\<rparr>"

definition sample_cloud_pal :: "string list \<Rightarrow> CloudPalEntryV1" where
  "sample_cloud_pal learned = \<lparr>cpl_pal_instance_id = replicate 16 7, cpl_species_id = ''lamball'', cpl_level = 3,
     cpl_gender = 2, cpl_iv_hp = None, cpl_iv_attack = None, cpl_iv_defense = None, cpl_passive_ids = [],
     cpl_active_skill_ids = [], cpl_condensation_rank = 0, cpl_soul_hp = 0, cpl_soul_attack = 0,
     cpl_soul_defense = 0, cpl_soul_work_speed = 0, cpl_container_kind = 1, cpl_learned_skill_ids = learned,
     cpl_trust = 0, cpl_is_lucky = False, cpl_is_boss = False, cpl_is_alpha = False, cpl_is_awakened = False,
     cpl_is_mutated = False, cpl_container_ordinal = 0, cpl_slot_index = 0, cpl_base_id = None\<rparr>"

definition sample_base :: "u32 list \<Rightarrow> CloudBaseEntryV1" where
  "sample_base counts = \<lparr>cb_base_id = replicate 16 9, cb_location_id = ''hill'', cb_level = 1,
     cb_facilities = map (\<lambda>n. \<lparr>cbf_building_id = ''wall'', cbf_count = n\<rparr>) counts,
     cb_assigned_pal_instance_ids = [], cb_storage_items = []\<rparr>"

definition sample_projection :: "u32 list \<Rightarrow> string list \<Rightarrow> u32 list \<Rightarrow> CloudProfileProjectionContentV1" where
  "sample_projection slots learned walls = \<lparr>cpc_schema_version = 1, cpc_dataset_manifest_id = replicate 32 0,
     cpc_game_build_id = ''build'',
     cpc_character = Some \<lparr>chs_state = sample_state 0, chs_character = None\<rparr>,
     cpc_inventory = Some \<lparr>sec_state = sample_state 2, sec_entries = map sample_item slots\<rparr>,
     cpc_equipment = Some \<lparr>sec_state = sample_state 0, sec_entries = []\<rparr>,
     cpc_pals = Some \<lparr>sec_state = sample_state 1, sec_entries = [sample_cloud_pal learned]\<rparr>,
     cpc_bases = Some \<lparr>sec_state = sample_state 1, sec_entries = [sample_base walls]\<rparr>,
     cpc_progression = Some \<lparr>sec_state = sample_state 0, sec_entries = []\<rparr>\<rparr>"

text \<open>A codec that keeps a part of each message.\<close>

definition sample_codec :: profile_codec where
  "sample_codec = \<lparr>
     encode_profile = (\<lambda>c. case (cpc_inventory c, cpc_pals c) of
        (Some i, Some p) \<Rightarrow> map (\<lambda>e. ucast (ci_slot_index e)) (sec_entries i)
          @ map of_char (concat (concat (map cpl_learned_skill_ids (sec_entries p))))
      | _ \<Rightarrow> []),
     encode_character = (\<lambda>_. [1]),
     encode_inventory = (\<lambda>s. map (\<lambda>e. ucast (ci_slot_index e)) (sec_entries s)),
     encode_equipment = (\<lambda>s. map (\<lambda>e. ucast (ce_slot_index e)) (sec_entries s)),
     encode_pals = (\<lambda>s. map (\<lambda>e. ucast (cpl_level e)) (sec_entries s)),
     encode_bases = (\<lambda>s. map (\<lambda>e. ucast (cb_level e)) (sec_entries s)),
     encode_progression = (\<lambda>s. map (\<lambda>e. ucast (cu_kind e)) (sec_entries s)),
     encode_identity = (\<lambda>i. concat (map csi_section_content_sha256 (cpi_sections i))),
     digest256 = rev\<rparr>"

lemma sample_state_ok: "n < 2 ^ 32 \<Longrightarrow> state_ok (sample_state (of_nat n)) n"
  unfolding state_ok_def sample_state_def
  by (intro exI [of _ PcComplete] exI conjI, rule refl) (simp_all add: projection_counts_valid_def)

lemma sample_states_ok:
  "state_ok (sample_state 0) 0" "state_ok (sample_state 1) (Suc 0)" "state_ok (sample_state 2) (Suc (Suc 0))"
  using sample_state_ok [of 0] sample_state_ok [of "Suc 0"] sample_state_ok [of "Suc (Suc 0)"] by simp_all

lemma sample_cloud_text_ids: "text_id ''hill''" "text_id ''wall''"
  by code_simp+

lemma sample_projection_ok: "profile_ok (sample_projection [2, 1] [''swift'', ''brave''] [3, 4])"
  by (simp add: profile_ok_def sample_projection_def section_ok_def pal_section_ok_def base_section_ok_def
      sample_states_ok sample_item_def sample_cloud_pal_def sample_base_def cloud_inventory_ok_def
      cloud_inventory_key_def cloud_pal_ok_def cloud_base_ok_def count_defs sample_text_ids sample_cloud_text_ids
      MAX_INVENTORY_ENTRIES_def MAX_PAL_ENTRIES_def MAX_BASE_ENTRIES_def MAX_LEARNED_SKILL_IDS_PER_PAL_def
      MAX_FACILITIES_PER_BASE_def MAX_FACILITIES_TOTAL_def)

lemma sample_projection_canonical:
  "canonicalize_cloud_profile_sections sample_codec (sample_projection [2, 1] [''swift'', ''brave''] [3, 4]) =
     Some (Inr (sample_projection [1, 2] [''brave'', ''swift''] [7]))"
  unfolding canonicalize_cloud_profile_sections_def sum.case
    validate_cloud_profile_Inr [of _ "()", THEN iffD2, OF sample_projection_ok]
  by (simp add: sample_projection_def sample_item_def sample_cloud_pal_def sample_base_def canonicalize_cloud_base_def
      canonicalize_cloud_pal_def sort_dedup_def checked_add_def inventory_order_def word_le_nat_alt
      check_content_length_def MAX_CANONICAL_CONTENT_LEN_def sample_codec_def Let_def)

text \<open>
  C24: canonicalising a projection is idempotent: its result is valid, and canonicalising it again changes
  nothing. The pages of a projection, which are cut from the canonical content, therefore carry the
  identity of the projection they were made from.
\<close>

theorem canonical_projection_fixed:
  assumes "canonicalize_cloud_profile_sections C c = Some (Inr d)"
  shows "canonicalize_cloud_profile_sections C d = Some (Inr d)
    \<and> cloud_profile_projection_id C d = cloud_profile_projection_id C c"
  by (rule canonical_fixed [OF assms])

theorem canonical_projection_fixed_witness:
  "canonicalize_cloud_profile_sections sample_codec (sample_projection [1, 2] [''brave'', ''swift''] [7]) =
     Some (Inr (sample_projection [1, 2] [''brave'', ''swift''] [7]))"
  using canonical_projection_fixed [OF sample_projection_canonical] by (rule conjunct1)

section \<open>The order of entries does not matter\<close>

definition cloud_pal_view :: "CloudPalEntryV1 \<Rightarrow> CloudPalEntryV1" where
  "cloud_pal_view p = p\<lparr>cpl_passive_ids := sort (cpl_passive_ids p),
     cpl_active_skill_ids := sort (cpl_active_skill_ids p), cpl_learned_skill_ids := sort (cpl_learned_skill_ids p)\<rparr>"

definition cloud_base_view :: "CloudBaseEntryV1 \<Rightarrow> CloudBaseEntryV1" where
  "cloud_base_view b = b\<lparr>
     cb_facilities := sort_key (\<lambda>f. (cbf_building_id f, cbf_count f)) (cb_facilities b),
     cb_assigned_pal_instance_ids := sort (cb_assigned_pal_instance_ids b),
     cb_storage_items := sort_key (\<lambda>i. (cbi_item_id i, cbi_quantity i)) (cb_storage_items b)\<rparr>"

definition same_section :: "('e \<Rightarrow> 'e) \<Rightarrow> 'e CloudSectionContent \<Rightarrow> 'e CloudSectionContent \<Rightarrow> bool" where
  "same_section view s t =
     (sec_state s = sec_state t \<and> mset (map view (sec_entries s)) = mset (map view (sec_entries t)))"

definition same_profile :: "CloudProfileProjectionContentV1 \<Rightarrow> CloudProfileProjectionContentV1 \<Rightarrow> bool" where
  "same_profile a b = (
     cpc_schema_version a = cpc_schema_version b \<and> cpc_dataset_manifest_id a = cpc_dataset_manifest_id b
     \<and> cpc_game_build_id a = cpc_game_build_id b \<and> cpc_character a = cpc_character b
     \<and> rel_option (same_section (\<lambda>e. e)) (cpc_inventory a) (cpc_inventory b)
     \<and> rel_option (same_section (\<lambda>e. e)) (cpc_equipment a) (cpc_equipment b)
     \<and> rel_option (same_section cloud_pal_view) (cpc_pals a) (cpc_pals b)
     \<and> rel_option (same_section cloud_base_view) (cpc_bases a) (cpc_bases b)
     \<and> rel_option (same_section (\<lambda>e. e)) (cpc_progression a) (cpc_progression b))"

lemma cloud_pal_view_fields [simp]:
  "cloud_pal_ok (cloud_pal_view p) \<longleftrightarrow> cloud_pal_ok p"
  "cpl_pal_instance_id (cloud_pal_view p) = cpl_pal_instance_id p"
  "cloud_pal_place (cloud_pal_view p) = cloud_pal_place p"
  "canonicalize_cloud_pal (cloud_pal_view p) = canonicalize_cloud_pal p"
  by (cases "cpl_base_id p", simp_all add: cloud_pal_view_def cloud_pal_ok_def cloud_pal_place_def
      canonicalize_cloud_pal_def)

lemma cloud_base_view_fields [simp]:
  "cloud_base_ok (cloud_base_view b) \<longleftrightarrow> cloud_base_ok b" "cb_base_id (cloud_base_view b) = cb_base_id b"
  "facility_count (cloud_base_view b) = facility_count b" "assigned_count (cloud_base_view b) = assigned_count b"
  "storage_count (cloud_base_view b) = storage_count b"
  "canonicalize_cloud_base (cloud_base_view b) = canonicalize_cloud_base b"
  by (simp_all add: cloud_base_view_def cloud_base_ok_def count_defs canonicalize_cloud_base_def tally_sorted)

lemma same_sums:
  assumes "mset (map view xs) = mset (map view ys)" "\<And>x. f (view x) = (f x :: nat)"
  shows "sum_list (map f xs) = sum_list (map f ys)"
proof -
  have view: "map f zs = map f (map view zs)" for zs by (simp add: assms(2))
  have "mset (map f (map view xs)) = mset (map f (map view ys))"
    using arg_cong [OF assms(1), of "image_mset f"] by (simp only: mset_map)
  then have "mset (map f xs) = mset (map f ys)" by (simp only: view [symmetric])
  then show ?thesis by (metis sum_mset_sum_list)
qed

lemma same_section_ok:
  assumes "same_section view s t" "\<And>x. ok (view x) \<longleftrightarrow> ok x" "\<And>x. key (view x) = key x" "section_ok limit ok key s"
  shows "section_ok limit ok key t"
proof -
  have views: "mset (map view (sec_entries s)) = mset (map view (sec_entries t))"
    using assms(1) by (simp add: same_section_def)
  show ?thesis
    using assms(1,4) same_views(1) [OF views] same_views(2) [OF views, of ok, OF assms(2)]
      same_views(3) [OF views, of key, OF assms(3)]
    by (simp add: section_ok_def same_section_def)
qed

lemma same_profile_sections:
  assumes "same_profile a b" "profile_ok a"
  obtains items eq pals bases pr items' eq' pals' bases' pr' where
    "cpc_inventory a = Some items" "cpc_equipment a = Some eq" "cpc_pals a = Some pals"
    "cpc_bases a = Some bases" "cpc_progression a = Some pr"
    "cpc_inventory b = Some items'" "cpc_equipment b = Some eq'"
    "cpc_pals b = Some pals'" "cpc_bases b = Some bases'" "cpc_progression b = Some pr'"
    "same_section (\<lambda>e. e) items items'" "same_section (\<lambda>e. e) eq eq'" "same_section cloud_pal_view pals pals'"
    "same_section cloud_base_view bases bases'" "same_section (\<lambda>e. e) pr pr'"
  using assms by (auto simp: profile_ok_def same_profile_def option_rel_Some1)

lemma same_profile_ok:
  assumes same: "same_profile a b" and ok: "profile_ok a"
  shows "profile_ok b"
proof -
  obtain items eq pals bases pr items' eq' pals' bases' pr' where a: "cpc_inventory a = Some items"
    "cpc_equipment a = Some eq" "cpc_pals a = Some pals" "cpc_bases a = Some bases" "cpc_progression a = Some pr"
    and b: "cpc_inventory b = Some items'" "cpc_equipment b = Some eq'"
    "cpc_pals b = Some pals'" "cpc_bases b = Some bases'" "cpc_progression b = Some pr'"
    and rel: "same_section (\<lambda>e. e) items items'" "same_section (\<lambda>e. e) eq eq'" "same_section cloud_pal_view pals pals'"
    "same_section cloud_base_view bases bases'" "same_section (\<lambda>e. e) pr pr'"
    by (rule same_profile_sections [OF same ok])
  note secs = profile_ok_sections [OF ok a]
  have pals: "pal_section_ok pals'"
    using secs(3) rel(3) same_section_ok [OF rel(3), of cloud_pal_ok cpl_pal_instance_id]
      same_views(3) [of cloud_pal_view "sec_entries pals" "sec_entries pals'" cloud_pal_place]
    by (simp add: pal_section_ok_def same_section_def)
  have bases: "base_section_ok bases'"
    using secs(4) rel(4) same_section_ok [OF rel(4), of cloud_base_ok cb_base_id]
      same_sums [of cloud_base_view "sec_entries bases" "sec_entries bases'" facility_count]
      same_sums [of cloud_base_view "sec_entries bases" "sec_entries bases'" assigned_count]
      same_sums [of cloud_base_view "sec_entries bases" "sec_entries bases'" storage_count]
    by (simp add: base_section_ok_def same_section_def)
  show ?thesis
    using ok same pals bases same_section_ok [OF rel(1) refl refl secs(1)]
      same_section_ok [OF rel(2) refl refl secs(2)] same_section_ok [OF rel(5) refl refl secs(5)] b
    by (simp add: profile_ok_def same_profile_def)
qed

lemma entry_orders:
  "distinct (map cloud_inventory_key xs) \<Longrightarrow> distinct (map inventory_order xs)"
  "distinct (map cloud_equipment_key ys) \<Longrightarrow> distinct (map equipment_order ys)"
  "distinct (map cloud_progression_key zs) \<Longrightarrow> distinct (map progression_order zs)"
  by (erule distinct_finer; simp add: cloud_inventory_key_def inventory_order_def cloud_equipment_key_def
      equipment_order_def cloud_progression_key_def progression_order_def)+

lemma same_sorted_section:
  assumes "same_section (\<lambda>e. e) s t" "distinct (map order (sec_entries s))"
  shows "s\<lparr>sec_entries := sort_key order (sec_entries s)\<rparr> = t\<lparr>sec_entries := sort_key order (sec_entries t)\<rparr>"
  using assms sort_key_permuted [of "sec_entries s" "sec_entries t" order]
  by (cases s; cases t) (simp add: same_section_def)

lemma same_profile_canonical:
  assumes same: "same_profile a b" and ok: "profile_ok a"
  shows "canonicalize_cloud_profile_sections C a = canonicalize_cloud_profile_sections C b"
proof -
  obtain items eq pals bases pr items' eq' pals' bases' pr' where a: "cpc_inventory a = Some items"
    "cpc_equipment a = Some eq" "cpc_pals a = Some pals" "cpc_bases a = Some bases" "cpc_progression a = Some pr"
    and b: "cpc_inventory b = Some items'" "cpc_equipment b = Some eq'"
    "cpc_pals b = Some pals'" "cpc_bases b = Some bases'" "cpc_progression b = Some pr'"
    and rel: "same_section (\<lambda>e. e) items items'" "same_section (\<lambda>e. e) eq eq'" "same_section cloud_pal_view pals pals'"
    "same_section cloud_base_view bases bases'" "same_section (\<lambda>e. e) pr pr'"
    by (rule same_profile_sections [OF same ok])
  have valid: "validate_cloud_profile_projection a = Inr ()" "validate_cloud_profile_projection b = Inr ()"
    using ok same_profile_ok [OF same ok] by (simp_all add: validate_cloud_profile_Inr)
  have distinct: "distinct (map cloud_inventory_key (sec_entries items))"
    "distinct (map cloud_equipment_key (sec_entries eq))" "distinct (map cpl_pal_instance_id (sec_entries pals))"
    "distinct (map cb_base_id (sec_entries bases))" "distinct (map cloud_progression_key (sec_entries pr))"
    using profile_ok_sections [OF ok a] by (simp_all add: section_ok_def pal_section_ok_def base_section_ok_def)
  note slots = same_sorted_section [OF rel(1) entry_orders(1) [OF distinct(1)]]
    same_sorted_section [OF rel(2) entry_orders(2) [OF distinct(2)]]
    same_sorted_section [OF rel(5) entry_orders(3) [OF distinct(5)]]
  have msets: "mset (map cloud_pal_view (sec_entries pals)) = mset (map cloud_pal_view (sec_entries pals'))"
    "mset (map cloud_base_view (sec_entries bases)) = mset (map cloud_base_view (sec_entries bases'))"
    using rel(3,4) by (simp_all add: same_section_def)
  have pal: "map canonicalize_cloud_pal ps = map canonicalize_cloud_pal (map cloud_pal_view ps)" for ps by simp
  have "map canonicalize_cloud_pal (sort_key cpl_pal_instance_id (sec_entries pals)) =
      map canonicalize_cloud_pal (sort_key cpl_pal_instance_id (sec_entries pals'))"
    unfolding pal [of "sort_key cpl_pal_instance_id (sec_entries pals)"]
      pal [of "sort_key cpl_pal_instance_id (sec_entries pals')"]
    by (simp only: canonical_entries [OF msets(1) cloud_pal_view_fields(2) distinct(3)])
  then have pals: "pals\<lparr>sec_entries := map canonicalize_cloud_pal (sort_key cpl_pal_instance_id (sec_entries pals))\<rparr> =
      pals'\<lparr>sec_entries := map canonicalize_cloud_pal (sort_key cpl_pal_instance_id (sec_entries pals'))\<rparr>"
    using rel(3) by (cases pals; cases pals') (simp add: same_section_def)
  have base: "try_map canonicalize_cloud_base bs = try_map canonicalize_cloud_base (map cloud_base_view bs)" for bs
    by (simp add: try_map_map)
  have bases: "try_map canonicalize_cloud_base (sort_key cb_base_id (sec_entries bases)) =
      try_map canonicalize_cloud_base (sort_key cb_base_id (sec_entries bases'))"
    unfolding base [of "sort_key cb_base_id (sec_entries bases)"] base [of "sort_key cb_base_id (sec_entries bases')"]
    by (simp only: canonical_entries [OF msets(2) cloud_base_view_fields(2) distinct(4)])
  have base_section: "bases\<lparr>sec_entries := ds\<rparr> = bases'\<lparr>sec_entries := ds\<rparr>" for ds
    using rel(4) by (cases bases; cases bases') (simp add: same_section_def)
  have other: "a\<lparr>cpc_inventory := i, cpc_equipment := e, cpc_pals := p, cpc_bases := bs, cpc_progression := g\<rparr> =
      b\<lparr>cpc_inventory := i, cpc_equipment := e, cpc_pals := p, cpc_bases := bs, cpc_progression := g\<rparr>" for i e p bs g
    using same by (cases a; cases b) (simp add: same_profile_def)
  show ?thesis
    unfolding canonicalize_cloud_profile_sections_def valid a b sum.case prod.case option.case slots pals bases
      base_section other ..
qed



end
