(* ===== verification/Wire_Pagination.thy ===== *)
theory Wire_Pagination
  imports Wire_Projection
begin

text \<open>
  Cutting a cloud profile projection into pages, \<open>crates/pal-wire/src/canonical.rs\<close>
  (\<open>paginate_cloud_profile\<close> and what it calls): pages of at most 250 entries and 4 MiB with a descriptor
  each, and the descriptor of the whole projection.

  The encoder of a page is an argument beside the encoders of the content.
\<close>

section \<open>Messages\<close>

datatype ProjectionPayload =
    PayloadCharacter "CloudCharacterEntryV1 list"
  | PayloadInventory "CloudInventoryEntryV1 list"
  | PayloadEquipment "CloudEquipmentEntryV1 list"
  | PayloadPals "CloudPalEntryV1 list"
  | PayloadBases "CloudBaseEntryV1 list"
  | PayloadProgression "CloudProgressionUnlockV1 list"

record CloudProfileProjectionPageV1 =
  page_projection_id :: bytes
  page_section :: i32
  page_index :: u32
  page_payload :: "ProjectionPayload option"

record CloudProfileProjectionPageDescriptorV1 =
  pd_section :: i32
  pd_page_index :: u32
  pd_entry_count :: u32
  pd_encoded_length :: u32
  pd_sha256 :: bytes
  pd_first_sort_key :: bytes
  pd_last_sort_key :: bytes

record CloudProfileProjectionSectionDescriptorV1 =
  sd_section :: i32
  sd_state :: "ProjectionSectionStateV1 option"
  sd_section_content_sha256 :: bytes
  sd_page_count :: u32
  sd_total_encoded_length :: u64
  sd_pages :: "CloudProfileProjectionPageDescriptorV1 list"

record CloudProfileProjectionDescriptorV1 =
  prd_projection_id :: bytes
  prd_section_count :: u32
  prd_total_page_count :: u32
  prd_total_entry_count :: u32
  prd_total_encoded_length :: u64
  prd_sections :: "CloudProfileProjectionSectionDescriptorV1 list"

record PaginatedCloudProfile =
  pcp_pages :: "CloudProfileProjectionPageV1 list"
  pcp_descriptor :: CloudProfileProjectionDescriptorV1

section \<open>Pages of a section\<close>

definition projection_page ::
  "bytes \<Rightarrow> ProjectionSectionKind \<Rightarrow> u32 \<Rightarrow> ProjectionPayload \<Rightarrow> CloudProfileProjectionPageV1" where
  "projection_page projection_id section index payload =
     \<lparr>page_projection_id = projection_id, page_section = ProjectionSectionKind_i32 section,
      page_index = index, page_payload = Some payload\<rparr>"

text \<open>The loop variables of \<open>paginate_entries\<close>.\<close>

record 'e page_state =
  pg_pages :: "CloudProfileProjectionPageV1 list"
  pg_descriptors :: "CloudProfileProjectionPageDescriptorV1 list"
  pg_current :: "'e list"
  pg_current_keys :: "bytes list"
  pg_page_index :: u32

text \<open>What a section fixes for its pages: identity, section, payload and key of an entry, and the encoders.\<close>

record 'e pager =
  pgr_projection_id :: bytes
  pgr_section :: ProjectionSectionKind
  pgr_build_payload :: "'e list \<Rightarrow> ProjectionPayload"
  pgr_sort_key :: "'e \<Rightarrow> bytes"
  pgr_encode :: "CloudProfileProjectionPageV1 \<Rightarrow> bytes"
  pgr_sha256 :: "bytes \<Rightarrow> bytes"

definition pager_page :: "'e pager \<Rightarrow> u32 \<Rightarrow> 'e list \<Rightarrow> CloudProfileProjectionPageV1" where
  "pager_page P index entries =
     projection_page (pgr_projection_id P) (pgr_section P) index (pgr_build_payload P entries)"

definition close_page :: "'e pager \<Rightarrow> u32 \<Rightarrow> 'e list \<Rightarrow> bytes list
    \<Rightarrow> CanonicalError + (CloudProfileProjectionPageV1 \<times> CloudProfileProjectionPageDescriptorV1)" where
  "close_page P index entries keys =
     (let page = pager_page P index entries; encoded = pgr_encode P page in
      if MAX_PROJECTION_PAGE_ENTRIES < length entries \<or> MAX_PROJECTION_PAGE_ENCODED_LEN < length encoded
      then Inl (InvalidValue ''projection.page'' ''closed page exceeds a paging bound'')
      else if 2 ^ 32 \<le> length entries then Inl (IntegerOverflow ''descriptor.pages.entry_count'')
      else if 2 ^ 32 \<le> length encoded then Inl (IntegerOverflow ''descriptor.pages.encoded_length'')
      else Inr (page,
        \<lparr>pd_section = ProjectionSectionKind_i32 (pgr_section P), pd_page_index = index,
         pd_entry_count = of_nat (length entries), pd_encoded_length = of_nat (length encoded),
         pd_sha256 = pgr_sha256 P encoded,
         pd_first_sort_key = (case keys of [] \<Rightarrow> [] | k # _ \<Rightarrow> k),
         pd_last_sort_key = (if keys = [] then [] else last keys)\<rparr>))"

definition paginate_entry ::
  "'e pager \<Rightarrow> 'e \<Rightarrow> 'e page_state \<Rightarrow> (CanonicalError + unit) \<times> 'e page_state" where
  "paginate_entry P entry st =
     (let key = pgr_sort_key P entry;
          candidate = pg_current st @ [entry];
          candidate_page = pager_page P (pg_page_index st) candidate;
          over_count = MAX_PROJECTION_PAGE_ENTRIES < length candidate;
          over_bytes = MAX_PROJECTION_PAGE_ENCODED_LEN < length (pgr_encode P candidate_page) in
      if over_count \<or> over_bytes then
        (if pg_current st = [] then
           (Inl (ProjectionEntryTooLarge (pgr_section P) key (length (pgr_encode P candidate_page))), st)
         else
           (case close_page P (pg_page_index st) (pg_current st) (pg_current_keys st) of
              Inl e \<Rightarrow> (Inl e, st)
            | Inr (page, descriptor) \<Rightarrow>
                (case checked_add (pg_page_index st) 1 of
                   None \<Rightarrow> (Inl (IntegerOverflow ''page_index''), st)
                 | Some index \<Rightarrow>
                     (let st' = \<lparr>pg_pages = pg_pages st @ [page], pg_descriptors = pg_descriptors st @ [descriptor],
                                 pg_current = [entry], pg_current_keys = [key], pg_page_index = index\<rparr>;
                          single_page = pager_page P index [entry] in
                      if MAX_PROJECTION_PAGE_ENCODED_LEN < length (pgr_encode P single_page)
                      then (Inl (ProjectionEntryTooLarge (pgr_section P) key (length (pgr_encode P single_page))), st')
                      else (Inr (), st')))))
      else (Inr (), st\<lparr>pg_current := candidate, pg_current_keys := pg_current_keys st @ [key]\<rparr>))"

definition page_state_start :: "'e page_state" where
  "page_state_start = \<lparr>pg_pages = [], pg_descriptors = [], pg_current = [], pg_current_keys = [], pg_page_index = 0\<rparr>"

definition paginate_entries :: "'e pager \<Rightarrow> 'e list
    \<Rightarrow> CanonicalError + (CloudProfileProjectionPageV1 list \<times> CloudProfileProjectionPageDescriptorV1 list)" where
  "paginate_entries P entries =
     (case try_each (paginate_entry P) entries page_state_start of
        (Inl e, _) \<Rightarrow> Inl e
      | (Inr _, st) \<Rightarrow>
          if pg_current st \<noteq> [] then
            and_then (close_page P (pg_page_index st) (pg_current st) (pg_current_keys st)) (\<lambda>(page, descriptor).
              Inr (pg_pages st @ [page], pg_descriptors st @ [descriptor]))
          else Inr (pg_pages st, pg_descriptors st))"

section \<open>Pages of a projection\<close>

text \<open>
  The sections with their payloads and keys; \<open>E\<close> encodes a page and \<open>C\<close> the content.
\<close>

definition character_pager :: "profile_codec \<Rightarrow> (CloudProfileProjectionPageV1 \<Rightarrow> bytes) \<Rightarrow> bytes \<Rightarrow> CloudCharacterEntryV1 pager" where
  "character_pager C E projection_id = \<lparr>pgr_projection_id = projection_id, pgr_section = PskCharacter,
     pgr_build_payload = PayloadCharacter, pgr_sort_key = (\<lambda>_. [1]), pgr_encode = E, pgr_sha256 = digest256 C\<rparr>"

definition inventory_pager :: "profile_codec \<Rightarrow> (CloudProfileProjectionPageV1 \<Rightarrow> bytes) \<Rightarrow> bytes \<Rightarrow> CloudInventoryEntryV1 pager" where
  "inventory_pager C E projection_id = \<lparr>pgr_projection_id = projection_id, pgr_section = PskInventory,
     pgr_build_payload = PayloadInventory,
     pgr_sort_key = (\<lambda>entry. inventory_key (ci_container_kind entry) (ci_container_ordinal entry) (ci_slot_index entry)),
     pgr_encode = E, pgr_sha256 = digest256 C\<rparr>"

definition equipment_pager :: "profile_codec \<Rightarrow> (CloudProfileProjectionPageV1 \<Rightarrow> bytes) \<Rightarrow> bytes \<Rightarrow> CloudEquipmentEntryV1 pager" where
  "equipment_pager C E projection_id = \<lparr>pgr_projection_id = projection_id, pgr_section = PskEquipment,
     pgr_build_payload = PayloadEquipment,
     pgr_sort_key = (\<lambda>entry. equipment_key (ce_slot_kind entry) (ce_slot_index entry)),
     pgr_encode = E, pgr_sha256 = digest256 C\<rparr>"

definition pal_pager :: "profile_codec \<Rightarrow> (CloudProfileProjectionPageV1 \<Rightarrow> bytes) \<Rightarrow> bytes \<Rightarrow> CloudPalEntryV1 pager" where
  "pal_pager C E projection_id = \<lparr>pgr_projection_id = projection_id, pgr_section = PskPals,
     pgr_build_payload = PayloadPals, pgr_sort_key = cpl_pal_instance_id, pgr_encode = E, pgr_sha256 = digest256 C\<rparr>"

definition base_pager :: "profile_codec \<Rightarrow> (CloudProfileProjectionPageV1 \<Rightarrow> bytes) \<Rightarrow> bytes \<Rightarrow> CloudBaseEntryV1 pager" where
  "base_pager C E projection_id = \<lparr>pgr_projection_id = projection_id, pgr_section = PskBases,
     pgr_build_payload = PayloadBases, pgr_sort_key = cb_base_id, pgr_encode = E, pgr_sha256 = digest256 C\<rparr>"

definition progression_pager :: "profile_codec \<Rightarrow> (CloudProfileProjectionPageV1 \<Rightarrow> bytes) \<Rightarrow> bytes \<Rightarrow> CloudProgressionUnlockV1 pager" where
  "progression_pager C E projection_id = \<lparr>pgr_projection_id = projection_id, pgr_section = PskProgression,
     pgr_build_payload = PayloadProgression,
     pgr_sort_key = (\<lambda>entry. progression_key (cu_kind entry) (cu_unlock_id entry)),
     pgr_encode = E, pgr_sha256 = digest256 C\<rparr>"

definition reject_raw_entry :: "'e pager \<Rightarrow> 'e \<Rightarrow> CanonicalError + unit" where
  "reject_raw_entry P entry =
     (let encoded_length = length (pgr_encode P (pager_page P 0 [entry])) in
      if MAX_PROJECTION_PAGE_ENCODED_LEN < encoded_length
      then Inl (ProjectionEntryTooLarge (pgr_section P) (pgr_sort_key P entry) encoded_length)
      else Inr ())"

definition placeholder_id :: bytes where "placeholder_id = replicate 32 0"

definition reject_raw_section :: "'e pager \<Rightarrow> 'e CloudSectionContent option \<Rightarrow> CanonicalError + unit" where
  "reject_raw_section P section =
     (case section of None \<Rightarrow> Inr () | Some s \<Rightarrow> check_each (reject_raw_entry P) (sec_entries s))"

definition reject_raw_oversized_entries ::
  "profile_codec \<Rightarrow> (CloudProfileProjectionPageV1 \<Rightarrow> bytes) \<Rightarrow> CloudProfileProjectionContentV1 \<Rightarrow> CanonicalError + unit" where
  "reject_raw_oversized_entries C E content =
     and_then (case cpc_character content of
         Some character \<Rightarrow>
           (case chs_character character of
              Some entry \<Rightarrow> reject_raw_entry (character_pager C E placeholder_id) entry
            | None \<Rightarrow> Inr ())
       | None \<Rightarrow> Inr ()) (\<lambda>_.
     and_then (reject_raw_section (inventory_pager C E placeholder_id) (cpc_inventory content)) (\<lambda>_.
     and_then (reject_raw_section (equipment_pager C E placeholder_id) (cpc_equipment content)) (\<lambda>_.
     and_then (reject_raw_section (pal_pager C E placeholder_id) (cpc_pals content)) (\<lambda>_.
     and_then (reject_raw_section (base_pager C E placeholder_id) (cpc_bases content)) (\<lambda>_.
     reject_raw_section (progression_pager C E placeholder_id) (cpc_progression content))))))"

fun sum_encoded_lengths :: "u64 \<Rightarrow> CloudProfileProjectionPageDescriptorV1 list \<Rightarrow> CanonicalError + u64" where
  "sum_encoded_lengths acc [] = Inr acc"
| "sum_encoded_lengths acc (page # pages) =
     (case checked_add acc (ucast (pd_encoded_length page)) of
        None \<Rightarrow> Inl (IntegerOverflow ''descriptor.total_encoded_length'')
      | Some acc' \<Rightarrow> sum_encoded_lengths acc' pages)"

record section_totals =
  st_sections :: "CloudProfileProjectionSectionDescriptorV1 list"
  st_page_count :: nat
  st_entry_count :: nat
  st_encoded_length :: u64

definition describe_section ::
  "(CloudProfileSectionIdentityV1 \<times> CloudProfileProjectionPageDescriptorV1 list) \<times> ProjectionSectionStateV1
     \<Rightarrow> section_totals \<Rightarrow> CanonicalError + section_totals" where
  "describe_section item totals =
     (case item of ((identity, pages), state) \<Rightarrow>
        and_then (sum_encoded_lengths 0 pages) (\<lambda>section_encoded_length.
        case checked_add (st_encoded_length totals) section_encoded_length of
          None \<Rightarrow> Inl (IntegerOverflow ''descriptor.total_encoded_length'')
        | Some total_encoded_length \<Rightarrow>
            if 2 ^ 32 \<le> length pages then Inl (IntegerOverflow ''descriptor.sections.page_count'')
            else Inr \<lparr>
              st_sections = st_sections totals @ [\<lparr>sd_section = csi_section identity, sd_state = Some state,
                sd_section_content_sha256 = csi_section_content_sha256 identity,
                sd_page_count = of_nat (length pages), sd_total_encoded_length = section_encoded_length,
                sd_pages = pages\<rparr>],
              st_page_count = st_page_count totals + length pages,
              st_entry_count = st_entry_count totals + sum_list (map (\<lambda>page. unat (pd_entry_count page)) pages),
              st_encoded_length = total_encoded_length\<rparr>))"

fun describe_sections where
  "describe_sections [] totals = Inr totals"
| "describe_sections (item # items) totals =
     and_then (describe_section item totals) (describe_sections items)"

text \<open>\<open>paginate_cloud_profile\<close> after the canonical content and its identity are known.\<close>

definition paginate_canonical ::
  "profile_codec \<Rightarrow> (CloudProfileProjectionPageV1 \<Rightarrow> bytes) \<Rightarrow> CloudProfileProjectionContentV1 \<Rightarrow> bytes
     \<Rightarrow> CanonicalError + PaginatedCloudProfile" where
  "paginate_canonical C E canonical projection_id =
     and_then (canonical_profile_section_identities C canonical) (\<lambda>identities.
     and_then (required (cpc_character canonical) ''character'') (\<lambda>character.
     and_then (paginate_entries (character_pager C E projection_id)
                 (case chs_character character of None \<Rightarrow> [] | Some e \<Rightarrow> [e])) (\<lambda>(pages1, descriptors1).
     and_then (required (cpc_inventory canonical) ''inventory'') (\<lambda>inventory.
     and_then (paginate_entries (inventory_pager C E projection_id) (sec_entries inventory)) (\<lambda>(pages2, descriptors2).
     and_then (required (cpc_equipment canonical) ''equipment'') (\<lambda>equipment.
     and_then (paginate_entries (equipment_pager C E projection_id) (sec_entries equipment)) (\<lambda>(pages3, descriptors3).
     and_then (required (cpc_pals canonical) ''pals'') (\<lambda>pals.
     and_then (paginate_entries (pal_pager C E projection_id) (sec_entries pals)) (\<lambda>(pages4, descriptors4).
     and_then (required (cpc_bases canonical) ''bases'') (\<lambda>bases.
     and_then (paginate_entries (base_pager C E projection_id) (sec_entries bases)) (\<lambda>(pages5, descriptors5).
     and_then (required (cpc_progression canonical) ''progression'') (\<lambda>progression.
     and_then (paginate_entries (progression_pager C E projection_id) (sec_entries progression)) (\<lambda>(pages6, descriptors6).
     let pages = pages1 @ pages2 @ pages3 @ pages4 @ pages5 @ pages6 in
     if MAX_PROJECTION_PAGE_COUNT < length pages
     then Inl (TooManyProjectionPages (length pages) MAX_PROJECTION_PAGE_COUNT)
     else
       and_then (required (chs_state character) ''character.state'') (\<lambda>state1.
       and_then (required (sec_state inventory) ''inventory.state'') (\<lambda>state2.
       and_then (required (sec_state equipment) ''equipment.state'') (\<lambda>state3.
       and_then (required (sec_state pals) ''pals.state'') (\<lambda>state4.
       and_then (required (sec_state bases) ''bases.state'') (\<lambda>state5.
       and_then (required (sec_state progression) ''progression.state'') (\<lambda>state6.
       and_then (describe_sections
           (zip (zip identities
                   [descriptors1, descriptors2, descriptors3, descriptors4, descriptors5, descriptors6])
                [state1, state2, state3, state4, state5, state6])
           \<lparr>st_sections = [], st_page_count = 0, st_entry_count = 0, st_encoded_length = 0\<rparr>) (\<lambda>totals.
       if of_nat MAX_CANONICAL_CONTENT_LEN < st_encoded_length totals
       then Inl (ProjectionTransportTooLarge (st_encoded_length totals) (of_nat MAX_CANONICAL_CONTENT_LEN))
       else if 2 ^ 32 \<le> st_page_count totals then Inl (IntegerOverflow ''descriptor.total_page_count'')
       else if 2 ^ 32 \<le> st_entry_count totals then Inl (IntegerOverflow ''descriptor.total_entry_count'')
       else Inr \<lparr>pcp_pages = pages, pcp_descriptor = \<lparr>prd_projection_id = projection_id, prd_section_count = 6,
              prd_total_page_count = of_nat (st_page_count totals),
              prd_total_entry_count = of_nat (st_entry_count totals),
              prd_total_encoded_length = st_encoded_length totals, prd_sections = st_sections totals\<rparr>\<rparr>))))))))))))))))))))"

definition paginate_cloud_profile ::
  "profile_codec \<Rightarrow> (CloudProfileProjectionPageV1 \<Rightarrow> bytes) \<Rightarrow> CloudProfileProjectionContentV1
     \<Rightarrow> (CanonicalError + PaginatedCloudProfile) option" where
  "paginate_cloud_profile C E content =
     (case reject_raw_oversized_entries C E content of
        Inl e \<Rightarrow> Some (Inl e)
      | Inr _ \<Rightarrow>
          (case canonicalize_cloud_profile_sections C content of
             None \<Rightarrow> None
           | Some (Inl e) \<Rightarrow> Some (Inl e)
           | Some (Inr canonical) \<Rightarrow>
               (case cloud_profile_projection_id C canonical of
                  None \<Rightarrow> None
                | Some (Inl e) \<Rightarrow> Some (Inl e)
                | Some (Inr projection_id) \<Rightarrow> Some (paginate_canonical C E canonical projection_id))))"

section \<open>The pages of a section are its entries, cut greedily\<close>

definition fits :: "'e pager \<Rightarrow> u32 \<Rightarrow> 'e list \<Rightarrow> bool" where
  "fits P index entries = (length entries \<le> MAX_PROJECTION_PAGE_ENTRIES
     \<and> length (pgr_encode P (pager_page P index entries)) \<le> MAX_PROJECTION_PAGE_ENCODED_LEN)"

definition page_descriptor :: "'e pager \<Rightarrow> u32 \<Rightarrow> 'e list \<Rightarrow> CloudProfileProjectionPageDescriptorV1" where
  "page_descriptor P index entries =
     (let encoded = pgr_encode P (pager_page P index entries) in
      \<lparr>pd_section = ProjectionSectionKind_i32 (pgr_section P), pd_page_index = index,
       pd_entry_count = of_nat (length entries), pd_encoded_length = of_nat (length encoded),
       pd_sha256 = pgr_sha256 P encoded, pd_first_sort_key = pgr_sort_key P (hd entries),
       pd_last_sort_key = pgr_sort_key P (last entries)\<rparr>)"

definition chunk_pages :: "'e pager \<Rightarrow> 'e list list \<Rightarrow> CloudProfileProjectionPageV1 list" where
  "chunk_pages P chunks = map (\<lambda>(i, c). pager_page P (of_nat i) c) (enumerate 0 chunks)"

definition chunk_descriptors :: "'e pager \<Rightarrow> 'e list list \<Rightarrow> CloudProfileProjectionPageDescriptorV1 list" where
  "chunk_descriptors P chunks = map (\<lambda>(i, c). page_descriptor P (of_nat i) c) (enumerate 0 chunks)"

text \<open>
  Consecutive nonempty chunks that fit their pages, none of which could have taken the next entry as well.
\<close>

definition greedy_chunks :: "'e pager \<Rightarrow> 'e list list \<Rightarrow> bool" where
  "greedy_chunks P chunks =
     ((\<forall>(i, c)\<in>set (enumerate 0 chunks). c \<noteq> [] \<and> fits P (of_nat i) c)
      \<and> (\<forall>i. Suc i < length chunks \<longrightarrow> \<not> fits P (of_nat i) (chunks ! i @ [hd (chunks ! Suc i)])))"

lemma fits_bounds:
  "fits P i es \<Longrightarrow> length es < 2 ^ 32 \<and> length (pgr_encode P (pager_page P i es)) < 2 ^ 32"
  by (simp add: fits_def MAX_PROJECTION_PAGE_ENTRIES_def MAX_PROJECTION_PAGE_ENCODED_LEN_def)

lemma close_page_fits:
  assumes "fits P i es" "es \<noteq> []"
  shows "close_page P i es (map (pgr_sort_key P) es) = Inr (pager_page P i es, page_descriptor P i es)"
  using assms fits_bounds [OF assms(1)]
  by (auto simp: close_page_def page_descriptor_def fits_def Let_def hd_map last_map not_less neq_Nil_conv)

lemma greedy_singleton: "greedy_chunks P [c] \<longleftrightarrow> c \<noteq> [] \<and> fits P 0 c"
  by (simp add: greedy_chunks_def)

lemma greedy_last:
  "greedy_chunks P (chunks @ [c]) \<Longrightarrow> c \<noteq> [] \<and> fits P (of_nat (length chunks)) c"
  by (simp add: greedy_chunks_def enumerate_append_eq)

lemma greedy_grow:
  assumes "greedy_chunks P (chunks @ [c])" "fits P (of_nat (length chunks)) (c @ [x])"
  shows "greedy_chunks P (chunks @ [c @ [x]])"
proof -
  have "hd (c @ [x]) = hd c" using greedy_last [OF assms(1)] by simp
  then show ?thesis using assms
    by (auto simp: greedy_chunks_def enumerate_append_eq nth_append less_Suc_eq split: if_splits)
qed

lemma greedy_next:
  assumes "greedy_chunks P (chunks @ [c])" "\<not> fits P (of_nat (length chunks)) (c @ [x])"
    "fits P (of_nat (Suc (length chunks))) [x]"
  shows "greedy_chunks P ((chunks @ [c]) @ [[x]])"
  using assms by (auto simp: greedy_chunks_def enumerate_append_eq nth_append less_Suc_eq split: if_splits)

lemma chunk_pages_snoc: "chunk_pages P (chunks @ [c]) = chunk_pages P chunks @ [pager_page P (of_nat (length chunks)) c]"
  by (simp add: chunk_pages_def enumerate_append_eq)

lemma chunk_descriptors_snoc:
  "chunk_descriptors P (chunks @ [c]) = chunk_descriptors P chunks @ [page_descriptor P (of_nat (length chunks)) c]"
  by (simp add: chunk_descriptors_def enumerate_append_eq)

definition paging :: "'e pager \<Rightarrow> 'e list \<Rightarrow> 'e page_state \<Rightarrow> bool" where
  "paging P seen st = (if seen = [] then st = page_state_start
     else \<exists>chunks. greedy_chunks P (chunks @ [pg_current st]) \<and> concat chunks @ pg_current st = seen
       \<and> pg_pages st = chunk_pages P chunks \<and> pg_descriptors st = chunk_descriptors P chunks
       \<and> pg_current_keys st = map (pgr_sort_key P) (pg_current st)
       \<and> pg_page_index st = of_nat (length chunks) \<and> length chunks < 2 ^ 32)"

definition paging_error :: "'e pager \<Rightarrow> 'e list \<Rightarrow> CanonicalError \<Rightarrow> bool" where
  "paging_error P es e \<longleftrightarrow> (\<exists>x\<in>set es. \<exists>i. \<not> fits P i [x]
       \<and> e = ProjectionEntryTooLarge (pgr_section P) (pgr_sort_key P x) (length (pgr_encode P (pager_page P i [x]))))
     \<or> e = IntegerOverflow ''page_index''"

lemma fits_single:
  "fits P i [x] \<longleftrightarrow> length (pgr_encode P (pager_page P i [x])) \<le> MAX_PROJECTION_PAGE_ENCODED_LEN"
  by (simp add: fits_def MAX_PROJECTION_PAGE_ENTRIES_def)

lemma not_fits: "MAX_PROJECTION_PAGE_ENTRIES < length es
    \<or> MAX_PROJECTION_PAGE_ENCODED_LEN < length (pgr_encode P (pager_page P i es)) \<longleftrightarrow> \<not> fits P i es"
  by (auto simp: fits_def)

lemma paginate_entry_paging:
  assumes "paging P seen st"
  shows "case paginate_entry P x st of
     (Inr _, st') \<Rightarrow> paging P (seen @ [x]) st' | (Inl e, _) \<Rightarrow> paging_error P [x] e"
proof (cases "seen = []")
  case True
  then have st: "st = page_state_start" using assms by (simp add: paging_def)
  show ?thesis
  proof (cases "fits P 0 [x]")
    case fit: True
    then have "paginate_entry P x st = (Inr (), st\<lparr>pg_current := [x], pg_current_keys := [pgr_sort_key P x]\<rparr>)"
      using not_fits [of "[x]" P 0] by (simp add: paginate_entry_def st page_state_start_def Let_def)
    then show ?thesis
      using fit by (simp add: paging_def True st page_state_start_def greedy_singleton chunk_pages_def
          chunk_descriptors_def exI [of _ "[]"])
  next
    case False
    then show ?thesis
      using not_fits [of "[x]" P 0]
      by (auto simp: paginate_entry_def st page_state_start_def Let_def paging_error_def)
  qed
next
  case False
  then obtain chunks where inv: "greedy_chunks P (chunks @ [pg_current st])" "concat chunks @ pg_current st = seen"
    "pg_pages st = chunk_pages P chunks" "pg_descriptors st = chunk_descriptors P chunks"
    "pg_current_keys st = map (pgr_sort_key P) (pg_current st)"
    "pg_page_index st = of_nat (length chunks)" "length chunks < 2 ^ 32"
    using assms by (auto simp: paging_def)
  note current = greedy_last [OF inv(1)]
  let ?i = "of_nat (length chunks) :: u32"
  show ?thesis
  proof (cases "fits P ?i (pg_current st @ [x])")
    case True
    then have "paginate_entry P x st = (Inr (), st\<lparr>pg_current := pg_current st @ [x],
        pg_current_keys := pg_current_keys st @ [pgr_sort_key P x]\<rparr>)"
      using not_fits [of "pg_current st @ [x]" P ?i] by (simp add: paginate_entry_def inv Let_def)
    then show ?thesis
      using greedy_grow [OF inv(1) True] inv by (auto simp: paging_def)
  next
    case over: False
    have close: "close_page P ?i (pg_current st) (map (pgr_sort_key P) (pg_current st)) =
        Inr (pager_page P ?i (pg_current st), page_descriptor P ?i (pg_current st))"
      by (rule close_page_fits) (use current in auto)
    have i: "unat ?i = length chunks" using inv(7) by (simp add: unat_of_nat take_bit_eq_mod)
    show ?thesis
    proof (cases "checked_add ?i 1")
      case None
      then show ?thesis
        using current not_fits [of "pg_current st @ [x]" P ?i] over
        by (simp add: paginate_entry_def inv close Let_def paging_error_def)
    next
      case (Some j)
      then have j: "unat j = Suc (length chunks)" using i by (simp add: checked_add_Some_iff)
      have small: "Suc (length chunks) < 2 ^ 32" using unat_less_pow [of j] j by simp
      have j_eq: "j = of_nat (Suc (length chunks))"
        by (rule word_unat_eq_iff [THEN iffD2]) (use small in \<open>simp add: j unat_of_nat take_bit_eq_mod del: of_nat_Suc\<close>)
      show ?thesis
      proof (cases "fits P j [x]")
        case True
        then have "paginate_entry P x st = (Inr (), \<lparr>pg_pages = chunk_pages P (chunks @ [pg_current st]),
            pg_descriptors = chunk_descriptors P (chunks @ [pg_current st]), pg_current = [x],
            pg_current_keys = [pgr_sort_key P x], pg_page_index = j\<rparr>)"
          using current not_fits [of "pg_current st @ [x]" P ?i] over Some
          by (simp add: paginate_entry_def inv close Let_def fits_single chunk_pages_snoc chunk_descriptors_snoc)
        moreover have "greedy_chunks P ((chunks @ [pg_current st]) @ [[x]])"
          using greedy_next [OF inv(1) over] True by (simp only: j_eq)
        moreover have "concat (chunks @ [pg_current st]) @ [x] = seen @ [x]" using inv(2) by simp
        ultimately show ?thesis
          using small by (simp add: paging_def exI [of _ "chunks @ [pg_current st]"] j_eq del: of_nat_Suc)
      next
        case False
        then have "paginate_entry P x st = (Inl (ProjectionEntryTooLarge (pgr_section P) (pgr_sort_key P x)
            (length (pgr_encode P (pager_page P j [x])))), snd (paginate_entry P x st))"
          using current not_fits [of "pg_current st @ [x]" P ?i] over Some
          by (simp add: paginate_entry_def inv close Let_def fits_single)
        then show ?thesis using False by (auto simp: paging_error_def split: prod.split)
      qed
    qed
  qed
qed

lemma paging_run:
  assumes "paging P seen st"
  shows "case try_each (paginate_entry P) es st of
     (Inr _, st') \<Rightarrow> paging P (seen @ es) st' | (Inl e, _) \<Rightarrow> paging_error P es e"
  using assms
proof (induction es arbitrary: seen st)
  case (Cons x es)
  obtain r st' where step: "paginate_entry P x st = (r, st')" by (cases "paginate_entry P x st")
  show ?case
  proof (cases r)
    case (Inl e)
    then show ?thesis using paginate_entry_paging [OF Cons.prems, of x] step by (auto simp: paging_error_def)
  next
    case (Inr u)
    then have "paging P (seen @ [x]) st'" using paginate_entry_paging [OF Cons.prems, of x] step by simp
    from Cons.IH [OF this] show ?thesis
      using step Inr by (auto simp: paging_error_def split: prod.splits sum.splits)
  qed
qed simp

lemma paginate_entries_cases:
  obtains (pages) chunks where "paginate_entries P es = Inr (chunk_pages P chunks, chunk_descriptors P chunks)"
    "concat chunks = es" "greedy_chunks P chunks" "length chunks \<le> 2 ^ 32"
  | (error) e where "paginate_entries P es = Inl e" "paging_error P es e"
proof -
  have start: "paging P [] page_state_start" by (simp add: paging_def)
  obtain r st where run: "try_each (paginate_entry P) es page_state_start = (r, st)"
    by (cases "try_each (paginate_entry P) es page_state_start")
  show thesis
  proof (cases r)
    case (Inl e)
    then show thesis using paging_run [OF start, of es] run by (intro error [of e]) (simp_all add: paginate_entries_def)
  next
    case (Inr u)
    then have inv: "paging P es st" using paging_run [OF start, of es] run by simp
    show thesis
    proof (cases "es = []")
      case True
      then show thesis using inv run Inr
        by (intro pages [of "[]"]) (simp_all add: paging_def paginate_entries_def page_state_start_def
            chunk_pages_def chunk_descriptors_def greedy_chunks_def)
    next
      case False
      then obtain chunks where c: "greedy_chunks P (chunks @ [pg_current st])" "concat chunks @ pg_current st = es"
        "pg_pages st = chunk_pages P chunks" "pg_descriptors st = chunk_descriptors P chunks"
        "pg_current_keys st = map (pgr_sort_key P) (pg_current st)"
        "pg_page_index st = of_nat (length chunks)" "length chunks < 2 ^ 32"
        using inv by (auto simp: paging_def)
      have close: "close_page P (of_nat (length chunks)) (pg_current st) (map (pgr_sort_key P) (pg_current st)) =
          Inr (pager_page P (of_nat (length chunks)) (pg_current st),
            page_descriptor P (of_nat (length chunks)) (pg_current st))"
        by (rule close_page_fits) (use greedy_last [OF c(1)] in auto)
      show thesis
        using c greedy_last [OF c(1)] run Inr close
        by (intro pages [of "chunks @ [pg_current st]"])
          (simp_all add: paginate_entries_def chunk_pages_snoc chunk_descriptors_snoc)
    qed
  qed
qed

text \<open>
  C23: the pages of a section are its entries, cut greedily. Either every page holds the next entries in
  order, at most 250 of them and at most 4 MiB encoded, no page could have taken the first entry of the
  next one, the pages are numbered from zero and every descriptor tells the number of entries, the encoded
  length, the hash and the first and last key of its page; or there is an entry too large for a page of
  its own, or the page numbers run out.
\<close>

theorem paginate_entries_exact:
  "case paginate_entries P es of
     Inr (pages, descriptors) \<Rightarrow> \<exists>chunks. concat chunks = es \<and> greedy_chunks P chunks
       \<and> pages = chunk_pages P chunks \<and> descriptors = chunk_descriptors P chunks
   | Inl e \<Rightarrow> paging_error P es e"
  by (rule paginate_entries_cases [of P es]) auto

section \<open>The pages of a projection\<close>

text \<open>What a receiver reads off the pages: the entries of each section, in order.\<close>

definition payload_character :: "ProjectionPayload option \<Rightarrow> CloudCharacterEntryV1 list" where
  "payload_character p = (case p of Some (PayloadCharacter es) \<Rightarrow> es | _ \<Rightarrow> [])"
definition payload_inventory :: "ProjectionPayload option \<Rightarrow> CloudInventoryEntryV1 list" where
  "payload_inventory p = (case p of Some (PayloadInventory es) \<Rightarrow> es | _ \<Rightarrow> [])"
definition payload_equipment :: "ProjectionPayload option \<Rightarrow> CloudEquipmentEntryV1 list" where
  "payload_equipment p = (case p of Some (PayloadEquipment es) \<Rightarrow> es | _ \<Rightarrow> [])"
definition payload_pals :: "ProjectionPayload option \<Rightarrow> CloudPalEntryV1 list" where
  "payload_pals p = (case p of Some (PayloadPals es) \<Rightarrow> es | _ \<Rightarrow> [])"
definition payload_bases :: "ProjectionPayload option \<Rightarrow> CloudBaseEntryV1 list" where
  "payload_bases p = (case p of Some (PayloadBases es) \<Rightarrow> es | _ \<Rightarrow> [])"
definition payload_progression :: "ProjectionPayload option \<Rightarrow> CloudProgressionUnlockV1 list" where
  "payload_progression p = (case p of Some (PayloadProgression es) \<Rightarrow> es | _ \<Rightarrow> [])"

lemmas payload_defs = payload_character_def payload_inventory_def payload_equipment_def payload_pals_def
  payload_bases_def payload_progression_def

lemmas pager_defs = character_pager_def inventory_pager_def equipment_pager_def pal_pager_def base_pager_def
  progression_pager_def

definition read_pages :: "(ProjectionPayload option \<Rightarrow> 'e list) \<Rightarrow> CloudProfileProjectionPageV1 list \<Rightarrow> 'e list" where
  "read_pages payload pages = concat (map (\<lambda>page. payload (page_payload page)) pages)"

definition payload_length :: "ProjectionPayload option \<Rightarrow> nat" where
  "payload_length p = length (payload_character p) + length (payload_inventory p) + length (payload_equipment p)
     + length (payload_pals p) + length (payload_bases p) + length (payload_progression p)"

lemma map_chunk_pages:
  "(\<And>i c. f (pager_page P i c) = g c) \<Longrightarrow> map f (chunk_pages P chunks) = map g chunks"
proof -
  assume "\<And>i c. f (pager_page P i c) = g c"
  then have "map f (chunk_pages P chunks) = map (g \<circ> snd) (enumerate 0 chunks)"
    by (simp add: chunk_pages_def case_prod_beta comp_def)
  also have "\<dots> = map g (map snd (enumerate 0 chunks))" by (simp only: map_map)
  finally show ?thesis by (simp only: map_snd_enumerate)
qed

lemma read_own_pages:
  "(\<And>c. payload (Some (pgr_build_payload P c)) = c) \<Longrightarrow> read_pages payload (chunk_pages P chunks) = concat chunks"
  using map_chunk_pages [of "\<lambda>page. payload (page_payload page)" P "\<lambda>c. c" chunks]
  by (simp add: read_pages_def pager_page_def projection_page_def)

lemma read_other_pages:
  "(\<And>c. payload (Some (pgr_build_payload P c)) = []) \<Longrightarrow> read_pages payload (chunk_pages P chunks) = []"
  using map_chunk_pages [of "\<lambda>page. payload (page_payload page)" P "\<lambda>c. []" chunks]
  by (simp add: read_pages_def pager_page_def projection_page_def)

lemma read_pages_append: "read_pages payload (xs @ ys) = read_pages payload xs @ read_pages payload ys"
  by (simp add: read_pages_def)

lemma unat_ucast_u64: "unat (ucast (a :: u32) :: u64) = unat a"
  using unat_less_pow [of a] by (simp add: unsigned_ucast_eq take_bit_eq_mod)

definition describes ::
  "profile_codec \<Rightarrow> (CloudProfileProjectionPageV1 \<Rightarrow> bytes) \<Rightarrow> CloudProfileProjectionPageV1
     \<Rightarrow> CloudProfileProjectionPageDescriptorV1 \<Rightarrow> bool" where
  "describes C E page d = (pd_section d = page_section page \<and> pd_page_index d = page_index page
     \<and> unat (pd_entry_count d) = payload_length (page_payload page) \<and> 0 < unat (pd_entry_count d)
     \<and> unat (pd_entry_count d) \<le> MAX_PROJECTION_PAGE_ENTRIES
     \<and> unat (pd_encoded_length d) = length (E page) \<and> length (E page) \<le> MAX_PROJECTION_PAGE_ENCODED_LEN
     \<and> pd_sha256 d = digest256 C (E page))"

lemma chunks_described:
  assumes "greedy_chunks P chunks" "pgr_encode P = E" "pgr_sha256 P = digest256 C"
    and "\<And>c. payload_length (Some (pgr_build_payload P c)) = length c"
  shows "list_all2 (describes C E) (chunk_pages P chunks) (chunk_descriptors P chunks)"
proof -
  have "describes C E (pager_page P (of_nat i) c) (page_descriptor P (of_nat i) c)"
    if "(i, c) \<in> set (enumerate 0 chunks)" for i c
  proof -
    have c: "c \<noteq> []" "fits P (of_nat i) c" using assms(1) that by (auto simp: greedy_chunks_def)
    have len: "payload_length (page_payload (pager_page P (of_nat i) c)) = length c"
      using assms(4) by (simp add: pager_page_def projection_page_def)
    have head: "page_section (pager_page P (of_nat i) c) = ProjectionSectionKind_i32 (pgr_section P)"
      "page_index (pager_page P (of_nat i) c) = of_nat i"
      by (simp_all add: pager_page_def projection_page_def)
    show ?thesis
      using c fits_bounds [OF c(2)] assms(2,3)
      by (simp add: describes_def page_descriptor_def len head fits_def unat_of_nat take_bit_eq_mod Let_def)
  qed
  then show ?thesis
    by (auto simp: chunk_pages_def chunk_descriptors_def list_all2_map1 list_all2_map2 list.rel_refl_strong
        intro!: list.rel_refl_strong)
qed

lemma sum_encoded_lengths_Inr:
  "sum_encoded_lengths acc ds = Inr t \<Longrightarrow> unat t = unat acc + sum_list (map (\<lambda>d. unat (pd_encoded_length d)) ds)"
  by (induction ds arbitrary: acc) (auto simp: checked_add_Some_iff unat_ucast_u64 split: option.splits)

lemma describe_section_Inr:
  assumes "describe_section ((identity, pages), state) totals = Inr totals'"
  shows "map sd_pages (st_sections totals') = map sd_pages (st_sections totals) @ [pages]"
    "st_page_count totals' = st_page_count totals + length pages"
    "st_entry_count totals' = st_entry_count totals + sum_list (map (\<lambda>d. unat (pd_entry_count d)) pages)"
    "unat (st_encoded_length totals') =
       unat (st_encoded_length totals) + sum_list (map (\<lambda>d. unat (pd_encoded_length d)) pages)"
  using assms
  by (auto simp: describe_section_def and_then_eq_Inr checked_add_Some_iff split: option.splits if_splits
      dest!: sum_encoded_lengths_Inr)

lemma describe_sections_Inr:
  assumes "describe_sections items totals = Inr totals'"
  shows "map sd_pages (st_sections totals') = map sd_pages (st_sections totals) @ map (\<lambda>x. snd (fst x)) items
    \<and> st_page_count totals' = st_page_count totals + length (concat (map (\<lambda>x. snd (fst x)) items))
    \<and> st_entry_count totals' = st_entry_count totals
        + sum_list (map (\<lambda>d. unat (pd_entry_count d)) (concat (map (\<lambda>x. snd (fst x)) items)))
    \<and> unat (st_encoded_length totals') = unat (st_encoded_length totals)
        + sum_list (map (\<lambda>d. unat (pd_encoded_length d)) (concat (map (\<lambda>x. snd (fst x)) items)))"
  using assms
proof (induction items arbitrary: totals)
  case (Cons item items)
  obtain identity pages state where item: "item = ((identity, pages), state)" by (metis surj_pair)
  obtain next_totals where step: "describe_section item totals = Inr next_totals"
    and rest: "describe_sections items next_totals = Inr totals'"
    using Cons.prems by (auto simp: and_then_eq_Inr)
  show ?case using Cons.IH [OF rest] describe_section_Inr [OF step [unfolded item]] by (simp add: item)
qed simp

lemma paginate_entries_Inr:
  assumes "paginate_entries P es = Inr (pages, ds)"
  obtains chunks where "pages = chunk_pages P chunks" "ds = chunk_descriptors P chunks" "concat chunks = es"
    "greedy_chunks P chunks"
  using assms by (cases rule: paginate_entries_cases [of P es]) (auto intro: that)

lemma pager_payloads:
  "payload_length (Some (PayloadCharacter c)) = length c" "payload_length (Some (PayloadInventory i)) = length i"
  "payload_length (Some (PayloadEquipment e)) = length e" "payload_length (Some (PayloadPals p)) = length p"
  "payload_length (Some (PayloadBases b)) = length b" "payload_length (Some (PayloadProgression g)) = length g"
  by (simp_all add: payload_length_def payload_defs)

lemma section_pages:
  assumes "paginate_entries P es = Inr (pages, ds)" "pgr_encode P = E" "pgr_sha256 P = digest256 C"
    and "\<And>c. payload_length (Some (pgr_build_payload P c)) = length c"
  shows "list_all2 (describes C E) pages ds"
    "(\<And>c. payload (Some (pgr_build_payload P c)) = c) \<Longrightarrow> read_pages payload pages = es"
    "(\<And>c. payload' (Some (pgr_build_payload P c)) = []) \<Longrightarrow> read_pages payload' pages = []"
proof -
  obtain chunks where c: "pages = chunk_pages P chunks" "ds = chunk_descriptors P chunks" "concat chunks = es"
    "greedy_chunks P chunks" by (rule paginate_entries_Inr [OF assms(1)])
  show "list_all2 (describes C E) pages ds" unfolding c(1,2) by (rule chunks_described [OF c(4) assms(2-4)])
  show "read_pages payload pages = es" if "\<And>c. payload (Some (pgr_build_payload P c)) = c"
    using read_own_pages [of payload P chunks] that by (simp add: c)
  show "read_pages payload' pages = []" if "\<And>c. payload' (Some (pgr_build_payload P c)) = []"
    using read_other_pages [of payload' P chunks] that by (simp add: c)
qed

lemma list_all2_lengths:
  "list_all2 R xs ys \<Longrightarrow> (\<And>x y. R x y \<Longrightarrow> f x = g y) \<Longrightarrow> map g ys = map f xs"
  by (induction rule: list_all2_induct) auto

text \<open>What a successful pagination is made of.\<close>

lemma paginate_canonical_Inr:
  assumes "paginate_canonical C E d pid = Inr r"
  obtains ch items eq pals bases pr p1 p2 p3 p4 p5 p6 d1 d2 d3 d4 d5 d6 ids sts totals where
    "cpc_character d = Some ch" "cpc_inventory d = Some items" "cpc_equipment d = Some eq" "cpc_pals d = Some pals"
    "cpc_bases d = Some bases" "cpc_progression d = Some pr"
    "paginate_entries (character_pager C E pid) (case chs_character ch of None \<Rightarrow> [] | Some e \<Rightarrow> [e]) = Inr (p1, d1)"
    "paginate_entries (inventory_pager C E pid) (sec_entries items) = Inr (p2, d2)"
    "paginate_entries (equipment_pager C E pid) (sec_entries eq) = Inr (p3, d3)"
    "paginate_entries (pal_pager C E pid) (sec_entries pals) = Inr (p4, d4)"
    "paginate_entries (base_pager C E pid) (sec_entries bases) = Inr (p5, d5)"
    "paginate_entries (progression_pager C E pid) (sec_entries pr) = Inr (p6, d6)"
    "canonical_profile_section_identities C d = Inr ids" "length sts = 6"
    "describe_sections (zip (zip ids [d1, d2, d3, d4, d5, d6]) sts)
       \<lparr>st_sections = [], st_page_count = 0, st_entry_count = 0, st_encoded_length = 0\<rparr> = Inr totals"
    "length (p1 @ p2 @ p3 @ p4 @ p5 @ p6) \<le> MAX_PROJECTION_PAGE_COUNT"
    "st_encoded_length totals \<le> of_nat MAX_CANONICAL_CONTENT_LEN"
    "st_page_count totals < 2 ^ 32" "st_entry_count totals < 2 ^ 32"
    "r = \<lparr>pcp_pages = p1 @ p2 @ p3 @ p4 @ p5 @ p6, pcp_descriptor = \<lparr>prd_projection_id = pid, prd_section_count = 6,
              prd_total_page_count = of_nat (st_page_count totals),
              prd_total_entry_count = of_nat (st_entry_count totals),
              prd_total_encoded_length = st_encoded_length totals, prd_sections = st_sections totals\<rparr>\<rparr>"
proof -
  obtain ids ch items eq pals bases pr where secs: "canonical_profile_section_identities C d = Inr ids"
    "cpc_character d = Some ch" "cpc_inventory d = Some items" "cpc_equipment d = Some eq" "cpc_pals d = Some pals"
    "cpc_bases d = Some bases" "cpc_progression d = Some pr"
    using assms by (auto simp: paginate_canonical_def and_then_eq_Inr required_Inr case_prod_beta)
  let ?ch = "case chs_character ch of None \<Rightarrow> [] | Some e \<Rightarrow> [e]"
  obtain q1 q2 q3 q4 q5 q6 where pages: "paginate_entries (character_pager C E pid) ?ch = Inr q1"
    "paginate_entries (inventory_pager C E pid) (sec_entries items) = Inr q2"
    "paginate_entries (equipment_pager C E pid) (sec_entries eq) = Inr q3"
    "paginate_entries (pal_pager C E pid) (sec_entries pals) = Inr q4"
    "paginate_entries (base_pager C E pid) (sec_entries bases) = Inr q5"
    "paginate_entries (progression_pager C E pid) (sec_entries pr) = Inr q6"
    using assms by (auto simp: paginate_canonical_def secs required_def and_then_eq_Inr case_prod_beta)
  let ?pages = "fst q1 @ fst q2 @ fst q3 @ fst q4 @ fst q5 @ fst q6"
  have count: "length ?pages \<le> MAX_PROJECTION_PAGE_COUNT"
    using assms by (cases "MAX_PROJECTION_PAGE_COUNT < length ?pages")
      (simp_all add: paginate_canonical_def secs pages required_def case_prod_beta Let_def)
  obtain s1 s2 s3 s4 s5 s6 where sts: "chs_state ch = Some s1" "sec_state items = Some s2" "sec_state eq = Some s3"
    "sec_state pals = Some s4" "sec_state bases = Some s5" "sec_state pr = Some s6"
    using secs(1) by (auto simp: canonical_profile_section_identities_def secs(2-) and_then_eq_Inr required_def
        split: option.splits)
  let ?init = "\<lparr>st_sections = [], st_page_count = 0, st_entry_count = 0, st_encoded_length = 0\<rparr>"
  obtain totals where totals: "describe_sections (zip (zip ids [snd q1, snd q2, snd q3, snd q4, snd q5, snd q6])
      [s1, s2, s3, s4, s5, s6]) ?init = Inr totals"
    using assms count unfolding paginate_canonical_def secs pages sts required_def option.case and_then_simps
      case_prod_beta Let_def by (auto simp: and_then_eq_Inr not_less)
  show thesis
  proof (rule that [OF secs(2-) _ _ _ _ _ _ secs(1) _ totals])
    show "paginate_entries (character_pager C E pid) ?ch = Inr (fst q1, snd q1)"
      "paginate_entries (inventory_pager C E pid) (sec_entries items) = Inr (fst q2, snd q2)"
      "paginate_entries (equipment_pager C E pid) (sec_entries eq) = Inr (fst q3, snd q3)"
      "paginate_entries (pal_pager C E pid) (sec_entries pals) = Inr (fst q4, snd q4)"
      "paginate_entries (base_pager C E pid) (sec_entries bases) = Inr (fst q5, snd q5)"
      "paginate_entries (progression_pager C E pid) (sec_entries pr) = Inr (fst q6, snd q6)"
      by (simp_all add: pages)
    show "length ?pages \<le> MAX_PROJECTION_PAGE_COUNT" by (rule count)
    have result: "(if of_nat MAX_CANONICAL_CONTENT_LEN < st_encoded_length totals
       then Inl (ProjectionTransportTooLarge (st_encoded_length totals) (of_nat MAX_CANONICAL_CONTENT_LEN))
       else if 2 ^ 32 \<le> st_page_count totals then Inl (IntegerOverflow ''descriptor.total_page_count'')
       else if 2 ^ 32 \<le> st_entry_count totals then Inl (IntegerOverflow ''descriptor.total_entry_count'')
       else Inr \<lparr>pcp_pages = ?pages, pcp_descriptor = \<lparr>prd_projection_id = pid, prd_section_count = 6,
              prd_total_page_count = of_nat (st_page_count totals),
              prd_total_entry_count = of_nat (st_entry_count totals),
              prd_total_encoded_length = st_encoded_length totals, prd_sections = st_sections totals\<rparr>\<rparr>) = Inr r"
      using assms count unfolding paginate_canonical_def secs pages sts required_def option.case and_then_simps
        case_prod_beta Let_def by (simp add: totals)
    then show "st_encoded_length totals \<le> of_nat MAX_CANONICAL_CONTENT_LEN" "st_page_count totals < 2 ^ 32"
      "st_entry_count totals < 2 ^ 32"
      "r = \<lparr>pcp_pages = ?pages, pcp_descriptor = \<lparr>prd_projection_id = pid, prd_section_count = 6,
              prd_total_page_count = of_nat (st_page_count totals),
              prd_total_entry_count = of_nat (st_entry_count totals),
              prd_total_encoded_length = st_encoded_length totals, prd_sections = st_sections totals\<rparr>\<rparr>"
      by (auto split: if_splits)
  qed simp
qed

lemma paginate_profile_Inr:
  assumes "paginate_cloud_profile C E c = Some (Inr r)"
  obtains d pid where "canonicalize_cloud_profile_sections C c = Some (Inr d)"
    "cloud_profile_projection_id C c = Some (Inr pid)" "paginate_canonical C E d pid = Inr r"
proof -
  obtain d where d: "canonicalize_cloud_profile_sections C c = Some (Inr d)"
    using assms by (auto simp: paginate_cloud_profile_def split: sum.splits option.splits)
  from canonical_fixed [OF this] have same: "cloud_profile_projection_id C d = cloud_profile_projection_id C c"
    by simp
  show thesis
    using assms that [OF d] by (auto simp: paginate_cloud_profile_def d same split: sum.splits option.splits)
qed

text \<open>A page encoder to evaluate with: it keeps the section and the index.\<close>

definition sample_page_encode :: "CloudProfileProjectionPageV1 \<Rightarrow> bytes" where
  "sample_page_encode page = [ucast (page_section page), ucast (page_index page)]"

lemma sample_section_pages:
  assumes "pgr_encode P = sample_page_encode"
  shows "paginate_entries P [] = Inr ([], [])"
    "paginate_entries P [a] = Inr ([pager_page P 0 [a]], [page_descriptor P 0 [a]])"
    "paginate_entries P [a, b] = Inr ([pager_page P 0 [a, b]], [page_descriptor P 0 [a, b]])"
  using assms
  by (simp_all add: paginate_entries_def paginate_entry_def page_state_start_def close_page_def page_descriptor_def
      sample_page_encode_def MAX_PROJECTION_PAGE_ENTRIES_def MAX_PROJECTION_PAGE_ENCODED_LEN_def Let_def)

lemma sample_paginated:
  "\<exists>r. paginate_cloud_profile sample_codec sample_page_encode
     (sample_projection [2, 1] [''swift'', ''brave''] [3, 4]) = Some (Inr r)"
proof -
  let ?c = "sample_projection [2, 1] [''swift'', ''brave''] [3, 4]"
  let ?d = "sample_projection [1, 2] [''brave'', ''swift''] [7]"
  have raw: "reject_raw_oversized_entries sample_codec sample_page_encode ?c = Inr ()"
    by (simp add: reject_raw_oversized_entries_def reject_raw_section_def reject_raw_entry_def sample_projection_def
        pager_defs sample_page_encode_def MAX_PROJECTION_PAGE_ENCODED_LEN_def Let_def)
  have "canonicalize_cloud_profile_sections sample_codec ?d = Some (Inr ?d)"
    using canonical_fixed [OF sample_projection_canonical] by simp
  then obtain pid where pid: "cloud_profile_projection_id sample_codec ?d = Some (Inr pid)"
    by (simp add: cloud_profile_projection_id_def canonical_cloud_profile_projection_identity_def
        canonical_profile_section_identities_def sample_projection_def required_def sample_state_def)
  have "\<exists>r. paginate_canonical sample_codec sample_page_encode ?d pid = Inr r"
    by (simp add: paginate_canonical_def canonical_profile_section_identities_def sample_projection_def required_def
        sample_state_def sample_section_pages pager_defs describe_section_def checked_add_def page_descriptor_def
        sample_page_encode_def MAX_PROJECTION_PAGE_COUNT_def MAX_CANONICAL_CONTENT_LEN_def section_identity_def
        word_less_nat_alt Let_def)
  then show ?thesis by (auto simp: paginate_cloud_profile_def raw sample_projection_canonical pid)
qed

text \<open>
  C20: the pages of a projection hold exactly its canonical content. Reading the entries of a section off
  the pages, in order, gives the entries of that section of the canonical content, and the
  descriptor names the identity of the projection the pages were made from.
\<close>

theorem projection_pages_reassemble:
  assumes "paginate_cloud_profile C E c = Some (Inr r)"
  shows "\<exists>d. canonicalize_cloud_profile_sections C c = Some (Inr d)
    \<and> cloud_profile_projection_id C c = Some (Inr (prd_projection_id (pcp_descriptor r)))
    \<and> map_option (\<lambda>s. case chs_character s of None \<Rightarrow> [] | Some e \<Rightarrow> [e]) (cpc_character d)
        = Some (read_pages payload_character (pcp_pages r))
    \<and> map_option sec_entries (cpc_inventory d) = Some (read_pages payload_inventory (pcp_pages r))
    \<and> map_option sec_entries (cpc_equipment d) = Some (read_pages payload_equipment (pcp_pages r))
    \<and> map_option sec_entries (cpc_pals d) = Some (read_pages payload_pals (pcp_pages r))
    \<and> map_option sec_entries (cpc_bases d) = Some (read_pages payload_bases (pcp_pages r))
    \<and> map_option sec_entries (cpc_progression d) = Some (read_pages payload_progression (pcp_pages r))"
proof -
  obtain d pid where d: "canonicalize_cloud_profile_sections C c = Some (Inr d)"
    and pid: "cloud_profile_projection_id C c = Some (Inr pid)" and run: "paginate_canonical C E d pid = Inr r"
    by (rule paginate_profile_Inr [OF assms])
  from run show ?thesis
  proof (rule paginate_canonical_Inr, goal_cases)
    case (1 ch items eq pals bases pr p1 p2 p3 p4 p5 p6 d1 d2 d3 d4 d5 d6 ids sts totals)
    note pages = section_pages(2,3) [where E = E and C = C, OF 1(7)] section_pages(2,3) [where E = E and C = C, OF 1(8)]
      section_pages(2,3) [where E = E and C = C, OF 1(9)] section_pages(2,3) [where E = E and C = C, OF 1(10)]
      section_pages(2,3) [where E = E and C = C, OF 1(11)] section_pages(2,3) [where E = E and C = C, OF 1(12)]
    show ?case
      using d pid
      by (simp add: 1(1-6) 1(20) read_pages_append pages pager_defs pager_payloads payload_defs)
  qed
qed

theorem projection_pages_reassemble_witness:
  "\<exists>r. paginate_cloud_profile sample_codec sample_page_encode
       (sample_projection [2, 1] [''swift'', ''brave''] [3, 4]) = Some (Inr r)
     \<and> read_pages payload_inventory (pcp_pages r) = [sample_item 1, sample_item 2]
     \<and> read_pages payload_bases (pcp_pages r) = [sample_base [7]]"
proof -
  obtain r where r: "paginate_cloud_profile sample_codec sample_page_encode
      (sample_projection [2, 1] [''swift'', ''brave''] [3, 4]) = Some (Inr r)" using sample_paginated by blast
  with projection_pages_reassemble [OF r] show ?thesis
    by (auto simp: sample_projection_canonical) (auto simp: sample_projection_def)
qed

text \<open>
  C22: the descriptor of a paginated projection is right about its pages: the descriptors of its sections
  describe the pages one by one, in order, with at most 250 entries and 4 MiB each; the totals are the
  number of pages, at most 2048, of entries, and of encoded bytes, at most 128 MiB, without wrap-around.
\<close>

theorem projection_descriptor_exact:
  assumes "paginate_cloud_profile C E c = Some (Inr r)"
  shows "list_all2 (describes C E) (pcp_pages r) (concat (map sd_pages (prd_sections (pcp_descriptor r))))
    \<and> unat (prd_total_page_count (pcp_descriptor r)) = length (pcp_pages r)
    \<and> length (pcp_pages r) \<le> MAX_PROJECTION_PAGE_COUNT
    \<and> unat (prd_total_entry_count (pcp_descriptor r)) =
        sum_list (map (\<lambda>page. payload_length (page_payload page)) (pcp_pages r))
    \<and> unat (prd_total_encoded_length (pcp_descriptor r)) = sum_list (map (\<lambda>page. length (E page)) (pcp_pages r))
    \<and> sum_list (map (\<lambda>page. length (E page)) (pcp_pages r)) \<le> MAX_CANONICAL_CONTENT_LEN"
proof -
  obtain d pid where run: "paginate_canonical C E d pid = Inr r" by (rule paginate_profile_Inr [OF assms])
  from run show ?thesis
  proof (rule paginate_canonical_Inr, goal_cases)
    case (1 ch items eq pals bases pr p1 p2 p3 p4 p5 p6 d1 d2 d3 d4 d5 d6 ids sts totals)
    note each = section_pages(1) [where E = E and C = C, OF 1(7)] section_pages(1) [where E = E and C = C, OF 1(8)]
      section_pages(1) [where E = E and C = C, OF 1(9)] section_pages(1) [where E = E and C = C, OF 1(10)]
      section_pages(1) [where E = E and C = C, OF 1(11)] section_pages(1) [where E = E and C = C, OF 1(12)]
    let ?ps = "p1 @ p2 @ p3 @ p4 @ p5 @ p6" and ?ds = "d1 @ d2 @ d3 @ d4 @ d5 @ d6"
    have all: "list_all2 (describes C E) ?ps ?ds"
      by (intro list_all2_appendI each) (simp_all add: pager_defs pager_payloads)
    have "length ids = 6"
      using 1(13) by (auto simp: canonical_profile_section_identities_def and_then_eq_Inr)
    then have sections: "map (\<lambda>x. snd (fst x)) (zip (zip ids [d1, d2, d3, d4, d5, d6]) sts) = [d1, d2, d3, d4, d5, d6]"
      using 1(14) by (intro nth_equalityI) (auto simp: less_Suc_eq numeral_eq_Suc)
    note totals = describe_sections_Inr [OF 1(15), unfolded sections, simplified]
    have counts: "map (\<lambda>d. unat (pd_entry_count d)) ?ds = map (\<lambda>page. payload_length (page_payload page)) ?ps"
      "map (\<lambda>d. unat (pd_encoded_length d)) ?ds = map (\<lambda>page. length (E page)) ?ps"
      by (rule list_all2_lengths [OF all], simp add: describes_def)+
    have sums: "sum_list (map (\<lambda>d. unat (pd_entry_count d)) ?ds) =
        sum_list (map (\<lambda>page. payload_length (page_payload page)) ?ps)"
      "sum_list (map (\<lambda>d. unat (pd_encoded_length d)) ?ds) = sum_list (map (\<lambda>page. length (E page)) ?ps)"
      by (simp_all only: counts)
    have bytes: "unat (st_encoded_length totals) \<le> MAX_CANONICAL_CONTENT_LEN"
      using 1(17) by (simp add: word_le_nat_alt MAX_CANONICAL_CONTENT_LEN_def)
    show ?case
      using all 1(16,18,19) totals sums bytes list_all2_lengthD [OF all]
      by (simp add: 1(20) unat_of_nat take_bit_eq_mod del: of_nat_add)
  qed
qed

theorem projection_descriptor_exact_witness:
  "\<exists>r. paginate_cloud_profile sample_codec sample_page_encode
       (sample_projection [2, 1] [''swift'', ''brave''] [3, 4]) = Some (Inr r)
     \<and> unat (prd_total_page_count (pcp_descriptor r)) = length (pcp_pages r)"
proof -
  obtain r where r: "paginate_cloud_profile sample_codec sample_page_encode
      (sample_projection [2, 1] [''swift'', ''brave''] [3, 4]) = Some (Inr r)" using sample_paginated by blast
  with projection_descriptor_exact [OF r] show ?thesis by blast
qed

end
