(* ===== verification/Spec2Isabelle.thy ===== *)
theory Spec2Isabelle
  imports Domain_Settings Domain_Core State_Reducer State_Replay Server_Agent Telemetry_Latest
    Telemetry_Ingest Local_Position Windows_Hotkeys Windows_Tracker Core_Control Core_Supervisor Overlay_Control
    Overlay_Host Agent_Pipeline Knowledge_Graph Companion_Breeding Wire_Pagination
begin

text \<open>
  A model of the PalBeacon core and the theorems that make it correct.

  PalBeacon shows a map overlay over the game Palworld.  A position comes from a server agent over a
  telemetry channel, from the memory of the game on the same machine or from a replayed fixture, a reducer turns the events of the source into the
  state of the overlay, and a core process keeps the settings, talks to the management window and
  the overlay over a local pipe, supervises the overlay process, tracks the game window and
  registers global hotkeys.  Beside the map, a companion answers questions about the game from a
  knowledge graph and plans breeding, and the profile of a player is identified by its content and cut
  into pages for the cloud.  The model covers these parts; all paths below are under
  \<open>crates/\<close>.

  \<^bold>\<open>Theories and sources.\<close>
  \<^item> \<open>Pal_Prelude\<close>: results, checked and saturating arithmetic, loops over items with early return.
  \<^item> \<open>Ieee_Float\<close>: the IEEE operations the code uses, with rounding, NaN and infinities.
  \<^item> \<open>Domain_Settings\<close>, \<open>Domain_Core\<close>: \<open>pal-domain\<close>, the settings, positions, windows and views with
    their validation.
  \<^item> \<open>State_Position_Source\<close>, \<open>State_Reducer\<close>, \<open>State_Replay\<close>: \<open>pal-state\<close>, the source contract, the
    reducer and the replay source.
  \<^item> \<open>Boot_Filter\<close>, \<open>Control_Queue\<close>, \<open>Server_Agent\<close>: \<open>pal-state/src/server_agent.rs\<close>, the channel
    between the telemetry client and the overlay.
  \<^item> \<open>Local_Position\<close>: \<open>pal-overlay-win/src/local_position_source.rs\<close>, the pump that reads the position
    from the memory of the game and publishes it through the same channel.
  \<^item> \<open>Telemetry_Wire\<close>, \<open>Telemetry_Clock\<close>, \<open>Telemetry_Latest\<close>, \<open>Telemetry_Ingest\<close>: \<open>pal-telemetry\<close>,
    validation, clock evidence, the latest-value cell and endpoint, the ingesting consumer.
  \<^item> \<open>Protocol_Frames\<close>, \<open>Protocol_Convert\<close>, \<open>Ipc_Handshake\<close>: \<open>pal-protocol\<close> and \<open>pal-windows-ipc\<close>, the
    framing, the conversions between domain and wire, the handshake gate.
  \<^item> \<open>Core_Settings\<close>, \<open>Core_Control\<close>, \<open>Core_Supervisor\<close>: \<open>pal-core-win\<close>, the versioned settings store,
    the control session and the pipe loop that drives it, the restarts of the overlay process.
  \<^item> \<open>Windows_Hotkeys\<close>, \<open>Windows_Tracker\<close>: \<open>pal-windows\<close>, the hotkey registry and the window tracker.
  \<^item> \<open>Overlay_Control\<close>, \<open>Overlay_Host\<close>: \<open>pal-overlay-control\<close> and \<open>pal-overlay-win\<close>, the control document
    and the lifecycle of the overlay window, which follows the events of the tracker.
  \<^item> \<open>Agent_Pipeline\<close>: \<open>pal-agent\<close>, the server side that polls the game and publishes the telemetry.
  \<^item> \<open>Knowledge_Graph\<close>: \<open>pal-knowledge-graph\<close>, building, querying and checking wiki pages.
  \<^item> \<open>Companion_Breeding\<close>: \<open>pal-companion-service/src/breeding.rs\<close>, the breeding planner.
  \<^item> \<open>Wire_Common\<close>, \<open>Wire_Snapshot\<close>, \<open>Wire_Projection\<close>, \<open>Wire_Pagination\<close>:
    \<open>pal-wire/src/canonical.rs\<close>, the canonical content and identity of personal snapshots and cloud
    projections, and the pages and descriptors of a projection.

  \<^bold>\<open>How code is modelled.\<close>  A struct is a record with prefixed field names, an enum a datatype,
  \<open>Result\<close> a sum with the error on the left, a panic (\<open>expect\<close>, \<open>unreachable!\<close>, indexing) the outcome
  \<open>None\<close> or an error of its own.  Machine integers are words; floats are the values of \<open>Ieee_Float\<close>.
  State behind a mutex is passed explicitly, and concurrency is a list of the steps in the order the
  lock grants them.  What a function reads from outside (network answers, time, chunks of a pipe,
  answers of the operating system) is a script, an argument quantified over in the theorems;
  functions of other packages (the protobuf codec, the X.509 parser, SHA-256) are arguments too,
  with the laws the code relies on as hypotheses.  Loops are recursion over what they consume, so no
  fuel is needed: over the rows, the bytes, the queued frames or the script.  The breeding planner's
  walk over a solution may not end on arbitrary data, so it is a partial function; on every solution
  the planner computes it is proved to return.

  \<^bold>\<open>Interfaces.\<close>  \<open>position_source\<close> is the contract between a source and the reducer, interpreted on
  the server-agent inbox and on the replay; \<open>retired_set\<close> is what both Bloom filters promise;
  \<open>bounded_queue\<close> is what the control ring promises; \<open>hotkey_table\<close> is what the registry relies on of
  its backend, interpreted on every backend extended by a record of its answers; \<open>min_order\<close> is what
  the selection of a window relies on of the comparison, interpreted on the order of the tracker;
  \<open>shell_backend\<close> is what the overlay window's controller relies on of the window, interpreted on a
  window with scripted failures; \<open>stable_graph\<close> is what the knowledge graph relies on of the graph
  structure, interpreted on lists of nodes and edges.

  \<^bold>\<open>What is shown.\<close>  No event a source delivers is dropped by the reducer, which implements the
  abstract monitor and never panics; a retired boot identity never comes back; the latest value never
  rolls back; clock evidence bounds the age of what is shown; the consumer closes its sessions.  A locally read
  position is published only from the exact build, between two equal walks over its pointers.  The
  stream decoder equals the byte-wise one, is bounded in memory and inverts the encoder; domain
  values survive the wire.  The settings change only on an authorised request against their current
  version, every session ends with the overlay locked.  The registry knows exactly the hotkeys the
  system holds; the events of the tracker describe exactly its window, and the overlay is visible or
  takes input only over an attached and visible game window.  The agent numbers what it publishes in
  order and withdraws the position of a player it can no longer trust.  A query of the knowledge
  graph returns exactly the nodes its hops and budget allow; a breeding plan needs the fewest
  generations there are.  The identity of a snapshot or a projection does not depend on the order of
  what it lists, the canonical form is a fixed point, and the pages of a projection reassemble to
  it under a descriptor that is exact.

  \<^bold>\<open>Not modelled.\<close>  Rendering, Direct3D hooks and window handles, named-pipe handles and threads,
  HTTP, files and archives, the cloud services, the offline tools and the user interface: these are
  calls of the operating system and of third-party packages with little state of their own.
\<close>

section \<open>Driving the server-agent source\<close>

text \<open>
  What can happen to the server-agent inbox, in any order: the transport calls a method of the
  sender, or the overlay polls the source.
\<close>

datatype agent_action = AgentCall sender_call | AgentPoll u64

fun agent_source_action :: "agent_action \<Rightarrow> Inbox source_action" where
  "agent_source_action (AgentCall call) = Transport (sender_effect call)"
| "agent_source_action (AgentPoll now) = PollAt now"

text \<open>The reducer fed with a list of source events, from its initial state.\<close>

definition overlay_after :: "PositionSourceEvent list \<Rightarrow> StateReducer" where
  "overlay_after es = foldl apply_position_source StateReducer_default es"

lemma agent_actions_admitted:
  "admitted server_agent_poll (\<lambda>_ _. True) is_sender_call ib (map agent_source_action as)"
proof (induction as arbitrary: ib)
  case (Cons a as)
  then show ?case by (cases a) (auto simp: is_sender_call_def)
qed simp

lemma overlay_follows_monitor:
  assumes "monitor_run monitor_init es = Some m"
  shows "monitor_of (overlay_after es) = m \<and> reducer_drops (overlay_after es) = [0, 0, 0, 0, 0]"
  using monitor_run_accepted [of StateReducer_default es m] assms
  by (simp add: overlay_after_def monitor_of_default reducer_drops_default)

lemma agent_run_relates:
  assumes "server_agent_channel world subject = Inr ib"
    and "drive server_agent_poll ib (map agent_source_action as) = (es, ib')"
  obtains m where "monitor_run monitor_init es = Some m" "inbox_relates ib' m"
  using server_agent.drive_accepted [OF server_agent_channel_relates [OF assms(1)]
      agent_actions_admitted assms(2)] by blast

lemma sample_accepted_becomes_position:
  "monitor_step (monitor_of r) (Sample p) = Some m \<Longrightarrow>
     sr_last_position (apply_position_source r (Sample p)) = Some p
     \<and> has_trusted_position (apply_position_source r (Sample p))"
  by (auto simp: monitor_of_def monitor_sample_ok_def monitor_open_def apply_sample_def
      accept_sample_def has_trusted_position_def Let_def split: if_splits option.splits)

lemma PositionSample_new_coordinates:
  "PositionSample_new w s b g n x y z h c = Inr p \<Longrightarrow> (ps_x p, ps_y p, ps_z p) = (x, y, z)"
  by (auto simp: PositionSample_new_def split: if_splits)

section \<open>Properties that span components\<close>

text \<open>
  C1: nothing the server agent reports is lost or misordered on its way to the overlay. For
  every interleaving of sender calls (connections, frames, clock failures, disconnections, in
  any order and on any generation) with polls, the events delivered form a sequence the
  reducer accepts in full: all five of its drop counters stay at zero.
\<close>

theorem server_agent_feeds_reducer:
  assumes "server_agent_channel world subject = Inr ib"
  shows "reducer_drops (overlay_after
     (fst (drive server_agent_poll ib (map agent_source_action as)))) = [0, 0, 0, 0, 0]"
proof -
  obtain es ib' where run: "drive server_agent_poll ib (map agent_source_action as) = (es, ib')"
    by fastforce
  obtain m where "monitor_run monitor_init es = Some m" using agent_run_relates [OF assms run] by blast
  with overlay_follows_monitor run show ?thesis by simp
qed

theorem server_agent_feeds_reducer_witness:
  "reducer_drops (overlay_after (fst (drive server_agent_poll sample_inbox
     (map agent_source_action [AgentCall (CallConnect 1), AgentPoll 10,
        AgentCall (CallPublish (sample_frame 1 1 5 (FFin 10)) 20), AgentPoll 30,
        AgentCall (CallDisconnect 1), AgentPoll 40])))) = [0, 0, 0, 0, 0]"
  by (rule server_agent_feeds_reducer [OF sample_inbox_channel])

text \<open>
  The same holds of a replay: polled at times that never decrease, a loaded fixture, looping
  or not, delivers a sequence the reducer accepts in full, and no poll panics.
\<close>

lemma replay_feeds_reducer:
  assumes "replay_from_path as_f64 parsed config = Inr s" and "sorted ts"
  shows "reducer_drops (overlay_after (fst (drive replay_poll s (map PollAt ts)))) = [0, 0, 0, 0, 0]
    \<and> fst (replay_poll (snd (drive replay_poll s (map PollAt ts)))
          (if ts = [] then 0 else last ts)) \<noteq> Inl ReplayPanic"
proof -
  note loaded = replay_from_path_Inr [OF assms(1)]
  have adm: "admitted replay_poll replay_time_ok (\<lambda>_. False) s (map PollAt ts)"
    using assms(2) loaded(6) by (intro monotone_polls_admitted) (auto simp: replay_polled_by_def)
  obtain es t where run: "drive replay_poll s (map PollAt ts) = (es, t)" by fastforce
  obtain m where m: "monitor_run monitor_init es = Some m" "replay_relates t m"
    using replay.drive_accepted [OF loaded(1) adm run] by blast
  have "replay_polled_by t (if ts = [] then 0 else last ts)"
    using monotone_polls_end [OF assms(2), of s] loaded(6) run by (simp add: replay_polled_by_def)
  then have "replay_time_ok t (if ts = [] then 0 else last ts)"
    by (simp add: replay_time_ok_def replay_polled_by_def)
  from replay_poll_ok [OF m(2) this] have
    "fst (replay_poll t (if ts = [] then 0 else last ts)) \<noteq> Inl ReplayPanic"
    by (cases "replay_poll t (if ts = [] then 0 else last ts)") auto
  with overlay_follows_monitor [OF m(1)] run show ?thesis by simp
qed

lemma replay_feeds_reducer_example:
  "reducer_drops (overlay_after (fst (drive replay_poll sample_replay
     (map PollAt [900, 1000, 1200, 1300])))) = [0, 0, 0, 0, 0]"
  using replay_feeds_reducer [OF sample_replay_loaded, of "[900, 1000, 1200, 1300]"] by simp

text \<open>
  C2: an envelope the ingest object accepts is the position the overlay shows. After any
  history of the server-agent source, if the overlay has consumed the events so far and an
  envelope is accepted with no control event still queued, the next poll hands over its sample
  and the reducer then has a trusted position with the envelope's coordinates.
\<close>

theorem accepted_envelope_reaches_overlay:
  assumes "server_agent_channel world subject = Inr ib0"
    and "drive server_agent_poll ib0 (map agent_source_action as) = (es, ib)"
    and "ingest_accept ti ib v t = (Inr InAccepted, ti', ib')"
    and "fst (ControlQueue_pop (ib_pending_controls ib')) = None"
  shows "\<exists>p. fst (server_agent_poll ib' now) = Inr (Some (Sample p))
    \<and> (ps_x p, ps_y p, ps_z p) = (env_position_x v, env_position_y v, env_position_z v)
    \<and> sr_last_position (overlay_after (es @ [Sample p])) = Some p
    \<and> has_trusted_position (overlay_after (es @ [Sample p]))"
proof -
  obtain m where m: "monitor_run monitor_init es = Some m" "inbox_relates ib m"
    by (rule agent_run_relates [OF assms(1,2)])
  obtain e where e: "publish_position ib (ingest_frame ti v e) t = (Inr InAccepted, ib')"
    using assms(3) by (rule ingest_accept_published)
  define frame where "frame = ingest_frame ti v e"
  have "fst (publish_position ib frame t) = Inr InAccepted" using e by (simp add: frame_def)
  then obtain p where pending: "ib_pending_sample (snd (publish_position ib frame t)) = Some (Sample p)"
    and new: "PositionSample_new (fr_world_alias frame) (fr_subject_id frame)
      (fr_agent_boot_id frame) (fr_generation frame) (fr_sequence frame) (fr_x frame) (fr_y frame)
      (fr_z frame) (fr_heading_degrees frame)
      (received_with_age (fr_age_upper_bound_ms frame) t) = Inr p"
    by (rule accepted_frame_sample)
  have p: "ib_pending_sample ib' = Some (Sample p)"
    "(ps_x p, ps_y p, ps_z p) = (env_position_x v, env_position_y v, env_position_z v)"
    using pending e PositionSample_new_coordinates [OF new] by (simp_all add: frame_def ingest_frame_def)
  have rel: "inbox_relates ib' m" using publish_relates [OF m(2), of "ingest_frame ti v e" t] e by simp
  obtain ib2 where poll: "server_agent_poll ib' now = (Inr (Some (Sample p)), ib2)"
    using assms(4) p(1)
    by (cases "ControlQueue_pop (ib_pending_controls ib')") (auto simp: server_agent_poll_def)
  obtain m' where "monitor_step m (Sample p) = Some m'"
    using server_agent.poll_event [OF rel _ poll] by blast
  with overlay_follows_monitor [OF m(1)]
  have "monitor_step (monitor_of (overlay_after es)) (Sample p) = Some m'" by simp
  from sample_accepted_becomes_position [OF this] p(2) poll show ?thesis
    by (auto simp: overlay_after_def)
qed

definition drained_inbox :: Inbox where
  "drained_inbox = snd (server_agent_poll (sender_effect (CallConnect 1) sample_inbox) 10)"

lemma drained_run:
  "drive server_agent_poll sample_inbox (map agent_source_action [AgentCall (CallConnect 1), AgentPoll 10])
     = ([Connected 1], drained_inbox)"
  by (simp add: drained_inbox_def sample_inbox_value sample_run_defs server_agent_poll_def
      ControlQueue_pop_def)

lemma drained_publish:
  "fst (publish_position drained_inbox
      (ingest_frame sample_ingest ingest_sample_envelope sample_estimate) 100) = Inr InAccepted"
  "cq_len (ib_pending_controls (snd (publish_position drained_inbox
      (ingest_frame sample_ingest ingest_sample_envelope sample_estimate) 100))) = 0"
  by (simp_all add: drained_inbox_def sample_inbox_value sample_run_defs server_agent_poll_def
      ControlQueue_pop_def ingest_frame_def sample_ingest_def ingest_sample_envelope_def)

theorem accepted_envelope_reaches_overlay_witness:
  "\<exists>p. ps_x p = FFin 1 \<and> sr_last_position (overlay_after [Connected 1, Sample p]) = Some p
    \<and> has_trusted_position (overlay_after [Connected 1, Sample p])"
proof -
  let ?ib' = "snd (publish_position drained_inbox
      (ingest_frame sample_ingest ingest_sample_envelope sample_estimate) 100)"
  have valid: "validate_envelope ingest_sample_envelope (ti_coordinate_profile_sha256 sample_ingest) = Inr ()"
    using ingest_sample_envelope_valid by (simp add: sample_ingest_def)
  have acc: "ingest_accept sample_ingest drained_inbox ingest_sample_envelope 100 =
      (Inr InAccepted, sample_ingest, ?ib')"
    using drained_publish(1)
    by (simp add: ingest_accept_def valid sample_ingest_current case_prod_beta Let_def)
  have "fst (ControlQueue_pop (ib_pending_controls ?ib')) = None"
    using drained_publish(2) by (simp add: ControlQueue_pop_def)
  from accepted_envelope_reaches_overlay [OF sample_inbox_channel drained_run acc this]
  obtain p where p: "(ps_x p, ps_y p, ps_z p) = (env_position_x ingest_sample_envelope,
        env_position_y ingest_sample_envelope, env_position_z ingest_sample_envelope)"
    "sr_last_position (overlay_after ([Connected 1] @ [Sample p])) = Some p"
    "has_trusted_position (overlay_after ([Connected 1] @ [Sample p]))"
    by blast
  have "env_position_x ingest_sample_envelope = FFin 1" by (simp add: ingest_sample_envelope_def)
  with p show ?thesis by auto
qed

end
